(* ===== verification/Aegon_Prelude.thy ===== *)
theory Aegon_Prelude
  imports Main "HOL-Library.Word" "HOL-Library.Sublist" "HOL-Library.Char_ord"
begin

text \<open>
  Vocabulary shared by every component of the development: the C++ standard library's
  \<^verbatim>\<open>std::string_view\<close> searches, slices and trims on HOL strings, the first-match search that
  the scanning routines refine, 64-bit \<^verbatim>\<open>size_t\<close> arithmetic with its wrap-around written out,
  and the simplification collections the component theories add to.

  A \<^verbatim>\<open>std::string_view\<close> is a \<open>string\<close> (a list of 8-bit characters); \<^verbatim>\<open>npos\<close> is
  \<open>None\<close>. Views are modelled by the text they show: no routine modelled here mutates a buffer
  that a live view points into, except the in-place unmasking of WebSocket payloads, which has
  its own model.
\<close>

named_theorems scan_simps
  \<open>the scanning routines of every SIMD tier, rewritten to their reference\<close>

named_theorems eval_simps
  \<open>equations that evaluate searches and the program's routines on literal inputs\<close>

subsection \<open>Characters and machine sizes\<close>

abbreviation CR :: char where "CR \<equiv> CHR 0x0D"
abbreviation LF :: char where "LF \<equiv> CHR 0x0A"
abbreviation HTAB :: char where "HTAB \<equiv> CHR 0x09"
abbreviation SP :: char where "SP \<equiv> CHR 0x20"

type_synonym byte = "8 word"
type_synonym u64 = "64 word"

text \<open>The value of a character as \<^verbatim>\<open>unsigned char\<close>.\<close>

definition u8 :: "char \<Rightarrow> nat" where
  "u8 c = of_char c"

lemma u8_less [simp]: "u8 c < 256"
  by (simp add: u8_def)

lemma u8_inject [simp]: "u8 c = u8 d \<longleftrightarrow> c = d"
  by (simp add: u8_def)

lemma char_u8: "char_of (u8 c) = c"
  by (simp add: u8_def)

text \<open>\<^verbatim>\<open>size_t\<close> is 64 bits wide: sums wrap around.\<close>

definition size_wrap :: "nat \<Rightarrow> nat" where
  "size_wrap n = n mod 2 ^ 64"

lemma size_wrap_id [simp]: "n < 2 ^ 64 \<Longrightarrow> size_wrap n = n"
  by (simp add: size_wrap_def)

lemma size_wrap_bound [simp]: "size_wrap n < 2 ^ 64"
  by (simp add: size_wrap_def)

text \<open>The largest size a \<^verbatim>\<open>std::string\<close> can have (\<^verbatim>\<open>max_size()\<close>).\<close>

definition string_max_size :: nat where
  "string_max_size = 2 ^ 63 - 1"

subsection \<open>First matches\<close>

text \<open>
  The first index in \<open>[i..<n]\<close> that satisfies a predicate: what every forward search of the
  program computes. Vectorised searches inspect this interval block by block.
\<close>

definition first_in :: "(nat \<Rightarrow> bool) \<Rightarrow> nat \<Rightarrow> nat \<Rightarrow> nat option" where
  "first_in Q i n = List.find Q [i..<n]"

lemma first_in_Some_iff:
  "first_in Q i n = Some j \<longleftrightarrow> i \<le> j \<and> j < n \<and> Q j \<and> (\<forall>k. i \<le> k \<and> k < j \<longrightarrow> \<not> Q k)"
proof -
  have "first_in Q i n = Some j \<longleftrightarrow>
    (\<exists>a < n - i. Q (i + a) \<and> j = i + a \<and> (\<forall>b < a. \<not> Q (i + b)))"
    by (auto simp: first_in_def find_Some_iff)
  also have "\<dots> \<longleftrightarrow> i \<le> j \<and> j < n \<and> Q j \<and> (\<forall>k. i \<le> k \<and> k < j \<longrightarrow> \<not> Q k)"
  proof
    assume "\<exists>a < n - i. Q (i + a) \<and> j = i + a \<and> (\<forall>b < a. \<not> Q (i + b))"
    then obtain a where a: "a < n - i" "Q (i + a)" "j = i + a" "\<And>b. b < a \<Longrightarrow> \<not> Q (i + b)"
      by auto
    have "\<not> Q k" if "i \<le> k" "k < j" for k
      using a(4) [of "k - i"] a(3) that by simp
    with a show "i \<le> j \<and> j < n \<and> Q j \<and> (\<forall>k. i \<le> k \<and> k < j \<longrightarrow> \<not> Q k)" by auto
  next
    assume r: "i \<le> j \<and> j < n \<and> Q j \<and> (\<forall>k. i \<le> k \<and> k < j \<longrightarrow> \<not> Q k)"
    then show "\<exists>a < n - i. Q (i + a) \<and> j = i + a \<and> (\<forall>b < a. \<not> Q (i + b))"
      by (intro exI [of _ "j - i"]) auto
  qed
  finally show ?thesis .
qed

lemma first_in_None_iff:
  "first_in Q i n = None \<longleftrightarrow> (\<forall>k. i \<le> k \<and> k < n \<longrightarrow> \<not> Q k)"
  by (auto simp: first_in_def find_None_iff)

lemma first_in_empty [simp]: "n \<le> i \<Longrightarrow> first_in Q i n = None"
  by (simp add: first_in_def)

lemma first_in_step:
  "i < n \<Longrightarrow> first_in Q i n = (if Q i then Some i else first_in Q (Suc i) n)"
  by (simp add: first_in_def upt_conv_Cons)

lemma first_in_skip:
  assumes "i \<le> m" "m \<le> n" "\<And>k. i \<le> k \<Longrightarrow> k < m \<Longrightarrow> \<not> Q k"
  shows "first_in Q i n = first_in Q m n"
proof (cases "first_in Q m n")
  case None
  have "\<not> Q k" if "i \<le> k" "k < n" for k
    using None assms(3) [of k] that by (cases "k < m") (auto simp: first_in_None_iff)
  then have "first_in Q i n = None" by (simp add: first_in_None_iff)
  with None show ?thesis by simp
next
  case (Some j)
  have "\<not> Q k" if "i \<le> k" "k < j" for k
    using Some assms(3) [of k] that by (cases "k < m") (auto simp: first_in_Some_iff)
  with Some assms(1) have "first_in Q i n = Some j" by (auto simp: first_in_Some_iff)
  with Some show ?thesis by simp
qed

lemma first_in_cong:
  assumes "\<And>k. i \<le> k \<Longrightarrow> k < n \<Longrightarrow> Q k = R k"
  shows "first_in Q i n = first_in R i n"
  unfolding first_in_def using assms by (intro find_cong) auto

lemma first_in_shift:
  "map_option ((+) p) (first_in (\<lambda>k. Q (p + k)) i n) = first_in Q (p + i) (p + n)"
proof (cases "first_in (\<lambda>k. Q (p + k)) i n")
  case None
  have "\<not> Q k" if "p + i \<le> k" "k < p + n" for k
  proof -
    have "i \<le> k - p" "k - p < n" "p + (k - p) = k" using that by auto
    with None show ?thesis by (metis first_in_None_iff)
  qed
  then have "first_in Q (p + i) (p + n) = None" by (simp add: first_in_None_iff)
  then show ?thesis using None by simp
next
  case (Some j)
  have "\<not> Q k" if "p + i \<le> k" "k < p + j" for k
  proof -
    have "i \<le> k - p" "k - p < j" "p + (k - p) = k" using that by auto
    with Some show ?thesis by (metis first_in_Some_iff)
  qed
  moreover from Some have "i \<le> j" "j < n" "Q (p + j)" by (auto simp: first_in_Some_iff)
  ultimately have "first_in Q (p + i) (p + n) = Some (p + j)" by (simp add: first_in_Some_iff)
  then show ?thesis using Some by simp
qed

subsection \<open>String views\<close>

text \<open>
  \<^verbatim>\<open>find\<close>, \<^verbatim>\<open>rfind\<close>, \<^verbatim>\<open>find_first_of\<close>, \<^verbatim>\<open>substr\<close>, \<^verbatim>\<open>starts_with\<close> of the standard library.
\<close>

definition sv_find :: "char \<Rightarrow> string \<Rightarrow> nat \<Rightarrow> nat option" where
  "sv_find c s pos = first_in (\<lambda>i. s ! i = c) pos (length s)"

definition sv_find_first_of :: "string \<Rightarrow> string \<Rightarrow> nat \<Rightarrow> nat option" where
  "sv_find_first_of cs s pos = first_in (\<lambda>i. List.member cs (s ! i)) pos (length s)"

definition sv_rfind :: "char \<Rightarrow> string \<Rightarrow> nat option" where
  "sv_rfind c s = List.find (\<lambda>i. s ! i = c) (rev [0..<length s])"

definition starts_with :: "string \<Rightarrow> string \<Rightarrow> bool" where
  "starts_with s p \<longleftrightarrow> take (length p) s = p"

definition ends_with :: "string \<Rightarrow> char \<Rightarrow> bool" where
  "ends_with s c \<longleftrightarrow> s \<noteq> [] \<and> last s = c"

definition sv_find_str :: "string \<Rightarrow> string \<Rightarrow> nat \<Rightarrow> nat option" where
  "sv_find_str p s pos =
     first_in (\<lambda>i. starts_with (drop i s) p) pos (Suc (length s) - length p)"

definition substr :: "string \<Rightarrow> nat \<Rightarrow> nat \<Rightarrow> string" where
  "substr s pos n = take n (drop pos s)"

text \<open>Optional white space, and the two trimming loops written throughout the sources.\<close>

definition is_ows :: "char \<Rightarrow> bool" where
  "is_ows c \<longleftrightarrow> c = SP \<or> c = HTAB"

definition trim_front :: "string \<Rightarrow> string" where
  "trim_front s = dropWhile is_ows s"

definition trim_back :: "string \<Rightarrow> string" where
  "trim_back s = rev (dropWhile is_ows (rev s))"

definition trim_ows :: "string \<Rightarrow> string" where
  "trim_ows s = trim_back (trim_front s)"

lemma sv_find_Some_iff:
  "sv_find c s pos = Some j \<longleftrightarrow>
    pos \<le> j \<and> j < length s \<and> s ! j = c \<and> (\<forall>k. pos \<le> k \<and> k < j \<longrightarrow> s ! k \<noteq> c)"
  by (simp add: sv_find_def first_in_Some_iff)

lemma sv_find_None_iff: "sv_find c s 0 = None \<longleftrightarrow> c \<notin> set s"
  by (auto simp: sv_find_def first_in_None_iff in_set_conv_nth)

lemma sv_find_append:
  "sv_find c s pos = Some j \<Longrightarrow> sv_find c (s @ t) pos = Some j"
  by (auto simp: sv_find_Some_iff nth_append)

lemma starts_with_iff: "starts_with s p \<longleftrightarrow> prefix p s"
  by (auto simp: starts_with_def prefix_def) (metis append_take_drop_id)

lemma starts_with_append [simp]: "starts_with (p @ s) p"
  by (simp add: starts_with_def)

lemma starts_with_nth:
  "starts_with s p \<longleftrightarrow> length p \<le> length s \<and> (\<forall>k < length p. s ! k = p ! k)"
  by (auto simp: starts_with_def list_eq_iff_nth_eq)

lemma sv_find_str_Some_iff:
  "sv_find_str p s pos = Some j \<longleftrightarrow>
    pos \<le> j \<and> j + length p \<le> length s \<and> starts_with (drop j s) p \<and>
    (\<forall>k. pos \<le> k \<and> k < j \<longrightarrow> \<not> starts_with (drop k s) p)"
  by (auto simp: sv_find_str_def first_in_Some_iff)

lemma sv_rfind_Some_iff:
  "sv_rfind c s = Some j \<longleftrightarrow> j < length s \<and> s ! j = c \<and> (\<forall>k. j < k \<and> k < length s \<longrightarrow> s ! k \<noteq> c)"
proof -
  have nth: "rev [0..<length s] ! a = length s - Suc a" if "a < length s" for a
    using that by (simp add: rev_nth)
  have "sv_rfind c s = Some j \<longleftrightarrow>
    (\<exists>a < length s. s ! (length s - Suc a) = c \<and> j = length s - Suc a \<and>
      (\<forall>b < a. s ! (length s - Suc b) \<noteq> c))"
    by (auto simp: sv_rfind_def find_Some_iff nth)
  also have "\<dots> \<longleftrightarrow> j < length s \<and> s ! j = c \<and> (\<forall>k. j < k \<and> k < length s \<longrightarrow> s ! k \<noteq> c)"
  proof
    assume "\<exists>a < length s. s ! (length s - Suc a) = c \<and> j = length s - Suc a \<and>
      (\<forall>b < a. s ! (length s - Suc b) \<noteq> c)"
    then obtain a where a: "a < length s" "s ! (length s - Suc a) = c" "j = length s - Suc a"
      "\<And>b. b < a \<Longrightarrow> s ! (length s - Suc b) \<noteq> c" by auto
    have "s ! k \<noteq> c" if "j < k" "k < length s" for k
      using a(4) [of "length s - Suc k"] a(1,3) that by simp
    with a show "j < length s \<and> s ! j = c \<and> (\<forall>k. j < k \<and> k < length s \<longrightarrow> s ! k \<noteq> c)" by auto
  next
    assume r: "j < length s \<and> s ! j = c \<and> (\<forall>k. j < k \<and> k < length s \<longrightarrow> s ! k \<noteq> c)"
    have "s ! (length s - Suc b) \<noteq> c" if "b < length s - Suc j" for b
    proof -
      have "j < length s - Suc b" "length s - Suc b < length s" using that by auto
      with r show ?thesis by blast
    qed
    with r show "\<exists>a < length s. s ! (length s - Suc a) = c \<and> j = length s - Suc a \<and>
      (\<forall>b < a. s ! (length s - Suc b) \<noteq> c)"
      by (intro exI [of _ "length s - Suc j"]) auto
  qed
  finally show ?thesis .
qed

lemma length_substr [simp]: "length (substr s pos n) = min n (length s - pos)"
  by (simp add: substr_def)

lemma trim_front_length: "length (trim_front s) \<le> length s"
  by (simp add: trim_front_def length_dropWhile_le)

lemma set_trim_front: "set (trim_front s) \<subseteq> set s"
  by (auto simp: trim_front_def dest: set_dropWhileD)

lemma set_trim_back: "set (trim_back s) \<subseteq> set s"
  by (auto simp: trim_back_def dest: set_dropWhileD)

lemma trim_ows_length: "length (trim_ows s) \<le> length s"
  unfolding trim_ows_def trim_back_def
  by (metis dual_order.trans length_dropWhile_le length_rev trim_front_length)

lemma trim_ows_idem_on:
  "s \<noteq> [] \<Longrightarrow> \<not> is_ows (hd s) \<Longrightarrow> \<not> is_ows (last s) \<Longrightarrow> trim_ows s = s"
proof -
  assume s: "s \<noteq> []" "\<not> is_ows (hd s)" "\<not> is_ows (last s)"
  then have "trim_front s = s" by (cases s) (auto simp: trim_front_def)
  moreover from s have "hd (rev s) = last s" by (simp add: hd_rev)
  with s have "dropWhile is_ows (rev s) = rev s" by (simp add: dropWhile_eq_self_iff)
  ultimately show ?thesis by (simp add: trim_ows_def trim_back_def)
qed

lemma sv_find_split: "sv_find c s 0 = Some k \<Longrightarrow> s = take k s @ c # drop (k + 1) s"
  using id_take_nth_drop [of k s] by (simp add: sv_find_Some_iff)

subsection \<open>Evaluation on literals\<close>

text \<open>
  The searches, restated by recursion on the text: the simplifier evaluates them on literal
  strings with binary numerals.
\<close>

lemma first_in_0_Suc:
  "first_in Q 0 (Suc n) =
    (if Q 0 then Some 0 else map_option Suc (first_in (\<lambda>k. Q (Suc k)) 0 n))"
  using first_in_step [of 0 "Suc n" Q] first_in_shift [of 1 Q 0 n] 
  by (simp add: plus_1_eq_Suc [abs_def] flip: One_nat_def)

lemma sv_find_eval:
  "sv_find c [] 0 = None"
  "sv_find c (x # xs) 0 = (if x = c then Some 0 else map_option Suc (sv_find c xs 0))"
  by (simp_all add: sv_find_def first_in_0_Suc)

lemma sv_find_pos:
  "pos \<noteq> 0 \<Longrightarrow> sv_find c s pos = map_option ((+) pos) (sv_find c (drop pos s) 0)"
proof (cases "pos \<le> length s")
  case True
  then show ?thesis using first_in_shift [of pos "\<lambda>i. s ! i = c" 0 "length s - pos"] by (simp add: sv_find_def)
qed (simp add: sv_find_def)

lemma sv_find_str_eval:
  "sv_find_str (p # ps) [] 0 = None"
  "sv_find_str (p # ps) (x # xs) 0 =
    (if starts_with (x # xs) (p # ps) then Some 0 else map_option Suc (sv_find_str (p # ps) xs 0))"
proof -
  show "sv_find_str (p # ps) [] 0 = None" by (simp add: sv_find_str_def)
  show "sv_find_str (p # ps) (x # xs) 0 =
    (if starts_with (x # xs) (p # ps) then Some 0 else map_option Suc (sv_find_str (p # ps) xs 0))"
  proof (cases "length ps \<le> length xs")
    case True
    then show ?thesis by (simp add: sv_find_str_def Suc_diff_le first_in_0_Suc)
  next
    case False
    then show ?thesis by (auto simp: sv_find_str_def starts_with_nth)
  qed
qed

lemma sv_find_str_pos:
  "pos \<noteq> 0 \<Longrightarrow> sv_find_str p s pos = (if pos \<le> length s then map_option ((+) pos) (sv_find_str p (drop pos s) 0) else None)"
proof (cases "pos \<le> length s")
  case True
  then have "Suc (length s) - length p = pos + (Suc (length s - pos) - length p) \<or> Suc (length s) - length p \<le> pos \<and> Suc (length s - pos) - length p = 0" by auto
  then show ?thesis using first_in_shift [of pos "\<lambda>i. starts_with (drop i s) p" 0 "Suc (length s - pos) - length p"] True
    by (auto simp: sv_find_str_def add.commute)
qed (simp add: sv_find_str_def)

lemma starts_with_eval:
  "starts_with s []" "\<not> starts_with [] (p # ps)"
  "starts_with (x # xs) (p # ps) \<longleftrightarrow> x = p \<and> starts_with xs ps"
  by (auto simp: starts_with_def)

lemma char_eq_char_of: "c = char_of (n :: nat) \<longleftrightarrow> take_bit 8 n = of_char c"
  using char_of_eq_iff [of n c] by auto

lemmas eval_scan [eval_simps] =
  sv_find_eval sv_find_pos sv_find_str_eval sv_find_str_pos starts_with_eval

end
