(* ===== verification/Simd_String.thy ===== *)
theory Simd_String
  imports Aegon_Prelude
begin

text \<open>
  The scanning primitives of \<^verbatim>\<open>src/core/simd/SimdString.h\<close>. Each routine is compiled in one of
  five tiers; the tier is a parameter of the model. A vector register is a list of 8-bit lanes,
  a compare writes all-ones or zero lanes, \<^verbatim>\<open>movemask\<close> and the AVX-512 mask registers collect
  one bit per lane, and masked loads read zero lanes outside their mask.

  Every routine is proved equal to its scalar reference, for every tier, every input and every
  start position.
\<close>

unbundle bit_operations_syntax

subsection \<open>Vector registers\<close>

datatype simd_tier = AVX512 | AVX2 | SSE42 | NEON | Scalar

type_synonym reg = "byte list"

definition lane :: "char \<Rightarrow> byte" where
  "lane c = of_nat (u8 c)"

definition loadu :: "nat \<Rightarrow> string \<Rightarrow> nat \<Rightarrow> reg" where
  "loadu W ptr i = map lane (take W (drop i ptr))"

definition maskz_loadu :: "nat \<Rightarrow> u64 \<Rightarrow> string \<Rightarrow> nat \<Rightarrow> reg" where
  "maskz_loadu W m ptr i = map (\<lambda>k. if bit m k then lane (ptr ! (i + k)) else 0) [0..<W]"

definition set1 :: "nat \<Rightarrow> nat \<Rightarrow> reg" where
  "set1 W b = replicate W (of_nat b)"

definition cmpeq_epi8 :: "reg \<Rightarrow> reg \<Rightarrow> reg" where
  "cmpeq_epi8 = map2 (\<lambda>x y. if x = y then - 1 else 0)"

definition cmpgt_epi8 :: "reg \<Rightarrow> reg \<Rightarrow> reg" where
  "cmpgt_epi8 = map2 (\<lambda>x y. if sint x > sint y then - 1 else 0)"

definition cmplt_epu8 :: "reg \<Rightarrow> reg \<Rightarrow> reg" where
  "cmplt_epu8 = map2 (\<lambda>x y. if x < y then - 1 else 0)"

definition cmple_epu8 :: "reg \<Rightarrow> reg \<Rightarrow> reg" where
  "cmple_epu8 = map2 (\<lambda>x y. if x \<le> y then - 1 else 0)"

definition subs_epu8 :: "reg \<Rightarrow> reg \<Rightarrow> reg" where
  "subs_epu8 = map2 (\<lambda>x y. if y \<le> x then x - y else 0)"

definition and_reg :: "reg \<Rightarrow> reg \<Rightarrow> reg" where
  "and_reg = map2 (AND)"

definition or_reg :: "reg \<Rightarrow> reg \<Rightarrow> reg" where
  "or_reg = map2 (OR)"

text \<open>\<open>andnot_reg a b\<close> clears in \<open>b\<close> the bits of \<open>a\<close>.\<close>

definition andnot_reg :: "reg \<Rightarrow> reg \<Rightarrow> reg" where
  "andnot_reg = map2 (\<lambda>x y. NOT x AND y)"

definition movemask_epi8 :: "reg \<Rightarrow> u64" where
  "movemask_epi8 v = horner_sum of_bool 2 (map (\<lambda>b. bit b 7) v)"

definition kmask :: "(byte \<Rightarrow> byte \<Rightarrow> bool) \<Rightarrow> reg \<Rightarrow> reg \<Rightarrow> u64" where
  "kmask P a b = horner_sum of_bool 2 (map2 P a b)"

definition mask_add_epi8 :: "reg \<Rightarrow> u64 \<Rightarrow> nat \<Rightarrow> reg" where
  "mask_add_epi8 v m b = map (\<lambda>k. if bit m k then v ! k + of_nat b else v ! k) [0..<length v]"

text \<open>
  \<^verbatim>\<open>detail::neon_movemask_u8\<close> on AArch64: keep one weight bit per lane, add each half across.
\<close>

definition neon_bitmask :: reg where
  "neon_bitmask = [1, 2, 4, 8, 16, 32, 64, 128, 1, 2, 4, 8, 16, 32, 64, 128]"

definition neon_movemask_u8 :: "reg \<Rightarrow> u64" where
  "neon_movemask_u8 v =
     (let masked = and_reg v neon_bitmask;
          lo = sum_list (take 8 masked);
          hi = sum_list (drop 8 masked)
      in ucast lo OR push_bit 8 (ucast hi))"

definition vmaxvq_u8 :: "reg \<Rightarrow> byte" where
  "vmaxvq_u8 v = foldr max v 0"

definition vminvq_u8 :: "reg \<Rightarrow> byte" where
  "vminvq_u8 v = foldr min v (- 1)"

definition countr_zero :: "u64 \<Rightarrow> nat" where
  "countr_zero w = (case first_in (bit w) 0 64 of Some k \<Rightarrow> k | None \<Rightarrow> 64)"

text \<open>\<^verbatim>\<open>(1ULL << n) - 1ULL\<close>: the mask of the first \<open>n\<close> lanes, for \<open>n < 64\<close>.\<close>

definition tail_mask :: "nat \<Rightarrow> u64" where
  "tail_mask n = push_bit n 1 - 1"

subsection \<open>The vector loops\<close>

text \<open>
  \<^verbatim>\<open>for (; i + W + slack <= len; i += W) { mask = ...; if (mask != 0) return i + countr_zero(mask); }\<close>:
  \<open>Inl\<close> is the early return, \<open>Inr\<close> the index at which the loop ends.
\<close>

function simd_scan :: "nat \<Rightarrow> nat \<Rightarrow> (nat \<Rightarrow> u64) \<Rightarrow> nat \<Rightarrow> nat \<Rightarrow> nat + nat" where
  "simd_scan W slack msk len i =
     (if 0 < W \<and> i + (W + slack) \<le> len
      then if msk i \<noteq> 0 then Inl (i + countr_zero (msk i))
           else simd_scan W slack msk len (i + W)
      else Inr i)"
  by pat_completeness auto
termination
  by (relation "measure (\<lambda>(W, slack, msk, len, i). len - i)") auto

text \<open>
  \<^verbatim>\<open>for (; i + W <= len; i += W) { if (!block_ok) return false; }\<close>: \<open>None\<close> is the early return.
\<close>

function simd_check :: "nat \<Rightarrow> (nat \<Rightarrow> bool) \<Rightarrow> nat \<Rightarrow> nat \<Rightarrow> nat option" where
  "simd_check W ok len i =
     (if 0 < W \<and> i + W \<le> len
      then if ok i then simd_check W ok len (i + W) else None
      else Some i)"
  by pat_completeness auto
termination
  by (relation "measure (\<lambda>(W, ok, len, i). len - i)") auto

declare simd_scan.simps [simp del] simd_check.simps [simp del]

text \<open>The scalar remainder loops.\<close>

definition scalar_find :: "(nat \<Rightarrow> bool) \<Rightarrow> nat \<Rightarrow> nat \<Rightarrow> nat option" where
  "scalar_find Q i n = first_in Q i n"

definition scalar_all :: "(nat \<Rightarrow> bool) \<Rightarrow> nat \<Rightarrow> nat \<Rightarrow> bool" where
  "scalar_all Q i n = list_all Q [i..<n]"

subsection \<open>Lanes and masks\<close>

lemma length_loadu [simp]: "i + W \<le> length ptr \<Longrightarrow> length (loadu W ptr i) = W"
  by (simp add: loadu_def)

lemma nth_loadu [simp]:
  "i + W \<le> length ptr \<Longrightarrow> k < W \<Longrightarrow> loadu W ptr i ! k = lane (ptr ! (i + k))"
  by (simp add: loadu_def)

lemma length_maskz_loadu [simp]: "length (maskz_loadu W m ptr i) = W"
  by (simp add: maskz_loadu_def)

lemma nth_maskz_loadu [simp]:
  "k < W \<Longrightarrow> maskz_loadu W m ptr i ! k = (if bit m k then lane (ptr ! (i + k)) else 0)"
  by (simp add: maskz_loadu_def)

lemma length_set1 [simp]: "length (set1 W b) = W"
  by (simp add: set1_def)

lemma nth_set1 [simp]: "k < W \<Longrightarrow> set1 W b ! k = of_nat b"
  by (simp add: set1_def)

lemma length_reg_ops [simp]:
  "length (cmpeq_epi8 a b) = min (length a) (length b)"
  "length (cmpgt_epi8 a b) = min (length a) (length b)"
  "length (cmplt_epu8 a b) = min (length a) (length b)"
  "length (cmple_epu8 a b) = min (length a) (length b)"
  "length (subs_epu8 a b) = min (length a) (length b)"
  "length (and_reg a b) = min (length a) (length b)"
  "length (or_reg a b) = min (length a) (length b)"
  "length (andnot_reg a b) = min (length a) (length b)"
  "length (mask_add_epi8 a m n) = length a"
  by (simp_all add: cmpeq_epi8_def cmpgt_epi8_def cmplt_epu8_def cmple_epu8_def subs_epu8_def
      and_reg_def or_reg_def andnot_reg_def mask_add_epi8_def)

lemma nth_reg_ops [simp]:
  assumes "k < length a" "k < length b"
  shows "cmpeq_epi8 a b ! k = (if a ! k = b ! k then - 1 else 0)"
    and "cmpgt_epi8 a b ! k = (if sint (a ! k) > sint (b ! k) then - 1 else 0)"
    and "cmplt_epu8 a b ! k = (if a ! k < b ! k then - 1 else 0)"
    and "cmple_epu8 a b ! k = (if a ! k \<le> b ! k then - 1 else 0)"
    and "subs_epu8 a b ! k = (if b ! k \<le> a ! k then a ! k - b ! k else 0)"
    and "and_reg a b ! k = a ! k AND b ! k"
    and "or_reg a b ! k = a ! k OR b ! k"
    and "andnot_reg a b ! k = NOT (a ! k) AND b ! k"
  using assms
  by (simp_all add: cmpeq_epi8_def cmpgt_epi8_def cmplt_epu8_def cmple_epu8_def subs_epu8_def
      and_reg_def or_reg_def andnot_reg_def)

lemma nth_mask_add [simp]:
  "k < length a \<Longrightarrow> mask_add_epi8 a m n ! k = (if bit m k then a ! k + of_nat n else a ! k)"
  by (simp add: mask_add_epi8_def)

lemma bit_movemask: "bit (movemask_epi8 v) k \<longleftrightarrow> k < 64 \<and> k < length v \<and> bit (v ! k) 7"
  by (auto simp: movemask_epi8_def bit_horner_sum_bit_word_iff)

lemma bit_kmask:
  "bit (kmask P a b) k \<longleftrightarrow> k < 64 \<and> k < length a \<and> k < length b \<and> P (a ! k) (b ! k)"
  by (auto simp: kmask_def bit_horner_sum_bit_word_iff)

lemma bit_tail_mask: "n < 64 \<Longrightarrow> bit (tail_mask n) k \<longleftrightarrow> k < n"
proof -
  assume n: "n < 64"
  have "tail_mask n = mask n"
    by (simp add: tail_mask_def mask_eq_exp_minus_1)
  with n show ?thesis by (auto simp: bit_mask_iff)
qed

lemma u64_eq_iff: "(w :: u64) = v \<longleftrightarrow> (\<forall>k < 64. bit w k = bit v k)"
  by (auto intro: bit_word_eqI)

lemma u64_zero_iff: "(w :: u64) = 0 \<longleftrightarrow> (\<forall>k < 64. \<not> bit w k)"
  by (simp add: u64_eq_iff)

lemma countr_zero_Some:
  "w \<noteq> 0 \<Longrightarrow> first_in (bit w) 0 64 = Some (countr_zero w)"
  by (cases "first_in (bit w) 0 64")
    (auto simp: countr_zero_def first_in_None_iff u64_zero_iff)

lemma lane_eq_iff [simp]: "lane c = of_nat n \<longleftrightarrow> u8 c = n" if "n < 256"
proof -
  have "unat (lane c) = u8 c" by (simp add: lane_def unat_of_nat)
  moreover have "unat (of_nat n :: byte) = n" using that by (simp add: unat_of_nat)
  ultimately show ?thesis by (metis lane_def)
qed

lemma unat_lane [simp]: "unat (lane c) = u8 c"
  by (simp add: lane_def unat_of_nat)

lemma lane_inject [simp]: "lane c = lane d \<longleftrightarrow> c = d"
  by (metis u8_inject unat_lane)

text \<open>Compare results: every lane is all-ones or zero.\<close>

definition bool_reg :: "reg \<Rightarrow> bool" where
  "bool_reg v \<longleftrightarrow> (\<forall>x \<in> set v. x = 0 \<or> x = - 1)"

lemma neon_half:
  assumes "length bs = 8"
  shows "sum_list (map2 (\<lambda>b w. if b then w else 0) bs [1, 2, 4, 8, 16, 32, 64, 128 :: byte]) =
    horner_sum of_bool 2 bs"
proof -
  from assms obtain b0 b1 b2 b3 b4 b5 b6 b7 where "bs = [b0, b1, b2, b3, b4, b5, b6, b7]"
    by (auto simp: numeral_eq_Suc length_Suc_conv)
  then show ?thesis by (simp add: of_bool_def)
qed

lemma neon_movemask_eq:
  assumes "length v = 16" "bool_reg v"
  shows "neon_movemask_u8 v = movemask_epi8 v"
proof -
  define bs where "bs = map (\<lambda>b. bit b 7) v"
  have v: "v = map (\<lambda>b. if b then - 1 else 0) bs"
  proof (rule nth_equalityI)
    fix i assume i: "i < length v"
    with assms(2) have "v ! i = 0 \<or> v ! i = - 1" by (simp add: bool_reg_def)
    with i show "v ! i = map (\<lambda>b. if b then - 1 else 0) bs ! i"
      by (auto simp: bs_def bit_minus_1_iff)
  qed (simp add: bs_def)
  have len: "length (take 8 bs) = 8" "length (drop 8 bs) = 8" "length bs = 16"
    using assms(1) by (simp_all add: bs_def)
  have bm: "neon_bitmask = [1, 2, 4, 8, 16, 32, 64, 128] @ [1, 2, 4, 8, 16, 32, 64, 128]"
    by (simp add: neon_bitmask_def)
  have masked: "and_reg v neon_bitmask = map2 (\<lambda>b w. if b then w else 0) bs neon_bitmask"
    by (rule nth_equalityI) (auto simp: v and_reg_def)
  have tk: "take 8 (and_reg v neon_bitmask) =
      map2 (\<lambda>b w. if b then w else 0) (take 8 bs) [1, 2, 4, 8, 16, 32, 64, 128]"
    and dr: "drop 8 (and_reg v neon_bitmask) =
      map2 (\<lambda>b w. if b then w else 0) (drop 8 bs) [1, 2, 4, 8, 16, 32, 64, 128]"
    unfolding masked by (simp_all add: take_map drop_map take_zip drop_zip bm)
  show ?thesis
  proof (rule bit_word_eqI)
    fix k assume "k < LENGTH(64)"
    then show "bit (neon_movemask_u8 v) k = bit (movemask_epi8 v) k"
      using assms(1) len
      by (cases "k < 8") (auto simp: neon_movemask_u8_def Let_def tk dr neon_half movemask_epi8_def
          bs_def [symmetric] bit_horner_sum_bit_word_iff bit_or_iff bit_push_bit_iff bit_ucast_iff)
  qed
qed

lemma bool_reg_cmp [simp]:
  "bool_reg (cmpeq_epi8 a b)" "bool_reg (cmpgt_epi8 a b)"
  "bool_reg (cmplt_epu8 a b)" "bool_reg (cmple_epu8 a b)"
  by (auto simp: bool_reg_def cmpeq_epi8_def cmpgt_epi8_def cmplt_epu8_def cmple_epu8_def)

lemma bool_reg_nth: "bool_reg v \<longleftrightarrow> (\<forall>k < length v. v ! k = 0 \<or> v ! k = - 1)"
  by (auto simp: bool_reg_def all_set_conv_all_nth)

lemma bool_reg_and [simp]: "bool_reg a \<Longrightarrow> bool_reg b \<Longrightarrow> bool_reg (and_reg a b)"
  by (auto simp: bool_reg_nth) fastforce

lemma bool_reg_or [simp]: "bool_reg a \<Longrightarrow> bool_reg b \<Longrightarrow> bool_reg (or_reg a b)"
  by (auto simp: bool_reg_nth) fastforce

lemma bool_reg_andnot [simp]: "bool_reg a \<Longrightarrow> bool_reg b \<Longrightarrow> bool_reg (andnot_reg a b)"
  by (auto simp: bool_reg_nth) fastforce

lemma vmaxvq_zero: "vmaxvq_u8 v = 0 \<longleftrightarrow> (\<forall>k < length v. v ! k = 0)"
proof -
  have "vmaxvq_u8 v = 0 \<longleftrightarrow> (\<forall>x \<in> set v. x = 0)"
    by (induction v) (auto simp: vmaxvq_u8_def max_def)
  then show ?thesis by (simp add: all_set_conv_all_nth)
qed

lemma vminvq_ones: "vminvq_u8 v = - 1 \<longleftrightarrow> (\<forall>k < length v. v ! k = - 1)"
proof -
  have min: "min x y = - 1 \<longleftrightarrow> x = - 1 \<and> y = - 1" for x y :: byte
    by (auto simp: min_def dest: word_order.extremum_uniqueI)
  have "vminvq_u8 v = - 1 \<longleftrightarrow> (\<forall>x \<in> set v. x = - 1)"
    by (induction v) (simp_all add: vminvq_u8_def min)
  then show ?thesis by (simp add: all_set_conv_all_nth)
qed

subsection \<open>What the loops compute\<close>

lemma first_in_offset_bits:
  assumes "w \<noteq> 0" and "\<And>k. k < 64 \<Longrightarrow> bit (w :: u64) k \<longleftrightarrow> k < n \<and> Q (i + k)" and "i + n \<le> m"
  shows "first_in Q i m = Some (i + countr_zero w)"
proof -
  from countr_zero_Some [OF assms(1)]
  have z: "countr_zero w < 64" "bit w (countr_zero w)" "\<And>k. k < countr_zero w \<Longrightarrow> \<not> bit w k"
    by (auto simp: first_in_Some_iff)
  then have q: "countr_zero w < n" "Q (i + countr_zero w)" using assms(2) by auto
  have "\<not> Q k" if "i \<le> k" "k < i + countr_zero w" for k
    using assms(2) [of "k - i"] z(1) q(1) z(3) [of "k - i"] that by auto
  with q assms(3) show ?thesis by (auto simp: first_in_Some_iff)
qed

lemma no_bits_skip:
  assumes "(w :: u64) = 0" and "\<And>k. k < 64 \<Longrightarrow> bit w k \<longleftrightarrow> k < n \<and> Q (i + k)"
    and "n \<le> 64" "i \<le> k" "k < i + n"
  shows "\<not> Q k"
  using assms(1,3-5) assms(2) [of "k - i"] by auto

lemma simd_scan_spec:
  assumes W: "0 < W" "W \<le> 64"
    and M: "\<And>i k. i + (W + slack) \<le> len \<Longrightarrow> k < 64 \<Longrightarrow> bit (msk i) k \<longleftrightarrow> k < W \<and> Q (i + k)"
    and i: "i \<le> len - slack"
  shows "case simd_scan W slack msk len i of
      Inl j \<Rightarrow> first_in Q i (len - slack) = Some j
    | Inr i' \<Rightarrow> i' \<le> len - slack \<and> len - slack < i' + W \<and>
        first_in Q i (len - slack) = first_in Q i' (len - slack)"
  using i
proof (induction "len - i" arbitrary: i rule: less_induct)
  case less
  show ?case
  proof (cases "i + (W + slack) \<le> len")
    case False
    with W less.prems show ?thesis by (subst simd_scan.simps) auto
  next
    case True
    note bits = M [OF True]
    show ?thesis
    proof (cases "msk i = 0")
      case False
      have "first_in Q i (len - slack) = Some (i + countr_zero (msk i))"
        by (rule first_in_offset_bits [OF False bits]) (use True in auto)
      with True W False show ?thesis by (subst simd_scan.simps) simp
    next
      case z: True
      have "first_in Q i (len - slack) = first_in Q (i + W) (len - slack)"
        by (rule first_in_skip) (use True no_bits_skip [OF z bits W(2)] in auto)
      moreover have "case simd_scan W slack msk len (i + W) of
          Inl j \<Rightarrow> first_in Q (i + W) (len - slack) = Some j
        | Inr i' \<Rightarrow> i' \<le> len - slack \<and> len - slack < i' + W \<and>
            first_in Q (i + W) (len - slack) = first_in Q i' (len - slack)"
        by (rule less.hyps) (use True W in auto)
      ultimately show ?thesis using True W z
        by (subst simd_scan.simps) (simp split: sum.splits)
    qed
  qed
qed

lemma simd_check_spec:
  assumes W: "0 < W"
    and ok: "\<And>i. i + W \<le> len \<Longrightarrow> ok i \<longleftrightarrow> (\<forall>k < W. Q (i + k))"
    and i: "i \<le> len"
  shows "case simd_check W ok len i of
      None \<Rightarrow> \<not> scalar_all Q i len
    | Some i' \<Rightarrow> i' \<le> len \<and> len < i' + W \<and> scalar_all Q i len = scalar_all Q i' len"
  using i
proof (induction "len - i" arbitrary: i rule: less_induct)
  case less
  show ?case
  proof (cases "i + W \<le> len")
    case False
    with W less.prems show ?thesis by (subst simd_check.simps) auto
  next
    case True
    have split: "scalar_all Q i len \<longleftrightarrow> (\<forall>k < W. Q (i + k)) \<and> scalar_all Q (i + W) len"
    proof -
      have "[i..<len] = [i..<i + W] @ [i + W..<len]"
        using True by (metis le_add1 le_add_diff_inverse upt_add_eq_append)
      moreover have "list_all Q [i..<i + W] \<longleftrightarrow> (\<forall>k < W. Q (i + k))"
        by (auto simp: list_all_iff) (metis le_add_diff_inverse less_diff_conv2 add.commute)
      ultimately show ?thesis by (simp add: scalar_all_def)
    qed
    show ?thesis
    proof (cases "ok i")
      case False
      with ok [OF True] split True W show ?thesis by (subst simd_check.simps) auto
    next
      case o: True
      have "case simd_check W ok len (i + W) of
          None \<Rightarrow> \<not> scalar_all Q (i + W) len
        | Some i' \<Rightarrow> i' \<le> len \<and> len < i' + W \<and> scalar_all Q (i + W) len = scalar_all Q i' len"
        by (rule less.hyps) (use True W in auto)
      with o ok [OF True] split True W show ?thesis
        by (subst simd_check.simps) (simp split: option.splits)
    qed
  qed
qed

subsection \<open>The searches: find\_char, find\_crlf, find\_double\_crlf\<close>

text \<open>
  The three searches share one tier skeleton: a 64-lane mask loop with a masked tail for AVX-512,
  a 32-lane or 16-lane compare-and-movemask loop with a scalar remainder for AVX2, SSE4.2 and
  NEON, and the scalar loop alone otherwise. \<open>slack\<close> is how far beyond a start position the
  routine reads.
\<close>

definition tiered_search ::
    "simd_tier \<Rightarrow> nat \<Rightarrow> nat \<Rightarrow> (nat \<Rightarrow> u64) \<Rightarrow> (nat \<Rightarrow> u64 \<Rightarrow> u64) \<Rightarrow> (nat \<Rightarrow> nat \<Rightarrow> reg) \<Rightarrow>
     (nat \<Rightarrow> bool) \<Rightarrow> nat option" where
  "tiered_search t slack len kblock ktail vblock Q =
     (let finish = (\<lambda>r. case r of Inl j \<Rightarrow> Some j | Inr i \<Rightarrow> scalar_find Q i (len - slack))
      in case t of
           AVX512 \<Rightarrow>
             (case simd_scan 64 slack kblock len 0 of
                Inl j \<Rightarrow> Some j
              | Inr i \<Rightarrow>
                  if i + slack < len
                  then let tail = tail_mask (len - i - slack); m = ktail i tail AND tail
                       in if m \<noteq> 0 then Some (i + countr_zero m) else None
                  else None)
         | AVX2 \<Rightarrow> finish (simd_scan 32 slack (\<lambda>i. movemask_epi8 (vblock 32 i)) len 0)
         | SSE42 \<Rightarrow> finish (simd_scan 16 slack (\<lambda>i. movemask_epi8 (vblock 16 i)) len 0)
         | NEON \<Rightarrow> finish (simd_scan 16 slack (\<lambda>i. neon_movemask_u8 (vblock 16 i)) len 0)
         | Scalar \<Rightarrow> scalar_find Q 0 (len - slack))"

definition find_char :: "simd_tier \<Rightarrow> string \<Rightarrow> char \<Rightarrow> nat \<Rightarrow> nat option" where
  "find_char t sv c pos =
     (if length sv \<le> pos then None
      else
        let ptr = drop pos sv; len = length sv - pos
        in map_option ((+) pos)
          (tiered_search t 0 len
             (\<lambda>i. kmask (=) (loadu 64 ptr i) (set1 64 (u8 c)))
             (\<lambda>i tail. kmask (=) (maskz_loadu 64 tail ptr i) (set1 64 (u8 c)))
             (\<lambda>W i. cmpeq_epi8 (loadu W ptr i) (set1 W (u8 c)))
             (\<lambda>k. ptr ! k = c)))"

definition find_crlf :: "simd_tier \<Rightarrow> string \<Rightarrow> nat \<Rightarrow> nat option" where
  "find_crlf t sv pos =
     (if length sv \<le> pos \<or> length sv - pos < 2 then None
      else
        let ptr = drop pos sv; len = length sv - pos
        in map_option ((+) pos)
          (tiered_search t 1 len
             (\<lambda>i. kmask (=) (loadu 64 ptr i) (set1 64 13) AND
                  kmask (=) (loadu 64 ptr (i + 1)) (set1 64 10))
             (\<lambda>i tail. kmask (=) (maskz_loadu 64 tail ptr i) (set1 64 13) AND
                       kmask (=) (maskz_loadu 64 tail ptr (i + 1)) (set1 64 10))
             (\<lambda>W i. and_reg (cmpeq_epi8 (loadu W ptr i) (set1 W 13))
                            (cmpeq_epi8 (loadu W ptr (i + 1)) (set1 W 10)))
             (\<lambda>k. ptr ! k = CR \<and> ptr ! (k + 1) = LF)))"

definition find_double_crlf :: "simd_tier \<Rightarrow> string \<Rightarrow> nat \<Rightarrow> nat option" where
  "find_double_crlf t sv pos =
     (if length sv \<le> pos \<or> length sv - pos < 4 then None
      else
        let ptr = drop pos sv; len = length sv - pos
        in map_option ((+) pos)
          (tiered_search t 3 len
             (\<lambda>i. kmask (=) (loadu 64 ptr i) (set1 64 13) AND
                  kmask (=) (loadu 64 ptr (i + 1)) (set1 64 10) AND
                  kmask (=) (loadu 64 ptr (i + 2)) (set1 64 13) AND
                  kmask (=) (loadu 64 ptr (i + 3)) (set1 64 10))
             (\<lambda>i tail. kmask (=) (maskz_loadu 64 tail ptr i) (set1 64 13) AND
                       kmask (=) (maskz_loadu 64 tail ptr (i + 1)) (set1 64 10) AND
                       kmask (=) (maskz_loadu 64 tail ptr (i + 2)) (set1 64 13) AND
                       kmask (=) (maskz_loadu 64 tail ptr (i + 3)) (set1 64 10))
             (\<lambda>W i. and_reg (and_reg (cmpeq_epi8 (loadu W ptr i) (set1 W 13))
                                      (cmpeq_epi8 (loadu W ptr (i + 1)) (set1 W 10)))
                            (and_reg (cmpeq_epi8 (loadu W ptr (i + 2)) (set1 W 13))
                                      (cmpeq_epi8 (loadu W ptr (i + 3)) (set1 W 10))))
             (\<lambda>k. ptr ! k = CR \<and> ptr ! (k + 1) = LF \<and> ptr ! (k + 2) = CR \<and> ptr ! (k + 3) = LF)))"

lemma scan_then_rest:
  assumes "0 < W" "W \<le> 64" "slack \<le> len"
    and "\<And>i k. i + (W + slack) \<le> len \<Longrightarrow> k < 64 \<Longrightarrow> bit (msk i) k \<longleftrightarrow> k < W \<and> Q (i + k)"
  shows "(case simd_scan W slack msk len 0 of
      Inl j \<Rightarrow> Some j | Inr i \<Rightarrow> scalar_find Q i (len - slack)) = first_in Q 0 (len - slack)"
  using simd_scan_spec [where slack = slack and len = len and msk = msk and Q = Q and i = 0,
      OF assms(1,2,4)]
  by (auto simp: scalar_find_def split: sum.splits)

text \<open>The masked tail of the AVX-512 searches covers the last, partial block.\<close>

lemma scan_then_tail:
  assumes "slack \<le> len"
    and M: "\<And>i k. i + (64 + slack) \<le> len \<Longrightarrow> k < 64 \<Longrightarrow> bit (msk i) k \<longleftrightarrow> k < 64 \<and> Q (i + k)"
    and T: "\<And>i k. i < len - slack \<Longrightarrow> len - slack < i + 64 \<Longrightarrow> k < 64 \<Longrightarrow>
      bit (tm i) k \<longleftrightarrow> k < len - slack - i \<and> Q (i + k)"
  shows "(case simd_scan 64 slack msk len 0 of
      Inl j \<Rightarrow> Some j
    | Inr i \<Rightarrow> if i + slack < len then if tm i \<noteq> 0 then Some (i + countr_zero (tm i)) else None
              else None) = first_in Q 0 (len - slack)"
proof (cases "simd_scan 64 slack msk len 0")
  case (Inl j)
  with simd_scan_spec [of 64 slack len msk Q 0, OF _ _ M] show ?thesis by simp
next
  case (Inr i)
  from simd_scan_spec [of 64 slack len msk Q 0, OF _ _ M] Inr
  have i: "i \<le> len - slack" "len - slack < i + 64"
    and f: "first_in Q 0 (len - slack) = first_in Q i (len - slack)" by auto
  show ?thesis
  proof (cases "i < len - slack")
    case False
    with i Inr f show ?thesis using assms(1) by auto
  next
    case True
    note bits = T [OF True i(2)]
    show ?thesis
    proof (cases "tm i = 0")
      case nz: False
      have "first_in Q i (len - slack) = Some (i + countr_zero (tm i))"
        by (rule first_in_offset_bits [OF nz bits]) (use True in auto)
      with nz Inr f True show ?thesis by simp
    next
      case z: True
      have "first_in Q i (len - slack) = None"
        using no_bits_skip [OF z bits] i by (auto simp: first_in_None_iff)
      with z Inr f show ?thesis by simp
    qed
  qed
qed

lemma tiered_search_correct:
  assumes sl: "slack \<le> len"
    and K: "\<And>i k. i + (64 + slack) \<le> len \<Longrightarrow> k < 64 \<Longrightarrow> bit (kblock i) k \<longleftrightarrow> Q (i + k)"
    and T: "\<And>i k n. n < 64 \<Longrightarrow> i + n + slack = len \<Longrightarrow> k < n \<Longrightarrow>
      bit (ktail i (tail_mask n)) k \<longleftrightarrow> Q (i + k)"
    and V: "\<And>W i k. W \<le> 32 \<Longrightarrow> i + (W + slack) \<le> len \<Longrightarrow> k < W \<Longrightarrow>
      vblock W i ! k = (if Q (i + k) then - 1 else 0)"
    and L: "\<And>W i. W \<le> 32 \<Longrightarrow> i + (W + slack) \<le> len \<Longrightarrow> length (vblock W i) = W"
  shows "tiered_search t slack len kblock ktail vblock Q = first_in Q 0 (len - slack)"
proof -
  have mv: "bit (movemask_epi8 (vblock W i)) k \<longleftrightarrow> k < W \<and> Q (i + k)"
    if "W \<le> 32" "i + (W + slack) \<le> len" "k < 64" for W i k
    using that V [of W i k] L [of W i] by (auto simp: bit_movemask split: if_splits)
  have nm: "neon_movemask_u8 (vblock 16 i) = movemask_epi8 (vblock 16 i)"
    if "i + (16 + slack) \<le> len" for i
    using that V [of 16 i] L [of 16 i] by (intro neon_movemask_eq) (auto simp: bool_reg_nth)
  have tm: "bit (ktail i (tail_mask (len - i - slack)) AND tail_mask (len - i - slack)) k \<longleftrightarrow>
      k < len - slack - i \<and> Q (i + k)"
    if "i < len - slack" "len - slack < i + 64" "k < 64" for i k
    using that T [of "len - i - slack" i k] by (auto simp: bit_and_iff bit_tail_mask)
  show ?thesis
  proof (cases t)
    case AVX512
    then show ?thesis
      unfolding tiered_search_def Let_def
      using scan_then_tail [OF sl _ tm, of kblock] K by simp
  next
    case AVX2
    then show ?thesis unfolding tiered_search_def Let_def
      using scan_then_rest [of 32 slack len "\<lambda>i. movemask_epi8 (vblock 32 i)" Q] sl mv by simp
  next
    case SSE42
    then show ?thesis unfolding tiered_search_def Let_def
      using scan_then_rest [of 16 slack len "\<lambda>i. movemask_epi8 (vblock 16 i)" Q] sl mv by simp
  next
    case NEON
    then show ?thesis unfolding tiered_search_def Let_def
      using scan_then_rest [of 16 slack len "\<lambda>i. neon_movemask_u8 (vblock 16 i)" Q] sl mv nm by simp
  next
    case Scalar
    then show ?thesis by (simp add: tiered_search_def scalar_find_def)
  qed
qed

lemma u8_simps: "u8 c = 13 \<longleftrightarrow> c = CR" "u8 c = 10 \<longleftrightarrow> c = LF"
  using u8_inject [of c CR] u8_inject [of c LF] by (simp_all add: u8_def)

lemma lane_lit: "lane c = 13 \<longleftrightarrow> c = CR" "lane c = 10 \<longleftrightarrow> c = LF"
  using lane_eq_iff [of 13 c] lane_eq_iff [of 10 c] by (simp_all add: u8_simps)

lemmas block_simps = bit_kmask bit_and_iff bit_tail_mask lane_lit

text \<open>The reference for the double terminator.\<close>

definition crlf :: string where
  "crlf = [CR, LF]"

lemma starts_with_crlf:
  "starts_with (drop i s) crlf \<longleftrightarrow> Suc i < length s \<and> s ! i = CR \<and> s ! (i + 1) = LF"
  by (auto simp: starts_with_nth crlf_def less_Suc_eq numeral_2_eq_2 All_less_Suc)

lemma starts_with_crlf2:
  "starts_with (drop i s) (crlf @ crlf) \<longleftrightarrow>
    i + 3 < length s \<and> s ! i = CR \<and> s ! (i + 1) = LF \<and> s ! (i + 2) = CR \<and> s ! (i + 3) = LF"
  by (auto simp: starts_with_nth crlf_def numeral_eq_Suc All_less_Suc)

theorem find_char_correct [scan_simps]: "find_char t sv c pos = sv_find c sv pos"
proof (cases "length sv \<le> pos")
  case False
  then show ?thesis
    using first_in_shift [of pos "\<lambda>k. sv ! k = c" 0 "length sv - pos"]
    by (simp add: find_char_def Let_def sv_find_def block_simps tiered_search_correct)
qed (simp add: find_char_def sv_find_def)

theorem find_crlf_correct [scan_simps]: "find_crlf t sv pos = sv_find_str crlf sv pos"
proof (cases "pos + 2 \<le> length sv")
  case True
  have "find_crlf t sv pos =
      map_option ((+) pos) (first_in (\<lambda>k. drop pos sv ! k = CR \<and> drop pos sv ! (k + 1) = LF) 0
        (length sv - pos - 1))"
    using True unfolding find_crlf_def Let_def
    by (subst tiered_search_correct) (auto simp: block_simps)
  also have "\<dots> = map_option ((+) pos)
      (first_in (\<lambda>k. starts_with (drop (pos + k) sv) crlf) 0 (length sv - pos - 1))"
    using True by (intro arg_cong [where f = "map_option ((+) pos)"] first_in_cong)
      (auto simp: starts_with_crlf)
  also have "\<dots> = sv_find_str crlf sv pos"
    using True first_in_shift [of pos "\<lambda>k. starts_with (drop k sv) crlf" 0 "length sv - pos - 1"]
    by (simp add: sv_find_str_def crlf_def)
  finally show ?thesis .
qed (auto simp: find_crlf_def sv_find_str_def crlf_def)

theorem find_double_crlf_correct [scan_simps]:
  "find_double_crlf t sv pos = sv_find_str (crlf @ crlf) sv pos"
proof (cases "pos + 4 \<le> length sv")
  case True
  have "find_double_crlf t sv pos =
      map_option ((+) pos) (first_in (\<lambda>k. drop pos sv ! k = CR \<and> drop pos sv ! (k + 1) = LF \<and>
        drop pos sv ! (k + 2) = CR \<and> drop pos sv ! (k + 3) = LF) 0 (length sv - pos - 3))"
    using True unfolding find_double_crlf_def Let_def
    by (subst tiered_search_correct) (auto simp: block_simps add_ac)
  also have "\<dots> = map_option ((+) pos)
      (first_in (\<lambda>k. starts_with (drop (pos + k) sv) (crlf @ crlf)) 0 (length sv - pos - 3))"
    using True by (intro arg_cong [where f = "map_option ((+) pos)"] first_in_cong)
      (auto simp: starts_with_crlf2 add.assoc)
  also have "\<dots> = sv_find_str (crlf @ crlf) sv pos"
    using True
      first_in_shift [of pos "\<lambda>k. starts_with (drop k sv) (crlf @ crlf)" 0 "length sv - pos - 3"]
    by (simp add: sv_find_str_def crlf_def eval_nat_numeral)
  finally show ?thesis .
qed (auto simp: find_double_crlf_def sv_find_str_def crlf_def)

subsection \<open>Byte classes\<close>

text \<open>
  The lane-wise tests of the remaining routines are facts about single bytes. They are checked
  on all 256 of them.
\<close>

lemma byte_all: "(\<forall>x. P (x :: byte)) \<longleftrightarrow> list_all (\<lambda>n. P (of_nat n)) [0..<256]"
proof
  assume "list_all (\<lambda>n. P (of_nat n)) [0..<256]"
  then have "P (of_nat (unat x))" for x :: byte
    using unsigned_less [where 'a = nat, of x] by (simp add: list_all_iff del: of_nat_unat)
  then show "\<forall>x. P (x :: byte)" by simp
qed (simp add: list_all_iff)

definition lane_lower :: "byte \<Rightarrow> byte" where
  "lane_lower x = (if 65 \<le> x \<and> x \<le> 90 then x + 32 else x)"

lemma byte_lower_tests:
  fixes x :: byte
  shows "sint x > 64 \<and> sint x < 91 \<longleftrightarrow> 65 \<le> x \<and> x \<le> 90"
    and "65 \<le> x \<and> x \<le> 90 \<longrightarrow> x OR 32 = x + 32"
proof -
  have "\<forall>x :: byte. (sint x > 64 \<and> sint x < 91 \<longleftrightarrow> 65 \<le> x \<and> x \<le> 90) \<and>
    (65 \<le> x \<and> x \<le> 90 \<longrightarrow> x OR 32 = x + 32)"
    unfolding byte_all by code_simp
  then show "sint x > 64 \<and> sint x < 91 \<longleftrightarrow> 65 \<le> x \<and> x \<le> 90"
    and "65 \<le> x \<and> x \<le> 90 \<longrightarrow> x OR 32 = x + 32" by auto
qed

lemma byte_uri_tests:
  fixes x :: byte
  shows "sint x > 32 \<and> sint x < 127 \<longleftrightarrow> 32 < x \<and> x < 127"
proof -
  have "\<forall>x :: byte. (sint x > 32 \<and> sint x < 127 \<longleftrightarrow> 32 < x \<and> x < 127)"
    unfolding byte_all by code_simp
  then show ?thesis by auto
qed

lemma byte_ctl_test:
  fixes x :: byte
  shows "(if x \<le> 32 then 0 < sint (32 - x) else False) \<longleftrightarrow> x < 32"
proof -
  have "\<forall>x :: byte. (if x \<le> 32 then 0 < sint (32 - x) else False) \<longleftrightarrow> x < 32"
    unfolding byte_all by code_simp
  then show ?thesis by auto
qed

lemma mask_lits: "mask 32 = (0xFFFFFFFF :: u64)" "mask 16 = (0xFFFF :: u64)"
  by (simp_all add: mask_eq_exp_minus_1)

lemma movemask_ones:
  assumes "length v = W" "W \<le> 64"
  shows "movemask_epi8 v = mask W \<longleftrightarrow> (\<forall>k < W. bit (v ! k) 7)"
    and "movemask_epi8 v AND mask W = mask W \<longleftrightarrow> (\<forall>k < W. bit (v ! k) 7)"
  using assms by (auto simp: u64_eq_iff bit_movemask bit_mask_iff bit_and_iff) (metis order_less_le_trans)+

lemma movemask_zero:
  assumes "length v = W" "W \<le> 64"
  shows "movemask_epi8 v = 0 \<longleftrightarrow> (\<forall>k < W. \<not> bit (v ! k) 7)"
    and "movemask_epi8 v AND mask W = 0 \<longleftrightarrow> (\<forall>k < W. \<not> bit (v ! k) 7)"
  using assms by (auto simp: u64_zero_iff bit_movemask bit_mask_iff bit_and_iff) (metis order_less_le_trans)+

lemma kmask_ones:
  "length a = 64 \<Longrightarrow> length b = 64 \<Longrightarrow> kmask P a b = - 1 \<longleftrightarrow> (\<forall>k < 64. P (a ! k) (b ! k))"
  by (auto simp: u64_eq_iff bit_kmask bit_minus_1_iff)

lemma and_tail_mask:
  "n < 64 \<Longrightarrow> w AND tail_mask n = tail_mask n \<longleftrightarrow> (\<forall>k < n. bit w k)"
  by (auto simp: u64_eq_iff bit_and_iff bit_tail_mask) (metis order.strict_trans)

subsection \<open>Case-insensitive equality\<close>

definition ascii_lower :: "char \<Rightarrow> char" where
  "ascii_lower c = (if 65 \<le> u8 c \<and> u8 c \<le> 90 then char_of (u8 c + 32) else c)"

text \<open>The three ways the tiers fold a register to lower case.\<close>

definition k_lower :: "nat \<Rightarrow> reg \<Rightarrow> reg" where
  "k_lower W v =
     (let is_upper = kmask (\<lambda>x y. sint x > sint y) v (set1 W 64) AND
                     kmask (\<lambda>x y. sint x < sint y) v (set1 W 91)
      in mask_add_epi8 v is_upper 32)"

definition v_lower :: "nat \<Rightarrow> reg \<Rightarrow> reg" where
  "v_lower W v =
     (let is_u = and_reg (cmpgt_epi8 v (set1 W 64)) (cmpgt_epi8 (set1 W 91) v)
      in or_reg v (and_reg is_u (set1 W 32)))"

definition neon_lower :: "reg \<Rightarrow> reg" where
  "neon_lower v =
     (let is_u = and_reg (cmple_epu8 (set1 16 65) v) (cmple_epu8 v (set1 16 90))
      in or_reg v (and_reg is_u (set1 16 32)))"

definition k_iequals :: "nat \<Rightarrow> u64 \<Rightarrow> string \<Rightarrow> string \<Rightarrow> nat \<Rightarrow> bool" where
  "k_iequals W m p1 p2 i =
     (let v1 = k_lower W (maskz_loadu W m p1 i);
          v2 = k_lower W (maskz_loadu W m p2 i)
      in kmask (=) v1 v2 AND m = m)"

definition iequals :: "simd_tier \<Rightarrow> string \<Rightarrow> string \<Rightarrow> bool" where
  "iequals t a b =
     (let len = length a;
          same = (\<lambda>i. ascii_lower (a ! i) = ascii_lower (b ! i));
          finish = (\<lambda>r. case r of None \<Rightarrow> False | Some i \<Rightarrow> scalar_all same i len)
      in if len \<noteq> length b then False
         else if len = 0 then True
         else case t of
           AVX512 \<Rightarrow>
             if len \<le> 16 then k_iequals 16 (tail_mask len) a b 0
             else if len \<le> 32 then k_iequals 32 (tail_mask len) a b 0
             else (case simd_check 64 (\<lambda>i. kmask (=) (k_lower 64 (loadu 64 a i))
                                             (k_lower 64 (loadu 64 b i)) = - 1) len 0 of
                     None \<Rightarrow> False
                   | Some i \<Rightarrow> i < len \<longrightarrow> k_iequals 64 (tail_mask (len - i)) a b i)
         | AVX2 \<Rightarrow>
             finish (if 32 \<le> len
               then simd_check 32 (\<lambda>i. movemask_epi8 (cmpeq_epi8 (v_lower 32 (loadu 32 a i))
                      (v_lower 32 (loadu 32 b i))) = 0xFFFFFFFF) len 0
               else Some 0)
         | SSE42 \<Rightarrow>
             finish (if 16 \<le> len
               then simd_check 16 (\<lambda>i. movemask_epi8 (cmpeq_epi8 (v_lower 16 (loadu 16 a i))
                      (v_lower 16 (loadu 16 b i))) AND 0xFFFF = 0xFFFF) len 0
               else Some 0)
         | NEON \<Rightarrow>
             finish (if 16 \<le> len
               then simd_check 16 (\<lambda>i. vminvq_u8 (cmpeq_epi8 (neon_lower (loadu 16 a i))
                      (neon_lower (loadu 16 b i))) = 0xFF) len 0
               else Some 0)
         | Scalar \<Rightarrow> finish (Some 0))"

lemma length_lower [simp]:
  "length (k_lower W v) = length v"
  "length v = W \<Longrightarrow> length (v_lower W v) = W"
  "length v = 16 \<Longrightarrow> length (neon_lower v) = 16"
  by (simp_all add: k_lower_def v_lower_def neon_lower_def Let_def)

lemma nth_lower [simp]:
  "k < W \<Longrightarrow> W \<le> 64 \<Longrightarrow> length v = W \<Longrightarrow> k_lower W v ! k = lane_lower (v ! k)"
  "k < W \<Longrightarrow> length v = W \<Longrightarrow> v_lower W v ! k = lane_lower (v ! k)"
  "k < 16 \<Longrightarrow> length v = 16 \<Longrightarrow> neon_lower v ! k = lane_lower (v ! k)"
  using byte_lower_tests [of "v ! k"]
  by (auto simp: k_lower_def v_lower_def neon_lower_def Let_def lane_lower_def bit_kmask bit_and_iff)

lemma lane_lower_lane: "lane_lower (lane c) = lane (ascii_lower c)"
proof -
  have "65 \<le> lane c \<and> lane c \<le> 90 \<longleftrightarrow> 65 \<le> u8 c \<and> u8 c \<le> 90"
    by (simp add: word_le_nat_alt)
  then show ?thesis by (simp add: lane_lower_def ascii_lower_def lane_def u8_def)
qed

lemma lane_lower_eq [simp]:
  "lane_lower (lane c) = lane_lower (lane d) \<longleftrightarrow> ascii_lower c = ascii_lower d"
  by (simp add: lane_lower_lane)

lemma k_iequals_iff:
  assumes "n < 64" "n \<le> W" "W \<le> 64" "i + n \<le> length a" "i + n \<le> length b"
  shows "k_iequals W (tail_mask n) a b i \<longleftrightarrow>
    (\<forall>k < n. ascii_lower (a ! (i + k)) = ascii_lower (b ! (i + k)))"
  using assms by (auto simp: k_iequals_def Let_def and_tail_mask bit_kmask bit_tail_mask)

lemma check_then_rest:
  assumes "0 < W" "\<And>i. i + W \<le> len \<Longrightarrow> ok i \<longleftrightarrow> (\<forall>k < W. Q (i + k))"
  shows "(case simd_check W ok len 0 of None \<Rightarrow> False | Some i \<Rightarrow> scalar_all Q i len) =
    scalar_all Q 0 len"
  using simd_check_spec [of W len ok Q 0, OF assms] by (auto split: option.splits)

lemma check_then_tail:
  assumes "\<And>i. i + 64 \<le> len \<Longrightarrow> ok i \<longleftrightarrow> (\<forall>k < 64. Q (i + k))"
    and "\<And>i. i < len \<Longrightarrow> len < i + 64 \<Longrightarrow> tok i \<longleftrightarrow> (\<forall>k < len - i. Q (i + k))"
  shows "(case simd_check 64 ok len 0 of None \<Rightarrow> False | Some i \<Rightarrow> i < len \<longrightarrow> tok i) =
    scalar_all Q 0 len"
proof -
  have all: "scalar_all Q i len \<longleftrightarrow> (\<forall>k < len - i. Q (i + k))" for i
  proof
    assume r: "\<forall>k < len - i. Q (i + k)"
    have "Q j" if "i \<le> j" "j < len" for j
      using r [rule_format, of "j - i"] that by simp
    then show "scalar_all Q i len" by (simp add: scalar_all_def list_all_iff)
  qed (simp add: scalar_all_def list_all_iff)
  show ?thesis
    using simd_check_spec [of 64 len ok Q 0, OF _ assms(1)] assms(2)
    by (auto simp: all split: option.splits)
qed

lemma scalar_all_0: "scalar_all Q 0 n \<longleftrightarrow> (\<forall>k < n. Q k)"
  by (auto simp: scalar_all_def list_all_iff)

lemma ff_byte: "(0xFF :: byte) = - 1"
  by simp

lemma iequals_correct [scan_simps]: "iequals t a b \<longleftrightarrow> map ascii_lower a = map ascii_lower b"
proof (cases "length a = length b \<and> a \<noteq> []")
  case False
  then show ?thesis
    by (auto simp: iequals_def Let_def dest: map_eq_imp_length_eq)
next
  case True
  then have eq: "length a = length b" "a \<noteq> []" "b \<noteq> []" by auto
  let ?Q = "\<lambda>i. ascii_lower (a ! i) = ascii_lower (b ! i)"
  have "iequals t a b \<longleftrightarrow> scalar_all ?Q 0 (length a)"
  proof (cases t)
    case AVX512
    have "(case simd_check 64 (\<lambda>i. kmask (=) (k_lower 64 (loadu 64 a i))
        (k_lower 64 (loadu 64 b i)) = - 1) (length a) 0 of None \<Rightarrow> False
        | Some i \<Rightarrow> i < length a \<longrightarrow> k_iequals 64 (tail_mask (length a - i)) a b i) =
      scalar_all ?Q 0 (length a)"
      by (rule check_then_tail) (use eq in \<open>auto simp: kmask_ones k_iequals_iff\<close>)
    then have "32 < length a \<Longrightarrow> ?thesis"
      using AVX512 eq unfolding iequals_def Let_def by simp
    moreover have "length a \<le> 32 \<Longrightarrow> ?thesis"
      using AVX512 eq unfolding iequals_def Let_def
      by (cases "length a \<le> 16") (simp_all add: k_iequals_iff scalar_all_0)
    ultimately show ?thesis by linarith
  next
    case AVX2
    have "(case simd_check 32 (\<lambda>i. movemask_epi8 (cmpeq_epi8 (v_lower 32 (loadu 32 a i))
        (v_lower 32 (loadu 32 b i))) = 0xFFFFFFFF) (length a) 0 of None \<Rightarrow> False
        | Some i \<Rightarrow> scalar_all ?Q i (length a)) = scalar_all ?Q 0 (length a)"
      unfolding mask_lits [symmetric]
      by (rule check_then_rest) (use eq in \<open>auto simp: movemask_ones\<close>)
    with AVX2 eq show ?thesis unfolding iequals_def Let_def by (simp add: scalar_all_0)
  next
    case SSE42
    have "(case simd_check 16 (\<lambda>i. movemask_epi8 (cmpeq_epi8 (v_lower 16 (loadu 16 a i))
        (v_lower 16 (loadu 16 b i))) AND 0xFFFF = 0xFFFF) (length a) 0 of None \<Rightarrow> False
        | Some i \<Rightarrow> scalar_all ?Q i (length a)) = scalar_all ?Q 0 (length a)"
      unfolding mask_lits [symmetric]
      by (rule check_then_rest) (use eq in \<open>auto simp: movemask_ones\<close>)
    with SSE42 eq show ?thesis unfolding iequals_def Let_def by (simp add: scalar_all_0)
  next
    case NEON
    have "(case simd_check 16 (\<lambda>i. vminvq_u8 (cmpeq_epi8 (neon_lower (loadu 16 a i))
        (neon_lower (loadu 16 b i))) = 0xFF) (length a) 0 of None \<Rightarrow> False
        | Some i \<Rightarrow> scalar_all ?Q i (length a)) = scalar_all ?Q 0 (length a)"
      unfolding ff_byte by (rule check_then_rest) (use eq in \<open>auto simp: vminvq_ones\<close>)
    with NEON eq show ?thesis unfolding iequals_def Let_def by (simp add: scalar_all_0)
  next
    case Scalar
    with eq show ?thesis unfolding iequals_def Let_def by (simp add: scalar_all_0)
  qed
  with eq(1) show ?thesis by (simp add: scalar_all_0 list_eq_iff_nth_eq [of "map ascii_lower a"])
qed

subsection \<open>Character-class validation\<close>

text \<open>
  The remaining routines scan for a forbidden character: a vector block is accepted when no lane
  (or every lane) passes, and the remainder is checked by the scalar loop.
\<close>

definition url_special :: "char \<Rightarrow> bool" where
  "url_special c \<longleftrightarrow> c = CHR ''%'' \<or> c = CHR ''+''"

definition has_url_encoding_chars :: "simd_tier \<Rightarrow> string \<Rightarrow> bool" where
  "has_url_encoding_chars t sv =
     (let len = length sv;
          kany = (\<lambda>chunk. kmask (=) chunk (set1 64 37) OR kmask (=) chunk (set1 64 43));
          vany = (\<lambda>W i. or_reg (cmpeq_epi8 (loadu W sv i) (set1 W 37))
                               (cmpeq_epi8 (loadu W sv i) (set1 W 43)));
          clean = (\<lambda>i. \<not> url_special (sv ! i));
          finish = (\<lambda>r. case r of None \<Rightarrow> True | Some i \<Rightarrow> \<not> scalar_all clean i len)
      in case t of
           AVX512 \<Rightarrow>
             (case simd_check 64 (\<lambda>i. kany (loadu 64 sv i) = 0) len 0 of
                None \<Rightarrow> True
              | Some i \<Rightarrow> i < len \<and> kany (maskz_loadu 64 (tail_mask (len - i)) sv i) \<noteq> 0)
         | AVX2 \<Rightarrow> finish (simd_check 32 (\<lambda>i. movemask_epi8 (vany 32 i) = 0) len 0)
         | SSE42 \<Rightarrow> finish (simd_check 16 (\<lambda>i. movemask_epi8 (vany 16 i) = 0) len 0)
         | NEON \<Rightarrow> finish (simd_check 16 (\<lambda>i. vmaxvq_u8 (vany 16 i) = 0) len 0)
         | Scalar \<Rightarrow> finish (Some 0))"

text \<open>The RFC 9110 token characters, as the table is computed.\<close>

definition is_tchar :: "char \<Rightarrow> bool" where
  "is_tchar c \<longleftrightarrow>
     (CHR ''a'' \<le> c \<and> c \<le> CHR ''z'') \<or> (CHR ''A'' \<le> c \<and> c \<le> CHR ''Z'') \<or>
     (CHR ''0'' \<le> c \<and> c \<le> CHR ''9'') \<or>
     c \<in> set [CHR ''!'', CHR ''#'', CHR ''$'', CHR ''%'', CHR ''&'', CHR 0x27, CHR ''*'',
       CHR ''+'', CHR ''-'', CHR ''.'', CHR ''^'', CHR ''_'', CHR 0x60, CHR ''|'', CHR ''~'']"

definition validate_tchars :: "string \<Rightarrow> bool" where
  "validate_tchars sv = list_all is_tchar sv"

definition uri_char :: "char \<Rightarrow> bool" where
  "uri_char c \<longleftrightarrow> \<not> (u8 c \<le> 0x20 \<or> 0x7F \<le> u8 c)"

definition neon_uri_block :: "reg \<Rightarrow> reg" where
  "neon_uri_block chunk =
     and_reg (cmplt_epu8 (set1 16 0x20) chunk) (cmplt_epu8 chunk (set1 16 0x7F))"

definition validate_uri_chars :: "simd_tier \<Rightarrow> string \<Rightarrow> bool" where
  "validate_uri_chars t sv =
     (let len = length sv;
          kok = (\<lambda>chunk. kmask (\<lambda>x y. sint x > sint y) chunk (set1 64 0x20) AND
                         kmask (\<lambda>x y. sint x < sint y) chunk (set1 64 0x7F));
          vok = (\<lambda>W i. and_reg (cmpgt_epi8 (loadu W sv i) (set1 W 0x20))
                               (cmpgt_epi8 (set1 W 0x7F) (loadu W sv i)));
          ok = (\<lambda>i. uri_char (sv ! i));
          finish = (\<lambda>r. case r of None \<Rightarrow> False | Some i \<Rightarrow> scalar_all ok i len)
      in case t of
           AVX512 \<Rightarrow>
             (case simd_check 64 (\<lambda>i. kok (loadu 64 sv i) = NOT 0) len 0 of
                None \<Rightarrow> False
              | Some i \<Rightarrow>
                  i < len \<longrightarrow>
                  (let tail = tail_mask (len - i)
                   in kok (maskz_loadu 64 tail sv i) AND tail = tail))
         | AVX2 \<Rightarrow> finish (simd_check 32 (\<lambda>i. movemask_epi8 (vok 32 i) = 0xFFFFFFFF) len 0)
         | SSE42 \<Rightarrow> finish (simd_check 16 (\<lambda>i. movemask_epi8 (vok 16 i) AND 0xFFFF = 0xFFFF) len 0)
         | NEON \<Rightarrow> finish (simd_check 16 (\<lambda>i. vminvq_u8 (neon_uri_block (loadu 16 sv i)) = 0xFF) len 0)
         | Scalar \<Rightarrow> finish (Some 0))"

text \<open>The two header value checks have no AVX-512 branch: such a build takes the AVX2 one.\<close>

definition value_char :: "char \<Rightarrow> bool" where
  "value_char c \<longleftrightarrow> \<not> (c = CR \<or> (u8 c < 0x20 \<and> c \<noteq> HTAB) \<or> u8 c = 0x7F)"

definition x86_ctl :: "nat \<Rightarrow> reg \<Rightarrow> reg" where
  "x86_ctl W chunk = cmpgt_epi8 (subs_epu8 (set1 W 0x20) chunk) (set1 W 0)"

definition neon_ctl :: "nat \<Rightarrow> reg \<Rightarrow> reg" where
  "neon_ctl W chunk = cmplt_epu8 chunk (set1 W 0x20)"

definition bad_value_block :: "(nat \<Rightarrow> reg \<Rightarrow> reg) \<Rightarrow> nat \<Rightarrow> reg \<Rightarrow> reg" where
  "bad_value_block ctl W chunk =
     (let is_cr = cmpeq_epi8 chunk (set1 W 13);
          is_del = cmpeq_epi8 chunk (set1 W 0x7F);
          is_tab = cmpeq_epi8 chunk (set1 W 9);
          bad_ctl = andnot_reg is_tab (ctl W chunk)
      in or_reg (or_reg is_cr is_del) bad_ctl)"

definition validate_header_value :: "simd_tier \<Rightarrow> string \<Rightarrow> bool" where
  "validate_header_value t sv =
     (let len = length sv;
          bad = (\<lambda>ctl W i. bad_value_block ctl W (loadu W sv i));
          ok = (\<lambda>i. value_char (sv ! i));
          finish = (\<lambda>r. case r of None \<Rightarrow> False | Some i \<Rightarrow> scalar_all ok i len);
          avx2 = finish (simd_check 32 (\<lambda>i. movemask_epi8 (bad x86_ctl 32 i) = 0) len 0)
      in case t of
           AVX512 \<Rightarrow> avx2
         | AVX2 \<Rightarrow> avx2
         | SSE42 \<Rightarrow>
             finish (simd_check 16 (\<lambda>i. movemask_epi8 (bad x86_ctl 16 i) AND 0xFFFF = 0) len 0)
         | NEON \<Rightarrow> finish (simd_check 16 (\<lambda>i. vmaxvq_u8 (bad neon_ctl 16 i) = 0) len 0)
         | Scalar \<Rightarrow> finish (Some 0))"

definition h2_h3_value_char :: "char \<Rightarrow> bool" where
  "h2_h3_value_char c \<longleftrightarrow> \<not> (u8 c = 0 \<or> c = CR \<or> c = LF)"

definition bad_h2_h3_block :: "nat \<Rightarrow> reg \<Rightarrow> reg" where
  "bad_h2_h3_block W chunk =
     or_reg (or_reg (cmpeq_epi8 chunk (set1 W 0)) (cmpeq_epi8 chunk (set1 W 13)))
            (cmpeq_epi8 chunk (set1 W 10))"

definition validate_h2_h3_header_value :: "simd_tier \<Rightarrow> string \<Rightarrow> bool" where
  "validate_h2_h3_header_value t sv =
     (let len = length sv;
          bad = (\<lambda>W i. bad_h2_h3_block W (loadu W sv i));
          ok = (\<lambda>i. h2_h3_value_char (sv ! i));
          finish = (\<lambda>r. case r of None \<Rightarrow> False | Some i \<Rightarrow> scalar_all ok i len);
          avx2 = finish (simd_check 32 (\<lambda>i. movemask_epi8 (bad 32 i) = 0) len 0)
      in case t of
           AVX512 \<Rightarrow> avx2
         | AVX2 \<Rightarrow> avx2
         | SSE42 \<Rightarrow> finish (simd_check 16 (\<lambda>i. movemask_epi8 (bad 16 i) AND 0xFFFF = 0) len 0)
         | NEON \<Rightarrow> finish (simd_check 16 (\<lambda>i. vmaxvq_u8 (bad 16 i) = 0) len 0)
         | Scalar \<Rightarrow> finish (Some 0))"

lemma lane_char_lit: "lane c = of_nat (u8 d) \<longleftrightarrow> c = d"
  by simp

lemma lane_class:
  "lane c = 0x7F \<longleftrightarrow> u8 c = 127" "lane c = 0 \<longleftrightarrow> u8 c = 0"
  "lane c = 9 \<longleftrightarrow> c = HTAB" "lane c = 37 \<longleftrightarrow> c = CHR ''%''" "lane c = 43 \<longleftrightarrow> c = CHR ''+''"
  "lane c < 32 \<longleftrightarrow> u8 c < 32" "32 < lane c \<longleftrightarrow> 32 < u8 c" "lane c < 127 \<longleftrightarrow> u8 c < 127"
  subgoal using lane_eq_iff [of 127 c] by simp
  subgoal using lane_eq_iff [of 0 c] by simp
  subgoal using lane_char_lit [of c HTAB] unfolding u8_def by simp
  subgoal using lane_char_lit [of c "CHR ''%''"] unfolding u8_def by simp
  subgoal using lane_char_lit [of c "CHR ''+''"] unfolding u8_def by simp
  by (simp_all add: word_less_nat_alt)

lemma uri_lane: "sint (lane c) > 32 \<and> sint (lane c) < 127 \<longleftrightarrow> uri_char c"
  unfolding byte_uri_tests by (auto simp: lane_class uri_char_def)

lemma ctl_lane: "(if lane c \<le> 32 then 0 < sint (32 - lane c) else False) \<longleftrightarrow> u8 c < 32"
  unfolding byte_ctl_test by (simp add: lane_class)

lemma finish_not:
  "(case r of None \<Rightarrow> True | Some i \<Rightarrow> \<not> f i) \<longleftrightarrow> \<not> (case r of None \<Rightarrow> False | Some i \<Rightarrow> f i)"
  by (cases r) auto

lemma finish_not_tail:
  "(case r of None \<Rightarrow> True | Some i \<Rightarrow> p i \<and> \<not> f i) \<longleftrightarrow>
   \<not> (case r of None \<Rightarrow> False | Some i \<Rightarrow> p i \<longrightarrow> f i)"
  by (cases r) auto

lemmas class_simps = movemask_ones movemask_zero vmaxvq_zero vminvq_ones lane_class lane_lit
  bit_kmask bit_and_iff bit_or_iff bit_not_iff bit_tail_mask bit_minus_1_iff

lemma has_url_encoding_chars_correct [scan_simps]:
  "has_url_encoding_chars t sv \<longleftrightarrow> \<not> list_all (\<lambda>c. \<not> url_special c) sv"
proof -
  note rest = check_then_rest [where Q = "\<lambda>i. \<not> url_special (sv ! i)" and len = "length sv"]
  note tail = check_then_tail [where Q = "\<lambda>i. \<not> url_special (sv ! i)" and len = "length sv"]
  show ?thesis
  proof (cases t)
    case AVX512
    then show ?thesis unfolding has_url_encoding_chars_def Let_def finish_not_tail simd_tier.case
      by (subst tail) (auto simp: class_simps u64_zero_iff url_special_def scalar_all_0 list_all_length)
  next
    case AVX2
    then show ?thesis unfolding has_url_encoding_chars_def Let_def finish_not simd_tier.case
      by (subst rest) (auto simp: class_simps url_special_def scalar_all_0 list_all_length)
  next
    case SSE42
    then show ?thesis unfolding has_url_encoding_chars_def Let_def finish_not simd_tier.case
      by (subst rest) (auto simp: class_simps url_special_def scalar_all_0 list_all_length)
  next
    case NEON
    then show ?thesis unfolding has_url_encoding_chars_def Let_def finish_not simd_tier.case
      by (subst rest) (auto simp: class_simps url_special_def scalar_all_0 list_all_length)
  next
    case Scalar
    then show ?thesis by (simp add: has_url_encoding_chars_def scalar_all_0 list_all_length)
  qed
qed


lemma neon_uri_lane:
  assumes "length chunk = 16"
  shows "length (neon_uri_block chunk) = 16"
    and "k < 16 \<Longrightarrow> chunk ! k = lane c \<Longrightarrow>
      neon_uri_block chunk ! k = (if uri_char c then - 1 else 0)"
  using assms by (auto simp: neon_uri_block_def lane_class uri_char_def)

lemma validate_uri_chars_correct [scan_simps]:
  "validate_uri_chars t sv \<longleftrightarrow> list_all uri_char sv"
proof -
  note rest = check_then_rest [where Q = "\<lambda>i. uri_char (sv ! i)" and len = "length sv"]
  note tail = check_then_tail [where Q = "\<lambda>i. uri_char (sv ! i)" and len = "length sv"]
  show ?thesis
  proof (cases t)
    case AVX512
    then show ?thesis unfolding validate_uri_chars_def Let_def simd_tier.case
      by (subst tail) (auto simp: scalar_all_0 list_all_length class_simps and_tail_mask u64_eq_iff uri_lane [symmetric])
  next
    case AVX2
    then show ?thesis
      unfolding validate_uri_chars_def Let_def simd_tier.case mask_lits [symmetric]
      by (subst rest) (auto simp: scalar_all_0 list_all_length class_simps uri_lane [symmetric])
  next
    case SSE42
    then show ?thesis
      unfolding validate_uri_chars_def Let_def simd_tier.case mask_lits [symmetric]
      by (subst rest) (auto simp: scalar_all_0 list_all_length class_simps uri_lane [symmetric])
  next
    case NEON
    then show ?thesis unfolding validate_uri_chars_def Let_def simd_tier.case ff_byte
      by (subst rest) (auto simp: scalar_all_0 list_all_length vminvq_ones neon_uri_lane split: if_splits)
  next
    case Scalar
    then show ?thesis by (simp add: validate_uri_chars_def scalar_all_0 list_all_length)
  qed
qed


lemma ctl_block:
  assumes "length chunk = W"
  shows "length (x86_ctl W chunk) = W" "length (neon_ctl W chunk) = W"
    and "k < W \<Longrightarrow> chunk ! k = lane c \<Longrightarrow> x86_ctl W chunk ! k = (if u8 c < 32 then - 1 else 0)"
    and "k < W \<Longrightarrow> chunk ! k = lane c \<Longrightarrow> neon_ctl W chunk ! k = (if u8 c < 32 then - 1 else 0)"
  using assms ctl_lane [of c] by (simp_all add: x86_ctl_def neon_ctl_def lane_class split: if_splits)

lemma bad_value_lane:
  assumes "length chunk = W"
  shows "length (bad_value_block x86_ctl W chunk) = W" "length (bad_value_block neon_ctl W chunk) = W"
    and "k < W \<Longrightarrow> chunk ! k = lane c \<Longrightarrow>
      bad_value_block x86_ctl W chunk ! k = (if value_char c then 0 else - 1)"
    and "k < W \<Longrightarrow> chunk ! k = lane c \<Longrightarrow>
      bad_value_block neon_ctl W chunk ! k = (if value_char c then 0 else - 1)"
  using assms
  by (simp_all add: bad_value_block_def Let_def ctl_block lane_class lane_lit value_char_def)

lemma validate_header_value_correct [scan_simps]:
  "validate_header_value t sv \<longleftrightarrow> list_all value_char sv"
proof -
  note rest = check_then_rest [where Q = "\<lambda>i. value_char (sv ! i)" and len = "length sv"]
  note cs = scalar_all_0 list_all_length movemask_zero vmaxvq_zero bad_value_lane bit_minus_1_iff
  show ?thesis
  proof (cases t)
    case AVX512
    then show ?thesis unfolding validate_header_value_def Let_def simd_tier.case
      by (subst rest) (auto simp: cs)
  next
    case AVX2
    then show ?thesis unfolding validate_header_value_def Let_def simd_tier.case
      by (subst rest) (auto simp: cs)
  next
    case SSE42
    then show ?thesis
      unfolding validate_header_value_def Let_def simd_tier.case mask_lits [symmetric]
      by (subst rest) (auto simp: cs)
  next
    case NEON
    then show ?thesis unfolding validate_header_value_def Let_def simd_tier.case
      by (subst rest) (auto simp: cs)
  next
    case Scalar
    then show ?thesis by (simp add: validate_header_value_def cs)
  qed
qed

lemma bad_h2_h3_lane:
  assumes "length chunk = W"
  shows "length (bad_h2_h3_block W chunk) = W"
    and "k < W \<Longrightarrow> chunk ! k = lane c \<Longrightarrow>
      bad_h2_h3_block W chunk ! k = (if h2_h3_value_char c then 0 else - 1)"
  using assms by (simp_all add: bad_h2_h3_block_def lane_class lane_lit h2_h3_value_char_def)

lemma validate_h2_h3_header_value_correct [scan_simps]:
  "validate_h2_h3_header_value t sv \<longleftrightarrow> list_all h2_h3_value_char sv"
proof -
  note rest = check_then_rest [where Q = "\<lambda>i. h2_h3_value_char (sv ! i)" and len = "length sv"]
  note cs = scalar_all_0 list_all_length movemask_zero vmaxvq_zero bad_h2_h3_lane bit_minus_1_iff
  show ?thesis
  proof (cases t)
    case AVX512
    then show ?thesis unfolding validate_h2_h3_header_value_def Let_def simd_tier.case
      by (subst rest) (auto simp: cs)
  next
    case AVX2
    then show ?thesis unfolding validate_h2_h3_header_value_def Let_def simd_tier.case
      by (subst rest) (auto simp: cs)
  next
    case SSE42
    then show ?thesis
      unfolding validate_h2_h3_header_value_def Let_def simd_tier.case mask_lits [symmetric]
      by (subst rest) (auto simp: cs)
  next
    case NEON
    then show ?thesis unfolding validate_h2_h3_header_value_def Let_def simd_tier.case
      by (subst rest) (auto simp: cs)
  next
    case Scalar
    then show ?thesis by (simp add: validate_h2_h3_header_value_def cs)
  qed
qed

subsection \<open>The contract the parsers use\<close>

text \<open>
  A byte scanner finds the first occurrence of its pattern. The parsers use only what follows from
  that: where a hit lies, what stands there, and that a hit does not move when more bytes arrive.
\<close>

locale byte_scanner =
  fixes search :: "string \<Rightarrow> nat \<Rightarrow> nat option" and pat :: string
  assumes search_ref: "search s pos = sv_find_str pat s pos"
begin

lemma bound: "search s pos = Some j \<Longrightarrow> pos \<le> j \<and> j + length pat \<le> length s"
  by (simp add: search_ref sv_find_str_Some_iff)

lemma hit: "search s pos = Some j \<Longrightarrow> substr s j (length pat) = pat"
  by (simp add: search_ref sv_find_str_Some_iff starts_with_def substr_def)

lemma first: "search s pos = Some j \<Longrightarrow> pos \<le> k \<Longrightarrow> k < j \<Longrightarrow> \<not> starts_with (drop k s) pat"
  by (simp add: search_ref sv_find_str_Some_iff)

lemma append_stable:
  assumes "search s pos = Some j"
  shows "search (s @ u) pos = Some j"
proof -
  have "starts_with (drop k (s @ u)) pat = starts_with (drop k s) pat" if "k \<le> j" for k
    using bound [OF assms] that by (auto simp: starts_with_nth nth_append)
  then show ?thesis using assms by (auto simp: search_ref sv_find_str_Some_iff)
qed

lemma found_iff: "(\<exists>j. search s pos = Some j) \<longleftrightarrow>
    (\<exists>k \<ge> pos. k + length pat \<le> length s \<and> starts_with (drop k s) pat)"
proof -
  have "search s pos = None \<longleftrightarrow>
    (\<forall>k. pos \<le> k \<and> k + length pat \<le> length s \<longrightarrow> \<not> starts_with (drop k s) pat)"
    by (auto simp: search_ref sv_find_str_def first_in_None_iff less_Suc_eq_le
        Suc_diff_le le_diff_conv2 dest: spec)
  then show ?thesis by (cases "search s pos") auto
qed

end

lemma sv_find_as_str: "sv_find c s pos = sv_find_str [c] s pos"
  unfolding sv_find_def sv_find_str_def
  by (rule first_in_cong [THEN trans [OF _ arg_cong [of _ _ "first_in _ pos"]]])
    (auto simp: starts_with_def take_Suc_conv_app_nth hd_drop_conv_nth)

interpretation char_scan: byte_scanner "\<lambda>s. find_char t s c" "[c]" for t c
  by unfold_locales (simp add: find_char_correct sv_find_as_str)

interpretation crlf_scan: byte_scanner "find_crlf t" crlf for t
  by unfold_locales (rule find_crlf_correct)

interpretation dcrlf_scan: byte_scanner "find_double_crlf t" "crlf @ crlf" for t
  by unfold_locales (rule find_double_crlf_correct)

subsection \<open>Properties of the scanning primitives\<close>

text \<open>
  The vectorised searches are exact. In every tier, for every view and start position,
  \<^verbatim>\<open>find_char\<close>, \<^verbatim>\<open>find_crlf\<close> and \<^verbatim>\<open>find_double_crlf\<close> return the first occurrence at or after
  the start, and nothing when there is none.
\<close>

theorem simd_searches_exact:
  "find_char t sv c pos = sv_find c sv pos \<and>
   find_crlf t sv pos = sv_find_str crlf sv pos \<and>
   find_double_crlf t sv pos = sv_find_str (crlf @ crlf) sv pos"
  by (simp add: find_char_correct find_crlf_correct find_double_crlf_correct)

text \<open>
  Case-insensitive comparison folds exactly the ASCII letters: in every tier two views compare
  equal when they agree after mapping A to Z to lower case, and only then.
\<close>

theorem simd_iequals_exact:
  "iequals t a b \<longleftrightarrow> map ascii_lower a = map ascii_lower b"
  by (rule iequals_correct)

text \<open>
  The vectorised validators accept exactly their character classes: the tests for URL escapes,
  URI characters, HTTP/1 header values and HTTP/2 and HTTP/3 header values agree, in every tier,
  with the byte-by-byte definition of the class.
\<close>

theorem simd_validators_exact:
  "has_url_encoding_chars t sv = list_ex url_special sv \<and>
   validate_uri_chars t sv = list_all uri_char sv \<and>
   validate_header_value t sv = list_all value_char sv \<and>
   validate_h2_h3_header_value t sv = list_all h2_h3_value_char sv"
  by (simp add: has_url_encoding_chars_correct validate_uri_chars_correct
      validate_header_value_correct validate_h2_h3_header_value_correct list_ex_iff list_all_iff)

end
