(* ===== verification/Http_Protocol.thy ===== *)
theory Http_Protocol
  imports Simd_String
begin

text \<open>
  \<^verbatim>\<open>src/http/Protocol.h\<close> and the limits of \<^verbatim>\<open>src/http/ServerConfig.h\<close>: versions, methods,
  status codes with their phrases, and the checks HTTP/1, HTTP/2 and HTTP/3 share (request target,
  Content-Length, path and query split, Expect). The SIMD tier \<open>t\<close> is the one the build selects.
\<close>

subsection \<open>Versions, methods and status codes\<close>

datatype http_version = Http1_0 | Http1_1 | Http2 | Http3

definition version_to_string :: "http_version \<Rightarrow> string" where
  "version_to_string v = (case v of
      Http1_0 \<Rightarrow> ''HTTP/1.0'' | Http1_1 \<Rightarrow> ''HTTP/1.1''
    | Http2 \<Rightarrow> ''HTTP/2.0'' | Http3 \<Rightarrow> ''HTTP/3.0'')"

datatype http_method =
  GET | POST | PUT | DELETE | PATCH | HEAD | OPTIONS | CONNECT | TRACE | UNKNOWN

definition method_to_string :: "http_method \<Rightarrow> string" where
  "method_to_string m = (case m of
      GET \<Rightarrow> ''GET'' | POST \<Rightarrow> ''POST'' | PUT \<Rightarrow> ''PUT'' | DELETE \<Rightarrow> ''DELETE''
    | PATCH \<Rightarrow> ''PATCH'' | HEAD \<Rightarrow> ''HEAD'' | OPTIONS \<Rightarrow> ''OPTIONS'' | CONNECT \<Rightarrow> ''CONNECT''
    | TRACE \<Rightarrow> ''TRACE'' | UNKNOWN \<Rightarrow> ''UNKNOWN'')"

definition string_to_method :: "string \<Rightarrow> http_method" where
  "string_to_method sv =
     (if sv = ''GET'' then GET
      else if sv = ''POST'' then POST
      else if sv = ''PUT'' then PUT
      else if sv = ''DELETE'' then DELETE
      else if sv = ''PATCH'' then PATCH
      else if sv = ''HEAD'' then HEAD
      else if sv = ''OPTIONS'' then OPTIONS
      else if sv = ''CONNECT'' then CONNECT
      else if sv = ''TRACE'' then TRACE
      else UNKNOWN)"

text \<open>
  \<^verbatim>\<open>StatusCode\<close> is an enumeration over \<^verbatim>\<open>uint16_t\<close>; a cast can produce a value outside the
  enumerators, which \<open>Unlisted\<close> stands for.
\<close>

datatype status_code =
    Continue | SwitchingProtocols
  | Ok | Created | Accepted | NoContent | ResetContent | PartialContent
  | MultipleChoices | MovedPermanently | Found | SeeOther | NotModified
  | TemporaryRedirect | PermanentRedirect
  | BadRequest | Unauthorized | Forbidden | NotFound | MethodNotAllowed | NotAcceptable
  | RequestTimeout | Conflict | Gone | LengthRequired | PayloadTooLarge | UriTooLong
  | UnsupportedMediaType | ExpectationFailed | UnprocessableEntity | UpgradeRequired
  | TooManyRequests | RequestHeaderFieldsTooLarge
  | InternalServerError | NotImplemented | BadGateway | ServiceUnavailable | GatewayTimeout
  | HttpVersionNotSupported
  | Unlisted nat

primrec status_value :: "status_code \<Rightarrow> nat" where
  "status_value Continue = 100"
| "status_value SwitchingProtocols = 101"
| "status_value Ok = 200"
| "status_value Created = 201"
| "status_value Accepted = 202"
| "status_value NoContent = 204"
| "status_value ResetContent = 205"
| "status_value PartialContent = 206"
| "status_value MultipleChoices = 300"
| "status_value MovedPermanently = 301"
| "status_value Found = 302"
| "status_value SeeOther = 303"
| "status_value NotModified = 304"
| "status_value TemporaryRedirect = 307"
| "status_value PermanentRedirect = 308"
| "status_value BadRequest = 400"
| "status_value Unauthorized = 401"
| "status_value Forbidden = 403"
| "status_value NotFound = 404"
| "status_value MethodNotAllowed = 405"
| "status_value NotAcceptable = 406"
| "status_value RequestTimeout = 408"
| "status_value Conflict = 409"
| "status_value Gone = 410"
| "status_value LengthRequired = 411"
| "status_value PayloadTooLarge = 413"
| "status_value UriTooLong = 414"
| "status_value UnsupportedMediaType = 415"
| "status_value ExpectationFailed = 417"
| "status_value UnprocessableEntity = 422"
| "status_value UpgradeRequired = 426"
| "status_value TooManyRequests = 429"
| "status_value RequestHeaderFieldsTooLarge = 431"
| "status_value InternalServerError = 500"
| "status_value NotImplemented = 501"
| "status_value BadGateway = 502"
| "status_value ServiceUnavailable = 503"
| "status_value GatewayTimeout = 504"
| "status_value HttpVersionNotSupported = 505"
| "status_value (Unlisted n) = n"

definition listed_status :: "status_code list" where
  "listed_status =
     [Continue, SwitchingProtocols, Ok, Created, Accepted, NoContent, ResetContent,
      PartialContent, MultipleChoices, MovedPermanently, Found, SeeOther, NotModified,
      TemporaryRedirect, PermanentRedirect, BadRequest, Unauthorized, Forbidden, NotFound,
      MethodNotAllowed, NotAcceptable, RequestTimeout, Conflict, Gone, LengthRequired,
      PayloadTooLarge, UriTooLong, UnsupportedMediaType, ExpectationFailed,
      UnprocessableEntity, UpgradeRequired, TooManyRequests, RequestHeaderFieldsTooLarge,
      InternalServerError, NotImplemented, BadGateway, ServiceUnavailable, GatewayTimeout,
      HttpVersionNotSupported]"

text \<open>\<^verbatim>\<open>static_cast<StatusCode>(n)\<close>.\<close>

definition status_of_value :: "nat \<Rightarrow> status_code" where
  "status_of_value n =
     (case List.find (\<lambda>s. status_value s = n) listed_status of
        Some s \<Rightarrow> s
      | None \<Rightarrow> Unlisted n)"

primrec status_phrase :: "status_code \<Rightarrow> string" where
  "status_phrase Continue = ''Continue''"
| "status_phrase SwitchingProtocols = ''Switching Protocols''"
| "status_phrase Ok = ''OK''"
| "status_phrase Created = ''Created''"
| "status_phrase Accepted = ''Accepted''"
| "status_phrase NoContent = ''No Content''"
| "status_phrase ResetContent = ''Reset Content''"
| "status_phrase PartialContent = ''Partial Content''"
| "status_phrase MultipleChoices = ''Multiple Choices''"
| "status_phrase MovedPermanently = ''Moved Permanently''"
| "status_phrase Found = ''Found''"
| "status_phrase SeeOther = ''See Other''"
| "status_phrase NotModified = ''Not Modified''"
| "status_phrase TemporaryRedirect = ''Temporary Redirect''"
| "status_phrase PermanentRedirect = ''Permanent Redirect''"
| "status_phrase BadRequest = ''Bad Request''"
| "status_phrase Unauthorized = ''Unauthorized''"
| "status_phrase Forbidden = ''Forbidden''"
| "status_phrase NotFound = ''Not Found''"
| "status_phrase MethodNotAllowed = ''Method Not Allowed''"
| "status_phrase NotAcceptable = ''Not Acceptable''"
| "status_phrase RequestTimeout = ''Request Timeout''"
| "status_phrase Conflict = ''Conflict''"
| "status_phrase Gone = ''Gone''"
| "status_phrase LengthRequired = ''Length Required''"
| "status_phrase PayloadTooLarge = ''Payload Too Large''"
| "status_phrase UriTooLong = ''URI Too Long''"
| "status_phrase UnsupportedMediaType = ''Unsupported Media Type''"
| "status_phrase ExpectationFailed = ''Expectation Failed''"
| "status_phrase UnprocessableEntity = ''Unprocessable Entity''"
| "status_phrase UpgradeRequired = ''Upgrade Required''"
| "status_phrase TooManyRequests = ''Too Many Requests''"
| "status_phrase RequestHeaderFieldsTooLarge = ''Request Header Fields Too Large''"
| "status_phrase InternalServerError = ''Internal Server Error''"
| "status_phrase NotImplemented = ''Not Implemented''"
| "status_phrase BadGateway = ''Bad Gateway''"
| "status_phrase ServiceUnavailable = ''Service Unavailable''"
| "status_phrase GatewayTimeout = ''Gateway Timeout''"
| "status_phrase HttpVersionNotSupported = ''HTTP Version Not Supported''"
| "status_phrase (Unlisted n) = ''Unknown''"

record protocol_limits =
  max_uri_length :: nat
  max_headers_size :: nat
  max_header_count :: nat
  max_body_size :: nat

definition DEFAULT_LIMITS :: protocol_limits where
  "DEFAULT_LIMITS = \<lparr>max_uri_length = 8192, max_headers_size = 65536, max_header_count = 100,
     max_body_size = 16 * 1024 * 1024\<rparr>"

subsection \<open>Shared header and target checks\<close>

definition is_hop_by_hop_header :: "simd_tier \<Rightarrow> string \<Rightarrow> bool" where
  "is_hop_by_hop_header t name =
     (if length name = 7 then iequals t name ''upgrade''
      else if length name = 10 then iequals t name ''connection'' \<or> iequals t name ''keep-alive''
      else if length name = 17 then iequals t name ''transfer-encoding''
      else False)"

definition should_suppress_content_length :: "status_code \<Rightarrow> bool" where
  "should_suppress_content_length code =
     (let sc = status_value code in (100 \<le> sc \<and> sc < 200) \<or> sc = 204 \<or> sc = 304)"

definition is_all_lower_ascii :: "string \<Rightarrow> bool" where
  "is_all_lower_ascii sv = list_all (\<lambda>c. \<not> (CHR ''A'' \<le> c \<and> c \<le> CHR ''Z'')) sv"

definition to_lower_ascii :: "string \<Rightarrow> string" where
  "to_lower_ascii sv = map ascii_lower sv"

text \<open>The escapes a request target must not contain: \<^verbatim>\<open>%00\<close>, \<^verbatim>\<open>%0d\<close>, \<^verbatim>\<open>%0a\<close>.\<close>

definition bad_escape :: "char \<Rightarrow> char \<Rightarrow> bool" where
  "bad_escape h1 h2 \<longleftrightarrow>
     (h1 = CHR ''0'' \<and> h2 = CHR ''0'') \<or>
     (h1 = CHR ''0'' \<and> (h2 = CHR ''d'' \<or> h2 = CHR ''D'' \<or> h2 = CHR ''a'' \<or> h2 = CHR ''A''))"

fun target_chars_ok :: "string \<Rightarrow> bool" where
  "target_chars_ok [] = True"
| "target_chars_ok (c # cs) =
     (if c = CHR ''#'' then False
      else if c = CHR ''%'' \<and> 2 \<le> length cs \<and> bad_escape (cs ! 0) (cs ! 1) then False
      else target_chars_ok cs)"

definition is_valid_request_target :: "string \<Rightarrow> bool" where
  "is_valid_request_target target = (if target = [] then False else target_chars_ok target)"

definition is_digit :: "char \<Rightarrow> bool" where
  "is_digit c \<longleftrightarrow> CHR ''0'' \<le> c \<and> c \<le> CHR ''9''"

definition digit_val :: "char \<Rightarrow> nat" where
  "digit_val c = u8 c - u8 (CHR ''0'')"

fun content_length_loop :: "nat \<Rightarrow> string \<Rightarrow> nat option" where
  "content_length_loop len [] = Some len"
| "content_length_loop len (c # cs) =
     (if \<not> is_digit c then None
      else
        let next = size_wrap (len * 10 + digit_val c)
        in if next < len then None else content_length_loop next cs)"

definition parse_valid_content_length :: "string \<Rightarrow> nat option" where
  "parse_valid_content_length value =
     (if value = [] \<or> 19 < length value then None else content_length_loop 0 value)"

text \<open>
  \<^verbatim>\<open>parse_path_header\<close>: \<open>None\<close> when it returns false (its out parameters are then untouched),
  otherwise the path, the query and the updated error status.
\<close>

definition parse_path_header ::
    "simd_tier \<Rightarrow> string \<Rightarrow> http_method \<Rightarrow> status_code \<Rightarrow> nat \<Rightarrow> (string \<times> string \<times> status_code) option"
  where
  "parse_path_header t target meth error_status max_uri =
     (if \<not> is_valid_request_target target then None
      else if target = ''*'' \<and> meth \<noteq> OPTIONS \<and> meth \<noteq> UNKNOWN then None
      else
        let st = (if max_uri < length target \<and> error_status = Ok then UriTooLong else error_status)
        in case find_char t target CHR ''?'' 0 of
             Some qmark \<Rightarrow> Some (take qmark target, drop (qmark + 1) target, st)
           | None \<Rightarrow> Some (target, [], st))"

definition validate_request_header ::
    "simd_tier \<Rightarrow> string \<Rightarrow> string \<Rightarrow> status_code \<Rightarrow> nat \<Rightarrow> status_code option" where
  "validate_request_header t name value error_status max_body =
     (if iequals t name ''content-length'' then
        (case parse_valid_content_length value of
           None \<Rightarrow> None
         | Some cl \<Rightarrow>
             Some (if max_body < cl \<and> error_status = Ok then PayloadTooLarge else error_status))
      else if iequals t name ''expect'' then
        Some (if \<not> iequals t value ''100-continue'' \<and> error_status = Ok then ExpectationFailed
              else error_status)
      else Some error_status)"

subsection \<open>The cached Date header\<close>

text \<open>
  \<^verbatim>\<open>get_http_date_header\<close> keeps a thread-local cache. The clock reading \<open>now\<close> and the text
  \<open>fmt now\<close> that \<^verbatim>\<open>strftime\<close> writes (terminator included) are arguments.
\<close>

record date_cache =
  last_time :: int
  date_hdr :: string
  req_counter :: "32 word"

definition initial_date_cache :: date_cache where
  "initial_date_cache = \<lparr>last_time = 0, date_hdr = [], req_counter = 0\<rparr>"

unbundle bit_operations_syntax

definition get_http_date_header ::
    "(int \<Rightarrow> string) \<Rightarrow> int \<Rightarrow> date_cache \<Rightarrow> string \<times> date_cache" where
  "get_http_date_header fmt now st =
     (let st = st\<lparr>req_counter := req_counter st + 1\<rparr>;
          st = (if (req_counter st AND 127 = 1 \<or> date_hdr st = []) \<and>
                   (now \<noteq> last_time st \<or> date_hdr st = [])
                then st\<lparr>last_time := now, date_hdr := ''Date: '' @ fmt now\<rparr>
                else st)
      in (date_hdr st, st))"


subsection \<open>Properties\<close>

lemma method_roundtrip: "string_to_method (method_to_string m) = m"
  by (cases m) (simp_all add: string_to_method_def method_to_string_def)

lemma string_to_method_known:
  "string_to_method s \<noteq> UNKNOWN \<Longrightarrow> method_to_string (string_to_method s) = s"
  unfolding string_to_method_def by (simp add: method_to_string_def split: if_splits)

lemma method_to_string_inject: "method_to_string m = method_to_string n \<longleftrightarrow> m = n"
  by (metis method_roundtrip)

lemma listed_status_distinct: "distinct (map status_value listed_status)"
  by (simp add: listed_status_def)

lemma listed_status_complete: "s \<in> set listed_status \<longleftrightarrow> (\<forall>n. s \<noteq> Unlisted n)"
  by (cases s) (simp_all add: listed_status_def)

lemma status_of_value_listed:
  assumes "s \<in> set listed_status"
  shows "status_of_value (status_value s) = s"
proof -
  have inj: "inj_on status_value (set listed_status)"
    using listed_status_distinct by (simp add: distinct_map)
  show ?thesis
  proof (cases "List.find (\<lambda>u. status_value u = status_value s) listed_status")
    case None
    with assms show ?thesis by (auto simp: find_None_iff)
  next
    case (Some u)
    then have "u \<in> set listed_status" "status_value u = status_value s"
      by (auto simp: find_Some_iff)
    with inj assms have "u = s" by (auto dest: inj_onD)
    with Some show ?thesis by (simp add: status_of_value_def)
  qed
qed

lemma status_value_of_value [simp]: "status_value (status_of_value n) = n"
  by (auto simp: status_of_value_def find_Some_iff split: option.splits)

text \<open>The escape scan finds every forbidden escape and every fragment mark.\<close>

lemma target_chars_ok_iff:
  "target_chars_ok s \<longleftrightarrow> CHR ''#'' \<notin> set s \<and>
    (\<forall>u h1 h2 v. s = u @ CHR ''%'' # h1 # h2 # v \<longrightarrow> \<not> bad_escape h1 h2)"
proof (induction s)
  case (Cons c cs)
  have "(\<forall>u h1 h2 v. c # cs = u @ CHR ''%'' # h1 # h2 # v \<longrightarrow> \<not> bad_escape h1 h2) \<longleftrightarrow>
    \<not> (c = CHR ''%'' \<and> 2 \<le> length cs \<and> bad_escape (cs ! 0) (cs ! 1)) \<and>
    (\<forall>u h1 h2 v. cs = u @ CHR ''%'' # h1 # h2 # v \<longrightarrow> \<not> bad_escape h1 h2)" (is "?L \<longleftrightarrow> ?R")
  proof
    assume L: ?L
    have "\<not> bad_escape (cs ! 0) (cs ! 1)" if "c = CHR ''%''" "2 \<le> length cs"
    proof -
      from that obtain h1 h2 v where "cs = h1 # h2 # v"
        by (cases cs; cases "tl cs") auto
      with L that show ?thesis by (auto dest: spec [of _ "[]"])
    qed
    moreover have "\<not> bad_escape h1 h2" if "cs = u @ CHR ''%'' # h1 # h2 # v" for u h1 h2 v
      using L that by (metis append_Cons)
    ultimately show ?R by blast
  qed (auto simp: Cons_eq_append_conv)
  with Cons.IH show ?case by auto
qed simp

lemma target_chars_ok_append:
  "target_chars_ok (u @ v) \<Longrightarrow> target_chars_ok u \<and> target_chars_ok v"
  unfolding target_chars_ok_iff by (metis UnI1 UnI2 append.assoc append_Cons set_append)

text \<open>Decimal values.\<close>

definition dec_val :: "string \<Rightarrow> nat" where
  "dec_val s = foldl (\<lambda>n c. n * 10 + digit_val c) 0 s"

lemma digit_val_less: "is_digit c \<Longrightarrow> digit_val c < 10"
  by (auto simp: is_digit_def digit_val_def less_eq_char_def u8_def)

lemma foldl_dec:
  "foldl (\<lambda>n c. n * 10 + digit_val c) a s = a * 10 ^ length s + dec_val s"
  unfolding dec_val_def
proof (induction s arbitrary: a rule: rev_induct)
  case (snoc c s)
  show ?case by (simp add: snoc [of a] add_mult_distrib mult.assoc power_Suc2 del: power_Suc)
qed simp

lemma dec_val_bound: "list_all is_digit s \<Longrightarrow> dec_val s < 10 ^ length s"
proof (induction s rule: rev_induct)
  case (snoc c s)
  then have "dec_val s < 10 ^ length s" "digit_val c < 10" by (auto simp: digit_val_less)
  then show ?case by (simp add: dec_val_def)
qed (simp add: dec_val_def)

lemma content_length_loop_eq:
  assumes "len < 10 ^ k" "k + length s \<le> 19"
  shows "content_length_loop len s =
    (if list_all is_digit s then Some (foldl (\<lambda>n c. n * 10 + digit_val c) len s) else None)"
  using assms
proof (induction s arbitrary: len k)
  case (Cons c s)
  show ?case
  proof (cases "is_digit c")
    case True
    have "(10::nat) ^ Suc k \<le> 10 ^ 19" using Cons.prems by (intro power_increasing) auto
    moreover have lt: "len * 10 + digit_val c < 10 ^ Suc k"
      using Cons.prems(1) digit_val_less [OF True] by simp
    ultimately have w: "size_wrap (len * 10 + digit_val c) = len * 10 + digit_val c" by simp
    have "content_length_loop (len * 10 + digit_val c) s =
      (if list_all is_digit s then Some (foldl (\<lambda>n c. n * 10 + digit_val c) (len * 10 + digit_val c) s)
       else None)"
      by (rule Cons.IH [OF lt]) (use Cons.prems in simp)
    with True w show ?thesis by (simp add: Let_def)
  qed simp
qed simp

lemma parse_valid_content_length_iff:
  "parse_valid_content_length v = Some n \<longleftrightarrow>
    v \<noteq> [] \<and> length v \<le> 19 \<and> list_all is_digit v \<and> n = dec_val v"
  using content_length_loop_eq [of 0 0 v]
  by (auto simp: parse_valid_content_length_def dec_val_def)

lemma parse_valid_content_length_bound:
  "parse_valid_content_length v = Some n \<Longrightarrow> n < 10 ^ 19"
  using dec_val_bound [of v] power_increasing [of "length v" 19 "10 :: nat"]
  by (auto simp: parse_valid_content_length_iff)

lemma parse_path_header_Some:
  assumes "parse_path_header t target meth st mx = Some (p, q, st')"
  shows "target = p \<and> q = [] \<or> target = p @ CHR ''?'' # q"
    and "CHR ''?'' \<notin> set p" "CHR ''#'' \<notin> set target" "target \<noteq> []"
    and "st' = (if mx < length target \<and> st = Ok then UriTooLong else st)"
proof -
  have valid: "is_valid_request_target target"
    using assms by (auto simp: parse_path_header_def split: if_splits)
  then show "CHR ''#'' \<notin> set target" "target \<noteq> []"
    by (auto simp: is_valid_request_target_def target_chars_ok_iff split: if_splits)
  have pq: "(p, q) = (case sv_find CHR ''?'' target 0 of
      Some k \<Rightarrow> (take k target, drop (k + 1) target) | None \<Rightarrow> (target, []))"
    and st: "st' = (if mx < length target \<and> st = Ok then UriTooLong else st)"
    using assms unfolding parse_path_header_def Let_def scan_simps
    by (auto simp del: Suc_eq_plus1 split: if_splits option.splits)
  show "st' = (if mx < length target \<and> st = Ok then UriTooLong else st)" by (rule st)
  show "target = p \<and> q = [] \<or> target = p @ CHR ''?'' # q"
  proof (cases "sv_find CHR ''?'' target 0")
    case (Some k)
    then have "k < length target" "target ! k = CHR ''?''" by (auto simp: sv_find_Some_iff)
    with id_take_nth_drop [of k target] have "target = take k target @ CHR ''?'' # drop (k + 1) target"
      by simp
    with pq Some show ?thesis by simp
  qed (use pq in simp)
  show "CHR ''?'' \<notin> set p"
    using pq by (auto simp: sv_find_Some_iff sv_find_None_iff in_set_conv_nth split: option.splits)
qed

text \<open>
  The clock is read once in 128 calls: the header served in between is the one formatted then,
  however late the calls come.
\<close>

fun date_headers ::
    "(int \<Rightarrow> string) \<Rightarrow> int list \<Rightarrow> date_cache \<Rightarrow> string list" where
  "date_headers fmt [] st = []"
| "date_headers fmt (now # later) st =
     (let (h, st') = get_http_date_header fmt now st in h # date_headers fmt later st')"

lemma date_header_stale_run:
  assumes "1 \<le> k" "k + length nows \<le> 128" "req_counter st = of_nat k" "date_hdr st \<noteq> []"
  shows "date_headers fmt nows st = replicate (length nows) (date_hdr st)"
  using assms
proof (induction nows arbitrary: k st)
  case (Cons now nows)
  have "(127 :: 32 word) = mask 7" by (simp add: mask_eq_exp_minus_1)
  then have "of_nat (Suc k) AND (127 :: 32 word) = of_nat (take_bit 7 (Suc k))"
    by (simp only: of_nat_take_bit) (simp add: take_bit_eq_mask)
  also have "take_bit 7 (Suc k) = Suc k mod 128" by (simp add: take_bit_eq_mod)
  finally have m: "of_nat (Suc k) AND (127 :: 32 word) = of_nat (Suc k mod 128)" .
  have "Suc k mod 128 \<noteq> 1"
    using Cons.prems(1,2) by (cases "Suc k = 128") auto
  moreover have "unat (of_nat (Suc k mod 128) :: 32 word) = Suc k mod 128"
    by (simp add: unat_of_nat)
  ultimately have n1: "of_nat (Suc k) AND (127 :: 32 word) \<noteq> 1"
    unfolding m by (metis unat_1)
  have "req_counter st + 1 = of_nat (Suc k)" using Cons.prems(3) by simp
  then have step: "get_http_date_header fmt now st = (date_hdr st, st\<lparr>req_counter := of_nat (Suc k)\<rparr>)"
    using n1 Cons.prems(4) by (simp add: get_http_date_header_def Let_def add.commute)
  have "date_headers fmt nows (st\<lparr>req_counter := of_nat (Suc k)\<rparr>) =
      replicate (length nows) (date_hdr (st\<lparr>req_counter := of_nat (Suc k)\<rparr>))"
    by (rule Cons.IH [of "Suc k"]) (use Cons.prems in auto)
  with step show ?case by simp
qed simp

subsection \<open>Properties of the protocol helpers\<close>

text \<open>
  Content-Length is read exactly and never overflows: the value is accepted when it is one to
  nineteen decimal digits, the result is their value, and it fits 64 bits.
\<close>

theorem content_length_exact:
  "parse_valid_content_length v = Some n \<longleftrightarrow>
     v \<noteq> [] \<and> length v \<le> 19 \<and> list_all is_digit v \<and> n = dec_val v \<and> n < 2 ^ 64"
proof -
  have "(10 :: nat) ^ 19 < 2 ^ 64" by simp
  then show ?thesis
    using parse_valid_content_length_bound [of v n] parse_valid_content_length_iff [of v n]
    by (meson order.strict_trans)
qed

text \<open>
  \<^verbatim>\<open>parse_path_header\<close> splits the target at its first question mark and loses nothing; the
  accepted target has no fragment, and the error status changes only to 414, only for a target
  longer than the limit.
\<close>

theorem path_header_split:
  assumes "parse_path_header t target meth st mx = Some (p, q, st')"
  shows "(target = p \<and> q = [] \<or> target = p @ CHR ''?'' # q) \<and> CHR ''?'' \<notin> set p \<and>
    CHR ''#'' \<notin> set target \<and>
    st' = (if mx < length target \<and> st = Ok then UriTooLong else st)"
  using parse_path_header_Some [OF assms] by blast

theorem path_header_split_witness:
  "''/a?b'' = ''/a'' @ CHR ''?'' # ''b'' \<and> CHR ''?'' \<notin> set ''/a''"
proof -
  have "parse_path_header AVX512 ''/a?b'' GET Ok 8192 = Some (''/a'', ''b'', Ok)"
    by (simp add: parse_path_header_def is_valid_request_target_def scan_simps eval_simps bad_escape_def)
  from path_header_split [OF this] show ?thesis by simp
qed

text \<open>
  The Date header can be stale. Once the header has been formatted at a call with counter 1,
  the following 127 calls return the same text whatever the clock reads then: the clock is
  consulted once in 128 calls, not once per second.
\<close>

theorem date_header_stale:
  assumes "get_http_date_header fmt now initial_date_cache = (h, st)" and "length nows = 127"
  shows "date_headers fmt nows st = replicate 127 (''Date: '' @ fmt now)"
proof -
  have "st = \<lparr>last_time = now, date_hdr = ''Date: '' @ fmt now, req_counter = 1\<rparr>"
    using assms(1) by (auto simp: get_http_date_header_def initial_date_cache_def)
  then show ?thesis using date_header_stale_run [of 1 nows st fmt] assms(2) by simp
qed

theorem date_header_stale_witness:
  "date_headers (\<lambda>i. if i < 1000 then ''early'' else ''late'') (replicate 127 5000)
     (snd (get_http_date_header (\<lambda>i. if i < 1000 then ''early'' else ''late'') 7 initial_date_cache)) =
   replicate 127 ''Date: early''"
  using date_header_stale [of "\<lambda>i. if i < 1000 then ''early'' else ''late''" 7 _ _ "replicate 127 5000",
      OF surjective_pairing] by simp

end
