(* ===== verification/Header_Map.thy ===== *)
theory Header_Map
  imports Simd_String
begin

text \<open>
  \<^verbatim>\<open>src/http/HeaderMap.h\<close>: the small-vector header map, with up to 32 inline entries, a heap
  overflow and a byte of presence flags that short-cuts lookups of four common headers. The
  invariant ties the flags to the entries; under it the map implements a case-insensitive
  dictionary (\<open>header_store\<close>).
\<close>

unbundle bit_operations_syntax

subsection \<open>State and operations\<close>

record header_entry =
  hname :: string
  hvalue :: string

record header_map =
  inline_headers :: "header_entry list"
  heap_headers :: "header_entry list"
  flags :: byte

definition INLINE_CAPACITY :: nat where
  "INLINE_CAPACITY = 32"

definition FLAG_CONTENT_LENGTH :: byte where "FLAG_CONTENT_LENGTH = 1"
definition FLAG_CONTENT_TYPE :: byte where "FLAG_CONTENT_TYPE = 2"
definition FLAG_DATE :: byte where "FLAG_DATE = 4"
definition FLAG_TRANSFER_ENCODING :: byte where "FLAG_TRANSFER_ENCODING = 8"

lemmas flag_defs =
  FLAG_CONTENT_LENGTH_def FLAG_CONTENT_TYPE_def FLAG_DATE_def FLAG_TRANSFER_ENCODING_def

definition empty_map :: header_map where
  "empty_map = \<lparr>inline_headers = [], heap_headers = [], flags = 0\<rparr>"

definition name_flag :: "simd_tier \<Rightarrow> string \<Rightarrow> byte" where
  "name_flag t name =
     (if length name = 14 \<and> iequals t name ''Content-Length'' then FLAG_CONTENT_LENGTH
      else if length name = 12 \<and> iequals t name ''Content-Type'' then FLAG_CONTENT_TYPE
      else if length name = 4 \<and> iequals t name ''Date'' then FLAG_DATE
      else if length name = 17 \<and> iequals t name ''Transfer-Encoding'' then FLAG_TRANSFER_ENCODING
      else 0)"

definition update_flags :: "simd_tier \<Rightarrow> string \<Rightarrow> header_map \<Rightarrow> header_map" where
  "update_flags t name m = m\<lparr>flags := flags m OR name_flag t name\<rparr>"

definition push_entry :: "string \<Rightarrow> string \<Rightarrow> header_map \<Rightarrow> header_map" where
  "push_entry name value m =
     (let h = \<lparr>hname = name, hvalue = value\<rparr>
      in if length (inline_headers m) < INLINE_CAPACITY
         then m\<lparr>inline_headers := inline_headers m @ [h]\<rparr>
         else m\<lparr>heap_headers := heap_headers m @ [h]\<rparr>)"

definition add :: "simd_tier \<Rightarrow> string \<Rightarrow> string \<Rightarrow> header_map \<Rightarrow> header_map" where
  "add t name value m = push_entry name value (update_flags t name m)"

fun assign_first ::
    "simd_tier \<Rightarrow> string \<Rightarrow> string \<Rightarrow> header_entry list \<Rightarrow> header_entry list option" where
  "assign_first t name value [] = None"
| "assign_first t name value (h # hs) =
     (if iequals t (hname h) name then Some (h\<lparr>hvalue := value\<rparr> # hs)
      else map_option ((#) h) (assign_first t name value hs))"

definition set_header :: "simd_tier \<Rightarrow> string \<Rightarrow> string \<Rightarrow> header_map \<Rightarrow> header_map" where
  "set_header t name value m =
     (let m = update_flags t name m
      in case assign_first t name value (inline_headers m) of
           Some hs \<Rightarrow> m\<lparr>inline_headers := hs\<rparr>
         | None \<Rightarrow>
             (case assign_first t name value (heap_headers m) of
                Some hs \<Rightarrow> m\<lparr>heap_headers := hs\<rparr>
              | None \<Rightarrow> push_entry name value m))"

definition has_content_length :: "header_map \<Rightarrow> bool" where
  "has_content_length m \<longleftrightarrow> flags m AND FLAG_CONTENT_LENGTH \<noteq> 0"

definition has_content_type :: "header_map \<Rightarrow> bool" where
  "has_content_type m \<longleftrightarrow> flags m AND FLAG_CONTENT_TYPE \<noteq> 0"

definition has_date :: "header_map \<Rightarrow> bool" where
  "has_date m \<longleftrightarrow> flags m AND FLAG_DATE \<noteq> 0"

definition has_transfer_encoding :: "header_map \<Rightarrow> bool" where
  "has_transfer_encoding m \<longleftrightarrow> flags m AND FLAG_TRANSFER_ENCODING \<noteq> 0"

definition find_value :: "simd_tier \<Rightarrow> string \<Rightarrow> header_entry list \<Rightarrow> string option" where
  "find_value t name hs = map_option hvalue (List.find (\<lambda>h. iequals t (hname h) name) hs)"

definition get_header :: "simd_tier \<Rightarrow> header_map \<Rightarrow> string \<Rightarrow> string option" where
  "get_header t m name =
     (if length name = 14 \<and> iequals t name ''Content-Length'' \<and> \<not> has_content_length m then None
      else if length name = 4 \<and> iequals t name ''Date'' \<and> \<not> has_date m then None
      else if length name = 17 \<and> iequals t name ''Transfer-Encoding'' \<and> \<not> has_transfer_encoding m
      then None
      else if length name = 12 \<and> iequals t name ''Content-Type'' \<and> \<not> has_content_type m then None
      else case find_value t name (inline_headers m) of
             Some v \<Rightarrow> Some v
           | None \<Rightarrow> find_value t name (heap_headers m))"

definition contains :: "simd_tier \<Rightarrow> header_map \<Rightarrow> string \<Rightarrow> bool" where
  "contains t m name =
     (if length name = 14 \<and> iequals t name ''Content-Length'' then has_content_length m
      else if length name = 4 \<and> iequals t name ''Date'' then has_date m
      else if length name = 17 \<and> iequals t name ''Transfer-Encoding'' then has_transfer_encoding m
      else if length name = 12 \<and> iequals t name ''Content-Type'' then has_content_type m
      else get_header t m name \<noteq> None)"

definition header_count :: "header_map \<Rightarrow> nat" where
  "header_count m = length (inline_headers m) + length (heap_headers m)"

text \<open>The erase loops: what is left, and whether an entry went.\<close>

fun erase_matching ::
    "simd_tier \<Rightarrow> string \<Rightarrow> header_entry list \<Rightarrow> header_entry list \<times> bool" where
  "erase_matching t name [] = ([], False)"
| "erase_matching t name (h # hs) =
     (let (rest, removed) = erase_matching t name hs
      in if iequals t (hname h) name then (rest, True) else (h # rest, removed))"

definition recompute_flags :: "simd_tier \<Rightarrow> header_map \<Rightarrow> header_map" where
  "recompute_flags t m =
     fold (\<lambda>h. update_flags t (hname h)) (inline_headers m @ heap_headers m) (m\<lparr>flags := 0\<rparr>)"

definition remove_header :: "simd_tier \<Rightarrow> string \<Rightarrow> header_map \<Rightarrow> bool \<times> header_map" where
  "remove_header t name m =
     (let (ins, r1) = erase_matching t name (inline_headers m);
          (hps, r2) = erase_matching t name (heap_headers m);
          m = m\<lparr>inline_headers := ins, heap_headers := hps\<rparr>;
          removed = (r1 \<or> r2)
      in (removed, if removed then recompute_flags t m else m))"

definition clear :: "header_map \<Rightarrow> header_map" where
  "clear m = m\<lparr>inline_headers := [], heap_headers := [], flags := 0\<rparr>"

text \<open>Iteration: dereferencing the iterator at an index below \<^verbatim>\<open>size()\<close>.\<close>

definition entry_at :: "header_map \<Rightarrow> nat \<Rightarrow> header_entry" where
  "entry_at m index =
     (if index < length (inline_headers m) then inline_headers m ! index
      else heap_headers m ! (index - length (inline_headers m)))"

subsection \<open>Names and flags\<close>

text \<open>Two header names are the same when they differ in ASCII case only.\<close>

definition same_name :: "string \<Rightarrow> string \<Rightarrow> bool" where
  "same_name a b \<longleftrightarrow> map ascii_lower a = map ascii_lower b"

lemma iequals_same_name: "iequals t a b \<longleftrightarrow> same_name a b"
  by (simp add: scan_simps same_name_def)

lemma same_name_refl [simp]: "same_name a a"
  by (simp add: same_name_def)

lemma same_name_sym: "same_name a b \<longleftrightarrow> same_name b a"
  by (auto simp: same_name_def)

lemma same_name_trans: "same_name a b \<Longrightarrow> same_name b c \<Longrightarrow> same_name a c"
  by (simp add: same_name_def)

lemma same_name_cong: "same_name a b \<Longrightarrow> same_name c a \<longleftrightarrow> same_name c b"
  by (simp add: same_name_def)

lemma same_name_length: "same_name a b \<Longrightarrow> length a = length b"
  by (auto simp: same_name_def dest: map_eq_imp_length_eq)

definition entries :: "header_map \<Rightarrow> header_entry list" where
  "entries m = inline_headers m @ heap_headers m"

definition has_entry :: "string \<Rightarrow> header_entry list \<Rightarrow> bool" where
  "has_entry name hs \<longleftrightarrow> list_ex (\<lambda>h. same_name (hname h) name) hs"

definition flag_names :: "(byte \<times> string) list" where
  "flag_names = [(FLAG_CONTENT_LENGTH, ''Content-Length''), (FLAG_CONTENT_TYPE, ''Content-Type''),
     (FLAG_DATE, ''Date''), (FLAG_TRANSFER_ENCODING, ''Transfer-Encoding'')]"

definition hm_inv :: "header_map \<Rightarrow> bool" where
  "hm_inv m \<longleftrightarrow> length (inline_headers m) \<le> INLINE_CAPACITY \<and>
     list_all (\<lambda>(f, n). (flags m AND f \<noteq> 0) = has_entry n (entries m)) flag_names"

lemma name_flag_bits:
  "(f, n) \<in> set flag_names \<Longrightarrow> name_flag t name AND f \<noteq> 0 \<longleftrightarrow> same_name name n"
  unfolding name_flag_def iequals_same_name flag_names_def
  by (auto simp: flag_defs dest: same_name_length)


lemma flag_and_or:
  assumes "(f, n) \<in> set flag_names"
  shows "(w OR name_flag t name) AND f \<noteq> 0 \<longleftrightarrow> w AND f \<noteq> 0 \<or> same_name name n"
proof -
  from assms obtain j where f: "j < 8" "f = push_bit j 1"
  proof -
    have "f = push_bit 0 1 \<or> f = push_bit 1 1 \<or> f = push_bit 2 1 \<or> f = push_bit 3 1"
      using assms by (auto simp: flag_names_def flag_defs)
    then show ?thesis using that [of 0] that [of 1] that [of 2] that [of 3] by auto
  qed
  have "v AND f \<noteq> 0 \<longleftrightarrow> bit v j" for v :: byte
    using f by (simp only: bit_iff_and_push_bit_not_eq_0)
  then show ?thesis using name_flag_bits [OF assms, of t name] by (simp add: bit_or_iff)
qed

lemma has_entry_append [simp]: "has_entry n (xs @ ys) \<longleftrightarrow> has_entry n xs \<or> has_entry n ys"
  by (simp add: has_entry_def)

lemma has_entry_simps [simp]:
  "\<not> has_entry n []" "has_entry n (h # hs) \<longleftrightarrow> same_name (hname h) n \<or> has_entry n hs"
  by (simp_all add: has_entry_def)

lemma hm_invI:
  assumes "length (inline_headers m) \<le> INLINE_CAPACITY"
    and "\<And>f n. (f, n) \<in> set flag_names \<Longrightarrow> (flags m AND f \<noteq> 0) = has_entry n (entries m)"
  shows "hm_inv m"
  using assms by (auto simp: hm_inv_def list_all_iff)

lemma hm_invD:
  assumes "hm_inv m"
  shows "length (inline_headers m) \<le> INLINE_CAPACITY"
    and "(f, n) \<in> set flag_names \<Longrightarrow> (flags m AND f \<noteq> 0) = has_entry n (entries m)"
  using assms by (auto simp: hm_inv_def list_all_iff)

subsection \<open>Lookups are searches of the entry list\<close>

lemma find_value_None_iff: "find_value t name hs = None \<longleftrightarrow> \<not> has_entry name hs"
  by (auto simp: find_value_def find_None_iff has_entry_def list_ex_iff iequals_same_name)

lemma find_value_append:
  "find_value t name (xs @ ys) =
    (case find_value t name xs of Some v \<Rightarrow> Some v | None \<Rightarrow> find_value t name ys)"
  by (induction xs) (simp_all add: find_value_def)

lemma find_value_simps [simp]:
  "find_value t name [] = None"
  "find_value t name (h # hs) =
    (if same_name (hname h) name then Some (hvalue h) else find_value t name hs)"
  by (simp_all add: find_value_def iequals_same_name)

lemma find_value_cong: "same_name a b \<Longrightarrow> find_value t a hs = find_value t b hs"
  by (induction hs) (simp_all add: same_name_cong)

lemma has_entry_cong: "same_name a b \<Longrightarrow> has_entry a hs = has_entry b hs"
  by (metis find_value_None_iff find_value_cong)

lemma has_flag_entry:
  assumes "hm_inv m"
  shows "has_content_length m \<longleftrightarrow> has_entry ''Content-Length'' (entries m)"
    and "has_content_type m \<longleftrightarrow> has_entry ''Content-Type'' (entries m)"
    and "has_date m \<longleftrightarrow> has_entry ''Date'' (entries m)"
    and "has_transfer_encoding m \<longleftrightarrow> has_entry ''Transfer-Encoding'' (entries m)"
  using hm_invD(2) [OF assms]
  by (simp_all add: has_content_length_def has_content_type_def has_date_def
      has_transfer_encoding_def flag_names_def)

lemma get_header_eq:
  assumes "hm_inv m"
  shows "get_header t m name = find_value t name (entries m)"
proof -
  have none: "find_value t name (entries m) = None"
    if "same_name name n" "\<not> has_entry n (entries m)" for n
    using that by (simp add: find_value_None_iff has_entry_cong)
  have "find_value t name (entries m) = (case find_value t name (inline_headers m) of
      Some v \<Rightarrow> Some v | None \<Rightarrow> find_value t name (heap_headers m))"
    by (simp add: entries_def find_value_append)
  then show ?thesis
    using none [of "''Content-Length''"] none [of "''Date''"] none [of "''Transfer-Encoding''"]
      none [of "''Content-Type''"]
    unfolding get_header_def iequals_same_name has_flag_entry [OF assms] by (simp split: if_split)
qed

lemma contains_eq:
  assumes "hm_inv m"
  shows "contains t m name \<longleftrightarrow> has_entry name (entries m)"
proof -
  note cong = has_entry_cong [of name _ "entries m"]
  have "get_header t m name \<noteq> None \<longleftrightarrow> has_entry name (entries m)"
    using find_value_None_iff [of t name "entries m"] by (simp add: get_header_eq [OF assms])
  then show ?thesis
    using cong [of "''Content-Length''"] cong [of "''Date''"] cong [of "''Transfer-Encoding''"]
      cong [of "''Content-Type''"]
    unfolding contains_def iequals_same_name has_flag_entry [OF assms] by argo
qed

subsection \<open>The invariant\<close>

lemma update_flags_fields [simp]:
  "inline_headers (update_flags t n m) = inline_headers m"
  "heap_headers (update_flags t n m) = heap_headers m"
  "entries (update_flags t n m) = entries m"
  by (simp_all add: update_flags_def entries_def)

lemma inv_empty: "hm_inv empty_map"
  by (rule hm_invI) (auto simp: empty_map_def entries_def)

lemma inv_clear: "hm_inv (clear m)"
  by (rule hm_invI) (auto simp: clear_def entries_def)

lemma push_entry_fields:
  "flags (push_entry n v m) = flags m"
  "length (inline_headers m) \<le> INLINE_CAPACITY \<Longrightarrow>
    length (inline_headers (push_entry n v m)) \<le> INLINE_CAPACITY"
  "has_entry k (entries (push_entry n v m)) \<longleftrightarrow> has_entry k (entries m) \<or> same_name n k"
  by (auto simp: push_entry_def Let_def entries_def)

lemma inv_push:
  assumes "hm_inv m"
  shows "hm_inv (push_entry n v (update_flags t n m))"
proof (rule hm_invI)
  fix f k assume f: "(f, k) \<in> set flag_names"
  show "(flags (push_entry n v (update_flags t n m)) AND f \<noteq> 0) =
      has_entry k (entries (push_entry n v (update_flags t n m)))"
    using hm_invD(2) [OF assms f] flag_and_or [OF f, of "flags m" t n]
    by (simp add: push_entry_fields update_flags_def) (simp add: entries_def)
qed (use hm_invD(1) [OF assms] in \<open>simp add: push_entry_fields\<close>)

lemma inv_add: "hm_inv m \<Longrightarrow> hm_inv (add t n v m)"
  by (simp add: add_def inv_push)

lemma assign_first_Some:
  assumes "assign_first t name value hs = Some hs'"
  shows "has_entry name hs" "length hs' = length hs" "has_entry k hs' = has_entry k hs"
    and "find_value t k hs' = (if same_name name k then Some value else find_value t k hs)"
  using assms
  by (induction hs arbitrary: hs')
    (auto simp: iequals_same_name split: if_splits, (metis same_name_sym same_name_trans)+)

lemma assign_first_None_iff: "assign_first t name value hs = None \<longleftrightarrow> \<not> has_entry name hs"
  by (induction hs) (auto simp: iequals_same_name)


lemma inv_set:
  assumes "hm_inv m"
  shows "hm_inv (set_header t n v m)"
proof (cases "assign_first t n v (inline_headers m)")
  case (Some hs)
  note a = assign_first_Some [OF Some]
  have present: "has_entry n (entries m)" using a(1) by (simp add: entries_def)
  show ?thesis
  proof (rule hm_invI)
    fix f k assume f: "(f, k) \<in> set flag_names"
    then show "(flags (set_header t n v m) AND f \<noteq> 0) = has_entry k (entries (set_header t n v m))"
      using hm_invD(2) [OF assms f] flag_and_or [OF f, of "flags m" t n] a(3) [of k] present
        has_entry_cong [of n k "entries m"]
      by (auto simp: set_header_def Some entries_def update_flags_def Let_def)
  qed (use hm_invD(1) [OF assms] a(2) in \<open>simp add: set_header_def Some Let_def\<close>)
next
  case None
  show ?thesis
  proof (cases "assign_first t n v (heap_headers m)")
    case h: (Some hs)
    note a = assign_first_Some [OF h]
    have present: "has_entry n (entries m)" using a(1) by (simp add: entries_def)
    show ?thesis
    proof (rule hm_invI)
      fix f k assume f: "(f, k) \<in> set flag_names"
      then show "(flags (set_header t n v m) AND f \<noteq> 0) = has_entry k (entries (set_header t n v m))"
        using hm_invD(2) [OF assms f] flag_and_or [OF f, of "flags m" t n] a(3) [of k] present
          has_entry_cong [of n k "entries m"]
        by (auto simp: set_header_def None h entries_def update_flags_def Let_def)
    qed (use hm_invD(1) [OF assms] in \<open>simp add: set_header_def None h Let_def\<close>)
  next
    case h: None
    with None inv_push [OF assms] show ?thesis by (simp add: set_header_def Let_def)
  qed
qed

lemma erase_matching_eq:
  "erase_matching t name hs = (filter (\<lambda>h. \<not> same_name (hname h) name) hs, has_entry name hs)"
  by (induction hs) (auto simp: iequals_same_name split: prod.splits)

lemma fold_update_flags:
  assumes "(f, n) \<in> set flag_names"
  shows "flags (fold (\<lambda>h. update_flags t (hname h)) hs m) AND f \<noteq> 0 \<longleftrightarrow>
    flags m AND f \<noteq> 0 \<or> has_entry n hs"
proof (induction hs arbitrary: m)
  case (Cons h hs)
  have "flags (update_flags t (hname h) m) AND f \<noteq> 0 \<longleftrightarrow> flags m AND f \<noteq> 0 \<or> same_name (hname h) n"
    using flag_and_or [OF assms, of "flags m" t "hname h"] by (simp add: update_flags_def)
  with Cons [of "update_flags t (hname h) m"] show ?case by (simp only: fold_simps has_entry_simps o_apply) blast
qed simp

lemma fold_update_fields [simp]:
  "inline_headers (fold (\<lambda>h. update_flags t (hname h)) hs m) = inline_headers m"
  "heap_headers (fold (\<lambda>h. update_flags t (hname h)) hs m) = heap_headers m"
  by (induction hs arbitrary: m) simp_all

lemma has_entry_filter_id: "\<not> has_entry n hs \<Longrightarrow> filter (\<lambda>h. \<not> same_name (hname h) n) hs = hs"
  by (induction hs) auto

lemma entries_remove:
  "entries (snd (remove_header t n m)) = filter (\<lambda>h. \<not> same_name (hname h) n) (entries m)"
  by (auto simp: remove_header_def erase_matching_eq Let_def entries_def recompute_flags_def)

lemma inv_remove:
  assumes "hm_inv m"
  shows "hm_inv (snd (remove_header t n m))"
proof (rule hm_invI)
  have len: "length (filter P xs) \<le> k" if "length xs \<le> k" for P and xs :: "header_entry list" and k
    using that length_filter_le [of P xs] by linarith
  show "length (inline_headers (snd (remove_header t n m))) \<le> INLINE_CAPACITY"
    using hm_invD(1) [OF assms]
    by (auto simp: remove_header_def erase_matching_eq Let_def recompute_flags_def intro: len)
  fix f k assume f: "(f, k) \<in> set flag_names"
  show "(flags (snd (remove_header t n m)) AND f \<noteq> 0) = has_entry k (entries (snd (remove_header t n m)))"
    unfolding entries_remove using hm_invD(2) [OF assms f] fold_update_flags [OF f]
    by (auto simp: remove_header_def erase_matching_eq Let_def recompute_flags_def entries_def
        has_entry_filter_id)
qed


subsection \<open>The dictionary contract\<close>

text \<open>
  What clients of a header collection rely on. Names are compared up to ASCII case.
\<close>

locale header_store =
  fixes inv :: "'m \<Rightarrow> bool"
    and lookup :: "'m \<Rightarrow> string \<Rightarrow> string option"
    and put :: "string \<Rightarrow> string \<Rightarrow> 'm \<Rightarrow> 'm"
    and append_hdr :: "string \<Rightarrow> string \<Rightarrow> 'm \<Rightarrow> 'm"
    and del :: "string \<Rightarrow> 'm \<Rightarrow> 'm"
    and start :: 'm
  assumes start_inv: "inv start"
    and put_inv: "inv m \<Longrightarrow> inv (put n v m)"
    and append_inv: "inv m \<Longrightarrow> inv (append_hdr n v m)"
    and del_inv: "inv m \<Longrightarrow> inv (del n m)"
    and lookup_start: "lookup start k = None"
    and lookup_put: "inv m \<Longrightarrow> lookup (put n v m) k = (if same_name n k then Some v else lookup m k)"
    and lookup_append_other:
      "inv m \<Longrightarrow> \<not> same_name n k \<Longrightarrow> lookup (append_hdr n v m) k = lookup m k"
    and lookup_append_new:
      "inv m \<Longrightarrow> same_name n k \<Longrightarrow> lookup m k = None \<Longrightarrow> lookup (append_hdr n v m) k = Some v"
    and lookup_append_present: "inv m \<Longrightarrow> lookup m k \<noteq> None \<Longrightarrow> lookup (append_hdr n v m) k \<noteq> None"
    and lookup_del: "inv m \<Longrightarrow> lookup (del n m) k = (if same_name n k then None else lookup m k)"
begin

lemma put_overwrites:
  "inv m \<Longrightarrow> same_name n n' \<Longrightarrow> lookup (put n v (put n' w m)) k = lookup (put n v m) k"
  by (auto simp: lookup_put put_inv same_name_def)

lemma put_commute:
  "inv m \<Longrightarrow> \<not> same_name n n' \<Longrightarrow> lookup (put n v (put n' w m)) k = lookup (put n' w (put n v m)) k"
  by (auto simp: lookup_put put_inv same_name_def)

lemma del_put: "inv m \<Longrightarrow> lookup (del n (put n v m)) k = lookup (del n m) k"
  by (simp add: lookup_put lookup_del put_inv)

lemma put_del: "inv m \<Longrightarrow> lookup (put n v (del n m)) k = lookup (put n v m) k"
  by (simp add: lookup_put lookup_del del_inv)

lemma inv_puts: "inv m \<Longrightarrow> inv (fold (\<lambda>(n, v). put n v) kvs m)"
  by (induction kvs arbitrary: m) (auto simp: put_inv)

lemma lookup_puts:
  "inv m \<Longrightarrow> lookup (fold (\<lambda>(n, v). put n v) kvs m) k =
    (case List.find (\<lambda>(n, v). same_name n k) (rev kvs) of Some (n, v) \<Rightarrow> Some v | None \<Rightarrow> lookup m k)"
proof (induction kvs rule: rev_induct)
  case (snoc kv kvs)
  then show ?case
    by (cases kv) (auto simp: lookup_put inv_puts)
qed simp

end

lemma find_value_set:
  "find_value t k (entries (set_header t n v m)) =
    (if same_name n k then Some v else find_value t k (entries m))"
proof (cases "assign_first t n v (inline_headers m)")
  case (Some hs)
  then show ?thesis
    using assign_first_Some(4) [OF Some, of k]
    by (simp add: set_header_def Let_def entries_def find_value_append)
next
  case None
  then have no: "\<not> has_entry n (inline_headers m)" by (simp add: assign_first_None_iff)
  then have n1: "same_name n k \<Longrightarrow> find_value t k (inline_headers m) = None"
    by (simp add: find_value_None_iff has_entry_cong)
  show ?thesis
  proof (cases "assign_first t n v (heap_headers m)")
    case h: (Some hs)
    show ?thesis
      using assign_first_Some(4) [OF h, of k] n1
      by (simp add: set_header_def None h Let_def entries_def find_value_append split: option.split)
  next
    case h: None
    then have "same_name n k \<Longrightarrow> find_value t k (heap_headers m) = None"
      by (simp add: assign_first_None_iff find_value_None_iff has_entry_cong)
    with n1 h None show ?thesis
      by (auto simp: set_header_def Let_def push_entry_def entries_def find_value_append
          split: option.splits)
  qed
qed

lemma find_value_push:
  "\<not> same_name n k \<Longrightarrow> find_value t k (entries (push_entry n v m)) = find_value t k (entries m)"
  "same_name n k \<Longrightarrow> find_value t k (entries m) = None \<Longrightarrow>
    find_value t k (entries (push_entry n v m)) = Some v"
  by (auto simp: push_entry_def Let_def entries_def find_value_append split: option.splits)

lemma find_value_remove:
  "find_value t k (entries (snd (remove_header t n m))) =
    (if same_name n k then None else find_value t k (entries m))"
proof -
  have "find_value t k (filter (\<lambda>h. \<not> same_name (hname h) n) hs) =
      (if same_name n k then None else find_value t k hs)" for hs
  proof (induction hs)
    case (Cons h hs)
    then show ?case by (auto simp: same_name_def)
  qed simp
  then show ?thesis by (simp add: entries_remove)
qed

interpretation hm: header_store hm_inv "get_header t" "set_header t" "add t"
    "\<lambda>n m. snd (remove_header t n m)" empty_map for t
proof unfold_locales
  fix m n v k
  show "get_header t empty_map k = None"
    by (simp add: get_header_eq [OF inv_empty]) (simp add: empty_map_def entries_def)
  assume m: "hm_inv m"
  show "get_header t (set_header t n v m) k = (if same_name n k then Some v else get_header t m k)"
    by (simp add: get_header_eq m inv_set find_value_set)
  show "get_header t (snd (remove_header t n m)) k =
      (if same_name n k then None else get_header t m k)"
    by (simp add: get_header_eq m inv_remove find_value_remove)
  show "get_header t m k \<noteq> None \<Longrightarrow> get_header t (add t n v m) k \<noteq> None"
    using get_header_eq [OF m] get_header_eq [OF inv_add [OF m]]
    by (simp add: find_value_None_iff add_def push_entry_fields del: not_None_eq)
  show "\<not> same_name n k \<Longrightarrow> get_header t (add t n v m) k = get_header t m k"
    by (simp add: get_header_eq m inv_add) (simp add: add_def find_value_push)
  show "same_name n k \<Longrightarrow> get_header t m k = None \<Longrightarrow> get_header t (add t n v m) k = Some v"
    by (simp add: get_header_eq m inv_add) (simp add: add_def find_value_push)
qed (simp_all add: inv_empty inv_set inv_add inv_remove)

subsection \<open>Maps that are only added to\<close>

text \<open>
  A map from which nothing was removed keeps the order of its headers: the heap is used only when
  the inline array is full.
\<close>

definition compact :: "header_map \<Rightarrow> bool" where
  "compact m \<longleftrightarrow> heap_headers m = [] \<or> INLINE_CAPACITY \<le> length (inline_headers m)"

lemma compact_empty [simp]: "compact empty_map"
  by (simp add: compact_def empty_map_def)

lemma add_compact:
  assumes "compact m"
  shows "compact (add t n v m)"
    and "entries (add t n v m) = entries m @ [\<lparr>hname = n, hvalue = v\<rparr>]"
  using assms by (auto simp: compact_def add_def push_entry_def Let_def entries_def update_flags_def)

lemma entry_at_eq: "i < header_count m \<Longrightarrow> entry_at m i = entries m ! i"
  by (simp add: entry_at_def entries_def nth_append)

lemma header_count_eq: "header_count m = length (entries m)"
  by (simp add: header_count_def entries_def)

subsection \<open>Properties of the header map\<close>

text \<open>
  The header map is a case-insensitive dictionary. Under its invariant, which the empty map
  has and every operation keeps, setting a header makes every spelling of its name read the new
  value and changes no other name; removing it makes it absent; and the flag-based membership
  test agrees with the lookup, for the four flagged headers too.
\<close>

theorem header_map_dictionary:
  assumes "hm_inv m"
  shows "get_header t (set_header t n v m) k = (if same_name n k then Some v else get_header t m k) \<and>
    get_header t (snd (remove_header t n m)) k = (if same_name n k then None else get_header t m k) \<and>
    contains t m k = (get_header t m k \<noteq> None) \<and>
    hm_inv (set_header t n v m) \<and> hm_inv (add t n v m) \<and> hm_inv (snd (remove_header t n m))"
  using hm.lookup_put [OF assms] hm.lookup_del [OF assms] hm.put_inv [OF assms]
    hm.append_inv [OF assms] hm.del_inv [OF assms] find_value_None_iff [of t k "entries m"]
  by (simp add: contains_eq [OF assms] get_header_eq [OF assms])

theorem header_map_dictionary_witness:
  "get_header AVX2 (set_header AVX2 ''Date'' ''now'' empty_map) ''dAtE'' = Some ''now''"
  using header_map_dictionary [OF inv_empty, of AVX2 "''Date''" "''now''" "''dAtE''"]
  by (simp add: same_name_def ascii_lower_def u8_def char_of_eq_iff char_eq_char_of)

text \<open>
  Headers that are only added keep their order, however many there are: iterating over the
  map visits the inline array and then the heap overflow in the order of the calls.
\<close>

theorem header_map_add_order:
  "map (entry_at (fold (\<lambda>(n, v). add t n v) kvs empty_map))
     [0..<header_count (fold (\<lambda>(n, v). add t n v) kvs empty_map)] =
   map (\<lambda>(n, v). \<lparr>hname = n, hvalue = v\<rparr>) kvs"
proof -
  have "compact (fold (\<lambda>(n, v). add t n v) kvs empty_map) \<and>
    entries (fold (\<lambda>(n, v). add t n v) kvs empty_map) = map (\<lambda>(n, v). \<lparr>hname = n, hvalue = v\<rparr>) kvs"
    by (induction kvs rule: rev_induct)
      (auto simp: add_compact, simp add: entries_def empty_map_def)
  moreover have "map (entry_at m) [0..<header_count m] = entries m" for m
    by (rule nth_equalityI) (simp_all add: entry_at_eq header_count_eq)
  ultimately show ?thesis by simp
qed

end
