(* ===== verification/Http_Request.thy ===== *)
theory Http_Request
  imports Http_Protocol Header_Map
begin

text \<open>
  \<^verbatim>\<open>src/http/Request.h\<close>: the request object, its route parameters, and the accessors that read
  the query string, the Cookie header and a form body; percent-decoding; and the binding of query,
  path and form parameters into typed values, in which the JSON library and the target type's
  validation are arguments.
\<close>

subsection \<open>The request object\<close>

record route_param =
  rp_key :: string
  rp_value :: string

record request =
  rq_version :: http_version
  rq_method :: http_method
  rq_path :: string
  rq_query :: string
  rq_body :: string
  rq_decoded_body_storage :: string
  rq_headers :: header_map
  rq_expect_continue :: bool
  rq_upgrade_h2c :: bool
  rq_websocket_upgrade :: bool
  rq_sec_websocket_key :: string
  rq_params :: "route_param list"

definition MAX_ROUTE_PARAMS :: nat where
  "MAX_ROUTE_PARAMS = 16"

definition initial_request :: request where
  "initial_request = \<lparr>rq_version = Http1_1, rq_method = GET, rq_path = ''/'', rq_query = [],
     rq_body = [], rq_decoded_body_storage = [], rq_headers = empty_map,
     rq_expect_continue = False, rq_upgrade_h2c = False, rq_websocket_upgrade = False,
     rq_sec_websocket_key = [], rq_params = []\<rparr>"

definition reset :: "request \<Rightarrow> request" where
  "reset r = r\<lparr>rq_version := Http1_1, rq_method := GET, rq_path := ''/'', rq_query := [],
     rq_body := [], rq_decoded_body_storage := [], rq_headers := clear (rq_headers r),
     rq_expect_continue := False, rq_upgrade_h2c := False, rq_websocket_upgrade := False,
     rq_sec_websocket_key := [], rq_params := []\<rparr>"

definition is_grpc :: "simd_tier \<Rightarrow> request \<Rightarrow> bool" where
  "is_grpc t r = (case get_header t (rq_headers r) ''content-type'' of
      Some ct \<Rightarrow> starts_with ct ''application/grpc'' | None \<Rightarrow> False)"

definition add_param :: "string \<Rightarrow> string \<Rightarrow> request \<Rightarrow> request" where
  "add_param key value r =
     (if length (rq_params r) < MAX_ROUTE_PARAMS
      then r\<lparr>rq_params := rq_params r @ [\<lparr>rp_key = key, rp_value = value\<rparr>]\<rparr>
      else r)"

definition clear_params :: "request \<Rightarrow> request" where
  "clear_params r = r\<lparr>rq_params := []\<rparr>"

definition param :: "request \<Rightarrow> string \<Rightarrow> string option" where
  "param r key = map_option rp_value (List.find (\<lambda>p. rp_key p = key) (rq_params r))"

definition set_decoded_body :: "string \<Rightarrow> request \<Rightarrow> request" where
  "set_decoded_body b r = r\<lparr>rq_decoded_body_storage := b, rq_body := b\<rparr>"

subsection \<open>Percent-decoding\<close>

definition hex_val :: "char \<Rightarrow> nat option" where
  "hex_val c =
     (if CHR ''0'' \<le> c \<and> c \<le> CHR ''9'' then Some (u8 c - u8 CHR ''0'')
      else if CHR ''a'' \<le> c \<and> c \<le> CHR ''f'' then Some (u8 c - u8 CHR ''a'' + 10)
      else if CHR ''A'' \<le> c \<and> c \<le> CHR ''F'' then Some (u8 c - u8 CHR ''A'' + 10)
      else None)"

text \<open>\<^verbatim>\<open>(h << 4) | l\<close> on nibbles is \<open>16 * h + l\<close>.\<close>

fun url_decode_loop :: "string \<Rightarrow> string" where
  "url_decode_loop [] = []"
| "url_decode_loop (c # cs) =
     (if c = CHR ''%'' \<and> 2 \<le> length cs then
        (case (hex_val (cs ! 0), hex_val (cs ! 1)) of
           (Some h, Some l) \<Rightarrow> char_of (16 * h + l) # url_decode_loop (drop 2 cs)
         | _ \<Rightarrow> c # url_decode_loop cs)
      else if c = CHR ''+'' then SP # url_decode_loop cs
      else c # url_decode_loop cs)"

definition url_decode_string :: "simd_tier \<Rightarrow> string \<Rightarrow> string" where
  "url_decode_string t s = (if \<not> has_url_encoding_chars t s then s else url_decode_loop s)"

subsection \<open>Query, cookie and form lookups\<close>

text \<open>The part of a view before a separator found at \<open>a\<close>, or all of it.\<close>

definition head_part :: "nat option \<Rightarrow> string \<Rightarrow> string" where
  "head_part a q = (case a of Some k \<Rightarrow> take k q | None \<Rightarrow> q)"

function query_loop :: "simd_tier \<Rightarrow> string \<Rightarrow> string \<Rightarrow> string option" where
  "query_loop t key q =
     (if q = [] then None
      else
        let amp = find_char t q CHR ''&'' 0;
            pair = head_part amp q;
            hit = (case find_char t pair CHR ''='' 0 of
                     Some e \<Rightarrow> if take e pair = key then Some (drop (e + 1) pair) else None
                   | None \<Rightarrow> if pair = key then Some [] else None)
        in case hit of
             Some v \<Rightarrow> Some v
           | None \<Rightarrow>
               (case amp of
                  None \<Rightarrow> None
                | Some k \<Rightarrow> query_loop t key (drop (k + 1) q)))"
  by pat_completeness auto
termination
  by (relation "measure (\<lambda>(t, key, q). length q)") auto

definition query_param :: "simd_tier \<Rightarrow> request \<Rightarrow> string \<Rightarrow> string option" where
  "query_param t r key = (if rq_query r = [] then None else query_loop t key (rq_query r))"

definition unquote :: "string \<Rightarrow> string" where
  "unquote v =
     (if 2 \<le> length v \<and> hd v = CHR 0x22 \<and> last v = CHR 0x22 then take (length v - 2) (drop 1 v)
      else v)"

function cookie_loop :: "string \<Rightarrow> string \<Rightarrow> string option" where
  "cookie_loop key c0 =
     (let c = trim_front c0
      in if c = [] then None
         else
           let semi = sv_find CHR '';'' c 0;
               pair = head_part semi c;
               hit = (case sv_find CHR ''='' pair 0 of
                        Some e \<Rightarrow>
                          if trim_back (take e pair) = key
                          then Some (unquote (trim_ows (drop (e + 1) pair))) else None
                      | None \<Rightarrow> None)
           in case hit of
                Some v \<Rightarrow> Some v
              | None \<Rightarrow>
                  (case semi of None \<Rightarrow> None | Some k \<Rightarrow> cookie_loop key (drop (k + 1) c)))"
  by pat_completeness auto
termination
proof (relation "measure (\<lambda>(key, c). length c)")
  fix key c0 c k assume c: "c = trim_front c0" "c \<noteq> []"
  have "length (drop (k + 1) c) < length c" using c(2) by (cases c) auto
  also have "length c \<le> length c0" using c(1) trim_front_length by simp
  finally show "((key, drop (k + 1) c), (key, c0)) \<in> measure (\<lambda>(key, c). length c)" by simp
qed auto

definition cookie :: "simd_tier \<Rightarrow> request \<Rightarrow> string \<Rightarrow> string option" where
  "cookie t r key =
     (case get_header t (rq_headers r) ''cookie'' of
        None \<Rightarrow> None
      | Some raw \<Rightarrow> if raw = [] then None else cookie_loop key raw)"

function form_loop :: "simd_tier \<Rightarrow> string \<Rightarrow> string \<Rightarrow> string option" where
  "form_loop t key b =
     (if b = [] then None
      else
        let amp = find_char t b CHR ''&'' 0;
            pair = head_part amp b;
            hit = (case find_char t pair CHR ''='' 0 of
                     Some e \<Rightarrow>
                       if url_decode_string t (take e pair) = key
                       then Some (url_decode_string t (drop (e + 1) pair)) else None
                   | None \<Rightarrow> if url_decode_string t pair = key then Some [] else None)
        in case hit of
             Some v \<Rightarrow> Some v
           | None \<Rightarrow>
               (case amp of
                  None \<Rightarrow> None
                | Some k \<Rightarrow> form_loop t key (drop (k + 1) b)))"
  by pat_completeness auto
termination
  by (relation "measure (\<lambda>(t, key, q). length q)") auto

definition form_param :: "simd_tier \<Rightarrow> request \<Rightarrow> string \<Rightarrow> string option" where
  "form_param t r key = (if rq_body r = [] then None else form_loop t key (rq_body r))"

declare query_loop.simps [simp del] cookie_loop.simps [simp del] form_loop.simps [simp del]

subsection \<open>Binding into typed values\<close>

text \<open>
  \<^verbatim>\<open>glz::generic\<close> values as the binders build them. Objects are \<^verbatim>\<open>std::map\<close>s: assigning a key
  again replaces its value. \<^verbatim>\<open>strtoll\<close> saturates at the range of \<^verbatim>\<open>long long\<close>; what
  \<^verbatim>\<open>strtod\<close> returns is the argument \<open>strtod\<close>.
\<close>

datatype 'd json_value = JBool bool | JDouble 'd | JInt int | JString string

fun numeric_tail :: "bool \<Rightarrow> string \<Rightarrow> bool" where
  "numeric_tail has_dot [] = True"
| "numeric_tail has_dot (c # cs) =
     (if c = CHR ''.'' then if has_dot then False else numeric_tail True cs
      else if \<not> is_digit c then False
      else numeric_tail has_dot cs)"

definition is_numeric_literal :: "string \<Rightarrow> bool" where
  "is_numeric_literal s =
     (case s of
        [] \<Rightarrow> False
      | c # cs \<Rightarrow>
          if c = CHR ''-'' \<or> c = CHR ''+'' then if cs = [] then False else numeric_tail False cs
          else numeric_tail False s)"

definition strtoll :: "string \<Rightarrow> int" where
  "strtoll s =
     (let neg = (s \<noteq> [] \<and> hd s = CHR ''-'');
          ds = (if s \<noteq> [] \<and> (hd s = CHR ''-'' \<or> hd s = CHR ''+'') then tl s else s);
          n = int (dec_val (takeWhile is_digit ds))
      in max (- (2 ^ 63)) (min (2 ^ 63 - 1) (if neg then - n else n)))"

definition classify :: "(string \<Rightarrow> 'd) \<Rightarrow> string \<Rightarrow> 'd json_value" where
  "classify strtod v =
     (if v = ''true'' then JBool True
      else if v = ''false'' then JBool False
      else if is_numeric_literal v then
        if CHR ''.'' \<in> set v then JDouble (strtod v) else JInt (strtoll v)
      else JString v)"

function pairs_doc ::
    "simd_tier \<Rightarrow> (string \<Rightarrow> 'd) \<Rightarrow> string \<Rightarrow> (string \<rightharpoonup> 'd json_value) \<Rightarrow> (string \<rightharpoonup> 'd json_value)" where
  "pairs_doc t strtod q doc =
     (if q = [] then doc
      else
        let amp = sv_find CHR ''&'' q 0;
            pair = head_part amp q;
            doc' = (case sv_find CHR ''='' pair 0 of
                      Some e \<Rightarrow>
                        (let k = url_decode_string t (take e pair);
                             v = url_decode_string t (drop (e + 1) pair)
                         in if k \<noteq> [] then doc(k \<mapsto> classify strtod v) else doc)
                    | None \<Rightarrow> doc)
        in case amp of None \<Rightarrow> doc' | Some k \<Rightarrow> pairs_doc t strtod (drop (k + 1) q) doc')"
  by pat_completeness auto
termination
  by (relation "measure (\<lambda>(t, strtod, q, doc). length q)") auto

declare pairs_doc.simps [simp del]

definition path_doc ::
    "simd_tier \<Rightarrow> (string \<Rightarrow> 'd) \<Rightarrow> route_param list \<Rightarrow> (string \<rightharpoonup> 'd json_value)" where
  "path_doc t strtod ps =
     fold (\<lambda>p doc. doc(url_decode_string t (rp_key p) \<mapsto>
       classify strtod (url_decode_string t (rp_value p)))) ps Map.empty"

text \<open>
  A binder returns the value, or the status of the error response it has written: 400 when the
  JSON library rejects the document, 422 when validation finds a violation. \<open>read\<close> is
  \<^verbatim>\<open>glz::read\<close> after \<^verbatim>\<open>glz::write_json\<close>; \<open>valid\<close> is the type's \<^verbatim>\<open>validate\<close>.
\<close>

definition bind_doc ::
    "('doc \<Rightarrow> 'a option) \<Rightarrow> ('a \<Rightarrow> bool) \<Rightarrow> 'doc \<Rightarrow> status_code + 'a" where
  "bind_doc read valid doc =
     (case read doc of
        None \<Rightarrow> Inl BadRequest
      | Some val \<Rightarrow> if valid val then Inr val else Inl UnprocessableEntity)"

definition bind_query where
  "bind_query t strtod read valid r =
     bind_doc read valid
       (if rq_query r \<noteq> [] then pairs_doc t strtod (rq_query r) Map.empty else Map.empty)"

definition bind_path where
  "bind_path t strtod read valid r = bind_doc read valid (path_doc t strtod (rq_params r))"

definition bind_form where
  "bind_form t strtod read valid r =
     bind_doc read valid
       (if rq_body r \<noteq> [] then pairs_doc t strtod (rq_body r) Map.empty else Map.empty)"

definition bind_json :: "(string \<Rightarrow> 'a option) \<Rightarrow> ('a \<Rightarrow> bool) \<Rightarrow> request \<Rightarrow> status_code + 'a" where
  "bind_json read valid r = bind_doc read valid (rq_body r)"


subsection \<open>Segments\<close>

text \<open>
  The reference for the pair loops: the pieces between separators, where a trailing separator
  opens no further piece.
\<close>

function segments :: "char \<Rightarrow> string \<Rightarrow> string list" where
  "segments sep s =
     (if s = [] then []
      else case sv_find sep s 0 of
             None \<Rightarrow> [s]
           | Some k \<Rightarrow> take k s # segments sep (drop (k + 1) s))"
  by pat_completeness auto
termination
  by (relation "measure (\<lambda>(sep, s). length s)") auto

declare segments.simps [simp del]

fun first_some :: "('a \<Rightarrow> 'b option) \<Rightarrow> 'a list \<Rightarrow> 'b option" where
  "first_some f [] = None"
| "first_some f (x # xs) = (case f x of Some y \<Rightarrow> Some y | None \<Rightarrow> first_some f xs)"

lemma sv_find_sep: "sep \<notin> set u \<Longrightarrow> sv_find sep (u @ sep # v) 0 = Some (length u)"
  by (auto simp: sv_find_Some_iff nth_append)

lemma sv_find_no_sep: "sep \<notin> set u \<Longrightarrow> sv_find sep u 0 = None"
  by (simp add: sv_find_None_iff)

lemma segments_Nil [simp]: "segments sep [] = []"
  by (subst segments.simps) simp

lemma segments_sep: "sep \<notin> set u \<Longrightarrow> segments sep (u @ sep # v) = u # segments sep v"
  by (subst segments.simps) (simp add: sv_find_sep)

lemma segments_last: "sep \<notin> set u \<Longrightarrow> u \<noteq> [] \<Longrightarrow> segments sep u = [u]"
  by (subst segments.simps) (simp add: sv_find_no_sep)

text \<open>Joining pieces with the separator, as a query or form is written.\<close>

fun join :: "char \<Rightarrow> string list \<Rightarrow> string" where
  "join sep [] = []"
| "join sep [u] = u"
| "join sep (u # us) = u @ sep # join sep us"

lemma segments_join:
  "list_all (\<lambda>u. u \<noteq> [] \<and> sep \<notin> set u) us \<Longrightarrow> segments sep (join sep us) = us"
  by (induction sep us rule: join.induct) (auto simp: segments_last segments_sep)

definition query_hit :: "string \<Rightarrow> string \<Rightarrow> string option" where
  "query_hit key pair =
     (case sv_find CHR ''='' pair 0 of
        Some e \<Rightarrow> if take e pair = key then Some (drop (e + 1) pair) else None
      | None \<Rightarrow> if pair = key then Some [] else None)"

lemma query_loop_step:
  "q \<noteq> [] \<Longrightarrow> query_loop t key q =
    (case query_hit key (head_part (sv_find CHR ''&'' q 0) q) of
       Some v \<Rightarrow> Some v
     | None \<Rightarrow> (case sv_find CHR ''&'' q 0 of
         None \<Rightarrow> None | Some k \<Rightarrow> query_loop t key (drop (k + 1) q)))"
  by (subst query_loop.simps) (simp only: query_hit_def scan_simps Let_def if_False)

lemma query_loop_segments: "query_loop t key q = first_some (query_hit key) (segments CHR ''&'' q)"
proof (induction q rule: length_induct)
  case (1 q)
  show ?case
  proof (cases "q = []")
    case True
    then show ?thesis by (simp add: query_loop.simps)
  next
    case False
    have "query_loop t key (drop (k + 1) q) = first_some (query_hit key) (segments CHR ''&'' (drop (k + 1) q))"
      for k using 1 [rule_format, of "drop (k + 1) q"] False by simp
    with False show ?thesis
      by (subst segments.simps) (simp add: query_loop_step head_part_def split: option.split)
  qed
qed

lemma query_param_segments:
  "query_param t r key = first_some (query_hit key) (segments CHR ''&'' (rq_query r))"
  by (simp add: query_param_def query_loop_segments)

text \<open>A query written from a list of pairs is read back pair by pair.\<close>

definition write_pair :: "string \<times> string \<Rightarrow> string" where
  "write_pair p = fst p @ CHR ''='' # snd p"

definition plain_pair :: "string \<times> string \<Rightarrow> bool" where
  "plain_pair p \<longleftrightarrow> CHR ''='' \<notin> set (fst p) \<and> CHR ''&'' \<notin> set (fst p) \<and> CHR ''&'' \<notin> set (snd p)"

lemma query_hit_write:
  "plain_pair p \<Longrightarrow> query_hit key (write_pair p) = (if fst p = key then Some (snd p) else None)"
  by (simp add: query_hit_def write_pair_def plain_pair_def sv_find_sep)

lemma segments_pairs:
  assumes "list_all plain_pair kvs"
  shows "segments CHR ''&'' (join CHR ''&'' (map write_pair kvs)) = map write_pair kvs"
proof (rule segments_join)
  show "list_all (\<lambda>u. u \<noteq> [] \<and> CHR ''&'' \<notin> set u) (map write_pair kvs)"
    using assms by (auto simp: list_all_iff write_pair_def plain_pair_def)
qed

lemma query_first_some_write:
  "list_all plain_pair kvs \<Longrightarrow>
    first_some (query_hit key) (map write_pair kvs) = map_of kvs key"
  by (induction kvs) (auto simp: query_hit_write)

subsection \<open>Decoding\<close>

lemma url_decode_loop_id: "list_all (\<lambda>c. \<not> url_special c) s \<Longrightarrow> url_decode_loop s = s"
  by (induction s) (auto simp: url_special_def)

text \<open>The SIMD probe is an optimisation only.\<close>

lemma url_decode_string_eq: "url_decode_string t s = url_decode_loop s"
  by (simp add: url_decode_string_def scan_simps url_decode_loop_id)

lemma hex_val_less: "hex_val c = Some h \<Longrightarrow> h < 16"
  by (auto simp: hex_val_def less_eq_char_def u8_def split: if_splits)

lemma length_url_decode_loop: "length (url_decode_loop s) \<le> length s"
proof (induction s rule: length_induct)
  case (1 s)
  show ?case
  proof (cases s)
    case (Cons c cs)
    have "length (url_decode_loop cs) \<le> length cs" "length (url_decode_loop (drop 2 cs)) \<le> length (drop 2 cs)"
      using 1 [rule_format, of cs] 1 [rule_format, of "drop 2 cs"] Cons by auto
    then show ?thesis
      by (auto simp: Cons split: option.split)
  qed simp
qed

text \<open>
  The bytes a decoder can produce from an accepted target: a NUL, CR or LF in the output would
  need one of the escapes that \<^verbatim>\<open>is_valid_request_target\<close> rejects.
\<close>

definition ctl_free :: "string \<Rightarrow> bool" where
  "ctl_free s \<longleftrightarrow> list_all (\<lambda>c. u8 c \<noteq> 0 \<and> c \<noteq> CR \<and> c \<noteq> LF) s"

lemma hex_digit_values:
  "hex_val c = Some 0 \<Longrightarrow> c = CHR ''0''"
  "hex_val c = Some 10 \<Longrightarrow> c = CHR ''a'' \<or> c = CHR ''A''"
  "hex_val c = Some 13 \<Longrightarrow> c = CHR ''d'' \<or> c = CHR ''D''"
  using u8_inject [of c "CHR ''0''"] u8_inject [of c "CHR ''a''"] u8_inject [of c "CHR ''A''"]
    u8_inject [of c "CHR ''d''"] u8_inject [of c "CHR ''D''"]
  by (auto simp: hex_val_def less_eq_char_def u8_def split: if_splits)

lemma bad_escape_decoded:
  assumes h: "hex_val a = Some h" and l: "hex_val b = Some l"
    and bad: "16 * h + l \<in> {0, 10, 13}"
  shows "bad_escape a b"
proof -
  have "h < 16" "l < 16" using h l by (auto dest: hex_val_less)
  from bad have "h = 0" by auto
  with bad have "l = 0 \<or> l = 10 \<or> l = 13" by auto
  note \<open>h = 0\<close> this
  then show ?thesis using hex_digit_values(1) [of a] hex_digit_values [of b] h l
    by (auto simp: bad_escape_def)
qed

lemma u8_char_of: "n < 256 \<Longrightarrow> u8 (char_of n) = n"
  by (simp add: u8_def)

lemma target_decode_ctl_free:
  "target_chars_ok s \<Longrightarrow> list_all uri_char s \<Longrightarrow> ctl_free (url_decode_loop s)"
proof (induction s rule: length_induct)
  case (1 s)
  show ?case
  proof (cases s)
    case (Cons c cs)
    have ok: "target_chars_ok cs" "list_all uri_char cs" "uri_char c"
      using 1 Cons by (auto split: if_splits)
    have dr: "target_chars_ok (drop 2 cs)" "list_all uri_char (drop 2 cs)"
      using ok target_chars_ok_append [of "take 2 cs" "drop 2 cs"]
      by (auto simp: list_all_iff dest: in_set_dropD)
    have IH: "ctl_free (url_decode_loop cs)" "ctl_free (url_decode_loop (drop 2 cs))"
      using 1(1) ok dr Cons by auto
    have c: "u8 c \<noteq> 0" "c \<noteq> CR" "c \<noteq> LF"
      using ok(3) by (auto simp: uri_char_def u8_def)
    show ?thesis
    proof (cases "c = CHR ''%'' \<and> 2 \<le> length cs \<and> hex_val (cs ! 0) \<noteq> None \<and> hex_val (cs ! 1) \<noteq> None")
      case True
      then obtain h l where hl: "hex_val (cs ! 0) = Some h" "hex_val (cs ! 1) = Some l" by auto
      then have small: "16 * h + l < 256" using hex_val_less [of "cs ! 0" h] hex_val_less [of "cs ! 1" l] by simp
      have "\<not> bad_escape (cs ! 0) (cs ! 1)"
        using 1(2) Cons True by auto
      with bad_escape_decoded [OF hl] have n: "16 * h + l \<notin> {0, 10, 13}" by blast
      have "u8 (char_of (16 * h + l)) \<noteq> u8 CR" "u8 (char_of (16 * h + l)) \<noteq> u8 LF"
        "u8 (char_of (16 * h + l)) \<noteq> 0"
        using n unfolding u8_char_of [OF small] by (auto simp: u8_def)
      then show ?thesis using True hl IH(2) Cons by (auto simp: ctl_free_def)
    next
      case False
      then show ?thesis using IH(1) c Cons
        by (auto simp: ctl_free_def u8_def split: option.split)
    qed
  qed (simp add: ctl_free_def)
qed

subsection \<open>Properties of the accessors\<close>

text \<open>
  Query parameters round-trip. A query written as \<^verbatim>\<open>k=v\<close> pairs joined by ampersands is read
  back exactly: every key yields the value of its first pair, every other key yields nothing.
\<close>

theorem query_param_roundtrip:
  assumes "list_all plain_pair kvs" and "rq_query r = join CHR ''&'' (map write_pair kvs)"
  shows "query_param t r key = map_of kvs key"
  using assms by (simp add: query_param_segments segments_pairs query_first_some_write)

theorem query_param_roundtrip_witness:
  "query_param NEON (initial_request\<lparr>rq_query := ''a=1&b=2&a=3''\<rparr>) ''a'' = Some ''1''"
proof -
  have "query_param NEON (initial_request\<lparr>rq_query := ''a=1&b=2&a=3''\<rparr>) ''a'' =
      map_of [(''a'', ''1''), (''b'', ''2''), (''a'', ''3'')] ''a''"
    by (rule query_param_roundtrip) (simp_all add: plain_pair_def write_pair_def)
  then show ?thesis by simp
qed

text \<open>
  The SIMD probe in front of the percent-decoder changes nothing: in every tier decoding gives
  what the decoding loop gives on the whole input, and never lengthens it.
\<close>

theorem url_decode_exact:
  "url_decode_string t s = url_decode_loop s \<and> length (url_decode_string t s) \<le> length s"
  by (simp add: url_decode_string_eq length_url_decode_loop)

end
