(* ===== verification/Http_Response.thy ===== *)
theory Http_Response
  imports Http_Protocol Header_Map
begin

text \<open>
  \<^verbatim>\<open>src/http/Response.h\<close>, \<^verbatim>\<open>src/http/Cookie.h\<close> and \<^verbatim>\<open>src/http/v1/Http1Serializer\<close>: the response
  object with its setters, Set-Cookie formatting, and the HTTP/1.1 wire format (status line,
  headers, Content-Length, chunks). Strings that the response owns for the lifetime of its header
  views are not state of their own here: a view is the text it shows.
\<close>

subsection \<open>Numbers as text\<close>

text \<open>\<^verbatim>\<open>std::to_chars\<close> and \<^verbatim>\<open>std::to_string\<close>.\<close>

definition digit_char :: "nat \<Rightarrow> char" where
  "digit_char d = (if d < 10 then char_of (u8 CHR ''0'' + d) else char_of (u8 CHR ''a'' + (d - 10)))"

fun to_chars :: "nat \<Rightarrow> nat \<Rightarrow> string" where
  "to_chars base n =
     (if base < 2 \<or> n < base then [digit_char n]
      else to_chars base (n div base) @ [digit_char (n mod base)])"

declare to_chars.simps [simp del]

definition to_string_int :: "int \<Rightarrow> string" where
  "to_string_int i = (if i < 0 then CHR ''-'' # to_chars 10 (nat (- i)) else to_chars 10 (nat i))"

subsection \<open>Cookies\<close>

datatype same_site = SS_Default | SS_Lax | SS_Strict | SS_None

record cookie_options =
  ck_name :: string
  ck_value :: string
  ck_path :: string
  ck_domain :: string
  ck_max_age :: "int option"
  ck_same_site :: same_site
  ck_http_only :: bool
  ck_secure :: bool
  ck_partitioned :: bool

definition format_cookie :: "cookie_options \<Rightarrow> string" where
  "format_cookie opts =
     ck_name opts @ ''='' @ ck_value opts @
     (if ck_path opts \<noteq> [] then ''; Path='' @ ck_path opts else []) @
     (if ck_domain opts \<noteq> [] then ''; Domain='' @ ck_domain opts else []) @
     (case ck_max_age opts of Some s \<Rightarrow> ''; Max-Age='' @ to_string_int s | None \<Rightarrow> []) @
     (case ck_same_site opts of
        SS_Strict \<Rightarrow> ''; SameSite=Strict''
      | SS_Lax \<Rightarrow> ''; SameSite=Lax''
      | SS_None \<Rightarrow> ''; SameSite=None''
      | SS_Default \<Rightarrow> []) @
     (if ck_secure opts then ''; Secure'' else []) @
     (if ck_http_only opts then ''; HttpOnly'' else []) @
     (if ck_partitioned opts then ''; Partitioned'' else [])"

subsection \<open>The response object\<close>

record response =
  rs_version :: http_version
  rs_status :: status_code
  rs_headers :: header_map
  rs_trailers :: header_map
  rs_body :: string
  rs_body_view :: string
  rs_is_chunked :: bool
  rs_is_sse :: bool
  rs_is_trailers_only :: bool
  rs_is_file :: bool
  rs_file_path :: string
  rs_file_handle :: "int option"
  rs_file_size :: nat

definition initial_response :: response where
  "initial_response = \<lparr>rs_version = Http1_1, rs_status = Ok, rs_headers = empty_map,
     rs_trailers = empty_map, rs_body = [], rs_body_view = [], rs_is_chunked = False,
     rs_is_sse = False, rs_is_trailers_only = False, rs_is_file = False, rs_file_path = [],
     rs_file_handle = None, rs_file_size = 0\<rparr>"

definition res_reset :: "response \<Rightarrow> response" where
  "res_reset r = r\<lparr>rs_version := Http1_1, rs_status := Ok, rs_headers := clear (rs_headers r),
     rs_trailers := clear (rs_trailers r), rs_is_trailers_only := False, rs_body := [],
     rs_body_view := [], rs_is_chunked := False, rs_is_sse := False, rs_is_file := False,
     rs_file_path := [], rs_file_handle := None, rs_file_size := 0\<rparr>"

definition set_status :: "status_code \<Rightarrow> response \<Rightarrow> response" where
  "set_status code r = r\<lparr>rs_status := code\<rparr>"

definition res_header :: "simd_tier \<Rightarrow> string \<Rightarrow> string \<Rightarrow> response \<Rightarrow> response" where
  "res_header t name value r = r\<lparr>rs_headers := set_header t name value (rs_headers r)\<rparr>"

definition set_cookie :: "simd_tier \<Rightarrow> cookie_options \<Rightarrow> response \<Rightarrow> response" where
  "set_cookie t opts r = r\<lparr>rs_headers := add t ''Set-Cookie'' (format_cookie opts) (rs_headers r)\<rparr>"

definition clear_cookie :: "simd_tier \<Rightarrow> string \<Rightarrow> string \<Rightarrow> string \<Rightarrow> response \<Rightarrow> response" where
  "clear_cookie t name path domain r =
     set_cookie t \<lparr>ck_name = name, ck_value = [], ck_path = path, ck_domain = domain,
       ck_max_age = Some 0, ck_same_site = SS_Lax, ck_http_only = False, ck_secure = False,
       ck_partitioned = False\<rparr> r"

definition set_body :: "string \<Rightarrow> response \<Rightarrow> response" where
  "set_body b r = r\<lparr>rs_body := b, rs_body_view := []\<rparr>"

definition set_body_view :: "string \<Rightarrow> response \<Rightarrow> response" where
  "set_body_view bv r = r\<lparr>rs_body_view := bv, rs_body := []\<rparr>"

definition content_response :: "simd_tier \<Rightarrow> string \<Rightarrow> string \<Rightarrow> response \<Rightarrow> response" where
  "content_response t ctype b r = set_body b (res_header t ''Content-Type'' ctype r)"

definition res_text :: "simd_tier \<Rightarrow> string \<Rightarrow> response \<Rightarrow> response" where
  "res_text t b r = content_response t ''text/plain'' b r"

definition res_json :: "simd_tier \<Rightarrow> string \<Rightarrow> response \<Rightarrow> response" where
  "res_json t b r = content_response t ''application/json'' b r"

definition res_html :: "simd_tier \<Rightarrow> string \<Rightarrow> response \<Rightarrow> response" where
  "res_html t b r = content_response t ''text/html; charset=utf-8'' b r"

definition mime_table :: "(string \<times> string) list" where
  "mime_table =
     [(''.html'', ''text/html; charset=utf-8''), (''.htm'', ''text/html; charset=utf-8''),
      (''.css'', ''text/css; charset=utf-8''),
      (''.js'', ''application/javascript; charset=utf-8''),
      (''.mjs'', ''application/javascript; charset=utf-8''),
      (''.json'', ''application/json; charset=utf-8''),
      (''.map'', ''application/json; charset=utf-8''),
      (''.webmanifest'', ''application/manifest+json; charset=utf-8''),
      (''.manifest'', ''application/manifest+json; charset=utf-8''),
      (''.png'', ''image/png''), (''.jpg'', ''image/jpeg''), (''.jpeg'', ''image/jpeg''),
      (''.gif'', ''image/gif''), (''.svg'', ''image/svg+xml''), (''.ico'', ''image/x-icon''),
      (''.webp'', ''image/webp''), (''.avif'', ''image/avif''),
      (''.txt'', ''text/plain; charset=utf-8''), (''.pdf'', ''application/pdf''),
      (''.wasm'', ''application/wasm''), (''.woff2'', ''font/woff2''), (''.woff'', ''font/woff''),
      (''.ttf'', ''font/ttf''), (''.otf'', ''font/otf''),
      (''.xml'', ''application/xml; charset=utf-8''), (''.mp4'', ''video/mp4''),
      (''.webm'', ''video/webm'')]"

definition infer_mime_type :: "string \<Rightarrow> string" where
  "infer_mime_type path =
     (case sv_rfind CHR ''.'' path of
        None \<Rightarrow> ''application/octet-stream''
      | Some dot \<Rightarrow>
          (case map_of mime_table (drop dot path) of
             Some m \<Rightarrow> m | None \<Rightarrow> ''application/octet-stream''))"

text \<open>\<^verbatim>\<open>file(path, mime)\<close>; the result of \<^verbatim>\<open>stat\<close> (the size, if the file exists) is an argument.\<close>

definition res_file :: "simd_tier \<Rightarrow> nat option \<Rightarrow> string \<Rightarrow> string \<Rightarrow> response \<Rightarrow> response" where
  "res_file t stat filepath mime r =
     (let r = r\<lparr>rs_is_file := True, rs_file_path := filepath, rs_file_handle := None\<rparr>;
          r = (case stat of
                 Some n \<Rightarrow> r\<lparr>rs_file_size := n\<rparr>
               | None \<Rightarrow> r\<lparr>rs_file_size := 0, rs_status := NotFound\<rparr>);
          mime = (if mime = [] then infer_mime_type filepath else mime)
      in res_header t ''Content-Type'' mime r)"

text \<open>
  \<^verbatim>\<open>file(file_obj, size, mime)\<close>: an open file object, of which the descriptor (negative when it is not
  valid) and the path matter.
\<close>

definition res_file_object :: "simd_tier \<Rightarrow> int \<Rightarrow> string \<Rightarrow> nat \<Rightarrow> string \<Rightarrow> response \<Rightarrow> response" where
  "res_file_object t fd path n mime r =
     res_header t ''Content-Type'' mime
       (r\<lparr>rs_is_file := True, rs_file_path := path, rs_file_handle := Some fd, rs_file_size := n\<rparr>)"

definition chunked :: "simd_tier \<Rightarrow> response \<Rightarrow> response" where
  "chunked t r = res_header t ''Transfer-Encoding'' ''chunked'' (r\<lparr>rs_is_chunked := True\<rparr>)"

definition sse :: "simd_tier \<Rightarrow> response \<Rightarrow> response" where
  "sse t r = res_header t ''X-Accel-Buffering'' ''no''
     (res_header t ''Cache-Control'' ''no-cache''
       (res_header t ''Content-Type'' ''text/event-stream'' (r\<lparr>rs_is_sse := True\<rparr>)))"

definition trailer :: "simd_tier \<Rightarrow> string \<Rightarrow> string \<Rightarrow> response \<Rightarrow> response" where
  "trailer t name value r = r\<lparr>rs_trailers := set_header t name value (rs_trailers r)\<rparr>"

definition is_success :: "response \<Rightarrow> bool" where
  "is_success r = (let s = status_value (rs_status r) in 200 \<le> s \<and> s \<le> 299)"

definition res_body :: "response \<Rightarrow> string" where
  "res_body r = (if rs_body_view r \<noteq> [] then rs_body_view r else rs_body r)"

subsection \<open>HTTP/1.1 serialisation\<close>

definition serialize_chunk :: "string \<Rightarrow> string \<Rightarrow> string" where
  "serialize_chunk data out =
     (if data = [] then out else out @ to_chars 16 (length data) @ crlf @ data @ crlf)"

definition serialize_chunk_end :: "string \<Rightarrow> string" where
  "serialize_chunk_end out = out @ ''0'' @ crlf @ crlf"

definition status_line :: "status_code \<Rightarrow> string" where
  "status_line st =
     (case st of
        Ok \<Rightarrow> ''HTTP/1.1 200 OK'' @ crlf
      | Created \<Rightarrow> ''HTTP/1.1 201 Created'' @ crlf
      | NoContent \<Rightarrow> ''HTTP/1.1 204 No Content'' @ crlf
      | NotModified \<Rightarrow> ''HTTP/1.1 304 Not Modified'' @ crlf
      | BadRequest \<Rightarrow> ''HTTP/1.1 400 Bad Request'' @ crlf
      | NotFound \<Rightarrow> ''HTTP/1.1 404 Not Found'' @ crlf
      | InternalServerError \<Rightarrow> ''HTTP/1.1 500 Internal Server Error'' @ crlf
      | _ \<Rightarrow> ''HTTP/1.1 '' @ to_chars 10 (status_value st) @ '' '' @ status_phrase st @ crlf)"

definition framing_header :: "response \<Rightarrow> string" where
  "framing_header res =
     (let headers = rs_headers res;
          no_content_body = should_suppress_content_length (rs_status res)
      in if rs_is_sse res then
           if \<not> has_transfer_encoding headers then ''Transfer-Encoding: chunked'' @ crlf else []
         else if rs_is_chunked res then
           if \<not> has_transfer_encoding headers then ''Transfer-Encoding: chunked'' @ crlf else []
         else if \<not> no_content_body \<and> \<not> has_content_length headers then
           let len = (if rs_is_file res then rs_file_size res else length (res_body res))
           in ''Content-Length: '' @
              (if len < 10 then [char_of (u8 CHR ''0'' + len)] else to_chars 10 len) @ crlf
         else [])"

definition header_lines :: "header_map \<Rightarrow> string" where
  "header_lines m = concat (map (\<lambda>i. hname (entry_at m i) @ '': '' @ hvalue (entry_at m i) @ crlf)
     [0..<header_count m])"

text \<open>\<open>date\<close> is what \<^verbatim>\<open>get_http_date_header()\<close> returns.\<close>

definition append_headers :: "string \<Rightarrow> response \<Rightarrow> string \<Rightarrow> string" where
  "append_headers date res out =
     out @ status_line (rs_status res) @ framing_header res @
     (if \<not> has_date (rs_headers res) \<and> 200 \<le> status_value (rs_status res) then date else []) @
     header_lines (rs_headers res) @ crlf"

definition append_response :: "string \<Rightarrow> response \<Rightarrow> string \<Rightarrow> string" where
  "append_response date res out =
     (let out = append_headers date res out
      in if rs_is_chunked res then
           serialize_chunk_end (if res_body res \<noteq> [] then serialize_chunk (res_body res) out else out)
         else if \<not> rs_is_file res then out @ res_body res
         else out)"

definition serialize_response :: "string \<Rightarrow> response \<Rightarrow> string" where
  "serialize_response date res = append_response date res []"

subsection \<open>Properties\<close>

lemma u8_digit_char:
  "d < 10 \<Longrightarrow> u8 (digit_char d) = 48 + d"
  "10 \<le> d \<Longrightarrow> d < 16 \<Longrightarrow> u8 (digit_char d) = 97 + (d - 10)"
  by (simp_all add: digit_char_def u8_def)

lemma to_chars_nonempty [simp]: "to_chars b n \<noteq> []"
  by (subst to_chars.simps) simp

text \<open>What \<^verbatim>\<open>to_chars\<close> writes in decimal, \<^verbatim>\<open>parse_valid_content_length\<close> reads.\<close>

lemma is_digit_digit_char: "d < 10 \<Longrightarrow> is_digit (digit_char d)" "d < 10 \<Longrightarrow> digit_val (digit_char d) = d"
  by (simp_all add: is_digit_def digit_val_def less_eq_char_def digit_char_def u8_def)

lemma dec_val_snoc: "dec_val (s @ [c]) = dec_val s * 10 + digit_val c"
  by (simp add: dec_val_def)

lemma dec_val_single: "dec_val [c] = digit_val c"
  by (simp add: dec_val_def)

lemma to_chars_dec: "list_all is_digit (to_chars 10 n) \<and> dec_val (to_chars 10 n) = n"
proof (induction n rule: less_induct)
  case (less n)
  show ?case
  proof (cases "n < 10")
    case True
    then show ?thesis by (subst (1 2) to_chars.simps) (simp add: is_digit_digit_char dec_val_single)
  next
    case False
    then have "n div 10 < n" by simp
    with less False show ?thesis
      by (subst (1 2) to_chars.simps) (simp add: is_digit_digit_char dec_val_snoc)
  qed
qed

lemma to_chars_length: "0 < k \<Longrightarrow> 2 \<le> b \<Longrightarrow> n < b ^ k \<Longrightarrow> length (to_chars b n) \<le> k"
proof (induction k arbitrary: n)
  case (Suc k)
  show ?case
  proof (cases "n < b")
    case False
    then have "0 < k" using Suc.prems by (cases k) auto
    moreover have "n div b < b ^ k" using Suc.prems by (simp add: less_mult_imp_div_less mult.commute)
    ultimately have "length (to_chars b (n div b)) \<le> k" using Suc by simp
    with False show ?thesis by (subst to_chars.simps) simp
  qed (subst to_chars.simps, simp)
qed simp

lemma content_length_roundtrip:
  assumes "n < 10 ^ 19"
  shows "parse_valid_content_length (to_chars 10 n) = Some n"
  using to_chars_length [of 19 10 n] assms to_chars_dec [of n]
  by (simp add: parse_valid_content_length_iff)

text \<open>
  The Content-Length the serialiser writes is the one the parsers read: for every body length
  the limit allows, the decimal text is accepted and gives the length back.
\<close>

theorem content_length_text_roundtrip:
  assumes "n < 10 ^ 19"
  shows "parse_valid_content_length (if n < 10 then [char_of (u8 CHR ''0'' + n)] else to_chars 10 n) = Some n"
proof -
  have "to_chars 10 n = [char_of (u8 CHR ''0'' + n)]" if "n < 10"
    using that by (simp add: to_chars.simps digit_char_def)
  then show ?thesis using content_length_roundtrip [OF assms] by auto
qed

theorem content_length_text_roundtrip_witness:
  "parse_valid_content_length (to_chars 10 1234) = Some 1234"
  using content_length_text_roundtrip [of 1234] by simp

text \<open>
  A 204 or 304 response keeps its body on the wire. The serialiser suppresses Content-Length
  for these statuses and still appends the body after the header section, where a client that
  follows the status reads it as the start of the next response.
\<close>

theorem no_content_body_leaks:
  assumes "should_suppress_content_length (rs_status res)" and "\<not> rs_is_chunked res"
    and "\<not> rs_is_file res" and "\<not> rs_is_sse res"
  shows "serialize_response date res = append_headers date res [] @ res_body res \<and>
    framing_header res = []"
  using assms by (simp add: serialize_response_def append_response_def framing_header_def Let_def)

theorem no_content_body_leaks_witness:
  "serialize_response [] (initial_response\<lparr>rs_status := NoContent, rs_body := ''x''\<rparr>) =
    append_headers [] (initial_response\<lparr>rs_status := NoContent, rs_body := ''x''\<rparr>) [] @ ''x''"
  using no_content_body_leaks [of "initial_response\<lparr>rs_status := NoContent, rs_body := ''x''\<rparr>" "[]"]
  by (simp add: should_suppress_content_length_def initial_response_def res_body_def)

end
