(* ===== verification/Http1_Parser.thy ===== *)
theory Http1_Parser
  imports Http_Request Http_Response
begin

text \<open>
  \<^verbatim>\<open>src/http/v1/Http1Parser.h\<close>: the HTTP/1.x request and response parsers. A request is parsed
  in three phases (request line, header section, body); each phase is a definition that either
  returns early, with the status and the request as filled so far, or hands its results on.

  \<^verbatim>\<open>size_t\<close> arithmetic on attacker-chosen chunk sizes is kept modulo \<open>2 ^ 64\<close>. Two things the
  C++ code can do that are not returns are outcomes of the model: an index outside the buffer, and
  the exception of \<^verbatim>\<open>std::string::append\<close> leaving a \<^verbatim>\<open>noexcept\<close> function, which terminates the
  process.
\<close>

unbundle bit_operations_syntax

subsection \<open>Outcomes\<close>

datatype parse_status =
    PComplete | PNeedMoreData | PError | PNotImplemented | PUriTooLong | PHeadersTooLarge
  | PPayloadTooLarge | PExpectationFailed

datatype fault = Terminated | OutOfBounds

datatype 'r parse_outcome =
    Returned parse_status 'r nat
  | Faulted fault

subsection \<open>Chunk sizes\<close>

definition HEX_TABLE :: "char \<Rightarrow> nat" where
  "HEX_TABLE c =
     (if CHR ''0'' \<le> c \<and> c \<le> CHR ''9'' then u8 c - u8 CHR ''0''
      else if CHR ''a'' \<le> c \<and> c \<le> CHR ''f'' then 10 + (u8 c - u8 CHR ''a'')
      else if CHR ''A'' \<le> c \<and> c \<le> CHR ''F'' then 10 + (u8 c - u8 CHR ''A'')
      else 0xFF)"

fun hex_loop :: "u64 \<Rightarrow> string \<Rightarrow> u64 option" where
  "hex_loop sz [] = Some sz"
| "hex_loop sz (c # cs) =
     (let val = HEX_TABLE c
      in if val = 0xFF then None else hex_loop (push_bit 4 sz OR of_nat val) cs)"

definition parse_hex_size :: "string \<Rightarrow> nat option" where
  "parse_hex_size hex_str =
     (if hex_str = [] \<or> 16 < length hex_str then None
      else map_option unat (hex_loop 0 hex_str))"

subsection \<open>Phase 1: the request line\<close>

definition normalize_target :: "simd_tier \<Rightarrow> http_method \<Rightarrow> string \<Rightarrow> string option" where
  "normalize_target t m full_path =
     (let from_slash = (\<lambda>rest. case find_char t rest CHR ''/'' 0 of
                                 Some slash \<Rightarrow> drop slash rest | None \<Rightarrow> ''/'')
      in if full_path = [] \<or> hd full_path \<noteq> CHR ''/'' then
           if full_path = ''*'' then if m \<noteq> OPTIONS then None else Some full_path
           else if starts_with full_path ''http://'' then Some (from_slash (drop 7 full_path))
           else if starts_with full_path ''https://'' then Some (from_slash (drop 8 full_path))
           else None
         else Some full_path)"

definition parse_version :: "string \<Rightarrow> http_version option" where
  "parse_version ver =
     (if ver = ''HTTP/1.1'' then Some Http1_1
      else if ver = ''HTTP/1.0'' then Some Http1_0
      else if starts_with ver ''HTTP/1.'' \<and> 8 \<le> length ver then
        if list_all is_digit (drop 7 ver) then Some Http1_1 else None
      else None)"

definition set_target :: "simd_tier \<Rightarrow> string \<Rightarrow> request \<Rightarrow> request" where
  "set_target t full_path req =
     (case find_char t full_path CHR ''?'' 0 of
        Some qmark \<Rightarrow> req\<lparr>rq_path := take qmark full_path, rq_query := drop (qmark + 1) full_path\<rparr>
      | None \<Rightarrow> req\<lparr>rq_path := full_path, rq_query := []\<rparr>)"

definition parse_request_line ::
    "simd_tier \<Rightarrow> protocol_limits \<Rightarrow> string \<Rightarrow> request \<Rightarrow> (parse_status \<times> request) + request" where
  "parse_request_line t limits req_line req =
     (case find_char t req_line SP 0 of
        None \<Rightarrow> Inl (PError, req)
      | Some sp1 \<Rightarrow>
          let m = string_to_method (take sp1 req_line)
          in if m = UNKNOWN then Inl (PError, req)
             else
               let req = req\<lparr>rq_method := m\<rparr>
               in case find_char t req_line SP (sp1 + 1) of
                    None \<Rightarrow> Inl (PError, req)
                  | Some sp2 \<Rightarrow>
                      let full_path = substr req_line (sp1 + 1) (sp2 - (sp1 + 1))
                      in if max_uri_length limits < length full_path then Inl (PUriTooLong, req)
                         else case normalize_target t m full_path of
                           None \<Rightarrow> Inl (PError, req)
                         | Some full_path \<Rightarrow>
                             if \<not> is_valid_request_target full_path then Inl (PError, req)
                             else if \<not> validate_uri_chars t full_path then Inl (PError, req)
                             else
                               let req = set_target t full_path req
                               in case parse_version (drop (sp2 + 1) req_line) of
                                    None \<Rightarrow> Inl (PError, req)
                                  | Some v \<Rightarrow> Inr (req\<lparr>rq_version := v\<rparr>))"

subsection \<open>Phase 2: the header section\<close>

record header_state =
  hs_content_length :: nat
  hs_has_content_length :: bool
  hs_has_transfer_encoding :: bool
  hs_is_chunked :: bool
  hs_has_host :: bool

definition initial_header_state :: header_state where
  "initial_header_state = \<lparr>hs_content_length = 0, hs_has_content_length = False,
     hs_has_transfer_encoding = False, hs_is_chunked = False, hs_has_host = False\<rparr>"

text \<open>The field name and trimmed value of a header line.\<close>

definition header_line :: "simd_tier \<Rightarrow> string \<Rightarrow> (string \<times> string) option" where
  "header_line t line =
     (case find_char t line CHR '':'' 0 of
        None \<Rightarrow> None
      | Some colon \<Rightarrow>
          if colon = 0 then None
          else
            let name = take colon line; raw_value = drop (colon + 1) line
            in if \<not> validate_tchars name then None
               else if last name = SP \<or> last name = HTAB then None
               else if \<not> validate_header_value t raw_value then None
               else Some (name, trim_ows raw_value))"

definition host_value_ok :: "string \<Rightarrow> bool" where
  "host_value_ok value \<longleftrightarrow> value \<noteq> [] \<and>
     list_all (\<lambda>c. \<not> (c = CHR ''@'' \<or> c = CHR ''/'' \<or> c = CHR '','' \<or> c = SP \<or> c = HTAB)) value"

function te_codings :: "string \<Rightarrow> string list" where
  "te_codings te_val =
     (if te_val = [] then []
      else
        let comma = sv_find CHR '','' te_val 0;
            token = trim_ows (head_part comma te_val);
            rest = (case comma of None \<Rightarrow> [] | Some k \<Rightarrow> te_codings (drop (k + 1) te_val))
        in if token \<noteq> [] then token # rest else rest)"
  by pat_completeness auto
termination
  by (relation "measure length") auto

declare te_codings.simps [simp del]

definition is_chunked_coding :: "simd_tier \<Rightarrow> string \<Rightarrow> bool" where
  "is_chunked_coding t c \<longleftrightarrow> iequals t c ''chunked'' \<or> starts_with c ''chunked;''"

text \<open>The Transfer-Encoding value: \<open>None\<close> when chunked is the last coding and occurs once.\<close>

definition transfer_encoding_check :: "simd_tier \<Rightarrow> string \<Rightarrow> parse_status option" where
  "transfer_encoding_check t value =
     (if value = [] then Some PError
      else
        let codings = te_codings value
        in if codings = [] then Some PError
           else if 1 < length (filter (is_chunked_coding t) codings) then Some PError
           else if is_chunked_coding t (last codings) then None
           else Some PNotImplemented)"

text \<open>What one header field does once it has been added to the header map.\<close>

definition header_field ::
    "simd_tier \<Rightarrow> protocol_limits \<Rightarrow> string \<Rightarrow> string \<Rightarrow> request \<Rightarrow> header_state \<Rightarrow>
     (parse_status \<times> request) + (request \<times> header_state)" where
  "header_field t limits name value req hs =
     (if length name = 4 \<and> iequals t name ''Host'' then
        if hs_has_host hs then Inl (PError, req)
        else if host_value_ok value then Inr (req, hs\<lparr>hs_has_host := True\<rparr>)
        else Inl (PError, req)
      else if length name = 6 \<and> iequals t name ''Expect'' then
        if iequals t value ''100-continue'' then Inr (req\<lparr>rq_expect_continue := True\<rparr>, hs)
        else Inl (PExpectationFailed, req)
      else if length name = 7 \<and> iequals t name ''Upgrade'' then
        if iequals t value ''h2c'' then Inr (req\<lparr>rq_upgrade_h2c := True\<rparr>, hs)
        else if sv_find_str ''websocket'' (map ascii_lower value) 0 \<noteq> None
        then Inr (req\<lparr>rq_websocket_upgrade := True\<rparr>, hs)
        else Inr (req, hs)
      else if length name = 14 \<and> iequals t name ''Content-Length'' then
        if hs_has_content_length hs then Inl (PError, req)
        else (case parse_valid_content_length value of
                None \<Rightarrow> Inl (PError, req)
              | Some cl \<Rightarrow>
                  if max_body_size limits < cl then Inl (PPayloadTooLarge, req)
                  else Inr (req, hs\<lparr>hs_has_content_length := True, hs_content_length := cl\<rparr>))
      else if length name = 17 \<and> iequals t name ''Transfer-Encoding'' then
        if hs_has_transfer_encoding hs then Inl (PError, req)
        else (case transfer_encoding_check t value of
                Some st \<Rightarrow> Inl (st, req)
              | None \<Rightarrow> Inr (req, hs\<lparr>hs_has_transfer_encoding := True, hs_is_chunked := True\<rparr>))
      else if length name = 17 \<and> iequals t name ''Sec-WebSocket-Key'' then
        Inr (req\<lparr>rq_sec_websocket_key := value\<rparr>, hs)
      else Inr (req, hs))"

text \<open>
  The loop over the header section. Leaving it without the empty line means more data is needed.
\<close>

function header_loop ::
    "simd_tier \<Rightarrow> protocol_limits \<Rightarrow> string \<Rightarrow> nat \<Rightarrow> nat \<Rightarrow> request \<Rightarrow> header_state \<Rightarrow>
     (parse_status \<times> request) + (request \<times> header_state \<times> nat)" where
  "header_loop t limits buffer req_line_end cursor req hs =
     (if length buffer \<le> cursor then Inl (PNeedMoreData, req)
      else if max_headers_size limits < cursor - req_line_end \<or>
              max_header_count limits \<le> header_count (rq_headers req)
      then Inl (PHeadersTooLarge, req)
      else if cursor + 2 \<le> length buffer \<and> buffer ! cursor = CR \<and> buffer ! (cursor + 1) = LF
      then Inr (req, hs, cursor + 2)
      else if buffer ! cursor = CR \<and> cursor + 1 = length buffer then Inl (PNeedMoreData, req)
      else case find_crlf t buffer cursor of
             None \<Rightarrow>
               if max_headers_size limits < length buffer - req_line_end
               then Inl (PHeadersTooLarge, req)
               else Inl (PNeedMoreData, req)
           | Some header_end \<Rightarrow>
               (case header_line t (substr buffer cursor (header_end - cursor)) of
                  None \<Rightarrow> Inl (PError, req)
                | Some (name, value) \<Rightarrow>
                    let req = req\<lparr>rq_headers := add t name value (rq_headers req)\<rparr>
                    in case header_field t limits name value req hs of
                         Inl e \<Rightarrow> Inl e
                       | Inr (req, hs) \<Rightarrow>
                           header_loop t limits buffer req_line_end (header_end + 2) req hs))"
  by pat_completeness auto
termination
proof (relation "measure (\<lambda>(t, limits, buffer, e, cursor, req, hs). length buffer - cursor)")
  fix t limits buffer req_line_end cursor req hs header_end
  assume "\<not> length buffer \<le> cursor" "find_crlf t buffer cursor = Some header_end"
  then have "cursor \<le> header_end" "cursor < length buffer"
    by (auto dest: crlf_scan.bound)
  then show "\<And>req' hs'. ((t, limits, buffer, req_line_end, header_end + 2, req', hs'),
      t, limits, buffer, req_line_end, cursor, req, hs)
    \<in> measure (\<lambda>(t, limits, buffer, e, cursor, req, hs). length buffer - cursor)"
    by auto
qed auto

declare header_loop.simps [simp del]


subsection \<open>Phase 3: the body\<close>

text \<open>
  Chunk extensions, \<^verbatim>\<open>;name\<close> or \<^verbatim>\<open>;name=value\<close>: the loop of the request parser; \<open>True\<close> when
  every extension is well formed.
\<close>

function ext_loop :: "string \<Rightarrow> nat \<Rightarrow> bool" where
  "ext_loop ext ext_pos =
     (if length ext \<le> ext_pos then True
      else
        let eq_or_semi = sv_find_first_of '';='' ext ext_pos;
            ext_name = trim_ows (case eq_or_semi of
                Some k \<Rightarrow> substr ext ext_pos (k - ext_pos)
              | None \<Rightarrow> substr ext ext_pos (length ext - ext_pos))
        in if ext_name = [] then False
           else if \<not> list_all is_tchar ext_name then False
           else case eq_or_semi of
                  None \<Rightarrow> ext_loop ext (length ext)
                | Some k \<Rightarrow>
                    if ext ! k = CHR '';'' then ext_loop ext (k + 1)
                    else
                      let next_semi = sv_find CHR '';'' ext (k + 1);
                          ext_val = (case next_semi of
                              Some n \<Rightarrow> substr ext (k + 1) (n - (k + 1))
                            | None \<Rightarrow> substr ext (k + 1) (length ext - (k + 1)))
                      in if \<not> list_all (\<lambda>c. \<not> (c = CR \<or> u8 c < 0x20 \<or> u8 c = 0x7F)) ext_val
                         then False
                         else ext_loop ext (case next_semi of None \<Rightarrow> length ext | Some n \<Rightarrow> n + 1))"
  by pat_completeness auto
termination
  by (relation "measure (\<lambda>(ext, ext_pos). length ext - ext_pos)")
    (auto simp: sv_find_first_of_def first_in_Some_iff sv_find_Some_iff split: option.splits)

declare ext_loop.simps [simp del]

text \<open>The chunk-size line: \<open>None\<close> when it is malformed.\<close>

definition chunk_size_line :: "simd_tier \<Rightarrow> string \<Rightarrow> nat option" where
  "chunk_size_line t size_line =
     (case find_char t size_line CHR '';'' 0 of
        None \<Rightarrow> parse_hex_size size_line
      | Some semi \<Rightarrow>
          let ext = drop (semi + 1) size_line
          in if ext = [] \<or> 1024 < length ext then None
             else if \<not> ext_loop ext 0 then None
             else parse_hex_size (take semi size_line))"

datatype chunk_outcome =
    ChunkReturn parse_status
  | ChunkDone string nat
  | ChunkFault fault

text \<open>After the last chunk: the trailer section and where it ends.\<close>

definition last_chunk :: "simd_tier \<Rightarrow> string \<Rightarrow> nat \<Rightarrow> parse_status + nat" where
  "last_chunk t buffer chunk_cursor =
     (if chunk_cursor < length buffer \<and> buffer ! chunk_cursor = LF then Inl PError
      else case find_double_crlf t buffer chunk_cursor of
             Some trailer_end \<Rightarrow> Inr (trailer_end + 4)
           | None \<Rightarrow>
               if chunk_cursor + 2 \<le> length buffer \<and>
                  buffer ! chunk_cursor = CR \<and> buffer ! (chunk_cursor + 1) = LF
               then Inr (chunk_cursor + 2)
               else (case sv_find LF buffer chunk_cursor of
                       Some lf \<Rightarrow>
                         if lf = chunk_cursor \<or> buffer ! (lf - 1) \<noteq> CR then Inl PError
                         else Inl PNeedMoreData
                     | None \<Rightarrow> Inl PNeedMoreData))"

text \<open>
  One data chunk of \<open>chunk_size\<close> bytes at \<open>chunk_cursor\<close>. All sums are \<^verbatim>\<open>size_t\<close> sums.
  \<open>limit\<close> is the body limit (the response parser has none). When \<^verbatim>\<open>append\<close> does not throw, the
  chunk is smaller than \<open>2 ^ 63\<close> and the sums below have not wrapped.
\<close>

definition take_chunk ::
    "nat option \<Rightarrow> string \<Rightarrow> nat \<Rightarrow> nat \<Rightarrow> string \<Rightarrow> chunk_outcome" where
  "take_chunk limit buffer chunk_cursor chunk_size decoded =
     (if length buffer < size_wrap (chunk_cursor + chunk_size + 2) then ChunkReturn PNeedMoreData
      else if length buffer \<le> size_wrap (chunk_cursor + chunk_size) then ChunkFault OutOfBounds
      else if buffer ! size_wrap (chunk_cursor + chunk_size) \<noteq> CR then ChunkReturn PError
      else if length buffer \<le> size_wrap (chunk_cursor + chunk_size + 1) then ChunkFault OutOfBounds
      else if buffer ! size_wrap (chunk_cursor + chunk_size + 1) \<noteq> LF then ChunkReturn PError
      else if (case limit of
                 Some mx \<Rightarrow> mx < size_wrap (length decoded + chunk_size) | None \<Rightarrow> False)
      then ChunkReturn PPayloadTooLarge
      else if string_max_size - length decoded < chunk_size then ChunkFault Terminated
      else if length buffer < chunk_cursor + chunk_size then ChunkFault OutOfBounds
      else ChunkDone (decoded @ substr buffer chunk_cursor chunk_size)
             (chunk_cursor + (chunk_size + 2)))"

function chunk_loop ::
    "simd_tier \<Rightarrow> nat \<Rightarrow> string \<Rightarrow> string \<Rightarrow> nat \<Rightarrow> chunk_outcome" where
  "chunk_loop t max_body buffer decoded chunk_cursor =
     (case find_crlf t buffer chunk_cursor of
        None \<Rightarrow>
          (case sv_find LF buffer chunk_cursor of
             Some _ \<Rightarrow> ChunkReturn PError
           | None \<Rightarrow> ChunkReturn PNeedMoreData)
      | Some line_end \<Rightarrow>
          (case chunk_size_line t (substr buffer chunk_cursor (line_end - chunk_cursor)) of
             None \<Rightarrow> ChunkReturn PError
           | Some chunk_size \<Rightarrow>
               if chunk_size = 0 then
                 (case last_chunk t buffer (line_end + 2) of
                    Inl st \<Rightarrow> ChunkReturn st
                  | Inr cursor \<Rightarrow> ChunkDone decoded cursor)
               else
                 (case take_chunk (Some max_body) buffer (line_end + 2) chunk_size decoded of
                    ChunkDone decoded cursor \<Rightarrow> chunk_loop t max_body buffer decoded cursor
                  | out \<Rightarrow> out)))"
  by pat_completeness auto
termination
proof (relation "measure (\<lambda>(t, max_body, buffer, decoded, cursor). length buffer - cursor)")
  fix t max_body buffer decoded chunk_cursor line_end chunk_size decoded' cursor
  assume a: "find_crlf t buffer chunk_cursor = Some line_end"
    "take_chunk (Some max_body) buffer (line_end + 2) chunk_size decoded = ChunkDone decoded' cursor"
  from a(1) have "chunk_cursor \<le> line_end" "line_end < length buffer"
    by (auto dest!: crlf_scan.bound simp: crlf_def)
  moreover from a(2) have "line_end < cursor"
    by (auto simp: take_chunk_def split: if_splits)
  ultimately show "((t, max_body, buffer, decoded', cursor), t, max_body, buffer, decoded, chunk_cursor)
      \<in> measure (\<lambda>(t, max_body, buffer, decoded, cursor). length buffer - cursor)"
    by auto
qed auto

declare chunk_loop.simps [simp del]

definition parse_body ::
    "simd_tier \<Rightarrow> protocol_limits \<Rightarrow> string \<Rightarrow> request \<Rightarrow> header_state \<Rightarrow> nat \<Rightarrow> request parse_outcome"
  where
  "parse_body t limits buffer req hs cursor =
     (if hs_is_chunked hs then
        (case chunk_loop t (max_body_size limits) buffer [] cursor of
           ChunkReturn st \<Rightarrow> Returned st req 0
         | ChunkFault f \<Rightarrow> Faulted f
         | ChunkDone decoded cursor \<Rightarrow> Returned PComplete (set_decoded_body decoded req) cursor)
      else if hs_has_content_length hs \<and> 0 < hs_content_length hs then
        if length buffer - cursor < hs_content_length hs then Returned PNeedMoreData req 0
        else Returned PComplete
               (req\<lparr>rq_body := substr buffer cursor (hs_content_length hs)\<rparr>)
               (cursor + hs_content_length hs)
      else Returned PComplete (req\<lparr>rq_body := []\<rparr>) cursor)"

text \<open>The reset of the per-request fields between the request line and the headers.\<close>

definition clear_header_fields :: "request \<Rightarrow> request" where
  "clear_header_fields req =
     (clear_params (req\<lparr>rq_headers := clear (rq_headers req)\<rparr>))
       \<lparr>rq_expect_continue := False, rq_upgrade_h2c := False, rq_websocket_upgrade := False,
        rq_sec_websocket_key := []\<rparr>"

definition parse ::
    "simd_tier \<Rightarrow> protocol_limits \<Rightarrow> string \<Rightarrow> request \<Rightarrow> request parse_outcome" where
  "parse t limits buffer req =
     (case find_crlf t buffer 0 of
        None \<Rightarrow> Returned PNeedMoreData req 0
      | Some req_line_end \<Rightarrow>
          (case parse_request_line t limits (take req_line_end buffer) req of
             Inl (st, req) \<Rightarrow> Returned st req 0
           | Inr req \<Rightarrow>
               (case header_loop t limits buffer req_line_end (req_line_end + 2)
                       (clear_header_fields req) initial_header_state of
                  Inl (st, req) \<Rightarrow> Returned st req 0
                | Inr (req, hs, cursor) \<Rightarrow>
                    if rq_version req = Http1_1 \<and> \<not> hs_has_host hs then Returned PError req 0
                    else if hs_has_content_length hs \<and> hs_has_transfer_encoding hs
                    then Returned PError req 0
                    else parse_body t limits buffer req hs cursor)))"

subsection \<open>The response parser\<close>

text \<open>
  \<^verbatim>\<open>std::from_chars\<close> on an unsigned type of \<open>w\<close> bits: the leading digits, an error when there are
  none or when they do not fit. Text after the digits is not an error.
\<close>

definition from_chars_uint :: "nat \<Rightarrow> string \<Rightarrow> nat option" where
  "from_chars_uint w s =
     (let ds = takeWhile is_digit s
      in if ds = [] \<or> 2 ^ w \<le> dec_val ds then None else Some (dec_val ds))"

definition response_version :: "string \<Rightarrow> response \<Rightarrow> response" where
  "response_version proto res =
     (if proto = ''HTTP/1.1'' then res\<lparr>rs_version := Http1_1\<rparr>
      else if proto = ''HTTP/1.0'' then res\<lparr>rs_version := Http1_0\<rparr>
      else if proto = ''HTTP/2.0'' \<or> proto = ''HTTP/2'' then res\<lparr>rs_version := Http2\<rparr>
      else if proto = ''HTTP/3.0'' \<or> proto = ''HTTP/3'' then res\<lparr>rs_version := Http3\<rparr>
      else res)"

definition parse_status_line ::
    "simd_tier \<Rightarrow> string \<Rightarrow> response \<Rightarrow> (parse_status \<times> response) + (response \<times> nat)" where
  "parse_status_line t line res =
     (case find_char t line SP 0 of
        None \<Rightarrow> Inl (PError, res)
      | Some sp1 \<Rightarrow>
          let res = response_version (take sp1 line) res;
              code_sv = (case find_char t line SP (sp1 + 1) of
                  None \<Rightarrow> drop (sp1 + 1) line
                | Some sp2 \<Rightarrow> substr line (sp1 + 1) (sp2 - sp1 - 1))
          in case from_chars_uint 16 code_sv of
               None \<Rightarrow> Inl (PError, res)
             | Some code \<Rightarrow>
                 if code < 100 \<or> 599 < code then Inl (PError, res)
                 else Inr (res\<lparr>rs_status := status_of_value code\<rparr>, code))"

record response_framing =
  rf_is_chunked :: bool
  rf_content_length :: nat
  rf_has_content_length :: bool

definition response_field ::
    "string \<Rightarrow> string \<Rightarrow> response_framing \<Rightarrow> response_framing option" where
  "response_field name value fr =
     (if length name = 14 then
        if map ascii_lower name = ''content-length'' then
          (case from_chars_uint 64 value of
             None \<Rightarrow> None
           | Some n \<Rightarrow> Some (fr\<lparr>rf_has_content_length := True, rf_content_length := n\<rparr>))
        else Some fr
      else if length name = 17 then
        if map ascii_lower name = ''transfer-encoding'' \<and> sv_find_str ''chunked'' value 0 \<noteq> None
        then Some (fr\<lparr>rf_is_chunked := True\<rparr>) else Some fr
      else Some fr)"

function response_header_loop ::
    "simd_tier \<Rightarrow> string \<Rightarrow> nat \<Rightarrow> nat \<Rightarrow> response \<Rightarrow> response_framing \<Rightarrow>
     (parse_status \<times> response) + (response \<times> response_framing)" where
  "response_header_loop t buffer headers_end cursor res fr =
     (if headers_end \<le> cursor then Inr (res, fr)
      else case find_crlf t buffer cursor of
             None \<Rightarrow> Inr (res, fr)
           | Some line_end \<Rightarrow>
               if headers_end < line_end then Inr (res, fr)
               else
                 let line = substr buffer cursor (line_end - cursor)
                 in if line = [] then response_header_loop t buffer headers_end (line_end + 2) res fr
                    else case find_char t line CHR '':'' 0 of
                      None \<Rightarrow> Inl (PError, res)
                    | Some colon \<Rightarrow>
                        if colon = 0 then Inl (PError, res)
                        else
                          let name = take colon line; value = trim_ows (drop (colon + 1) line);
                              res = res_header t name value res
                          in case response_field name value fr of
                               None \<Rightarrow> Inl (PError, res)
                             | Some fr \<Rightarrow>
                                 response_header_loop t buffer headers_end (line_end + 2) res fr)"
  by pat_completeness auto
termination
proof (relation "measure (\<lambda>(t, buffer, headers_end, cursor, res, fr). headers_end - cursor)")
  fix t buffer headers_end cursor line_end
  assume "\<not> headers_end \<le> cursor" "find_crlf t buffer cursor = Some line_end"
  then have "cursor \<le> line_end" "cursor < headers_end" by (auto dest: crlf_scan.bound)
  then show "\<And>res fr res' fr'. ((t, buffer, headers_end, line_end + 2, res', fr'),
      t, buffer, headers_end, cursor, res, fr)
    \<in> measure (\<lambda>(t, buffer, headers_end, cursor, res, fr). headers_end - cursor)"
    and "\<And>res fr. ((t, buffer, headers_end, line_end + 2, res, fr),
      t, buffer, headers_end, cursor, res, fr)
    \<in> measure (\<lambda>(t, buffer, headers_end, cursor, res, fr). headers_end - cursor)"
    by auto
qed auto

declare response_header_loop.simps [simp del]

definition response_size_line :: "string \<Rightarrow> nat option" where
  "response_size_line size_line =
     (case sv_find CHR '';'' size_line 0 of
        None \<Rightarrow> parse_hex_size size_line
      | Some semi \<Rightarrow>
          let ext = drop (semi + 1) size_line
          in if ext = [] \<or> 1024 < length ext then None else parse_hex_size (take semi size_line))"

definition response_last_chunk :: "string \<Rightarrow> nat \<Rightarrow> nat option" where
  "response_last_chunk buffer chunk_cursor =
     (case sv_find_str (crlf @ crlf) buffer chunk_cursor of
        Some trailer_end \<Rightarrow> Some (trailer_end + 4)
      | None \<Rightarrow>
          if chunk_cursor + 2 \<le> length buffer \<and>
             buffer ! chunk_cursor = CR \<and> buffer ! (chunk_cursor + 1) = LF
          then Some (chunk_cursor + 2) else None)"

function response_chunk_loop :: "string \<Rightarrow> string \<Rightarrow> nat \<Rightarrow> chunk_outcome" where
  "response_chunk_loop buffer decoded chunk_cursor =
     (case sv_find_str crlf buffer chunk_cursor of
        None \<Rightarrow> ChunkReturn PNeedMoreData
      | Some line_end \<Rightarrow>
          (case response_size_line (substr buffer chunk_cursor (line_end - chunk_cursor)) of
             None \<Rightarrow> ChunkReturn PError
           | Some chunk_size \<Rightarrow>
               if chunk_size = 0 then
                 (case response_last_chunk buffer (line_end + 2) of
                    None \<Rightarrow> ChunkReturn PNeedMoreData
                  | Some cursor \<Rightarrow> ChunkDone decoded cursor)
               else
                 (case take_chunk None buffer (line_end + 2) chunk_size decoded of
                    ChunkDone decoded cursor \<Rightarrow> response_chunk_loop buffer decoded cursor
                  | out \<Rightarrow> out)))"
  by pat_completeness auto
termination
proof (relation "measure (\<lambda>(buffer, decoded, cursor). length buffer - cursor)")
  fix buffer decoded chunk_cursor line_end chunk_size decoded' cursor
  assume a: "sv_find_str crlf buffer chunk_cursor = Some line_end"
    "take_chunk None buffer (line_end + 2) chunk_size decoded = ChunkDone decoded' cursor"
  from a(1) have "chunk_cursor \<le> line_end" "line_end < length buffer"
    by (auto simp: sv_find_str_Some_iff crlf_def)
  moreover from a(2) have "line_end < cursor"
    by (auto simp: take_chunk_def split: if_splits)
  ultimately show "((buffer, decoded', cursor), buffer, decoded, chunk_cursor)
      \<in> measure (\<lambda>(buffer, decoded, cursor). length buffer - cursor)"
    by auto
qed auto

declare response_chunk_loop.simps [simp del]

definition parse_response ::
    "simd_tier \<Rightarrow> string \<Rightarrow> response \<Rightarrow> response parse_outcome" where
  "parse_response t buffer res =
     (case find_crlf t buffer 0 of
        None \<Rightarrow> Returned PNeedMoreData res 0
      | Some status_line_end \<Rightarrow>
          (case parse_status_line t (take status_line_end buffer) res of
             Inl (st, res) \<Rightarrow> Returned st res 0
           | Inr (res, code) \<Rightarrow>
               (case find_double_crlf t buffer 0 of
                  None \<Rightarrow> Returned PNeedMoreData res 0
                | Some headers_end \<Rightarrow>
                    (case response_header_loop t buffer headers_end (status_line_end + 2) res
                            \<lparr>rf_is_chunked = False, rf_content_length = 0,
                             rf_has_content_length = False\<rparr> of
                       Inl (st, res) \<Rightarrow> Returned st res 0
                     | Inr (res, fr) \<Rightarrow>
                         let cursor = headers_end + 4
                         in if code = 204 \<or> code = 304 \<or> (100 \<le> code \<and> code < 200)
                            then Returned PComplete (set_body [] res) cursor
                            else if rf_is_chunked fr then
                              (case response_chunk_loop buffer [] cursor of
                                 ChunkReturn st \<Rightarrow> Returned st res 0
                               | ChunkFault f \<Rightarrow> Faulted f
                               | ChunkDone decoded cursor \<Rightarrow>
                                   Returned PComplete (set_body decoded res) cursor)
                            else if rf_has_content_length fr then
                              if length buffer - cursor < rf_content_length fr
                              then Returned PNeedMoreData res 0
                              else Returned PComplete
                                     (set_body (substr buffer cursor (rf_content_length fr)) res)
                                     (cursor + rf_content_length fr)
                            else Returned PComplete (set_body [] res) cursor))))"

end
