(* ===== verification/Http1_Parser_Proofs.thy ===== *)
theory Http1_Parser_Proofs
  imports Http1_Parser
begin

text \<open>
  What the HTTP/1.x request parser guarantees: exact chunk sizes, the same result in every SIMD
  tier, the framing invariant of the header section, bounds on what is consumed and stored, and
  when a chunked body can leave the buffer.
\<close>

unbundle bit_operations_syntax

subsection \<open>Chunk sizes are exact\<close>

definition hex_value :: "string \<Rightarrow> nat" where
  "hex_value s = foldl (\<lambda>n c. n * 16 + HEX_TABLE c) 0 s"

definition is_hex :: "char \<Rightarrow> bool" where
  "is_hex c \<longleftrightarrow> HEX_TABLE c \<noteq> 0xFF"

lemma HEX_TABLE_less: "is_hex c \<Longrightarrow> HEX_TABLE c < 16"
  by (auto simp: is_hex_def HEX_TABLE_def less_eq_char_def u8_def split: if_splits)

lemma nibble_or:
  assumes "v < 16"
  shows "push_bit 4 w OR of_nat v = (w :: u64) * 16 + of_nat v"
proof -
  have "push_bit 4 w AND of_nat v = 0"
  proof (rule bit_word_eqI)
    fix n assume "n < LENGTH(64)"
    have "\<not> bit v n" if "4 \<le> n"
    proof -
      have "v < 2 ^ n" using assms that power_increasing [of 4 n "2 :: nat"] by simp
      then show ?thesis by (simp add: bit_iff_odd)
    qed
    then show "bit (push_bit 4 w AND of_nat v) n = bit (0 :: u64) n"
      by (auto simp: bit_and_iff bit_push_bit_iff bit_of_nat_iff)
  qed
  then have "push_bit 4 w OR of_nat v = push_bit 4 w + of_nat v"
    by (simp add: disjunctive_add_eq_or)
  then show ?thesis by (simp add: push_bit_eq_mult)
qed

lemma hex_loop_eq:
  "hex_loop w s = (if list_all is_hex s then Some (foldl (\<lambda>n c. n * 16 + of_nat (HEX_TABLE c)) w s) else None)"
proof (induction s arbitrary: w)
  case (Cons c s)
  then show ?case
    using nibble_or [OF HEX_TABLE_less, of c w] by (auto simp: is_hex_def Let_def)
qed simp

lemma foldl_hex_of_nat:
  "foldl (\<lambda>n c. n * 16 + of_nat (HEX_TABLE c)) (of_nat a) s =
    (of_nat (foldl (\<lambda>n c. n * 16 + HEX_TABLE c) a s) :: u64)"
proof (induction s arbitrary: a)
  case (Cons c s)
  show ?case using Cons [of "a * 16 + HEX_TABLE c"] by simp
qed simp

lemma hex_value_bound: "list_all is_hex s \<Longrightarrow> hex_value s < 16 ^ length s"
proof (induction s rule: rev_induct)
  case (snoc c s)
  then have "hex_value s < 16 ^ length s" "HEX_TABLE c < 16" by (auto simp: HEX_TABLE_less)
  then show ?case by (simp add: hex_value_def)
qed (simp add: hex_value_def)

lemma parse_hex_size_iff:
  "parse_hex_size s = Some n \<longleftrightarrow> s \<noteq> [] \<and> length s \<le> 16 \<and> list_all is_hex s \<and> n = hex_value s"
proof -
  have "unat (of_nat (hex_value s) :: u64) = hex_value s" if "list_all is_hex s" "length s \<le> 16"
  proof -
    have "hex_value s < 16 ^ length s" using that by (simp add: hex_value_bound)
    also have "\<dots> \<le> 16 ^ 16" using that by (intro power_increasing) auto
    finally show ?thesis by (simp add: unat_of_nat)
  qed
  then show ?thesis
    using foldl_hex_of_nat [of 0 s]
    by (auto simp: parse_hex_size_def hex_loop_eq hex_value_def)
qed

lemma parse_hex_size_less: "parse_hex_size s = Some n \<Longrightarrow> n < 2 ^ 64"
  using hex_value_bound [of s] power_increasing [of "length s" 16 "16 :: nat"]
  by (auto simp: parse_hex_size_iff)

subsection \<open>Independence of the SIMD tier\<close>

lemma name_flag_tier: "name_flag t n = name_flag Scalar n"
  by (simp add: name_flag_def scan_simps)

lemma add_tier: "add t n v m = add Scalar n v m"
  by (simp add: add_def update_flags_def name_flag_tier [of t])

lemma is_chunked_coding_tier: "is_chunked_coding t = is_chunked_coding Scalar"
  by (intro ext) (simp add: is_chunked_coding_def scan_simps)

lemma transfer_encoding_check_tier: "transfer_encoding_check t = transfer_encoding_check Scalar"
  by (intro ext) (simp only: transfer_encoding_check_def is_chunked_coding_tier [of t])

lemma header_field_tier: "header_field t = header_field Scalar"
  by (intro ext) (simp only: header_field_def iequals_correct transfer_encoding_check_tier [of t])

lemma header_line_tier: "header_line t = header_line Scalar"
  unfolding header_line_def scan_simps ..

lemma header_loop_tier:
  "header_loop t limits buffer e cursor req hs = header_loop Scalar limits buffer e cursor req hs"
proof (induction t limits buffer e cursor req hs rule: header_loop.induct)
  case (1 t limits buffer e cursor req hs)
  show ?case
    unfolding header_loop.simps [of t limits buffer e cursor req hs]
      header_loop.simps [of Scalar limits buffer e cursor req hs]
      header_field_tier [of t] header_line_tier [of t] add_tier [of t] find_crlf_correct
    using 1
    unfolding header_field_tier [of t] header_line_tier [of t] add_tier [of t] find_crlf_correct Let_def
    by (auto split: option.split sum.split prod.split)
qed

lemma parse_request_line_tier: "parse_request_line t = parse_request_line Scalar"
  unfolding parse_request_line_def normalize_target_def set_target_def scan_simps ..

lemma chunk_size_line_tier: "chunk_size_line t = chunk_size_line Scalar"
  unfolding chunk_size_line_def scan_simps ..

lemma last_chunk_tier: "last_chunk t = last_chunk Scalar"
  unfolding last_chunk_def scan_simps ..

lemma chunk_loop_tier: "chunk_loop t mx buffer d cursor = chunk_loop Scalar mx buffer d cursor"
proof (induction t mx buffer d cursor rule: chunk_loop.induct)
  case (1 t mx buffer d cursor)
  show ?case
    unfolding chunk_loop.simps [of t mx buffer d cursor] chunk_loop.simps [of Scalar mx buffer d cursor]
      chunk_size_line_tier [of t] last_chunk_tier [of t] find_crlf_correct
    using 1
    unfolding chunk_size_line_tier [of t] last_chunk_tier [of t] find_crlf_correct
    by (auto split: option.split chunk_outcome.split sum.split)
qed

lemma parse_tier: "parse t limits buffer req = parse Scalar limits buffer req"
  unfolding parse_def parse_body_def find_crlf_correct parse_request_line_tier [of t]
    header_loop_tier [of t] chunk_loop_tier [of t] ..

subsection \<open>The framing invariant\<close>

definition name_count :: "string \<Rightarrow> request \<Rightarrow> nat" where
  "name_count n req = length (filter (\<lambda>h. same_name (hname h) n) (entries (rq_headers req)))"

text \<open>An entry as the parser stores it: a token as name, a value without control characters.\<close>

definition clean_entry :: "header_entry \<Rightarrow> bool" where
  "clean_entry h \<longleftrightarrow> hname h \<noteq> [] \<and> list_all is_tchar (hname h) \<and> list_all value_char (hvalue h)"

definition framing_inv :: "protocol_limits \<Rightarrow> request \<Rightarrow> header_state \<Rightarrow> bool" where
  "framing_inv limits req hs \<longleftrightarrow>
     compact (rq_headers req) \<and> hm_inv (rq_headers req) \<and>
     name_count ''Host'' req = of_bool (hs_has_host hs) \<and>
     name_count ''Content-Length'' req = of_bool (hs_has_content_length hs) \<and>
     name_count ''Transfer-Encoding'' req = of_bool (hs_has_transfer_encoding hs) \<and>
     hs_is_chunked hs = hs_has_transfer_encoding hs \<and>
     hs_content_length hs \<le> max_body_size limits \<and>
     (if hs_has_content_length hs
      then \<exists>h \<in> set (entries (rq_headers req)). same_name (hname h) ''Content-Length'' \<and>
             parse_valid_content_length (hvalue h) = Some (hs_content_length hs)
      else hs_content_length hs = 0) \<and>
     header_count (rq_headers req) \<le> max_header_count limits \<and>
     list_all clean_entry (entries (rq_headers req))"

lemma header_line_Some:
  assumes "header_line t line = Some (n, v)"
  shows "clean_entry \<lparr>hname = n, hvalue = v\<rparr>"
proof -
  have "n \<noteq> []" "list_all is_tchar n" "\<exists>raw. list_all value_char raw \<and> v = trim_ows raw"
    using assms
    by (auto simp: header_line_def Let_def validate_header_value_correct validate_tchars_def
        find_char_correct sv_find_Some_iff split: option.splits if_splits)
  then obtain raw where raw: "n \<noteq> []" "list_all is_tchar n" "list_all value_char raw" "v = trim_ows raw"
    by auto
  have "set v \<subseteq> set raw"
    unfolding raw(4) trim_ows_def using set_trim_back set_trim_front by fastforce
  with raw show ?thesis by (auto simp: clean_entry_def list_all_iff)
qed

text \<open>Only the field's own flags change, and each of the three framing fields is accepted once.\<close>

lemma header_field_frame:
  assumes "header_field t limits n v req hs = Inr (req', hs')"
  shows "rq_headers req' = rq_headers req" "rq_version req' = rq_version req"
    "rq_method req' = rq_method req" "rq_path req' = rq_path req" "rq_query req' = rq_query req"
  using assms by (auto simp: header_field_def split: if_splits option.splits)

lemma header_field_host:
  assumes "header_field t limits n v req hs = Inr (req', hs')"
  shows "same_name n ''Host'' \<Longrightarrow> \<not> hs_has_host hs \<and> hs_has_host hs'"
    and "\<not> same_name n ''Host'' \<Longrightarrow> hs_has_host hs' = hs_has_host hs"
  using assms same_name_length [of n "''Host''"]
  by (auto simp: header_field_def iequals_same_name split: if_splits option.splits)

lemma header_field_content_length:
  assumes "header_field t limits n v req hs = Inr (req', hs')"
  shows "same_name n ''Content-Length'' \<Longrightarrow> \<not> hs_has_content_length hs \<and> hs_has_content_length hs'
      \<and> parse_valid_content_length v = Some (hs_content_length hs')
      \<and> hs_content_length hs' \<le> max_body_size limits"
    and "\<not> same_name n ''Content-Length'' \<Longrightarrow> hs_has_content_length hs' = hs_has_content_length hs
      \<and> hs_content_length hs' = hs_content_length hs"
  using assms same_name_length [of n "''Content-Length''"]
  by (auto simp: header_field_def iequals_same_name split: if_splits option.splits)

lemma header_field_te:
  assumes "header_field t limits n v req hs = Inr (req', hs')"
  shows "same_name n ''Transfer-Encoding'' \<Longrightarrow> \<not> hs_has_transfer_encoding hs \<and>
      hs_has_transfer_encoding hs' \<and> hs_is_chunked hs'"
    and "\<not> same_name n ''Transfer-Encoding'' \<Longrightarrow>
      hs_has_transfer_encoding hs' = hs_has_transfer_encoding hs \<and> hs_is_chunked hs' = hs_is_chunked hs"
  using assms same_name_length [of n "''Transfer-Encoding''"]
  by (auto simp: header_field_def iequals_same_name split: if_splits option.splits)


lemma name_count_add:
  assumes "compact (rq_headers req)"
  shows "name_count k (req\<lparr>rq_headers := add t n v (rq_headers req)\<rparr>) =
    name_count k req + of_bool (same_name n k)"
  by (simp add: name_count_def add_compact [OF assms])

lemma name_count_headers: "rq_headers r = rq_headers r' \<Longrightarrow> name_count k r = name_count k r'"
  by (simp add: name_count_def)

lemma header_step:
  assumes inv: "framing_inv limits req hs"
    and line: "header_line t line = Some (n, v)"
    and room: "header_count (rq_headers req) < max_header_count limits"
    and field: "header_field t limits n v (req\<lparr>rq_headers := add t n v (rq_headers req)\<rparr>) hs =
      Inr (req', hs')"
  shows "framing_inv limits req' hs'"
proof -
  let ?r = "req\<lparr>rq_headers := add t n v (rq_headers req)\<rparr>"
  note i = inv [unfolded framing_inv_def]
  from i have comp: "compact (rq_headers req)" and hm: "hm_inv (rq_headers req)" by auto
  note cnt = name_count_headers [OF header_field_frame(1) [OF field]] name_count_add [OF comp]
  note ents = add_compact [OF comp, of t n v]
  have "header_count (rq_headers req') = Suc (header_count (rq_headers req))"
    by (simp add: header_field_frame [OF field] header_count_eq ents)
  moreover have "list_all clean_entry (entries (rq_headers req'))"
    using i header_line_Some [OF line] by (simp add: header_field_frame [OF field] ents)
  moreover have "name_count ''Host'' req' = of_bool (hs_has_host hs')"
    using i header_field_host [OF field] by (cases "same_name n ''Host''") (simp_all add: cnt)
  moreover have "name_count ''Content-Length'' req' = of_bool (hs_has_content_length hs')"
    using i header_field_content_length [OF field]
    by (cases "same_name n ''Content-Length''") (simp_all add: cnt)
  moreover have "name_count ''Transfer-Encoding'' req' = of_bool (hs_has_transfer_encoding hs')"
    using i header_field_te [OF field]
    by (cases "same_name n ''Transfer-Encoding''") (simp_all add: cnt)
  moreover have "hs_is_chunked hs' = hs_has_transfer_encoding hs'"
    using i header_field_te [OF field] by (cases "same_name n ''Transfer-Encoding''") simp_all
  moreover have "hs_content_length hs' \<le> max_body_size limits"
    using i header_field_content_length [OF field]
    by (cases "same_name n ''Content-Length''") simp_all
  moreover have "if hs_has_content_length hs'
      then \<exists>h \<in> set (entries (rq_headers req')). same_name (hname h) ''Content-Length'' \<and>
             parse_valid_content_length (hvalue h) = Some (hs_content_length hs')
      else hs_content_length hs' = 0"
    using i header_field_content_length [OF field]
    by (cases "same_name n ''Content-Length''")
      (auto simp: header_field_frame [OF field] ents split: if_splits)
  moreover have "compact (rq_headers req')" "hm_inv (rq_headers req')"
    using ents(1) hm by (simp_all add: header_field_frame [OF field] inv_add)
  ultimately show ?thesis using room by (simp add: framing_inv_def)
qed

text \<open>Success of the header loop, by induction on its recursion.\<close>

lemma header_loop_cases:
  assumes "header_loop t limits buffer e cursor req hs = Inr (req', hs', c')"
  obtains (blank) "cursor + 2 \<le> length buffer" "substr buffer cursor 2 = crlf"
      "req' = req" "hs' = hs" "c' = cursor + 2"
      "header_count (rq_headers req) < max_header_count limits"
      "cursor - e \<le> max_headers_size limits"
    | (field) header_end n v req1 hs1 where
      "find_crlf t buffer cursor = Some header_end" "cursor \<le> header_end"
      "header_end + 2 \<le> length buffer"
      "header_count (rq_headers req) < max_header_count limits"
      "header_line t (substr buffer cursor (header_end - cursor)) = Some (n, v)"
      "header_field t limits n v (req\<lparr>rq_headers := add t n v (rq_headers req)\<rparr>) hs = Inr (req1, hs1)"
      "header_loop t limits buffer e (header_end + 2) req1 hs1 = Inr (req', hs', c')"
proof (cases "cursor + 2 \<le> length buffer \<and> buffer ! cursor = CR \<and> buffer ! (cursor + 1) = LF")
  case True
  then have "substr buffer cursor 2 = crlf"
    by (auto simp: substr_def crlf_def numeral_2_eq_2 take_Suc_conv_app_nth)
  with True assms show ?thesis
    by (intro blank) (simp_all add: header_loop.simps [of t limits buffer e cursor] split: if_splits)
next
  case False
  have eq: "header_loop t limits buffer e cursor req hs = Inr (req', hs', c')" by (rule assms)
  obtain header_end where f: "find_crlf t buffer cursor = Some header_end"
    using eq False by (auto simp: header_loop.simps [of t limits buffer e cursor] split: if_splits option.splits)
  obtain n v where l: "header_line t (substr buffer cursor (header_end - cursor)) = Some (n, v)"
    using eq False f by (auto simp: header_loop.simps [of t limits buffer e cursor] split: if_splits option.splits)
  obtain req1 hs1 where h: "header_field t limits n v (req\<lparr>rq_headers := add t n v (rq_headers req)\<rparr>) hs = Inr (req1, hs1)"
    using eq False f l by (auto simp: header_loop.simps [of t limits buffer e cursor] Let_def split: if_splits sum.splits)
  show ?thesis
    by (rule field [OF f _ _ _ l h])
      (use crlf_scan.bound [OF f] eq False f l h in
        \<open>auto simp: header_loop.simps [of t limits buffer e cursor] crlf_def split: if_splits\<close>)
qed

lemma header_loop_inv:
  assumes "header_loop t limits buffer e cursor req hs = Inr (req', hs', c')"
    and "framing_inv limits req hs"
  shows "framing_inv limits req' hs' \<and> cursor < c' \<and> c' \<le> length buffer \<and>
    header_count (rq_headers req') < max_header_count limits \<and>
    rq_version req' = rq_version req \<and> rq_method req' = rq_method req \<and>
    rq_path req' = rq_path req \<and> rq_query req' = rq_query req"
  using assms
proof (induction "length buffer - cursor" arbitrary: cursor req hs rule: less_induct)
  case less
  from less.prems(1) show ?case
  proof (cases rule: header_loop_cases)
    case blank
    with less.prems(2) show ?thesis by simp
  next
    case (field header_end n v req1 hs1)
    have "framing_inv limits req1 hs1"
      by (rule header_step [OF less.prems(2) field(5,4,6)])
    moreover have "length buffer - (header_end + 2) < length buffer - cursor"
      using field(2,3) by linarith
    ultimately show ?thesis
      using less.hyps [OF _ field(7)] field(2) header_field_frame [OF field(6)] by simp
  qed
qed


subsection \<open>The request line\<close>

lemma normalize_target_length:
  "normalize_target t m p = Some p' \<Longrightarrow> length p' \<le> length p"
  by (auto simp: normalize_target_def Let_def starts_with_nth split: if_splits option.splits)

lemma set_target_fields:
  "rq_headers (set_target t p req) = rq_headers req"
  "rq_method (set_target t p req) = rq_method req"
  "p = rq_path (set_target t p req) \<and> rq_query (set_target t p req) = [] \<or>
   p = rq_path (set_target t p req) @ CHR ''?'' # rq_query (set_target t p req)"
  "CHR ''?'' \<notin> set (rq_path (set_target t p req))"
proof -
  show "rq_headers (set_target t p req) = rq_headers req" "rq_method (set_target t p req) = rq_method req"
    by (auto simp: set_target_def split: option.split)
  show "p = rq_path (set_target t p req) \<and> rq_query (set_target t p req) = [] \<or>
   p = rq_path (set_target t p req) @ CHR ''?'' # rq_query (set_target t p req)"
    by (cases "sv_find CHR ''?'' p 0")
      (auto simp: set_target_def find_char_correct dest: sv_find_split)
  show "CHR ''?'' \<notin> set (rq_path (set_target t p req))"
    by (auto simp: set_target_def find_char_correct sv_find_Some_iff sv_find_None_iff in_set_conv_nth
        split: option.split)
qed

definition request_target :: "request \<Rightarrow> string \<Rightarrow> bool" where
  "request_target req p \<longleftrightarrow>
     p = rq_path req \<and> rq_query req = [] \<or> p = rq_path req @ CHR ''?'' # rq_query req"

lemma parse_request_line_Inr:
  assumes "parse_request_line t limits line req = Inr req'"
  shows "rq_headers req' = rq_headers req" "rq_method req' \<noteq> UNKNOWN"
    "rq_version req' = Http1_1 \<or> rq_version req' = Http1_0"
    "\<exists>p. request_target req' p \<and> is_valid_request_target p \<and> list_all uri_char p \<and>
      length p \<le> max_uri_length limits"
proof -
  obtain sp1 sp2 m p v where
    m: "m \<noteq> UNKNOWN" and
    p: "normalize_target t m (substr line (sp1 + 1) (sp2 - (sp1 + 1))) = Some p"
      "length (substr line (sp1 + 1) (sp2 - (sp1 + 1))) \<le> max_uri_length limits"
      "is_valid_request_target p" "list_all uri_char p" and
    v: "parse_version (drop (sp2 + 1) line) = Some v" and
    req': "req' = (set_target t p (req\<lparr>rq_method := m\<rparr>))\<lparr>rq_version := v\<rparr>"
    using assms unfolding parse_request_line_def Let_def validate_uri_chars_correct
    by (auto simp del: length_substr split: option.splits if_splits)
  show "rq_headers req' = rq_headers req" "rq_method req' \<noteq> UNKNOWN"
    using m by (simp_all add: req' set_target_fields)
  show "rq_version req' = Http1_1 \<or> rq_version req' = Http1_0"
    using v by (auto simp: req' parse_version_def split: if_splits)
  have "request_target req' p"
    using set_target_fields(3) [of p t "req\<lparr>rq_method := m\<rparr>"] by (simp add: request_target_def req')
  moreover have "length p \<le> max_uri_length limits"
    by (rule le_trans [OF normalize_target_length [OF p(1)] p(2)])
  ultimately show "\<exists>p. request_target req' p \<and> is_valid_request_target p \<and> list_all uri_char p \<and>
      length p \<le> max_uri_length limits"
    using p(3,4) by blast
qed


subsection \<open>The body\<close>

lemma last_chunk_bound:
  "last_chunk t buffer c = Inr c' \<Longrightarrow> c < c' \<and> c' \<le> length buffer"
  by (auto simp: last_chunk_def crlf_def split: if_splits option.splits dest!: dcrlf_scan.bound)

lemma take_chunk_Done:
  assumes "take_chunk (Some mx) buffer c sz d = ChunkDone d' c'"
    and "length buffer < 2 ^ 63" "length d \<le> length buffer" "sz < 2 ^ 64" "c \<le> length buffer"
  shows "d' = d @ substr buffer c sz" "c' = c + sz + 2" "c' \<le> length buffer"
    "substr buffer (c + sz) 2 = crlf" "length d' \<le> mx"
proof -
  from assms(1) have a: "d' = d @ substr buffer c sz" "c' = c + sz + 2"
    "\<not> string_max_size - length d < sz" "\<not> length buffer < size_wrap (c + sz + 2)"
    "buffer ! size_wrap (c + sz) = CR" "buffer ! size_wrap (c + sz + 1) = LF"
    "\<not> mx < size_wrap (length d + sz)" "c + sz \<le> length buffer"
    by (auto simp: take_chunk_def split: if_splits)
  have "sz < 2 ^ 63" using a(3) assms(2,3) by (simp add: string_max_size_def)
  then have w: "size_wrap (c + sz + 2) = c + sz + 2" "size_wrap (c + sz) = c + sz"
    "size_wrap (c + sz + 1) = c + sz + 1" "size_wrap (length d + sz) = length d + sz"
    using assms(2,3) a(8) by auto
  show "d' = d @ substr buffer c sz" "c' = c + sz + 2" "c' \<le> length buffer"
    using a w by auto
  show "length d' \<le> mx" using a w by (simp add: min_def)
  show "substr buffer (c + sz) 2 = crlf"
    using a w by (auto simp: substr_def crlf_def numeral_2_eq_2 take_Suc_conv_app_nth)
qed

text \<open>
  A chunk leaves the buffer or kills the process only when its size makes the \<^verbatim>\<open>size_t\<close> sum wrap.
\<close>

lemma take_chunk_Fault:
  assumes "take_chunk limit buffer c sz d = ChunkFault f"
    and "length buffer < 2 ^ 62" "length d \<le> length buffer"
  shows "2 ^ 64 \<le> c + sz + 2"
proof (rule ccontr)
  assume "\<not> 2 ^ 64 \<le> c + sz + 2"
  then have w: "size_wrap (c + sz + 2) = c + sz + 2" "size_wrap (c + sz) = c + sz"
    "size_wrap (c + sz + 1) = c + sz + 1" by auto
  have "sz \<le> string_max_size - length d" if "c + sz + 2 \<le> length buffer"
    using that assms(2,3) by (simp add: string_max_size_def)
  with assms(1) w show False by (auto simp: take_chunk_def split: if_splits)
qed

lemma chunk_loop_Done:
  assumes "chunk_loop t mx buffer d c = ChunkDone d' c'"
    and "length buffer < 2 ^ 63" "length d \<le> c" "length d \<le> mx" "c \<le> length buffer"
  shows "c < c' \<and> c' \<le> length buffer \<and> length d' \<le> mx \<and> length d' \<le> c'"
  using assms
proof (induction t mx buffer d c rule: chunk_loop.induct)
  case (1 t mx buffer d c)
  obtain e sz where e: "find_crlf t buffer c = Some e"
      "chunk_size_line t (substr buffer c (e - c)) = Some sz"
    using 1(2) by (subst (asm) chunk_loop.simps) (auto split: option.splits)
  from crlf_scan.bound [OF e(1)] have b: "c \<le> e" "e + 2 \<le> length buffer" by (auto simp: crlf_def)
  have sz: "sz < 2 ^ 64"
    using e(2) by (auto simp: chunk_size_line_def Let_def dest!: parse_hex_size_less split: option.splits if_splits)
  show ?case
  proof (cases "sz = 0")
    case True
    then have "last_chunk t buffer (e + 2) = Inr c'" "d' = d"
      using 1(2) e by (subst (asm) chunk_loop.simps, auto split: sum.splits)+
    with last_chunk_bound [of t buffer "e + 2" c'] b 1(4,5) show ?thesis by auto
  next
    case False
    obtain d1 c1 where tk: "take_chunk (Some mx) buffer (e + 2) sz d = ChunkDone d1 c1"
      and rec: "chunk_loop t mx buffer d1 c1 = ChunkDone d' c'"
      using 1(2) e False by (subst (asm) chunk_loop.simps) (auto split: chunk_outcome.splits)
    note td = take_chunk_Done [OF tk 1(3) _ sz b(2)]
    have d: "length d \<le> length buffer" using 1(4,6) by simp
    have "length d1 \<le> c1" using td(1,2) [OF d] 1(4) b by simp
    then have "c1 < c' \<and> c' \<le> length buffer \<and> length d' \<le> mx \<and> length d' \<le> c'"
      by (intro 1(1) [OF e False tk rec 1(3)]) (use td [OF d] in auto)
    then show ?thesis using td(2) [OF d] b by auto
  qed
qed


subsection \<open>Complete requests\<close>

lemma framing_inv_start: "framing_inv limits (clear_header_fields req) initial_header_state"
  by (simp add: framing_inv_def clear_header_fields_def clear_params_def name_count_def clear_def
      inv_clear [unfolded clear_def] compact_def initial_header_state_def header_count_def entries_def)

lemma framing_inv_headers:
  "rq_headers r = rq_headers r' \<Longrightarrow> framing_inv limits r hs = framing_inv limits r' hs"
  by (simp add: framing_inv_def name_count_def)

lemma request_target_cong:
  "rq_path r = rq_path r' \<Longrightarrow> rq_query r = rq_query r' \<Longrightarrow> request_target r p = request_target r' p"
  by (simp add: request_target_def)

text \<open>Early returns never report completion.\<close>

lemma header_field_not_Complete: "header_field t l n v r h \<noteq> Inl (PComplete, r')"
  by (auto simp: header_field_def transfer_encoding_check_def Let_def split: if_splits option.splits)

lemma header_loop_not_Complete: "header_loop t l b e c r h \<noteq> Inl (PComplete, r')"
proof (induction "length b - c" arbitrary: c r h rule: less_induct)
  case less
  have rec: "header_loop t l b e (x + 2) r1 h1 \<noteq> Inl (PComplete, r')"
    if "find_crlf t b c = Some x" for x r1 h1
    by (rule less.hyps) (use crlf_scan.bound [OF that] in \<open>auto simp: crlf_def\<close>)
  show ?case
    by (subst header_loop.simps)
      (auto simp: Let_def header_field_not_Complete simp del: add_2_eq_Suc' dest: rec
        split: option.splits sum.splits)
qed

lemma chunk_loop_not_Complete: "chunk_loop t mx b d c \<noteq> ChunkReturn PComplete"
proof (induction t mx b d c rule: chunk_loop.induct)
  case (1 t mx b d c)
  have "take_chunk (Some mx) b c' sz d \<noteq> ChunkReturn PComplete" for c' sz
    by (auto simp: take_chunk_def)
  moreover have "last_chunk t b c' \<noteq> Inl PComplete" for c'
    by (auto simp: last_chunk_def split: option.splits)
  ultimately show ?case
    using 1 by (subst chunk_loop.simps) (auto split: option.splits sum.splits chunk_outcome.splits)
qed

text \<open>What the phases of a parse that does not return early have established.\<close>

lemma parse_phases:
  assumes "parse t limits buffer req = out"
    and "out \<noteq> Returned PNeedMoreData req 0"
    and "\<And>st r. st \<noteq> PComplete \<Longrightarrow> out \<noteq> Returned st r 0"
  obtains e req1 req2 hs c where
    "find_crlf t buffer 0 = Some e" "parse_request_line t limits (take e buffer) req = Inr req1"
    "header_loop t limits buffer e (e + 2) (clear_header_fields req1) initial_header_state = Inr (req2, hs, c)"
    "\<not> (rq_version req2 = Http1_1 \<and> \<not> hs_has_host hs)"
    "\<not> (hs_has_content_length hs \<and> hs_has_transfer_encoding hs)"
    "parse_body t limits buffer req2 hs c = out"
proof -
  obtain e where e: "find_crlf t buffer 0 = Some e"
    using assms by (cases "find_crlf t buffer 0") (auto simp: parse_def)
  have stop: "st = PComplete" if "parse_request_line t limits (take e buffer) req = Inl (st, r)" for st r
    using assms(1,3) e that by (auto simp: parse_def)
  have inl: "\<And>r. parse_request_line t limits (take e buffer) req \<noteq> Inl (PComplete, r)"
    unfolding parse_request_line_def Let_def by (auto split: option.splits if_splits)
  obtain req1 where r1: "parse_request_line t limits (take e buffer) req = Inr req1"
    using stop inl by (cases "parse_request_line t limits (take e buffer) req") auto
  obtain req2 hs c where h: "header_loop t limits buffer e (e + 2) (clear_header_fields req1)
      initial_header_state = Inr (req2, hs, c)"
  proof (cases "header_loop t limits buffer e (e + 2) (clear_header_fields req1) initial_header_state")
    case (Inl x)
    obtain st r where x: "x = (st, r)" by (cases x)
    have "out = Returned st r 0" using assms(1) e r1 Inl x by (simp add: parse_def)
    then have "st = PComplete" using assms(3) by blast
    with Inl x header_loop_not_Complete show ?thesis by blast
  next
    case (Inr y)
    then show ?thesis using that by (cases y) auto
  qed
  show ?thesis
    by (rule that [OF e r1 h]) (use assms e r1 h in \<open>auto simp: parse_def split: if_splits\<close>)
qed

lemma parse_body_Complete:
  assumes "parse_body t limits buffer req hs c = Returned PComplete req' n"
    and "length buffer < 2 ^ 63" "c \<le> length buffer" "hs_content_length hs \<le> max_body_size limits"
  shows "c \<le> n" "n \<le> length buffer" "length (rq_body req') \<le> max_body_size limits"
    "rq_headers req' = rq_headers req" "rq_version req' = rq_version req" "rq_method req' = rq_method req"
    "rq_path req' = rq_path req" "rq_query req' = rq_query req"
proof -
  have "c \<le> n \<and> n \<le> length buffer \<and> length (rq_body req') \<le> max_body_size limits"
  proof (cases "hs_is_chunked hs")
    case True
    then obtain d where d: "chunk_loop t (max_body_size limits) buffer [] c = ChunkDone d n"
      "req' = set_decoded_body d req"
      using assms(1) chunk_loop_not_Complete by (auto simp: parse_body_def split: chunk_outcome.splits)
    from chunk_loop_Done [OF d(1) assms(2)] assms(3) show ?thesis
      by (simp add: d(2) set_decoded_body_def)
  next
    case False
    with assms show ?thesis by (auto simp: parse_body_def split: if_splits)
  qed
  then show "c \<le> n" "n \<le> length buffer" "length (rq_body req') \<le> max_body_size limits" by auto
  show "rq_headers req' = rq_headers req" "rq_version req' = rq_version req" "rq_method req' = rq_method req"
    "rq_path req' = rq_path req" "rq_query req' = rq_query req"
    using assms(1)
    by (auto simp: parse_body_def set_decoded_body_def split: if_splits chunk_outcome.splits)
qed

lemma parse_Complete:
  assumes "parse t limits buffer req = Returned PComplete req' n" and "length buffer < 2 ^ 63"
  obtains hs p where "framing_inv limits req' hs"
    "rq_version req' = Http1_1 \<Longrightarrow> hs_has_host hs"
    "\<not> (hs_has_content_length hs \<and> hs_has_transfer_encoding hs)"
    "0 < n" "n \<le> length buffer" "length (rq_body req') \<le> max_body_size limits"
    "rq_method req' \<noteq> UNKNOWN" "rq_version req' = Http1_1 \<or> rq_version req' = Http1_0"
    "request_target req' p" "is_valid_request_target p" "list_all uri_char p"
    "length p \<le> max_uri_length limits"
proof -
  from assms(1) obtain e req1 req2 hs c where ph:
    "find_crlf t buffer 0 = Some e" "parse_request_line t limits (take e buffer) req = Inr req1"
    "header_loop t limits buffer e (e + 2) (clear_header_fields req1) initial_header_state = Inr (req2, hs, c)"
    "\<not> (rq_version req2 = Http1_1 \<and> \<not> hs_has_host hs)"
    "\<not> (hs_has_content_length hs \<and> hs_has_transfer_encoding hs)"
    "parse_body t limits buffer req2 hs c = Returned PComplete req' n"
    by (rule parse_phases) auto
  note hl = header_loop_inv [OF ph(3) framing_inv_start]
  have c: "c \<le> length buffer" and cl: "hs_content_length hs \<le> max_body_size limits"
    using hl by (auto simp: framing_inv_def)
  note bd = parse_body_Complete [OF ph(6) assms(2) c cl]
  note rl = parse_request_line_Inr [OF ph(2)]
  have same: "rq_path req' = rq_path req1" "rq_query req' = rq_query req1"
    "rq_version req' = rq_version req1" "rq_method req' = rq_method req1"
    using bd hl by (simp_all add: clear_header_fields_def clear_params_def)
  from rl(4) obtain p where p: "request_target req1 p" "is_valid_request_target p" "list_all uri_char p"
    "length p \<le> max_uri_length limits" by blast
  show ?thesis
  proof (rule that [of hs p])
    show "framing_inv limits req' hs" using hl framing_inv_headers [OF bd(4)] by simp
    show "request_target req' p" using p(1) request_target_cong [OF same(1,2)] by simp
  qed (use ph hl bd rl p same in auto)
qed


subsection \<open>More data does not change a complete request\<close>

lemma substr_append: "c + n \<le> length b \<Longrightarrow> substr (b @ u) c n = substr b c n"
  by (simp add: substr_def)

lemma header_loop_append:
  assumes "header_loop t limits buffer e cursor req hs = Inr out"
  shows "header_loop t limits (buffer @ u) e cursor req hs = Inr out"
  using assms
proof (induction "length buffer - cursor" arbitrary: cursor req hs rule: less_induct)
  case less
  obtain req' hs' c' where out: "out = (req', hs', c')" by (cases out)
  from less.prems [unfolded out] show ?case
  proof (cases rule: header_loop_cases)
    case blank
    then have "buffer ! cursor = CR" "buffer ! (cursor + 1) = LF"
      by (auto simp: substr_def crlf_def numeral_2_eq_2 take_Suc_conv_app_nth)
    with blank out show ?thesis by (subst header_loop.simps) (simp add: nth_append)
  next
    case (field header_end n v req1 hs1)
    have lt: "length buffer - (header_end + 2) < length buffer - cursor" using field(2,3) by linarith
    have rec: "header_loop t limits (buffer @ u) e (header_end + 2) req1 hs1 = Inr out"
      by (rule less.hyps [OF lt]) (use field(7) out in simp)
    have crlf': "find_crlf t (buffer @ u) cursor = Some header_end"
      by (rule crlf_scan.append_stable [OF field(1)])
    have line': "substr (buffer @ u) cursor (header_end - cursor) =
        substr buffer cursor (header_end - cursor)"
      using field(2,3) by (intro substr_append) simp
    have "\<not> (buffer ! cursor = CR \<and> buffer ! (cursor + 1) = LF)"
    proof
      assume "buffer ! cursor = CR \<and> buffer ! (cursor + 1) = LF"
      then have "starts_with (drop cursor buffer) crlf" using field(2,3) by (simp add: starts_with_crlf)
      then have "header_end = cursor" using crlf_scan.first [OF field(1)] field(2) by force
      then show False using field(5) by (simp add: header_line_def find_char_correct substr_def sv_find_def)
    qed
    moreover have "cursor - e \<le> max_headers_size limits"
      using less.prems out field(2,3) by (subst (asm) header_loop.simps) (auto split: if_splits)
    ultimately show ?thesis
      using field crlf' line' rec
      by (subst header_loop.simps) (auto simp: nth_append Let_def)
  qed
qed

lemma parse_append:
  assumes "parse t limits buffer req = Returned PComplete req' n"
    and "name_count ''Transfer-Encoding'' req' = 0" and "length buffer < 2 ^ 63"
  shows "parse t limits (buffer @ u) req = Returned PComplete req' n"
proof -
  from assms(1) obtain e req1 req2 hs c where ph:
    "find_crlf t buffer 0 = Some e" "parse_request_line t limits (take e buffer) req = Inr req1"
    "header_loop t limits buffer e (e + 2) (clear_header_fields req1) initial_header_state = Inr (req2, hs, c)"
    "\<not> (rq_version req2 = Http1_1 \<and> \<not> hs_has_host hs)"
    "\<not> (hs_has_content_length hs \<and> hs_has_transfer_encoding hs)"
    "parse_body t limits buffer req2 hs c = Returned PComplete req' n"
    by (rule parse_phases) auto
  note hl = header_loop_inv [OF ph(3) framing_inv_start]
  have c: "c \<le> length buffer" and cl: "hs_content_length hs \<le> max_body_size limits"
    using hl by (auto simp: framing_inv_def)
  have "name_count ''Transfer-Encoding'' req2 = 0"
    using assms(2) name_count_headers [OF parse_body_Complete(4) [OF ph(6) assms(3) c cl]] by simp
  then have nochunk: "\<not> hs_is_chunked hs" using hl by (simp add: framing_inv_def)
  have "parse_body t limits (buffer @ u) req2 hs c = Returned PComplete req' n"
    using ph(6) nochunk c by (auto simp: parse_body_def substr_append split: if_splits)
  moreover have "take e (buffer @ u) = take e buffer"
    using crlf_scan.bound [OF ph(1)] by simp
  ultimately show ?thesis
    using crlf_scan.append_stable [OF ph(1)] ph header_loop_append [OF ph(3)] by (auto simp: parse_def)
qed


subsection \<open>Chunked bodies: what the serialiser writes, the parser reads\<close>

lemma HEX_TABLE_digit_char: "d < 16 \<Longrightarrow> HEX_TABLE (digit_char d) = d"
  by (auto simp: HEX_TABLE_def digit_char_def less_eq_char_def u8_def not_less)

lemma digit_char_0: "digit_char 0 = CHR ''0''"
  by (simp add: digit_char_def u8_def char_of_eq_iff)

lemma is_hex_digit_char: "d < 16 \<Longrightarrow> is_hex (digit_char d)"
  by (simp add: is_hex_def HEX_TABLE_digit_char)

lemma hex_value_snoc: "hex_value (s @ [c]) = hex_value s * 16 + HEX_TABLE c"
  by (simp add: hex_value_def)

lemma hex_value_single: "hex_value [c] = HEX_TABLE c"
  by (simp add: hex_value_def)

lemma to_chars_hex: "list_all is_hex (to_chars 16 n) \<and> hex_value (to_chars 16 n) = n"
proof (induction n rule: less_induct)
  case (less n)
  show ?case
  proof (cases "n < 16")
    case True
    then show ?thesis
      by (subst (1 2) to_chars.simps) (simp add: is_hex_digit_char HEX_TABLE_digit_char hex_value_single)
  next
    case False
    then have "n div 16 < n" by simp
    with less False show ?thesis
      by (subst (1 2) to_chars.simps) (simp add: is_hex_digit_char HEX_TABLE_digit_char hex_value_snoc)
  qed
qed

lemma parse_hex_size_to_chars: "n < 2 ^ 64 \<Longrightarrow> parse_hex_size (to_chars 16 n) = Some n"
  using to_chars_hex [of n] to_chars_length [of 16 16 n] by (simp add: parse_hex_size_iff)

lemma is_hex_CR: "\<not> is_hex CR" "\<not> is_hex CHR '';''"
  by (simp_all add: is_hex_def HEX_TABLE_def less_eq_char_def)

lemma hex_no_CR: "CR \<notin> set (to_chars 16 n)" "CHR '';'' \<notin> set (to_chars 16 n)"
  using to_chars_hex [of n] is_hex_CR by (auto simp: list_all_iff)

lemma find_crlf_after:
  assumes "CR \<notin> set u"
  shows "find_crlf t (pre @ u @ crlf @ rest) (length pre) = Some (length pre + length u)"
proof -
  have "\<not> starts_with (drop k (pre @ u @ crlf @ rest)) crlf"
    if "length pre \<le> k" "k < length pre + length u" for k
  proof -
    have "(pre @ u @ crlf @ rest) ! k = u ! (k - length pre)"
      using that by (auto simp: nth_append)
    moreover have "u ! (k - length pre) \<in> set u" using that by simp
    ultimately show ?thesis using assms unfolding starts_with_crlf by auto
  qed
  moreover have "drop (length pre + length u) (pre @ u @ crlf @ rest) = crlf @ rest" by simp
  ultimately show ?thesis
    unfolding find_crlf_correct sv_find_str_Some_iff by (auto simp: starts_with_def)
qed

lemma chunk_size_line_hex: "n < 2 ^ 64 \<Longrightarrow> chunk_size_line t (to_chars 16 n) = Some n"
  using hex_no_CR [of n] by (simp add: chunk_size_line_def find_char_correct sv_find_no_sep parse_hex_size_to_chars)

lemma substr_mid: "substr (pre @ u @ rest) (length pre) (length u) = u"
  by (simp add: substr_def)

lemma take_chunk_ok:
  assumes buf: "buffer = pre @ data @ crlf @ rest" and len: "length buffer < 2 ^ 62"
    and d: "length d \<le> length buffer" "length d + length data \<le> mx"
  shows "take_chunk (Some mx) buffer (length pre) (length data) d =
    ChunkDone (d @ data) (length pre + (length data + 2))"
proof -
  have l: "length pre + length data + 2 \<le> length buffer" by (simp add: buf crlf_def)
  then have w: "size_wrap (length pre + length data + 2) = length pre + length data + 2"
    "size_wrap (length pre + length data) = length pre + length data"
    "size_wrap (length pre + length data + 1) = length pre + length data + 1"
    "size_wrap (length d + length data) = length d + length data"
    using len d by (auto simp: size_wrap_def)
  have at: "buffer ! (length pre + length data) = CR" "buffer ! (length pre + length data + 1) = LF"
    by (simp_all add: buf crlf_def nth_append)
  have sub: "substr buffer (length pre) (length data) = data" by (simp add: buf substr_mid)
  show ?thesis
    unfolding take_chunk_def w using at l len d sub by (simp add: string_max_size_def)
qed

definition chunks_wire :: "string list \<Rightarrow> string" where
  "chunks_wire ds = serialize_chunk_end (fold serialize_chunk ds [])"

lemma fold_serialize_chunk: "fold serialize_chunk ds out = out @ fold serialize_chunk ds []"
proof (induction ds arbitrary: out)
  case (Cons d ds)
  have "fold serialize_chunk ds (serialize_chunk d out) = serialize_chunk d out @ fold serialize_chunk ds []"
    by (rule Cons)
  moreover have "fold serialize_chunk ds (serialize_chunk d []) = serialize_chunk d [] @ fold serialize_chunk ds []"
    by (rule Cons)
  moreover have "serialize_chunk d out = out @ serialize_chunk d []"
    by (simp add: serialize_chunk_def)
  ultimately show ?case by simp
qed simp

lemma chunks_wire_Cons:
  "d \<noteq> [] \<Longrightarrow> chunks_wire (d # ds) = to_chars 16 (length d) @ crlf @ d @ crlf @ chunks_wire ds"
  using fold_serialize_chunk [of ds "serialize_chunk d []"]
  by (simp add: chunks_wire_def serialize_chunk_end_def serialize_chunk_def)

lemma chunk_loop_last:
  "chunk_loop t mx (pre @ chunks_wire []) d (length pre) = ChunkDone d (length (pre @ chunks_wire []))"
proof -
  have wire: "chunks_wire [] = to_chars 16 0 @ crlf @ crlf"
    by (simp add: chunks_wire_def serialize_chunk_end_def to_chars.simps digit_char_0)
  have f: "find_crlf t (pre @ chunks_wire []) (length pre) = Some (length pre + length (to_chars 16 0))"
    unfolding wire by (rule find_crlf_after) (rule hex_no_CR)
  have "last_chunk t (pre @ chunks_wire []) (length pre + length (to_chars 16 0) + 2) =
      Inr (length (pre @ chunks_wire []))"
    by (simp add: last_chunk_def wire crlf_def nth_append find_double_crlf_correct sv_find_str_def)
  then show ?thesis
    using f chunk_size_line_hex [of 0 t] by (subst chunk_loop.simps) (simp add: wire substr_mid)
qed

lemma chunk_loop_roundtrip:
  assumes "list_all (\<lambda>u. u \<noteq> []) ds" "length d + length (concat ds) \<le> mx"
    and "length d \<le> length pre" "length (pre @ chunks_wire ds) < 2 ^ 62"
  shows "chunk_loop t mx (pre @ chunks_wire ds) d (length pre) =
    ChunkDone (d @ concat ds) (length (pre @ chunks_wire ds))"
  using assms
proof (induction ds arbitrary: pre d)
  case Nil
  show ?case using chunk_loop_last [of t mx pre d] by simp
next
  case (Cons u ds)
  let ?h = "to_chars 16 (length u)"
  let ?pre = "pre @ ?h @ crlf" and ?pre' = "pre @ ?h @ crlf @ u @ crlf"
  have wire: "chunks_wire (u # ds) = ?h @ crlf @ u @ crlf @ chunks_wire ds"
    using Cons.prems(1) by (simp add: chunks_wire_Cons)
  let ?b = "pre @ chunks_wire (u # ds)"
  have b': "?b = ?pre @ u @ crlf @ chunks_wire ds" "?b = ?pre' @ chunks_wire ds" by (simp_all add: wire)
  have ulen: "length u < 2 ^ 64" using Cons.prems(4) by (simp add: wire)
  have f: "find_crlf t ?b (length pre) = Some (length pre + length ?h)"
    unfolding wire by (rule find_crlf_after) (rule hex_no_CR)
  have line: "substr ?b (length pre) (length pre + length ?h - length pre) = ?h"
    unfolding wire by (simp add: substr_mid)
  have tk: "take_chunk (Some mx) ?b (length ?pre) (length u) d =
      ChunkDone (d @ u) (length ?pre + (length u + 2))"
    by (rule take_chunk_ok [OF b'(1) Cons.prems(4)]) (use Cons.prems in auto)
  have pos: "length pre + length ?h + 2 = length ?pre" "length ?pre + (length u + 2) = length ?pre'"
    by (simp_all add: crlf_def)
  have "chunk_loop t mx ?b d (length pre) = chunk_loop t mx ?b (d @ u) (length ?pre')"
    using f line chunk_size_line_hex [OF ulen, of t] tk Cons.prems(1) unfolding pos(2)
    by (subst chunk_loop.simps) (simp add: pos(1) del: append_assoc length_append add_2_eq_Suc')
  also have "\<dots> = ChunkDone ((d @ u) @ concat ds) (length (?pre' @ chunks_wire ds))"
    unfolding b'(2) by (rule Cons.IH) (use Cons.prems in \<open>auto simp: wire\<close>)
  finally show ?case by (simp add: b'(2))
qed

lemma parse_incomplete:
  assumes "parse t limits buffer req = Returned st req' n" "st \<noteq> PComplete"
  shows "n = 0"
  using assms unfolding parse_def parse_body_def
  by (auto split: option.splits sum.splits if_splits chunk_outcome.splits)

lemma parse_content_length_body:
  assumes "parse t limits buffer req = Returned PComplete req' n"
    and "name_count ''Transfer-Encoding'' req' = 0" and "length buffer < 2 ^ 63"
  shows "rq_body req' = substr buffer (n - length (rq_body req')) (length (rq_body req')) \<and>
    (if name_count ''Content-Length'' req' = 0 then rq_body req' = []
     else \<exists>h \<in> set (entries (rq_headers req')). same_name (hname h) ''Content-Length'' \<and>
       parse_valid_content_length (hvalue h) = Some (length (rq_body req')))"
proof -
  from assms(1) obtain e req1 req2 hs c where ph:
    "header_loop t limits buffer e (e + 2) (clear_header_fields req1) initial_header_state = Inr (req2, hs, c)"
    "parse_body t limits buffer req2 hs c = Returned PComplete req' n"
    by (rule parse_phases) auto
  note hl = header_loop_inv [OF ph(1) framing_inv_start]
  have c: "c \<le> length buffer" and cl: "hs_content_length hs \<le> max_body_size limits"
    using hl by (auto simp: framing_inv_def)
  note same = parse_body_Complete(4) [OF ph(2) assms(3) c cl]
  have inv: "framing_inv limits req' hs" using hl framing_inv_headers [OF same] by simp
  then have nochunk: "\<not> hs_is_chunked hs" using assms(2) by (simp add: framing_inv_def)
  have "rq_body req' = substr buffer c (hs_content_length hs) \<and> n = c + hs_content_length hs \<and>
      hs_content_length hs \<le> length buffer - c"
    using ph(2) nochunk inv
    by (auto simp: parse_body_def framing_inv_def substr_def split: if_splits)
  moreover from this have "length (rq_body req') = hs_content_length hs" by simp
  ultimately show ?thesis using inv by (auto simp: framing_inv_def substr_def)
qed

subsection \<open>Evaluation on literal requests\<close>

lemmas eval_parser [eval_simps] =
  parse_def parse_request_line_def normalize_target_def set_target_def parse_version_def
  header_loop.simps header_line_def header_field_def te_codings.simps transfer_encoding_check_def
  is_chunked_coding_def host_value_ok_def parse_body_def scan_simps clear_header_fields_def
  clear_params_def initial_header_state_def string_to_method_def is_valid_request_target_def
  uri_char_def value_char_def is_tchar_def validate_tchars_def trim_ows_def trim_front_def
  trim_back_def is_ows_def substr_def head_part_def ascii_lower_def u8_def less_eq_char_def
  add_def push_entry_def update_flags_def name_flag_def INLINE_CAPACITY_def clear_def
  header_count_def Let_def DEFAULT_LIMITS_def initial_request_def empty_map_def flag_defs
  crlf_def char_of_eq_iff chunk_loop.simps take_chunk_def last_chunk_def chunk_size_line_def
  parse_hex_size_def HEX_TABLE_def string_max_size_def size_wrap_def set_decoded_body_def
  parse_valid_content_length_def is_digit_def digit_val_def bad_escape_def

definition get_request :: string where
  "get_request = ''GET /a?x=1 HTTP/1.1'' @ crlf @ ''Host: a'' @ crlf @ crlf"

definition post_request :: string where
  "post_request = ''POST /f HTTP/1.1'' @ crlf @ ''Host: a'' @ crlf @ ''Content-Length: 3'' @ crlf @
     crlf @ ''abc''"

definition chunked_request :: string where
  "chunked_request = ''POST / HTTP/1.1'' @ crlf @ ''Host: a'' @ crlf @
     ''Transfer-Encoding: chunked'' @ crlf @ crlf @ ''2'' @ crlf @ ''ab'' @ crlf @ ''0'' @ crlf @ crlf"

definition overflow_request :: string where
  "overflow_request = ''POST / HTTP/1.1'' @ crlf @ ''Host: a'' @ crlf @
     ''Transfer-Encoding: chunked'' @ crlf @ crlf @ ''2'' @ crlf @ ''ab'' @ crlf @
     ''FFFFFFFFFFFFFFFE'' @ crlf"

text \<open>The request object a literal request parses to.\<close>

definition parsed :: "string \<Rightarrow> request" where
  "parsed buffer = (case parse Scalar DEFAULT_LIMITS buffer initial_request of
      Returned st r n \<Rightarrow> r | Faulted f \<Rightarrow> initial_request)"

lemma get_request_Complete:
  "parse t DEFAULT_LIMITS get_request initial_request = Returned PComplete (parsed get_request) 32"
  "length get_request = 32"
  by (simp_all add: parsed_def get_request_def eval_simps)

lemma post_request_Complete:
  "parse t DEFAULT_LIMITS post_request initial_request = Returned PComplete (parsed post_request) 51"
  "length post_request = 51" "name_count ''Transfer-Encoding'' (parsed post_request) = 0"
  by (simp_all add: parsed_def post_request_def eval_simps name_count_def entries_def same_name_def)

lemma parsed_post_request:
  "rq_body (parsed post_request) = ''abc''"
  "entries (rq_headers (parsed post_request)) =
    [\<lparr>hname = ''Host'', hvalue = ''a''\<rparr>, \<lparr>hname = ''Content-Length'', hvalue = ''3''\<rparr>]"
  by (simp_all add: parsed_def post_request_def eval_simps entries_def)

subsection \<open>Properties of the request parser\<close>



text \<open>
  C2: The parser reports progress honestly and respects its limits. A complete request consumes
  between one byte and the whole buffer, its body is at most the body limit, its header fields at
  most the field limit; every other status consumes nothing.
\<close>

theorem http1_consumption_and_limits:
  assumes "parse t limits buffer req = Returned st req' n" and "length buffer < 2 ^ 63"
  shows "if st = PComplete
    then 0 < n \<and> n \<le> length buffer \<and> length (rq_body req') \<le> max_body_size limits \<and>
         header_count (rq_headers req') \<le> max_header_count limits
    else n = 0"
proof (cases "st = PComplete")
  case True
  with assms(1) have "parse t limits buffer req = Returned PComplete req' n" by simp
  from parse_Complete [OF this assms(2)] obtain hs where
    "framing_inv limits req' hs" "0 < n" "n \<le> length buffer"
    "length (rq_body req') \<le> max_body_size limits" by blast
  with True show ?thesis by (simp add: framing_inv_def)
next
  case False
  with assms(1) show ?thesis by (simp add: parse_incomplete)
qed

theorem http1_consumption_and_limits_witness:
  "length (rq_body (parsed post_request)) \<le> max_body_size DEFAULT_LIMITS \<and>
   header_count (rq_headers (parsed post_request)) \<le> max_header_count DEFAULT_LIMITS"
  using http1_consumption_and_limits [OF post_request_Complete(1) [of Scalar]]
  by (simp add: post_request_Complete(2))

text \<open>
  C3: All SIMD tiers parse alike. For every buffer, limit and request object, the AVX-512, AVX2,
  SSE4.2 and NEON builds return what the scalar build returns: status, request and consumed bytes.
\<close>

theorem http1_parse_tier_independent:
  "parse t limits buffer req = parse t' limits buffer req"
  by (simp only: parse_tier [of t] parse_tier [of t'])

text \<open>
  C4: Later bytes do not change a complete request. If the parser accepts a buffer whose request
  is not chunked, it returns the same request and the same length when any bytes follow, so
  pipelined requests are cut where they end.
\<close>

theorem http1_parse_append_stable:
  assumes "parse t limits buffer req = Returned PComplete req' n"
    and "name_count ''Transfer-Encoding'' req' = 0" and "length buffer < 2 ^ 63"
  shows "parse t limits (buffer @ later) req = Returned PComplete req' n"
  by (rule parse_append [OF assms])

theorem http1_parse_append_stable_witness:
  "parse AVX2 DEFAULT_LIMITS (post_request @ get_request) initial_request =
    Returned PComplete (parsed post_request) 51"
  by (rule http1_parse_append_stable [OF post_request_Complete(1,3)])
    (simp add: post_request_Complete(2))



text \<open>
  C6: Chunked transfer coding round-trips. Whatever non-empty pieces the serialiser writes as
  chunks and closes with the last chunk, the request parser's chunk loop decodes to their
  concatenation and ends at the end of the buffer, as long as the body fits the limit.
\<close>

theorem http1_chunked_roundtrip:
  assumes "list_all (\<lambda>u. u \<noteq> []) pieces" and "length (concat pieces) \<le> max_body"
    and "length (head @ chunks_wire pieces) < 2 ^ 62"
  shows "chunk_loop t max_body (head @ chunks_wire pieces) [] (length head) =
    ChunkDone (concat pieces) (length (head @ chunks_wire pieces))"
  using chunk_loop_roundtrip [of pieces "[]" max_body head t] assms by simp

theorem http1_chunked_roundtrip_witness:
  "chunk_loop SSE42 100 (''head'' @ chunks_wire [''abc'', ''de'']) [] (length ''head'') =
    ChunkDone (concat [''abc'', ''de'']) (length (''head'' @ chunks_wire [''abc'', ''de'']))"
  by (rule http1_chunked_roundtrip)
    (simp_all add: chunks_wire_def serialize_chunk_end_def serialize_chunk_def crlf_def to_chars.simps)

text \<open>
  Chunk sizes are read exactly: the hexadecimal reader accepts one to sixteen hexadecimal
  digits and nothing else, and returns their value without wrapping in 64 bits.
\<close>

theorem http1_chunk_size_exact:
  "parse_hex_size s = Some n \<longleftrightarrow>
     s \<noteq> [] \<and> length s \<le> 16 \<and> list_all is_hex s \<and> n = hex_value s \<and> n < 2 ^ 64"
  using parse_hex_size_iff [of s n] parse_hex_size_less [of s n] by blast

text \<open>
  A chunk can make the parser read outside the buffer, or terminate the process, only when
  cursor plus size plus two reaches \<open>2 ^ 64\<close>: no other chunk size is unsafe.
\<close>

theorem http1_chunk_fault_needs_wrap:
  assumes "take_chunk limit buffer c sz decoded = ChunkFault f"
    and "length buffer < 2 ^ 62" and "length decoded \<le> length buffer"
  shows "2 ^ 64 \<le> c + sz + 2"
  by (rule take_chunk_Fault [OF assms])

theorem http1_chunk_fault_needs_wrap_witness:
  "take_chunk None (''ab'' @ crlf) 4 (2 ^ 64 - 2) [] = ChunkFault Terminated \<and>
   (2 :: nat) ^ 64 \<le> 4 + (2 ^ 64 - 2) + 2"
proof -
  have f: "take_chunk None (''ab'' @ crlf) 4 (2 ^ 64 - 2) [] = ChunkFault Terminated"
    by (simp add: eval_simps)
  with http1_chunk_fault_needs_wrap [OF f] show ?thesis by (simp add: crlf_def)
qed

text \<open>
  Such a chunk size is not rejected: this request, whose second chunk announces
  FFFFFFFFFFFFFFFE bytes, passes every check of the chunk loop because the \<^verbatim>\<open>size_t\<close> sums wrap,
  and the append then throws inside a \<^verbatim>\<open>noexcept\<close> function, which terminates the server.
\<close>

theorem http1_chunk_size_overflow_terminates:
  "parse t DEFAULT_LIMITS overflow_request initial_request = Faulted Terminated"
  by (simp add: overflow_request_def eval_simps)

text \<open>
  A chunked request swallows the request pipelined after it. Alone, the chunked request is
  consumed to its end; followed by a complete GET, the parser takes the GET's header section for
  trailers and consumes both as one request with the same contents.
\<close>

theorem http1_chunked_swallows_pipelined:
  "parse t DEFAULT_LIMITS chunked_request initial_request =
     Returned PComplete (parsed chunked_request) (length chunked_request) \<and>
   parse t DEFAULT_LIMITS (chunked_request @ get_request) initial_request =
     Returned PComplete (parsed chunked_request) (length (chunked_request @ get_request))"
  by (simp add: parsed_def chunked_request_def get_request_def eval_simps)

end
