(* ===== verification/Simd_Router.thy ===== *)
theory Simd_Router
  imports Simd_String
begin

text \<open>
  The vector primitives of the router, \<^verbatim>\<open>src/http/SimdRouter.h\<close>: the common prefix of two paths,
  a character search and a prefix test. Their loops are the block loops of \<open>Simd_String\<close>, with a
  64-bit XOR stage in the common prefix. Each is proved equal to its reference for every tier.
\<close>

unbundle bit_operations_syntax

subsection \<open>Definitions\<close>

text \<open>\<^verbatim>\<open>memcpy\<close> of eight bytes into a little-endian \<^verbatim>\<open>uint64_t\<close>.\<close>

definition load_u64 :: "string \<Rightarrow> nat \<Rightarrow> u64" where
  "load_u64 p i = word_of_int (horner_sum uint (2 ^ 8) (map lane (take 8 (drop i p))))"

text \<open>
  \<^verbatim>\<open>while (len + 8 <= max_len) { diff = u1 ^ u2; if (diff != 0) return len + (countr_zero(diff) >> 3); len += 8; }\<close>
\<close>

function xor_scan :: "string \<Rightarrow> string \<Rightarrow> nat \<Rightarrow> nat \<Rightarrow> nat + nat" where
  "xor_scan a b max_len len =
     (if len + 8 \<le> max_len
      then let diff = load_u64 a len XOR load_u64 b len
           in if diff \<noteq> 0 then Inl (len + drop_bit 3 (countr_zero diff))
              else xor_scan a b max_len (len + 8)
      else Inr len)"
  by pat_completeness auto
termination
  by (relation "measure (\<lambda>(a, b, max_len, len). max_len - len)") auto

declare xor_scan.simps [simp del]

definition simd_common_prefix :: "simd_tier \<Rightarrow> string \<Rightarrow> string \<Rightarrow> nat" where
  "simd_common_prefix t a b =
     (let max_len = min (length a) (length b);
          cmp = (\<lambda>W i. cmpeq_epi8 (loadu W a i) (loadu W b i));
          blocks = (case t of
              AVX512 \<Rightarrow> simd_scan 32 0 (\<lambda>i. NOT (kmask (=) (loadu 32 a i) (loadu 32 b i)) AND 0xFFFFFFFF)
                          max_len 0
            | AVX2 \<Rightarrow> simd_scan 32 0 (\<lambda>i. NOT (movemask_epi8 (cmp 32 i)) AND 0xFFFFFFFF) max_len 0
            | SSE42 \<Rightarrow> simd_scan 16 0 (\<lambda>i. NOT (movemask_epi8 (cmp 16 i)) AND 0xFFFF) max_len 0
            | NEON \<Rightarrow> simd_scan 16 0 (\<lambda>i. NOT (neon_movemask_u8 (cmp 16 i)) AND 0xFFFF) max_len 0
            | Scalar \<Rightarrow> Inr 0)
      in case blocks of
           Inl n \<Rightarrow> n
         | Inr len \<Rightarrow>
             (case xor_scan a b max_len len of
                Inl n \<Rightarrow> n
              | Inr len' \<Rightarrow>
                  (case scalar_find (\<lambda>k. a ! k \<noteq> b ! k) len' max_len of
                     Some n \<Rightarrow> n
                   | None \<Rightarrow> max_len)))"

definition simd_find_char :: "simd_tier \<Rightarrow> string \<Rightarrow> char \<Rightarrow> nat option" where
  "simd_find_char t s ch =
     (let size = length s;
          cmp = (\<lambda>W i. cmpeq_epi8 (loadu W s i) (set1 W (u8 ch)));
          blocks = (case t of
              AVX512 \<Rightarrow> simd_scan 32 0 (\<lambda>i. kmask (=) (loadu 32 s i) (set1 32 (u8 ch))) size 0
            | AVX2 \<Rightarrow> simd_scan 32 0 (\<lambda>i. movemask_epi8 (cmp 32 i)) size 0
            | SSE42 \<Rightarrow> simd_scan 16 0 (\<lambda>i. movemask_epi8 (cmp 16 i) AND 0xFFFF) size 0
            | NEON \<Rightarrow> simd_scan 16 0 (\<lambda>i. neon_movemask_u8 (cmp 16 i) AND 0xFFFF) size 0
            | Scalar \<Rightarrow> Inr 0)
      in case blocks of
           Inl n \<Rightarrow> Some n
         | Inr i \<Rightarrow> scalar_find (\<lambda>k. s ! k = ch) i size)"

definition simd_starts_with :: "simd_tier \<Rightarrow> string \<Rightarrow> string \<Rightarrow> bool" where
  "simd_starts_with t str pre =
     (if length str < length pre then False
      else if pre = [] then True
      else if length pre \<le> 8 then take (length pre) str = pre
      else simd_common_prefix t str pre = length pre)"

subsection \<open>The 64-bit stage\<close>

lemma bit_load_u64:
  assumes "i + 8 \<le> length p" "n < 64"
  shows "bit (load_u64 p i) n \<longleftrightarrow> bit (lane (p ! (i + n div 8))) (n mod 8)"
  using assms
  by (auto simp: load_u64_def bit_word_of_int_iff bit_horner_sum_uint_exp_iff [where 'a = 8, simplified])

lemma byte_eq_iff: "(x :: byte) = y \<longleftrightarrow> (\<forall>j < 8. bit x j = bit y j)"
  by (auto intro: bit_word_eqI)

lemma xor_block:
  assumes "i + 8 \<le> length a" "i + 8 \<le> length b"
  shows "load_u64 a i XOR load_u64 b i = 0 \<longleftrightarrow> (\<forall>k < 8. a ! (i + k) = b ! (i + k))"
    and "load_u64 a i XOR load_u64 b i \<noteq> 0 \<Longrightarrow>
      first_in (\<lambda>k. a ! k \<noteq> b ! k) i (i + 8) =
        Some (i + drop_bit 3 (countr_zero (load_u64 a i XOR load_u64 b i)))"
proof -
  let ?d = "load_u64 a i XOR load_u64 b i"
  have bits: "bit ?d (8 * k + j) \<longleftrightarrow> bit (lane (a ! (i + k))) j \<noteq> bit (lane (b ! (i + k))) j"
    if "k < 8" "j < 8" for k j
    using that assms by (simp add: bit_xor_iff bit_load_u64)
  have same: "a ! (i + k) = b ! (i + k) \<longleftrightarrow> (\<forall>j < 8. \<not> bit ?d (8 * k + j))" if "k < 8" for k
    using bits [OF that] by (simp flip: lane_inject add: byte_eq_iff)
  have split: "n = 8 * (n div 8) + n mod 8" for n :: nat by simp
  show eq: "?d = 0 \<longleftrightarrow> (\<forall>k < 8. a ! (i + k) = b ! (i + k))"
  proof
    assume "\<forall>k < 8. a ! (i + k) = b ! (i + k)"
    have "\<not> bit ?d n" if "n < 64" for n
    proof -
      have "n div 8 < 8" "n mod 8 < 8" using that by auto
      with same [of "n div 8"] \<open>\<forall>k < 8. a ! (i + k) = b ! (i + k)\<close>
      have "\<not> bit ?d (8 * (n div 8) + n mod 8)" by blast
      then show ?thesis by simp
    qed
    then show "?d = 0" by (simp add: u64_zero_iff)
  qed (auto simp: same)
  assume nz: "?d \<noteq> 0"
  define z where "z = countr_zero ?d"
  from countr_zero_Some [OF nz]
  have z: "z < 64" "bit ?d z" "\<And>k. k < z \<Longrightarrow> \<not> bit ?d k"
    by (auto simp: first_in_Some_iff z_def)
  have "z div 8 < 8" "z mod 8 < 8" using z(1) by auto
  then have "a ! (i + z div 8) \<noteq> b ! (i + z div 8)"
    using same [of "z div 8"] z(2) split [of z] by metis
  moreover have "a ! k = b ! k" if "i \<le> k" "k < i + z div 8" for k
  proof -
    have "\<not> bit ?d (8 * (k - i) + j)" if "j < 8" for j
      by (rule z(3)) (use \<open>i \<le> k\<close> \<open>k < i + z div 8\<close> that in linarith)
    then show ?thesis using same [of "k - i"] that \<open>z div 8 < 8\<close> by auto
  qed
  ultimately show "first_in (\<lambda>k. a ! k \<noteq> b ! k) i (i + 8) = Some (i + drop_bit 3 (countr_zero ?d))"
    using \<open>z div 8 < 8\<close> by (auto simp: first_in_Some_iff drop_bit_eq_div simp flip: z_def)
qed


lemma prefix_nthD: "prefix p s \<Longrightarrow> k < length p \<Longrightarrow> s ! k = p ! k"
  by (auto simp: prefix_def nth_append)

lemma first_in_extend:
  "first_in Q i m = Some j \<Longrightarrow> m \<le> n \<Longrightarrow> first_in Q i n = Some j"
  by (simp add: first_in_Some_iff)

lemma xor_scan_spec:
  assumes "i \<le> n" "n \<le> length a" "n \<le> length b"
  shows "case xor_scan a b n i of
      Inl j \<Rightarrow> first_in (\<lambda>k. a ! k \<noteq> b ! k) i n = Some j
    | Inr i' \<Rightarrow> i' \<le> n \<and> first_in (\<lambda>k. a ! k \<noteq> b ! k) i n = first_in (\<lambda>k. a ! k \<noteq> b ! k) i' n"
  using assms
proof (induction a b n i rule: xor_scan.induct)
  case (1 a b n i)
  show ?case
  proof (cases "i + 8 \<le> n \<and> load_u64 a i XOR load_u64 b i = 0")
    case False
    with 1(2-) show ?thesis
      using first_in_extend [OF xor_block(2) [of i a b], of n]
      by (subst xor_scan.simps) (auto simp: Let_def)
  next
    case True
    then have "\<forall>k < 8. a ! (i + k) = b ! (i + k)" using xor_block(1) [of i a b] 1(3,4) by simp
    then have "a ! k = b ! k" if "i \<le> k" "k < i + 8" for k
      using that by (metis less_diff_conv2 add.commute le_add_diff_inverse)
    then have "first_in (\<lambda>k. a ! k \<noteq> b ! k) i n = first_in (\<lambda>k. a ! k \<noteq> b ! k) (i + 8) n"
      using True by (intro first_in_skip) auto
    with 1 True show ?thesis by (subst xor_scan.simps) (simp add: Let_def split: sum.splits)
  qed
qed

subsection \<open>Correctness of the router primitives\<close>

lemma scan_finish:
  assumes "0 < W" "W \<le> 64"
    and "\<And>i k. i + W \<le> len \<Longrightarrow> k < 64 \<Longrightarrow> bit (msk i) k \<longleftrightarrow> k < W \<and> Q (i + k)"
  shows "case simd_scan W 0 msk len 0 of
      Inl j \<Rightarrow> first_in Q 0 len = Some j
    | Inr i \<Rightarrow> i \<le> len \<and> first_in Q 0 len = first_in Q i len"
  using simd_scan_spec [of W 0 len msk Q 0] assms by (auto split: sum.splits)

lemma neon_cmpeq: "i + 16 \<le> length a \<Longrightarrow> i + 16 \<le> length b \<Longrightarrow>
    neon_movemask_u8 (cmpeq_epi8 (loadu 16 a i) (loadu 16 b i)) =
    movemask_epi8 (cmpeq_epi8 (loadu 16 a i) (loadu 16 b i))"
  by (simp add: neon_movemask_eq)

lemmas router_block_simps =
  bit_kmask bit_movemask bit_and_iff bit_not_iff bit_mask_iff mask_lits [symmetric]

lemma simd_common_prefix_first:
  "simd_common_prefix t a b =
    (case first_in (\<lambda>k. a ! k \<noteq> b ! k) 0 (min (length a) (length b)) of
       Some n \<Rightarrow> n | None \<Rightarrow> min (length a) (length b))"
proof -
  let ?n = "min (length a) (length b)" and ?Q = "\<lambda>k. a ! k \<noteq> b ! k"
  define blocks where "blocks = (case t of
      AVX512 \<Rightarrow> simd_scan 32 0 (\<lambda>i. NOT (kmask (=) (loadu 32 a i) (loadu 32 b i)) AND 0xFFFFFFFF) ?n 0
    | AVX2 \<Rightarrow> simd_scan 32 0 (\<lambda>i. NOT (movemask_epi8 (cmpeq_epi8 (loadu 32 a i) (loadu 32 b i)))
        AND 0xFFFFFFFF) ?n 0
    | SSE42 \<Rightarrow> simd_scan 16 0 (\<lambda>i. NOT (movemask_epi8 (cmpeq_epi8 (loadu 16 a i) (loadu 16 b i)))
        AND 0xFFFF) ?n 0
    | NEON \<Rightarrow> simd_scan 16 0 (\<lambda>i. NOT (neon_movemask_u8 (cmpeq_epi8 (loadu 16 a i) (loadu 16 b i)))
        AND 0xFFFF) ?n 0
    | Scalar \<Rightarrow> Inr 0)"
  have "case blocks of Inl j \<Rightarrow> first_in ?Q 0 ?n = Some j
    | Inr i \<Rightarrow> i \<le> ?n \<and> first_in ?Q 0 ?n = first_in ?Q i ?n"
    unfolding blocks_def mask_lits [symmetric]
    by (cases t; simp only: simd_tier.case sum.case)
      ((rule scan_finish; auto simp: router_block_simps neon_cmpeq split: if_splits)+, simp)
  note blk = this
  have xs: "case xor_scan a b ?n i of Inl j \<Rightarrow> first_in ?Q i ?n = Some j
    | Inr i' \<Rightarrow> i' \<le> ?n \<and> first_in ?Q i ?n = first_in ?Q i' ?n" if "i \<le> ?n" for i
    by (rule xor_scan_spec) (use that in auto)
  show ?thesis
  proof (cases blocks)
    case (Inl j)
    with blk show ?thesis
      unfolding simd_common_prefix_def Let_def blocks_def [symmetric] by simp
  next
    case (Inr i)
    with blk xs [of i] show ?thesis
      unfolding simd_common_prefix_def Let_def blocks_def [symmetric] scalar_find_def
      by (cases "xor_scan a b ?n i") simp_all
  qed
qed


text \<open>The common prefix is the longest one.\<close>

lemma simd_common_prefix_spec:
  fixes t a b
  defines "n \<equiv> simd_common_prefix t a b"
  shows "n \<le> length a" "n \<le> length b" "take n a = take n b"
    and "n < length a \<Longrightarrow> n < length b \<Longrightarrow> a ! n \<noteq> b ! n"
proof -
  have n: "n \<le> min (length a) (length b)" "\<forall>k < n. a ! k = b ! k"
    "n < min (length a) (length b) \<Longrightarrow> a ! n \<noteq> b ! n"
    unfolding n_def simd_common_prefix_first
    by (auto simp: first_in_None_iff first_in_Some_iff split: option.splits)
  show "n \<le> length a" "n \<le> length b" using n(1) by auto
  show "take n a = take n b" using n(1,2) by (intro nth_equalityI) auto
  show "n < length a \<Longrightarrow> n < length b \<Longrightarrow> a ! n \<noteq> b ! n" using n(3) by simp
qed

lemma simd_common_prefix_lcp [scan_simps]:
  "simd_common_prefix t a b = length (longest_common_prefix a b)"
proof (rule antisym)
  let ?n = "simd_common_prefix t a b" and ?l = "longest_common_prefix a b"
  note spec = simd_common_prefix_spec [of t a b]
  have "prefix (take ?n a) a" "prefix (take ?n a) b"
    using spec(3) take_is_prefix [of ?n] by metis+
  then have "prefix (take ?n a) ?l" by (rule longest_common_prefix_max_prefix)
  then have "length (take ?n a) \<le> length ?l" by (rule prefix_length_le)
  then show "?n \<le> length ?l" using spec(1) by simp
  have l: "prefix ?l a" "prefix ?l b"
    by (rule longest_common_prefix_prefix1, rule longest_common_prefix_prefix2)
  show "length ?l \<le> ?n"
  proof (rule ccontr)
    assume "\<not> length ?l \<le> ?n"
    then have lt: "?n < length ?l" by simp
    have "a ! ?n = ?l ! ?n" "b ! ?n = ?l ! ?n" "?n < length a" "?n < length b"
      using l [THEN prefix_length_le] l [THEN prefix_nthD] lt by auto
    with spec(4) show False by simp
  qed
qed

lemma simd_find_char_correct [scan_simps]: "simd_find_char t s ch = sv_find ch s 0"
proof -
  let ?n = "length s" and ?Q = "\<lambda>k. s ! k = ch"
  define blocks where "blocks = (case t of
      AVX512 \<Rightarrow> simd_scan 32 0 (\<lambda>i. kmask (=) (loadu 32 s i) (set1 32 (u8 ch))) ?n 0
    | AVX2 \<Rightarrow> simd_scan 32 0 (\<lambda>i. movemask_epi8 (cmpeq_epi8 (loadu 32 s i) (set1 32 (u8 ch)))) ?n 0
    | SSE42 \<Rightarrow> simd_scan 16 0 (\<lambda>i. movemask_epi8 (cmpeq_epi8 (loadu 16 s i) (set1 16 (u8 ch)))
        AND 0xFFFF) ?n 0
    | NEON \<Rightarrow> simd_scan 16 0 (\<lambda>i. neon_movemask_u8 (cmpeq_epi8 (loadu 16 s i) (set1 16 (u8 ch)))
        AND 0xFFFF) ?n 0
    | Scalar \<Rightarrow> Inr 0)"
  have neon: "neon_movemask_u8 (cmpeq_epi8 (loadu 16 s i) (set1 16 (u8 ch))) =
      movemask_epi8 (cmpeq_epi8 (loadu 16 s i) (set1 16 (u8 ch)))" if "i + 16 \<le> length s" for i
    using that by (simp add: neon_movemask_eq)
  have "case blocks of Inl j \<Rightarrow> first_in ?Q 0 ?n = Some j
    | Inr i \<Rightarrow> i \<le> ?n \<and> first_in ?Q 0 ?n = first_in ?Q i ?n"
    unfolding blocks_def mask_lits [symmetric]
    by (cases t; simp only: simd_tier.case sum.case)
      ((rule scan_finish; auto simp: router_block_simps neon split: if_splits)+, simp)
  then show ?thesis
    unfolding simd_find_char_def Let_def blocks_def [symmetric] scalar_find_def sv_find_def
    by (auto split: sum.splits)
qed

lemma simd_starts_with_correct [scan_simps]: "simd_starts_with t s p = starts_with s p"
proof (cases "length p \<le> length s \<and> 8 < length p")
  case True
  note spec = simd_common_prefix_spec [of t s p]
  have "simd_common_prefix t s p = length p \<longleftrightarrow> take (length p) s = p"
  proof
    assume "take (length p) s = p"
    then have "s ! k = p ! k" if "k < length p" for k using that by (metis nth_take)
    then show "simd_common_prefix t s p = length p" using spec(2,4) True by force
  qed (use spec(3) in force)
  with True show ?thesis by (simp add: simd_starts_with_def starts_with_def)
qed (auto simp: simd_starts_with_def starts_with_def)

subsection \<open>Properties of the router primitives\<close>

text \<open>
  The router's vector primitives are exact in every tier: the common prefix is the longest
  one, through the block, 64-bit XOR and scalar stages; the character search finds the first
  occurrence; the prefix test is the prefix relation.
\<close>

theorem simd_router_exact:
  "simd_common_prefix t a b = length (longest_common_prefix a b) \<and>
   simd_find_char t a ch = sv_find ch a 0 \<and>
   simd_starts_with t a b = prefix b a"
  by (simp add: simd_common_prefix_lcp simd_find_char_correct simd_starts_with_correct starts_with_iff)

end
