(* ===== verification/Radix_Tree.thy ===== *)
theory Radix_Tree
  imports Simd_Router Http_Request
begin

text \<open>
  \<^verbatim>\<open>src/http/RadixTree.h\<close> and \<^verbatim>\<open>src/http/RadixTree.cpp\<close>: the compressed trie of routes. A node is
  static text, a parameter or a wildcard; it keeps a handler per method. Insertion follows a
  pointer down the tree; here it returns the updated node. Matching backtracks over static,
  parameter and wildcard children and collects parameters in a stack of sixteen entries.
\<close>

subsection \<open>Nodes\<close>

datatype radix_node_type = Static | Param | Wildcard

datatype 'h radix_node =
  RadixNode (rn_prefix: string) (rn_type: radix_node_type) (rn_param_name: string)
    (rn_children: "'h radix_node list") (rn_handlers: "'h option list") (rn_has_any_handler: bool)

text \<open>The index of a method is its position in the enumeration; UNKNOWN is beyond the array.\<close>

primrec method_index :: "http_method \<Rightarrow> nat" where
  "method_index GET = 0"
| "method_index POST = 1"
| "method_index PUT = 2"
| "method_index DELETE = 3"
| "method_index PATCH = 4"
| "method_index HEAD = 5"
| "method_index OPTIONS = 6"
| "method_index CONNECT = 7"
| "method_index TRACE = 8"
| "method_index UNKNOWN = 9"

definition no_handlers :: "'h option list" where
  "no_handlers = replicate 9 None"

definition new_node :: "string \<Rightarrow> radix_node_type \<Rightarrow> string \<Rightarrow> 'h radix_node" where
  "new_node p ty pname = RadixNode p ty pname [] no_handlers False"

definition normalize_path :: "string \<Rightarrow> string" where
  "normalize_path p =
     (if p = [] then ''/''
      else if 1 < length p \<and> ends_with p CHR ''/'' then butlast p
      else p)"

definition empty_tree :: "'h radix_node" where
  "empty_tree = new_node ''/'' Static []"

subsection \<open>Insertion\<close>

definition set_handler :: "nat \<Rightarrow> 'h \<Rightarrow> 'h radix_node \<Rightarrow> 'h radix_node" where
  "set_handler idx h node =
     (if idx < length (rn_handlers node)
      then RadixNode (rn_prefix node) (rn_type node) (rn_param_name node) (rn_children node)
             ((rn_handlers node)[idx := Some h]) True
      else node)"

definition set_children :: "'h radix_node list \<Rightarrow> 'h radix_node \<Rightarrow> 'h radix_node" where
  "set_children cs node =
     RadixNode (rn_prefix node) (rn_type node) (rn_param_name node) cs (rn_handlers node)
       (rn_has_any_handler node)"

text \<open>The first child with a property, and a child split at a common prefix.\<close>

definition find_child :: "('h radix_node \<Rightarrow> bool) \<Rightarrow> 'h radix_node \<Rightarrow> nat option" where
  "find_child P node = first_in (\<lambda>i. P (rn_children node ! i)) 0 (length (rn_children node))"

definition split_child :: "nat \<Rightarrow> 'h radix_node \<Rightarrow> 'h radix_node" where
  "split_child cpl c =
     (if cpl < length (rn_prefix c)
      then RadixNode (take cpl (rn_prefix c)) (rn_type c) (rn_param_name c)
             [RadixNode (drop cpl (rn_prefix c)) (rn_type c) (rn_param_name c) (rn_children c)
                (rn_handlers c) (rn_has_any_handler c)]
             no_handlers False
      else c)"

definition static_chunk :: "string \<Rightarrow> string" where
  "static_chunk remaining = head_part (sv_find_first_of '':*'' remaining 0) remaining"

lemma static_chunk_pos:
  "remaining \<noteq> [] \<Longrightarrow> hd remaining \<noteq> CHR '':'' \<Longrightarrow> hd remaining \<noteq> CHR ''*'' \<Longrightarrow>
    0 < length (static_chunk remaining)"
  by (cases remaining)
    (auto simp: static_chunk_def head_part_def sv_find_first_of_def first_in_Some_iff
      intro!: gr0I split: option.split)

lemma static_chunk_shrinks:
  assumes "r \<noteq> []" "hd r \<noteq> CHR '':''" "hd r \<noteq> CHR ''*''"
  shows "length r - length (static_chunk r) < length r"
  using static_chunk_pos [OF assms] assms(1) by simp

function insert_at :: "simd_tier \<Rightarrow> nat \<Rightarrow> 'h \<Rightarrow> string \<Rightarrow> 'h radix_node \<Rightarrow> 'h radix_node" where
  "insert_at t idx h remaining node =
     (if remaining = [] then set_handler idx h node
      else if hd remaining = CHR '':'' then
        let rest = tl remaining;
            end_param = simd_find_char t rest CHR ''/'';
            param_name = head_part end_param rest;
            rest = (case end_param of None \<Rightarrow> [] | Some k \<Rightarrow> drop k rest)
        in (case find_child (\<lambda>c. rn_type c = Param \<and> rn_param_name c = param_name) node of
              Some i \<Rightarrow>
                set_children ((rn_children node)[i := insert_at t idx h rest (rn_children node ! i)]) node
            | None \<Rightarrow>
                set_children (rn_children node @
                  [insert_at t idx h rest (new_node [] Param param_name)]) node)
      else if hd remaining = CHR ''*'' then
        (case find_child (\<lambda>c. rn_type c = Wildcard) node of
           Some i \<Rightarrow>
             set_children ((rn_children node)[i := set_handler idx h (rn_children node ! i)]) node
         | None \<Rightarrow>
             set_children (rn_children node @
               [set_handler idx h (new_node [] Wildcard (tl remaining))]) node)
      else
        let chunk = static_chunk remaining
        in (case find_child (\<lambda>c. rn_type c = Static \<and> rn_prefix c \<noteq> [] \<and>
                   0 < simd_common_prefix t (rn_prefix c) chunk) node of
              Some i \<Rightarrow>
                let c = rn_children node ! i; cpl = simd_common_prefix t (rn_prefix c) chunk
                in set_children ((rn_children node)
                     [i := insert_at t idx h (drop cpl remaining) (split_child cpl c)]) node
            | None \<Rightarrow>
                set_children (rn_children node @
                  [insert_at t idx h (drop (length chunk) remaining) (new_node chunk Static [])])
                  node))"
  by pat_completeness auto
termination
  by (relation "measure (\<lambda>(t, idx, h, remaining, node). length remaining)")
    (auto simp: find_child_def first_in_Some_iff static_chunk_shrinks split: option.split)

declare insert_at.simps [simp del]

definition radix_insert :: "simd_tier \<Rightarrow> http_method \<Rightarrow> string \<Rightarrow> 'h \<Rightarrow> 'h radix_node \<Rightarrow> 'h radix_node" where
  "radix_insert t meth pattern h root =
     (let pattern = normalize_path pattern; idx = method_index meth
      in if pattern = ''/'' then set_handler idx h root
         else
           let remaining = (if starts_with pattern ''/'' \<and> rn_prefix root = ''/'' then drop 1 pattern
                            else pattern)
           in insert_at t idx h remaining root)"

subsection \<open>Matching\<close>

type_synonym stack_params = "(string \<times> string) list"

definition push_param :: "string \<Rightarrow> string \<Rightarrow> stack_params \<Rightarrow> stack_params" where
  "push_param k v ps = (if length ps < 16 then ps @ [(k, v)] else ps)"

definition pop_param :: "stack_params \<Rightarrow> stack_params" where
  "pop_param ps = (if 0 < length ps then butlast ps else ps)"

datatype phase = StaticPhase | ParamPhase | WildcardPhase | AnyPhase

definition in_phase :: "phase \<Rightarrow> string \<Rightarrow> 'h radix_node \<Rightarrow> bool" where
  "in_phase ph path c =
     (case ph of
        StaticPhase \<Rightarrow>
          rn_type c = Static \<and> (path = [] \<or> rn_prefix c = [] \<or> hd (rn_prefix c) = hd path)
      | ParamPhase \<Rightarrow> rn_type c = Param
      | WildcardPhase \<Rightarrow> rn_type c = Wildcard
      | AnyPhase \<Rightarrow> True)"

text \<open>
  The result is the matched node, if any, and the parameter stack as the call leaves it.
  \<open>match_children\<close> is a loop over the children of one kind.
\<close>

fun match_node ::
    "simd_tier \<Rightarrow> 'h radix_node \<Rightarrow> string \<Rightarrow> stack_params \<Rightarrow> 'h radix_node option \<times> stack_params"
  and match_children ::
    "simd_tier \<Rightarrow> phase \<Rightarrow> 'h radix_node list \<Rightarrow> string \<Rightarrow> stack_params \<Rightarrow>
     'h radix_node option \<times> stack_params" where
  "match_node t (RadixNode pre ty pname cs hs any) path ps =
     (case ty of
        Static \<Rightarrow>
          if pre \<noteq> [] \<and> \<not> simd_starts_with t path pre then (None, ps)
          else
            let path = drop (length pre) path;
                here = (if path = [] then
                          if any then Some (RadixNode pre ty pname cs hs any)
                          else List.find (\<lambda>c. rn_type c = Static \<and> rn_prefix c = ''/'' \<and>
                                 rn_has_any_handler c) cs
                        else None)
            in (case here of
                  Some n \<Rightarrow> (Some n, ps)
                | None \<Rightarrow>
                    (case match_children t StaticPhase cs path ps of
                       (Some n, ps) \<Rightarrow> (Some n, ps)
                     | (None, ps) \<Rightarrow>
                         (case match_children t ParamPhase cs path ps of
                            (Some n, ps) \<Rightarrow> (Some n, ps)
                          | (None, ps) \<Rightarrow> match_children t WildcardPhase cs path ps)))
      | Param \<Rightarrow>
          let slash = simd_find_char t path CHR ''/''; val = head_part slash path
          in if val = [] then (None, ps)
             else
               let ps = push_param pname val ps;
                   rest = (case slash of None \<Rightarrow> [] | Some k \<Rightarrow> drop k path)
               in if (rest = [] \<or> rest = ''/'') \<and> any then (Some (RadixNode pre ty pname cs hs any), ps)
                  else (case match_children t AnyPhase cs rest ps of
                          (Some n, ps) \<Rightarrow> (Some n, ps)
                        | (None, ps) \<Rightarrow> (None, pop_param ps))
      | Wildcard \<Rightarrow>
          let ps' = (if pname \<noteq> [] then push_param pname path ps else ps)
          in if any then (Some (RadixNode pre ty pname cs hs any), ps')
             else (None, if pname \<noteq> [] then pop_param ps' else ps'))"
| "match_children t ph [] path ps = (None, ps)"
| "match_children t ph (c # cs) path ps =
     (if in_phase ph path c then
        (case match_node t c path ps of
           (Some n, ps) \<Rightarrow> (Some n, ps)
         | (None, ps) \<Rightarrow> match_children t ph cs path ps)
      else match_children t ph cs path ps)"

declare match_node.simps [simp del]

datatype 'h match_result =
    NoRoute
  | Matched 'h
  | MethodNotAllowedFor nat

definition allowed_mask :: "'h option list \<Rightarrow> nat" where
  "allowed_mask hs = (\<Sum>i \<leftarrow> [0..<length hs]. if hs ! i \<noteq> None then 2 ^ i else 0)"

definition match_route :: "simd_tier \<Rightarrow> 'h radix_node \<Rightarrow> request \<Rightarrow> 'h match_result \<times> request" where
  "match_route t root req =
     (case match_node t root (normalize_path (rq_path req)) [] of
        (None, _) \<Rightarrow> (NoRoute, req)
      | (Some n, ps) \<Rightarrow>
          let midx = method_index (rq_method req)
          in if midx < length (rn_handlers n) \<and> rn_handlers n ! midx \<noteq> None
             then (Matched (the (rn_handlers n ! midx)), fold (\<lambda>(k, v). add_param k v) ps req)
             else (MethodNotAllowedFor (allowed_mask (rn_handlers n)), req))"

end
