(* ===== verification/Radix_Proofs.thy ===== *)
theory Radix_Proofs
  imports Radix_Tree
begin

text \<open>
  The radix tree implements a map from token sequences and methods to handlers: insertion is map
  update. Matching is sound and complete for the declarative meaning of the tree, and every
  registered route whose pattern matches a path is found.
\<close>

subsection \<open>Token sequences\<close>

datatype token = Lit char | Par string | Wild

function tokens :: "string \<Rightarrow> token list" where
  "tokens r =
     (if r = [] then []
      else if hd r = CHR '':'' then
        (case sv_find CHR ''/'' (tl r) 0 of
           None \<Rightarrow> [Par (tl r)]
         | Some k \<Rightarrow> Par (take k (tl r)) # tokens (drop k (tl r)))
      else if hd r = CHR ''*'' then [Wild]
      else Lit (hd r) # tokens (tl r))"
  by pat_completeness auto
termination
proof (relation "measure length")
  fix r :: string and k assume "r \<noteq> []"
  then show "(drop k (tl r), r) \<in> measure length" by (cases r) auto
qed auto

declare tokens.simps [simp del]

definition node_toks :: "'h radix_node \<Rightarrow> token list" where
  "node_toks n = (case rn_type n of
      Static \<Rightarrow> map Lit (rn_prefix n) | Param \<Rightarrow> [Par (rn_param_name n)] | Wildcard \<Rightarrow> [Wild])"

inductive handler_at :: "'h radix_node \<Rightarrow> token list \<Rightarrow> nat \<Rightarrow> 'h \<Rightarrow> bool" where
  here: "i < length (rn_handlers n) \<Longrightarrow> rn_handlers n ! i = Some x \<Longrightarrow> handler_at n [] i x"
| below: "c \<in> set (rn_children n) \<Longrightarrow> handler_at c ts i x \<Longrightarrow> handler_at n (node_toks c @ ts) i x"

inductive_simps handler_at_iff: "handler_at n ts i x"

text \<open>Handlers below a child, the child's own tokens included.\<close>

definition through :: "'h radix_node \<Rightarrow> token list \<Rightarrow> nat \<Rightarrow> 'h \<Rightarrow> bool" where
  "through c ts i x \<longleftrightarrow> (\<exists>ts'. ts = node_toks c @ ts' \<and> handler_at c ts' i x)"

definition own :: "'h radix_node \<Rightarrow> token list \<Rightarrow> nat \<Rightarrow> 'h \<Rightarrow> bool" where
  "own n ts i x \<longleftrightarrow> ts = [] \<and> i < length (rn_handlers n) \<and> rn_handlers n ! i = Some x"

lemma handler_at_split:
  "handler_at n ts i x \<longleftrightarrow> own n ts i x \<or> (\<exists>c \<in> set (rn_children n). through c ts i x)"
  by (subst handler_at_iff) (auto simp: own_def through_def)

text \<open>
  The invariant: nine handler slots, the flag that says whether one is used, children that start
  with different tokens, and wildcards without children.
\<close>

fun wf_node :: "'h radix_node \<Rightarrow> bool" where
  "wf_node (RadixNode p ty pn cs hs any) \<longleftrightarrow>
     length hs = 9 \<and> any = list_ex (\<lambda>x. x \<noteq> None) hs \<and>
     list_all (\<lambda>c. node_toks c \<noteq> []) cs \<and> distinct (map (\<lambda>c. hd (node_toks c)) cs) \<and>
     (ty = Wildcard \<longrightarrow> cs = []) \<and> (\<forall>c \<in> set cs. wf_node c)"

lemma wf_node_iff:
  "wf_node n \<longleftrightarrow>
     length (rn_handlers n) = 9 \<and> rn_has_any_handler n = list_ex (\<lambda>x. x \<noteq> None) (rn_handlers n) \<and>
     list_all (\<lambda>c. node_toks c \<noteq> []) (rn_children n) \<and>
     distinct (map (\<lambda>c. hd (node_toks c)) (rn_children n)) \<and>
     (rn_type n = Wildcard \<longrightarrow> rn_children n = []) \<and> (\<forall>c \<in> set (rn_children n). wf_node c)"
  by (cases n) simp

lemma set_children_simps [simp]:
  "rn_prefix (set_children cs n) = rn_prefix n" "rn_type (set_children cs n) = rn_type n"
  "rn_param_name (set_children cs n) = rn_param_name n" "rn_children (set_children cs n) = cs"
  "rn_handlers (set_children cs n) = rn_handlers n"
  "rn_has_any_handler (set_children cs n) = rn_has_any_handler n"
  "node_toks (set_children cs n) = node_toks n" "own (set_children cs n) = own n"
  by (simp_all add: set_children_def node_toks_def own_def fun_eq_iff split: radix_node_type.split)

subsection \<open>The two ways a child list changes\<close>

text \<open>What an insertion below tokens \<open>us\<close> must do to the handlers.\<close>

definition updates ::
    "(token list \<Rightarrow> nat \<Rightarrow> 'h \<Rightarrow> bool) \<Rightarrow> (token list \<Rightarrow> nat \<Rightarrow> 'h \<Rightarrow> bool) \<Rightarrow>
     token list \<Rightarrow> nat \<Rightarrow> 'h \<Rightarrow> bool" where
  "updates new old us idx h \<longleftrightarrow>
     (\<forall>ts i x. new ts i x \<longleftrightarrow> (if ts = us \<and> i = idx then x = h else old ts i x))"

lemma through_first: "through c ts i x \<Longrightarrow> node_toks c \<noteq> [] \<Longrightarrow> ts \<noteq> [] \<and> hd ts = hd (node_toks c)"
  by (auto simp: through_def)

lemma bex_update:
  assumes "i < length cs"
  shows "(\<exists>c \<in> set (cs[i := c']). P c) \<longleftrightarrow> P c' \<or> (\<exists>j < length cs. j \<noteq> i \<and> P (cs ! j))"
proof -
  have "(\<exists>c \<in> set (cs[i := c']). P c) \<longleftrightarrow> (\<exists>j < length cs. P (cs[i := c'] ! j))"
    by (auto simp: set_conv_nth simp del: nth_list_update_eq)
  also have "\<dots> \<longleftrightarrow> P c' \<or> (\<exists>j < length cs. j \<noteq> i \<and> P (cs ! j))"
    using assms by (auto simp: nth_list_update split: if_splits)
  finally show ?thesis .
qed

lemma update_child:
  assumes wf: "wf_node n" and i: "i < length (rn_children n)"
    and c': "wf_node c'" "node_toks c' \<noteq> []" "hd (node_toks c') = hd (node_toks (rn_children n ! i))"
    and us: "us \<noteq> []" "hd us = hd (node_toks c')"
    and up: "updates (through c') (through (rn_children n ! i)) us idx h"
  shows "wf_node (set_children ((rn_children n)[i := c']) n)"
    and "updates (handler_at (set_children ((rn_children n)[i := c']) n)) (handler_at n) us idx h"
proof -
  let ?cs = "rn_children n"
  note w = iffD1 [OF wf_node_iff wf]
  have m: "map (\<lambda>c. hd (node_toks c)) (?cs[i := c']) = map (\<lambda>c. hd (node_toks c)) ?cs"
    using i c'(3) by (metis list_update_id map_update nth_map)
  have "set (?cs[i := c']) \<subseteq> Set.insert c' (set ?cs)" by (rule set_update_subset_insert)
  then have sub: "P c" if "c \<in> set (?cs[i := c'])" "P c'" "\<And>c. c \<in> set ?cs \<Longrightarrow> P c" for c P
    using that by blast
  show "wf_node (set_children (?cs[i := c']) n)"
  proof (rule iffD2 [OF wf_node_iff], intro conjI)
    show "distinct (map (\<lambda>c. hd (node_toks c)) (rn_children (set_children (?cs[i := c']) n)))"
      using w by (simp only: set_children_simps m)
    show "list_all (\<lambda>c. node_toks c \<noteq> []) (rn_children (set_children (?cs[i := c']) n))"
      unfolding set_children_simps list_all_iff
      using w c'(2) sub [of _ "\<lambda>c. node_toks c \<noteq> []"] by (simp add: list_all_iff)
    show "\<forall>c \<in> set (rn_children (set_children (?cs[i := c']) n)). wf_node c"
      unfolding set_children_simps using w c'(1) sub [of _ wf_node] by blast
  qed (use w i in auto)
  have others: "\<not> through (?cs ! j) us k x" if "j < length ?cs" "j \<noteq> i" for j k x
  proof
    assume "through (?cs ! j) us k x"
    moreover have "node_toks (?cs ! j) \<noteq> []" using w that by (simp add: list_all_length)
    ultimately have "hd us = hd (node_toks (?cs ! j))"
      using through_first [of "?cs ! j" us k x] by simp
    moreover have "hd (node_toks (?cs ! j)) \<noteq> hd (node_toks (?cs ! i))"
      using w that i by (auto simp: distinct_conv_nth)
    ultimately show False using us c' by simp
  qed
  have ex: "(\<exists>c \<in> set (?cs[i := c']). through c ts k x) \<longleftrightarrow>
      through c' ts k x \<or> (\<exists>j < length ?cs. j \<noteq> i \<and> through (?cs ! j) ts k x)" for ts k x
    by (rule bex_update [OF i])
  have ex0: "(\<exists>c \<in> set ?cs. through c ts k x) \<longleftrightarrow>
      through (?cs ! i) ts k x \<or> (\<exists>j < length ?cs. j \<noteq> i \<and> through (?cs ! j) ts k x)" for ts k x
    using bex_update [OF i, of "?cs ! i"] by simp
  show "updates (handler_at (set_children (?cs[i := c']) n)) (handler_at n) us idx h"
    unfolding updates_def handler_at_split [of "set_children _ _"] handler_at_split [of n]
      set_children_simps ex ex0
    using up others us(1) by (auto simp: updates_def own_def)
qed

lemma append_child:
  assumes wf: "wf_node n" and nw: "rn_type n \<noteq> Wildcard"
    and c': "wf_node c'" "node_toks c' \<noteq> []" "hd (node_toks c') \<notin> (\<lambda>c. hd (node_toks c)) ` set (rn_children n)"
    and us: "us \<noteq> []" "hd us = hd (node_toks c')"
    and up: "updates (through c') (\<lambda>ts i x. False) us idx h"
  shows "wf_node (set_children (rn_children n @ [c']) n)"
    and "updates (handler_at (set_children (rn_children n @ [c']) n)) (handler_at n) us idx h"
proof -
  note w = iffD1 [OF wf_node_iff wf]
  show "wf_node (set_children (rn_children n @ [c']) n)"
  proof (rule iffD2 [OF wf_node_iff], intro conjI)
    show "distinct (map (\<lambda>c. hd (node_toks c)) (rn_children (set_children (rn_children n @ [c']) n)))"
      using w c'(3) by simp
  qed (use w c'(1,2) nw in simp_all)
  have "\<not> through c us k x" if "c \<in> set (rn_children n)" for c k x
  proof
    assume "through c us k x"
    moreover have "node_toks c \<noteq> []" using w that by (simp add: list_all_iff)
    ultimately have "hd us = hd (node_toks c)" using through_first [of c us k x] by simp
    then show False using us c'(3) that by auto
  qed
  then show "updates (handler_at (set_children (rn_children n @ [c']) n)) (handler_at n) us idx h"
    using up us(1)
    by (simp add: updates_def handler_at_split [of "set_children (rn_children n @ [c']) n"]
        handler_at_split [of n]) (auto simp: own_def)
qed


subsection \<open>Insertion is map update\<close>

lemma set_handler_simps [simp]:
  "rn_type (set_handler idx h n) = rn_type n" "rn_children (set_handler idx h n) = rn_children n"
  "node_toks (set_handler idx h n) = node_toks n"
  by (auto simp: set_handler_def node_toks_def split: radix_node_type.split)

lemma no_through_Nil: "wf_node n \<Longrightarrow> c \<in> set (rn_children n) \<Longrightarrow> \<not> through c [] i x"
  by (subst (asm) wf_node_iff) (auto simp: through_def list_all_iff)

lemma set_handler_ok:
  assumes "wf_node n" "idx < 9"
  shows "wf_node (set_handler idx h n)" "updates (handler_at (set_handler idx h n)) (handler_at n) [] idx h"
proof -
  note w = iffD1 [OF wf_node_iff assms(1)]
  have "list_ex (\<lambda>x. x \<noteq> None) ((rn_handlers n)[idx := Some h])"
    using w assms(2) set_update_memI [of idx "rn_handlers n" "Some h"] by (auto simp: list_ex_iff)
  then show "wf_node (set_handler idx h n)"
    using w assms(2) by (intro iffD2 [OF wf_node_iff]) (auto simp: set_handler_def)
  show "updates (handler_at (set_handler idx h n)) (handler_at n) [] idx h"
    unfolding updates_def handler_at_split [of "set_handler idx h n"] handler_at_split [of n]
    using w assms(2) no_through_Nil [OF assms(1)]
    by (auto simp: own_def set_handler_def nth_list_update)
qed

lemma new_node_ok:
  "node_toks (new_node p ty pn :: 'h radix_node) =
    (case ty of Static \<Rightarrow> map Lit p | Param \<Rightarrow> [Par pn] | Wildcard \<Rightarrow> [Wild])"
  "wf_node (new_node p ty pn :: 'h radix_node)"
  "\<not> handler_at (new_node p ty pn :: 'h radix_node) ts i x"
  "rn_type (new_node p ty pn :: 'h radix_node) = ty"
  by (auto simp: new_node_def node_toks_def no_handlers_def list_ex_iff handler_at_split own_def
      split: radix_node_type.split)

lemma updates_through:
  assumes "updates (handler_at c') (handler_at c) us idx h" "node_toks c' = node_toks c"
  shows "updates (through c') (through c) (node_toks c @ us) idx h"
  using assms by (auto simp: updates_def through_def)

lemma updates_through_new:
  assumes "updates (handler_at c') (handler_at c) us idx h" "node_toks c' = node_toks c"
    and "\<And>ts i x. \<not> handler_at c ts i x"
  shows "updates (through c') (\<lambda>ts i x. False) (node_toks c @ us) idx h"
  using updates_through [OF assms(1,2)] assms(3) by (simp add: updates_def through_def)

lemma split_child_ok:
  assumes "wf_node c" "rn_type c = Static" "0 < cpl" "cpl \<le> length (rn_prefix c)"
  shows "wf_node (split_child cpl c)" "node_toks (split_child cpl c) = map Lit (take cpl (rn_prefix c))"
    "rn_type (split_child cpl c) = Static" "through (split_child cpl c) = through c"
proof -
  let ?d = "RadixNode (drop cpl (rn_prefix c)) (rn_type c) (rn_param_name c) (rn_children c)
    (rn_handlers c) (rn_has_any_handler c)"
  note w = iffD1 [OF wf_node_iff assms(1)]
  have d: "wf_node ?d" using w by simp
  have nd: "node_toks ?d = map Lit (drop cpl (rn_prefix c))" "node_toks c = map Lit (rn_prefix c)"
    using assms(2) by (simp_all add: node_toks_def)
  have hd: "handler_at ?d ts i x = handler_at c ts i x" for ts i x
    by (simp add: handler_at_split [of ?d] handler_at_split [of c] own_def)
  show "wf_node (split_child cpl c)"
    using d nd assms by (cases "cpl < length (rn_prefix c)")
      (simp_all add: split_child_def no_handlers_def list_ex_iff)
  show tk: "node_toks (split_child cpl c) = map Lit (take cpl (rn_prefix c))"
    using assms by (simp add: split_child_def node_toks_def)
  show "rn_type (split_child cpl c) = Static" using assms(2) by (simp add: split_child_def)
  show "through (split_child cpl c) = through c"
  proof (cases "cpl < length (rn_prefix c)")
    case True
    have "handler_at (split_child cpl c) ts i x \<longleftrightarrow> through ?d ts i x" for ts i x
      using True by (subst handler_at_split) (auto simp: split_child_def own_def no_handlers_def)
    then have "through (split_child cpl c) ts i x \<longleftrightarrow>
        (\<exists>ts'. ts = map Lit (take cpl (rn_prefix c)) @ map Lit (drop cpl (rn_prefix c)) @ ts' \<and>
          handler_at c ts' i x)" for ts i x
      unfolding through_def tk nd hd by (auto simp: through_def nd hd)
    moreover have "map Lit (take cpl (rn_prefix c)) @ map Lit (drop cpl (rn_prefix c)) = map Lit (rn_prefix c)"
      by (metis append_take_drop_id map_append)
    ultimately show ?thesis unfolding through_def nd by (simp add: fun_eq_iff flip: append_assoc)
  qed (simp add: split_child_def)
qed

lemma tokens_Nil [simp]: "tokens [] = []"
  by (subst tokens.simps) simp

lemma tokens_param:
  "r \<noteq> [] \<Longrightarrow> hd r = CHR '':'' \<Longrightarrow>
    tokens r = Par (head_part (sv_find CHR ''/'' (tl r) 0) (tl r)) #
      tokens (case sv_find CHR ''/'' (tl r) 0 of None \<Rightarrow> [] | Some k \<Rightarrow> drop k (tl r))"
  by (subst tokens.simps) (simp add: head_part_def split: option.split)

lemma tokens_wild: "r \<noteq> [] \<Longrightarrow> hd r = CHR ''*'' \<Longrightarrow> tokens r = [Wild]"
  by (subst tokens.simps) simp

lemma tokens_static_Cons:
  "c \<noteq> CHR '':'' \<Longrightarrow> c \<noteq> CHR ''*'' \<Longrightarrow> tokens (c # r) = Lit c # tokens r"
  by (subst tokens.simps) simp

lemma static_chunk_nth:
  "j < length (static_chunk r) \<Longrightarrow> r ! j \<noteq> CHR '':'' \<and> r ! j \<noteq> CHR ''*''"
  by (auto simp: static_chunk_def head_part_def sv_find_first_of_def first_in_Some_iff
      first_in_None_iff split: option.splits)

lemma static_chunk_take: "static_chunk r = take (length (static_chunk r)) r"
  by (auto simp: static_chunk_def head_part_def min_def split: option.split)

lemma tokens_static:
  "k \<le> length (static_chunk r) \<Longrightarrow> tokens r = map Lit (take k r) @ tokens (drop k r)"
proof (induction k)
  case (Suc k)
  have k: "k < length r"
    using Suc.prems arg_cong [OF static_chunk_take [of r], of length] by simp
  have "tokens (drop k r) = Lit (r ! k) # tokens (drop (Suc k) r)"
    using static_chunk_nth [of k r] Suc.prems k
    by (simp add: Cons_nth_drop_Suc [symmetric] tokens_static_Cons)
  with Suc k show ?case by (simp add: take_Suc_conv_app_nth)
qed simp

lemma tokens_nonempty: "r \<noteq> [] \<Longrightarrow> tokens r \<noteq> []"
  by (subst tokens.simps) (simp split: option.split)

lemma find_child_Some:
  "find_child P n = Some i \<Longrightarrow> i < length (rn_children n) \<and> P (rn_children n ! i)"
  by (simp add: find_child_def first_in_Some_iff)

lemma find_child_None: "find_child P n = None \<Longrightarrow> c \<in> set (rn_children n) \<Longrightarrow> \<not> P c"
  by (auto simp: find_child_def first_in_None_iff in_set_conv_nth)


text \<open>What one insertion does to a node: the invariant, the node's own tokens and its handlers.\<close>

definition inserted :: "'h radix_node \<Rightarrow> 'h radix_node \<Rightarrow> token list \<Rightarrow> nat \<Rightarrow> 'h \<Rightarrow> bool" where
  "inserted n' n us idx h \<longleftrightarrow>
     wf_node n' \<and> node_toks n' = node_toks n \<and> updates (handler_at n') (handler_at n) us idx h"

lemma inserted_update_child:
  assumes wf: "wf_node n" and i: "i < length (rn_children n)"
    and d: "through d = through (rn_children n ! i)" "node_toks d \<noteq> []"
      "hd (node_toks d) = hd (node_toks (rn_children n ! i))"
    and c': "inserted c' d us idx h"
  shows "inserted (set_children ((rn_children n)[i := c']) n) n (node_toks d @ us) idx h"
proof -
  have "updates (through c') (through (rn_children n ! i)) (node_toks d @ us) idx h"
    using c' updates_through [of c' d us idx h] d(1) by (simp add: inserted_def)
  then show ?thesis
    using update_child [OF wf i, of c' "node_toks d @ us" idx h] c' d by (simp add: inserted_def)
qed

lemma inserted_append_child:
  assumes wf: "wf_node n" and nw: "rn_type n \<noteq> Wildcard"
    and d: "\<And>ts i x. \<not> handler_at d ts i x" "node_toks d \<noteq> []"
      "\<And>c. c \<in> set (rn_children n) \<Longrightarrow> hd (node_toks c) \<noteq> hd (node_toks d)"
    and c': "inserted c' d us idx h"
  shows "inserted (set_children (rn_children n @ [c']) n) n (node_toks d @ us) idx h"
proof -
  have "updates (through c') (\<lambda>ts i x. False) (node_toks d @ us) idx h"
    using c' updates_through_new [of c' d us idx h] d(1) by (simp add: inserted_def)
  moreover have "hd (node_toks c') \<notin> (\<lambda>c. hd (node_toks c)) ` set (rn_children n)"
    using d(3) c' by (fastforce simp: inserted_def)
  ultimately show ?thesis
    using append_child [OF wf nw, of c' "node_toks d @ us" idx h] c' d(2) by (simp add: inserted_def)
qed

lemma set_handler_inserted: "wf_node n \<Longrightarrow> idx < 9 \<Longrightarrow> inserted (set_handler idx h n) n [] idx h"
  by (simp add: inserted_def set_handler_ok)

lemma wf_child: "wf_node n \<Longrightarrow> i < length (rn_children n) \<Longrightarrow>
    wf_node (rn_children n ! i) \<and> node_toks (rn_children n ! i) \<noteq> []"
  by (subst (asm) wf_node_iff) (simp add: list_all_length)

lemma insert_at_param:
  assumes param: "r \<noteq> []" "hd r = CHR '':''"
    and wf: "wf_node n" and nw: "rn_type n \<noteq> Wildcard" and idx: "idx < 9"
    and IH: "\<And>r' m. length r' < length r \<Longrightarrow> wf_node m \<Longrightarrow> rn_type m \<noteq> Wildcard \<Longrightarrow>
      inserted (insert_at t idx h r' m) m (tokens r') idx h"
  shows "inserted (insert_at t idx h r n) n (tokens r) idx h"
proof -
  let ?f = "sv_find CHR ''/'' (tl r) 0"
  let ?name = "head_part ?f (tl r)" and ?rest = "case ?f of None \<Rightarrow> [] | Some k \<Rightarrow> drop k (tl r)"
  let ?find = "find_child (\<lambda>c. rn_type c = Param \<and> rn_param_name c = ?name) n"
  have short: "length ?rest < length r"
    using param(1) by (cases r) (auto split: option.split)
  have tk: "tokens r = [Par ?name] @ tokens ?rest" using tokens_param [OF param] by simp
  have ins: "insert_at t idx h r n = (case ?find of
      Some i \<Rightarrow> set_children ((rn_children n)[i := insert_at t idx h ?rest (rn_children n ! i)]) n
    | None \<Rightarrow> set_children (rn_children n @ [insert_at t idx h ?rest (new_node [] Param ?name)]) n)"
    using param by (subst insert_at.simps) (simp add: scan_simps Let_def)
  show ?thesis
  proof (cases ?find)
    case None
    have "hd (node_toks c) \<noteq> Par ?name" if "c \<in> set (rn_children n)" for c
      using find_child_None [OF None that] wf that
      by (cases "rn_type c"; cases "rn_prefix c")
        (auto simp: node_toks_def wf_node_iff [of n] list_all_iff)
    then show ?thesis
      using inserted_append_child [OF wf nw _ _ _ IH [OF short, of "new_node [] Param ?name"]] idx
      by (simp add: ins None new_node_ok tk)
  next
    case (Some i)
    note c = find_child_Some [OF Some]
    then have "node_toks (rn_children n ! i) = [Par ?name]" by (simp add: node_toks_def)
    then show ?thesis
      using inserted_update_child [OF wf _ refl _ refl IH [OF short, of "rn_children n ! i"]]
        wf_child [OF wf] c idx by (simp add: ins Some tk)
  qed
qed

lemma insert_at_wild:
  assumes wild: "r \<noteq> []" "hd r = CHR ''*''"
    and wf: "wf_node n" and nw: "rn_type n \<noteq> Wildcard" and idx: "idx < 9"
  shows "inserted (insert_at t idx h r n) n (tokens r) idx h"
proof -
  let ?find = "find_child (\<lambda>c. rn_type c = Wildcard) n"
  have ins: "insert_at t idx h r n = (case ?find of
      Some i \<Rightarrow> set_children ((rn_children n)[i := set_handler idx h (rn_children n ! i)]) n
    | None \<Rightarrow> set_children (rn_children n @ [set_handler idx h (new_node [] Wildcard (tl r))]) n)"
    using wild by (subst insert_at.simps) simp
  show ?thesis
  proof (cases ?find)
    case None
    have "hd (node_toks c) \<noteq> Wild" if "c \<in> set (rn_children n)" for c
      using find_child_None [OF None that] wf that
      by (cases "rn_type c"; cases "rn_prefix c")
        (auto simp: node_toks_def wf_node_iff [of n] list_all_iff)
    then show ?thesis
      using inserted_append_child [OF wf nw _ _ _ set_handler_inserted [of "new_node [] Wildcard (tl r)"]] idx
      by (simp add: ins None new_node_ok tokens_wild [OF wild])
  next
    case (Some i)
    note c = find_child_Some [OF Some]
    then have "node_toks (rn_children n ! i) = [Wild]" by (simp add: node_toks_def)
    then show ?thesis
      using inserted_update_child [OF wf _ refl _ refl set_handler_inserted [of "rn_children n ! i"]]
        wf_child [OF wf] c idx by (simp add: ins Some tokens_wild [OF wild])
  qed
qed

lemma insert_at_static:
  assumes static: "r \<noteq> []" "hd r \<noteq> CHR '':''" "hd r \<noteq> CHR ''*''"
    and wf: "wf_node n" and nw: "rn_type n \<noteq> Wildcard" and idx: "idx < 9"
    and IH: "\<And>r' m. length r' < length r \<Longrightarrow> wf_node m \<Longrightarrow> rn_type m \<noteq> Wildcard \<Longrightarrow>
      inserted (insert_at t idx h r' m) m (tokens r') idx h"
  shows "inserted (insert_at t idx h r n) n (tokens r) idx h"
proof -
  let ?chunk = "static_chunk r"
  let ?cpl = "\<lambda>c :: 'a radix_node. simd_common_prefix t (rn_prefix c) ?chunk"
  let ?find = "find_child (\<lambda>c. rn_type c = Static \<and> rn_prefix c \<noteq> [] \<and> 0 < ?cpl c) n"
  have pos: "0 < length ?chunk" by (rule static_chunk_pos [OF static])
  have ins: "insert_at t idx h r n = (case ?find of
      Some i \<Rightarrow> set_children ((rn_children n)[i := insert_at t idx h (drop (?cpl (rn_children n ! i)) r)
          (split_child (?cpl (rn_children n ! i)) (rn_children n ! i))]) n
    | None \<Rightarrow> set_children (rn_children n @
          [insert_at t idx h (drop (length ?chunk) r) (new_node ?chunk Static [])]) n)"
    using static by (subst insert_at.simps) (simp add: Let_def split: option.split)
  have short: "length (drop k r) < length r" if "0 < k" for k
    using static(1) that by simp
  show ?thesis
  proof (cases ?find)
    case None
    have "hd (node_toks c) \<noteq> Lit (hd ?chunk)" if "c \<in> set (rn_children n)" for c
    proof
      assume eq: "hd (node_toks c) = Lit (hd ?chunk)"
      then have st: "rn_type c = Static" "rn_prefix c \<noteq> []" "hd (rn_prefix c) = hd ?chunk"
        using wf that by (cases "rn_type c"; cases "rn_prefix c";
            auto simp: node_toks_def wf_node_iff [of n] list_all_iff)+
      then have "?cpl c = 0" using find_child_None [OF None that] by simp
      then show False
        using simd_common_prefix_spec(4) [of t "rn_prefix c" ?chunk] st pos by (simp add: hd_conv_nth)
    qed
    moreover have "hd (map Lit ?chunk) = Lit (hd ?chunk)" using pos by (simp add: hd_map)
    ultimately show ?thesis
      using inserted_append_child [OF wf nw _ _ _ IH [OF short [OF pos], of "new_node ?chunk Static []"]]
        pos idx tokens_static [of "length ?chunk" r] static_chunk_take [of r]
      by (simp add: ins None new_node_ok)
  next
    case (Some i)
    let ?c = "rn_children n ! i"
    note c = find_child_Some [OF Some] and wfc = wf_child [OF wf, of i]
    note sp = simd_common_prefix_spec [of t "rn_prefix ?c" ?chunk]
    note d = split_child_ok [of ?c "?cpl ?c"]
    have tk: "node_toks ?c = map Lit (rn_prefix ?c)" using c by (simp add: node_toks_def)
    have "take (?cpl ?c) ?chunk = take (?cpl ?c) r"
      using sp(2) by (subst static_chunk_take) (simp add: min_def)
    then have "tokens r = node_toks (split_child (?cpl ?c) ?c) @ tokens (drop (?cpl ?c) r)"
      using tokens_static [OF sp(2)] d c wfc sp by simp
    moreover have "hd (node_toks (split_child (?cpl ?c) ?c)) = hd (node_toks ?c)"
        "node_toks (split_child (?cpl ?c) ?c) \<noteq> []"
      using d c wfc sp(1) tk by (auto simp: hd_map)
    ultimately show ?thesis
      using inserted_update_child [OF wf _ _ _ _ IH [OF short, of "?cpl ?c" "split_child (?cpl ?c) ?c"]]
        d c wfc sp(1) idx by (simp add: ins Some)
  qed
qed

lemma insert_at_inserted:
  assumes "wf_node n" "rn_type n \<noteq> Wildcard" "idx < 9"
  shows "inserted (insert_at t idx h r n) n (tokens r) idx h"
  using assms
proof (induction r arbitrary: n rule: length_induct)
  case (1 r)
  note IH = 1(1) [rule_format, OF _ _ _ 1(4)] and rest = 1(2-4)
  consider "r = []" | "r \<noteq> []" "hd r = CHR '':''" | "r \<noteq> []" "hd r = CHR ''*''"
    | "r \<noteq> []" "hd r \<noteq> CHR '':''" "hd r \<noteq> CHR ''*''" by blast
  then show ?case
    using insert_at_param [OF _ _ rest IH] insert_at_wild [OF _ _ rest] insert_at_static [OF _ _ _ rest IH]
      set_handler_inserted [OF 1(2,4)]
    by cases (simp_all add: insert_at.simps [of t idx h "[]"])
qed

end
