(* ===== verification/Route_Matching.thy ===== *)
theory Route_Matching
  imports Radix_Proofs
begin

text \<open>
  Matching in the radix tree: it finds a route exactly when a registered pattern matches the path,
  returns the handler registered for that pattern and method, binds the parameters the pattern
  names, and prefers a literal route.
\<close>

subsection \<open>Patterns and paths\<close>

text \<open>
  \<open>pattern_match w ts path b\<close>: the tokens match the path and bind \<open>b\<close>; \<open>w\<close> is the name of a final
  wildcard. \<open>tolerant_match\<close> adds the two places where the tree tolerates a final slash.
\<close>

definition wild_binding :: "string \<Rightarrow> string \<Rightarrow> stack_params" where
  "wild_binding w path = (if w = [] then [] else [(w, path)])"

inductive pattern_match :: "string \<Rightarrow> token list \<Rightarrow> string \<Rightarrow> stack_params \<Rightarrow> bool" where
  pm_end: "pattern_match w [] [] []"
| pm_lit: "pattern_match w ts p b \<Longrightarrow> pattern_match w (Lit c # ts) (c # p) b"
| pm_par: "v \<noteq> [] \<Longrightarrow> CHR ''/'' \<notin> set v \<Longrightarrow> p = [] \<or> hd p = CHR ''/'' \<Longrightarrow> pattern_match w ts p b \<Longrightarrow>
    pattern_match w (Par k # ts) (v @ p) ((k, v) # b)"
| pm_wild: "pattern_match w [Wild] p (wild_binding w p)"

inductive tolerant_match :: "string \<Rightarrow> token list \<Rightarrow> string \<Rightarrow> stack_params \<Rightarrow> bool" where
  tm_end: "tolerant_match w [] [] []"
| tm_slash: "tolerant_match w [Lit CHR ''/''] [] []"
| tm_lit: "tolerant_match w ts p b \<Longrightarrow> tolerant_match w (Lit c # ts) (c # p) b"
| tm_par: "v \<noteq> [] \<Longrightarrow> CHR ''/'' \<notin> set v \<Longrightarrow> p = [] \<or> hd p = CHR ''/'' \<Longrightarrow> tolerant_match w ts p b \<Longrightarrow>
    tolerant_match w (Par k # ts) (v @ p) ((k, v) # b)"
| tm_par_slash: "v \<noteq> [] \<Longrightarrow> CHR ''/'' \<notin> set v \<Longrightarrow> tolerant_match w [Par k] (v @ ''/'') [(k, v)]"
| tm_wild: "tolerant_match w [Wild] p (wild_binding w p)"

inductive_cases pattern_match_NilE: "pattern_match w [] p b"
inductive_cases pattern_match_LitE: "pattern_match w (Lit c # ts) p b"
inductive_cases pattern_match_ParE: "pattern_match w (Par k # ts) p b"

lemma tolerant_lits: "tolerant_match w ts p b \<Longrightarrow> tolerant_match w (map Lit q @ ts) (q @ p) b"
  by (induction q) (auto intro: tolerant_match.intros)

lemma pattern_match_lits:
  "pattern_match w (map Lit q @ ts) p b \<Longrightarrow> \<exists>p'. p = q @ p' \<and> pattern_match w ts p' b"
  by (induction q arbitrary: p) (auto elim!: pattern_match_LitE)

text \<open>The nodes of a tree by their tokens, the node's own included.\<close>

inductive node_at :: "'h radix_node \<Rightarrow> token list \<Rightarrow> 'h radix_node \<Rightarrow> bool" where
  at_self: "node_at n (node_toks n) n"
| at_below: "c \<in> set (rn_children n) \<Longrightarrow> node_at c ts m \<Longrightarrow> node_at n (node_toks n @ ts) m"

lemma node_at_through:
  assumes "node_at n ts m" "i < length (rn_handlers m)" "rn_handlers m ! i = Some x"
  shows "through n ts i x"
  using assms
proof induction
  case (at_self n)
  then show ?case by (auto simp: through_def intro: handler_at.here)
next
  case (at_below c n ts m)
  then obtain ts' where "ts = node_toks c @ ts'" "handler_at c ts' i x" by (auto simp: through_def)
  with at_below.hyps(1) show ?case by (auto simp: through_def intro: handler_at.below)
qed

subsection \<open>One level of matching\<close>

lemma match_static:
  "match_node t (RadixNode pre Static pn cs hs any) path ps =
     (if \<not> starts_with path pre then (None, ps)
      else case (if drop (length pre) path = [] then
                   if any then Some (RadixNode pre Static pn cs hs any)
                   else List.find (\<lambda>c. rn_type c = Static \<and> rn_prefix c = ''/'' \<and> rn_has_any_handler c) cs
                 else None) of
          Some n \<Rightarrow> (Some n, ps)
        | None \<Rightarrow>
            (case match_children t StaticPhase cs (drop (length pre) path) ps of
               (Some n, ps) \<Rightarrow> (Some n, ps)
             | (None, ps) \<Rightarrow>
                 (case match_children t ParamPhase cs (drop (length pre) path) ps of
                    (Some n, ps) \<Rightarrow> (Some n, ps)
                  | (None, ps) \<Rightarrow> match_children t WildcardPhase cs (drop (length pre) path) ps)))"
proof -
  have "pre \<noteq> [] \<and> \<not> starts_with path pre \<longleftrightarrow> \<not> starts_with path pre"
    by (auto simp: starts_with_iff)
  then show ?thesis
    by (simp only: match_node.simps scan_simps Let_def radix_node_type.case)
qed

text \<open>A path split at its first slash.\<close>

lemma slash_split:
  fixes path :: string
  obtains v p where "path = v @ p" "CHR ''/'' \<notin> set v" "p = [] \<or> hd p = CHR ''/''"
proof
  show "path = takeWhile (\<lambda>c. c \<noteq> CHR ''/'') path @ dropWhile (\<lambda>c. c \<noteq> CHR ''/'') path" by simp
  show "CHR ''/'' \<notin> set (takeWhile (\<lambda>c. c \<noteq> CHR ''/'') path)" by (auto dest: set_takeWhileD)
  show "dropWhile (\<lambda>c. c \<noteq> CHR ''/'') path = [] \<or> hd (dropWhile (\<lambda>c. c \<noteq> CHR ''/'') path) = CHR ''/''"
    using hd_dropWhile [of "\<lambda>c. c \<noteq> CHR ''/''" path] by blast
qed

lemma slash_split_unique:
  assumes "CHR ''/'' \<notin> set v" "p = [] \<or> hd p = CHR ''/''"
  shows "head_part (sv_find CHR ''/'' (v @ p) 0) (v @ p) = v"
    and "(case sv_find CHR ''/'' (v @ p) 0 of None \<Rightarrow> [] | Some k \<Rightarrow> drop k (v @ p)) = p"
proof -
  have "sv_find CHR ''/'' (v @ p) 0 = (if p = [] then None else Some (length v))"
    using assms by (cases p) (auto simp: sv_find_None_iff sv_find_Some_iff nth_append in_set_conv_nth)
  then show "head_part (sv_find CHR ''/'' (v @ p) 0) (v @ p) = v"
    "(case sv_find CHR ''/'' (v @ p) 0 of None \<Rightarrow> [] | Some k \<Rightarrow> drop k (v @ p)) = p"
    by (simp_all add: head_part_def)
qed

lemma match_param:
  assumes "CHR ''/'' \<notin> set v" "p = [] \<or> hd p = CHR ''/''"
  shows "match_node t (RadixNode pre Param pn cs hs any) (v @ p) ps =
     (if v = [] then (None, ps)
      else if (p = [] \<or> p = ''/'') \<and> any
      then (Some (RadixNode pre Param pn cs hs any), push_param pn v ps)
      else case match_children t AnyPhase cs p (push_param pn v ps) of
             (Some n, ps) \<Rightarrow> (Some n, ps) | (None, ps) \<Rightarrow> (None, pop_param ps))"
  by (simp add: match_node.simps scan_simps Let_def slash_split_unique [OF assms])

lemma match_wild:
  "match_node t (RadixNode pre Wildcard pn cs hs any) path ps =
     (if any then (Some (RadixNode pre Wildcard pn cs hs any), if pn \<noteq> [] then push_param pn path ps else ps)
      else (None, if pn \<noteq> [] then pop_param (push_param pn path ps) else ps))"
  by (simp add: match_node.simps)

subsection \<open>Every match is a match of the tree\<close>

text \<open>How many parameters a match of the path can push: one per segment, and a wildcard.\<close>

definition pushes :: "string \<Rightarrow> nat" where
  "pushes path = count_list path CHR ''/'' + (if path = [] \<or> hd path = CHR ''/'' then 1 else 2)"

lemma pushes_drop: "starts_with path pre \<Longrightarrow> pushes (drop (length pre) path) \<le> pushes path"
  by (cases pre) (auto simp: starts_with_iff prefix_def pushes_def)

lemma pushes_param:
  "v \<noteq> [] \<Longrightarrow> CHR ''/'' \<notin> set v \<Longrightarrow> p = [] \<or> hd p = CHR ''/'' \<Longrightarrow> pushes (v @ p) = Suc (pushes p)"
  by (cases v) (auto simp: pushes_def count_list_0_iff)

definition found :: "'h radix_node list \<Rightarrow> string \<Rightarrow> stack_params \<Rightarrow> 'h radix_node option \<times> stack_params \<Rightarrow> bool" where
  "found ns path ps r \<longleftrightarrow>
     (case fst r of
        None \<Rightarrow> snd r = ps
      | Some m \<Rightarrow> rn_has_any_handler m \<and> (\<exists>n ts b. n \<in> set ns \<and> node_at n ts m \<and>
          tolerant_match (rn_param_name m) ts path b \<and> snd r = ps @ b))"

lemma found_None [simp]: "found ns path ps (None, ps') \<longleftrightarrow> ps' = ps"
  by (simp add: found_def)

lemma foundI:
  "n \<in> set ns \<Longrightarrow> node_at n ts m \<Longrightarrow> tolerant_match (rn_param_name m) ts path b \<Longrightarrow>
    rn_has_any_handler m \<Longrightarrow> ps' = ps @ b \<Longrightarrow> found ns path ps (Some m, ps')"
  by (auto simp: found_def)

lemma foundE:
  assumes "found ns path ps (Some m, ps')"
  obtains n ts b where "n \<in> set ns" "node_at n ts m" "tolerant_match (rn_param_name m) ts path b"
    "rn_has_any_handler m" "ps' = ps @ b"
  using assms by (auto simp: found_def)

lemma found_mono: "found ns path ps r \<Longrightarrow> set ns \<subseteq> set ns' \<Longrightarrow> found ns' path ps r"
  by (fastforce simp: found_def split: option.splits)

lemma found_static:
  assumes "found cs (drop (length pre) path) ps (Some m, ps')" "starts_with path pre"
  shows "found [RadixNode pre Static pn cs hs any] path ps (Some m, ps')"
proof -
  let ?n = "RadixNode pre Static pn cs hs any"
  from assms(1) obtain c ts b where c: "c \<in> set cs" "node_at c ts m" "rn_has_any_handler m"
    "tolerant_match (rn_param_name m) ts (drop (length pre) path) b" "ps' = ps @ b" by (rule foundE)
  have "node_at ?n (map Lit pre @ ts) m"
    using at_below [of c ?n ts m] c by (simp add: node_toks_def)
  moreover have "tolerant_match (rn_param_name m) (map Lit pre @ ts) path b"
    using tolerant_lits [OF c(4), of pre] assms(2) by (auto simp: starts_with_iff prefix_def)
  ultimately show ?thesis using c by (auto intro: foundI)
qed

lemma found_param:
  assumes "found cs p (push_param pn v ps) (Some m, ps')" "length ps < 16"
    and "v \<noteq> []" "CHR ''/'' \<notin> set v" "p = [] \<or> hd p = CHR ''/''"
  shows "found [RadixNode pre Param pn cs hs any] (v @ p) ps (Some m, ps')"
proof -
  let ?n = "RadixNode pre Param pn cs hs any"
  from assms(1) obtain c ts b where c: "c \<in> set cs" "node_at c ts m" "rn_has_any_handler m"
    "tolerant_match (rn_param_name m) ts p b" "ps' = push_param pn v ps @ b" by (rule foundE)
  have "node_at ?n (Par pn # ts) m"
    using at_below [of c ?n ts m] c by (simp add: node_toks_def)
  moreover have "tolerant_match (rn_param_name m) (Par pn # ts) (v @ p) ((pn, v) # b)"
    using tm_par assms c(4) by blast
  ultimately show ?thesis using c assms(2) by (auto intro: foundI simp: push_param_def)
qed

lemma pop_push: "length ps < 16 \<Longrightarrow> pop_param (push_param k v ps) = ps"
  by (simp add: push_param_def pop_param_def)

lemma found_here:
  assumes "starts_with path pre" "drop (length pre) path = []"
    and "(if any then Some (RadixNode pre Static pn cs hs any)
          else List.find (\<lambda>c. rn_type c = Static \<and> rn_prefix c = ''/'' \<and> rn_has_any_handler c) cs) = Some m"
  shows "found [RadixNode pre Static pn cs hs any] path ps (Some m, ps)"
proof (cases any)
  case True
  have "tolerant_match pn (map Lit pre) path []"
    using tolerant_lits [OF tm_end, of pn pre] assms(1,2) by (auto simp: starts_with_iff prefix_def)
  then show ?thesis
    using assms(3) True at_self [of "RadixNode pre Static pn cs hs any"]
    by (intro foundI) (auto simp: node_toks_def)
next
  case False
  then have c: "m \<in> set cs" "rn_type m = Static" "rn_prefix m = ''/''" "rn_has_any_handler m"
    using assms(3) by (auto simp: find_Some_iff)
  have "found cs [] ps (Some m, ps)"
    using c at_self [of m] tm_slash by (intro foundI [of m]) (auto simp: node_toks_def)
  then show ?thesis using found_static [of cs pre path ps m ps pn hs any] assms(1,2) by simp
qed

lemma match_children_found:
  assumes "\<And>c. c \<in> set cs \<Longrightarrow> found [c] path ps (match_node t c path ps)"
  shows "found cs path ps (match_children t ph cs path ps)"
  using assms
proof (induction cs)
  case (Cons c cs)
  have IH: "found (c # cs) path ps (match_children t ph cs path ps)"
    by (rule found_mono [OF Cons.IH]) (use Cons.prems in auto)
  have c: "found (c # cs) path ps (match_node t c path ps)"
    by (rule found_mono [OF Cons.prems [of c]]) auto
  obtain r ps' where r: "match_node t c path ps = (r, ps')" by fastforce
  show ?case
    using IH c unfolding r by (cases r) (auto simp: r)
qed simp

lemma match_static_found:
  assumes cs: "\<And>ph. found cs (drop (length pre) path) ps (match_children t ph cs (drop (length pre) path) ps)"
  shows "found [RadixNode pre Static pn cs hs any] path ps
    (match_node t (RadixNode pre Static pn cs hs any) path ps)"
proof (cases "starts_with path pre")
  case st: True
  let ?p = "drop (length pre) path"
  let ?here = "if ?p = [] then if any then Some (RadixNode pre Static pn cs hs any)
    else List.find (\<lambda>c. rn_type c = Static \<and> rn_prefix c = ''/'' \<and> rn_has_any_handler c) cs else None"
  show ?thesis
  proof (cases ?here)
    case None
    have "found [RadixNode pre Static pn cs hs any] path ps r" if "found cs ?p ps r" for r
      using that found_static [OF _ st] by (cases r; cases "fst r") auto
    then have ph: "found [RadixNode pre Static pn cs hs any] path ps (match_children t ph cs ?p ps)" for ph
      using cs by blast
    obtain r1 ps1 where r1: "match_children t StaticPhase cs ?p ps = (r1, ps1)" by fastforce
    obtain r2 ps2 where r2: "match_children t ParamPhase cs ?p ps = (r2, ps2)" by fastforce
    show ?thesis
      using ph [of StaticPhase] ph [of ParamPhase] ph [of WildcardPhase] st
      unfolding match_static None r1 r2 by (cases r1; cases r2) (simp_all add: r2)
  next
    case (Some m)
    then have "?p = []" by (simp split: if_splits)
    then show ?thesis
      using found_here [OF st _, of any pn cs hs m ps] Some st by (simp add: match_static)
  qed
qed (simp add: match_static)

lemma match_param_found:
  assumes cs: "\<And>ps. length ps + pushes p \<le> 16 \<Longrightarrow> found cs p ps (match_children t AnyPhase cs p ps)"
    and v: "CHR ''/'' \<notin> set v" "p = [] \<or> hd p = CHR ''/''" and len: "length ps + pushes (v @ p) \<le> 16"
  shows "found [RadixNode pre Param pn cs hs any] (v @ p) ps
    (match_node t (RadixNode pre Param pn cs hs any) (v @ p) ps)"
proof (cases "v = []")
  case False
  let ?n = "RadixNode pre Param pn cs hs any" and ?ps = "push_param pn v ps"
  have room: "length ps < 16" "length ?ps + pushes p \<le> 16"
    using len pushes_param [OF False v] by (auto simp: push_param_def)
  show ?thesis
  proof (cases "(p = [] \<or> p = ''/'') \<and> any")
    case True
    have "tolerant_match pn [Par pn] (v @ p) [(pn, v)]"
      using True False v tm_par [of v "[]" pn "[]" "[]" pn] tm_par_slash tm_end by fastforce
    then show ?thesis
      using True False v room(1) at_self [of ?n]
      by (auto simp: match_param node_toks_def push_param_def intro!: foundI)
  next
    case no: False
    obtain r ps' where r: "match_children t AnyPhase cs p ?ps = (r, ps')" by fastforce
    have "found cs p ?ps (r, ps')" using cs [OF room(2)] by (simp add: r)
    then show ?thesis
      using found_param [of cs p pn v ps _ ps' pre hs any] False v room(1) no
      by (cases r) (auto simp: match_param r pop_push)
  qed
qed (use match_param [of "[]" p t pre pn cs hs any ps] v in simp)

lemma match_wild_found:
  assumes "length ps < 16"
  shows "found [RadixNode pre Wildcard pn cs hs any] path ps
    (match_node t (RadixNode pre Wildcard pn cs hs any) path ps)"
  using assms at_self [of "RadixNode pre Wildcard pn cs hs any"] tm_wild [of pn path]
  by (auto simp: match_wild pop_push node_toks_def wild_binding_def push_param_def pop_param_def
      intro!: foundI)

lemma match_node_found:
  "length ps + pushes path \<le> 16 \<Longrightarrow> found [n] path ps (match_node t n path ps)"
proof (induction n arbitrary: path ps)
  case (RadixNode pre ty pn cs hs any)
  have cs: "found cs path ps (match_children t ph cs path ps)" if "length ps + pushes path \<le> 16" for ph path ps
    using RadixNode.IH that by (intro match_children_found) auto
  have "length ps < 16" using RadixNode.prems by (simp add: pushes_def split: if_splits)
  moreover have "starts_with path pre \<Longrightarrow> length ps + pushes (drop (length pre) path) \<le> 16"
    using RadixNode.prems pushes_drop [of path pre] by simp
  moreover obtain v p where "path = v @ p" "CHR ''/'' \<notin> set v" "p = [] \<or> hd p = CHR ''/''"
    by (rule slash_split)
  ultimately show ?case
    using match_static_found [of cs pre path ps t pn hs any] match_param_found [of p cs t v ps pre pn hs any]
      match_wild_found [of ps pre pn cs hs any path t] cs RadixNode.prems
    by (cases ty; cases "starts_with path pre") (auto simp: match_static)
qed


subsection \<open>Every matching route is found\<close>

lemma match_children_complete:
  assumes "c \<in> set cs" "in_phase ph path c" "\<And>ps. fst (match_node t c path ps) \<noteq> None"
  shows "fst (match_children t ph cs path ps) \<noteq> None"
  using assms(1)
proof (induction cs arbitrary: ps)
  case (Cons d cs)
  obtain r ps' where r: "match_node t d path ps = (r, ps')" by fastforce
  show ?case
  proof (cases "d = c")
    case True
    then show ?thesis using assms(2) assms(3) [of ps] r by (cases r) simp_all
  next
    case False
    then have "c \<in> set cs" using Cons.prems by simp
    from Cons.IH [OF this] show ?thesis by (simp add: r split: option.split)
  qed
qed simp

lemma match_in_phase:
  assumes "fst (match_node t c path ps) \<noteq> None"
  shows "in_phase (case rn_type c of Static \<Rightarrow> StaticPhase | Param \<Rightarrow> ParamPhase | Wildcard \<Rightarrow> WildcardPhase)
    path c"
proof (cases c)
  case (RadixNode pre ty pn cs hs any)
  have "path = [] \<or> pre = [] \<or> hd pre = hd path" if "ty = Static"
    using assms that unfolding RadixNode
    by (cases pre) (auto simp: match_static starts_with_iff prefix_def split: if_splits)
  then show ?thesis by (auto simp: RadixNode in_phase_def split: radix_node_type.split)
qed

lemma match_static_complete:
  assumes "starts_with path pre"
    and "fst (match_children t ph cs (drop (length pre) path) ps) \<noteq> None" "ph \<noteq> AnyPhase"
    and "\<And>ps. fst (match_children t ph cs (drop (length pre) path) ps) \<noteq> None"
  shows "fst (match_node t (RadixNode pre Static pn cs hs any) path ps) \<noteq> None"
proof -
  obtain r1 ps1 where r1: "match_children t StaticPhase cs (drop (length pre) path) ps = (r1, ps1)" by fastforce
  obtain r2 ps2 where r2: "match_children t ParamPhase cs (drop (length pre) path) ps1 = (r2, ps2)" by fastforce
  obtain r3 ps3 where r3: "match_children t WildcardPhase cs (drop (length pre) path) ps2 = (r3, ps3)" by fastforce
  have "r1 \<noteq> None \<or> r2 \<noteq> None \<or> r3 \<noteq> None"
    using assms(3) assms(4) [of ps] assms(4) [of ps1] assms(4) [of ps2] r1 r2 r3 by (cases ph) auto
  then show ?thesis
    using assms(1)
    by (cases r1; cases r2; simp only: match_static r1 r2 r3 prod.case option.case not_not if_False)
      (simp_all split: option.split)
qed

lemma wf_own_any: "wf_node n \<Longrightarrow> own n ts i x \<Longrightarrow> rn_has_any_handler n"
  by (subst (asm) wf_node_iff) (auto simp: own_def list_ex_length)

lemma match_node_complete:
  assumes "wf_node n" "through n ts i x" "pattern_match w ts path b"
  shows "fst (match_node t n path ps) \<noteq> None"
  using assms
proof (induction n arbitrary: ts path ps b)
  case (RadixNode pre ty pn cs hs any)
  let ?n = "RadixNode pre ty pn cs hs any"
  note wf = iffD1 [OF wf_node_iff RadixNode.prems(1)]
  obtain us where ts: "ts = node_toks ?n @ us" and h: "handler_at ?n us i x"
    using RadixNode.prems(2) by (auto simp: through_def)
  have kids: "(own ?n us i x \<and> any) \<or>
      (\<exists>c \<in> set cs. \<forall>ps. fst (match_node t c p ps) \<noteq> None)" if "pattern_match w us p b'" for p b'
  proof (cases "own ?n us i x")
    case True
    with wf_own_any [OF RadixNode.prems(1) True] show ?thesis by simp
  next
    case False
    then obtain c where "c \<in> set cs" "through c us i x"
      using h by (subst (asm) handler_at_split) auto
    then show ?thesis using RadixNode.IH [OF _ _ _ that] wf by simp blast
  qed
  show ?case
  proof (cases ty)
    case Static
    obtain p where p: "path = pre @ p" "pattern_match w us p b"
      using pattern_match_lits [of w pre us path b] RadixNode.prems(3) ts Static by (auto simp: node_toks_def)
    from kids [OF p(2)] show ?thesis
    proof (elim disjE bexE conjE)
      assume "own ?n us i x" any
      then have "p = []" using p(2) by (auto simp: own_def elim: pattern_match_NilE)
      then show ?thesis using p(1) \<open>any\<close> Static by (simp add: match_static starts_with_iff)
    next
      fix c assume c: "c \<in> set cs" "\<forall>ps. fst (match_node t c p ps) \<noteq> None"
      let ?ph = "case rn_type c of Static \<Rightarrow> StaticPhase | Param \<Rightarrow> ParamPhase | Wildcard \<Rightarrow> WildcardPhase"
      have "fst (match_children t ?ph cs p ps) \<noteq> None" for ps
        using match_children_complete [OF c(1) match_in_phase] c(2) by blast
      then show ?thesis
        using match_static_complete [of path pre t ?ph cs ps pn hs any] p(1) Static
        by (simp split: radix_node_type.split)
    qed
  next
    case Param
    then obtain v p b' where p: "path = v @ p" "v \<noteq> []" "CHR ''/'' \<notin> set v" "p = [] \<or> hd p = CHR ''/''"
        "pattern_match w us p b'"
      using RadixNode.prems(3) ts pattern_match_ParE [of w pn us path b]
      by (simp add: node_toks_def) metis
    obtain r ps' where r: "match_children t AnyPhase cs p (push_param pn v ps) = (r, ps')" by fastforce
    from kids [OF p(5)] show ?thesis
    proof (elim disjE bexE conjE)
      assume "own ?n us i x" any
      then have "p = []" using p(5) by (auto simp: own_def elim: pattern_match_NilE)
      then show ?thesis using p \<open>any\<close> Param match_param [of v "[]" t pre pn cs hs any ps] by simp
    next
      fix c assume "c \<in> set cs" "\<forall>ps. fst (match_node t c p ps) \<noteq> None"
      then have "r \<noteq> None"
        using match_children_complete [of c cs AnyPhase p t "push_param pn v ps"] by (simp add: in_phase_def r)
      then show ?thesis using p Param by (auto simp: match_param r)
    qed
  next
    case Wildcard
    then have "cs = []" using wf by simp
    then have any
      using h wf_own_any [OF RadixNode.prems(1), of us i x] by (subst (asm) handler_at_split) auto
    then show ?thesis using Wildcard by (simp add: match_wild)
  qed
qed

subsection \<open>A literal route wins\<close>

lemma match_children_skip:
  assumes "\<And>d. d \<in> set ds \<Longrightarrow> \<not> in_phase ph path d"
  shows "match_children t ph (ds @ cs) path ps = match_children t ph cs path ps"
  using assms by (induction ds) simp_all

lemma match_node_literal:
  assumes "wf_node n" "through n (map Lit path) i x"
  shows "\<exists>m. match_node t n path ps = (Some m, ps) \<and> own m [] i x \<and> node_at n (map Lit path) m"
  using assms
proof (induction n arbitrary: path)
  case (RadixNode pre ty pn cs hs any)
  let ?n = "RadixNode pre ty pn cs hs any"
  note wf = iffD1 [OF wf_node_iff RadixNode.prems(1)]
  obtain us where ts: "map Lit path = node_toks ?n @ us" and h: "handler_at ?n us i x"
    using RadixNode.prems(2) by (auto simp: through_def)
  from ts have ty: "ty = Static" by (cases path) (auto simp: node_toks_def split: radix_node_type.splits)
  from ts obtain p where p: "path = pre @ p" "us = map Lit p"
    by (auto simp: ty node_toks_def map_eq_append_conv) (metis list.inj_map_strong token.inject(1))
  show ?case
  proof (cases "own ?n us i x")
    case True
    then have "p = []" "any" using p wf_own_any [OF RadixNode.prems(1) True] by (auto simp: own_def)
    moreover have "node_at ?n (map Lit pre) ?n" using at_self [of ?n] ty by (simp add: node_toks_def)
    ultimately show ?thesis using p ty True by (auto simp: match_static starts_with_iff)
  next
    case False
    then obtain c where c: "c \<in> set cs" "through c (map Lit p) i x"
      using h p by (subst (asm) handler_at_split) auto
    then obtain m where m: "match_node t c p ps = (Some m, ps)" "own m [] i x" "node_at c (map Lit p) m"
      using RadixNode.IH wf by (metis radix_node.sel(4))
    from c(1) obtain ds es where cs: "cs = ds @ c # es" by (auto simp: in_set_conv_decomp)
    have ne: "node_toks d \<noteq> []" if "d \<in> set cs" for d using wf that by (simp add: list_all_iff)
    then have hd_p: "p \<noteq> []" "hd (node_toks c) = Lit (hd p)"
      using c through_first [OF c(2)] by (auto simp: hd_map)
    have "hd (node_toks c) \<notin> (\<lambda>c. hd (node_toks c)) ` set ds" using wf by (simp add: cs)
    then have other: "hd (node_toks d) \<noteq> Lit (hd p)" if "d \<in> set ds" for d
      using imageI [OF that, of "\<lambda>c. hd (node_toks c)"] hd_p(2) by auto
    have "\<not> in_phase StaticPhase p d" if "d \<in> set ds" for d
      using other [OF that] that ne [of d] hd_p(1) by (auto simp: in_phase_def cs node_toks_def hd_map)
    moreover have "in_phase StaticPhase p c"
      using match_in_phase [of t c p ps] m(1) hd_p
      by (auto simp: node_toks_def split: radix_node_type.splits)
    ultimately have "match_children t StaticPhase cs p ps = (Some m, ps)"
      by (simp add: cs match_children_skip m(1))
    moreover have "node_at ?n (map Lit (pre @ p)) m"
      using at_below [of c ?n "map Lit p" m] c(1) m(3) ty by (simp add: node_toks_def)
    ultimately show ?thesis using p(1) ty m(2) hd_p(1) by (auto simp: match_static)
  qed
qed


subsection \<open>The route table\<close>

text \<open>
  The interface the router uses: registering a handler updates a map from pattern and method to
  handler, and leaves the rest alone. Clients fold registrations over the empty table.
\<close>

locale route_table =
  fixes tbl_empty :: 'tree
    and add_handler :: "http_method \<Rightarrow> string \<Rightarrow> 'h \<Rightarrow> 'tree \<Rightarrow> 'tree"
    and registered :: "'tree \<Rightarrow> token list \<Rightarrow> nat \<Rightarrow> 'h \<Rightarrow> bool"
    and toks_of :: "string \<Rightarrow> token list"
    and tbl_inv :: "'tree \<Rightarrow> bool"
  assumes inv_empty: "tbl_inv tbl_empty"
    and empty_handler: "\<not> registered tbl_empty ts i h"
    and inv_add: "tbl_inv tb \<Longrightarrow> m \<noteq> UNKNOWN \<Longrightarrow> tbl_inv (add_handler m p h tb)"
    and add_updates: "tbl_inv tb \<Longrightarrow> m \<noteq> UNKNOWN \<Longrightarrow>
      registered (add_handler m p h tb) ts i x \<longleftrightarrow>
        (if ts = toks_of p \<and> i = method_index m then x = h else registered tb ts i x)"
begin

lemma fold_refines:
  assumes "\<And>r. r \<in> set rs \<Longrightarrow> fst r \<noteq> UNKNOWN"
  shows "tbl_inv (fold (\<lambda>(m, p, h). add_handler m p h) rs tbl_empty) \<and>
    (\<forall>ts i x. registered (fold (\<lambda>(m, p, h). add_handler m p h) rs tbl_empty) ts i x \<longleftrightarrow>
      fold (\<lambda>(m, p, h) f. f((toks_of p, method_index m) \<mapsto> h)) rs Map.empty (ts, i) = Some x)"
  using assms
proof (induction rs rule: rev_induct)
  case Nil
  then show ?case by (simp add: inv_empty empty_handler)
next
  case (snoc r rs)
  obtain m p h where r: "r = (m, p, h)" by (cases r)
  have m: "m \<noteq> UNKNOWN" using snoc.prems [of r] r by simp
  show ?case using snoc.IH snoc.prems inv_add [OF _ m] add_updates [OF _ m] by (auto simp: r)
qed

end

definition pattern_toks :: "string \<Rightarrow> token list" where
  "pattern_toks p =
     (let q = normalize_path p
      in if q = ''/'' then [] else if starts_with q ''/'' then tokens (drop 1 q) else tokens q)"

definition tree_inv :: "'h radix_node \<Rightarrow> bool" where
  "tree_inv n \<longleftrightarrow> wf_node n \<and> node_toks n = [Lit CHR ''/''] \<and> rn_type n = Static \<and> rn_prefix n = ''/''"

lemma set_children_type: "rn_type (insert_at t idx h r n) = rn_type n"
  "rn_prefix (insert_at t idx h r n) = rn_prefix n"
  by (subst insert_at.simps; simp add: Let_def set_handler_def split: option.split)+

lemma method_index_less: "m \<noteq> UNKNOWN \<Longrightarrow> method_index m < 9"
  by (cases m) simp_all

lemma radix_insert_inserted:
  assumes "tree_inv n" "m \<noteq> UNKNOWN"
  shows "inserted (radix_insert t m p h n) n (pattern_toks p) (method_index m) h"
    and "rn_type (radix_insert t m p h n) = Static" "rn_prefix (radix_insert t m p h n) = ''/''"
  using assms insert_at_inserted [of n "method_index m" t h] set_handler_inserted [of n "method_index m" h]
    method_index_less [of m]
  by (auto simp: radix_insert_def tree_inv_def pattern_toks_def Let_def set_children_type set_handler_def)

interpretation rt: route_table empty_tree "radix_insert t" handler_at pattern_toks tree_inv
  for t
proof unfold_locales
  show "tree_inv empty_tree"
    by (simp add: tree_inv_def empty_tree_def new_node_ok) (simp add: new_node_def)
  show "\<not> handler_at empty_tree ts i h" for ts i and h :: 'a by (simp add: empty_tree_def new_node_ok)
  show "tree_inv (radix_insert t m p h tb)" if "tree_inv tb" "m \<noteq> UNKNOWN" for tb m p and h :: 'a
    using radix_insert_inserted [OF that, of t p h] that(1) by (auto simp: inserted_def tree_inv_def)
  show "handler_at (radix_insert t m p h tb) ts i x \<longleftrightarrow>
      (if ts = pattern_toks p \<and> i = method_index m then x = h else handler_at tb ts i x)"
    if "tree_inv tb" "m \<noteq> UNKNOWN" for tb m p ts i and h x :: 'a
    using radix_insert_inserted(1) [OF that, of t p h] by (auto simp: inserted_def updates_def)
qed


text \<open>The tree a list of registrations builds, and the map it stands for.\<close>

definition build_tree :: "simd_tier \<Rightarrow> (http_method \<times> string \<times> 'h) list \<Rightarrow> 'h radix_node" where
  "build_tree t rs = fold (\<lambda>(m, p, h). radix_insert t m p h) rs empty_tree"

definition route_map :: "(http_method \<times> string \<times> 'h) list \<Rightarrow> (token list \<times> nat) \<rightharpoonup> 'h" where
  "route_map rs = fold (\<lambda>(m, p, h) f. f((pattern_toks p, method_index m) \<mapsto> h)) rs Map.empty"

definition known_methods :: "(http_method \<times> string \<times> 'h) list \<Rightarrow> bool" where
  "known_methods rs = list_all (\<lambda>r. fst r \<noteq> UNKNOWN) rs"

lemma build_tree_inv: "known_methods rs \<Longrightarrow> tree_inv (build_tree t rs)"
  and build_tree_map: "known_methods rs \<Longrightarrow> handler_at (build_tree t rs) ts i x \<longleftrightarrow> route_map rs (ts, i) = Some x"
  using rt.fold_refines [of rs t] by (auto simp: known_methods_def list_all_iff build_tree_def route_map_def)

lemma root_through:
  "tree_inv n \<Longrightarrow> through n (Lit CHR ''/'' # ts) i x \<longleftrightarrow> handler_at n ts i x"
  by (auto simp: through_def tree_inv_def)

lemma node_at_nonempty: "node_at n ts m \<Longrightarrow> wf_node n \<Longrightarrow> node_toks n \<noteq> [] \<Longrightarrow> hd ts = hd (node_toks n) \<and> ts \<noteq> []"
  by (cases rule: node_at.cases) auto

lemma node_at_own:
  assumes "node_at n ts m" "wf_node n" "through n ts i x"
  shows "own m [] i x"
  using assms
proof induction
  case (at_self n)
  then show ?case using no_through_Nil [of n] by (auto simp: through_def handler_at_split [of n])
next
  case (at_below c n ts m)
  note w = iffD1 [OF wf_node_iff at_below.prems(1)]
  have c: "wf_node c" "node_toks c \<noteq> []" using w at_below.hyps by (auto simp: list_all_iff)
  have ts: "hd ts = hd (node_toks c)" "ts \<noteq> []" using node_at_nonempty [OF at_below.hyps(2) c] by auto
  have "handler_at n ts i x" using at_below.prems(2) by (auto simp: through_def)
  then obtain d where d: "d \<in> set (rn_children n)" "through d ts i x"
    using ts(2) by (auto simp: handler_at_split [of n] own_def)
  moreover have "hd (node_toks d) = hd (node_toks c)"
    using through_first [OF d(2)] d(1) w ts by (auto simp: list_all_iff)
  ultimately have "d = c" using w at_below.hyps(1) by (auto simp: distinct_map inj_on_def)
  then show ?case using at_below.IH [OF c(1)] d(2) by simp
qed

lemma fold_add_params:
  "length (rq_params r) + length ps \<le> 16 \<Longrightarrow>
    fold (\<lambda>(k, v). add_param k v) ps r =
      r\<lparr>rq_params := rq_params r @ map (\<lambda>(k, v). \<lparr>rp_key = k, rp_value = v\<rparr>) ps\<rparr>"
  by (induction ps arbitrary: r) (auto simp: add_param_def MAX_ROUTE_PARAMS_def)

lemma tolerant_binds: "tolerant_match w ts p b \<Longrightarrow> length b \<le> pushes p"
proof (induction rule: tolerant_match.induct)
  case (tm_par v p w ts b k)
  then show ?case using pushes_param [of v p] by simp
next
  case (tm_par_slash v w k)
  then show ?case using pushes_param [of v "''/''"] by simp
qed (auto simp: pushes_def wild_binding_def split: if_splits)

lemma node_at_wf: "node_at n ts m \<Longrightarrow> wf_node n \<Longrightarrow> wf_node m"
proof (induction rule: node_at.induct)
  case (at_below c n ts m)
  then show ?case using iffD1 [OF wf_node_iff at_below.prems] by blast
qed

lemma match_build_tree:
  assumes rs: "known_methods rs" and slashes: "count_list path CHR ''/'' \<le> 14"
    and m: "match_node t (build_tree t' rs) path [] = (Some m, ps)"
  obtains ts where "tolerant_match (rn_param_name m) (Lit CHR ''/'' # ts) path ps" "length ps \<le> 16"
    and "\<And>i x. i < 9 \<and> rn_handlers m ! i = Some x \<longleftrightarrow> route_map rs (ts, i) = Some x"
    and "length (rn_handlers m) = 9" "rn_has_any_handler m"
proof -
  let ?n = "build_tree t' rs"
  have inv: "tree_inv ?n" by (rule build_tree_inv [OF rs])
  then have wf: "wf_node ?n" by (simp add: tree_inv_def)
  have "found [?n] path [] (Some m, ps)"
    using match_node_found [of "[]" path ?n t] slashes m by (simp add: pushes_def split: if_splits)
  then obtain us where us: "node_at ?n us m" "tolerant_match (rn_param_name m) us path ps" "rn_has_any_handler m"
    by (auto elim: foundE)
  have "hd us = Lit CHR ''/''" "us \<noteq> []"
    using node_at_nonempty [OF us(1) wf] inv by (auto simp: tree_inv_def)
  then obtain ts where ts: "us = Lit CHR ''/'' # ts" by (cases us) auto
  have len: "length (rn_handlers m) = 9" using iffD1 [OF wf_node_iff node_at_wf [OF us(1) wf]] by simp
  have "i < 9 \<and> rn_handlers m ! i = Some x \<longleftrightarrow> route_map rs (ts, i) = Some x" for i x
    using node_at_through [OF us(1), of i x] node_at_own [OF us(1) wf, of i x] root_through [OF inv, of ts i x]
      build_tree_map [OF rs, of t' ts i x] len by (auto simp: ts own_def)
  then show thesis
    using that [of ts] us ts len tolerant_binds [OF us(2)] slashes
    by (auto simp: pushes_def split: if_splits)
qed


subsection \<open>What routing guarantees\<close>

lemmas eval_routes =
  build_tree_def route_map_def pattern_toks_def empty_tree_def new_node_def no_handlers_def radix_insert_def
  normalize_path_def starts_with_eval ends_with_def insert_at.simps set_handler_def set_children_def
  find_child_def split_child_def static_chunk_def head_part_def eval_simps scan_simps tokens.simps
  match_route_def match_static match_wild match_node.simps in_phase_def push_param_def pop_param_def
  allowed_mask_def add_param_def MAX_ROUTE_PARAMS_def known_methods_def initial_request_def
  numeral_eq_Suc sv_find_first_of_def first_in_0_Suc Let_def

text \<open>
  C21: The radix tree is a map from pattern and method to handler. After any sequence of
  registrations, in any order and with any splits of nodes, the tree holds a handler under a
  pattern's tokens and a method exactly when the last registration for them put it there.
\<close>

theorem radix_tree_is_route_map:
  assumes "known_methods rs"
  shows "tree_inv (build_tree t rs) \<and>
    (handler_at (build_tree t rs) ts (method_index m) h \<longleftrightarrow> route_map rs (ts, method_index m) = Some h)"
  using build_tree_map [OF assms] build_tree_inv [OF assms] by blast

theorem radix_tree_is_route_map_witness:
  "handler_at (build_tree NEON [(GET, ''/a'', 1 :: nat), (GET, ''/a/'', 2)]) [Lit CHR ''a''] 0 2"
  using radix_tree_is_route_map [of "[(GET, ''/a'', 1 :: nat), (GET, ''/a/'', 2)]" NEON "[Lit CHR ''a'']" GET 2]
  by (simp add: known_methods_def route_map_def pattern_toks_def normalize_path_def starts_with_def
      ends_with_def tokens.simps)



text \<open>
  C23: Routing is complete. When some registered pattern matches the path, for whatever method, the
  request is not answered with 404.
\<close>

theorem route_match_complete:
  assumes "known_methods rs" "route_map rs (ts, method_index m) = Some h"
    and "normalize_path (rq_path req) = CHR ''/'' # p" "pattern_match w ts p b"
  shows "fst (match_route t (build_tree t' rs) req) \<noteq> NoRoute"
proof -
  note inv = build_tree_inv [OF assms(1), of t']
  have "through (build_tree t' rs) (Lit CHR ''/'' # ts) (method_index m) h"
    using root_through [OF inv] build_tree_map [OF assms(1)] assms(2) by blast
  moreover have "pattern_match w (Lit CHR ''/'' # ts) (CHR ''/'' # p) b" using assms(4) by (rule pm_lit)
  ultimately have "fst (match_node t (build_tree t' rs) (CHR ''/'' # p) []) \<noteq> None"
    using inv by (intro match_node_complete) (auto simp: tree_inv_def)
  then show ?thesis
    by (auto simp: match_route_def assms(3) Let_def split: prod.split option.split)
qed

theorem route_match_complete_witness:
  "fst (match_route SSE42 (build_tree NEON [(GET, ''/f/*'', 5 :: nat)])
     (initial_request\<lparr>rq_path := ''/f/a''\<rparr>)) \<noteq> NoRoute"
proof (rule route_match_complete)
  show "pattern_match [] [Lit CHR ''f'', Lit CHR ''/'', Wild] ''f/a'' (wild_binding [] ''a'')"
    by (intro pattern_match.intros)
  show "route_map [(GET, ''/f/*'', 5 :: nat)] ([Lit CHR ''f'', Lit CHR ''/'', Wild], method_index GET) = Some 5"
    by (simp add: eval_routes)
qed (simp_all add: eval_routes)

text \<open>
  A literal route wins. When the path itself is registered for the method, without parameters
  or wildcards, its handler is chosen whatever other routes match, and no parameter is bound.
\<close>

theorem literal_route_wins:
  assumes "known_methods rs" "normalize_path (rq_path req) = CHR ''/'' # p"
    and "route_map rs (map Lit p, method_index (rq_method req)) = Some h"
  shows "match_route t (build_tree t' rs) req = (Matched h, req)"
proof -
  note inv = build_tree_inv [OF assms(1), of t']
  have "through (build_tree t' rs) (map Lit (CHR ''/'' # p)) (method_index (rq_method req)) h"
    using root_through [OF inv] build_tree_map [OF assms(1)] assms(3) by simp
  then obtain m where "match_node t (build_tree t' rs) (CHR ''/'' # p) [] = (Some m, [])"
      "own m [] (method_index (rq_method req)) h"
    using match_node_literal inv by (metis tree_inv_def)
  then show ?thesis by (simp add: match_route_def assms(2) own_def Let_def)
qed

theorem literal_route_wins_witness:
  "match_route SSE42 (build_tree NEON [(GET, ''/:x'', 5), (GET, ''/a'', 6 :: nat)])
     (initial_request\<lparr>rq_path := ''/a''\<rparr>) = (Matched 6, initial_request\<lparr>rq_path := ''/a''\<rparr>)"
  by (rule literal_route_wins [where p = "''a''"]) (simp_all add: eval_routes)

text \<open>
  A method can be shadowed. With \<^verbatim>\<open>GET /u/:id\<close> and \<^verbatim>\<open>POST /u/:name\<close> registered, a POST to
  \<^verbatim>\<open>/u/7\<close> is answered with 405 and only GET is allowed, although its route is registered: the
  first parameter node that has a handler for any method decides.
\<close>

theorem post_route_shadowed:
  "match_route t (build_tree t' [(GET, ''/u/:id'', g), (POST, ''/u/:name'', h)])
     (initial_request\<lparr>rq_method := POST, rq_path := ''/u/7''\<rparr>) =
   (MethodNotAllowedFor 1, initial_request\<lparr>rq_method := POST, rq_path := ''/u/7''\<rparr>) \<and>
   route_map [(GET, ''/u/:id'', g), (POST, ''/u/:name'', h)] (pattern_toks ''/u/:name'', method_index POST) = Some h"
  by (simp add: eval_routes)

text \<open>
  Backtracking on a full parameter stack loses a parameter. A parameter node that fails to
  match pushes nothing when sixteen entries are held, but still pops, which removes the last entry
  bound by an enclosing node.
\<close>

theorem full_stack_backtrack_drops:
  assumes "length ps = 16" "v \<noteq> []" "CHR ''/'' \<notin> set v"
  shows "match_node t (RadixNode pre Param k [] hs False) v ps = (None, butlast ps)"
  using match_param [of v "[]" t pre k "[]" hs False ps] assms by (simp add: push_param_def pop_param_def)

theorem full_stack_backtrack_drops_witness:
  "match_node NEON (RadixNode [] Param ''k'' [] (no_handlers :: nat option list) False) ''v''
     (replicate 16 (''a'', ''b'')) = (None, butlast (replicate 16 (''a'', ''b'')))"
  by (rule full_stack_backtrack_drops) simp_all

end
