(* ===== verification/Http_Router.thy ===== *)
theory Http_Router
  imports Route_Matching Http_Response
begin

text \<open>
  \<^verbatim>\<open>src/http/Router.h\<close>, \<^verbatim>\<open>RouteGroup.h\<close>, \<^verbatim>\<open>RouteRegistrar.h\<close>, \<^verbatim>\<open>RouteHandler.h\<close>, \<^verbatim>\<open>Middleware.h\<close> and
  the parts of \<^verbatim>\<open>Context.h\<close> that dispatch uses: route registration in two tiers, the middleware
  chain, and the two dispatch functions with their error boundary.

  A handler or a middleware is a function on the context; it returns the context it leaves and the
  exception it throws, if any. A coroutine that is awaited runs to completion in place, so an
  awaited call is a function call. The context carries the request, the response, the per-request
  data bag and whatever else the handlers act on.
\<close>

subsection \<open>Context, handlers and exceptions\<close>

datatype exn = StdException string | OtherException

record ('v, 'w) ctx =
  cx_req :: request
  cx_res :: response
  cx_local_store :: "string \<rightharpoonup> 'v"
  cx_world :: 'w

type_synonym 'c outcome = "'c \<times> exn option"

datatype 'c route_handler =
    NoHandler
  | SyncHandler bool "'c \<Rightarrow> 'c outcome"
  | AsyncHandler bool "'c \<Rightarrow> 'c outcome"

primrec is_sync :: "'c route_handler \<Rightarrow> bool" where
  "is_sync NoHandler = False"
| "is_sync (SyncHandler s f) = True"
| "is_sync (AsyncHandler s f) = False"

primrec set_streaming :: "bool \<Rightarrow> 'c route_handler \<Rightarrow> 'c route_handler" where
  "set_streaming b NoHandler = NoHandler"
| "set_streaming b (SyncHandler s f) = SyncHandler b f"
| "set_streaming b (AsyncHandler s f) = AsyncHandler b f"

primrec invoke :: "'c route_handler \<Rightarrow> 'c \<Rightarrow> 'c outcome" where
  "invoke NoHandler c = (c, None)"
| "invoke (SyncHandler s f) c = f c"
| "invoke (AsyncHandler s f) c = f c"

definition ctx_set :: "string \<Rightarrow> 'v \<Rightarrow> ('v, 'w) ctx \<Rightarrow> ('v, 'w) ctx" where
  "ctx_set ty v c = c\<lparr>cx_local_store := (cx_local_store c)(ty \<mapsto> v)\<rparr>"

definition ctx_get :: "string \<Rightarrow> ('v, 'w) ctx \<Rightarrow> 'v option" where
  "ctx_get ty c = cx_local_store c ty"

definition ctx_reset :: "('v, 'w) ctx \<Rightarrow> ('v, 'w) ctx" where
  "ctx_reset c = c\<lparr>cx_local_store := Map.empty\<rparr>"

subsection \<open>Middleware\<close>

type_synonym 'c next_fn = "'c \<Rightarrow> 'c outcome"
type_synonym 'c middleware = "'c \<Rightarrow> 'c next_fn \<Rightarrow> 'c outcome"

text \<open>
  The four callable forms of \<^verbatim>\<open>make_middleware\<close>. In the second the callable is synchronous: calling
  \<^verbatim>\<open>next\<close> only creates a suspended task, which is destroyed unrun when the callable drops it, so the
  callable's own effect is all there is.
\<close>

datatype 'c middleware_form =
    AsyncNext "'c middleware"
  | SyncNext "'c \<Rightarrow> 'c outcome"
  | AsyncPre "'c \<Rightarrow> 'c outcome"
  | SyncPre "'c \<Rightarrow> 'c outcome"

definition pre_then_next :: "('c \<Rightarrow> 'c outcome) \<Rightarrow> 'c middleware" where
  "pre_then_next f c next = (case f c of (c, None) \<Rightarrow> next c | (c, Some e) \<Rightarrow> (c, Some e))"

primrec make_middleware :: "'c middleware_form \<Rightarrow> 'c middleware" where
  "make_middleware (AsyncNext m) = m"
| "make_middleware (SyncNext f) = (\<lambda>c next. f c)"
| "make_middleware (AsyncPre f) = pre_then_next f"
| "make_middleware (SyncPre f) = pre_then_next f"

function run_chain ::
    "'c middleware list \<Rightarrow> 'c middleware list \<Rightarrow> nat \<Rightarrow> 'c route_handler \<Rightarrow> 'c \<Rightarrow> 'c outcome" where
  "run_chain global local idx final_handler c =
     (if idx < length global + length local then
        let mw = (if idx < length global then global ! idx else local ! (idx - length global))
        in mw c (\<lambda>c. run_chain global local (idx + 1) final_handler c)
      else invoke final_handler c)"
  by pat_completeness auto
termination
  by (relation "measure (\<lambda>(global, local, idx, h, c). length global + length local - idx)") auto

declare run_chain.simps [simp del]

subsection \<open>Router state and registration\<close>

record ('c, 'ws) router =
  rt_static_routes :: "string \<rightharpoonup> 'c route_handler option list"
  rt_ws_routes :: "string \<rightharpoonup> 'ws"
  rt_tree :: "'c route_handler radix_node"
  rt_global_middleware :: "'c middleware list"
  rt_error_handler :: "('c \<Rightarrow> exn \<Rightarrow> 'c outcome) option"
  rt_not_found_handler :: "'c route_handler"
  rt_method_not_allowed_handler :: "'c route_handler"

definition empty_router :: "('c, 'ws) router" where
  "empty_router = \<lparr>rt_static_routes = Map.empty, rt_ws_routes = Map.empty, rt_tree = empty_tree,
     rt_global_middleware = [], rt_error_handler = None, rt_not_found_handler = NoHandler,
     rt_method_not_allowed_handler = NoHandler\<rparr>"

definition router_use :: "'c middleware_form \<Rightarrow> ('c, 'ws) router \<Rightarrow> ('c, 'ws) router" where
  "router_use mw r = r\<lparr>rt_global_middleware := rt_global_middleware r @ [make_middleware mw]\<rparr>"

text \<open>The handler with its group and route middleware in front.\<close>

definition chained_handler ::
    "'c middleware list \<Rightarrow> 'c middleware list \<Rightarrow> 'c route_handler \<Rightarrow> bool \<Rightarrow> 'c route_handler" where
  "chained_handler group_mw route_mw raw is_streaming =
     set_streaming is_streaming
       (if group_mw = [] \<and> route_mw = [] then raw
        else AsyncHandler False (run_chain [] (group_mw @ route_mw) 0 raw))"

definition add_static ::
    "http_method \<Rightarrow> string \<Rightarrow> 'h \<Rightarrow> (string \<rightharpoonup> 'h option list) \<Rightarrow> (string \<rightharpoonup> 'h option list)" where
  "add_static m pattern h sr =
     (if sv_find_first_of '':*'' pattern 0 = None then
        let norm = normalize_path pattern;
            entry = (case sr norm of Some e \<Rightarrow> e | None \<Rightarrow> no_handlers);
            idx = method_index m
        in sr(norm \<mapsto> (if idx < length entry then entry[idx := Some h] else entry))
      else sr)"

definition add_route ::
    "simd_tier \<Rightarrow> http_method \<Rightarrow> string \<Rightarrow> 'c middleware list \<Rightarrow> 'c middleware list \<Rightarrow> 'c route_handler \<Rightarrow>
     bool \<Rightarrow> ('c, 'ws) router \<Rightarrow> ('c, 'ws) router" where
  "add_route t m pattern group_mw route_mw raw is_streaming r =
     (let h = chained_handler group_mw route_mw raw is_streaming
      in r\<lparr>rt_static_routes := add_static m pattern h (rt_static_routes r),
           rt_tree := radix_insert t m pattern h (rt_tree r)\<rparr>)"

definition all_methods :: "http_method list" where
  "all_methods = [GET, POST, PUT, DELETE, PATCH, HEAD, OPTIONS]"

definition add_all ::
    "simd_tier \<Rightarrow> string \<Rightarrow> 'c middleware list \<Rightarrow> 'c route_handler \<Rightarrow> ('c, 'ws) router \<Rightarrow> ('c, 'ws) router" where
  "add_all t pattern route_mw h r =
     fold (\<lambda>m. add_route t m pattern [] route_mw h False) all_methods r"

subsection \<open>Groups\<close>

definition join_paths :: "string \<Rightarrow> string \<Rightarrow> string" where
  "join_paths a b =
     (if a = [] \<or> a = ''/'' then
        if b = [] then ''/'' else if starts_with b ''/'' then b else ''/'' @ b
      else if ends_with a CHR ''/'' then
        if starts_with b ''/'' then a @ drop 1 b else a @ b
      else if starts_with b ''/'' then a @ b
      else a @ ''/'' @ b)"

record 'c route_group =
  gr_prefix :: string
  gr_middleware :: "'c middleware list"

definition router_group :: "string \<Rightarrow> 'c route_group" where
  "router_group pre = \<lparr>gr_prefix = pre, gr_middleware = []\<rparr>"

definition group_use :: "'c middleware_form \<Rightarrow> 'c route_group \<Rightarrow> 'c route_group" where
  "group_use mw g = g\<lparr>gr_middleware := gr_middleware g @ [make_middleware mw]\<rparr>"

definition sub_group :: "string \<Rightarrow> 'c route_group \<Rightarrow> 'c route_group" where
  "sub_group sub g = \<lparr>gr_prefix = join_paths (gr_prefix g) sub, gr_middleware = gr_middleware g\<rparr>"

definition group_add_route ::
    "simd_tier \<Rightarrow> 'c route_group \<Rightarrow> http_method \<Rightarrow> string \<Rightarrow> 'c middleware list \<Rightarrow> 'c route_handler \<Rightarrow>
     ('c, 'ws) router \<Rightarrow> ('c, 'ws) router" where
  "group_add_route t g m pattern route_mw h r =
     add_route t m (join_paths (gr_prefix g) pattern) (gr_middleware g) route_mw h False r"

subsection \<open>Matching\<close>

definition router_match ::
    "simd_tier \<Rightarrow> ('c, 'ws) router \<Rightarrow> request \<Rightarrow> 'c route_handler match_result \<times> request" where
  "router_match t r req =
     (let req_path = (if rq_path req = [] then ''/''
                      else if 1 < length (rq_path req) \<and> ends_with (rq_path req) CHR ''/''
                      then butlast (rq_path req) else rq_path req)
      in case rt_static_routes r req_path of
           Some entry \<Rightarrow>
             let midx = method_index (rq_method req)
             in if midx < length entry \<and> entry ! midx \<noteq> None then (Matched (the (entry ! midx)), req)
                else (MethodNotAllowedFor (allowed_mask entry), req)
         | None \<Rightarrow> match_route t (rt_tree r) req)"

definition upgrade_required :: "simd_tier \<Rightarrow> ('v, 'w) ctx route_handler" where
  "upgrade_required t = SyncHandler False (\<lambda>c. (c\<lparr>cx_res :=
     res_text t (''426 Upgrade Required: WebSocket connection expected'' @ [char_of (10 :: nat)])
       (res_header t ''Connection'' ''Upgrade'' (res_header t ''Upgrade'' ''websocket''
         (set_status UpgradeRequired (cx_res c))))\<rparr>, None))"

definition add_ws ::
    "simd_tier \<Rightarrow> string \<Rightarrow> 'ws \<Rightarrow> (('v, 'w) ctx, 'ws) router \<Rightarrow> (('v, 'w) ctx, 'ws) router" where
  "add_ws t pattern entry r =
     add_route t GET pattern [] [] (upgrade_required t) False
       (r\<lparr>rt_ws_routes := (rt_ws_routes r)(normalize_path pattern \<mapsto> entry)\<rparr>)"

text \<open>The early return for an empty table gives what the lookups give.\<close>

definition find_ws :: "('c, 'ws) router \<Rightarrow> string \<Rightarrow> 'ws option" where
  "find_ws r path =
     (case rt_ws_routes r (normalize_path path) of
        Some e \<Rightarrow> Some e
      | None \<Rightarrow> rt_ws_routes r ''/'')"

subsection \<open>Dispatch\<close>

record problem_details =
  pd_type :: string
  pd_title :: string
  pd_status :: nat
  pd_detail :: string
  pd_instance :: string

text \<open>\<open>to_json\<close> is the JSON library's writer for a problem document.\<close>

definition problem ::
    "simd_tier \<Rightarrow> (problem_details \<Rightarrow> string) \<Rightarrow> status_code \<Rightarrow> string \<Rightarrow> string \<Rightarrow> ('v, 'w) ctx \<Rightarrow> ('v, 'w) ctx" where
  "problem t to_json st title detail c =
     (let pd = \<lparr>pd_type = ''about:blank'', pd_title = title, pd_status = status_value st,
                pd_detail = detail, pd_instance = rq_path (cx_req c)\<rparr>;
          res = set_body (to_json pd) (set_status st (cx_res c))
      in c\<lparr>cx_res := res_header t ''Content-Type'' ''application/problem+json'' res\<rparr>)"

definition internal_error ::
    "simd_tier \<Rightarrow> (problem_details \<Rightarrow> string) \<Rightarrow> string \<Rightarrow> ('v, 'w) ctx \<Rightarrow> ('v, 'w) ctx" where
  "internal_error t to_json detail c =
     (if is_grpc t (cx_req c) then
        c\<lparr>cx_res := trailer t ''grpc-message'' detail (trailer t ''grpc-status'' ''13''
             ((res_header t ''content-type'' ''application/grpc'' (set_status Ok (cx_res c)))
                \<lparr>rs_is_trailers_only := True\<rparr>))\<rparr>
      else problem t to_json InternalServerError ''Internal Server Error'' detail c)"

definition what_or :: "string \<Rightarrow> exn \<Rightarrow> string" where
  "what_or other e = (case e of StdException w \<Rightarrow> w | OtherException \<Rightarrow> other)"

definition options_asterisk :: "simd_tier \<Rightarrow> response \<Rightarrow> response" where
  "options_asterisk t res =
     res_text t [] (res_header t ''Allow'' ''GET, HEAD, POST, PUT, DELETE, OPTIONS, PATCH'' (set_status Ok res))"

definition is_options_asterisk :: "request \<Rightarrow> bool" where
  "is_options_asterisk req \<longleftrightarrow> rq_method req = OPTIONS \<and> rq_path req = ''*''"

text \<open>The value of the Allow header for a mask of methods.\<close>

definition method_of_index :: "nat \<Rightarrow> http_method" where
  "method_of_index i =
     (let ms = [GET, POST, PUT, DELETE, PATCH, HEAD, OPTIONS, CONNECT, TRACE]
      in if i < 9 then ms ! i else UNKNOWN)"

definition allow_string :: "nat \<Rightarrow> string" where
  "allow_string allowed =
     fold (\<lambda>i s. if odd (allowed div 2 ^ i)
                 then (if s = [] then [] else s @ '', '') @ method_to_string (method_of_index i) else s)
       [0..<9] []"

definition run_fallback ::
    "'c route_handler \<Rightarrow> ('c \<Rightarrow> 'c) \<Rightarrow> ('c \<Rightarrow> 'c) \<Rightarrow> 'c \<Rightarrow> 'c" where
  "run_fallback h on_throw otherwise c =
     (case h of
        NoHandler \<Rightarrow> otherwise c
      | _ \<Rightarrow> (case invoke h c of (c, None) \<Rightarrow> c | (c, Some _) \<Rightarrow> on_throw c))"

definition execute_route ::
    "simd_tier \<Rightarrow> (problem_details \<Rightarrow> string) \<Rightarrow> (('v, 'w) ctx, 'ws) router \<Rightarrow>
     ('v, 'w) ctx route_handler match_result \<Rightarrow> ('v, 'w) ctx \<Rightarrow> ('v, 'w) ctx outcome" where
  "execute_route t to_json r m c =
     (let req = cx_req c
      in case m of
           Matched h \<Rightarrow> invoke h c
         | MethodNotAllowedFor allowed \<Rightarrow>
             let allow = allow_string allowed;
                 c = (if allow \<noteq> [] then c\<lparr>cx_res := res_header t ''Allow'' allow (cx_res c)\<rparr> else c)
             in (run_fallback (rt_method_not_allowed_handler r)
                   (problem t to_json MethodNotAllowed ''Method Not Allowed''
                      ''Method not allowed for requested route'')
                   (problem t to_json MethodNotAllowed ''Method Not Allowed''
                      (''Method '' @ method_to_string (rq_method req) @ '' is not allowed for '' @ rq_path req)) c,
                 None)
         | NoRoute \<Rightarrow>
             (run_fallback (rt_not_found_handler r)
                (problem t to_json NotFound ''Not Found'' ''Requested route was not found'')
                (problem t to_json NotFound ''Not Found''
                   (''Cannot '' @ method_to_string (rq_method req) @ '' '' @ rq_path req)) c,
              None))"

definition dispatch ::
    "simd_tier \<Rightarrow> (problem_details \<Rightarrow> string) \<Rightarrow> (('v, 'w) ctx, 'ws) router \<Rightarrow> ('v, 'w) ctx \<Rightarrow> ('v, 'w) ctx" where
  "dispatch t to_json r c0 =
     (if is_options_asterisk (cx_req c0) then c0\<lparr>cx_res := options_asterisk t (cx_res c0)\<rparr>
      else
        let (m, req) = router_match t r (cx_req c0);
            c = c0\<lparr>cx_req := req, cx_local_store := Map.empty\<rparr>
        in case (m, rt_global_middleware r) of
             (Matched h, []) \<Rightarrow>
               (case invoke h c of
                  (c, None) \<Rightarrow> c
                | (c, Some ex) \<Rightarrow>
                    (case rt_error_handler r of
                       Some eh \<Rightarrow>
                         (case eh c ex of
                            (c, None) \<Rightarrow> c
                          | (c, Some _) \<Rightarrow> internal_error t to_json ''Unknown error in custom error handler'' c)
                     | None \<Rightarrow> internal_error t to_json (what_or ''An internal server error occurred.'' ex) c))
           | (m, mws) \<Rightarrow>
               (case (if mws = [] then execute_route t to_json r m c
                      else run_chain mws [] 0 (AsyncHandler False (execute_route t to_json r m)) c) of
                  (c, None) \<Rightarrow> c
                | (c, Some ex) \<Rightarrow>
                    (case rt_error_handler r of
                       Some eh \<Rightarrow>
                         (case eh c ex of
                            (c, None) \<Rightarrow> c
                          | (c, Some inner) \<Rightarrow>
                              internal_error t to_json (what_or ''Unknown error in custom error handler'' inner) c)
                     | None \<Rightarrow> internal_error t to_json (what_or ''Unknown exception occurred.'' ex) c)))"

definition dispatch_sync ::
    "simd_tier \<Rightarrow> (problem_details \<Rightarrow> string) \<Rightarrow> (('v, 'w) ctx, 'ws) router \<Rightarrow> ('v, 'w) ctx \<Rightarrow>
     bool \<times> ('v, 'w) ctx" where
  "dispatch_sync t to_json r c =
     (if is_options_asterisk (cx_req c) then (True, c\<lparr>cx_res := options_asterisk t (cx_res c)\<rparr>)
      else if rt_global_middleware r \<noteq> [] then (False, c)
      else
        let (m, req) = router_match t r (cx_req c); c = c\<lparr>cx_req := req\<rparr>
        in case m of
             Matched h \<Rightarrow>
               if \<not> is_sync h then (False, c)
               else (case invoke h c of
                       (c, None) \<Rightarrow> (True, c)
                     | (c, Some ex) \<Rightarrow>
                         if rt_error_handler r = None
                         then (True, internal_error t to_json (what_or ''An internal server error occurred.'' ex) c)
                         else (False, c))
           | _ \<Rightarrow> (False, c))"

text \<open>How a connection serves one parsed request (\<^verbatim>\<open>src/http/v1/Http1Connection.cpp\<close>).\<close>

definition serve_request ::
    "simd_tier \<Rightarrow> (problem_details \<Rightarrow> string) \<Rightarrow> (('v, 'w) ctx, 'ws) router \<Rightarrow> ('v, 'w) ctx \<Rightarrow> ('v, 'w) ctx" where
  "serve_request t to_json r c =
     (let c = ctx_reset (c\<lparr>cx_res := res_reset (cx_res c)\<rparr>)
      in case dispatch_sync t to_json r c of
           (True, c) \<Rightarrow> c
         | (False, c) \<Rightarrow> dispatch t to_json r c)"

end
