(* ===== verification/Router_Proofs.thy ===== *)
theory Router_Proofs
  imports Http_Router
begin

text \<open>
  What the router guarantees: the table of literal routes in front of the radix tree changes no
  answer, middleware runs as nested functions, the synchronous dispatcher agrees with the general
  one, and errors end in the documented responses.
\<close>

subsection \<open>The static tier\<close>

definition absolute :: "string \<Rightarrow> bool" where
  "absolute p \<longleftrightarrow> p = [] \<or> starts_with p ''/''"

definition static_table :: "(http_method \<times> string \<times> 'h) list \<Rightarrow> (string \<rightharpoonup> 'h option list)" where
  "static_table rs = fold (\<lambda>(m, p, h). add_static m p h) rs Map.empty"

lemma tokens_literal: "CHR '':'' \<notin> set r \<Longrightarrow> CHR ''*'' \<notin> set r \<Longrightarrow> tokens r = map Lit r"
  by (induction r) (auto simp: tokens_static_Cons)

lemma tokens_eq_literal:
  "tokens r = map Lit q \<Longrightarrow> CHR '':'' \<notin> set r \<and> CHR ''*'' \<notin> set r \<and> q = r"
proof (induction r arbitrary: q)
  case (Cons c r)
  then have "c \<noteq> CHR '':''" "c \<noteq> CHR ''*''"
    using tokens_param [of "c # r"] tokens_wild [of "c # r"] by (cases q; auto)+
  with Cons show ?case by (cases q) (auto simp: tokens_static_Cons)
qed simp

lemma find_first_of_None: "sv_find_first_of '':*'' p 0 = None \<longleftrightarrow> CHR '':'' \<notin> set p \<and> CHR ''*'' \<notin> set p"
  by (auto simp: sv_find_first_of_def first_in_None_iff in_set_conv_nth)

lemma normalize_absolute:
  assumes "absolute p"
  obtains q where "normalize_path p = CHR ''/'' # q" "pattern_toks p = tokens q"
    "CHR '':'' \<in> set q \<longleftrightarrow> CHR '':'' \<in> set p" "CHR ''*'' \<in> set q \<longleftrightarrow> CHR ''*'' \<in> set p"
proof (cases p)
  case Nil
  then show ?thesis using that [of "[]"] by (simp add: normalize_path_def pattern_toks_def)
next
  case (Cons c r)
  with assms have c: "c = CHR ''/''" by (simp add: absolute_def starts_with_def)
  define q where "q = (if r \<noteq> [] \<and> last r = CHR ''/'' then butlast r else r)"
  have n: "normalize_path p = CHR ''/'' # q"
    by (cases "r = []") (simp_all add: normalize_path_def Cons c q_def ends_with_def)
  have r: "r = q \<or> r = q @ ''/''"
    unfolding q_def by (metis append_butlast_last_id)
  show ?thesis
  proof (rule that [OF n])
    show "pattern_toks p = tokens q" by (simp add: pattern_toks_def n starts_with_def Let_def)
  qed (use r Cons c in auto)
qed

text \<open>
  The static table holds the literal routes of the route map, and nothing else.
\<close>

definition static_ok :: "(http_method \<times> string \<times> 'h) list \<Rightarrow> (string \<rightharpoonup> 'h option list) \<Rightarrow> bool" where
  "static_ok rs sr \<longleftrightarrow>
     (\<forall>q i. route_map rs (map Lit q, i) =
        (case sr (CHR ''/'' # q) of None \<Rightarrow> None | Some e \<Rightarrow> if i < 9 then e ! i else None)) \<and>
     (\<forall>k e. sr k = Some e \<longrightarrow> (\<exists>q. k = CHR ''/'' # q) \<and> length e = 9 \<and> (\<exists>i < 9. e ! i \<noteq> None))"

lemma route_map_snoc:
  "route_map (rs @ [(m, p, h)]) = (route_map rs)((pattern_toks p, method_index m) \<mapsto> h)"
  by (simp add: route_map_def)

lemma map_Lit_eq [simp]: "map Lit q = map Lit q' \<longleftrightarrow> q = q'"
  by (metis list.inj_map_strong token.inject(1))

lemma static_ok_step:
  assumes ok: "static_ok rs sr" and p: "absolute p" "m \<noteq> UNKNOWN"
  shows "static_ok (rs @ [(m, p, h)]) (add_static m p h sr)"
proof -
  obtain q0 where q0: "normalize_path p = CHR ''/'' # q0" "pattern_toks p = tokens q0"
    "CHR '':'' \<in> set q0 \<longleftrightarrow> CHR '':'' \<in> set p" "CHR ''*'' \<in> set q0 \<longleftrightarrow> CHR ''*'' \<in> set p"
    using p(1) by (rule normalize_absolute)
  have idx: "method_index m < 9" using p(2) by (rule method_index_less)
  show ?thesis
  proof (cases "sv_find_first_of '':*'' p 0 = None")
    case False
    then have ne: "map Lit q \<noteq> pattern_toks p" for q
      using tokens_eq_literal [of q0 q] q0 by (auto simp: find_first_of_None)
    have "add_static m p h sr = sr" using False by (auto simp: add_static_def)
    then show ?thesis using ok ne by (simp add: static_ok_def route_map_snoc)
  next
    case True
    then have toks: "pattern_toks p = map Lit q0"
      using tokens_literal [of q0] q0 by (simp add: find_first_of_None)
    define e where "e = (case sr (CHR ''/'' # q0) of Some e \<Rightarrow> e | None \<Rightarrow> no_handlers)"
    have e: "length e = 9" "\<And>i. i < 9 \<Longrightarrow> e ! i = route_map rs (map Lit q0, i)"
      using ok by (auto simp: e_def static_ok_def no_handlers_def split: option.split)
    have sr': "add_static m p h sr = sr(CHR ''/'' # q0 \<mapsto> e[method_index m := Some h])"
      using True idx e(1) by (simp add: add_static_def q0(1) e_def Let_def)
    have out: "route_map rs (map Lit q0, i) = None" if "\<not> i < 9" for i
      using ok that by (auto simp: static_ok_def split: option.split)
    have "route_map (rs @ [(m, p, h)]) (map Lit q, i) =
        (case add_static m p h sr (CHR ''/'' # q) of None \<Rightarrow> None | Some e \<Rightarrow> if i < 9 then e ! i else None)"
      for q i
      using ok idx e out by (auto simp: static_ok_def sr' route_map_snoc toks nth_list_update)
    moreover have "\<exists>i < 9. e[method_index m := Some h] ! i \<noteq> None"
      using idx e(1) by (intro exI [of _ "method_index m"]) simp
    ultimately show ?thesis
      using ok e(1) unfolding static_ok_def sr' by auto
  qed
qed

lemma static_table_ok:
  "known_methods rs \<Longrightarrow> list_all (\<lambda>(m, p, h). absolute p) rs \<Longrightarrow> static_ok rs (static_table rs)"
proof (induction rs rule: rev_induct)
  case Nil
  then show ?case by (simp add: static_ok_def static_table_def route_map_def)
next
  case (snoc r rs)
  obtain m p h where r: "r = (m, p, h)" by (cases r)
  have "static_ok rs (static_table rs)" using snoc by (simp add: known_methods_def)
  then have "static_ok (rs @ [(m, p, h)]) (add_static m p h (static_table rs))"
    using snoc.prems by (intro static_ok_step) (simp_all add: r known_methods_def)
  then show ?case by (simp add: r static_table_def)
qed

lemma static_hit_tree:
  assumes rs: "known_methods rs" and ok: "static_ok rs sr" and e: "sr (normalize_path (rq_path req)) = Some e"
  shows "match_route t (build_tree t' rs) req =
    (let midx = method_index (rq_method req)
     in if midx < length e \<and> e ! midx \<noteq> None then (Matched (the (e ! midx)), req)
        else (MethodNotAllowedFor (allowed_mask e), req))"
proof -
  let ?n = "build_tree t' rs"
  have shape: "(\<exists>q. normalize_path (rq_path req) = CHR ''/'' # q) \<and> length e = 9 \<and> (\<exists>i < 9. e ! i \<noteq> None)"
    using ok e unfolding static_ok_def by blast
  then obtain q where q: "normalize_path (rq_path req) = CHR ''/'' # q" and len: "length e = 9" by blast
  have map: "route_map rs (map Lit q, i) = (if i < 9 then e ! i else None)" for i
    using ok e by (auto simp: static_ok_def q)
  obtain i x where i: "i < 9" "e ! i = Some x" using shape by blast
  note inv = build_tree_inv [OF rs, of t']
  then have wf: "wf_node ?n" by (simp add: tree_inv_def)
  have thr: "through ?n (map Lit (CHR ''/'' # q)) j y \<longleftrightarrow> j < 9 \<and> e ! j = Some y" for j y
    using root_through [OF inv] build_tree_map [OF rs] map by simp
  then have "through ?n (map Lit (CHR ''/'' # q)) i x" using i by simp
  then obtain m where m: "match_node t ?n (CHR ''/'' # q) [] = (Some m, [])" "node_at ?n (map Lit (CHR ''/'' # q)) m"
    using match_node_literal [OF wf] by blast
  have lm: "length (rn_handlers m) = 9" using iffD1 [OF wf_node_iff node_at_wf [OF m(2) wf]] by simp
  have "rn_handlers m ! j = e ! j" if "j < 9" for j
    using node_at_through [OF m(2), of j] node_at_own [OF m(2) wf, of j] thr [of j] that lm
    by (cases "rn_handlers m ! j"; cases "e ! j") (auto simp: own_def)
  then have "rn_handlers m = e" using lm len by (intro nth_equalityI) auto
  then show ?thesis by (simp add: match_route_def q m(1) Let_def)
qed


text \<open>The calls that configure a router, and the router a sequence of them builds.\<close>

datatype ('c, 'ws) router_op =
    AddRoute http_method string "'c middleware list" "'c middleware list" "'c route_handler" bool
  | GroupRoute "'c route_group" http_method string "'c middleware list" "'c route_handler"
  | Use "'c middleware_form"
  | SetErrorHandler "'c \<Rightarrow> exn \<Rightarrow> 'c outcome"
  | SetNotFoundHandler "'c route_handler"
  | SetMethodNotAllowedHandler "'c route_handler"
  | AddWs string 'ws

primrec apply_op ::
    "simd_tier \<Rightarrow> (('v, 'w) ctx, 'ws) router_op \<Rightarrow> (('v, 'w) ctx, 'ws) router \<Rightarrow> (('v, 'w) ctx, 'ws) router" where
  "apply_op t (AddRoute m p g l h s) r = add_route t m p g l h s r"
| "apply_op t (GroupRoute g m p l h) r = group_add_route t g m p l h r"
| "apply_op t (Use mw) r = router_use mw r"
| "apply_op t (SetErrorHandler eh) r = r\<lparr>rt_error_handler := Some eh\<rparr>"
| "apply_op t (SetNotFoundHandler h) r = r\<lparr>rt_not_found_handler := h\<rparr>"
| "apply_op t (SetMethodNotAllowedHandler h) r = r\<lparr>rt_method_not_allowed_handler := h\<rparr>"
| "apply_op t (AddWs p e) r = add_ws t p e r"

primrec op_ok :: "('c, 'ws) router_op \<Rightarrow> bool" where
  "op_ok (AddRoute m p g l h s) \<longleftrightarrow> m \<noteq> UNKNOWN \<and> absolute p"
| "op_ok (GroupRoute g m p l h) \<longleftrightarrow> m \<noteq> UNKNOWN \<and> absolute (gr_prefix g)"
| "op_ok (Use mw) \<longleftrightarrow> True"
| "op_ok (SetErrorHandler eh) \<longleftrightarrow> True"
| "op_ok (SetNotFoundHandler h) \<longleftrightarrow> True"
| "op_ok (SetMethodNotAllowedHandler h) \<longleftrightarrow> True"
| "op_ok (AddWs p e) \<longleftrightarrow> absolute p"

definition configure :: "simd_tier \<Rightarrow> (('v, 'w) ctx, 'ws) router_op list \<Rightarrow> (('v, 'w) ctx, 'ws) router" where
  "configure t ops = fold (apply_op t) ops empty_router"

definition two_tiers :: "simd_tier \<Rightarrow> ('c, 'ws) router \<Rightarrow> bool" where
  "two_tiers t r \<longleftrightarrow> (\<exists>rs. known_methods rs \<and> rt_tree r = build_tree t rs \<and> static_ok rs (rt_static_routes r))"

lemma absolute_join: "absolute a \<Longrightarrow> absolute (join_paths a b)"
  by (cases a) (auto simp: absolute_def join_paths_def starts_with_def)

lemma two_tiers_add:
  assumes "two_tiers t r" "m \<noteq> UNKNOWN" "absolute p"
  shows "two_tiers t (add_route t m p g l h s r)"
proof -
  obtain rs where rs: "known_methods rs" "rt_tree r = build_tree t rs" "static_ok rs (rt_static_routes r)"
    using assms(1) by (auto simp: two_tiers_def)
  let ?rs = "rs @ [(m, p, chained_handler g l h s)]"
  have "known_methods ?rs" using rs(1) assms(2) by (simp add: known_methods_def)
  moreover have "static_ok ?rs (add_static m p (chained_handler g l h s) (rt_static_routes r))"
    using rs(3) assms(2,3) by (intro static_ok_step)
  ultimately show ?thesis
    using rs(2) unfolding two_tiers_def
    by (intro exI [of _ ?rs]) (simp add: add_route_def Let_def build_tree_def)
qed

lemma two_tiers_op: "two_tiers t r \<Longrightarrow> op_ok op \<Longrightarrow> two_tiers t (apply_op t op r)"
proof (cases op)
  case (AddWs p e)
  assume "two_tiers t r" "op_ok op"
  moreover from this have "two_tiers t (r\<lparr>rt_ws_routes := (rt_ws_routes r)(normalize_path p \<mapsto> e)\<rparr>)"
    by (simp add: two_tiers_def)
  ultimately show ?thesis using AddWs by (simp add: add_ws_def two_tiers_add)
qed (auto simp: two_tiers_add group_add_route_def absolute_join router_use_def,
    auto simp: two_tiers_def)

lemma two_tiers_configure: "list_all op_ok ops \<Longrightarrow> two_tiers t (configure t ops)"
proof (induction ops rule: rev_induct)
  case Nil
  have "static_ok [] (Map.empty :: string \<rightharpoonup> 'h option list)" by (simp add: static_ok_def route_map_def)
  then show ?case
    by (auto simp: two_tiers_def configure_def empty_router_def known_methods_def build_tree_def
        static_ok_def route_map_def intro!: exI [of _ "[]"])
next
  case (snoc op ops)
  then show ?case by (simp add: configure_def two_tiers_op)
qed

text \<open>
  C18: The fast path for literal routes is exact. For a router built by any sequence of configuration
  calls with absolute patterns, looking the path up in the hash table of literal routes first gives
  the same handler, the same 405 mask or the same 404 as the radix tree alone, and the same request.
\<close>

theorem router_fast_path_exact:
  assumes "list_all op_ok ops"
  shows "router_match t (configure t' ops) req = match_route t (rt_tree (configure t' ops)) req"
proof -
  obtain rs where rs: "known_methods rs" "rt_tree (configure t' ops) = build_tree t' rs"
    "static_ok rs (rt_static_routes (configure t' ops))"
    using two_tiers_configure [OF assms] by (auto simp: two_tiers_def)
  have path: "(if rq_path req = [] then ''/''
      else if 1 < length (rq_path req) \<and> ends_with (rq_path req) CHR ''/'' then butlast (rq_path req)
      else rq_path req) = normalize_path (rq_path req)"
    by (simp add: normalize_path_def)
  show ?thesis
    using static_hit_tree [OF rs(1,3), of req _ t t'] unfolding router_match_def path rs(2)
    by (cases "rt_static_routes (configure t' ops) (normalize_path (rq_path req))") (simp_all add: Let_def)
qed

theorem router_fast_path_exact_witness:
  "router_match SSE42 (configure NEON
      [AddRoute GET ''/a'' [] [] (NoHandler :: (nat, nat) ctx route_handler) False, AddWs ''/:x'' (1 :: nat)]) initial_request =
   match_route SSE42 (rt_tree (configure NEON
      [AddRoute GET ''/a'' [] [] (NoHandler :: (nat, nat) ctx route_handler) False, AddWs ''/:x'' (1 :: nat)])) initial_request"
  by (rule router_fast_path_exact) (simp add: absolute_def starts_with_def)

subsection \<open>Middleware and groups\<close>

lemma run_chain_drop:
  "idx \<le> length g + length l \<Longrightarrow>
    run_chain g l idx h c = foldr (\<lambda>mw k c. mw c k) (drop idx (g @ l)) (invoke h) c"
proof (induction g l idx h c rule: run_chain.induct)
  case (1 g l idx h c)
  show ?case
  proof (cases "idx < length g + length l")
    case True
    have mw: "(if idx < length g then g ! idx else l ! (idx - length g)) = (g @ l) ! idx"
      by (simp add: nth_append)
    have "run_chain g l (idx + 1) h = foldr (\<lambda>mw k c. mw c k) (drop (idx + 1) (g @ l)) (invoke h)"
      using 1 True by (auto simp: fun_eq_iff)
    moreover have "drop idx (g @ l) = (g @ l) ! idx # drop (idx + 1) (g @ l)"
      using True by (simp add: Cons_nth_drop_Suc del: drop_append)
    ultimately show ?thesis
      using True by (subst run_chain.simps) (simp add: mw Let_def del: drop_append)
  next
    case False
    with 1(2) show ?thesis by (subst run_chain.simps) simp
  qed
qed

text \<open>
  Middleware nests. Running a chain is applying the middlewares around the handler, the global
  ones outermost, then the group and route ones, each given the rest of the chain as its
  continuation; a middleware that does not call it stops the chain.
\<close>

theorem run_chain_onion:
  "run_chain global local 0 h = foldr (\<lambda>mw k c. mw c k) (global @ local) (invoke h)"
  by (simp add: run_chain_drop fun_eq_iff)

text \<open>
  A synchronous middleware that takes a continuation can only stop the chain: nothing after it runs,
  whatever it does with the continuation.
\<close>

lemma sync_next_stops_chain:
  "run_chain (make_middleware (SyncNext f) # global) local 0 h = f"
  by (simp add: run_chain_drop fun_eq_iff)

text \<open>One slash off the end of the prefix and one off the front of the pattern, then one between.\<close>

definition chop_end :: "string \<Rightarrow> string" where
  "chop_end a = (if a \<noteq> [] \<and> last a = CHR ''/'' then butlast a else a)"

definition chop_front :: "string \<Rightarrow> string" where
  "chop_front b = (if b \<noteq> [] \<and> hd b = CHR ''/'' then tl b else b)"

lemma join_paths_chop: "join_paths a b = chop_end a @ CHR ''/'' # chop_front b"
proof -
  have "starts_with b ''/'' \<longleftrightarrow> b \<noteq> [] \<and> hd b = CHR ''/''"
    by (cases b) (auto simp: starts_with_def)
  then show ?thesis
    by (cases a rule: rev_cases; cases b)
      (simp_all add: join_paths_def chop_front_def chop_end_def ends_with_def)
qed

lemma chop_end_append: "chop_end (x @ CHR ''/'' # y) = (if y = [] then x else x @ CHR ''/'' # chop_end y)"
  by (simp add: chop_end_def butlast_append)

lemma chop_front_append: "chop_front (x @ CHR ''/'' # y) = (if x = [] then y else chop_front x @ CHR ''/'' # y)"
  by (cases x) (simp_all add: chop_front_def)

lemma chop_commute: "chop_front b \<noteq> [] \<Longrightarrow> chop_end b \<noteq> [] \<and> chop_end (chop_front b) = chop_front (chop_end b)"
  by (cases b; cases "tl b") (auto simp: chop_front_def chop_end_def)

lemma chop_empty: "chop_front b = [] \<Longrightarrow> chop_end b = []"
  by (cases b; cases "tl b") (auto simp: chop_front_def chop_end_def split: if_splits)

text \<open>
  Nesting groups is associative. A route added through nested groups gets the same path however
  the prefixes are combined, whatever slashes they begin or end with.
\<close>

theorem join_paths_assoc: "join_paths (join_paths a b) c = join_paths a (join_paths b c)"
  using chop_commute [of b] chop_empty [of b]
  by (auto simp: join_paths_chop chop_end_append chop_front_append)


subsection \<open>Dispatch\<close>

text \<open>
  C20: The synchronous dispatcher agrees with the general one. When it reports the request as
  handled, the context it leaves is the one the general dispatcher would have left: the same
  response, also when the handler throws and no error handler is set.
\<close>

theorem dispatch_sync_agrees:
  assumes "dispatch_sync t to_json r c = (True, c')" "cx_local_store c = Map.empty"
  shows "dispatch t to_json r c = c'"
proof (cases "is_options_asterisk (cx_req c)")
  case False
  have upd: "c\<lparr>cx_req := q, cx_local_store := Map.empty\<rparr> = c\<lparr>cx_req := q\<rparr>" for q
    using assms(2) by (cases c) simp
  have mw: "rt_global_middleware r = []" using assms(1) False by (auto simp: dispatch_sync_def split: if_splits)
  obtain m req where m: "router_match t r (cx_req c) = (m, req)" by fastforce
  then obtain h where h: "m = Matched h" "is_sync h"
    using assms(1) False mw by (cases m) (auto simp: dispatch_sync_def Let_def split: if_splits)
  obtain c2 o2 where inv: "invoke h (c\<lparr>cx_req := req\<rparr>) = (c2, o2)" by fastforce
  show ?thesis
    using assms(1) False mw m h inv
    by (cases o2; cases "rt_error_handler r") (simp_all add: dispatch_sync_def dispatch_def upd Let_def)
qed (use assms in \<open>simp add: dispatch_sync_def dispatch_def\<close>)

theorem dispatch_sync_agrees_witness:
  "dispatch NEON (\<lambda>_. ''x'') (empty_router :: ((nat, nat) ctx, nat) router)
     \<lparr>cx_req = initial_request\<lparr>rq_method := OPTIONS, rq_path := ''*''\<rparr>, cx_res = initial_response,
      cx_local_store = Map.empty, cx_world = 0\<rparr> =
   \<lparr>cx_req = initial_request\<lparr>rq_method := OPTIONS, rq_path := ''*''\<rparr>,
    cx_res = options_asterisk NEON initial_response, cx_local_store = Map.empty, cx_world = 0\<rparr>"
  by (rule dispatch_sync_agrees) (simp_all add: dispatch_sync_def is_options_asterisk_def initial_request_def)

lemma problem_simps [simp]:
  "rs_status (cx_res (problem t tj st title detail c)) = st"
  "res_body (cx_res (problem t tj st title detail c)) = tj \<lparr>pd_type = ''about:blank'', pd_title = title,
     pd_status = status_value st, pd_detail = detail, pd_instance = rq_path (cx_req c)\<rparr>"
  "rs_headers (cx_res (problem t tj st title detail c)) =
     set_header t ''Content-Type'' ''application/problem+json'' (rs_headers (cx_res c))"
  by (simp_all add: problem_def Let_def set_body_def set_status_def res_header_def res_body_def)

text \<open>The names of a list of methods, joined as in an Allow header.\<close>

fun comma_join :: "string list \<Rightarrow> string" where
  "comma_join [] = []"
| "comma_join [s] = s"
| "comma_join (s # u # us) = s @ '', '' @ comma_join (u # us)"

definition registered_methods :: "'h option list \<Rightarrow> http_method list" where
  "registered_methods hs = map method_of_index (filter (\<lambda>i. hs ! i \<noteq> None) [0..<9])"

lemma comma_join_snoc: "xs \<noteq> [] \<Longrightarrow> comma_join (xs @ [s]) = comma_join xs @ '', '' @ s"
  by (induction xs rule: comma_join.induct) simp_all

lemma method_to_string_nonempty: "method_to_string m \<noteq> []"
  by (cases m) (simp_all add: method_to_string_def)

lemma comma_join_nonempty: "xs \<noteq> [] \<Longrightarrow> \<forall>x \<in> set xs. x \<noteq> [] \<Longrightarrow> comma_join xs \<noteq> []"
  by (induction xs rule: comma_join.induct) simp_all

lemma mask_bit:
  assumes "i < length hs"
  shows "odd (allowed_mask hs div 2 ^ i) \<longleftrightarrow> hs ! i \<noteq> None"
proof -
  have "allowed_mask hs = horner_sum of_bool 2 (map (\<lambda>x. x \<noteq> None) hs)"
    unfolding allowed_mask_def horner_sum_eq_sum interv_sum_list_conv_sum_set_nat
    by (rule sum.cong) auto
  then have "bit (allowed_mask hs) i \<longleftrightarrow> hs ! i \<noteq> None"
    using assms by (simp add: bit_horner_sum_bit_iff)
  then show ?thesis by (simp add: bit_iff_odd)
qed

lemma allow_string_exact:
  assumes "length hs = 9"
  shows "allow_string (allowed_mask hs) = comma_join (map method_to_string (registered_methods hs))"
proof -
  let ?f = "\<lambda>i s. if odd (allowed_mask hs div 2 ^ i)
    then (if s = [] then [] else s @ '', '') @ method_to_string (method_of_index i) else s"
  let ?g = "\<lambda>n. map (\<lambda>i. method_to_string (method_of_index i)) (filter (\<lambda>i. hs ! i \<noteq> None) [0..<n])"
  have "n \<le> 9 \<Longrightarrow> fold ?f [0..<n] [] = comma_join (?g n)" for n
  proof (induction n)
    case (Suc n)
    have "?g n = [] \<longleftrightarrow> comma_join (?g n) = []"
      using comma_join_nonempty [of "?g n"] method_to_string_nonempty by auto
    then show ?case
      using Suc mask_bit [of n hs] assms comma_join_snoc [of "?g n"] by (cases "?g n = []") auto
  qed simp
  then show ?thesis by (simp add: allow_string_def registered_methods_def comp_def)
qed


text \<open>
  Requests without a handler are answered as documented. With no middleware and no custom
  handlers, an unmatched path gets a 404 problem document naming the method and the path; a path
  registered for other methods gets a 405 whose Allow header lists exactly the registered methods.
\<close>

theorem dispatch_rejects:
  assumes "\<not> is_options_asterisk (cx_req c)" "rt_global_middleware r = []"
    and "rt_not_found_handler r = NoHandler" "rt_method_not_allowed_handler r = NoHandler"
    and "router_match t r (cx_req c) = (m, cx_req c)" "hm_inv (rs_headers (cx_res c))"
    and "m = NoRoute \<or> m = MethodNotAllowedFor (allowed_mask hs) \<and> length hs = 9 \<and> registered_methods hs \<noteq> []"
  shows "if m = NoRoute
    then rs_status (cx_res (dispatch t to_json r c)) = NotFound \<and>
      res_body (cx_res (dispatch t to_json r c)) =
        to_json \<lparr>pd_type = ''about:blank'', pd_title = ''Not Found'', pd_status = 404,
          pd_detail = ''Cannot '' @ method_to_string (rq_method (cx_req c)) @ '' '' @ rq_path (cx_req c),
          pd_instance = rq_path (cx_req c)\<rparr>
    else rs_status (cx_res (dispatch t to_json r c)) = MethodNotAllowed \<and>
      get_header t (rs_headers (cx_res (dispatch t to_json r c))) ''Allow'' =
        Some (comma_join (map method_to_string (registered_methods hs)))"
proof (cases "m = NoRoute")
  case True
  then show ?thesis
    using assms by (simp add: dispatch_def Let_def execute_route_def run_fallback_def)
next
  case False
  let ?names = "map method_to_string (registered_methods hs)"
  have m: "m = MethodNotAllowedFor (allowed_mask hs)" "length hs = 9" "?names \<noteq> []"
    using assms(7) False by auto
  have ne: "comma_join ?names \<noteq> []" using m(3) by (intro comma_join_nonempty) (auto simp: method_to_string_nonempty)
  have "\<not> same_name ''Content-Type'' ''Allow''" by (simp add: same_name_def)
  then show ?thesis
    using assms m ne hm.put_inv [OF assms(6), of t "''Allow''" "comma_join ?names"]
    by (simp add: dispatch_def Let_def execute_route_def run_fallback_def allow_string_exact hm.lookup_put
        res_header_def same_name_def)
qed

text \<open>A one-route router and a context, for the examples.\<close>

definition one_route :: "string \<Rightarrow> ('v, 'w) ctx route_handler \<Rightarrow> (('v, 'w) ctx, 'ws) router" where
  "one_route p h = configure NEON [AddRoute GET p [] [] h False]"

definition get_ctx :: "http_method \<Rightarrow> string \<Rightarrow> 'w \<Rightarrow> ('v, 'w) ctx" where
  "get_ctx m p w = \<lparr>cx_req = initial_request\<lparr>rq_method := m, rq_path := p\<rparr>, cx_res = initial_response,
     cx_local_store = Map.empty, cx_world = w\<rparr>"

lemmas eval_router = one_route_def get_ctx_def configure_def add_route_def add_static_def chained_handler_def
  router_match_def empty_router_def is_options_asterisk_def

theorem dispatch_rejects_witness:
  "get_header NEON (rs_headers (cx_res (dispatch NEON (\<lambda>_. [])
     (one_route ''/a'' NoHandler :: ((nat, nat) ctx, nat) router) (get_ctx POST ''/a'' 0)))) ''Allow'' = Some ''GET''"
proof -
  let ?r = "one_route ''/a'' NoHandler :: ((nat, nat) ctx, nat) router" and ?c = "get_ctx POST ''/a'' 0 :: (nat, nat) ctx"
  let ?hs = "no_handlers[0 := Some (NoHandler :: (nat, nat) ctx route_handler)]"
  have m: "router_match NEON ?r (cx_req ?c) = (MethodNotAllowedFor (allowed_mask ?hs), cx_req ?c)"
    by (simp add: eval_router eval_routes)
  have g: "registered_methods ?hs = [GET]"
    by (simp add: registered_methods_def no_handlers_def method_of_index_def numeral_eq_Suc)
  show ?thesis
    using dispatch_rejects [OF _ _ _ _ m, of ?hs "\<lambda>_. []"] inv_empty
    by (simp add: g) (simp add: eval_router initial_request_def initial_response_def no_handlers_def
        method_to_string_def)
qed

text \<open>
  A handler that throws runs twice. When a synchronous handler throws and a custom error handler
  is set, the synchronous dispatcher reports the request as not handled after having run the
  handler, and the connection falls through to the general dispatcher, which runs it again on the
  state the first run left; only the second run's exception reaches the error handler.
\<close>

theorem throwing_handler_runs_twice:
  assumes "\<not> is_options_asterisk (cx_req c)" "rt_global_middleware r = []" "rt_error_handler r = Some eh"
    and "router_match t r (cx_req c) = (Matched (SyncHandler s f), req1)"
    and "f (ctx_reset (c\<lparr>cx_res := res_reset (cx_res c)\<rparr>)\<lparr>cx_req := req1\<rparr>) = (c1, Some e1)"
    and "\<not> is_options_asterisk (cx_req c1)" "router_match t r (cx_req c1) = (Matched (SyncHandler s f), req2)"
    and "f (c1\<lparr>cx_req := req2, cx_local_store := Map.empty\<rparr>) = (c2, Some e2)"
  shows "serve_request t to_json r c =
    (case eh c2 e2 of
       (c3, None) \<Rightarrow> c3
     | (c3, Some _) \<Rightarrow> internal_error t to_json ''Unknown error in custom error handler'' c3)"
  using assms by (simp add: serve_request_def dispatch_sync_def dispatch_def ctx_reset_def Let_def)


theorem throwing_handler_runs_twice_witness:
  "cx_world (serve_request NEON (\<lambda>_. [])
     ((one_route ''/a'' (SyncHandler False (\<lambda>c. (c\<lparr>cx_world := cx_world c + 1\<rparr>, Some OtherException))))
        \<lparr>rt_error_handler := Some (\<lambda>c e. (c, None))\<rparr> :: ((nat, nat) ctx, nat) router)
     (get_ctx GET ''/a'' 0)) = 2"
proof -
  let ?f = "\<lambda>c :: (nat, nat) ctx. (c\<lparr>cx_world := cx_world c + 1\<rparr>, Some OtherException)"
  let ?r = "(one_route ''/a'' (SyncHandler False ?f))\<lparr>rt_error_handler := Some (\<lambda>c e. (c, None))\<rparr>
    :: ((nat, nat) ctx, nat) router"
  let ?c = "get_ctx GET ''/a'' 0 :: (nat, nat) ctx"
  have m: "router_match NEON ?r (cx_req ?c) = (Matched (SyncHandler False ?f), cx_req ?c)"
    by (simp add: eval_router eval_routes)
  have o: "\<not> is_options_asterisk (cx_req ?c)"
    by (simp add: is_options_asterisk_def get_ctx_def)
  have mw: "rt_global_middleware ?r = []" "rt_error_handler ?r = Some (\<lambda>c e. (c, None))"
    by (simp_all add: one_route_def configure_def empty_router_def add_route_def Let_def)
  show ?thesis
    using throwing_handler_runs_twice [OF o mw m, of _ OtherException _ _ OtherException "\<lambda>_. []"] o m
    by (simp add: ctx_reset_def) (simp add: get_ctx_def)
qed

end
