(* ===== verification/Static_Files.thy ===== *)
theory Static_Files
  imports Http_Router
begin

text \<open>
  \<^verbatim>\<open>Router::static_files\<close> of \<^verbatim>\<open>src/http/Router.cpp\<close>: the handler that serves files below a directory
  with sidecar negotiation, conditional requests, an in-memory cache and a single-page fallback.
  The file system is an argument, fixed during one call; the directory is the canonical path that
  the standard library computes; dates are formatted by the C library.
\<close>

subsection \<open>Options, the file system and the cache\<close>

record static_options =
  so_precompressed :: bool
  so_cache_in_memory :: bool
  so_max_cache_file_size :: nat
  so_index_file :: string
  so_spa :: bool
  so_fallback_file :: string
  so_etag :: bool
  so_last_modified :: bool
  so_cache_control :: "(string \<Rightarrow> bool \<Rightarrow> string) option"

definition default_options :: static_options where
  "default_options = \<lparr>so_precompressed = True, so_cache_in_memory = True,
     so_max_cache_file_size = 4 * 1024 * 1024, so_index_file = ''index.html'', so_spa = False,
     so_fallback_file = ''index.html'', so_etag = True, so_last_modified = True, so_cache_control = None\<rparr>"

record file_stat =
  st_mtime :: int
  st_nsec :: int
  st_size :: nat
  st_regular :: bool

text \<open>What \<^verbatim>\<open>stat\<close>, \<^verbatim>\<open>open\<close> and \<^verbatim>\<open>pread\<close> find under a path.\<close>

record file_system =
  fs_stat :: "string \<Rightarrow> file_stat option"
  fs_can_open :: "string \<Rightarrow> bool"
  fs_content :: "string \<Rightarrow> string"

record cached_file =
  cf_mtime :: int
  cf_nsec :: int
  cf_size :: nat
  cf_etag :: string
  cf_last_modified :: string
  cf_content :: string
  cf_content_type :: string
  cf_content_encoding :: string

type_synonym file_cache = "string \<rightharpoonup> cached_file"

definition hex_u64 :: "int \<Rightarrow> string" where
  "hex_u64 i = to_chars 16 (nat (i mod 2 ^ 64))"

definition generate_etag :: "int \<Rightarrow> int \<Rightarrow> nat \<Rightarrow> string" where
  "generate_etag mtime nsec sz =
     [CHR 0x22] @ ''0x'' @ hex_u64 mtime @ hex_u64 nsec @ ''-0x'' @ hex_u64 (int sz) @ [CHR 0x22]"

subsection \<open>Serving one file\<close>

text \<open>The stat of the file, in the order the two modes ask for it.\<close>

definition serve_stat :: "static_options \<Rightarrow> file_system \<Rightarrow> string \<Rightarrow> file_stat option" where
  "serve_stat opts fs path =
     (if so_cache_in_memory opts then
        (case fs_stat fs path of Some st \<Rightarrow> if st_regular st then Some st else None | None \<Rightarrow> None)
      else if \<not> fs_can_open fs path then None
      else (case fs_stat fs path of Some st \<Rightarrow> if st_regular st then Some st else None | None \<Rightarrow> None))"

definition fresh_entry ::
    "(int \<Rightarrow> string) \<Rightarrow> static_options \<Rightarrow> file_stat \<Rightarrow> string \<Rightarrow> string \<Rightarrow> string \<Rightarrow> cached_file" where
  "fresh_entry http_date opts st data path encoding =
     \<lparr>cf_mtime = st_mtime st, cf_nsec = st_nsec st, cf_size = st_size st,
      cf_etag = (if so_etag opts then generate_etag (st_mtime st) (st_nsec st) (st_size st) else []),
      cf_last_modified = (if so_last_modified opts then http_date (st_mtime st) else []),
      cf_content = data, cf_content_type = infer_mime_type path, cf_content_encoding = encoding\<rparr>"

text \<open>The entry to serve, with the cache after storing it; None when the file cannot be read.\<close>

definition load_entry ::
    "(int \<Rightarrow> string) \<Rightarrow> static_options \<Rightarrow> file_system \<Rightarrow> string \<Rightarrow> string \<Rightarrow> file_stat \<Rightarrow> file_cache \<Rightarrow>
     (cached_file \<times> file_cache) option" where
  "load_entry http_date opts fs path encoding st cache =
     (let hit = (if so_cache_in_memory opts then
                   (case cache path of
                      Some e \<Rightarrow> if cf_mtime e = st_mtime st \<and> cf_nsec e = st_nsec st then Some e else None
                    | None \<Rightarrow> None)
                 else None);
          store = (\<lambda>e. if so_cache_in_memory opts then cache(path \<mapsto> e) else cache)
      in case hit of
           Some e \<Rightarrow> Some (e, cache)
         | None \<Rightarrow>
             if (\<not> so_cache_in_memory opts \<and> 64 * 1024 < st_size st) \<or>
                (so_cache_in_memory opts \<and> so_max_cache_file_size opts < st_size st)
             then let e = fresh_entry http_date opts st [] path encoding in Some (e, store e)
             else if so_cache_in_memory opts \<and> \<not> fs_can_open fs path then None
             else
               let data = take (st_size st) (fs_content fs path)
               in if length data \<noteq> st_size st then None
                  else let e = fresh_entry http_date opts st data path encoding in Some (e, store e))"

definition is_not_modified :: "simd_tier \<Rightarrow> static_options \<Rightarrow> cached_file \<Rightarrow> request \<Rightarrow> bool" where
  "is_not_modified t opts e req =
     ((so_etag opts \<and> cf_etag e \<noteq> [] \<and>
        (case get_header t (rq_headers req) ''if-none-match'' of
           Some inm \<Rightarrow> inm = ''*'' \<or> sv_find_str (cf_etag e) inm 0 \<noteq> None | None \<Rightarrow> False)) \<or>
      (so_last_modified opts \<and> cf_last_modified e \<noteq> [] \<and>
        get_header t (rq_headers req) ''if-modified-since'' = Some (cf_last_modified e)))"

definition validators :: "simd_tier \<Rightarrow> static_options \<Rightarrow> cached_file \<Rightarrow> string \<Rightarrow> bool \<Rightarrow> response \<Rightarrow> response" where
  "validators t opts e rel is_fallback res =
     (let res = (if so_etag opts \<and> cf_etag e \<noteq> [] then res_header t ''ETag'' (cf_etag e) res else res);
          res = (if so_last_modified opts \<and> cf_last_modified e \<noteq> []
                 then res_header t ''Last-Modified'' (cf_last_modified e) res else res)
      in case so_cache_control opts of
           Some f \<Rightarrow> let cc = f rel is_fallback in if cc \<noteq> [] then res_header t ''Cache-Control'' cc res else res
         | None \<Rightarrow> res)"

definition try_serve ::
    "simd_tier \<Rightarrow> (int \<Rightarrow> string) \<Rightarrow> static_options \<Rightarrow> file_system \<Rightarrow> string \<Rightarrow> string \<Rightarrow> string \<Rightarrow> bool \<Rightarrow> request \<Rightarrow>
     file_cache \<times> response \<Rightarrow> (file_cache \<times> response) option" where
  "try_serve t http_date opts fs rel path encoding is_fallback req cr =
     (case serve_stat opts fs path of
        None \<Rightarrow> None
      | Some st \<Rightarrow>
          (case load_entry http_date opts fs path encoding st (fst cr) of
             None \<Rightarrow> None
           | Some (e, cache) \<Rightarrow>
               let res = snd cr
               in if is_not_modified t opts e req
                  then Some (cache, validators t opts e rel is_fallback (set_status NotModified res))
                  else
                    let content_type = infer_mime_type path;
                        res = res_header t ''Content-Type'' content_type (set_status Ok res);
                        res = (if encoding \<noteq> [] then res_header t ''Content-Encoding'' encoding res else res);
                        res = validators t opts e rel is_fallback res
                    in Some (cache,
                         if cf_content e = [] \<and> 0 < st_size st
                         then res_file t (map_option st_size (fs_stat fs path)) path content_type res
                         else set_body (cf_content e) res)))"

text \<open>The attempts in order; a failed attempt changes neither the cache nor the response.\<close>

fun first_served ::
    "(file_cache \<times> response \<Rightarrow> (file_cache \<times> response) option) list \<Rightarrow> file_cache \<times> response \<Rightarrow>
     (file_cache \<times> response) option" where
  "first_served [] cr = None"
| "first_served (f # fs) cr = (case f cr of Some x \<Rightarrow> Some x | None \<Rightarrow> first_served fs cr)"

subsection \<open>The handler\<close>

definition unsafe_path :: "string \<Rightarrow> bool" where
  "unsafe_path p \<longleftrightarrow> sv_find_str ''..'' p 0 \<noteq> None \<or> sv_find CHR 0x5C p 0 \<noteq> None \<or> sv_find CHR 0x00 p 0 \<noteq> None"

definition relative_path :: "simd_tier \<Rightarrow> static_options \<Rightarrow> request \<Rightarrow> string option" where
  "relative_path t opts req =
     (let rel = (case param req ''filepath'' of Some p \<Rightarrow> p | None \<Rightarrow> []);
          decoded = dropWhile (\<lambda>c. c = CHR ''/'') (url_decode_string t rel);
          decoded = (if decoded = [] then so_index_file opts else decoded)
      in if decoded = [] \<or> unsafe_path decoded then None else Some decoded)"

definition is_asset_request :: "string \<Rightarrow> bool" where
  "is_asset_request rel =
     (case sv_rfind CHR ''.'' rel of
        None \<Rightarrow> False
      | Some dot \<Rightarrow>
          (case sv_rfind CHR ''/'' rel of None \<Rightarrow> True | Some slash \<Rightarrow> slash < dot) \<and>
          drop dot rel \<noteq> ''.html'' \<and> drop dot rel \<noteq> ''.htm'')"

definition accepts :: "simd_tier \<Rightarrow> request \<Rightarrow> string \<Rightarrow> string \<Rightarrow> bool" where
  "accepts t req name what =
     (case get_header t (rq_headers req) name of Some v \<Rightarrow> sv_find_str what v 0 \<noteq> None | None \<Rightarrow> False)"

definition sidecar_attempts ::
    "static_options \<Rightarrow> simd_tier \<Rightarrow> request \<Rightarrow>
     (string \<Rightarrow> string \<Rightarrow> file_cache \<times> response \<Rightarrow> (file_cache \<times> response) option) \<Rightarrow> string \<Rightarrow>
     (file_cache \<times> response \<Rightarrow> (file_cache \<times> response) option) list" where
  "sidecar_attempts opts t req serve path =
     (let br = so_precompressed opts \<and> accepts t req ''accept-encoding'' ''br'';
          gz = so_precompressed opts \<and> (accepts t req ''accept-encoding'' ''gzip'' \<or>
                 accepts t req ''accept-encoding'' ''deflate'')
      in (if br then [serve (path @ ''.br'') ''br''] else []) @
         (if gz then [serve (path @ ''.gz'') ''gzip''] else []) @ [serve path []])"

definition static_handler ::
    "simd_tier \<Rightarrow> (int \<Rightarrow> string) \<Rightarrow> static_options \<Rightarrow> string \<Rightarrow> file_system \<Rightarrow> request \<Rightarrow>
     file_cache \<times> response \<Rightarrow> file_cache \<times> response" where
  "static_handler t http_date opts base fs req cr =
     (let not_found = (\<lambda>(cache, res). (cache, res_text t ''Not Found'' (set_status NotFound res)))
      in case relative_path t opts req of
           None \<Rightarrow> not_found cr
         | Some rel \<Rightarrow>
             let serve = (\<lambda>fb path enc. try_serve t http_date opts fs rel path enc fb req);
                 attempts = sidecar_attempts opts t req (serve False) (base @ ''/'' @ rel) @
                   (if so_spa opts \<and> so_fallback_file opts \<noteq> [] \<and> (rq_method req = GET \<or> rq_method req = HEAD) \<and>
                       (\<not> is_asset_request rel \<or> accepts t req ''accept'' ''text/html'')
                    then sidecar_attempts opts t req (serve True) (base @ ''/'' @ so_fallback_file opts)
                    else [])
             in case first_served attempts cr of Some x \<Rightarrow> x | None \<Rightarrow> not_found cr)"

subsection \<open>Registration\<close>

definition clean_prefix :: "string \<Rightarrow> string" where
  "clean_prefix pre =
     (let p = (if pre \<noteq> [] \<and> \<not> starts_with pre ''/'' then ''/'' @ pre else pre);
          p = (if p = [] then [] else hd p # rev (dropWhile (\<lambda>c. c = CHR ''/'') (rev (tl p))))
      in if p = ''/'' then [] else p)"

definition static_patterns :: "string \<Rightarrow> (http_method \<times> string) list" where
  "static_patterns pre =
     (let p = clean_prefix pre
      in [(GET, p @ ''/*filepath''), (HEAD, p @ ''/*filepath'')] @
         (if p \<noteq> [] then [(GET, p), (HEAD, p), (GET, p @ ''/''), (HEAD, p @ ''/'')]
          else [(GET, ''/''), (HEAD, ''/'')]))"

definition static_files ::
    "simd_tier \<Rightarrow> string \<Rightarrow> 'c route_handler \<Rightarrow> ('c, 'ws) router \<Rightarrow> ('c, 'ws) router" where
  "static_files t pre h r =
     fold (\<lambda>(m, p). add_route t m p [] [] h False) (static_patterns pre) r"

subsection \<open>Properties\<close>

text \<open>
  The paths a directory and a relative path stand for: below the directory, with no parent
  reference, backslash or null byte, and possibly a sidecar suffix.
\<close>

definition safe_rel :: "string \<Rightarrow> bool" where
  "safe_rel rel \<longleftrightarrow> (\<forall>a b. rel \<noteq> a @ ''..'' @ b) \<and> CHR 0x5C \<notin> set rel \<and> CHR 0x00 \<notin> set rel"

definition confined :: "static_options \<Rightarrow> string \<Rightarrow> string \<Rightarrow> bool" where
  "confined opts base path \<longleftrightarrow>
     (\<exists>rel suf. path = base @ ''/'' @ rel @ suf \<and> suf \<in> {[], ''.br'', ''.gz''} \<and>
        (safe_rel rel \<or> so_spa opts \<and> rel = so_fallback_file opts))"

lemma not_unsafe: "\<not> unsafe_path p \<Longrightarrow> safe_rel p"
proof -
  assume safe: "\<not> unsafe_path p"
  then have "sv_find_str ''..'' p 0 = None" by (simp add: unsafe_path_def)
  then have none: "\<not> starts_with (drop i p) ''..''" if "i + 2 \<le> length p" for i
    using that by (auto simp: sv_find_str_def first_in_None_iff)
  have "p \<noteq> a @ ''..'' @ b" for a b using none [of "length a"] by (auto simp: starts_with_def)
  with safe show ?thesis by (simp add: safe_rel_def unsafe_path_def sv_find_None_iff)
qed

lemma relative_path_safe: "relative_path t opts req = Some rel \<Longrightarrow> safe_rel rel"
  by (auto simp: relative_path_def Let_def not_unsafe split: if_splits)

definition same_on :: "(string \<Rightarrow> bool) \<Rightarrow> file_system \<Rightarrow> file_system \<Rightarrow> bool" where
  "same_on P fs fs' \<longleftrightarrow> (\<forall>p. P p \<longrightarrow> fs_stat fs p = fs_stat fs' p \<and> fs_can_open fs p = fs_can_open fs' p \<and>
     fs_content fs p = fs_content fs' p)"

lemma try_serve_cong:
  assumes "same_on P fs fs'" "P path"
  shows "try_serve t d opts fs rel path enc fb req cr = try_serve t d opts fs' rel path enc fb req cr"
proof -
  have "fs_stat fs path = fs_stat fs' path" "fs_can_open fs path = fs_can_open fs' path"
    "fs_content fs path = fs_content fs' path"
    using assms by (simp_all add: same_on_def)
  then show ?thesis unfolding try_serve_def serve_stat_def load_entry_def by (simp only:)
qed

lemma sidecar_attempts_cong:
  assumes "\<And>suf enc. suf \<in> {[], ''.br'', ''.gz''} \<Longrightarrow> serve (path @ suf) enc = serve' (path @ suf) enc"
  shows "sidecar_attempts opts t req serve path = sidecar_attempts opts t req serve' path"
  using assms [of "[]"] assms [of "''.br''"] assms [of "''.gz''"] by (simp add: sidecar_attempts_def)

text \<open>
  C19: Static files never leave their directory. Whatever the request asks for, the answer depends
  only on files below the served directory whose relative path has no parent reference, backslash
  or null byte, on their compressed sidecars and on the configured fallback: two file systems that
  agree on those give the same response and the same cache.
\<close>

theorem static_files_confined:
  assumes "same_on (confined opts base) fs fs'"
  shows "static_handler t http_date opts base fs req cr = static_handler t http_date opts base fs' req cr"
proof (cases "relative_path t opts req")
  case (Some rel)
  note cong = fun_eq_iff [THEN iffD2, OF allI, OF try_serve_cong [OF assms]]
  have "sidecar_attempts opts t req (\<lambda>path enc. try_serve t http_date opts fs rel path enc False req) (base @ ''/'' @ rel) =
      sidecar_attempts opts t req (\<lambda>path enc. try_serve t http_date opts fs' rel path enc False req) (base @ ''/'' @ rel)"
    using relative_path_safe [OF Some] by (intro sidecar_attempts_cong cong) (auto simp: confined_def)
  moreover have "so_spa opts \<Longrightarrow>
      sidecar_attempts opts t req (\<lambda>path enc. try_serve t http_date opts fs rel path enc True req)
        (base @ ''/'' @ so_fallback_file opts) =
      sidecar_attempts opts t req (\<lambda>path enc. try_serve t http_date opts fs' rel path enc True req)
        (base @ ''/'' @ so_fallback_file opts)"
    by (intro sidecar_attempts_cong cong) (auto simp: confined_def)
  ultimately show ?thesis
    by (cases "so_spa opts") (simp_all only: static_handler_def Some Let_def option.case simp_thms if_False)
qed (simp add: static_handler_def)

text \<open>
  A cache agrees with a file system when each entry stamped with a file's current times holds its
  current contents, or none for a file too large to cache.
\<close>

definition cache_current :: "static_options \<Rightarrow> file_system \<Rightarrow> file_cache \<Rightarrow> bool" where
  "cache_current opts fs cache \<longleftrightarrow>
     (\<forall>p e st. cache p = Some e \<and> fs_stat fs p = Some st \<and> cf_mtime e = st_mtime st \<and> cf_nsec e = st_nsec st \<longrightarrow>
        cf_content e = fs_content fs p \<or> (cf_content e = [] \<and> so_max_cache_file_size opts < st_size st))"

definition sizes_ok :: "file_system \<Rightarrow> bool" where
  "sizes_ok fs \<longleftrightarrow> (\<forall>p st. fs_stat fs p = Some st \<longrightarrow> length (fs_content fs p) = st_size st)"

lemma load_entry_cases:
  assumes "load_entry d opts fs path enc st cache = Some (e, cache')"
  obtains (hit) "so_cache_in_memory opts" "cache path = Some e" "cf_mtime e = st_mtime st" "cf_nsec e = st_nsec st"
      "cache' = cache"
    | (large) "e = fresh_entry d opts st [] path enc" "cache' = (if so_cache_in_memory opts then cache(path \<mapsto> e) else cache)"
      "if so_cache_in_memory opts then so_max_cache_file_size opts < st_size st else 64 * 1024 < st_size st"
    | (read) "e = fresh_entry d opts st (take (st_size st) (fs_content fs path)) path enc"
      "cache' = (if so_cache_in_memory opts then cache(path \<mapsto> e) else cache)"
proof (cases "so_cache_in_memory opts \<and> (\<exists>e. cache path = Some e \<and> cf_mtime e = st_mtime st \<and> cf_nsec e = st_nsec st)")
  case True
  then obtain e0 where "so_cache_in_memory opts" "cache path = Some e0" "cf_mtime e0 = st_mtime st" "cf_nsec e0 = st_nsec st"
    by blast
  moreover from this assms have "e0 = e \<and> cache' = cache" by (simp add: load_entry_def)
  ultimately show ?thesis by (intro hit) simp_all
next
  case False
  then have "(if so_cache_in_memory opts then (case cache path of
      Some e \<Rightarrow> if cf_mtime e = st_mtime st \<and> cf_nsec e = st_nsec st then Some e else None | None \<Rightarrow> None)
    else None) = None" by (auto split: option.split)
  with assms have "(if (\<not> so_cache_in_memory opts \<and> 64 * 1024 < st_size st) \<or>
        (so_cache_in_memory opts \<and> so_max_cache_file_size opts < st_size st)
      then e = fresh_entry d opts st [] path enc
      else e = fresh_entry d opts st (take (st_size st) (fs_content fs path)) path enc) \<and>
      cache' = (if so_cache_in_memory opts then cache(path \<mapsto> e) else cache)"
    unfolding load_entry_def Let_def by (simp only: option.case) (auto split: if_splits)
  then show ?thesis using large read by (cases "so_cache_in_memory opts") (simp_all split: if_splits)
qed

lemma cache_current_upd:
  assumes "cache_current opts fs cache"
    and "cf_content e = fs_content fs path \<or> (cf_content e = [] \<and> so_max_cache_file_size opts < st_size st)"
    and "fs_stat fs path = Some st"
  shows "cache_current opts fs (cache(path \<mapsto> e))"
  using assms by (simp add: cache_current_def)

lemma load_entry_current:
  assumes cur: "cache_current opts fs cache" and "sizes_ok fs" and st: "fs_stat fs path = Some st"
    and "load_entry d opts fs path enc st cache = Some (e, cache')"
  shows "cache_current opts fs cache' \<and> (cf_content e = fs_content fs path \<or> (cf_content e = [] \<and> 0 < st_size st))"
  using assms(4)
proof (cases rule: load_entry_cases)
  case hit
  with cur st have "cf_content e = fs_content fs path \<or> cf_content e = [] \<and> so_max_cache_file_size opts < st_size st"
    unfolding cache_current_def by blast
  with hit cur show ?thesis by auto
next
  case large
  then show ?thesis using cache_current_upd [OF cur _ st, of e] cur by (auto simp: fresh_entry_def split: if_splits)
next
  case read
  have "take (st_size st) (fs_content fs path) = fs_content fs path" using assms(2) st by (simp add: sizes_ok_def)
  with read show ?thesis using cache_current_upd [OF cur _ st, of e] cur by (simp add: fresh_entry_def)
qed

lemma validators_simps [simp]:
  "rs_status (validators t opts e rel fb res) = rs_status res" "rs_body (validators t opts e rel fb res) = rs_body res"
  by (simp_all add: validators_def Let_def res_header_def split: option.split)

text \<open>
  A served file is the current file. If the cache agrees with the file system, serving a path
  keeps it so, and a 200 answer carries the file's present contents, in the body or as a reference
  to the file itself with its size: the modification time in the cache entry is what makes this so.
\<close>

theorem static_file_current:
  assumes "cache_current opts fs cache" "sizes_ok fs" "so_cache_in_memory opts"
    and "try_serve t http_date opts fs rel path enc fb req (cache, res) = Some (cache', res')"
  shows "cache_current opts fs cache' \<and>
    (rs_status res' = NotModified \<or>
     rs_status res' = Ok \<and>
       (rs_body res' = fs_content fs path \<or>
        rs_is_file res' \<and> rs_file_path res' = path \<and> rs_file_size res' = length (fs_content fs path)))"
proof -
  obtain st e where reg: "serve_stat opts fs path = Some st"
      and e: "load_entry http_date opts fs path enc st cache = Some (e, cache')"
    using assms(4) by (auto simp: try_serve_def Let_def split: option.splits if_splits)
  then have st: "fs_stat fs path = Some st"
    using assms(3) by (auto simp: serve_stat_def split: option.splits if_splits)
  note cur = load_entry_current [OF assms(1,2) st e, THEN conjunct1] load_entry_current [OF assms(1,2) st e, THEN conjunct2]
  have len: "length (fs_content fs path) = st_size st" using assms(2) st by (simp add: sizes_ok_def)
  show ?thesis
  proof (cases "is_not_modified t opts e req")
    case True
    then have "res' = validators t opts e rel fb (set_status NotModified res)"
      using assms(4) by (simp add: try_serve_def reg e)
    then show ?thesis using cur(1) by (simp add: set_status_def)
  next
    case False
    define v where "v = validators t opts e rel fb (if enc \<noteq> []
      then res_header t ''Content-Encoding'' enc (res_header t ''Content-Type'' (infer_mime_type path) (set_status Ok res))
      else res_header t ''Content-Type'' (infer_mime_type path) (set_status Ok res))"
    have v: "rs_status v = Ok" by (simp add: v_def set_status_def res_header_def)
    have res': "res' = (if cf_content e = [] \<and> 0 < st_size st
        then res_file t (Some (st_size st)) path (infer_mime_type path) v else set_body (cf_content e) v)"
      using assms(4) False by (auto simp: try_serve_def reg e st Let_def v_def)
    show ?thesis
    proof (cases "cf_content e = [] \<and> 0 < st_size st")
      case True
      then show ?thesis using cur(1) len v by (simp add: res' res_file_def res_header_def Let_def)
    next
      case False
      then show ?thesis using cur v by (auto simp: res' set_body_def)
    qed
  qed
qed

text \<open>A file system with one file, for the examples.\<close>

definition one_file :: "string \<Rightarrow> string \<Rightarrow> file_system" where
  "one_file path data = \<lparr>fs_stat = [path \<mapsto> \<lparr>st_mtime = 1, st_nsec = 2, st_size = length data, st_regular = True\<rparr>],
     fs_can_open = (\<lambda>p. p = path), fs_content = (\<lambda>p. if p = path then data else [])\<rparr>"

theorem static_file_current_witness:
  "\<exists>cache' res'. try_serve NEON (\<lambda>_. ''d'') default_options (one_file ''/w/a.txt'' ''hi'') ''a.txt'' ''/w/a.txt'' [] False
       initial_request (Map.empty, initial_response) = Some (cache', res') \<and>
     cache_current default_options (one_file ''/w/a.txt'' ''hi'') cache'"
proof -
  let ?fs = "one_file ''/w/a.txt'' ''hi''"
  let ?ts = "try_serve NEON (\<lambda>_. ''d'') default_options ?fs ''a.txt'' ''/w/a.txt'' [] False initial_request
    (Map.empty, initial_response)"
  have "?ts \<noteq> None"
    by (simp add: try_serve_def serve_stat_def load_entry_def one_file_def default_options_def Let_def)
  then obtain cache' res' where ts: "?ts = Some (cache', res')" by auto
  have "cache_current default_options ?fs Map.empty" "sizes_ok ?fs" "so_cache_in_memory default_options"
    by (simp_all add: cache_current_def sizes_ok_def one_file_def default_options_def)
  from static_file_current [OF this ts] ts show ?thesis by blast
qed

theorem static_files_confined_witness:
  "static_handler NEON (\<lambda>_. ''d'') default_options ''/w'' (one_file ''/etc/passwd'' ''secret'') initial_request
     (Map.empty, initial_response) =
   static_handler NEON (\<lambda>_. ''d'') default_options ''/w'' (one_file ''/etc/passwd'' ''other'') initial_request
     (Map.empty, initial_response)"
proof (rule static_files_confined)
  have "\<not> confined default_options ''/w'' ''/etc/passwd''" by (simp add: confined_def)
  then have "p \<noteq> ''/etc/passwd''" if "confined default_options ''/w'' p" for p using that by blast
  then show "same_on (confined default_options ''/w'') (one_file ''/etc/passwd'' ''secret'')
      (one_file ''/etc/passwd'' ''other'')"
    by (simp add: same_on_def one_file_def)
qed

text \<open>
  The type of a compressed sidecar is inferred from the name with its suffix, so it is always the
  generic binary type, whatever the file is.
\<close>

lemma sidecar_type_lost: "infer_mime_type (p @ ''.br'') = ''application/octet-stream''"
  "infer_mime_type (p @ ''.gz'') = ''application/octet-stream''"
proof -
  have "sv_rfind CHR ''.'' (p @ CHR ''.'' # x) = Some (length p)" if "CHR ''.'' \<notin> set x" for x
    using that by (auto simp: sv_rfind_Some_iff nth_append in_set_conv_nth)
  from this [of "''br''"] this [of "''gz''"] show
    "infer_mime_type (p @ ''.br'') = ''application/octet-stream''"
    "infer_mime_type (p @ ''.gz'') = ''application/octet-stream''"
    by (simp_all add: infer_mime_type_def mime_table_def)
qed

text \<open>
  A request whose entity tag does not match can still be answered with 304: the date is compared
  although If-None-Match is present, and dates have a resolution of one second.
\<close>

lemma etag_mismatch_not_modified:
  assumes "so_last_modified opts" "cf_last_modified e \<noteq> []"
    and "get_header t (rq_headers req) ''if-none-match'' = Some inm" "inm \<noteq> ''*''" "sv_find_str (cf_etag e) inm 0 = None"
    and "get_header t (rq_headers req) ''if-modified-since'' = Some (cf_last_modified e)"
  shows "is_not_modified t opts e req"
  using assms by (simp add: is_not_modified_def)

end
