(* ===== verification/WebSocket_Frame.thy ===== *)
theory WebSocket_Frame
  imports Simd_Router
begin

text \<open>
  \<^verbatim>\<open>src/http/websocket/WebSocketFrame.h\<close>: RFC 6455 frame headers, read and written, close codes, and
  the tiered in-place unmasking of payloads. Bytes of the wire are characters, the payload that is
  unmasked is a list of 8-bit words.
\<close>

unbundle bit_operations_syntax

subsection \<open>Frames\<close>

datatype opcode = Continuation | Text | Binary | Close | Ping | Pong

primrec opcode_value :: "opcode \<Rightarrow> nat" where
  "opcode_value Continuation = 0x0"
| "opcode_value Text = 0x1"
| "opcode_value Binary = 0x2"
| "opcode_value Close = 0x8"
| "opcode_value Ping = 0x9"
| "opcode_value Pong = 0xA"

text \<open>The cast of four bits to the enumeration together with the test for reserved values.\<close>

definition opcode_of :: "nat \<Rightarrow> opcode option" where
  "opcode_of n =
     (if n = 0x0 then Some Continuation else if n = 0x1 then Some Text
      else if n = 0x2 then Some Binary else if n = 0x8 then Some Close
      else if n = 0x9 then Some Ping else if n = 0xA then Some Pong else None)"

definition is_control_opcode :: "opcode \<Rightarrow> bool" where
  "is_control_opcode op \<longleftrightarrow> opcode_value op AND 0x8 \<noteq> 0"

record frame_header =
  fh_fin :: bool
  fh_opcode :: opcode
  fh_masked :: bool
  fh_mask_key :: "byte list"
  fh_payload_len :: nat
  fh_header_len :: nat

datatype frame_parse_result = FrameComplete frame_header | FrameNeedMoreData | FrameProtocolError

definition is_valid_close_code :: "nat \<Rightarrow> bool" where
  "is_valid_close_code code \<longleftrightarrow>
     code = 1000 \<or> code = 1001 \<or> code = 1002 \<or> code = 1003 \<or> code = 1007 \<or> code = 1008 \<or> code = 1009 \<or>
     code = 1010 \<or> code = 1011 \<or> code = 1012 \<or> code = 1013 \<or> code = 1014 \<or>
     (3000 \<le> code \<and> code \<le> 4999)"

text \<open>Big-endian numbers: \<^verbatim>\<open>be16toh\<close>, \<^verbatim>\<open>be64toh\<close> after \<^verbatim>\<open>memcpy\<close>, and their inverses.\<close>

definition be_value :: "string \<Rightarrow> nat" where
  "be_value s = foldl (\<lambda>a c. 256 * a + u8 c) 0 s"

primrec be_bytes :: "nat \<Rightarrow> nat \<Rightarrow> string" where
  "be_bytes 0 v = []"
| "be_bytes (Suc n) v = be_bytes n (v div 256) @ [char_of (v mod 256)]"

text \<open>The payload length and the offset after it.\<close>

definition parse_length :: "string \<Rightarrow> nat \<Rightarrow> (nat \<times> nat) option option" where
  "parse_length buf len_code =
     (if len_code < 126 then Some (Some (len_code, 2))
      else if len_code = 126 then
        if length buf < 4 then Some None
        else let n = be_value (substr buf 2 2) in if n < 126 then None else Some (Some (n, 4))
      else
        if length buf < 10 then Some None
        else let n = be_value (substr buf 2 8)
             in if n AND 0x8000000000000000 \<noteq> 0 \<or> n < 65536 then None else Some (Some (n, 10)))"

text \<open>The checks and the mask key that follow the length.\<close>

definition finish_header :: "string \<Rightarrow> bool \<Rightarrow> opcode \<Rightarrow> bool \<Rightarrow> nat \<Rightarrow> nat \<Rightarrow> frame_parse_result" where
  "finish_header buf fin op masked len offset =
     (if is_control_opcode op \<and> 125 < len then FrameProtocolError
      else if masked then
        if length buf < offset + 4 then FrameNeedMoreData
        else FrameComplete \<lparr>fh_fin = fin, fh_opcode = op, fh_masked = True,
          fh_mask_key = map lane (substr buf offset 4), fh_payload_len = len, fh_header_len = offset + 4\<rparr>
      else FrameComplete \<lparr>fh_fin = fin, fh_opcode = op, fh_masked = False,
        fh_mask_key = [0, 0, 0, 0], fh_payload_len = len, fh_header_len = offset\<rparr>)"

definition header_fields :: "string \<Rightarrow> nat \<Rightarrow> nat \<Rightarrow> frame_parse_result" where
  "header_fields buf b0 b1 =
     (let fin = (b0 AND 0x80 \<noteq> 0); rsv1 = (b0 AND 0x40 \<noteq> 0); rsv2 = (b0 AND 0x20 \<noteq> 0);
          rsv3 = (b0 AND 0x10 \<noteq> 0); masked = (b1 AND 0x80 \<noteq> 0)
      in case opcode_of (b0 AND 0x0F) of
           None \<Rightarrow> FrameProtocolError
         | Some op \<Rightarrow>
             if rsv1 \<or> rsv2 \<or> rsv3 then FrameProtocolError
             else if is_control_opcode op \<and> \<not> fin then FrameProtocolError
             else case parse_length buf (b1 AND 0x7F) of
               None \<Rightarrow> FrameProtocolError
             | Some None \<Rightarrow> FrameNeedMoreData
             | Some (Some (len, offset)) \<Rightarrow> finish_header buf fin op masked len offset)"

definition parse_frame_header :: "string \<Rightarrow> frame_parse_result" where
  "parse_frame_header buf =
     (if length buf < 2 then FrameNeedMoreData else header_fields buf (u8 (buf ! 0)) (u8 (buf ! 1)))"

definition serialize_frame_header :: "opcode \<Rightarrow> nat \<Rightarrow> bool \<Rightarrow> string" where
  "serialize_frame_header op payload_len fin =
     (let b0 = char_of ((if fin then 0x80 else 0x00) OR (opcode_value op AND 0x0F))
      in if payload_len < 126 then [b0, char_of payload_len]
         else if payload_len \<le> 0xFFFF then [b0, char_of (126 :: nat)] @ be_bytes 2 payload_len
         else [b0, char_of (127 :: nat)] @ be_bytes 8 payload_len)"

subsection \<open>Unmasking\<close>

text \<open>
  The mask key is the four bytes as they lie in memory. A stage takes the data and the index
  reached, and returns both.
\<close>

definition xor_at :: "nat \<Rightarrow> byte list \<Rightarrow> byte list \<Rightarrow> byte list" where
  "xor_at i m data = take i data @ map2 (XOR) (take (length m) (drop i data)) m @ drop (i + length m) data"

text \<open>\<^verbatim>\<open>_mm256_set1_epi32\<close>, \<^verbatim>\<open>_mm_set1_epi32\<close> and \<^verbatim>\<open>vdupq_n_u32\<close>: the key in every 32-bit lane.\<close>

definition set1_epi32 :: "nat \<Rightarrow> byte list \<Rightarrow> reg" where
  "set1_epi32 W k = concat (replicate (W div 4) k)"

function xor_blocks :: "byte list \<Rightarrow> nat \<Rightarrow> byte list \<times> nat \<Rightarrow> byte list \<times> nat" where
  "xor_blocks m limit (data, i) =
     (if m \<noteq> [] \<and> i < limit then xor_blocks m limit (xor_at i m data, i + length m) else (data, i))"
  by pat_completeness auto
termination
  by (relation "measure (\<lambda>(m, limit, data, i). limit - i)") (auto simp flip: length_greater_0_conv)

declare xor_blocks.simps [simp del]

definition simd_stage :: "nat \<Rightarrow> byte list \<Rightarrow> byte list \<times> nat \<Rightarrow> byte list \<times> nat" where
  "simd_stage W k di =
     (let rest = length (fst di) - snd di
      in if W \<le> rest then xor_blocks (set1_epi32 W k) (snd di + (rest div W) * W) di else di)"

text \<open>
  The 64-bit stage goes through a word: the key twice, XORed to eight bytes loaded little-endian.
\<close>

definition le_word :: "byte list \<Rightarrow> u64" where
  "le_word bs = word_of_int (horner_sum uint (2 ^ 8) bs)"

definition le_bytes :: "nat \<Rightarrow> u64 \<Rightarrow> byte list" where
  "le_bytes n w = map (\<lambda>j. ucast (drop_bit (8 * j) w)) [0..<n]"

definition swar_mask :: "byte list \<Rightarrow> u64" where
  "swar_mask k = push_bit 32 (le_word k) OR le_word k"

definition store_word :: "nat \<Rightarrow> nat \<Rightarrow> u64 \<Rightarrow> byte list \<Rightarrow> byte list" where
  "store_word n i w data = take i data @ le_bytes n w @ drop (i + n) data"

function swar_blocks :: "byte list \<Rightarrow> nat \<Rightarrow> byte list \<times> nat \<Rightarrow> byte list \<times> nat" where
  "swar_blocks k limit (data, i) =
     (if i < limit
      then swar_blocks k limit
             (store_word 8 i (le_word (take 8 (drop i data)) XOR swar_mask k) data, i + 8)
      else (data, i))"
  by pat_completeness auto
termination
  by (relation "measure (\<lambda>(k, limit, data, i). limit - i)") auto

declare swar_blocks.simps [simp del]

definition swar_stage :: "byte list \<Rightarrow> byte list \<times> nat \<Rightarrow> byte list \<times> nat" where
  "swar_stage k di =
     (let rest = length (fst di) - snd di
      in if 8 \<le> rest then swar_blocks k (snd di + (rest div 8) * 8) di else di)"

definition word_stage :: "byte list \<Rightarrow> byte list \<times> nat \<Rightarrow> byte list \<times> nat" where
  "word_stage k di =
     (let (data, i) = di
      in if 4 \<le> length data - i
         then (store_word 4 i (le_word (take 4 (drop i data)) XOR le_word k) data, i + 4) else di)"

function tail_stage :: "byte list \<Rightarrow> byte list \<times> nat \<Rightarrow> byte list" where
  "tail_stage k (data, i) =
     (if i < length data then tail_stage k (data[i := data ! i XOR k ! (i AND 3)], i + 1) else data)"
  by pat_completeness auto
termination
  by (relation "measure (\<lambda>(k, data, i). length data - i)") auto

declare tail_stage.simps [simp del]

definition unmask_payload_inplace :: "simd_tier \<Rightarrow> byte list \<Rightarrow> byte list \<Rightarrow> byte list" where
  "unmask_payload_inplace t k data =
     (if data = [] \<or> list_all (\<lambda>b. b = 0) k then data
      else
        let di = (data, 0);
            di = (case t of AVX512 \<Rightarrow> simd_stage 32 k di | AVX2 \<Rightarrow> simd_stage 32 k di | _ \<Rightarrow> di);
            di = (case t of Scalar \<Rightarrow> di | _ \<Rightarrow> simd_stage 16 k di)
        in tail_stage k (word_stage k (swar_stage k di)))"


subsection \<open>All tiers unmask alike\<close>

text \<open>The reference: the first \<open>n\<close> bytes XORed with the key, byte by byte.\<close>

definition unmask_upto :: "byte list \<Rightarrow> nat \<Rightarrow> byte list \<Rightarrow> byte list" where
  "unmask_upto k n d = map (\<lambda>j. if j < n then d ! j XOR k ! (j mod 4) else d ! j) [0..<length d]"

lemma length_unmask_upto [simp]: "length (unmask_upto k n d) = length d"
  by (simp add: unmask_upto_def)

lemma nth_unmask_upto:
  "j < length d \<Longrightarrow> unmask_upto k n d ! j = (if j < n then d ! j XOR k ! (j mod 4) else d ! j)"
  by (simp add: unmask_upto_def)

lemma unmask_upto_0 [simp]: "unmask_upto k 0 d = d"
  by (simp add: unmask_upto_def map_nth)

lemma xor_at_unmask:
  assumes "4 dvd i" "i + length m \<le> length d" "\<And>j. j < length m \<Longrightarrow> m ! j = k ! (j mod 4)"
  shows "xor_at i m (unmask_upto k i d) = unmask_upto k (i + length m) d"
proof (rule nth_equalityI)
  fix j assume "j < length (xor_at i m (unmask_upto k i d))"
  then have j: "j < length d" using assms(2) by (simp add: xor_at_def)
  have "(j - i) mod 4 = j mod 4" if "i \<le> j"
    using assms(1) that by (auto elim!: dvdE) (metis mod_mult_self4 le_add_diff_inverse)
  then show "xor_at i m (unmask_upto k i d) ! j = unmask_upto k (i + length m) d ! j"
    using j assms by (auto simp: xor_at_def nth_append nth_unmask_upto)
qed (use assms(2) in \<open>simp add: xor_at_def\<close>)

lemma bit_le_word: "bit (le_word bs) n \<longleftrightarrow> n < 64 \<and> n div 8 < length bs \<and> bit (bs ! (n div 8)) (n mod 8)"
  by (auto simp: le_word_def bit_word_of_int_iff bit_horner_sum_uint_exp_iff [where 'a = 8, simplified])

lemma le_bytes_xor: "le_bytes n (a XOR b) = map2 (XOR) (le_bytes n a) (le_bytes n b)"
  by (rule nth_equalityI) (auto simp: le_bytes_def intro!: bit_word_eqI simp: bit_simps)

lemma nth_le_bytes: "j < n \<Longrightarrow> le_bytes n w ! j = ucast (drop_bit (8 * j) w)"
  by (simp add: le_bytes_def)

lemma length_le_bytes [simp]: "length (le_bytes n w) = n"
  by (simp add: le_bytes_def)

lemma le_bytes_word:
  assumes "length bs = n" "n \<le> 8"
  shows "le_bytes n (le_word bs) = bs"
proof (rule nth_equalityI)
  fix j assume "j < length (le_bytes n (le_word bs))"
  then have j: "j < n" by simp
  show "le_bytes n (le_word bs) ! j = bs ! j"
    using j assms by (auto simp: nth_le_bytes bit_simps bit_le_word intro!: bit_word_eqI)
qed (use assms in simp)

lemma le_bytes_swar_mask:
  assumes "length k = 4"
  shows "le_bytes 8 (swar_mask k) = k @ k"
proof (rule nth_equalityI)
  fix j assume "j < length (le_bytes 8 (swar_mask k))"
  then have j: "j < 8" by simp
  have low: "8 * j + n - 32 = 8 * (j - 4) + n" if "4 \<le> j" for n using that by simp
  have "(8 * j + n) div 8 = j" "(8 * j + n - 32) div 8 = j - 4" "(8 * j + n - 32) mod 8 = n" if "n < 8" "4 \<le> j" for n
    using that by (simp_all add: low)
  then show "le_bytes 8 (swar_mask k) ! j = (k @ k) ! j"
    using j assms by (auto simp: nth_le_bytes bit_simps bit_le_word swar_mask_def nth_append intro!: bit_word_eqI)
qed (use assms in simp)

lemma store_word_xor:
  assumes "n \<le> 8" "i + n \<le> length data" "le_bytes n w = m" "length m = n"
  shows "store_word n i (le_word (take n (drop i data)) XOR w) data = xor_at i m data"
  using assms by (simp add: store_word_def xor_at_def le_bytes_xor le_bytes_word)


text \<open>
  A stage is sound when it turns data unmasked up to a multiple of four into data unmasked up to a
  later multiple of four. Every stage is, and so is their composition.
\<close>

definition sound_stage :: "byte list \<Rightarrow> (byte list \<times> nat \<Rightarrow> byte list \<times> nat) \<Rightarrow> bool" where
  "sound_stage k f \<longleftrightarrow>
     (\<forall>d i. 4 dvd i \<and> i \<le> length d \<longrightarrow>
        (\<exists>i'. f (unmask_upto k i d, i) = (unmask_upto k i' d, i') \<and> 4 dvd i' \<and> i' \<le> length d))"

lemma sound_id: "sound_stage k (\<lambda>di. di)"
  by (auto simp: sound_stage_def)

lemma sound_comp: "sound_stage k f \<Longrightarrow> sound_stage k g \<Longrightarrow> sound_stage k (\<lambda>di. g (f di))"
  unfolding sound_stage_def by metis

lemma xor_blocks_unmask:
  assumes "4 dvd length m" "m \<noteq> []" "\<And>j. j < length m \<Longrightarrow> m ! j = k ! (j mod 4)" "4 dvd i"
    and "limit = i + n * length m" "limit \<le> length d"
  shows "xor_blocks m limit (unmask_upto k i d, i) = (unmask_upto k limit d, limit)"
  using assms(4-6)
proof (induction n arbitrary: i)
  case 0
  then show ?case by (simp add: xor_blocks.simps)
next
  case (Suc n)
  have "xor_at i m (unmask_upto k i d) = unmask_upto k (i + length m) d"
    using Suc.prems assms(3) by (intro xor_at_unmask) auto
  then have "xor_blocks m limit (unmask_upto k i d, i) =
      xor_blocks m limit (unmask_upto k (i + length m) d, i + length m)"
    using Suc.prems assms(2) by (subst xor_blocks.simps) simp
  also have "\<dots> = (unmask_upto k limit d, limit)"
    using Suc.prems assms(1) by (intro Suc.IH) auto
  finally show ?case .
qed

lemma swar_blocks_eq:
  assumes "length k = 4" "limit \<le> length data" "limit = i + 8 * n"
  shows "swar_blocks k limit (data, i) = xor_blocks (k @ k) limit (data, i)"
  using assms(2,3)
proof (induction n arbitrary: i data)
  case 0
  then show ?case by (simp add: xor_blocks.simps swar_blocks.simps)
next
  case (Suc n)
  have "store_word 8 i (le_word (take 8 (drop i data)) XOR swar_mask k) data = xor_at i (k @ k) data"
    using Suc.prems assms(1) by (intro store_word_xor le_bytes_swar_mask) auto
  moreover have "length (xor_at i (k @ k) data) = length data"
    using Suc.prems assms(1) by (simp add: xor_at_def)
  ultimately show ?case
    using Suc.prems assms(1) Suc.IH [of "xor_at i (k @ k) data" "i + 8"]
    by (subst swar_blocks.simps, subst xor_blocks.simps) auto
qed

lemma nth_set1_epi32:
  assumes "length k = 4" "j < (W div 4) * 4"
  shows "set1_epi32 W k ! j = k ! (j mod 4)"
proof -
  have "concat (replicate n k) ! j = k ! (j mod 4)" if "j < n * 4" for n
    using that
  proof (induction n arbitrary: j)
    case (Suc n)
    then show ?case using assms(1) by (cases "j < 4") (auto simp: nth_append mod_if)
  qed simp
  then show ?thesis using assms(2) by (simp add: set1_epi32_def)
qed

lemma length_set1_epi32: "length k = 4 \<Longrightarrow> length (set1_epi32 W k) = (W div 4) * 4"
  by (simp add: set1_epi32_def length_concat sum_list_replicate)

lemma sound_simd:
  assumes "length k = 4" "W = 16 \<or> W = 32"
  shows "sound_stage k (simd_stage W k)"
proof -
  let ?m = "set1_epi32 W k"
  have m: "length ?m = W" "4 dvd length ?m" "?m \<noteq> []" "\<And>j. j < length ?m \<Longrightarrow> ?m ! j = k ! (j mod 4)"
    using assms length_set1_epi32 [of k W] nth_set1_epi32 [of k _ W] by auto
  show ?thesis
    unfolding sound_stage_def
  proof (intro allI impI, elim conjE)
    fix d :: "byte list" and i assume i: "4 dvd i" "i \<le> length d"
    let ?lim = "i + (length d - i) div W * W"
    have lim: "?lim \<le> length d" "4 dvd ?lim"
      using i assms(2) div_times_less_eq_dividend [of "length d - i" W] by (auto intro: dvd_mult)
    have "xor_blocks ?m ?lim (unmask_upto k i d, i) = (unmask_upto k ?lim d, ?lim)"
      using xor_blocks_unmask [OF m(2,3,4) i(1) _ lim(1), of "(length d - i) div W"] m(1) by simp
    then show "\<exists>i'. simd_stage W k (unmask_upto k i d, i) = (unmask_upto k i' d, i') \<and> 4 dvd i' \<and> i' \<le> length d"
      using i lim by (auto simp: simd_stage_def Let_def)
  qed
qed

lemma sound_swar:
  assumes "length k = 4"
  shows "sound_stage k (swar_stage k)"
  unfolding sound_stage_def
proof (intro allI impI, elim conjE)
  fix d :: "byte list" and i assume i: "4 dvd i" "i \<le> length d"
  let ?lim = "i + (length d - i) div 8 * 8"
  have lim: "?lim \<le> length d" "4 dvd ?lim"
    using i div_times_less_eq_dividend [of "length d - i" 8] by (auto intro: dvd_mult)
  have "xor_blocks (k @ k) ?lim (unmask_upto k i d, i) = (unmask_upto k ?lim d, ?lim)"
    using assms i(1) lim(1)
    by (intro xor_blocks_unmask [where n = "(length d - i) div 8"]) (auto simp: nth_append mod_if)
  then have "swar_blocks k ?lim (unmask_upto k i d, i) = (unmask_upto k ?lim d, ?lim)"
    using swar_blocks_eq [OF assms, of ?lim "unmask_upto k i d" i "(length d - i) div 8"] lim(1) by simp
  then show "\<exists>i'. swar_stage k (unmask_upto k i d, i) = (unmask_upto k i' d, i') \<and> 4 dvd i' \<and> i' \<le> length d"
    using i lim by (auto simp: swar_stage_def Let_def)
qed

lemma sound_word:
  assumes "length k = 4"
  shows "sound_stage k (word_stage k)"
  unfolding sound_stage_def
proof (intro allI impI, elim conjE)
  fix d :: "byte list" and i assume i: "4 dvd i" "i \<le> length d"
  have "store_word 4 i (le_word (take 4 (drop i (unmask_upto k i d))) XOR le_word k) (unmask_upto k i d) =
      unmask_upto k (i + 4) d" if "4 \<le> length d - i"
    using that assms i xor_at_unmask [of i k d k]
    by (subst store_word_xor [where m = k]) (auto simp: le_bytes_word)
  then show "\<exists>i'. word_stage k (unmask_upto k i d, i) = (unmask_upto k i' d, i') \<and> 4 dvd i' \<and> i' \<le> length d"
    using i by (auto simp: word_stage_def)
qed

lemma tail_stage_unmask:
  "i \<le> length d \<Longrightarrow> tail_stage k (unmask_upto k i d, i) = unmask_upto k (length d) d"
proof (induction "length d - i" arbitrary: i)
  case 0
  then show ?case by (simp add: tail_stage.simps)
next
  case (Suc n)
  have "i AND 3 = take_bit 2 i" by (simp add: take_bit_eq_mask mask_eq_exp_minus_1)
  then have "i AND 3 = i mod 4" by (simp add: take_bit_eq_mod)
  then have "(unmask_upto k i d)[i := unmask_upto k i d ! i XOR k ! (i AND 3)] = unmask_upto k (i + 1) d"
    using Suc by (intro nth_equalityI) (auto simp: nth_unmask_upto nth_list_update)
  then show ?case using Suc by (subst tail_stage.simps) simp
qed

lemma unmask_payload_upto:
  assumes "length k = 4"
  shows "unmask_payload_inplace t k data = unmask_upto k (length data) data"
proof (cases "data = [] \<or> list_all (\<lambda>b. b = 0) k")
  case True
  then have "d ! j XOR k ! (j mod 4) = d ! j" if "list_all (\<lambda>b. b = 0) k" for d :: "byte list" and j
    using that assms by (simp add: list_all_length)
  then show ?thesis using True by (intro nth_equalityI) (auto simp: unmask_payload_inplace_def nth_unmask_upto)
next
  case False
  define f where "f = (\<lambda>di. word_stage k (swar_stage k
    (case t of Scalar \<Rightarrow> (case t of AVX512 \<Rightarrow> simd_stage 32 k di | AVX2 \<Rightarrow> simd_stage 32 k di | _ \<Rightarrow> di)
     | _ \<Rightarrow> simd_stage 16 k (case t of AVX512 \<Rightarrow> simd_stage 32 k di | AVX2 \<Rightarrow> simd_stage 32 k di | _ \<Rightarrow> di))))"
  have "sound_stage k f"
    unfolding f_def using assms
    by (cases t) (auto intro!: sound_comp [of k _ "word_stage k"] sound_comp [of k _ "swar_stage k"]
        sound_comp [of k _ "simd_stage 16 k"] sound_word sound_swar sound_simd sound_id)
  then obtain i' where "f (data, 0) = (unmask_upto k i' data, i')" "i' \<le> length data"
    unfolding sound_stage_def by (metis dvd_0_right unmask_upto_0 zero_le)
  moreover have "unmask_payload_inplace t k data = tail_stage k (f (data, 0))"
    using False by (cases t) (simp_all add: unmask_payload_inplace_def f_def)
  ultimately show ?thesis by (simp add: tail_stage_unmask)
qed

text \<open>
  Unmasking is the same in every build. Whatever the vector unit, the AVX2, SSE2, NEON, 64-bit
  and 32-bit stages and the scalar tail together XOR each payload byte with the key byte at its
  index modulo four, and unmasking twice gives the payload back.
\<close>

theorem unmask_exact:
  assumes "length k = 4"
  shows "unmask_payload_inplace t k data = map (\<lambda>j. data ! j XOR k ! (j mod 4)) [0..<length data] \<and>
    unmask_payload_inplace t' k (unmask_payload_inplace t k data) = data"
proof -
  have "unmask_upto k (length data) (unmask_upto k (length data) data) = data"
    by (rule nth_equalityI) (simp_all add: nth_unmask_upto xor.assoc)
  then show ?thesis by (simp add: unmask_payload_upto [OF assms] unmask_upto_def)
qed

theorem unmask_exact_witness:
  "unmask_payload_inplace AVX2 [1, 2, 3, 4] (unmask_payload_inplace NEON [1, 2, 3, 4] [9, 8, 7, 6, 5]) = [9, 8, 7, 6, 5]"
  by (rule conjunct2 [OF unmask_exact]) simp

subsection \<open>Frame headers\<close>

lemma be_value_snoc: "be_value (s @ [c]) = 256 * be_value s + u8 c"
  by (simp add: be_value_def)

lemma be_value_less: "be_value s < 256 ^ length s"
proof (induction s rule: rev_induct)
  case (snoc c s)
  then have "256 * be_value s + u8 c < 256 * 256 ^ length s" using u8_less [of c] by linarith
  then show ?case by (simp add: be_value_snoc)
qed (simp add: be_value_def)

lemma length_be_bytes [simp]: "length (be_bytes n v) = n"
  by (induction n arbitrary: v) simp_all

lemma be_value_bytes: "v < 256 ^ n \<Longrightarrow> be_value (be_bytes n v) = v"
proof (induction n arbitrary: v)
  case (Suc n)
  then have "be_value (be_bytes n (v div 256)) = v div 256" by (intro Suc.IH) (simp add: less_mult_imp_div_less mult.commute)
  then show ?case by (simp add: be_value_snoc u8_def)
qed (simp add: be_value_def)

lemma high_bit: "n AND 0x8000000000000000 \<noteq> 0 \<longleftrightarrow> bit n 63" for n :: nat
  using and_exp_eq_0_iff_not_bit [of n 63] by simp

lemma high_bit_less: "n < 2 ^ 63 \<Longrightarrow> \<not> bit n 63" for n :: nat
  by (simp add: bit_iff_odd)

lemma less_high_bit: "n < 2 ^ 64 \<Longrightarrow> \<not> bit n 63 \<Longrightarrow> n < 2 ^ 63" for n :: nat
proof -
  assume a: "n < 2 ^ 64" "\<not> bit n 63"
  have "n div 2 ^ 63 < 2" using a(1) by (intro less_mult_imp_div_less) simp
  then have "n div 2 ^ 63 = 0" using a(2) by (cases "n div 2 ^ 63") (auto simp: bit_iff_odd)
  then show ?thesis by (simp add: div_eq_0_iff)
qed

lemma opcode_of_value: "opcode_of (opcode_value op) = Some op"
  by (cases op) (simp_all add: opcode_of_def)

lemma is_control_iff: "is_control_opcode op \<longleftrightarrow> op = Close \<or> op = Ping \<or> op = Pong"
  by (cases op) (simp_all add: is_control_opcode_def)

lemma parse_length_Some:
  assumes "parse_length buf c = Some (Some (n, off))" "c < 128"
  shows "off \<le> length buf \<or> off = 2" "2 \<le> off" "off \<le> 10" "n < 2 ^ 63"
    "parse_length (buf @ x) c = Some (Some (n, off))"
proof -
  have b8: "be_value (substr buf 2 8) < 2 ^ 64" if "10 \<le> length buf"
    using be_value_less [of "substr buf 2 8"] that by simp
  have lh: "be_value (take 8 (drop 2 buf)) < 9223372036854775808"
    if "10 \<le> length buf" "be_value (take 8 (drop 2 buf)) AND 0x8000000000000000 = 0"
    using b8 that less_high_bit [of "be_value (take 8 (drop 2 buf))"] high_bit [of "be_value (take 8 (drop 2 buf))"]
    by (simp add: substr_def)
  have b2: "be_value (substr buf 2 2) < 2 ^ 63" if "4 \<le> length buf"
    using be_value_less [of "substr buf 2 2"] that by simp
  show "off \<le> length buf \<or> off = 2" "2 \<le> off" "off \<le> 10" "n < 2 ^ 63"
    "parse_length (buf @ x) c = Some (Some (n, off))"
    using assms b2 lh
    by (auto simp: parse_length_def Let_def substr_def split: if_splits)
qed

lemma parse_length_None:
  "parse_length buf c = None \<Longrightarrow> parse_length (buf @ x) c = None"
  by (auto simp: parse_length_def Let_def substr_def split: if_splits)

lemma and_7F_less: "n AND 0x7F < 128" for n :: nat
proof -
  have "n AND 0x7F = take_bit 7 n" by (simp add: take_bit_eq_mask mask_eq_exp_minus_1)
  then show ?thesis using take_bit_nat_less_exp [of 7 n] by simp
qed

text \<open>What a complete header promises.\<close>

definition header_ok :: "string \<Rightarrow> frame_header \<Rightarrow> bool" where
  "header_ok buf h \<longleftrightarrow>
     2 \<le> fh_header_len h \<and> fh_header_len h \<le> 14 \<and> fh_header_len h \<le> length buf \<and> fh_payload_len h < 2 ^ 63 \<and>
     length (fh_mask_key h) = 4 \<and> (is_control_opcode (fh_opcode h) \<longrightarrow> fh_fin h \<and> fh_payload_len h \<le> 125)"

definition settled :: "string \<Rightarrow> string \<Rightarrow> (string \<Rightarrow> frame_parse_result) \<Rightarrow> bool" where
  "settled buf later f \<longleftrightarrow>
     f buf = FrameNeedMoreData \<or>
     f (buf @ later) = f buf \<and> (\<forall>h. f buf = FrameComplete h \<longrightarrow> header_ok buf h)"

lemma settled_finish:
  assumes "2 \<le> offset" "offset \<le> 10" "offset \<le> length buf" "len < 2 ^ 63" "is_control_opcode op \<Longrightarrow> fin"
  shows "settled buf later (\<lambda>buf. finish_header buf fin op masked len offset)"
  using assms by (auto simp: settled_def finish_header_def header_ok_def substr_def)

lemma settled_fields:
  assumes "2 \<le> length buf"
  shows "settled buf later (\<lambda>buf. header_fields buf b0 b1)"
proof (cases "opcode_of (b0 AND 0x0F)")
  case None
  then show ?thesis by (simp add: settled_def header_fields_def)
next
  case (Some op)
  show ?thesis
  proof (cases "b0 AND 0x40 \<noteq> 0 \<or> b0 AND 0x20 \<noteq> 0 \<or> b0 AND 0x10 \<noteq> 0 \<or> is_control_opcode op \<and> b0 AND 0x80 = 0")
    case True
    then show ?thesis by (auto simp: settled_def header_fields_def Some split: if_splits)
  next
    case False
    then have eq: "header_fields buf b0 b1 = (case parse_length buf (b1 AND 0x7F) of
        None \<Rightarrow> FrameProtocolError | Some None \<Rightarrow> FrameNeedMoreData
      | Some (Some (len, offset)) \<Rightarrow> finish_header buf (b0 AND 0x80 \<noteq> 0) op (b1 AND 0x80 \<noteq> 0) len offset)" for buf
      by (auto simp: header_fields_def Some split: option.split)
    consider "parse_length buf (b1 AND 0x7F) = None" | "parse_length buf (b1 AND 0x7F) = Some None"
      | n off where "parse_length buf (b1 AND 0x7F) = Some (Some (n, off))"
      by (cases "parse_length buf (b1 AND 0x7F)"; cases "the (parse_length buf (b1 AND 0x7F))") auto
    then show ?thesis
    proof cases
      case 1
      then show ?thesis by (simp add: settled_def eq parse_length_None)
    next
      case 2
      then show ?thesis by (simp add: settled_def eq)
    next
      case 3
      note l = parse_length_Some [OF 3 and_7F_less]
      have "settled buf later (\<lambda>buf. finish_header buf (b0 AND 0x80 \<noteq> 0) op (b1 AND 0x80 \<noteq> 0) n off)"
        using False l(1-4) assms by (intro settled_finish) auto
      then show ?thesis by (simp add: settled_def eq 3 l(5))
    qed
  qed
qed

lemma parse_header_settled: "settled buf later parse_frame_header"
proof (cases "length buf < 2")
  case True
  then show ?thesis by (simp add: settled_def parse_frame_header_def)
next
  case False
  then have "0 < length buf" "1 < length buf" by auto
  then have "(buf @ later) ! 0 = buf ! 0" "(buf @ later) ! Suc 0 = buf ! Suc 0" by (simp_all add: nth_append)
  then show ?thesis
    using settled_fields [of buf later "u8 (buf ! 0)" "u8 (buf ! 1)"] False
    by (simp add: settled_def parse_frame_header_def)
qed

lemma parse_header_append:
  "parse_frame_header buf \<noteq> FrameNeedMoreData \<Longrightarrow> parse_frame_header (buf @ later) = parse_frame_header buf"
  using parse_header_settled [of buf later] by (simp add: settled_def)

lemma parse_header_ok: "parse_frame_header buf = FrameComplete h \<Longrightarrow> header_ok buf h"
  using parse_header_settled [of buf "[]"] by (simp add: settled_def)

text \<open>
  A frame header is decided by its own bytes. A complete header is at most fourteen bytes and
  lies within the buffer, its length is below 2 to the 63, a control frame is final and at most 125
  bytes long; and neither a complete header nor a protocol error changes when more bytes arrive.
\<close>

theorem frame_header_stable:
  assumes "parse_frame_header buf \<noteq> FrameNeedMoreData"
  shows "parse_frame_header (buf @ later) = parse_frame_header buf \<and>
    (\<forall>h. parse_frame_header buf = FrameComplete h \<longrightarrow>
       2 \<le> fh_header_len h \<and> fh_header_len h \<le> 14 \<and> fh_header_len h \<le> length buf \<and> fh_payload_len h < 2 ^ 63 \<and>
       (is_control_opcode (fh_opcode h) \<longrightarrow> fh_fin h \<and> fh_payload_len h \<le> 125))"
  using parse_header_append [OF assms, of later] parse_header_ok [of buf] by (simp add: header_ok_def)

theorem frame_header_stable_witness:
  "parse_frame_header ([char_of (0x81 :: nat), char_of (2 :: nat)] @ ''hi'') =
    parse_frame_header [char_of (0x81 :: nat), char_of (2 :: nat)]"
  by (rule conjunct1 [OF frame_header_stable])
    (simp add: parse_frame_header_def header_fields_def finish_header_def u8_def opcode_of_def
      is_control_opcode_def parse_length_def)

lemma u8_first_byte:
  "u8 (char_of ((if fin then 0x80 else 0x00) OR (opcode_value op AND 0x0F))) =
    (if fin then 0x80 else 0) + opcode_value op"
  by (cases op; cases fin) (simp_all add: u8_def)

lemma first_byte_bits:
  "((if fin then 0x80 else 0) + opcode_value op) AND 0x0F = opcode_value op"
  "((if fin then 0x80 else 0) + opcode_value op) AND 0x80 = 0 \<longleftrightarrow> \<not> fin"
  "((if fin then 0x80 else 0) + opcode_value op) AND 0x40 = 0"
  "((if fin then 0x80 else 0) + opcode_value op) AND 0x20 = 0"
  "((if fin then 0x80 else 0) + opcode_value op) AND 0x10 = 0"
  by (cases op; cases fin; simp add: numeral_2_eq_2 [symmetric])+

lemma header_fields_written:
  "header_fields buf ((if fin then 0x80 else 0) + opcode_value op) b1 =
     (if is_control_opcode op \<and> \<not> fin then FrameProtocolError
      else case parse_length buf (b1 AND 0x7F) of
        None \<Rightarrow> FrameProtocolError | Some None \<Rightarrow> FrameNeedMoreData
      | Some (Some (len, offset)) \<Rightarrow> finish_header buf fin op (b1 AND 0x80 \<noteq> 0) len offset)"
  by (simp only: header_fields_def Let_def first_byte_bits opcode_of_value option.case simp_thms if_False)

lemma small_len: "n < 128 \<Longrightarrow> n AND 0x7F = n \<and> n AND 0x80 = 0" for n :: nat
proof -
  assume n: "n < 128"
  have "n AND 0x7F = take_bit 7 n" by (simp add: take_bit_eq_mask mask_eq_exp_minus_1)
  moreover have "take_bit 7 n = n" using n by (simp add: take_bit_nat_eq_self)
  moreover have "\<not> bit n 7" using n by (simp add: bit_iff_odd)
  ultimately show ?thesis using and_exp_eq_0_iff_not_bit [of n 7] by simp
qed

lemma header_fields_serialized:
  assumes "n < 2 ^ 63" and "is_control_opcode op \<Longrightarrow> fin"
  shows "header_fields (serialize_frame_header op n fin @ payload) (u8 ((serialize_frame_header op n fin @ payload) ! 0))
      (u8 ((serialize_frame_header op n fin @ payload) ! 1)) =
    finish_header (serialize_frame_header op n fin @ payload) fin op False n (length (serialize_frame_header op n fin))"
proof -
  let ?w = "serialize_frame_header op n fin @ payload"
  let ?c = "if n < 126 then n else if n \<le> 0xFFFF then 126 else 127"
  have b0: "u8 (?w ! 0) = (if fin then 0x80 else 0) + opcode_value op"
    using u8_first_byte [of fin op] by (auto simp: serialize_frame_header_def Let_def)
  have b1: "u8 (?w ! 1) = ?c" by (auto simp: serialize_frame_header_def Let_def u8_def)
  have "be_value (be_bytes 2 n) = n" if "n \<le> 0xFFFF" using be_value_bytes [of n 2] that by simp
  moreover have "be_value (be_bytes 8 n) = n" using be_value_bytes [of n 8] assms(1) by simp
  moreover have "n AND 0x8000000000000000 = 0" using high_bit [of n] high_bit_less [OF assms(1)] by blast
  ultimately have pl: "parse_length ?w ?c = Some (Some (n, length (serialize_frame_header op n fin)))"
    by (simp add: parse_length_def serialize_frame_header_def Let_def substr_def)
  have "?c AND 0x7F = ?c" "?c AND 0x80 = 0" using small_len [of ?c] by auto
  then show ?thesis
    unfolding b0 b1 header_fields_written using pl assms(2) by auto
qed

text \<open>
  Frame headers round-trip. What the server writes for a data frame, or for a final control
  frame of at most 125 bytes, reads back with the same opcode, final flag and length, and the
  header ends where the payload begins.
\<close>

theorem frame_header_roundtrip:
  assumes "n < 2 ^ 63" and "is_control_opcode op \<Longrightarrow> fin \<and> n \<le> 125"
  shows "parse_frame_header (serialize_frame_header op n fin @ payload) =
    FrameComplete \<lparr>fh_fin = fin, fh_opcode = op, fh_masked = False, fh_mask_key = [0, 0, 0, 0],
      fh_payload_len = n, fh_header_len = length (serialize_frame_header op n fin)\<rparr>"
proof -
  let ?w = "serialize_frame_header op n fin @ payload"
  have "\<not> length ?w < 2" by (simp add: serialize_frame_header_def Let_def)
  moreover have "header_fields ?w (u8 (?w ! 0)) (u8 (?w ! 1)) =
      finish_header ?w fin op False n (length (serialize_frame_header op n fin))"
    using assms by (intro header_fields_serialized) auto
  moreover have "\<not> (is_control_opcode op \<and> 125 < n)" using assms(2) by fastforce
  ultimately show ?thesis by (simp add: parse_frame_header_def finish_header_def)
qed

theorem frame_header_roundtrip_witness:
  "parse_frame_header (serialize_frame_header Text 300 True @ ''payload'') =
    FrameComplete \<lparr>fh_fin = True, fh_opcode = Text, fh_masked = False, fh_mask_key = [0, 0, 0, 0],
      fh_payload_len = 300, fh_header_len = length (serialize_frame_header Text 300 True)\<rparr>"
  by (rule frame_header_roundtrip) (simp_all add: is_control_opcode_def)

text \<open>
  The writer does not check the length of a control frame: a close or ping longer than 125 bytes is
  written as a frame that the protocol forbids, and that this parser rejects.
\<close>

lemma long_control_frame_illegal:
  assumes "is_control_opcode op" "125 < n" "n < 2 ^ 63"
  shows "parse_frame_header (serialize_frame_header op n True @ payload) = FrameProtocolError"
proof -
  have "\<not> length (serialize_frame_header op n True @ payload) < 2" by (simp add: serialize_frame_header_def Let_def)
  then show ?thesis
    using header_fields_serialized [of n op True payload] assms by (simp add: parse_frame_header_def finish_header_def)
qed

text \<open>Fourteen bytes decide every header.\<close>

lemma parse_header_decides: "14 \<le> length buf \<Longrightarrow> parse_frame_header buf \<noteq> FrameNeedMoreData"
  by (auto simp: parse_frame_header_def header_fields_def parse_length_def finish_header_def Let_def
      split: option.split)

end
