(* ===== verification/WebSocket_Session.thy ===== *)
theory WebSocket_Session
  imports WebSocket_Frame
begin

text \<open>
  The WebSocket of the application (\<^verbatim>\<open>src/http/websocket/WebSocket.h\<close>), the transport-agnostic session
  that feeds it (\<^verbatim>\<open>WebSocketSession.h/.cpp\<close>) and the TCP connection that runs a session
  (\<^verbatim>\<open>WebSocketConnection.h/.cpp\<close>).

  Application code is a \<open>script\<close>: the tree of what it does next with the \<^verbatim>\<open>WebSocket&\<close> it is given,
  reading and writing a state of its own and possibly ending in an exception. The transport, the
  UTF-8 validator (of the library Glaze) and the I/O engine are arguments. A session handles one
  call at a time.
\<close>

subsection \<open>The transport interface\<close>

datatype transport_protocol = WsHttp1 | WsHttp2 | WsHttp3

record 't ws_transport =
  tr_protocol :: transport_protocol
  tr_is_open :: "'t \<Rightarrow> bool"
  tr_write_frame :: "string \<Rightarrow> string \<Rightarrow> 't \<Rightarrow> int \<times> 't"
  tr_write_raw :: "string \<Rightarrow> 't \<Rightarrow> int \<times> 't"
  tr_close :: "'t \<Rightarrow> 't"

subsection \<open>Application code\<close>

datatype 'u script =
    Return
  | Throw
  | ReadState "'u \<Rightarrow> 'u script"
  | WriteState 'u "'u script"
  | IsOpen "bool \<Rightarrow> 'u script"
  | SendFrame opcode string "'u script"
  | CloseSocket nat string "'u script"
  | MarkClosed "'u script"
  | OnMessage "string \<Rightarrow> opcode \<Rightarrow> 'u script" "'u script"
  | OnText "string \<Rightarrow> 'u script" "'u script"
  | OnBinary "string \<Rightarrow> 'u script" "'u script"
  | OnClose "nat \<Rightarrow> string \<Rightarrow> 'u script" "'u script"
  | OnPing "string \<Rightarrow> 'u script" "'u script"

text \<open>The members of \<^verbatim>\<open>WebSocket\<close>, with the transport it points to and the application's own state.\<close>

record ('u, 't) websocket =
  ws_transport_state :: 't
  ws_open :: bool
  ws_user :: 'u
  ws_message_cb :: "(string \<Rightarrow> opcode \<Rightarrow> 'u script) option"
  ws_text_cb :: "(string \<Rightarrow> 'u script) option"
  ws_binary_cb :: "(string \<Rightarrow> 'u script) option"
  ws_close_cb :: "(nat \<Rightarrow> string \<Rightarrow> 'u script) option"
  ws_ping_cb :: "(string \<Rightarrow> 'u script) option"

definition ws_init :: "'t \<Rightarrow> 'u \<Rightarrow> ('u, 't) websocket" where
  "ws_init t u = \<lparr>ws_transport_state = t, ws_open = True, ws_user = u, ws_message_cb = None,
     ws_text_cb = None, ws_binary_cb = None, ws_close_cb = None, ws_ping_cb = None\<rparr>"

definition ws_is_open :: "'t ws_transport \<Rightarrow> ('u, 't) websocket \<Rightarrow> bool" where
  "ws_is_open T w \<longleftrightarrow> ws_open w \<and> tr_is_open T (ws_transport_state w)"

definition ws_write :: "'t ws_transport \<Rightarrow> string \<Rightarrow> string \<Rightarrow> ('u, 't) websocket \<Rightarrow> ('u, 't) websocket" where
  "ws_write T header payload w =
     w\<lparr>ws_transport_state := snd (tr_write_frame T header payload (ws_transport_state w))\<rparr>"

definition ws_send :: "'t ws_transport \<Rightarrow> opcode \<Rightarrow> string \<Rightarrow> ('u, 't) websocket \<Rightarrow> ('u, 't) websocket" where
  "ws_send T op payload w =
     (if \<not> ws_is_open T w then w
      else ws_write T (serialize_frame_header op (length payload) True) payload w)"

definition ws_close :: "'t ws_transport \<Rightarrow> nat \<Rightarrow> string \<Rightarrow> ('u, 't) websocket \<Rightarrow> ('u, 't) websocket" where
  "ws_close T code reason w =
     (if \<not> ws_open w then w
      else
        let w = w\<lparr>ws_open := False\<rparr>;
            close_payload = be_bytes 2 code @ reason;
            w = ws_write T (serialize_frame_header Close (length close_payload) True) close_payload w
        in w\<lparr>ws_transport_state := tr_close T (ws_transport_state w)\<rparr>)"

text \<open>Runs a script; the flag is false when it ends in an exception.\<close>

primrec run_script :: "'u script \<Rightarrow> 't ws_transport \<Rightarrow> ('u, 't) websocket \<Rightarrow> ('u, 't) websocket \<times> bool" where
  "run_script Return = (\<lambda>T w. (w, True))"
| "run_script Throw = (\<lambda>T w. (w, False))"
| "run_script (ReadState k) = (\<lambda>T w. run_script (k (ws_user w)) T w)"
| "run_script (WriteState u k) = (\<lambda>T w. run_script k T (w\<lparr>ws_user := u\<rparr>))"
| "run_script (IsOpen k) = (\<lambda>T w. run_script (k (ws_is_open T w)) T w)"
| "run_script (SendFrame op payload k) = (\<lambda>T w. run_script k T (ws_send T op payload w))"
| "run_script (CloseSocket code reason k) = (\<lambda>T w. run_script k T (ws_close T code reason w))"
| "run_script (MarkClosed k) = (\<lambda>T w. run_script k T (w\<lparr>ws_open := False\<rparr>))"
| "run_script (OnMessage cb k) = (\<lambda>T w. run_script k T (w\<lparr>ws_message_cb := Some cb\<rparr>))"
| "run_script (OnText cb k) = (\<lambda>T w. run_script k T (w\<lparr>ws_text_cb := Some cb\<rparr>))"
| "run_script (OnBinary cb k) = (\<lambda>T w. run_script k T (w\<lparr>ws_binary_cb := Some cb\<rparr>))"
| "run_script (OnClose cb k) = (\<lambda>T w. run_script k T (w\<lparr>ws_close_cb := Some cb\<rparr>))"
| "run_script (OnPing cb k) = (\<lambda>T w. run_script k T (w\<lparr>ws_ping_cb := Some cb\<rparr>))"

subsection \<open>The session\<close>

text \<open>The streaming validator and the one-shot check of the library.\<close>

record 'v utf8_validator =
  u8_reset :: 'v
  u8_update :: "'v \<Rightarrow> string \<Rightarrow> bool \<times> 'v"
  u8_is_valid_end :: "'v \<Rightarrow> bool"
  is_valid_utf8 :: "string \<Rightarrow> bool"

record ws_config =
  max_message_size :: nat
  max_frame_size :: nat
  require_masked_frames :: bool

text \<open>What is fixed when a session is constructed.\<close>

record ('u, 'v, 't) ws_env =
  env_tier :: simd_tier
  env_transport :: "'t ws_transport"
  env_utf8 :: "'v utf8_validator"
  env_config :: ws_config
  env_handler :: "'u script option"
  env_echo :: "(string \<Rightarrow> opcode \<Rightarrow> 'u script) option"

text \<open>
  The members that frames change; \<open>sc_delivered\<close> is history, the messages handed to the application
  or echoed, in order.
\<close>

record ('u, 'v, 't) ws_core =
  sc_ws :: "('u, 't) websocket"
  sc_batch_out :: string
  sc_fragment_in_progress :: bool
  sc_fragment_opcode :: opcode
  sc_fragment_buffer :: string
  sc_utf8 :: 'v
  sc_is_closed :: bool
  sc_delivered :: "(opcode \<times> string) list"

record ('u, 'v, 't) ws_session =
  se_core :: "('u, 'v, 't) ws_core"
  se_stream_buf :: string
  se_initialized :: bool

definition session_init :: "('u, 'v, 't) ws_env \<Rightarrow> 't \<Rightarrow> 'u \<Rightarrow> ('u, 'v, 't) ws_session" where
  "session_init E t u = \<lparr>se_core = \<lparr>sc_ws = ws_init t u, sc_batch_out = [], sc_fragment_in_progress = False,
       sc_fragment_opcode = Text, sc_fragment_buffer = [], sc_utf8 = u8_reset (env_utf8 E),
       sc_is_closed = False, sc_delivered = []\<rparr>, se_stream_buf = [], se_initialized = False\<rparr>"

text \<open>What a step reports: the session goes on, it is closed, or an exception left the coroutine.\<close>

datatype ws_outcome = Active | Closed | Escaped

text \<open>\<^verbatim>\<open>write_raw\<close> of the batch and its \<^verbatim>\<open>clear\<close>, when there is one.\<close>

definition flush_batch :: "('u, 'v, 't) ws_env \<Rightarrow> ('u, 'v, 't) ws_core \<Rightarrow> ('u, 'v, 't) ws_core" where
  "flush_batch E s =
     (if sc_batch_out s = [] then s
      else s\<lparr>sc_ws := (sc_ws s)\<lparr>ws_transport_state :=
                 snd (tr_write_raw (env_transport E) (sc_batch_out s) (ws_transport_state (sc_ws s)))\<rparr>,
             sc_batch_out := []\<rparr>)"

text \<open>\<^verbatim>\<open>is_closed_ = true; co_await ws_.close(code, reason); co_return false\<close>.\<close>

definition fail_session :: "('u, 'v, 't) ws_env \<Rightarrow> nat \<Rightarrow> string \<Rightarrow> ('u, 'v, 't) ws_core \<Rightarrow> ('u, 'v, 't) ws_core \<times> ws_outcome" where
  "fail_session E code reason s =
     (s\<lparr>sc_is_closed := True, sc_ws := ws_close (env_transport E) code reason (sc_ws s)\<rparr>, Closed)"

definition drop_batch :: "('u, 'v, 't) ws_core \<Rightarrow> ('u, 'v, 't) ws_core" where
  "drop_batch s = s\<lparr>sc_batch_out := []\<rparr>"

definition run_callback :: "('u, 'v, 't) ws_env \<Rightarrow> 'u script \<Rightarrow> ('u, 'v, 't) ws_core \<Rightarrow> ('u, 'v, 't) ws_core \<times> bool" where
  "run_callback E p s =
     (case run_script p (env_transport E) (sc_ws s) of (w, ok) \<Rightarrow> (s\<lparr>sc_ws := w\<rparr>, ok))"

text \<open>\<^verbatim>\<open>if (cb) co_await cb(...)\<close>, in sequence.\<close>

definition run_optional :: "('u, 'v, 't) ws_env \<Rightarrow> 'u script option \<Rightarrow> ('u, 'v, 't) ws_core \<Rightarrow> ('u, 'v, 't) ws_core \<times> bool" where
  "run_optional E p s = (case p of None \<Rightarrow> (s, True) | Some p \<Rightarrow> run_callback E p s)"

definition typed_callback :: "opcode \<Rightarrow> string \<Rightarrow> ('u, 't) websocket \<Rightarrow> 'u script option" where
  "typed_callback op payload w =
     (if op = Text \<and> ws_text_cb w \<noteq> None then map_option (\<lambda>f. f payload) (ws_text_cb w)
      else if op = Binary \<and> ws_binary_cb w \<noteq> None then map_option (\<lambda>f. f payload) (ws_binary_cb w)
      else None)"

definition no_callbacks :: "('u, 't) websocket \<Rightarrow> bool" where
  "no_callbacks w \<longleftrightarrow> ws_message_cb w = None \<and> ws_text_cb w = None \<and> ws_binary_cb w = None"

text \<open>A complete message: the echo handler, the batched echo, or the registered callbacks.\<close>

definition deliver :: "('u, 'v, 't) ws_env \<Rightarrow> opcode \<Rightarrow> string \<Rightarrow> ('u, 'v, 't) ws_core \<Rightarrow> ('u, 'v, 't) ws_core \<times> bool" where
  "deliver E op payload s =
     (let s = s\<lparr>sc_delivered := sc_delivered s @ [(op, payload)]\<rparr>
      in case env_echo E of
           Some h \<Rightarrow> run_callback E (h payload op) s
         | None \<Rightarrow>
             if no_callbacks (sc_ws s)
             then (s\<lparr>sc_batch_out := sc_batch_out s @ serialize_frame_header op (length payload) True @ payload\<rparr>, True)
             else case run_optional E (map_option (\<lambda>f. f payload op) (ws_message_cb (sc_ws s))) s of
                 (s, False) \<Rightarrow> (s, False)
               | (s, True) \<Rightarrow> run_optional E (typed_callback op payload (sc_ws s)) s)"

definition handle_ping :: "('u, 'v, 't) ws_env \<Rightarrow> string \<Rightarrow> ('u, 'v, 't) ws_core \<Rightarrow> ('u, 'v, 't) ws_core \<times> ws_outcome" where
  "handle_ping E payload s =
     (let s = flush_batch E s;
          s = s\<lparr>sc_ws := ws_send (env_transport E) Pong payload (sc_ws s)\<rparr>
      in case run_optional E (map_option (\<lambda>f. f payload) (ws_ping_cb (sc_ws s))) s of
           (s, ok) \<Rightarrow> (s, if ok then Active else Escaped))"

definition finish_close :: "('u, 'v, 't) ws_env \<Rightarrow> nat \<Rightarrow> string \<Rightarrow> ('u, 'v, 't) ws_core \<Rightarrow> ('u, 'v, 't) ws_core \<times> ws_outcome" where
  "finish_close E code reason s =
     (case run_optional E (map_option (\<lambda>f. f code reason) (ws_close_cb (sc_ws s))) s of
        (s, False) \<Rightarrow> (s, Escaped)
      | (s, True) \<Rightarrow> fail_session E code reason (flush_batch E s))"

definition handle_close :: "('u, 'v, 't) ws_env \<Rightarrow> string \<Rightarrow> ('u, 'v, 't) ws_core \<Rightarrow> ('u, 'v, 't) ws_core \<times> ws_outcome" where
  "handle_close E payload s =
     (if length payload = 1
      then fail_session E 1002 ''Close frame payload cannot be 1 byte'' (drop_batch s)
      else if 2 \<le> length payload then
        let ucode = be_value (take 2 payload); reason = drop 2 payload
        in if \<not> is_valid_close_code ucode then fail_session E 1002 ''Invalid close code'' (drop_batch s)
           else if 2 < length payload \<and> \<not> is_valid_utf8 (env_utf8 E) reason
           then fail_session E 1007 ''Invalid UTF-8 in close reason'' (drop_batch s)
           else finish_close E ucode reason s
      else finish_close E 1000 [] s)"

text \<open>The last fragment of a message.\<close>

definition finish_fragments :: "('u, 'v, 't) ws_env \<Rightarrow> ('u, 'v, 't) ws_core \<Rightarrow> ('u, 'v, 't) ws_core \<times> ws_outcome" where
  "finish_fragments E s =
     (if sc_fragment_opcode s = Text \<and> \<not> u8_is_valid_end (env_utf8 E) (sc_utf8 s)
      then fail_session E 1007 ''Incomplete UTF-8 sequence at end of message'' (drop_batch s)
      else
        let s = s\<lparr>sc_fragment_in_progress := False\<rparr>
        in case deliver E (sc_fragment_opcode s) (sc_fragment_buffer s) s of
             (s, False) \<Rightarrow> (s, Escaped)
           | (s, True) \<Rightarrow> (s\<lparr>sc_fragment_buffer := []\<rparr>, Active))"

text \<open>Feeds the validator, for text only; the flag is its verdict.\<close>

definition validate :: "('u, 'v, 't) ws_env \<Rightarrow> opcode \<Rightarrow> string \<Rightarrow> ('u, 'v, 't) ws_core \<Rightarrow> ('u, 'v, 't) ws_core \<times> bool" where
  "validate E op payload s =
     (if op = Text then case u8_update (env_utf8 E) (sc_utf8 s) payload of (ok, v) \<Rightarrow> (s\<lparr>sc_utf8 := v\<rparr>, ok)
      else (s, True))"

definition handle_continuation ::
    "('u, 'v, 't) ws_env \<Rightarrow> bool \<Rightarrow> string \<Rightarrow> ('u, 'v, 't) ws_core \<Rightarrow> ('u, 'v, 't) ws_core \<times> ws_outcome" where
  "handle_continuation E fin payload s =
     (if \<not> sc_fragment_in_progress s
      then fail_session E 1002 ''Unexpected continuation frame'' (flush_batch E s)
      else if max_message_size (env_config E) < length (sc_fragment_buffer s) + length payload
      then fail_session E 1009 ''Message Too Big'' (drop_batch s)
      else case validate E (sc_fragment_opcode s) payload s of
          (s, False) \<Rightarrow> fail_session E 1007 ''Invalid UTF-8 in continuation frame'' (drop_batch s)
        | (s, True) \<Rightarrow>
            let s = s\<lparr>sc_fragment_buffer := sc_fragment_buffer s @ payload\<rparr>
            in if fin then finish_fragments E s else (s, Active))"

text \<open>\<^verbatim>\<open>utf8_validator_.reset()\<close>, for text only.\<close>

definition reset_validator :: "('u, 'v, 't) ws_env \<Rightarrow> opcode \<Rightarrow> ('u, 'v, 't) ws_core \<Rightarrow> ('u, 'v, 't) ws_core" where
  "reset_validator E op s = (if op = Text then s\<lparr>sc_utf8 := u8_reset (env_utf8 E)\<rparr> else s)"

definition first_fragment ::
    "('u, 'v, 't) ws_env \<Rightarrow> opcode \<Rightarrow> string \<Rightarrow> ('u, 'v, 't) ws_core \<Rightarrow> ('u, 'v, 't) ws_core \<times> ws_outcome" where
  "first_fragment E op payload s =
     (let s = s\<lparr>sc_fragment_in_progress := True, sc_fragment_opcode := op, sc_fragment_buffer := []\<rparr>
      in case validate E op payload (reset_validator E op s) of
           (s, False) \<Rightarrow> fail_session E 1007 ''Invalid UTF-8 in initial fragment'' (drop_batch s)
         | (s, True) \<Rightarrow>
             if max_message_size (env_config E) < length payload
             then fail_session E 1009 ''Message Too Big'' (drop_batch s)
             else (s\<lparr>sc_fragment_buffer := payload\<rparr>, Active))"

definition whole_message ::
    "('u, 'v, 't) ws_env \<Rightarrow> opcode \<Rightarrow> string \<Rightarrow> ('u, 'v, 't) ws_core \<Rightarrow> ('u, 'v, 't) ws_core \<times> ws_outcome" where
  "whole_message E op payload s =
     (case validate E op payload (reset_validator E op s) of
        (s, ok) \<Rightarrow>
          if \<not> ok \<or> op = Text \<and> \<not> u8_is_valid_end (env_utf8 E) (sc_utf8 s)
          then fail_session E 1007 ''Invalid UTF-8 in text frame'' (drop_batch s)
          else case deliver E op payload s of (s, ok) \<Rightarrow> (s, if ok then Active else Escaped))"

definition handle_data ::
    "('u, 'v, 't) ws_env \<Rightarrow> bool \<Rightarrow> opcode \<Rightarrow> string \<Rightarrow> ('u, 'v, 't) ws_core \<Rightarrow> ('u, 'v, 't) ws_core \<times> ws_outcome" where
  "handle_data E fin op payload s =
     (if sc_fragment_in_progress s
      then fail_session E 1002 ''Received new data frame while previous fragment incomplete'' (flush_batch E s)
      else if fin then whole_message E op payload s else first_fragment E op payload s)"

definition handle_frame ::
    "('u, 'v, 't) ws_env \<Rightarrow> frame_header \<Rightarrow> string \<Rightarrow> ('u, 'v, 't) ws_core \<Rightarrow> ('u, 'v, 't) ws_core \<times> ws_outcome" where
  "handle_frame E h payload s =
     (case fh_opcode h of
        Ping \<Rightarrow> handle_ping E payload s
      | Pong \<Rightarrow> (s, Active)
      | Close \<Rightarrow> handle_close E payload s
      | Continuation \<Rightarrow> handle_continuation E (fh_fin h) payload s
      | op \<Rightarrow> handle_data E (fh_fin h) op payload s)"

text \<open>The bytes of a payload after in-place unmasking.\<close>

definition unmasked :: "simd_tier \<Rightarrow> byte list \<Rightarrow> string \<Rightarrow> string" where
  "unmasked t key s = map (\<lambda>b. char_of (unat b)) (unmask_payload_inplace t key (map lane s))"

text \<open>A frame whose payload is complete, through the masking rules.\<close>

definition take_frame ::
    "('u, 'v, 't) ws_env \<Rightarrow> frame_header \<Rightarrow> string \<Rightarrow> ('u, 'v, 't) ws_core \<Rightarrow> ('u, 'v, 't) ws_core \<times> ws_outcome" where
  "take_frame E h raw s =
     (if fh_masked h then handle_frame E h (unmasked (env_tier E) (fh_mask_key h) raw) s
      else if require_masked_frames (env_config E) \<and> tr_protocol (env_transport E) = WsHttp1
      then fail_session E 1002 ''Unmasked client frame'' s
      else handle_frame E h raw s)"

text \<open>\<^verbatim>\<open>if (batch_out_.size() >= 65536)\<close> at the end of an iteration.\<close>

definition flush_full :: "('u, 'v, 't) ws_env \<Rightarrow> ('u, 'v, 't) ws_core \<Rightarrow> ('u, 'v, 't) ws_core" where
  "flush_full E s = (if 65536 \<le> length (sc_batch_out s) then flush_batch E s else s)"

text \<open>
  The loop over pipelined frames; the last component is the input that was not consumed. Unmasking
  in place changes only bytes that this iteration consumes.
\<close>

function frame_loop ::
    "('u, 'v, 't) ws_env \<Rightarrow> string \<Rightarrow> ('u, 'v, 't) ws_core \<Rightarrow> ('u, 'v, 't) ws_core \<times> ws_outcome \<times> string" where
  "frame_loop E remaining s =
     (if remaining = [] then (s, Active, [])
      else case parse_frame_header remaining of
        FrameNeedMoreData \<Rightarrow> (s, Active, remaining)
      | FrameProtocolError \<Rightarrow>
          (case fail_session E 1002 ''Protocol Error'' (flush_batch E s) of (s, oc) \<Rightarrow> (s, oc, remaining))
      | FrameComplete h \<Rightarrow>
          if max_frame_size (env_config E) < fh_payload_len h \<or> max_message_size (env_config E) < fh_payload_len h
          then case fail_session E 1009 ''Message Too Big'' s of (s, oc) \<Rightarrow> (s, oc, remaining)
          else
            let total_frame_len = fh_header_len h + fh_payload_len h
            in if length remaining < total_frame_len then (s, Active, remaining)
               else case take_frame E h (substr remaining (fh_header_len h) (fh_payload_len h)) s of
                   (s, oc) \<Rightarrow> (if oc = Active then frame_loop E (drop total_frame_len remaining) (flush_full E s)
                     else (s, oc, remaining)))"
  by pat_completeness auto
termination
  by (relation "measure (\<lambda>(E, remaining, s). length remaining)")
    (auto dest!: parse_header_ok simp: header_ok_def)

declare frame_loop.simps [simp del]

text \<open>The first call runs the handler; a handler that throws closes the session.\<close>

definition initialize :: "('u, 'v, 't) ws_env \<Rightarrow> ('u, 'v, 't) ws_session \<Rightarrow> ('u, 'v, 't) ws_session \<times> bool" where
  "initialize E S =
     (if se_initialized S then (S, True)
      else
        let S = S\<lparr>se_initialized := True\<rparr>
        in case env_handler E of
             None \<Rightarrow> (S, True)
           | Some p \<Rightarrow>
               (case run_callback E p (se_core S) of
                  (s, True) \<Rightarrow> (S\<lparr>se_core := s\<rparr>, True)
                | (s, False) \<Rightarrow>
                    (S\<lparr>se_core := s\<lparr>sc_is_closed := True,
                        sc_ws := (sc_ws s)\<lparr>ws_open := False,
                          ws_transport_state := tr_close (env_transport E) (ws_transport_state (sc_ws s))\<rparr>\<rparr>\<rparr>, False)))"

definition process_incoming_data ::
    "('u, 'v, 't) ws_env \<Rightarrow> string \<Rightarrow> ('u, 'v, 't) ws_session \<Rightarrow> ('u, 'v, 't) ws_session \<times> ws_outcome" where
  "process_incoming_data E data S =
     (if sc_is_closed (se_core S) then (S, Closed)
      else case initialize E S of
          (S, False) \<Rightarrow> (S, Closed)
        | (S, True) \<Rightarrow>
            let input_source = (if se_stream_buf S = [] then data else se_stream_buf S @ data);
                S = S\<lparr>se_stream_buf := if se_stream_buf S = [] then [] else se_stream_buf S @ data\<rparr>
            in case frame_loop E input_source (drop_batch (se_core S)) of
                 (s, Active, remaining) \<Rightarrow>
                   (S\<lparr>se_core := flush_batch E s, se_stream_buf := remaining\<rparr>, Active)
               | (s, oc, _) \<Rightarrow> (S\<lparr>se_core := s\<rparr>, oc))"

definition session_is_closed :: "('u, 'v, 't) ws_env \<Rightarrow> ('u, 'v, 't) ws_session \<Rightarrow> bool" where
  "session_is_closed E S \<longleftrightarrow> sc_is_closed (se_core S) \<or> \<not> ws_is_open (env_transport E) (sc_ws (se_core S))"

subsection \<open>The connection\<close>

text \<open>
  The transport of HTTP/1: a socket of the I/O engine, whose \<^verbatim>\<open>send\<close> and \<^verbatim>\<open>send_all\<close> return a count
  or an error. Frames up to 4096 bytes are assembled on the stack and longer ones on the heap;
  either way one buffer is sent.
\<close>

record 'e io_engine =
  eng_send :: "string \<Rightarrow> 'e \<Rightarrow> int \<times> 'e"
  eng_send_all :: "string \<Rightarrow> 'e \<Rightarrow> int \<times> 'e"

record 'e ws_connection =
  wc_is_open :: bool
  wc_fd_valid :: bool
  wc_engine :: 'e

definition conn_send :: "'e io_engine \<Rightarrow> string \<Rightarrow> 'e ws_connection \<Rightarrow> int \<times> 'e ws_connection" where
  "conn_send eng bytes c =
     (case eng_send eng bytes (wc_engine c) of
        (sent, e) \<Rightarrow>
          if sent = int (length bytes) then (sent, c\<lparr>wc_engine := e\<rparr>)
          else if sent \<le> 0 then (sent, c\<lparr>wc_engine := e\<rparr>)
          else case eng_send_all eng (drop (nat sent) bytes) e of
              (rem, e) \<Rightarrow> (if 0 < rem then sent + rem else rem, c\<lparr>wc_engine := e\<rparr>))"

definition conn_write_frame :: "'e io_engine \<Rightarrow> string \<Rightarrow> string \<Rightarrow> 'e ws_connection \<Rightarrow> int \<times> 'e ws_connection" where
  "conn_write_frame eng header payload c =
     (if \<not> wc_is_open c \<or> \<not> wc_fd_valid c then (-1, c) else conn_send eng (header @ payload) c)"

definition conn_write_raw :: "'e io_engine \<Rightarrow> string \<Rightarrow> 'e ws_connection \<Rightarrow> int \<times> 'e ws_connection" where
  "conn_write_raw eng bytes c =
     (if \<not> wc_is_open c \<or> \<not> wc_fd_valid c \<or> bytes = [] then (-1, c) else conn_send eng bytes c)"

definition conn_close :: "'e ws_connection \<Rightarrow> 'e ws_connection" where
  "conn_close c = (if \<not> wc_is_open c then c else c\<lparr>wc_is_open := False\<rparr>)"

definition conn_is_open :: "'e ws_connection \<Rightarrow> bool" where
  "conn_is_open c \<longleftrightarrow> wc_is_open c \<and> wc_fd_valid c"

definition conn_transport :: "'e io_engine \<Rightarrow> 'e ws_connection ws_transport" where
  "conn_transport eng = \<lparr>tr_protocol = WsHttp1, tr_is_open = conn_is_open,
     tr_write_frame = conn_write_frame eng, tr_write_raw = conn_write_raw eng, tr_close = conn_close\<rparr>"

text \<open>The constructor of the connection gives its session the connection itself as transport.\<close>

definition connection_env ::
    "simd_tier \<Rightarrow> 'e io_engine \<Rightarrow> 'v utf8_validator \<Rightarrow> ws_config \<Rightarrow> 'u script option \<Rightarrow>
      (string \<Rightarrow> opcode \<Rightarrow> 'u script) option \<Rightarrow> ('u, 'v, 'e ws_connection) ws_env" where
  "connection_env tier eng V cfg handler echo =
     \<lparr>env_tier = tier, env_transport = conn_transport eng, env_utf8 = V, env_config = cfg,
      env_handler = handler, env_echo = echo\<rparr>"

text \<open>
  What the receive stream yields: bytes, \<^verbatim>\<open>-ENOBUFS\<close> (retried after a pause), or the end (no bytes, or
  another error). The list is everything the stream yields; a connection that is still waiting at
  its end has consumed it all.
\<close>

datatype recv_result = Received string | NoBuffers | StreamEnd

fun receive_loop ::
    "('u, 'v, 'e ws_connection) ws_env \<Rightarrow> recv_result list \<Rightarrow> ('u, 'v, 'e ws_connection) ws_session \<Rightarrow>
      ('u, 'v, 'e ws_connection) ws_session \<times> ws_outcome" where
  "receive_loop E rs S =
     (if \<not> wc_is_open (ws_transport_state (sc_ws (se_core S))) \<or> session_is_closed E S then (S, Closed)
      else case rs of
        [] \<Rightarrow> (S, Active)
      | NoBuffers # rs \<Rightarrow> receive_loop E rs S
      | StreamEnd # rs \<Rightarrow> (S, Closed)
      | Received chunk # rs \<Rightarrow>
          (case process_incoming_data E chunk S of
             (S, oc) \<Rightarrow> if oc = Active \<and> \<not> session_is_closed E S then receive_loop E rs S
               else (S, if oc = Active then Closed else oc)))"

declare receive_loop.simps [simp del]

definition shut_down :: "('u, 'v, 'e ws_connection) ws_session \<Rightarrow> ('u, 'v, 'e ws_connection) ws_session" where
  "shut_down S = S\<lparr>se_core := (se_core S)\<lparr>sc_ws := (sc_ws (se_core S))\<lparr>ws_transport_state :=
     (ws_transport_state (sc_ws (se_core S)))\<lparr>wc_is_open := False, wc_fd_valid := False\<rparr>\<rparr>\<rparr>\<rparr>"

definition run_connection ::
    "('u, 'v, 'e ws_connection) ws_env \<Rightarrow> string \<Rightarrow> recv_result list \<Rightarrow> ('u, 'v, 'e ws_connection) ws_session \<Rightarrow>
      ('u, 'v, 'e ws_connection) ws_session \<times> ws_outcome" where
  "run_connection E initial_data rs S =
     (case process_incoming_data E initial_data S of
        (S, Escaped) \<Rightarrow> (S, Escaped)
      | (S, oc) \<Rightarrow>
          if oc = Closed \<or> session_is_closed E S then (shut_down S, Closed)
          else case receive_loop E rs S of
              (S, Closed) \<Rightarrow> (shut_down S, Closed)
            | (S, oc) \<Rightarrow> (S, oc))"

end
