(* ===== verification/WebSocket_Proofs.thy ===== *)
theory WebSocket_Proofs
  imports WebSocket_Session
begin

text \<open>
  What a WebSocket session promises: its result does not depend on how the transport cut the bytes
  into reads, the messages it delivers are valid and bounded, and it never keeps a complete frame.
\<close>

subsection \<open>The loop on a prefix of the input\<close>

lemma frame_loop_Nil [simp]: "frame_loop E [] s = (s, Active, [])"
  by (simp add: frame_loop.simps)

text \<open>Input that is no complete frame yet, and that need not be refused.\<close>

definition waiting :: "('u, 'v, 't) ws_env \<Rightarrow> string \<Rightarrow> bool" where
  "waiting E r \<longleftrightarrow>
     (case parse_frame_header r of
        FrameNeedMoreData \<Rightarrow> True
      | FrameProtocolError \<Rightarrow> False
      | FrameComplete h \<Rightarrow>
          length r < fh_header_len h + fh_payload_len h \<and>
          fh_payload_len h \<le> max_frame_size (env_config E) \<and> fh_payload_len h \<le> max_message_size (env_config E))"

text \<open>The three ways an iteration goes: it waits for bytes, it ends the session, or it takes a frame.\<close>

lemma frame_loop_cases:
  obtains (wait) "\<And>s. frame_loop E r s = (s, Active, r)" "waiting E r"
  | (error) f c m where "f = (\<lambda>s. s) \<or> f = flush_batch E"
      "\<And>s b. frame_loop E (r @ b) s = (fst (fail_session E c m (f s)), Closed, r @ b)"
  | (step) h p n where "length p \<le> max_message_size (env_config E)" "length (fh_mask_key h) = 4"
      "n \<le> length r" "length (drop n r) < length r"
      "\<And>s b. frame_loop E (r @ b) s = (case take_frame E h p s of (s, oc) \<Rightarrow>
         if oc = Active then frame_loop E (drop n r @ b) (flush_full E s) else (s, oc, r @ b))"
proof (cases "parse_frame_header r")
  case FrameNeedMoreData
  then show ?thesis by (intro wait) (simp_all add: frame_loop.simps [of E r] waiting_def)
next
  case FrameProtocolError
  then have "r \<noteq> []" "parse_frame_header (r @ b) = FrameProtocolError" for b
    using parse_header_append [of r b] by (auto simp: parse_frame_header_def)
  then show ?thesis by (intro error) (auto simp: frame_loop.simps [of E "r @ b" for b] fail_session_def)
next
  case (FrameComplete h)
  note ok = parse_header_ok [OF FrameComplete, unfolded header_ok_def]
  have ne: "r \<noteq> []" using ok by auto
  have rb: "parse_frame_header (r @ b) = FrameComplete h" for b
    using FrameComplete parse_header_append [of r b] by simp
  let ?big = "max_frame_size (env_config E) < fh_payload_len h \<or> max_message_size (env_config E) < fh_payload_len h"
  let ?n = "fh_header_len h + fh_payload_len h"
  consider (big) "?big" | (short) "\<not> ?big" "length r < ?n" | (full) "\<not> ?big" "\<not> length r < ?n" by blast
  then show ?thesis
  proof cases
    case big
    then show ?thesis
      using ne rb by (intro error [of "\<lambda>s. s"]) (auto simp: frame_loop.simps [of E "r @ b" for b] fail_session_def)
  next
    case short
    then show ?thesis using ne FrameComplete by (intro wait) (simp_all add: frame_loop.simps [of E r] waiting_def)
  next
    case full
    show ?thesis
    proof (rule step)
      show "length (substr r (fh_header_len h) (fh_payload_len h)) \<le> max_message_size (env_config E)"
        using full by (simp add: substr_def)
      show "length (fh_mask_key h) = 4" using ok by simp
      show "?n \<le> length r" using full by simp
      show "length (drop ?n r) < length r" using ok ne by simp
      fix s b
      have "substr (r @ b) (fh_header_len h) (fh_payload_len h) = substr r (fh_header_len h) (fh_payload_len h)"
        using full by (simp add: substr_def)
      moreover have "drop ?n (r @ b) = drop ?n r @ b" using full by simp
      ultimately show "frame_loop E (r @ b) s = (case take_frame E h (substr r (fh_header_len h) (fh_payload_len h)) s of
          (s, oc) \<Rightarrow> if oc = Active then frame_loop E (drop ?n r @ b) (flush_full E s) else (s, oc, r @ b))"
        using full ne rb by (simp add: frame_loop.simps [of E "r @ b"] split: prod.split)
    qed
  qed
qed

lemma frame_loop_append:
  "frame_loop E a s = (s1, oc, r) \<Longrightarrow>
    frame_loop E (a @ b) s = (if oc = Active then frame_loop E (r @ b) s1 else (s1, oc, r @ b))"
proof (induction "length a" arbitrary: a s rule: less_induct)
  case less
  show ?case
  proof (cases E a rule: frame_loop_cases)
    case wait
    then show ?thesis using less.prems by auto
  next
    case (error f c m)
    then show ?thesis using less.prems error(2) [of "[]"] by auto
  next
    case (step h p n)
    then show ?thesis
      using less.prems less.hyps [OF step(4)] step(5) [of "[]" s] step(5) [of b s] by (auto split: prod.splits if_splits)
  qed
qed

subsection \<open>What the application can see\<close>

text \<open>Two sockets, and two sessions, that differ only in what was written so far.\<close>

definition same_socket :: "'t ws_transport \<Rightarrow> ('u, 't) websocket \<Rightarrow> ('u, 't) websocket \<Rightarrow> bool" where
  "same_socket T w w' \<longleftrightarrow>
     ws_open w' = ws_open w \<and> ws_user w' = ws_user w \<and> ws_message_cb w' = ws_message_cb w \<and>
     ws_text_cb w' = ws_text_cb w \<and> ws_binary_cb w' = ws_binary_cb w \<and> ws_close_cb w' = ws_close_cb w \<and>
     ws_ping_cb w' = ws_ping_cb w \<and>
     tr_is_open T (ws_transport_state w') = tr_is_open T (ws_transport_state w)"

definition same_core :: "('u, 'v, 't) ws_env \<Rightarrow> ('u, 'v, 't) ws_core \<Rightarrow> ('u, 'v, 't) ws_core \<Rightarrow> bool" where
  "same_core E s s' \<longleftrightarrow>
     same_socket (env_transport E) (sc_ws s) (sc_ws s') \<and>
     sc_fragment_in_progress s' = sc_fragment_in_progress s \<and> sc_fragment_opcode s' = sc_fragment_opcode s \<and>
     sc_fragment_buffer s' = sc_fragment_buffer s \<and> sc_utf8 s' = sc_utf8 s \<and>
     sc_is_closed s' = sc_is_closed s \<and> sc_delivered s' = sc_delivered s"

definition same_result where
  "same_result E r r' \<longleftrightarrow> same_core E (fst r) (fst r') \<and> snd r = snd r'"

lemma same_core_refl [simp]: "same_core E s s"
  by (simp add: same_core_def same_socket_def)

lemma same_core_trans: "same_core E s t \<Longrightarrow> same_core E t u \<Longrightarrow> same_core E s u"
  by (simp add: same_core_def same_socket_def)

lemma same_core_sym: "same_core E s t \<Longrightarrow> same_core E t s"
  by (simp add: same_core_def same_socket_def)

lemma same_socket_views:
  assumes "same_socket T w w'"
  shows "ws_is_open T w' = ws_is_open T w" "no_callbacks w' = no_callbacks w"
    "typed_callback op p w' = typed_callback op p w"
  using assms by (simp_all add: same_socket_def ws_is_open_def no_callbacks_def typed_callback_def)

lemma same_drop: "same_core E s (drop_batch s)"
  by (simp add: same_core_def same_socket_def drop_batch_def)

text \<open>Batching steps can be put on either side.\<close>

lemma same_core_both:
  assumes "same_core E s t" "same_core E s s'" "same_core E t t'"
  shows "same_core E s' t'"
  using assms same_core_trans same_core_sym by blast

lemma same_result_iff: "same_result E (s, x) (t, y) \<longleftrightarrow> same_core E s t \<and> x = y"
  by (simp add: same_result_def)

text \<open>
  A transport is steady when writing leaves it open or closed as it was, and closing closes it. For
  such a transport nothing that the application sees depends on what was written so far.
\<close>

locale steady_session =
  fixes E :: "('u, 'v, 't) ws_env"
  assumes write_frame_open: "tr_is_open (env_transport E) (snd (tr_write_frame (env_transport E) h p t)) = tr_is_open (env_transport E) t"
    and write_raw_open: "tr_is_open (env_transport E) (snd (tr_write_raw (env_transport E) p t)) = tr_is_open (env_transport E) t"
    and close_closed: "\<not> tr_is_open (env_transport E) (tr_close (env_transport E) t)"
begin

lemma same_send: "same_socket (env_transport E) w w' \<Longrightarrow> same_socket (env_transport E) (ws_send (env_transport E) op p w) (ws_send (env_transport E) op p w')"
  by (auto simp: same_socket_def ws_send_def ws_is_open_def ws_write_def write_frame_open close_closed)

lemma same_close: "same_socket (env_transport E) w w' \<Longrightarrow> same_socket (env_transport E) (ws_close (env_transport E) c r w) (ws_close (env_transport E) c r w')"
  by (auto simp: same_socket_def ws_close_def ws_write_def write_frame_open close_closed Let_def)

lemma same_script:
  shows "same_socket (env_transport E) w w' \<Longrightarrow>
    same_socket (env_transport E) (fst (run_script p (env_transport E) w)) (fst (run_script p (env_transport E) w')) \<and> snd (run_script p (env_transport E) w) = snd (run_script p (env_transport E) w')"
proof (induction p arbitrary: w w')
  case (SendFrame op payload k)
  show ?case using SendFrame.IH [OF same_send [OF SendFrame.prems]] by simp
next
  case (CloseSocket code reason k)
  show ?case using CloseSocket.IH [OF same_close [OF CloseSocket.prems]] by simp
next
  case (ReadState k)
  have "ws_user w' = ws_user w" using ReadState.prems by (simp add: same_socket_def)
  then show ?case using ReadState.IH [OF _ ReadState.prems] by simp
next
  case (IsOpen k)
  then show ?case using IsOpen.IH [OF _ IsOpen.prems] same_socket_views(1) [OF IsOpen.prems] by simp
qed (simp_all, simp_all add: same_socket_def)

lemma same_flush: "same_core E s (flush_batch E s)"
  by (simp add: same_core_def same_socket_def flush_batch_def write_raw_open)

lemma same_flush_full: "same_core E s (flush_full E s)"
  by (simp add: flush_full_def same_flush)

lemma same_fail:
  assumes "same_core E s t"
  shows "same_result E (fail_session E c r s) (fail_session E c r t)"
  using assms same_close [of "sc_ws s" "sc_ws t" c r]
  by (auto simp: same_result_iff fail_session_def same_core_def)

lemma same_fail_flush:
  "same_core E s t \<Longrightarrow> same_result E (fail_session E c r (flush_batch E s)) (fail_session E c r (flush_batch E t))"
  using same_fail same_core_both same_flush  by blast

lemma same_fail_drop:
  "same_core E s t \<Longrightarrow> same_result E (fail_session E c r (drop_batch s)) (fail_session E c r (drop_batch t))"
  using same_fail same_core_both same_drop by blast

lemma same_callback:
  assumes "same_core E s t"
  shows "same_result E (run_callback E p s) (run_callback E p t)"
  using assms same_script [of "sc_ws s" "sc_ws t" p]
  by (auto simp: same_result_def run_callback_def same_core_def split: prod.splits)

lemma same_optional: "same_core E s t \<Longrightarrow> same_result E (run_optional E p s) (run_optional E p t)"
  by (auto simp: run_optional_def same_callback same_result_iff split: option.split)

lemma same_case:
  assumes "same_result E r r'" "\<And>s t x. same_core E s t \<Longrightarrow> same_result E (f s x) (g t x)"
  shows "same_result E (case r of (s, x) \<Rightarrow> f s x) (case r' of (s, x) \<Rightarrow> g s x)"
  using assms by (auto simp: same_result_def split: prod.split)

lemma same_case_bool:
  assumes "same_result E r r'" "\<And>s t. same_core E s t \<Longrightarrow> same_result E (f s) (f' t)"
    "\<And>s t. same_core E s t \<Longrightarrow> same_result E (g s) (g' t)"
  shows "same_result E (case r of (s, True) \<Rightarrow> f s | (s, False) \<Rightarrow> g s) (case r' of (s, True) \<Rightarrow> f' s | (s, False) \<Rightarrow> g' s)"
  using assms by (auto simp: same_result_def split: prod.split bool.split)

lemma same_typed:
  assumes "same_core E s t"
  shows "same_result E (run_optional E (typed_callback op p (sc_ws s)) s) (run_optional E (typed_callback op p (sc_ws t)) t)"
  using assms same_optional [OF assms] same_socket_views(3) [of "env_transport E" "sc_ws s" "sc_ws t" op p]
  by (simp add: same_core_def)

lemma same_deliver:
  assumes "same_core E s t"
  shows "same_result E (deliver E op p s) (deliver E op p t)"
proof -
  let ?log = "\<lambda>s. s\<lparr>sc_delivered := sc_delivered s @ [(op, p)]\<rparr>"
  have l: "same_core E (?log s) (?log t)" using assms by (simp add: same_core_def)
  have sock: "same_socket (env_transport E) (sc_ws s) (sc_ws t)" using assms by (simp add: same_core_def)
  have w: "no_callbacks (sc_ws t) = no_callbacks (sc_ws s)" "ws_message_cb (sc_ws t) = ws_message_cb (sc_ws s)"
    using same_socket_views(2) [OF sock] sock by (simp_all add: same_socket_def)
  have echo: "same_result E (?log s\<lparr>sc_batch_out := x\<rparr>, True) (?log t\<lparr>sc_batch_out := y\<rparr>, True)" for x y
    using l by (simp add: same_result_iff same_core_def)
  have cbs: "same_result E
      (case run_optional E m (?log s) of (s, True) \<Rightarrow> run_optional E (typed_callback op p (sc_ws s)) s | (s, False) \<Rightarrow> (s, False))
      (case run_optional E m (?log t) of (s, True) \<Rightarrow> run_optional E (typed_callback op p (sc_ws s)) s | (s, False) \<Rightarrow> (s, False))" for m
    by (rule same_case_bool [OF same_optional [OF l] same_typed]) (simp_all add: same_result_iff)
  show ?thesis
    using echo same_callback [OF l] cbs
    by (simp add: deliver_def Let_def w split: option.split)
qed

lemma same_ping:
  assumes "same_core E s t"
  shows "same_result E (handle_ping E p s) (handle_ping E p t)"
proof -
  let ?pong = "\<lambda>s. s\<lparr>sc_ws := ws_send (env_transport E) Pong p (sc_ws s)\<rparr>"
  have f: "same_core E (flush_batch E s) (flush_batch E t)" by (rule same_core_both [OF assms same_flush same_flush])
  have g: "same_core E (?pong (flush_batch E s)) (?pong (flush_batch E t))"
    using f same_send by (auto simp: same_core_def)
  then have "ws_ping_cb (sc_ws (?pong (flush_batch E t))) = ws_ping_cb (sc_ws (?pong (flush_batch E s)))"
    unfolding same_core_def same_socket_def by simp
  then show ?thesis
    unfolding handle_ping_def Let_def
    by (intro same_case) (simp_all only: same_optional [OF g] same_result_iff simp_thms)
qed

lemma same_close_frame:
  assumes "same_core E s t"
  shows "same_result E (handle_close E p s) (handle_close E p t)"
proof -
  have "same_result E (finish_close E code reason s) (finish_close E code reason t)" for code reason
  proof -
    have "ws_close_cb (sc_ws t) = ws_close_cb (sc_ws s)" using assms by (simp add: same_core_def same_socket_def)
    then show ?thesis
      unfolding finish_close_def using same_optional [OF assms]
      by (auto intro!: same_case_bool same_fail_flush simp: same_result_iff)
  qed
  then show ?thesis
    using same_fail_drop [OF assms] by (auto simp: handle_close_def Let_def)
qed

lemma same_validate: "same_core E s t \<Longrightarrow> same_result E (validate E op p s) (validate E op p t)"
  by (auto simp: validate_def same_result_iff same_core_def split: prod.split)

lemma same_finish:
  assumes "same_core E s t"
  shows "same_result E (finish_fragments E s) (finish_fragments E t)"
proof -
  have eq: "sc_fragment_opcode t = sc_fragment_opcode s" "sc_utf8 t = sc_utf8 s" "sc_fragment_buffer t = sc_fragment_buffer s"
    using assms by (simp_all add: same_core_def)
  have "same_core E (s\<lparr>sc_fragment_in_progress := False\<rparr>) (t\<lparr>sc_fragment_in_progress := False\<rparr>)"
    using assms by (simp add: same_core_def)
  then have "same_result E
      (case deliver E op p (s\<lparr>sc_fragment_in_progress := False\<rparr>) of
         (s, True) \<Rightarrow> (s\<lparr>sc_fragment_buffer := []\<rparr>, Active) | (s, False) \<Rightarrow> (s, Escaped))
      (case deliver E op p (t\<lparr>sc_fragment_in_progress := False\<rparr>) of
         (s, True) \<Rightarrow> (s\<lparr>sc_fragment_buffer := []\<rparr>, Active) | (s, False) \<Rightarrow> (s, Escaped))" for op p
    by (intro same_case_bool same_deliver) (simp_all add: same_result_iff same_core_def)
  then show ?thesis
    using same_fail_drop [OF assms] by (simp add: finish_fragments_def Let_def eq)
qed

lemma same_continuation:
  assumes "same_core E s t"
  shows "same_result E (handle_continuation E fin p s) (handle_continuation E fin p t)"
proof -
  have eq: "sc_fragment_in_progress t = sc_fragment_in_progress s" "sc_fragment_buffer t = sc_fragment_buffer s"
    "sc_fragment_opcode t = sc_fragment_opcode s"
    using assms by (simp_all add: same_core_def)
  have add: "same_core E (s\<lparr>sc_fragment_buffer := sc_fragment_buffer s @ p\<rparr>) (t\<lparr>sc_fragment_buffer := sc_fragment_buffer t @ p\<rparr>)"
    if "same_core E s t" for s t using that by (simp add: same_core_def)
  let ?k = "\<lambda>s. let s = s\<lparr>sc_fragment_buffer := sc_fragment_buffer s @ p\<rparr> in if fin then finish_fragments E s else (s, Active)"
  have k: "same_result E (?k s) (?k t)" if "same_core E s t" for s t
    using same_finish [OF add [OF that]] add [OF that] by (simp add: same_result_iff Let_def)
  have "same_result E
      (case validate E op p s of (s, True) \<Rightarrow> ?k s | (s, False) \<Rightarrow> fail_session E c r (drop_batch s))
      (case validate E op p t of (s, True) \<Rightarrow> ?k s | (s, False) \<Rightarrow> fail_session E c r (drop_batch s))" for op c r
    by (intro same_case_bool same_validate same_fail_drop k assms)
  then show ?thesis
    unfolding handle_continuation_def eq using same_fail_drop [OF assms] same_fail_flush [OF assms] by presburger
qed

lemma same_data:
  assumes "same_core E s t"
  shows "same_result E (handle_data E fin op p s) (handle_data E fin op p t)"
proof -
  have r: "same_core E (reset_validator E op s) (reset_validator E op t)" if "same_core E s t" for s t
    using that by (simp add: reset_validator_def same_core_def)
  let ?start = "\<lambda>s. s\<lparr>sc_fragment_in_progress := True, sc_fragment_opcode := op, sc_fragment_buffer := []\<rparr>"
  have st: "same_core E (?start s) (?start t)" using assms by (simp add: same_core_def)
  have "same_result E (first_fragment E op p s) (first_fragment E op p t)"
    unfolding first_fragment_def Let_def
    by (intro same_case_bool same_validate r same_fail_drop st)
      (auto simp: same_fail_drop same_result_iff same_core_def intro: same_fail_drop [unfolded same_core_def])
  moreover have "same_result E (whole_message E op p s) (whole_message E op p t)"
    unfolding whole_message_def
  proof (intro same_case same_validate r assms)
    fix s t and ok :: bool
    assume st: "same_core E s t"
    then have eq: "sc_utf8 t = sc_utf8 s" by (simp add: same_core_def)
    have "same_result E (case deliver E op p s of (s, ok) \<Rightarrow> (s, if ok then Active else Escaped))
        (case deliver E op p t of (s, ok) \<Rightarrow> (s, if ok then Active else Escaped))"
      by (intro same_case same_deliver st) (simp add: same_result_iff)
    then show "same_result E
        (if \<not> ok \<or> op = Text \<and> \<not> u8_is_valid_end (env_utf8 E) (sc_utf8 s)
         then fail_session E 1007 ''Invalid UTF-8 in text frame'' (drop_batch s)
         else case deliver E op p s of (s, ok) \<Rightarrow> (s, if ok then Active else Escaped))
        (if \<not> ok \<or> op = Text \<and> \<not> u8_is_valid_end (env_utf8 E) (sc_utf8 t)
         then fail_session E 1007 ''Invalid UTF-8 in text frame'' (drop_batch t)
         else case deliver E op p t of (s, ok) \<Rightarrow> (s, if ok then Active else Escaped))"
      unfolding eq using same_fail_drop [OF st] by presburger
  qed
  moreover have "sc_fragment_in_progress t = sc_fragment_in_progress s" using assms by (simp add: same_core_def)
  ultimately show ?thesis
    using same_fail_flush [OF assms] by (simp add: handle_data_def)
qed

lemma same_take_frame:
  assumes "same_core E s t"
  shows "same_result E (take_frame E h raw s) (take_frame E h raw t)"
proof -
  have "same_result E (handle_frame E h p s) (handle_frame E h p t)" for p
    using assms by (cases "fh_opcode h")
      (simp_all add: handle_frame_def same_ping same_close_frame same_continuation same_data same_result_iff)
  then show ?thesis using same_fail [OF assms] by (simp add: take_frame_def)
qed

lemma same_loop:
  "same_core E s t \<Longrightarrow> same_core E (fst (frame_loop E r s)) (fst (frame_loop E r t)) \<and>
     snd (frame_loop E r s) = snd (frame_loop E r t)"
proof (induction "length r" arbitrary: r s t rule: less_induct)
  case less
  show ?case
  proof (cases E r rule: frame_loop_cases)
    case wait
    then show ?thesis using less.prems by simp
  next
    case (error f c m)
    then show ?thesis
      using error(2) [of "[]"] same_fail [OF less.prems, of c m] same_fail_flush [OF less.prems, of c m]
      by (auto simp: same_result_def)
  next
    case (step h p n)
    obtain s1 t1 oc where tf: "take_frame E h p s = (s1, oc)" "take_frame E h p t = (t1, oc)" "same_core E s1 t1"
      using same_take_frame [OF less.prems, of h p]
      by (cases "take_frame E h p s"; cases "take_frame E h p t") (auto simp: same_result_iff)
    show ?thesis
      using less.hyps [OF step(4) same_core_both [OF tf(3) same_flush_full same_flush_full]] tf step(5) [of "[]"] by simp
  qed
qed

end

text \<open>The HTTP/1 connection is steady whatever its engine does.\<close>

interpretation wsc: steady_session "connection_env tier eng V cfg handler echo" for tier eng V cfg handler echo
  by unfold_locales
    (auto simp: connection_env_def conn_transport_def conn_write_frame_def conn_write_raw_def
      conn_send_def conn_close_def conn_is_open_def split: prod.split)

subsection \<open>Batching does not change what is sent\<close>

text \<open>Sending two byte strings one after the other is sending them joined.\<close>

definition additive_transport :: "'t ws_transport \<Rightarrow> bool" where
  "additive_transport T \<longleftrightarrow>
     (\<forall>a b t. a \<noteq> [] \<longrightarrow> b \<noteq> [] \<longrightarrow> snd (tr_write_raw T (a @ b) t) = snd (tr_write_raw T b (snd (tr_write_raw T a t))))"

lemma additive_conn:
  assumes "\<And>a e. eng_send eng a e = (int (length a), e @ a)"
  shows "additive_transport (conn_transport eng)"
  by (simp add: additive_transport_def conn_transport_def conn_write_raw_def conn_send_def assms)

text \<open>Only the built-in echo fills the batch, and it runs only while no callback is registered.\<close>

definition quiet :: "('u, 'v, 't) ws_env \<Rightarrow> ('u, 'v, 't) ws_core \<Rightarrow> bool" where
  "quiet E s \<longleftrightarrow> (sc_batch_out s \<noteq> [] \<longrightarrow> env_echo E = None \<and> no_callbacks (sc_ws s))"

lemma flush_empty: "sc_batch_out s = [] \<Longrightarrow> flush_batch E s = s"
  by (simp add: flush_batch_def)

lemma batch_flush [simp]: "sc_batch_out (flush_batch E s) = []"
  by (simp add: flush_batch_def)

lemma flush_flush [simp]: "flush_batch E (flush_batch E s) = flush_batch E s"
  by (rule flush_empty) simp

lemma flush_flush_full [simp]: "flush_batch E (flush_full E s) = flush_batch E s"
  by (simp add: flush_full_def)

lemma quiet_empty: "sc_batch_out s = [] \<Longrightarrow> quiet E s"
  by (simp add: quiet_def)

lemma quiet_flush_full: "quiet E s \<Longrightarrow> quiet E (flush_full E s)"
  by (simp add: flush_full_def quiet_empty)

text \<open>A step agrees with itself on the flushed state.\<close>

definition flush_agree :: "('u, 'v, 't) ws_env \<Rightarrow> (('u, 'v, 't) ws_core \<Rightarrow> ('u, 'v, 't) ws_core \<times> ws_outcome) \<Rightarrow> ('u, 'v, 't) ws_core \<Rightarrow> bool" where
  "flush_agree E f s \<longleftrightarrow>
     snd (f s) = Active \<longrightarrow>
       quiet E (fst (f s)) \<and> flush_batch E (fst (f (flush_batch E s))) = flush_batch E (fst (f s))"

lemma batch_script: "sc_batch_out (fst (run_callback E p s)) = sc_batch_out s"
  by (simp add: run_callback_def split: prod.split)

lemma batch_optional: "sc_batch_out (fst (run_optional E p s)) = sc_batch_out s"
  by (simp add: run_optional_def batch_script split: option.split)

lemma batch_optional_dest: "run_optional E p s = (s', b) \<Longrightarrow> sc_batch_out s' = sc_batch_out s"
  using batch_optional [of E p s] by simp

lemma deliver_echo:
  assumes "env_echo E = None" "no_callbacks (sc_ws s)"
  shows "deliver E op p s = (s\<lparr>sc_delivered := sc_delivered s @ [(op, p)],
    sc_batch_out := sc_batch_out s @ serialize_frame_header op (length p) True @ p\<rparr>, True)"
  using assms by (simp add: deliver_def)

lemma batch_deliver:
  assumes "\<not> (env_echo E = None \<and> no_callbacks (sc_ws s))"
  shows "sc_batch_out (fst (deliver E op p s)) = sc_batch_out s"
  using assms
  by (auto simp: deliver_def Let_def batch_script batch_optional dest!: batch_optional_dest
      split: option.split prod.split bool.split)

lemma quiet_deliver: "quiet E s \<Longrightarrow> quiet E (fst (deliver E op p s))"
  using batch_deliver [of E s op p]
  by (cases "env_echo E = None \<and> no_callbacks (sc_ws s)") (auto simp: quiet_def deliver_echo)

text \<open>Delivery and flushing commute: the flushed echo goes out before the new one either way.\<close>

lemma serialized_not_Nil [simp]: "serialize_frame_header op n fin \<noteq> []"
  by (simp add: serialize_frame_header_def Let_def)

lemma flush_deliver:
  assumes "additive_transport (env_transport E)" "quiet E s"
  shows "snd (deliver E op p (flush_batch E s)) = snd (deliver E op p s)"
    and "flush_batch E (fst (deliver E op p (flush_batch E s))) = flush_batch E (fst (deliver E op p s))"
proof -
  have *: "deliver E op p (flush_batch E s) = deliver E op p s \<or>
      deliver E op p s = (s\<lparr>sc_delivered := sc_delivered s @ [(op, p)],
        sc_batch_out := sc_batch_out s @ serialize_frame_header op (length p) True @ p\<rparr>, True) \<and>
      deliver E op p (flush_batch E s) = (flush_batch E s\<lparr>sc_delivered := sc_delivered s @ [(op, p)],
        sc_batch_out := serialize_frame_header op (length p) True @ p\<rparr>, True) \<and> sc_batch_out s \<noteq> []"
    using assms(2) deliver_echo [of E s op p] deliver_echo [of E "flush_batch E s" op p]
    by (cases "sc_batch_out s = []") (auto simp: flush_empty quiet_def flush_batch_def no_callbacks_def)
  show "snd (deliver E op p (flush_batch E s)) = snd (deliver E op p s)" using * by auto
  show "flush_batch E (fst (deliver E op p (flush_batch E s))) = flush_batch E (fst (deliver E op p s))"
    using * assms(1) by (auto simp: flush_batch_def additive_transport_def)
qed

text \<open>Updates of the fragment state commute with flushing.\<close>

lemma flush_update:
  "flush_batch E (s\<lparr>sc_fragment_in_progress := a\<rparr>) = flush_batch E s\<lparr>sc_fragment_in_progress := a\<rparr>"
  "flush_batch E (s\<lparr>sc_fragment_opcode := b\<rparr>) = flush_batch E s\<lparr>sc_fragment_opcode := b\<rparr>"
  "flush_batch E (s\<lparr>sc_fragment_buffer := c\<rparr>) = flush_batch E s\<lparr>sc_fragment_buffer := c\<rparr>"
  "flush_batch E (s\<lparr>sc_utf8 := d\<rparr>) = flush_batch E s\<lparr>sc_utf8 := d\<rparr>"
  by (simp_all add: flush_batch_def)

lemma flush_utf8_self [simp]: "flush_batch E s\<lparr>sc_utf8 := sc_utf8 s\<rparr> = flush_batch E s"
  by (simp add: flush_batch_def)

lemma flush_fields [simp]:
  "sc_fragment_in_progress (flush_batch E s) = sc_fragment_in_progress s"
  "sc_fragment_opcode (flush_batch E s) = sc_fragment_opcode s"
  "sc_fragment_buffer (flush_batch E s) = sc_fragment_buffer s"
  "sc_utf8 (flush_batch E s) = sc_utf8 s"
  "sc_delivered (flush_batch E s) = sc_delivered s"
  "sc_is_closed (flush_batch E s) = sc_is_closed s"
  by (simp_all add: flush_batch_def)

lemma fail_closed [simp]: "snd (fail_session E c r s) = Closed"
  by (simp add: fail_session_def)

lemma agree_finish:
  assumes "additive_transport (env_transport E)" "quiet E s"
  shows "flush_agree E (finish_fragments E) s"
proof -
  let ?s = "s\<lparr>sc_fragment_in_progress := False\<rparr>"
  have q: "quiet E ?s" using assms(2) by (simp add: quiet_def)
  obtain s1 b where d: "deliver E (sc_fragment_opcode s) (sc_fragment_buffer s) ?s = (s1, b)" by fastforce
  obtain s2 b2 where d2: "deliver E (sc_fragment_opcode s) (sc_fragment_buffer s) (flush_batch E ?s) = (s2, b2)" by fastforce
  note fd = flush_deliver [OF assms(1) q, of "sc_fragment_opcode s" "sc_fragment_buffer s"]
  have "b2 = b" "flush_batch E s2 = flush_batch E s1" "quiet E s1"
    using fd quiet_deliver [OF q, of "sc_fragment_opcode s" "sc_fragment_buffer s"] by (simp_all add: d d2)
  then show ?thesis
    using d d2 by (auto simp: flush_agree_def finish_fragments_def Let_def flush_update quiet_def split: bool.split)
qed

lemma agree_continuation:
  assumes "additive_transport (env_transport E)" "quiet E s"
  shows "flush_agree E (handle_continuation E fin p) s"
proof -
  let ?v = "if sc_fragment_opcode s = Text then snd (u8_update (env_utf8 E) (sc_utf8 s) p) else sc_utf8 s"
  let ?s = "s\<lparr>sc_utf8 := ?v, sc_fragment_buffer := sc_fragment_buffer s @ p\<rparr>"
  have q: "quiet E ?s" using assms(2) by (simp add: quiet_def)
  have "snd (handle_continuation E fin p s) = Active \<Longrightarrow>
      handle_continuation E fin p s = (if fin then finish_fragments E ?s else (?s, Active)) \<and>
      handle_continuation E fin p (flush_batch E s) = (if fin then finish_fragments E (flush_batch E ?s) else (flush_batch E ?s, Active))"
    by (auto simp: handle_continuation_def validate_def Let_def flush_update split: if_splits prod.splits bool.splits)
  then show ?thesis
    using agree_finish [OF assms(1) q] q by (auto simp: flush_agree_def)
qed

lemma agree_data:
  assumes "additive_transport (env_transport E)" "quiet E s"
  shows "flush_agree E (handle_data E fin op p) s"
proof -
  let ?v = "if op = Text then snd (u8_update (env_utf8 E) (u8_reset (env_utf8 E)) p) else sc_utf8 s"
  let ?s = "s\<lparr>sc_utf8 := ?v\<rparr>"
  let ?f = "s\<lparr>sc_fragment_in_progress := True, sc_fragment_opcode := op, sc_fragment_buffer := p, sc_utf8 := ?v\<rparr>"
  let ?d = "\<lambda>s. case deliver E op p s of (s, ok) \<Rightarrow> (s, if ok then Active else Escaped)"
  have q: "quiet E ?s" "quiet E ?f" using assms(2) by (simp_all add: quiet_def)
  have "snd (handle_data E fin op p s) = Active \<Longrightarrow>
      handle_data E fin op p s = (if fin then ?d ?s else (?f, Active)) \<and>
      handle_data E fin op p (flush_batch E s) = (if fin then ?d (flush_batch E ?s) else (flush_batch E ?f, Active))"
    by (auto simp: handle_data_def whole_message_def first_fragment_def validate_def reset_validator_def Let_def flush_update
        split: if_splits prod.splits bool.splits)
  then show ?thesis
    using flush_deliver [OF assms(1) q(1), of op p] quiet_deliver [OF q(1), of op p] q
    by (auto simp: flush_agree_def split: prod.split)
qed

lemma close_not_active: "snd (handle_close E p s) \<noteq> Active"
  by (simp add: handle_close_def finish_close_def Let_def split: prod.split bool.split)

lemma agree_frame:
  assumes "additive_transport (env_transport E)" "quiet E s"
  shows "flush_agree E (handle_frame E h p) s"
proof (cases "fh_opcode h")
  case Ping
  have "sc_batch_out (fst (handle_ping E p s)) = []"
    by (auto simp: handle_ping_def Let_def dest!: batch_optional_dest split: prod.split)
  moreover have "handle_ping E p (flush_batch E s) = handle_ping E p s" by (simp add: handle_ping_def)
  ultimately show ?thesis using Ping by (simp add: flush_agree_def handle_frame_def quiet_empty)
next
  case Close
  then show ?thesis using close_not_active [of E p s] by (simp add: flush_agree_def handle_frame_def)
next
  case Pong
  then show ?thesis using assms(2) by (simp add: flush_agree_def handle_frame_def)
qed (use agree_continuation [OF assms] agree_data [OF assms] in \<open>simp_all add: flush_agree_def handle_frame_def\<close>)

lemma agree_take_frame:
  assumes "additive_transport (env_transport E)" "quiet E s"
  shows "flush_agree E (take_frame E h raw) s"
  using agree_frame [OF assms, of h] by (simp add: flush_agree_def take_frame_def)

context steady_session
begin

lemma same_of_flush:
  assumes "flush_batch E s = flush_batch E t"
  shows "same_core E s t"
  using same_flush [of s] same_flush [of t] same_core_trans same_core_sym assms by metis

lemma loop_flush:
  assumes add: "additive_transport (env_transport E)"
  shows "quiet E s \<Longrightarrow> quiet E t \<Longrightarrow> flush_batch E s = flush_batch E t \<Longrightarrow> frame_loop E r s = (s', Active, rem) \<Longrightarrow>
    quiet E s' \<and> (\<exists>t'. frame_loop E r t = (t', Active, rem) \<and> flush_batch E t' = flush_batch E s')"
proof (induction "length r" arbitrary: r s t rule: less_induct)
  case less
  show ?case
  proof (cases E r rule: frame_loop_cases)
    case wait
    then show ?thesis using less.prems by auto
  next
    case (error f c m)
    then show ?thesis using less.prems(4) error(2) [of "[]" s] by simp
  next
    case (step h p n)
    obtain s1 t1 oc where tf: "take_frame E h p s = (s1, oc)" "take_frame E h p t = (t1, oc)"
      using same_take_frame [OF same_of_flush [OF less.prems(3)], of h p]
      by (cases "take_frame E h p s"; cases "take_frame E h p t") (auto simp: same_result_iff)
    have oc: "oc = Active" and s: "frame_loop E (drop n r) (flush_full E s1) = (s', Active, rem)"
      using less.prems(4) step(5) [of "[]" s] tf(1) by (auto split: if_splits)
    have "quiet E s1" "quiet E t1" "flush_batch E s1 = flush_batch E t1"
      using agree_take_frame [OF add less.prems(1), of h p] agree_take_frame [OF add less.prems(2), of h p] less.prems(3)
      by (simp_all add: flush_agree_def tf oc)
    then show ?thesis
      using less.hyps [OF step(4) _ _ _ s, of "flush_full E t1"] step(5) [of "[]" t] tf(2) oc by (simp add: quiet_flush_full)
  qed
qed

end

text \<open>The closed flag is set exactly when a step ends the session.\<close>

lemma closed_optional: "sc_is_closed (fst (run_optional E p s)) = sc_is_closed s"
  by (simp add: run_optional_def run_callback_def split: option.split prod.split)

lemma closed_optional_dest: "run_optional E p s = (s', b) \<Longrightarrow> sc_is_closed s' = sc_is_closed s"
  using closed_optional [of E p s] by simp

lemma closed_deliver_dest: "deliver E op p s = (s', b) \<Longrightarrow> sc_is_closed s' = sc_is_closed s"
  using closed_optional [of E]
  by (auto simp: deliver_def Let_def run_callback_def dest!: closed_optional_dest
      split: option.splits prod.splits bool.splits if_splits)

lemma closed_fail [simp]: "sc_is_closed (fst (fail_session E c m s))"
  by (simp add: fail_session_def)

lemma closed_finish:
  "sc_is_closed (fst (finish_fragments E s)) \<longleftrightarrow> sc_is_closed s \<or> snd (finish_fragments E s) = Closed"
  by (auto simp: finish_fragments_def Let_def dest!: closed_deliver_dest split: prod.split bool.split)

lemma closed_take_frame:
  "sc_is_closed (fst (take_frame E h raw s)) \<longleftrightarrow> sc_is_closed s \<or> snd (take_frame E h raw s) = Closed"
proof -
  have "sc_is_closed (fst (handle_ping E p s)) \<longleftrightarrow> sc_is_closed s \<or> snd (handle_ping E p s) = Closed" for p
    by (auto simp: handle_ping_def Let_def dest!: closed_optional_dest split: prod.split)
  moreover have "sc_is_closed (fst (handle_close E p s)) \<longleftrightarrow> sc_is_closed s \<or> snd (handle_close E p s) = Closed" for p
    by (auto simp: handle_close_def finish_close_def Let_def dest!: closed_optional_dest split: prod.split bool.split)
  moreover have "sc_is_closed (fst (handle_continuation E fin p s)) \<longleftrightarrow> sc_is_closed s \<or> snd (handle_continuation E fin p s) = Closed" for fin p
    by (auto simp: handle_continuation_def validate_def Let_def closed_finish split: prod.split bool.split)
  moreover have "sc_is_closed (fst (handle_data E fin op p s)) \<longleftrightarrow> sc_is_closed s \<or> snd (handle_data E fin op p s) = Closed" for fin op p
    by (auto simp: handle_data_def whole_message_def first_fragment_def validate_def reset_validator_def Let_def
        dest!: closed_deliver_dest split: prod.split bool.split)
  ultimately have "sc_is_closed (fst (handle_frame E h p s)) \<longleftrightarrow> sc_is_closed s \<or> snd (handle_frame E h p s) = Closed" for p
    by (cases "fh_opcode h") (simp_all add: handle_frame_def)
  then show ?thesis by (simp add: take_frame_def)
qed

lemma closed_loop:
  "sc_is_closed (fst (frame_loop E r s)) \<longleftrightarrow> sc_is_closed s \<or> fst (snd (frame_loop E r s)) = Closed"
proof (induction "length r" arbitrary: r s rule: less_induct)
  case less
  show ?case
  proof (cases E r rule: frame_loop_cases)
    case wait
    then show ?thesis by simp
  next
    case (error f c m)
    then show ?thesis using error(2) [of "[]" s] by simp
  next
    case (step h p n)
    obtain s1 oc where tf: "take_frame E h p s = (s1, oc)" by fastforce
    then show ?thesis
      using less [OF step(4), of "flush_full E s1"] step(5) [of "[]" s] closed_take_frame [of E h p s]
      by (auto simp: flush_full_def)
  qed
qed

subsection \<open>Segmentation\<close>

text \<open>What the application observes of a session: the messages, its own state, and what is closed.\<close>

definition application_view :: "('u, 'v, 't) ws_session \<Rightarrow> (opcode \<times> string) list \<times> 'u \<times> bool \<times> bool" where
  "application_view S = (sc_delivered (se_core S), ws_user (sc_ws (se_core S)), ws_open (sc_ws (se_core S)), sc_is_closed (se_core S))"

lemma same_core_view:
  "same_core E (se_core S) (se_core S') \<Longrightarrow> application_view S = application_view S'"
  by (simp add: application_view_def same_core_def same_socket_def)

text \<open>A session that is running, from the point where its handler has run.\<close>

definition feed :: "('u, 'v, 't) ws_env \<Rightarrow> string \<Rightarrow> ('u, 'v, 't) ws_session \<Rightarrow> ('u, 'v, 't) ws_session \<times> ws_outcome" where
  "feed E data S =
     (case frame_loop E (se_stream_buf S @ data) (drop_batch (se_core S)) of
        (s, oc, remaining) \<Rightarrow>
          if oc = Active then (S\<lparr>se_core := flush_batch E s, se_stream_buf := remaining\<rparr>, Active)
          else (S\<lparr>se_core := s, se_stream_buf := if se_stream_buf S = [] then [] else se_stream_buf S @ data\<rparr>, oc))"

lemma process_feed:
  "process_incoming_data E data S =
     (if sc_is_closed (se_core S) then (S, Closed)
      else if snd (initialize E S) then feed E data (fst (initialize E S)) else (fst (initialize E S), Closed))"
  by (auto simp: process_incoming_data_def feed_def Let_def split: prod.split bool.split ws_outcome.split)

lemma initialize_again: "initialize E (fst (initialize E S)) = (fst (initialize E S), True)"
  by (auto simp: initialize_def Let_def split: option.split prod.split bool.split)

lemma initialize_initialized: "se_initialized S \<Longrightarrow> initialize E S = (S, True)"
  by (simp add: initialize_def)

lemma initialize_closed:
  "\<not> sc_is_closed (se_core S) \<Longrightarrow> sc_is_closed (se_core (fst (initialize E S))) \<longleftrightarrow> \<not> snd (initialize E S)"
  by (auto simp: initialize_def run_callback_def Let_def split: option.split prod.split bool.split)

lemma feed_initialized: "se_initialized (fst (feed E d S)) = se_initialized S"
  by (simp add: feed_def split: prod.split)

lemma initialize_sets: "se_initialized (fst (initialize E S))"
  by (auto simp: initialize_def Let_def split: option.split prod.split bool.split)

lemma feed_closed:
  "sc_is_closed (se_core (fst (feed E d S))) \<longleftrightarrow> sc_is_closed (se_core S) \<or> snd (feed E d S) = Closed"
  using closed_loop [of E "se_stream_buf S @ d" "drop_batch (se_core S)"]
  by (auto simp: feed_def drop_batch_def split: prod.split)

lemma feed_not_active:
  assumes "feed E d1 S = (S1, oc)" "oc \<noteq> Active"
  shows "snd (feed E (d1 @ d2) S) = oc \<and> se_core (fst (feed E (d1 @ d2) S)) = se_core S1"
  using assms frame_loop_append [of E "se_stream_buf S @ d1" "drop_batch (se_core S)" _ _ _ d2]
  by (fastforce simp: feed_def split: prod.splits if_splits)

lemma drop_empty: "sc_batch_out s = [] \<Longrightarrow> drop_batch s = s"
  by (simp add: drop_batch_def)

context steady_session
begin

lemma feed_append:
  assumes f1: "feed E d1 S = (S1, Active)"
  shows "snd (feed E d2 S1) = snd (feed E (d1 @ d2) S) \<and>
    application_view (fst (feed E d2 S1)) = application_view (fst (feed E (d1 @ d2) S)) \<and>
    (additive_transport (env_transport E) \<longrightarrow> snd (feed E d2 S1) = Active \<longrightarrow> fst (feed E d2 S1) = fst (feed E (d1 @ d2) S))"
proof -
  let ?s = "drop_batch (se_core S)"
  obtain s1 r1 where l1: "frame_loop E (se_stream_buf S @ d1) ?s = (s1, Active, r1)"
    and S1: "S1 = S\<lparr>se_core := flush_batch E s1, se_stream_buf := r1\<rparr>"
    using f1 by (auto simp: feed_def split: prod.splits if_splits)
  have whole: "frame_loop E (se_stream_buf S @ d1 @ d2) ?s = frame_loop E (r1 @ d2) s1"
    using frame_loop_append [OF l1, of d2] by simp
  obtain s' oc r' where w: "frame_loop E (r1 @ d2) s1 = (s', oc, r')" by (cases "frame_loop E (r1 @ d2) s1") auto
  have sm: "same_core E s' (fst (frame_loop E (r1 @ d2) (flush_batch E s1)))" "snd (frame_loop E (r1 @ d2) (flush_batch E s1)) = (oc, r')"
    using same_loop [OF same_flush, of "r1 @ d2" s1] w by auto
  then obtain t where t: "frame_loop E (r1 @ d2) (flush_batch E s1) = (t, oc, r')" "same_core E s' t"
    by (cases "frame_loop E (r1 @ d2) (flush_batch E s1)") auto
  have eq: "flush_batch E t = flush_batch E s'" if "additive_transport (env_transport E)" "oc = Active"
  proof -
    have "quiet E ?s" by (simp add: quiet_def drop_batch_def)
    then have "quiet E s1" using loop_flush [OF that(1) _ _ refl l1] by blast
    then have "\<exists>t'. frame_loop E (r1 @ d2) (flush_batch E s1) = (t', Active, r') \<and> flush_batch E t' = flush_batch E s'"
      using loop_flush [OF that(1), of s1 "flush_batch E s1" "r1 @ d2" s' r'] w that(2) by (simp add: quiet_empty)
    then show ?thesis using t(1) by auto
  qed
  have v: "same_core E (flush_batch E s') (flush_batch E t)" "same_core E s' t"
    using t(2) same_core_both same_flush by blast+
  show ?thesis
    using whole w t(1) v eq
    by (auto simp: feed_def S1 drop_empty intro!: same_core_view [symmetric])
qed

end

text \<open>
  C9: A session does not depend on how TCP cut the bytes. On the HTTP/1 connection, whatever its
  engine does, feeding two reads gives the same outcome as feeding them joined, and the application
  sees the same: the same messages in the same order, its own state, and which side is closed. When
  the engine sends what it is given and the session stays open, even the whole states agree,
  buffered bytes and bytes on the wire included.
\<close>

theorem websocket_segmentation:
  fixes tier eng V cfg handler echo
  defines "E \<equiv> connection_env tier eng V cfg handler echo"
  assumes "snd (process_incoming_data E d1 S) \<noteq> Escaped"
  shows "snd (process_incoming_data E d2 (fst (process_incoming_data E d1 S))) = snd (process_incoming_data E (d1 @ d2) S) \<and>
    application_view (fst (process_incoming_data E d2 (fst (process_incoming_data E d1 S)))) =
      application_view (fst (process_incoming_data E (d1 @ d2) S)) \<and>
    ((\<forall>a e. eng_send eng a e = (int (length a), e @ a)) \<longrightarrow> snd (process_incoming_data E (d1 @ d2) S) = Active \<longrightarrow>
      fst (process_incoming_data E d2 (fst (process_incoming_data E d1 S))) = fst (process_incoming_data E (d1 @ d2) S))"
proof -
  define S0 where "S0 = fst (initialize E S)"
  show ?thesis
  proof (cases "sc_is_closed (se_core S) \<or> \<not> snd (initialize E S)")
    case True
    then show ?thesis
      using initialize_closed [of S E] by (auto simp: process_feed)
  next
    case False
    then have p: "process_incoming_data E d S = feed E d S0" for d by (simp add: process_feed S0_def)
    obtain S1 oc where f: "feed E d1 S0 = (S1, oc)" by fastforce
    have i: "\<not> sc_is_closed (se_core S0)" "se_initialized S1"
      using False initialize_closed [of S E] feed_initialized [of E d1 S0] f initialize_sets [of E S] by (simp_all add: S0_def)
    show ?thesis
    proof (cases "oc = Active")
      case True
      then have "\<not> sc_is_closed (se_core S1)" using feed_closed [of E d1 S0] f i(1) by simp
      then have "process_incoming_data E d2 S1 = feed E d2 S1"
        using i(2) by (simp add: process_feed initialize_initialized)
      moreover note wsc.feed_append [of tier eng V cfg handler echo d1 S0 S1 d2, folded E_def]
      moreover have "additive_transport (env_transport E)" if "\<forall>a e. eng_send eng a e = (int (length a), e @ a)"
        using additive_conn [of eng] that by (simp add: E_def connection_env_def)
      ultimately show ?thesis using f True by (simp add: p)
    next
      case False
      then have "oc = Closed" using assms(2) f by (cases oc) (simp_all add: p)
      moreover from this have "process_incoming_data E d2 S1 = (S1, Closed)"
        using feed_closed [of E d1 S0] f by (simp add: process_feed)
      ultimately show ?thesis
        using feed_not_active [OF f, of d2] f by (simp add: p application_view_def)
    qed
  qed
qed

text \<open>A validator for plain ASCII, an engine that sends everything, and the default limits, for examples.\<close>

definition ascii_validator :: "unit utf8_validator" where
  "ascii_validator = \<lparr>u8_reset = (), u8_update = (\<lambda>_ s. (list_all (\<lambda>c. u8 c < 128) s, ())),
     u8_is_valid_end = (\<lambda>_. True), is_valid_utf8 = list_all (\<lambda>c. u8 c < 128)\<rparr>"

definition wire_engine :: "string io_engine" where
  "wire_engine = \<lparr>eng_send = (\<lambda>s e. (int (length s), e @ s)), eng_send_all = (\<lambda>s e. (int (length s), e @ s))\<rparr>"

definition example_env :: "(unit, unit, string ws_connection) ws_env" where
  "example_env = connection_env Scalar wire_engine ascii_validator
     \<lparr>max_message_size = 16, max_frame_size = 16, require_masked_frames = True\<rparr> None None"

definition example_session :: "(unit, unit, string ws_connection) ws_session" where
  "example_session = session_init example_env \<lparr>wc_is_open = True, wc_fd_valid = True, wc_engine = []\<rparr> ()"

definition hi_frame :: string where
  "hi_frame = map char_of [0x81 :: nat, 0x82, 0, 0, 0, 0] @ ''hi''"

definition big_header :: string where
  "big_header = map char_of [0x82 :: nat, 0xC0, 0, 0, 0, 0]"

theorem websocket_segmentation_witness:
  "application_view (fst (process_incoming_data example_env (hi_frame @ big_header)
      (fst (process_incoming_data example_env ''x'' example_session)))) =
    application_view (fst (process_incoming_data example_env (''x'' @ hi_frame @ big_header) example_session))"
proof -
  have l: "frame_loop example_env ''x'' (drop_batch (se_core example_session)) = (drop_batch (se_core example_session), Active, ''x'')"
    by (simp add: frame_loop.simps [of _ "''x''"] parse_frame_header_def)
  have "snd (process_incoming_data example_env ''x'' example_session) = Active"
    using l by (simp add: process_incoming_data_def example_session_def session_init_def initialize_def
        example_env_def connection_env_def)
  then show ?thesis
    using websocket_segmentation [where tier = Scalar and eng = wire_engine and V = ascii_validator and handler = None and
        echo = None and cfg = "\<lparr>max_message_size = 16, max_frame_size = 16, require_masked_frames = True\<rparr>" and
        ?d1.0 = "''x''" and ?d2.0 = "hi_frame @ big_header" and S = example_session]
    by (simp add: example_env_def)
qed

end
