(* ===== verification/WebSocket_Messages.thy ===== *)
theory WebSocket_Messages
  imports WebSocket_Proofs
begin

text \<open>
  The invariant of a session: the messages it delivered are text or binary, within the configured
  size, and text is valid UTF-8; a message in progress is consistent with the validator; and no
  complete frame waits in the buffer.
\<close>

subsection \<open>Messages are complete, bounded and valid\<close>

text \<open>The law of the streaming validator: text it accepted piece by piece and to the end is valid.\<close>

primrec consume_all :: "'v utf8_validator \<Rightarrow> 'v \<Rightarrow> string list \<Rightarrow> 'v option" where
  "consume_all V v [] = Some v"
| "consume_all V v (s # ss) = (case u8_update V v s of (ok, v) \<Rightarrow> if ok then consume_all V v ss else None)"

lemma consume_all_snoc:
  "consume_all V v (ss @ [s]) = (case consume_all V v ss of None \<Rightarrow> None | Some v \<Rightarrow> (case u8_update V v s of (ok, v) \<Rightarrow> if ok then Some v else None))"
  by (induction ss arbitrary: v) (auto split: prod.split)

definition validator_sound :: "'v utf8_validator \<Rightarrow> bool" where
  "validator_sound V \<longleftrightarrow>
     (\<forall>chunks v. consume_all V (u8_reset V) chunks = Some v \<and> u8_is_valid_end V v \<longrightarrow> is_valid_utf8 V (concat chunks))"

definition message_ok :: "('u, 'v, 't) ws_env \<Rightarrow> opcode \<times> string \<Rightarrow> bool" where
  "message_ok E m \<longleftrightarrow>
     fst m \<in> {Text, Binary} \<and> length (snd m) \<le> max_message_size (env_config E) \<and>
     (fst m = Text \<longrightarrow> is_valid_utf8 (env_utf8 E) (snd m))"

definition core_inv :: "('u, 'v, 't) ws_env \<Rightarrow> ('u, 'v, 't) ws_core \<Rightarrow> bool" where
  "core_inv E s \<longleftrightarrow>
     (\<forall>m \<in> set (sc_delivered s). message_ok E m) \<and>
     (\<not> sc_is_closed s \<and> sc_fragment_in_progress s \<longrightarrow>
        sc_fragment_opcode s \<in> {Text, Binary} \<and> length (sc_fragment_buffer s) \<le> max_message_size (env_config E) \<and>
        (sc_fragment_opcode s = Text \<longrightarrow>
           (\<exists>chunks. concat chunks = sc_fragment_buffer s \<and>
              consume_all (env_utf8 E) (u8_reset (env_utf8 E)) chunks = Some (sc_utf8 s))))"

lemma inv_update_ws [simp]:
  "core_inv E (s\<lparr>sc_ws := w\<rparr>) = core_inv E s" "core_inv E (s\<lparr>sc_batch_out := b\<rparr>) = core_inv E s"
  by (simp_all add: core_inv_def)

lemma inv_flush [simp]: "core_inv E (flush_batch E s) = core_inv E s" "core_inv E (flush_full E s) = core_inv E s"
    "core_inv E (drop_batch s) = core_inv E s"
  by (simp_all add: flush_batch_def flush_full_def drop_batch_def)

lemma inv_fail [simp]: "core_inv E (fst (fail_session E c m s)) \<longleftrightarrow> (\<forall>m \<in> set (sc_delivered s). message_ok E m)"
  by (simp add: fail_session_def core_inv_def)

lemma delivered_batch [simp]:
  "sc_delivered (drop_batch s) = sc_delivered s" "sc_delivered (fst (fail_session E c m s)) = sc_delivered s"
  by (simp_all add: drop_batch_def fail_session_def)

lemma inv_delivered: "core_inv E s \<Longrightarrow> \<forall>m \<in> set (sc_delivered s). message_ok E m"
  by (simp add: core_inv_def)

lemma inv_callback: "core_inv E (fst (run_callback E p s)) = core_inv E s"
  by (simp add: run_callback_def split: prod.split)

lemma inv_optional_dest: "run_optional E p s = (s', b) \<Longrightarrow> core_inv E s' = core_inv E s"
  using inv_callback [of E] by (auto simp: run_optional_def split: option.splits) (metis fst_conv)+

text \<open>Delivery logs the message and leaves the fragment state alone.\<close>

definition fragment_state where
  "fragment_state s = (\<not> sc_is_closed s \<and> sc_fragment_in_progress s, sc_fragment_opcode s, sc_fragment_buffer s, sc_utf8 s)"

lemma optional_frame: "run_optional E p s = (s', b) \<Longrightarrow> fragment_state s' = fragment_state s \<and> sc_delivered s' = sc_delivered s"
  by (auto simp: run_optional_def run_callback_def fragment_state_def split: option.splits prod.splits)

lemma callback_frame: "run_callback E p s = (s', b) \<Longrightarrow> fragment_state s' = fragment_state s \<and> sc_delivered s' = sc_delivered s"
  by (auto simp: run_callback_def fragment_state_def split: prod.splits)

lemma deliver_frame:
  assumes "deliver E op p s = (s', b)"
  shows "fragment_state s' = fragment_state s \<and> sc_delivered s' = sc_delivered s @ [(op, p)]"
proof -
  let ?l = "s\<lparr>sc_delivered := sc_delivered s @ [(op, p)]\<rparr>"
  have "fragment_state ?l = fragment_state s" by (simp add: fragment_state_def)
  moreover have "fragment_state (?l\<lparr>sc_batch_out := x\<rparr>) = fragment_state s" for x by (simp add: fragment_state_def)
  ultimately show ?thesis
    using assms
    by (auto simp: deliver_def Let_def dest!: optional_frame callback_frame
        split: option.splits prod.splits bool.splits if_splits)
qed

lemma core_inv_fragment:
  "core_inv E s \<longleftrightarrow> (\<forall>m \<in> set (sc_delivered s). message_ok E m) \<and>
    (case fragment_state s of (prog, op, buf, v) \<Rightarrow> prog \<longrightarrow>
       op \<in> {Text, Binary} \<and> length buf \<le> max_message_size (env_config E) \<and>
       (op = Text \<longrightarrow> (\<exists>chunks. concat chunks = buf \<and> consume_all (env_utf8 E) (u8_reset (env_utf8 E)) chunks = Some v)))"
  by (simp add: core_inv_def fragment_state_def)

lemma inv_deliver:
  assumes "deliver E op p s = (s', b)" "core_inv E s" "message_ok E (op, p)"
  shows "core_inv E s'"
  using deliver_frame [OF assms(1)] assms(2,3) by (auto simp: core_inv_fragment)

lemma inv_finish:
  assumes V: "validator_sound (env_utf8 E)" and i: "core_inv E s" and p: "sc_fragment_in_progress s" "\<not> sc_is_closed s"
  shows "core_inv E (fst (finish_fragments E s))"
proof (cases "sc_fragment_opcode s = Text \<and> \<not> u8_is_valid_end (env_utf8 E) (sc_utf8 s)")
  case True
  then show ?thesis using inv_delivered [OF i] by (simp add: finish_fragments_def)
next
  case False
  have "message_ok E (sc_fragment_opcode s, sc_fragment_buffer s)"
    using i p V False by (auto simp: core_inv_def message_ok_def validator_sound_def)
  moreover have "core_inv E (s\<lparr>sc_fragment_in_progress := False\<rparr>)" using i by (simp add: core_inv_def)
  moreover obtain s1 b where d: "deliver E (sc_fragment_opcode s) (sc_fragment_buffer s) (s\<lparr>sc_fragment_in_progress := False\<rparr>) = (s1, b)"
    by fastforce
  ultimately have "core_inv E s1" "sc_is_closed s1 \<or> \<not> sc_fragment_in_progress s1"
    using inv_deliver [OF d] deliver_frame [OF d] by (auto simp: fragment_state_def)
  then show ?thesis
    using False d by (cases b) (auto simp: finish_fragments_def Let_def core_inv_def)
qed

text \<open>Text that the validator accepted after the chunks before it.\<close>

lemma validate_text:
  assumes "validate E op p s = (s', True)"
  shows "s' = s\<lparr>sc_utf8 := sc_utf8 s'\<rparr>" "op = Text \<Longrightarrow> u8_update (env_utf8 E) (sc_utf8 s) p = (True, sc_utf8 s')"
    "op \<noteq> Text \<Longrightarrow> s' = s"
  using assms by (auto simp: validate_def split: if_splits prod.splits)

lemma validate_delivered: "validate E op p s = (s', ok) \<Longrightarrow> sc_delivered s' = sc_delivered s \<and> sc_is_closed s' = sc_is_closed s"
  by (auto simp: validate_def split: if_splits prod.splits)

lemma inv_continuation:
  assumes V: "validator_sound (env_utf8 E)" and i: "core_inv E s" and live: "\<not> sc_is_closed s"
  shows "core_inv E (fst (handle_continuation E fin p s))"
proof (cases "sc_fragment_in_progress s \<and> length (sc_fragment_buffer s) + length p \<le> max_message_size (env_config E)")
  case False
  then show ?thesis using inv_delivered [OF i] by (auto simp: handle_continuation_def)
next
  case True
  obtain s1 ok where v: "validate E (sc_fragment_opcode s) p s = (s1, ok)" by fastforce
  let ?s = "s1\<lparr>sc_fragment_buffer := sc_fragment_buffer s1 @ p\<rparr>"
  show ?thesis
  proof (cases ok)
    case False
    then show ?thesis using True v validate_delivered [OF v] inv_delivered [OF i] by (auto simp: handle_continuation_def)
  next
    case ok: True
    then have "validate E (sc_fragment_opcode s) p s = (s1, True)" using v by simp
    note t = validate_text [OF this]
    have f: "sc_fragment_in_progress s1 = sc_fragment_in_progress s" "sc_fragment_buffer s1 = sc_fragment_buffer s"
      "sc_fragment_opcode s1 = sc_fragment_opcode s" by (subst t(1), simp)+
    have "\<exists>chunks. concat chunks = sc_fragment_buffer s @ p \<and>
        consume_all (env_utf8 E) (u8_reset (env_utf8 E)) chunks = Some (sc_utf8 s1)" if tx: "sc_fragment_opcode s = Text"
    proof -
      obtain chunks where "concat chunks = sc_fragment_buffer s"
        "consume_all (env_utf8 E) (u8_reset (env_utf8 E)) chunks = Some (sc_utf8 s)"
        using i tx True live by (auto simp: core_inv_def)
      then show ?thesis using t(2) [OF tx] by (intro exI [of _ "chunks @ [p]"]) (simp add: consume_all_snoc)
    qed
    then have "core_inv E ?s"
      using i True live f validate_delivered [OF v] by (simp add: core_inv_def)
    then show ?thesis
      using True v ok inv_finish [OF V, of ?s] f validate_delivered [OF v] live
      by (auto simp: handle_continuation_def Let_def)
  qed
qed

lemma inv_data:
  assumes V: "validator_sound (env_utf8 E)" and i: "core_inv E s" and live: "\<not> sc_is_closed s"
    and op: "op \<in> {Text, Binary}" and n: "length p \<le> max_message_size (env_config E)"
  shows "core_inv E (fst (handle_data E fin op p s))"
proof (cases "sc_fragment_in_progress s")
  case True
  then show ?thesis using inv_delivered [OF i] by (simp add: handle_data_def)
next
  case idle: False
  have whole: "core_inv E (fst (whole_message E op p s))"
  proof -
    obtain s1 ok where v: "validate E op p (reset_validator E op s) = (s1, ok)" by fastforce
    have r: "sc_delivered s1 = sc_delivered s" "sc_is_closed s1 = sc_is_closed s" "sc_fragment_in_progress s1 = sc_fragment_in_progress s"
      using v by (auto simp: reset_validator_def validate_def split: if_splits prod.splits)
    show ?thesis
    proof (cases "\<not> ok \<or> op = Text \<and> \<not> u8_is_valid_end (env_utf8 E) (sc_utf8 s1)")
      case True
      then show ?thesis using v r inv_delivered [OF i] by (simp add: whole_message_def)
    next
      case False
      have "consume_all (env_utf8 E) (u8_reset (env_utf8 E)) [p] = Some (sc_utf8 s1)" if "op = Text"
        using v False that by (auto simp: reset_validator_def validate_def split: prod.splits)
      then have "message_ok E (op, p)"
        using False V op n unfolding validator_sound_def message_ok_def by (fastforce simp del: consume_all.simps)
      moreover have "core_inv E s1" using inv_delivered [OF i] r idle by (simp add: core_inv_def)
      ultimately show ?thesis
        using v False inv_deliver [of E op p s1] by (auto simp: whole_message_def split: prod.split)
    qed
  qed
  have first: "core_inv E (fst (first_fragment E op p s))"
  proof -
    let ?s = "s\<lparr>sc_fragment_in_progress := True, sc_fragment_opcode := op, sc_fragment_buffer := []\<rparr>"
    obtain s1 ok where v: "validate E op p (reset_validator E op ?s) = (s1, ok)" by fastforce
    have r: "sc_delivered s1 = sc_delivered s" "sc_fragment_opcode s1 = op"
      using v by (auto simp: reset_validator_def validate_def split: if_splits prod.splits)
    have "consume_all (env_utf8 E) (u8_reset (env_utf8 E)) [p] = Some (sc_utf8 s1)" if "op = Text" ok
      using v that by (auto simp: reset_validator_def validate_def split: prod.splits)
    then have "\<exists>chunks. concat chunks = p \<and> consume_all (env_utf8 E) (u8_reset (env_utf8 E)) chunks = Some (sc_utf8 s1)"
      if "op = Text" ok using that by (intro exI [of _ "[p]"]) (simp del: consume_all.simps)
    then show ?thesis
      using v r inv_delivered [OF i] op n
      by (cases ok) (auto simp: first_fragment_def core_inv_def)
  qed
  show ?thesis using whole first idle by (simp add: handle_data_def)
qed

lemma inv_take_frame:
  assumes V: "validator_sound (env_utf8 E)" and i: "core_inv E s" and live: "\<not> sc_is_closed s"
    and k: "length (fh_mask_key h) = 4" and n: "length raw \<le> max_message_size (env_config E)"
  shows "core_inv E (fst (take_frame E h raw s))"
proof -
  have u: "length (unmasked t (fh_mask_key h) raw) = length raw" for t
    using k by (simp add: unmasked_def unmask_payload_upto)
  have ping: "core_inv E (fst (handle_ping E p s))" for p
    using i by (auto simp: handle_ping_def Let_def dest!: inv_optional_dest split: prod.split)
  have "core_inv E (fst (finish_close E code reason s))" for code reason
  proof -
    obtain s1 b where r: "run_optional E (map_option (\<lambda>f. f code reason) (ws_close_cb (sc_ws s))) s = (s1, b)" by fastforce
    then have "core_inv E s1" "sc_delivered s1 = sc_delivered s" using i inv_optional_dest [OF r] optional_frame [OF r] by simp_all
    then show ?thesis using r inv_delivered [OF i] by (cases b) (simp_all add: finish_close_def)
  qed
  then have close: "core_inv E (fst (handle_close E p s))" for p
    using inv_delivered [OF i] by (simp add: handle_close_def Let_def)
  have "core_inv E (fst (handle_frame E h p s))" if "length p \<le> max_message_size (env_config E)" for p
    using ping close i inv_continuation [OF V i live] inv_data [OF V i live _ that]
    by (cases "fh_opcode h") (simp_all add: handle_frame_def)
  then show ?thesis using u n inv_delivered [OF i] by (simp add: take_frame_def)
qed

lemma inv_loop:
  assumes V: "validator_sound (env_utf8 E)"
  shows "core_inv E s \<Longrightarrow> \<not> sc_is_closed s \<Longrightarrow> core_inv E (fst (frame_loop E r s))"
proof (induction "length r" arbitrary: r s rule: less_induct)
  case less
  show ?case
  proof (cases E r rule: frame_loop_cases)
    case wait
    then show ?thesis using less.prems by simp
  next
    case (error f c m)
    then show ?thesis using error(2) [of "[]" s] inv_delivered [OF less.prems(1)] by auto
  next
    case (step h p n)
    obtain s1 oc where tf: "take_frame E h p s = (s1, oc)" by fastforce
    have "core_inv E s1" using inv_take_frame [OF V less.prems step(2,1)] by (simp add: tf)
    moreover have "\<not> sc_is_closed s1" if "oc = Active" using closed_take_frame [of E h p s] tf less.prems(2) that by simp
    ultimately show ?thesis
      using less.hyps [OF step(4), of "flush_full E s1"] step(5) [of "[]" s] tf by (auto simp: flush_full_def)
  qed
qed

lemma loop_waiting: "frame_loop E r s = (s', Active, rem) \<Longrightarrow> waiting E rem"
proof (induction "length r" arbitrary: r s rule: less_induct)
  case less
  show ?case
  proof (cases E r rule: frame_loop_cases)
    case wait
    then show ?thesis using less.prems by simp
  next
    case (error f c m)
    then show ?thesis using error(2) [of "[]" s] less.prems by simp
  next
    case (step h p n)
    then show ?thesis using less.hyps [OF step(4)] step(5) [of "[]" s] less.prems by (auto split: prod.splits if_splits)
  qed
qed

lemma waiting_bound:
  assumes "waiting E r"
  shows "length r < 14 + min (max_frame_size (env_config E)) (max_message_size (env_config E))"
proof (cases "parse_frame_header r")
  case FrameNeedMoreData
  then show ?thesis using parse_header_decides [of r] by fastforce
next
  case (FrameComplete h)
  then show ?thesis using assms parse_header_ok [OF FrameComplete] by (simp add: waiting_def header_ok_def min_def)
qed (use assms in \<open>simp add: waiting_def\<close>)

text \<open>
  The sessions a connection can reach: it starts one and feeds it what it reads, until an exception
  leaves the session.
\<close>

inductive ws_reachable :: "('u, 'v, 't) ws_env \<Rightarrow> ('u, 'v, 't) ws_session \<Rightarrow> bool" for E where
  start: "ws_reachable E (session_init E t u)"
| read: "ws_reachable E S \<Longrightarrow> process_incoming_data E d S = (S', oc) \<Longrightarrow> oc \<noteq> Escaped \<Longrightarrow> ws_reachable E S'"

lemma initialize_core:
  assumes "initialize E S = (S', True)" "core_inv E (se_core S)"
  shows "core_inv E (se_core S')" "se_stream_buf S' = se_stream_buf S"
  using assms inv_callback [of E]
  by (auto simp: initialize_def Let_def split: if_splits option.splits prod.splits bool.splits) (metis fst_conv)+

lemma initialize_fail_inv:
  assumes "initialize E S = (S', False)" "core_inv E (se_core S)"
  shows "core_inv E (se_core S')"
  using assms inv_callback [of E]
  by (auto simp: initialize_def Let_def core_inv_def run_callback_def split: if_splits option.splits prod.splits bool.splits)

lemma feed_inv:
  assumes V: "validator_sound (env_utf8 E)" and "core_inv E (se_core S)" "\<not> sc_is_closed (se_core S)"
  shows "core_inv E (se_core (fst (feed E d S)))"
  using inv_loop [OF V, of "drop_batch (se_core S)" "se_stream_buf S @ d"] assms(2,3)
  by (auto simp: feed_def drop_batch_def split: prod.split)

lemma feed_waiting: "snd (feed E d S) = Active \<Longrightarrow> waiting E (se_stream_buf (fst (feed E d S)))"
  by (auto simp: feed_def intro: loop_waiting split: prod.splits if_splits)

lemma reachable_core:
  assumes V: "validator_sound (env_utf8 E)"
  shows "ws_reachable E S \<Longrightarrow> core_inv E (se_core S)"
proof (induction rule: ws_reachable.induct)
  case (start t u)
  show ?case by (simp add: session_init_def core_inv_def)
next
  case (read S d S' oc)
  obtain S0 b where i: "initialize E S = (S0, b)" by fastforce
  show ?case
    using read initialize_core [of E S S0] initialize_fail_inv [of E S S0] initialize_closed [of S E] i
      feed_inv [OF V, of S0 d]
    by (cases b; cases "sc_is_closed (se_core S)") (auto simp: process_feed)
qed

lemma reachable_waiting:
  "ws_reachable E S \<Longrightarrow> \<not> sc_is_closed (se_core S) \<Longrightarrow> waiting E (se_stream_buf S)"
proof (induction rule: ws_reachable.induct)
  case (start t u)
  show ?case by (simp add: session_init_def waiting_def parse_frame_header_def)
next
  case (read S d S' oc)
  obtain S0 b where i: "initialize E S = (S0, b)" by fastforce
  have "oc = Active" "feed E d S0 = (S', oc)"
    using read.hyps(2,3) read.prems i initialize_closed [of S E] feed_closed [of E d S0]
    by (cases oc; auto simp: process_feed split: if_splits)+
  then show ?case using feed_waiting [of E d S0] by simp
qed

lemma ascii_sound: "validator_sound ascii_validator"
proof -
  have "consume_all ascii_validator v ss = Some v' \<Longrightarrow> list_all (\<lambda>c. u8 c < 128) (concat ss)" for v v' ss
    by (induction ss arbitrary: v) (auto simp: ascii_validator_def split: if_splits)
  moreover have "is_valid_utf8 ascii_validator = list_all (\<lambda>c. u8 c < 128)" by (simp add: ascii_validator_def)
  ultimately show ?thesis by (simp add: validator_sound_def)
qed

definition hi_session :: "(unit, unit, string ws_connection) ws_session" where
  "hi_session = fst (process_incoming_data example_env hi_frame example_session)"

lemma hi_header: "parse_frame_header hi_frame =
    FrameComplete \<lparr>fh_fin = True, fh_opcode = Text, fh_masked = True, fh_mask_key = [0, 0, 0, 0], fh_payload_len = 2, fh_header_len = 6\<rparr>"
  by (simp add: hi_frame_def parse_frame_header_def header_fields_def opcode_of_def parse_length_def finish_header_def
      is_control_opcode_def u8_def substr_def lane_def)

lemma hi_session_delivered:
  "process_incoming_data example_env hi_frame example_session = (hi_session, Active) \<and>
    sc_delivered (se_core hi_session) = [(Text, ''hi'')]"
proof -
  have "unmasked Scalar [0, 0, 0, 0] ''hi'' = ''hi''"
    by (simp add: unmasked_def unmask_payload_inplace_def char_u8)
  moreover have "substr hi_frame 6 2 = ''hi''" "length hi_frame = 8" "hi_frame \<noteq> []" by (simp_all add: hi_frame_def substr_def)
  ultimately show ?thesis
    unfolding hi_session_def
    by (simp add: process_incoming_data_def example_session_def session_init_def initialize_def
        example_env_def connection_env_def frame_loop.simps [of _ hi_frame] hi_header take_frame_def handle_frame_def handle_data_def whole_message_def
        validate_def reset_validator_def ascii_validator_def deliver_def no_callbacks_def ws_init_def drop_batch_def Let_def u8_def)
qed

lemma hi_session_reachable: "ws_reachable example_env hi_session"
proof (rule ws_reachable.read)
  show "ws_reachable example_env example_session" unfolding example_session_def by (rule ws_reachable.start)
qed (use hi_session_delivered in auto)

text \<open>
  C10: Every message an application receives is whole, bounded and valid. In any session reached by
  any sequence of reads, each delivered message is text or binary, no longer than the configured
  maximum, and a text message is valid UTF-8, also when it arrived in fragments cut inside a
  character. The streaming validator is only assumed to be sound for text it accepted to the end.
\<close>

theorem websocket_messages_valid:
  assumes "validator_sound (env_utf8 E)" and "ws_reachable E S" and "(op, p) \<in> set (sc_delivered (se_core S))"
  shows "op \<in> {Text, Binary} \<and> length p \<le> max_message_size (env_config E) \<and>
    (op = Text \<longrightarrow> is_valid_utf8 (env_utf8 E) p)"
  using reachable_core [OF assms(1,2)] assms(3) by (fastforce simp: core_inv_def message_ok_def)

theorem websocket_messages_valid_witness: "is_valid_utf8 (env_utf8 example_env) ''hi''"
proof -
  have "validator_sound (env_utf8 example_env)" using ascii_sound by (simp add: example_env_def connection_env_def)
  then show ?thesis
    using websocket_messages_valid [OF _ hi_session_reachable, of Text "''hi''"] hi_session_delivered by simp
qed

text \<open>
  C12: No complete frame is ever left waiting. In any reachable session that is not closed, the bytes
  kept between reads are an incomplete frame that the limits allow: its header is undecided or its
  payload is not all there. So whatever can be handled has been handled, and the buffer holds less
  than fourteen bytes more than the smaller of the two limits.
\<close>

theorem websocket_no_frame_waits:
  assumes "ws_reachable E S" and "\<not> sc_is_closed (se_core S)"
  shows "length (se_stream_buf S) < 14 + min (max_frame_size (env_config E)) (max_message_size (env_config E)) \<and>
    (case parse_frame_header (se_stream_buf S) of
       FrameNeedMoreData \<Rightarrow> True
     | FrameProtocolError \<Rightarrow> False
     | FrameComplete h \<Rightarrow> length (se_stream_buf S) < fh_header_len h + fh_payload_len h)"
proof -
  have "waiting E (se_stream_buf S)" by (rule reachable_waiting [OF assms])
  then show ?thesis
    using waiting_bound [of E "se_stream_buf S"] by (auto simp: waiting_def split: frame_parse_result.splits)
qed

theorem websocket_no_frame_waits_witness: "length (se_stream_buf example_session) < 14 + 16"
  using websocket_no_frame_waits [OF ws_reachable.start, of example_env "\<lparr>wc_is_open = True, wc_fd_valid = True, wc_engine = []\<rparr>" "()"]
  by (simp add: example_session_def session_init_def example_env_def connection_env_def)

end
