(* ===== verification/WebSocket_Echo.thy ===== *)
theory WebSocket_Echo
  imports WebSocket_Messages
begin

text \<open>
  End to end: the frames a conforming client sends, through header parser, unmasking, validation and
  the batched echo, to the bytes on the wire of the HTTP/1 connection.
\<close>

subsection \<open>A client\<close>

text \<open>The reference: a final frame with the mask bit set, the key, and the masked payload.\<close>

definition client_frame :: "string \<Rightarrow> opcode \<Rightarrow> string \<Rightarrow> string" where
  "client_frame key op payload =
     (let h = serialize_frame_header op (length payload) True
      in [h ! 0, char_of (128 + u8 (h ! 1))] @ drop 2 h @ key @ unmasked Scalar (map lane key) payload)"

definition server_frame :: "opcode \<Rightarrow> string \<Rightarrow> string" where
  "server_frame op payload = serialize_frame_header op (length payload) True @ payload"

lemma masked_len: "n < 128 \<Longrightarrow> (128 + n) AND 0x7F = n \<and> (128 + n) AND 0x80 \<noteq> 0" for n :: nat
proof -
  assume n: "n < 128"
  have "(128 + n) AND 0x7F = take_bit 7 (128 + n)" by (simp add: take_bit_eq_mask mask_eq_exp_minus_1)
  moreover have "take_bit 7 (128 + n) = n" using n by (simp add: take_bit_eq_mod)
  moreover have "(128 + n) div 128 = 1" using n by simp
  then have "bit (128 + n) 7" by (simp add: bit_iff_odd)
  ultimately show ?thesis using and_exp_eq_0_iff_not_bit [of "128 + n" 7] by simp
qed

lemma serialized_length: "2 \<le> length (serialize_frame_header op n fin)"
  by (simp add: serialize_frame_header_def Let_def)

lemma client_frame_drop:
  "drop (length (serialize_frame_header op (length p) True)) (client_frame key op p @ rest) = key @ unmasked Scalar (map lane key) p @ rest"
proof -
  obtain m where "length (serialize_frame_header op (length p) True) = Suc (Suc m)"
    using serialized_length [of op "length p" True] by (metis add_2_eq_Suc le_Suc_ex)
  then show ?thesis by (simp add: client_frame_def Let_def)
qed

lemma client_header:
  assumes n: "length payload < 2 ^ 63" and c: "is_control_opcode op \<Longrightarrow> length payload \<le> 125" and k: "length key = 4"
  shows "parse_frame_header (client_frame key op payload @ rest) =
    FrameComplete \<lparr>fh_fin = True, fh_opcode = op, fh_masked = True, fh_mask_key = map lane key,
      fh_payload_len = length payload, fh_header_len = length (serialize_frame_header op (length payload) True) + 4\<rparr>"
proof -
  let ?n = "length payload" and ?w = "client_frame key op payload @ rest"
  let ?c = "if ?n < 126 then ?n else if ?n \<le> 0xFFFF then 126 else 127"
  let ?o = "length (serialize_frame_header op ?n True)"
  have b0: "u8 (?w ! 0) = (if True then 0x80 else 0) + opcode_value op"
    using u8_first_byte [of True op] by (simp add: client_frame_def serialize_frame_header_def Let_def)
  have "?c < 128" by simp
  then have b1: "u8 (?w ! 1) = 128 + ?c"
    by (auto simp: client_frame_def serialize_frame_header_def Let_def u8_def)
  have "be_value (be_bytes 2 ?n) = ?n" if "?n \<le> 0xFFFF" using be_value_bytes [of ?n 2] that by simp
  moreover have "be_value (be_bytes 8 ?n) = ?n" using be_value_bytes [of ?n 8] n by simp
  moreover have "?n AND 0x8000000000000000 = 0" using high_bit [of ?n] high_bit_less [OF n] by blast
  ultimately have pl: "parse_length ?w ?c = Some (Some (?n, ?o))"
    by (simp add: parse_length_def client_frame_def serialize_frame_header_def Let_def substr_def)
  have key: "substr ?w ?o 4 = key" unfolding substr_def client_frame_drop using k by simp
  have "length (drop ?o ?w) \<ge> 4" using k by (simp only: client_frame_drop) simp
  then have "?o + 4 \<le> length ?w" by simp
  moreover have "\<not> (is_control_opcode op \<and> 125 < ?n)" using c by fastforce
  moreover have "\<not> length ?w < 2" by (simp add: client_frame_def Let_def)
  moreover have "header_fields ?w (u8 (?w ! 0)) (u8 (?w ! 1)) = finish_header ?w True op True ?n ?o"
    unfolding b0 b1 header_fields_written using pl masked_len [of ?c] by auto
  ultimately show ?thesis using key by (simp add: parse_frame_header_def finish_header_def)
qed

lemma lane_char: "lane (char_of (unat b)) = b"
proof -
  have "unat b < 256" using unsigned_less [of b] by simp
  then show ?thesis by (simp add: lane_def u8_def)
qed

lemma unmasked_twice:
  assumes "length key = 4"
  shows "unmasked t key (unmasked t' key p) = p"
proof -
  have "unmask_payload_inplace t key (unmask_payload_inplace t' key bs) = bs" for bs
    using assms by (intro nth_equalityI) (simp_all add: unmask_payload_upto nth_unmask_upto xor.assoc)
  then show ?thesis by (simp add: unmasked_def comp_def lane_char char_u8)
qed

lemma length_unmasked [simp]: "length key = 4 \<Longrightarrow> length (unmasked t key p) = length p"
  by (simp add: unmasked_def unmask_payload_upto)

lemma client_frame_payload:
  assumes "length key = 4"
  shows "substr (client_frame key op p @ rest) (length (serialize_frame_header op (length p) True) + 4) (length p) =
      unmasked Scalar (map lane key) p"
proof -
  have "drop (length (serialize_frame_header op (length p) True) + 4) (client_frame key op p @ rest) =
      drop 4 (key @ unmasked Scalar (map lane key) p @ rest)"
    using client_frame_drop [of op p key rest] by (metis add.commute drop_drop)
  moreover have "drop 4 (key @ unmasked Scalar (map lane key) p @ rest) = unmasked Scalar (map lane key) p @ rest"
    using assms by simp
  ultimately show ?thesis using assms by (simp add: substr_def)
qed

lemma length_client_frame:
  "length key = 4 \<Longrightarrow> length (client_frame key op p) = length (serialize_frame_header op (length p) True) + 4 + length p"
  using serialized_length [of op "length p" True] by (simp add: client_frame_def Let_def)

subsection \<open>One message\<close>

text \<open>A message the session accepts: text or binary, within the limits, and text the validator accepts whole.\<close>

definition acceptable :: "('u, 'v, 't) ws_env \<Rightarrow> opcode \<Rightarrow> string \<Rightarrow> bool" where
  "acceptable E op p \<longleftrightarrow>
     op \<in> {Text, Binary} \<and> length p < 2 ^ 63 \<and> length p \<le> max_frame_size (env_config E) \<and>
     length p \<le> max_message_size (env_config E) \<and>
     (op = Text \<longrightarrow> (case u8_update (env_utf8 E) (u8_reset (env_utf8 E)) p of
        (ok, v) \<Rightarrow> ok \<and> u8_is_valid_end (env_utf8 E) v))"

text \<open>A session that echoes and is not inside a fragmented message.\<close>

definition echoing :: "('u, 'v, 't) ws_env \<Rightarrow> ('u, 'v, 't) ws_core \<Rightarrow> bool" where
  "echoing E s \<longleftrightarrow> env_echo E = None \<and> no_callbacks (sc_ws s) \<and> \<not> sc_fragment_in_progress s"

lemma frame_loop_echo:
  assumes a: "acceptable E op p" and e: "echoing E s" and k: "length key = 4"
  obtains v where "frame_loop E (client_frame key op p @ rest) s =
    frame_loop E rest (flush_full E (s\<lparr>sc_utf8 := v, sc_delivered := sc_delivered s @ [(op, p)],
      sc_batch_out := sc_batch_out s @ server_frame op p\<rparr>))"
proof -
  let ?w = "client_frame key op p @ rest"
  let ?h = "\<lparr>fh_fin = True, fh_opcode = op, fh_masked = True, fh_mask_key = map lane key,
      fh_payload_len = length p, fh_header_len = length (serialize_frame_header op (length p) True) + 4\<rparr>"
  let ?v = "if op = Text then snd (u8_update (env_utf8 E) (u8_reset (env_utf8 E)) p) else sc_utf8 s"
  let ?s = "s\<lparr>sc_utf8 := ?v, sc_delivered := sc_delivered s @ [(op, p)], sc_batch_out := sc_batch_out s @ server_frame op p\<rparr>"
  have h: "parse_frame_header ?w = FrameComplete ?h"
    using a k by (intro client_header) (auto simp: acceptable_def is_control_iff)
  have "handle_data E True op p s = (?s, Active)"
    using a e by (auto simp: handle_data_def whole_message_def validate_def reset_validator_def deliver_echo echoing_def
        acceptable_def server_frame_def split: prod.splits)
  then have t: "take_frame E ?h (unmasked Scalar (map lane key) p) s = (?s, Active)"
    using a k by (auto simp: take_frame_def handle_frame_def unmasked_twice acceptable_def)
  have "client_frame key op p \<noteq> []" by (simp add: client_frame_def Let_def)
  then have "frame_loop E ?w s = frame_loop E rest (flush_full E ?s)"
    using a h t client_frame_payload [OF k, of op p rest] length_client_frame [OF k, of op p]
    by (simp add: frame_loop.simps [of E ?w] acceptable_def Let_def)
  then show ?thesis by (rule that)
qed

subsection \<open>A stream of messages\<close>

type_synonym client_message = "string \<times> opcode \<times> string"

definition client_stream :: "client_message list \<Rightarrow> string" where
  "client_stream ms = concat (map (\<lambda>(key, op, p). client_frame key op p) ms)"

definition echo_stream :: "client_message list \<Rightarrow> string" where
  "echo_stream ms = concat (map (\<lambda>(_, op, p). server_frame op p) ms)"

definition conforming :: "('u, 'v, 't) ws_env \<Rightarrow> client_message list \<Rightarrow> bool" where
  "conforming E ms \<longleftrightarrow> list_all (\<lambda>(key, op, p). length key = 4 \<and> acceptable E op p) ms"

text \<open>What was sent and what will be: the wire and the batch. Flushing moves bytes from one to the other.\<close>

definition output_of :: "('u, 'v, string ws_connection) ws_core \<Rightarrow> string" where
  "output_of s = wc_engine (ws_transport_state (sc_ws s)) @ sc_batch_out s"

definition connected :: "('u, 'v, string ws_connection) ws_core \<Rightarrow> bool" where
  "connected s \<longleftrightarrow> wc_is_open (ws_transport_state (sc_ws s)) \<and> wc_fd_valid (ws_transport_state (sc_ws s)) \<and> ws_open (sc_ws s)"

lemma flush_conn:
  fixes s :: "('u, 'v, string ws_connection) ws_core"
  assumes "env_transport E = conn_transport eng" and "\<And>a e. eng_send eng a e = (int (length a), e @ a)" and "connected s"
  shows "output_of (flush_batch E s) = output_of s" "connected (flush_batch E s)"
    "wc_engine (ws_transport_state (sc_ws (flush_batch E s))) = output_of s"
    "sc_fragment_in_progress (flush_batch E s) = sc_fragment_in_progress s"
    "no_callbacks (sc_ws (flush_batch E s)) = no_callbacks (sc_ws s)"
  using assms by (simp_all add: output_of_def connected_def flush_batch_def conn_transport_def conn_write_raw_def conn_send_def no_callbacks_def)

lemma echo_loop:
  fixes s :: "('u, 'v, string ws_connection) ws_core"
  assumes T: "env_transport E = conn_transport eng" and eng: "\<And>a e. eng_send eng a e = (int (length a), e @ a)"
  shows "connected s \<Longrightarrow> echoing E s \<Longrightarrow> conforming E ms \<Longrightarrow>
    \<exists>s'. frame_loop E (client_stream ms @ rest) s = frame_loop E rest s' \<and> connected s' \<and> echoing E s' \<and>
      output_of s' = output_of s @ echo_stream ms \<and> sc_is_closed s' = sc_is_closed s \<and>
      sc_delivered s' = sc_delivered s @ map snd ms \<and>
      (length (sc_batch_out s) + length (echo_stream ms) < 65536 \<longrightarrow>
        sc_batch_out s' = sc_batch_out s @ echo_stream ms \<and> sc_ws s' = sc_ws s)"
proof (induction ms arbitrary: s)
  case Nil
  then show ?case by (intro exI [of _ s]) (simp add: client_stream_def echo_stream_def)
next
  case (Cons m ms)
  obtain key op p where m: "m = (key, op, p)" by (cases m)
  have ok: "length key = 4" "acceptable E op p" "conforming E ms" using Cons.prems(3) by (simp_all add: conforming_def m)
  obtain v where v: "frame_loop E (client_frame key op p @ client_stream ms @ rest) s =
      frame_loop E (client_stream ms @ rest) (flush_full E (s\<lparr>sc_utf8 := v, sc_delivered := sc_delivered s @ [(op, p)],
        sc_batch_out := sc_batch_out s @ server_frame op p\<rparr>))"
    using frame_loop_echo [OF ok(2) Cons.prems(2) ok(1)] by blast
  let ?s = "s\<lparr>sc_utf8 := v, sc_delivered := sc_delivered s @ [(op, p)], sc_batch_out := sc_batch_out s @ server_frame op p\<rparr>"
  have c: "connected ?s" using Cons.prems(1) by (simp add: connected_def)
  note fl = flush_conn [OF T eng c]
  have s2: "connected (flush_full E ?s)" "echoing E (flush_full E ?s)" "output_of (flush_full E ?s) = output_of s @ server_frame op p"
    "sc_is_closed (flush_full E ?s) = sc_is_closed s" "sc_delivered (flush_full E ?s) = sc_delivered s @ [(op, p)]"
    using fl c Cons.prems(2) by (simp_all add: flush_full_def echoing_def output_of_def)
  have small: "flush_full E ?s = ?s" if "length (sc_batch_out s) + length (server_frame op p) < 65536"
    using that by (simp add: flush_full_def)
  obtain s' where s': "frame_loop E (client_stream ms @ rest) (flush_full E ?s) = frame_loop E rest s'" "connected s'" "echoing E s'"
    "output_of s' = output_of (flush_full E ?s) @ echo_stream ms" "sc_is_closed s' = sc_is_closed (flush_full E ?s)"
    "sc_delivered s' = sc_delivered (flush_full E ?s) @ map snd ms"
    "length (sc_batch_out (flush_full E ?s)) + length (echo_stream ms) < 65536 \<longrightarrow>
        sc_batch_out s' = sc_batch_out (flush_full E ?s) @ echo_stream ms \<and> sc_ws s' = sc_ws (flush_full E ?s)"
    using Cons.IH [OF s2(1,2) ok(3)] by blast
  have "client_stream (m # ms) = client_frame key op p @ client_stream ms" "echo_stream (m # ms) = server_frame op p @ echo_stream ms"
    by (simp_all add: client_stream_def echo_stream_def m)
  then show ?case
    using v s' s2 small by (intro exI [of _ s']) (auto simp: m)
qed

text \<open>A fresh session of a connection without application code.\<close>

definition echo_env :: "simd_tier \<Rightarrow> string io_engine \<Rightarrow> 'v utf8_validator \<Rightarrow> ws_config \<Rightarrow> (unit, 'v, string ws_connection) ws_env" where
  "echo_env tier eng V cfg = connection_env tier eng V cfg None None"

definition wire_of :: "('u, 'v, 'e ws_connection) ws_session \<Rightarrow> 'e" where
  "wire_of S = wc_engine (ws_transport_state (sc_ws (se_core S)))"

lemma fresh_feed:
  "process_incoming_data (echo_env tier eng V cfg) d (session_init (echo_env tier eng V cfg) c ()) =
    feed (echo_env tier eng V cfg) d (session_init (echo_env tier eng V cfg) c ()\<lparr>se_initialized := True\<rparr>)"
  by (simp add: process_feed initialize_def session_init_def echo_env_def connection_env_def)

lemma fresh_core:
  assumes "wc_is_open c" "wc_fd_valid c"
  shows "connected (se_core (session_init (echo_env tier eng V cfg) c ()))"
    "echoing (echo_env tier eng V cfg) (se_core (session_init (echo_env tier eng V cfg) c ()))"
  using assms by (simp_all add: connected_def echoing_def session_init_def echo_env_def connection_env_def ws_init_def no_callbacks_def)

lemma echo_feed:
  assumes eng: "\<And>a e. eng_send eng a e = (int (length a), e @ a)" and c: "wc_is_open c" "wc_fd_valid c"
    and ms: "conforming (echo_env tier eng V cfg) ms"
  defines "E \<equiv> echo_env tier eng V cfg"
  shows "\<exists>S'. process_incoming_data E (client_stream ms) (session_init E c ()) = (S', Active) \<and>
    sc_delivered (se_core S') = map snd ms \<and> wire_of S' = wc_engine c @ echo_stream ms \<and> se_stream_buf S' = [] \<and>
    connected (se_core S') \<and> \<not> sc_is_closed (se_core S') \<and> se_initialized S'"
proof -
  let ?S = "session_init E c ()" 
  have T: "env_transport E = conn_transport eng" by (simp add: E_def echo_env_def connection_env_def)
  have d: "drop_batch (se_core ?S) = se_core ?S" by (simp add: session_init_def drop_batch_def)
  note fresh = fresh_core [OF c, of tier eng V cfg]
  obtain s' where s': "frame_loop E (client_stream ms) (se_core ?S) = (s', Active, [])" "connected s'"
    "output_of s' = wc_engine c @ echo_stream ms" "sc_delivered s' = map snd ms" "\<not> sc_is_closed s'"
    using echo_loop [OF T eng fresh [folded E_def] ms [folded E_def], of "[]"]
    by (auto simp: session_init_def output_of_def ws_init_def)
  show ?thesis
    using s' flush_conn [OF T eng s'(2)] fresh_feed [of tier eng V cfg "client_stream ms" c, folded E_def] d
    by (simp add: feed_def wire_of_def) (simp add: session_init_def)
qed

text \<open>Reads that follow each other.\<close>

definition feed_reads :: "('u, 'v, 't) ws_env \<Rightarrow> string list \<Rightarrow> ('u, 'v, 't) ws_session \<Rightarrow> ('u, 'v, 't) ws_session" where
  "feed_reads E reads S = fold (\<lambda>d S. fst (process_incoming_data E d S)) reads S"

context steady_session
begin

lemma process_append:
  assumes add: "additive_transport (env_transport E)" and whole: "process_incoming_data E (d1 @ d2) S = (S', Active)"
  obtains S1 where "process_incoming_data E d1 S = (S1, Active)" "process_incoming_data E d2 S1 = (S', Active)"
proof -
  define S0 where "S0 = fst (initialize E S)"
  have i: "\<not> sc_is_closed (se_core S)" "snd (initialize E S)" using whole by (auto simp: process_feed split: if_splits)
  then have p: "process_incoming_data E d S = feed E d S0" for d by (simp add: process_feed S0_def)
  obtain S1 oc where f: "feed E d1 S0 = (S1, oc)" by fastforce
  have oc: "oc = Active" using feed_not_active [OF f, of d2] whole by (auto simp: p)
  have "\<not> sc_is_closed (se_core S1)"
    using feed_closed [of E d1 S0] f oc i initialize_closed [of S E] by (simp add: S0_def)
  moreover have "se_initialized S1" using feed_initialized [of E d1 S0] f initialize_sets [of E S] by (simp add: S0_def)
  ultimately have "process_incoming_data E d2 S1 = feed E d2 S1" by (simp add: process_feed initialize_initialized)
  then have "process_incoming_data E d2 S1 = (S', Active)"
    using feed_append [OF f [unfolded oc], of d2] add whole by (cases "feed E d2 S1") (auto simp: p)
  then show ?thesis using that f oc by (simp add: p)
qed

lemma feed_reads_concat:
  assumes add: "additive_transport (env_transport E)"
  shows "reads \<noteq> [] \<Longrightarrow> process_incoming_data E (concat reads) S = (S', Active) \<Longrightarrow> feed_reads E reads S = S'"
proof (induction reads arbitrary: S)
  case (Cons d reads)
  show ?case
  proof (cases "reads = []")
    case True
    then show ?thesis using Cons.prems by (simp add: feed_reads_def)
  next
    case False
    have "process_incoming_data E (d @ concat reads) S = (S', Active)" using Cons.prems by simp
    then obtain S1 where "process_incoming_data E d S = (S1, Active)" "process_incoming_data E (concat reads) S1 = (S', Active)"
      by (rule process_append [OF add])
    then show ?thesis using Cons.IH [OF False] by (simp add: feed_reads_def)
  qed
qed simp

end


definition open_connection :: "string ws_connection" where
  "open_connection = \<lparr>wc_is_open = True, wc_fd_valid = True, wc_engine = []\<rparr>"

definition small_config :: ws_config where
  "small_config = \<lparr>max_message_size = 16, max_frame_size = 16, require_masked_frames = True\<rparr>"

definition two_messages :: "client_message list" where
  "two_messages = [(''key1'', Text, ''hi''), (''key2'', Binary, ''data'')]"

lemma two_conforming: "conforming (echo_env AVX2 wire_engine ascii_validator small_config) two_messages"
  by (simp add: conforming_def two_messages_def acceptable_def echo_env_def connection_env_def small_config_def
      ascii_validator_def u8_def)


text \<open>
  Echoes can be lost. When the messages are followed in the same read by the header of a frame
  above the size limit, the batch of pending echoes is thrown away: only the close frame is sent.
  Had the header arrived in a read of its own, every echo would have been on the wire before the
  close frame.
\<close>

theorem websocket_echo_lost:
  fixes tier eng V cfg c
  defines "E \<equiv> echo_env tier eng V cfg"
  assumes "\<And>a e. eng_send eng a e = (int (length a), e @ a)" and "wc_is_open c" and "wc_fd_valid c"
    and "conforming E ms" and "length (echo_stream ms) < 65536"
    and "parse_frame_header big = FrameComplete h" and "max_frame_size cfg < fh_payload_len h"
  shows "wire_of (fst (process_incoming_data E (client_stream ms @ big) (session_init E c ()))) =
      wc_engine c @ server_frame Close (be_bytes 2 1009 @ ''Message Too Big'') \<and>
    wire_of (feed_reads E [client_stream ms, big] (session_init E c ())) =
      wc_engine c @ echo_stream ms @ server_frame Close (be_bytes 2 1009 @ ''Message Too Big'')"
proof -
  let ?S = "session_init E c ()" and ?reason = "''Message Too Big''"
  have T: "env_transport E = conn_transport eng" and cfg: "env_config E = cfg" by (simp_all add: E_def echo_env_def connection_env_def)
  have d: "drop_batch (se_core ?S) = se_core ?S" by (simp add: session_init_def drop_batch_def)
  have big: "frame_loop E big s = (fst (fail_session E 1009 ?reason s), Closed, big)" for s
    using assms(7,8) parse_header_ok [OF assms(7)]
    by (auto simp: frame_loop.simps [of E big] cfg fail_session_def header_ok_def)
  have fail: "wc_engine (ws_transport_state (sc_ws (fst (fail_session E 1009 ?reason s)))) =
      wc_engine (ws_transport_state (sc_ws s)) @ server_frame Close (be_bytes 2 1009 @ ?reason)" if "connected s" for s
    using that assms(2) by (simp add: fail_session_def ws_close_def ws_write_def T conn_transport_def conn_write_frame_def
        conn_close_def conn_send_def connected_def server_frame_def Let_def)
  note fresh = fresh_core [OF assms(3,4), of tier eng V cfg]
  obtain s' where s': "frame_loop E (client_stream ms @ big) (se_core ?S) = frame_loop E big s'" "connected s'" "sc_ws s' = sc_ws (se_core ?S)"
    using echo_loop [OF T assms(2) fresh [folded E_def] assms(5), of big] assms(6)
    by (auto simp: session_init_def)
  have one: "wire_of (fst (process_incoming_data E (client_stream ms @ big) ?S)) = wc_engine c @ server_frame Close (be_bytes 2 1009 @ ?reason)"
    using s' fail [OF s'(2)] fresh_feed [of tier eng V cfg "client_stream ms @ big" c, folded E_def] d big [of s']
    by (simp add: feed_def wire_of_def) (simp add: session_init_def ws_init_def)
  obtain S' where S': "process_incoming_data E (client_stream ms) ?S = (S', Active)" "wire_of S' = wc_engine c @ echo_stream ms"
    "se_stream_buf S' = []" "connected (se_core S')" "\<not> sc_is_closed (se_core S')" "se_initialized S'"
    using echo_feed [OF assms(2-5) [unfolded E_def]] by (auto simp: E_def)
  have "connected (drop_batch (se_core S'))" using S'(4) by (simp add: connected_def drop_batch_def)
  then have "wire_of (fst (process_incoming_data E big S')) = wire_of S' @ server_frame Close (be_bytes 2 1009 @ ?reason)"
    using S' fail [of "drop_batch (se_core S')"] big
    by (simp add: process_feed initialize_initialized feed_def wire_of_def) (simp add: drop_batch_def)
  then show ?thesis using one S' by (simp add: feed_reads_def)
qed

theorem websocket_echo_lost_witness:
  "wire_of (fst (process_incoming_data (echo_env AVX2 wire_engine ascii_validator small_config) (client_stream two_messages @ big_header)
      (session_init (echo_env AVX2 wire_engine ascii_validator small_config) open_connection ()))) =
    server_frame Close (be_bytes 2 1009 @ ''Message Too Big'')"
proof -
  let ?h = "\<lparr>fh_fin = True, fh_opcode = Binary, fh_masked = True, fh_mask_key = [0, 0, 0, 0], fh_payload_len = 64, fh_header_len = 6\<rparr>"
  have h: "parse_frame_header big_header = FrameComplete ?h"
    by (simp add: big_header_def parse_frame_header_def header_fields_def opcode_of_def parse_length_def finish_header_def
        is_control_opcode_def u8_def substr_def lane_def)
  have "wire_of (fst (process_incoming_data (echo_env AVX2 wire_engine ascii_validator small_config) (client_stream two_messages @ big_header)
      (session_init (echo_env AVX2 wire_engine ascii_validator small_config) open_connection ()))) =
    wc_engine open_connection @ server_frame Close (be_bytes 2 1009 @ ''Message Too Big'')"
    by (rule conjunct1 [OF websocket_echo_lost [OF _ _ _ two_conforming _ h]])
      (simp_all add: wire_engine_def open_connection_def echo_stream_def two_messages_def server_frame_def
        serialize_frame_header_def Let_def small_config_def)
  then show ?thesis by (simp add: open_connection_def)
qed

end
