(* ===== verification/Base64.thy ===== *)
theory Base64
  imports Aegon_Prelude
begin

text \<open>
  The Base64 codecs: \<^verbatim>\<open>base64url_encode\<close>, \<^verbatim>\<open>base64_encode\<close> and the tolerant \<^verbatim>\<open>base64url_decode\<close> of
  \<^verbatim>\<open>src/http/jwt/JwtAlgorithm.h\<close>, and \<^verbatim>\<open>base64_encode\<close> of \<^verbatim>\<open>src/http/websocket/WebSocketHandshake.h\<close>.
  The three-byte steps of the encoding loops and the four-character steps of the decoding loop are
  equations on the text that is left.
\<close>

unbundle bit_operations_syntax

definition BASE64URL_CHARS :: string where
  "BASE64URL_CHARS = ''ABCDEFGHIJKLMNOPQRSTUVWXYZabcdefghijklmnopqrstuvwxyz0123456789-_''"

definition BASE64_CHARS :: string where
  "BASE64_CHARS = ''ABCDEFGHIJKLMNOPQRSTUVWXYZabcdefghijklmnopqrstuvwxyz0123456789+/''"

definition triple :: "nat \<Rightarrow> nat \<Rightarrow> nat \<Rightarrow> nat" where
  "triple b0 b1 b2 = push_bit 16 b0 OR push_bit 8 b1 OR b2"

definition sextet :: "string \<Rightarrow> nat \<Rightarrow> nat \<Rightarrow> char" where
  "sextet table t shift = table ! (drop_bit shift t AND 0x3F)"

fun base64url_encode :: "string \<Rightarrow> string" where
  "base64url_encode [] = []"
| "base64url_encode [a] =
     (let t = triple (u8 a) 0 0 in [sextet BASE64URL_CHARS t 18, sextet BASE64URL_CHARS t 12])"
| "base64url_encode [a, b] =
     (let t = triple (u8 a) (u8 b) 0
      in [sextet BASE64URL_CHARS t 18, sextet BASE64URL_CHARS t 12, sextet BASE64URL_CHARS t 6])"
| "base64url_encode (a # b # c # rest) =
     (let t = triple (u8 a) (u8 b) (u8 c)
      in [sextet BASE64URL_CHARS t 18, sextet BASE64URL_CHARS t 12, sextet BASE64URL_CHARS t 6, sextet BASE64URL_CHARS t 0] @
         base64url_encode rest)"

fun base64_encode :: "string \<Rightarrow> string" where
  "base64_encode [] = []"
| "base64_encode [a] =
     (let t = triple (u8 a) 0 0 in [sextet BASE64_CHARS t 18, sextet BASE64_CHARS t 12, CHR ''='', CHR ''=''])"
| "base64_encode [a, b] =
     (let t = triple (u8 a) (u8 b) 0
      in [sextet BASE64_CHARS t 18, sextet BASE64_CHARS t 12, sextet BASE64_CHARS t 6, CHR ''=''])"
| "base64_encode (a # b # c # rest) =
     (let t = triple (u8 a) (u8 b) (u8 c)
      in [sextet BASE64_CHARS t 18, sextet BASE64_CHARS t 12, sextet BASE64_CHARS t 6, sextet BASE64_CHARS t 0] @
         base64_encode rest)"

text \<open>The encoder of the handshake, with its index and remainder, over bytes that it reads one by one.\<close>

function ws_base64_loop :: "string \<Rightarrow> nat \<Rightarrow> string \<Rightarrow> string" where
  "ws_base64_loop data i out =
     (if i < length data then
        let rem = length data - i;
            b0 = u8 (data ! i); i = i + 1;
            b1 = (if 1 < rem then u8 (data ! i) else 0); i = (if 1 < rem then i + 1 else i);
            b2 = (if 2 < rem then u8 (data ! i) else 0); i = (if 2 < rem then i + 1 else i);
            t = triple b0 b1 b2
        in ws_base64_loop data i (out @
             [sextet BASE64_CHARS t 18, sextet BASE64_CHARS t 12,
              if 1 < rem then sextet BASE64_CHARS t 6 else CHR ''='',
              if 2 < rem then sextet BASE64_CHARS t 0 else CHR ''=''])
      else out)"
  by pat_completeness auto
termination
  by (relation "measure (\<lambda>(data, i, out). length data - i)") auto

declare ws_base64_loop.simps [simp del]

definition ws_base64_encode :: "string \<Rightarrow> string" where
  "ws_base64_encode data = ws_base64_loop data 0 []"

text \<open>The table of the decoder: a value, or a negative number.\<close>

definition b64_table :: "char \<Rightarrow> int" where
  "b64_table c =
     (let n = u8 c
      in if 65 \<le> n \<and> n < 91 then int (n - 65)
         else if 97 \<le> n \<and> n < 123 then int (26 + (n - 97))
         else if 48 \<le> n \<and> n < 58 then int (52 + (n - 48))
         else if c = CHR ''+'' \<or> c = CHR ''-'' then 62
         else if c = CHR ''/'' \<or> c = CHR ''_'' then 63
         else if c = CHR ''='' then - 2 else - 1)"

fun decode_groups :: "string \<Rightarrow> string option" where
  "decode_groups (p # q # r # s # rest) =
     (let a = b64_table p; b = b64_table q; c = b64_table r; d = b64_table s
      in if (a OR b OR c OR d) < 0 then None
         else
           let t = push_bit 18 (nat a) OR push_bit 12 (nat b) OR push_bit 6 (nat c) OR nat d
           in map_option ((@) [char_of (drop_bit 16 t AND 0xFF), char_of (drop_bit 8 t AND 0xFF), char_of (t AND 0xFF)])
                (decode_groups rest))"
| "decode_groups [] = Some []"
| "decode_groups [p, q] =
     (let a = b64_table p; b = b64_table q
      in if (a OR b) < 0 then None else Some [char_of (push_bit 2 (nat a) OR drop_bit 4 (nat b))])"
| "decode_groups [p, q, r] =
     (let a = b64_table p; b = b64_table q; c = b64_table r
      in if (a OR b OR c) < 0 then None
         else Some [char_of (push_bit 2 (nat a) OR drop_bit 4 (nat b)),
                    char_of (push_bit 4 (nat b AND 0x0F) OR drop_bit 2 (nat c))])"
| "decode_groups [p] = None"

definition is_b64_space :: "char \<Rightarrow> bool" where
  "is_b64_space c \<longleftrightarrow> c = SP \<or> c = CR \<or> c = LF \<or> c = HTAB"

definition base64url_decode :: "string \<Rightarrow> string option" where
  "base64url_decode s =
     (let s = rev (dropWhile (\<lambda>c. c = CHR ''='' \<or> is_b64_space c) (rev s));
          s = dropWhile is_b64_space s
      in decode_groups s)"

definition base64_decode :: "string \<Rightarrow> string option" where
  "base64_decode s = base64url_decode s"

subsection \<open>Round trips\<close>

lemma or_shift: "b < 2 ^ n \<Longrightarrow> push_bit n a OR b = a * 2 ^ n + b" for a b :: nat
proof -
  assume b: "b < 2 ^ n"
  have "take_bit n b = b" using b by (simp add: take_bit_nat_eq_self)
  then have "\<not> bit (push_bit n a) k \<or> \<not> bit b k" for k
    by (metis bit_push_bit_iff bit_take_bit_iff not_le)
  then have "push_bit n a + b = push_bit n a OR b" by (rule disjunctive_add)
  then show ?thesis by (simp add: push_bit_eq_mult)
qed

lemma and_63: "n AND 0x3F = n mod 64" for n :: nat
  using take_bit_eq_mask [of 6 n] by (simp add: mask_eq_exp_minus_1 take_bit_eq_mod)

lemma and_255: "n AND 0xFF = n mod 256" for n :: nat
  using take_bit_eq_mask [of 8 n] by (simp add: mask_eq_exp_minus_1 take_bit_eq_mod)

lemma and_15: "n AND 0x0F = n mod 16" for n :: nat
  using take_bit_eq_mask [of 4 n] by (simp add: mask_eq_exp_minus_1 take_bit_eq_mod)

lemma triple_eq: "b0 < 256 \<Longrightarrow> b1 < 256 \<Longrightarrow> b2 < 256 \<Longrightarrow> triple b0 b1 b2 = b0 * 65536 + b1 * 256 + b2"
  using or_shift [of b2 8 b1] or_shift [of "b1 * 256 + b2" 16 b0] by (simp add: triple_def or.assoc)

lemma table_maps:
  "map b64_table BASE64URL_CHARS = map int [0..<64]" "map b64_table BASE64_CHARS = map int [0..<64]"
  by (simp_all add: BASE64URL_CHARS_def BASE64_CHARS_def b64_table_def u8_def upt_rec)

definition alphabet :: "string \<Rightarrow> bool" where
  "alphabet table \<longleftrightarrow> map b64_table table = map int [0..<64]"

lemma alphabets [simp]: "alphabet BASE64URL_CHARS" "alphabet BASE64_CHARS"
  by (simp_all add: alphabet_def table_maps)

lemma alphabet_length: "alphabet table \<Longrightarrow> length table = 64"
  unfolding alphabet_def by (metis length_map length_upt diff_zero)

lemma alphabet_nth:
  assumes "alphabet table" "n < 64"
  shows "b64_table (table ! n) = int n"
proof -
  have "map b64_table table ! n = map int [0..<64] ! n" using assms(1) by (simp add: alphabet_def)
  then show ?thesis using assms alphabet_length [OF assms(1)] by simp
qed

lemma sextet_value: "alphabet table \<Longrightarrow> b64_table (sextet table t k) = int (t div 2 ^ k mod 64)"
  by (simp add: sextet_def and_63 alphabet_nth drop_bit_eq_div)

lemma or_four:
  fixes a b c d :: nat
  assumes "a < 64" "b < 64" "c < 64" "d < 64"
  shows "push_bit 18 a OR push_bit 12 b OR push_bit 6 c OR d = ((a * 64 + b) * 64 + c) * 64 + d"
  using or_shift [of d 6 c] or_shift [of "c * 64 + d" 12 b] or_shift [of "b * 4096 + (c * 64 + d)" 18 a] assms by simp

lemma bytes_of_sum:
  fixes a b c :: nat
  assumes "a < 256" "b < 256" "c < 256"
  shows "(a * 65536 + b * 256 + c) div 65536 mod 256 = a" "(a * 65536 + b * 256 + c) div 256 mod 256 = b"
    "(a * 65536 + b * 256 + c) mod 256 = c"
proof -
  have "(a * 65536 + (b * 256 + c)) div 65536 = a" using assms by (simp del: add.assoc)
  then show "(a * 65536 + b * 256 + c) div 65536 mod 256 = a" using assms by (simp add: add.assoc)
  have "((a * 256 + b) * 256 + c) div 256 = a * 256 + b" using assms by (simp del: add.assoc)
  then show "(a * 65536 + b * 256 + c) div 256 mod 256 = b" using assms by (simp add: algebra_simps)
  have "((a * 256 + b) * 256 + c) mod 256 = c" using assms by (metis mod_less mod_mult_self3)
  then show "(a * 65536 + b * 256 + c) mod 256 = c" by (simp add: algebra_simps)
qed

text \<open>Four sextets hold the twenty-four bits.\<close>

lemma sextets_join:
  fixes t :: nat
  assumes "t < 2 ^ 24"
  shows "push_bit 18 (t div 2 ^ 18 mod 64) OR push_bit 12 (t div 2 ^ 12 mod 64) OR push_bit 6 (t div 2 ^ 6 mod 64) OR (t mod 64) = t"
proof -
  let ?a = "t div 2 ^ 18 mod 64" and ?b = "t div 2 ^ 12 mod 64" and ?c = "t div 2 ^ 6 mod 64" and ?d = "t mod 64"
  have "push_bit 18 ?a OR push_bit 12 ?b OR push_bit 6 ?c OR ?d = ((?a * 64 + ?b) * 64 + ?c) * 64 + ?d"
    by (rule or_four) simp_all
  moreover have "t div 2 ^ 18 < 64" using assms by simp
  moreover have "t = ((t div 2 ^ 18 * 64 + ?b) * 64 + ?c) * 64 + ?d"
    using div_mult_mod_eq [of t 64] div_mult_mod_eq [of "t div 64" 64] div_mult_mod_eq [of "t div 4096" 64]
    by (simp add: div_mult2_eq [symmetric])
  ultimately show ?thesis by simp
qed

lemma decode_four:
  assumes "alphabet table"
  shows "decode_groups (sextet table (triple (u8 a) (u8 b) (u8 c)) 18 # sextet table (triple (u8 a) (u8 b) (u8 c)) 12 #
      sextet table (triple (u8 a) (u8 b) (u8 c)) 6 # sextet table (triple (u8 a) (u8 b) (u8 c)) 0 # rest) =
    map_option ((@) [a, b, c]) (decode_groups rest)"
proof -
  let ?t = "triple (u8 a) (u8 b) (u8 c)"
  have t: "?t = u8 a * 65536 + u8 b * 256 + u8 c" by (rule triple_eq) simp_all
  have bounds: "u8 a < 256" "u8 b < 256" "u8 c < 256" by simp_all
  then have "u8 a \<le> 255" "u8 b \<le> 255" "u8 c \<le> 255" by linarith+
  then have "?t < 2 ^ 24" using t by simp
  note j = sextets_join [OF this]
  have "char_of (drop_bit 16 ?t AND 0xFF) = a" "char_of (drop_bit 8 ?t AND 0xFF) = b" "char_of (?t AND 0xFF) = c"
    using bytes_of_sum [OF bounds] by (simp_all add: t and_255 drop_bit_eq_div char_u8)
  then show ?thesis using j by (simp add: sextet_value [OF assms] Let_def)
qed

lemma decode_last_one:
  assumes "alphabet table"
  shows "decode_groups [sextet table (triple (u8 a) 0 0) 18, sextet table (triple (u8 a) 0 0) 12] = Some [a]"
proof -
  have t: "triple (u8 a) 0 0 = u8 a * 65536" using triple_eq [of "u8 a" 0 0] by simp
  have v: "u8 a * 65536 div 2 ^ 18 = u8 a div 4" "u8 a * 65536 div 2 ^ 12 = u8 a * 16"
    using div_mult_mult2 [of 65536 "u8 a" 4] by simp_all
  have "u8 a * 16 mod 64 = u8 a mod 4 * 16" using mult_mod_right [of 16 "u8 a" 4] by (simp add: mult.commute)
  then have "push_bit 2 (u8 a div 4) OR drop_bit 4 (16 * u8 a mod 64) = u8 a"
    using or_shift [of "u8 a mod 4" 2 "u8 a div 4"] by (simp add: drop_bit_eq_div mult.commute)
  moreover have "u8 a div 4 < 64" by (simp add: less_mult_imp_div_less)
  ultimately show ?thesis by (simp add: sextet_value [OF assms] t v Let_def char_u8)
qed

lemma quotient_remainder: "n = d * k + r \<Longrightarrow> r < d \<Longrightarrow> n div d = k \<and> n mod d = r" for n d k r :: nat
  by simp

lemma decode_last_two:
  assumes "alphabet table"
  shows "decode_groups [sextet table (triple (u8 a) (u8 b) 0) 18, sextet table (triple (u8 a) (u8 b) 0) 12,
      sextet table (triple (u8 a) (u8 b) 0) 6] = Some [a, b]"
proof -
  define q r p s where "q = u8 a div 4" and "r = u8 a mod 4" and "p = u8 b div 16" and "s = u8 b mod 16"
  have ab: "u8 a = 4 * q + r" "u8 b = 16 * p + s" by (simp_all add: q_def r_def p_def s_def)
  have lt: "q < 64" "r < 4" "p < 16" "s < 16" by (simp_all add: q_def r_def p_def s_def less_mult_imp_div_less)
  have t: "triple (u8 a) (u8 b) 0 = u8 a * 65536 + u8 b * 256" using triple_eq [of "u8 a" "u8 b" 0] by simp
  let ?t = "u8 a * 65536 + u8 b * 256"
  have "?t div 262144 = q"
    using quotient_remainder [of ?t 262144 q "65536 * r + 4096 * p + 256 * s"] ab lt by simp
  moreover have "?t div 4096 = 64 * q + (16 * r + p)"
    using quotient_remainder [of ?t 4096 "64 * q + (16 * r + p)" "256 * s"] ab lt by simp
  moreover have "?t div 64 = 64 * (64 * q + 16 * r + p) + 4 * s"
    using quotient_remainder [of ?t 64 "64 * (64 * q + 16 * r + p) + 4 * s" 0] ab by simp
  ultimately have v: "?t div 2 ^ 18 mod 64 = q" "?t div 2 ^ 12 mod 64 = 16 * r + p" "?t div 2 ^ 6 mod 64 = 4 * s"
    using lt quotient_remainder [of "64 * q + (16 * r + p)" 64 q "16 * r + p"]
      quotient_remainder [of "64 * (64 * q + 16 * r + p) + 4 * s" 64 "64 * q + 16 * r + p" "4 * s"] by simp_all
  have d: "(16 * r + p) div 16 = r" "(16 * r + p) mod 16 = p" "4 * s div 4 = s"
    using quotient_remainder [of "16 * r + p" 16 r p] lt by simp_all
  have "push_bit 2 q OR drop_bit 4 (16 * r + p) = u8 a"
    using or_shift [of r 2 q] lt ab d by (simp add: drop_bit_eq_div)
  moreover have "push_bit 4 ((16 * r + p) AND 0x0F) OR drop_bit 2 (4 * s) = u8 b"
    using or_shift [of s 4 p] lt ab d by (simp add: drop_bit_eq_div and_15)
  moreover have "b64_table (sextet table (triple (u8 a) (u8 b) 0) 18) = int q"
    "b64_table (sextet table (triple (u8 a) (u8 b) 0) 12) = int (16 * r + p)"
    "b64_table (sextet table (triple (u8 a) (u8 b) 0) 6) = int (4 * s)"
    by (simp_all only: sextet_value [OF assms] t v)
  moreover have "\<not> (int q OR int (16 * r + p) OR int (4 * s)) < 0" by simp
  ultimately show ?thesis by (simp only: decode_groups.simps Let_def nat_int if_False char_u8)
qed

text \<open>Encoded text survives the trimming of the decoder.\<close>

lemma b64_space_value: "c = CHR ''='' \<or> is_b64_space c \<Longrightarrow> b64_table c < 0"
  unfolding is_b64_space_def by (elim disjE) (simp_all add: b64_table_def u8_def)

lemma sextet_kept: "alphabet table \<Longrightarrow> \<not> (sextet table t k = CHR ''='' \<or> is_b64_space (sextet table t k))"
  using b64_space_value [of "sextet table t k"] by (auto simp: sextet_value)

lemma url_encode_kept: "\<forall>c \<in> set (base64url_encode s). \<not> (c = CHR ''='' \<or> is_b64_space c)"
  using sextet_kept [of BASE64URL_CHARS] by (induction s rule: base64url_encode.induct) (auto simp: Let_def)

lemma decode_url_groups: "decode_groups (base64url_encode s) = Some s"
  by (induction s rule: base64url_encode.induct)
    (simp_all add: Let_def decode_last_one decode_last_two decode_four del: decode_groups.simps, simp_all)

lemma dropWhile_id: "\<forall>c \<in> set s. \<not> P c \<Longrightarrow> dropWhile P s = s"
  by (cases s) auto

text \<open>The padded encoding is an unpadded text followed by padding only.\<close>

lemma base64_padding:
  "\<exists>body pad. base64_encode s = body @ pad \<and> set pad \<subseteq> {CHR ''=''} \<and>
     (\<forall>c \<in> set body. \<not> (c = CHR ''='' \<or> is_b64_space c)) \<and> decode_groups body = Some s"
proof (induction s rule: base64_encode.induct)
  case 1
  then show ?case by simp
next
  case (2 a)
  then show ?case
    using sextet_kept [of BASE64_CHARS] decode_last_one [of BASE64_CHARS a]
    by (intro exI [of _ "[sextet BASE64_CHARS (triple (u8 a) 0 0) 18, sextet BASE64_CHARS (triple (u8 a) 0 0) 12]"] exI [of _ "''==''"])
      (simp add: Let_def del: decode_groups.simps)
next
  case (3 a b)
  let ?t = "triple (u8 a) (u8 b) 0"
  show ?case
    using sextet_kept [of BASE64_CHARS] decode_last_two [of BASE64_CHARS a b]
    by (intro exI [of _ "[sextet BASE64_CHARS ?t 18, sextet BASE64_CHARS ?t 12, sextet BASE64_CHARS ?t 6]"] exI [of _ "''=''"])
      (simp add: Let_def del: decode_groups.simps)
next
  case (4 a b c rest)
  let ?t = "triple (u8 a) (u8 b) (u8 c)"
  let ?g = "[sextet BASE64_CHARS ?t 18, sextet BASE64_CHARS ?t 12, sextet BASE64_CHARS ?t 6, sextet BASE64_CHARS ?t 0]"
  obtain body pad where bp: "base64_encode rest = body @ pad" "set pad \<subseteq> {CHR ''=''}"
    "\<forall>c \<in> set body. \<not> (c = CHR ''='' \<or> is_b64_space c)" "decode_groups body = Some rest"
    using 4 [OF refl] by (elim exE conjE) (rule that)
  have "decode_groups (?g @ body) = Some (a # b # c # rest)"
    using decode_four [of BASE64_CHARS a b c body] bp(4) by (simp del: decode_groups.simps)
  moreover have "\<forall>c \<in> set (?g @ body). \<not> (c = CHR ''='' \<or> is_b64_space c)"
    using sextet_kept [of BASE64_CHARS ?t] bp(3) by simp
  moreover have "base64_encode (a # b # c # rest) = (?g @ body) @ pad" using bp(1) by (simp add: Let_def)
  ultimately show ?case using bp(2) by blast
qed

lemma decode_trimmed:
  assumes "set pad \<subseteq> {CHR ''=''}" "\<forall>c \<in> set body. \<not> (c = CHR ''='' \<or> is_b64_space c)"
  shows "base64url_decode (body @ pad) = decode_groups body"
proof -
  let ?P = "\<lambda>c. c = CHR ''='' \<or> is_b64_space c"
  have "dropWhile ?P (rev pad @ rev body) = dropWhile ?P (rev body)"
    using assms(1) by (intro dropWhile_append2) fastforce
  moreover have "dropWhile ?P (rev body) = rev body" using assms(2) by (intro dropWhile_id) simp
  moreover have "dropWhile is_b64_space body = body" using assms(2) by (intro dropWhile_id) blast
  ultimately show ?thesis by (simp add: base64url_decode_def)
qed

text \<open>The encoder of the handshake is the padded encoder.\<close>

lemma ws_base64_drop: "ws_base64_loop data i out = out @ base64_encode (drop i data)"
proof (induction "length data - i" arbitrary: i out rule: less_induct)
  case less
  have at: "data ! (i + k) = drop i data ! k" if "drop i data \<noteq> []" for k using that by simp
  have len: "length data - i = length (drop i data)" by simp
  show ?case
  proof (cases "drop i data" rule: base64_encode.cases)
    case 1
    then show ?thesis by (simp add: ws_base64_loop.simps [of data i])
  next
    case (2 a)
    have "i < length data" "length data - i = 1" "data ! i = a" using 2 len at [of 0] by auto
    then show ?thesis
      using less [of "Suc i"] 2 by (simp add: ws_base64_loop.simps [of data i] Let_def)
  next
    case (3 a b)
    have "i < length data" "length data - i = 2" "data ! i = a" "data ! Suc i = b" using 3 len at [of 0] at [of 1] by auto
    then show ?thesis
      using less [of "Suc (Suc i)"] 3 by (simp add: ws_base64_loop.simps [of data i] Let_def)
  next
    case (4 a b c rest)
    have "i < length data" "2 < length data - i" "data ! i = a" "data ! Suc i = b" "data ! Suc (Suc i) = c"
      using 4 len at [of 0] at [of 1] at [of 2] by auto
    moreover have "drop (Suc (Suc (Suc i))) data = rest" using 4 by (metis drop_Suc list.sel(3) tl_drop)
    ultimately show ?thesis
      using less [of "Suc (Suc (Suc i))"] 4 by (simp add: ws_base64_loop.simps [of data i] Let_def)
  qed
qed

text \<open>
  C33: Base64 round-trips. What the unpadded URL encoder writes, and what the padded encoder writes,
  the tolerant decoder reads back byte for byte, for every byte string; and the encoder of the
  WebSocket handshake writes what the padded encoder writes.
\<close>

theorem base64_roundtrip:
  "base64url_decode (base64url_encode s) = Some s \<and> base64_decode (base64_encode s) = Some s \<and>
   ws_base64_encode s = base64_encode s"
proof -
  have "base64url_decode (base64url_encode s) = Some s"
    using decode_trimmed [of "[]" "base64url_encode s"] url_encode_kept [of s] by (simp add: decode_url_groups)
  moreover have "base64_decode (base64_encode s) = Some s"
    using base64_padding [of s] decode_trimmed by (metis base64_decode_def)
  ultimately show ?thesis by (simp add: ws_base64_encode_def ws_base64_drop)
qed

end
