(* ===== verification/WebSocket_Handshake.thy ===== *)
theory WebSocket_Handshake
  imports Http_Request Base64
begin

text \<open>
  \<^verbatim>\<open>src/http/websocket/WebSocketHandshake.h\<close>: the check of an upgrade request and the 101 response with
  its accept token. \<^verbatim>\<open>SHA1\<close> of OpenSSL is an argument.
\<close>

definition WS_MAGIC_GUID :: string where
  "WS_MAGIC_GUID = ''258EAFA5-E914-47DA-95CA-C5AB0DC85B11''"

definition compute_websocket_accept :: "(string \<Rightarrow> string) \<Rightarrow> string \<Rightarrow> string" where
  "compute_websocket_accept sha1 sec_key = ws_base64_encode (sha1 (sec_key @ WS_MAGIC_GUID))"

text \<open>The walk over the comma-separated tokens of the Connection header.\<close>

function has_upgrade_token :: "simd_tier \<Rightarrow> string \<Rightarrow> bool" where
  "has_upgrade_token t conn_str =
     (if conn_str = [] then False
      else
        let comma = sv_find CHR '','' conn_str 0;
            token = trim_ows (case comma of Some c \<Rightarrow> substr conn_str 0 c | None \<Rightarrow> conn_str)
        in if iequals t token ''Upgrade'' then True
           else case comma of None \<Rightarrow> False | Some c \<Rightarrow> has_upgrade_token t (drop (c + 1) conn_str))"
  by pat_completeness auto
termination
  by (relation "measure (\<lambda>(t, s). length s)") (auto simp: sv_find_Some_iff)

declare has_upgrade_token.simps [simp del]

definition is_valid_websocket_upgrade :: "simd_tier \<Rightarrow> request \<Rightarrow> bool" where
  "is_valid_websocket_upgrade t req =
     (if rq_method req \<noteq> GET then False
      else case get_header t (rq_headers req) ''Upgrade'' of
        None \<Rightarrow> False
      | Some upgrade_hdr \<Rightarrow>
          if \<not> iequals t upgrade_hdr ''websocket'' then False
          else case get_header t (rq_headers req) ''Connection'' of
            None \<Rightarrow> False
          | Some conn_str \<Rightarrow>
              if \<not> has_upgrade_token t conn_str then False
              else case get_header t (rq_headers req) ''Sec-WebSocket-Version'' of
                None \<Rightarrow> False
              | Some ver_hdr \<Rightarrow>
                  if ver_hdr \<noteq> ''13'' then False
                  else case get_header t (rq_headers req) ''Sec-WebSocket-Key'' of
                    None \<Rightarrow> False
                  | Some key_hdr \<Rightarrow> key_hdr \<noteq> [])"

definition build_handshake_response :: "string \<Rightarrow> string" where
  "build_handshake_response accept_val =
     ''HTTP/1.1 101 Switching Protocols'' @ [CR, LF] @ ''Upgrade: websocket'' @ [CR, LF] @
     ''Connection: Upgrade'' @ [CR, LF] @ ''Sec-WebSocket-Accept: '' @ accept_val @ [CR, LF, CR, LF]"

definition build_upgrade_response_101 :: "(string \<Rightarrow> string) \<Rightarrow> string \<Rightarrow> string" where
  "build_upgrade_response_101 sha1 sec_key =
     (let accept = compute_websocket_accept sha1 sec_key
      in ''HTTP/1.1 101 Switching Protocols'' @ [CR, LF] @ ''Upgrade: websocket'' @ [CR, LF] @
         ''Connection: Upgrade'' @ [CR, LF] @ ''Sec-WebSocket-Accept: '' @ accept @ [CR, LF, CR, LF])"

subsection \<open>What the check accepts\<close>

lemma lower_literals: "map ascii_lower ''Upgrade'' = ''upgrade''" "map ascii_lower ''websocket'' = ''websocket''"
  by code_simp+

lemma iequals_literals:
  "iequals t x ''Upgrade'' \<longleftrightarrow> map ascii_lower x = ''upgrade''" "iequals t x ''websocket'' \<longleftrightarrow> map ascii_lower x = ''websocket''"
  by (simp_all only: iequals_correct lower_literals)

lemma has_upgrade_token_segments:
  "has_upgrade_token t s \<longleftrightarrow> list_ex (\<lambda>u. map ascii_lower (trim_ows u) = ''upgrade'') (segments CHR '','' s)"
proof (induction t s rule: has_upgrade_token.induct)
  case (1 t s)
  show ?case
  proof (cases "sv_find CHR '','' s 0")
    case None
    then show ?thesis
      by (simp add: has_upgrade_token.simps [of t s] segments.simps [of _ s] iequals_literals)
  next
    case (Some c)
    then have "s \<noteq> []" by (auto simp: sv_find_Some_iff)
    then show ?thesis
      using 1 Some by (auto simp: has_upgrade_token.simps [of t s] segments.simps [of _ s] iequals_literals substr_def)
  qed
qed

lemma websocket_upgrade_spec:
  "is_valid_websocket_upgrade t req \<longleftrightarrow>
     rq_method req = GET \<and>
     (\<exists>u. get_header t (rq_headers req) ''Upgrade'' = Some u \<and> map ascii_lower u = ''websocket'') \<and>
     (\<exists>c. get_header t (rq_headers req) ''Connection'' = Some c \<and>
        list_ex (\<lambda>u. map ascii_lower (trim_ows u) = ''upgrade'') (segments CHR '','' c)) \<and>
     get_header t (rq_headers req) ''Sec-WebSocket-Version'' = Some ''13'' \<and>
     (\<exists>k. get_header t (rq_headers req) ''Sec-WebSocket-Key'' = Some k \<and> k \<noteq> [])"
  by (auto simp: is_valid_websocket_upgrade_def has_upgrade_token_segments iequals_literals
      split: option.split)

text \<open>The accept token does not depend on which of the two builders writes the response.\<close>

lemma upgrade_response_builders:
  "build_upgrade_response_101 sha1 key = build_handshake_response (compute_websocket_accept sha1 key)"
  by (simp add: build_upgrade_response_101_def build_handshake_response_def)

end
