(* ===== verification/Jwt.thy ===== *)
theory Jwt
  imports Base64 Http_Response
begin

text \<open>
  \<^verbatim>\<open>src/http/jwt\<close>: the algorithm names, HMAC and asymmetric signatures over OpenSSL, key sets, the
  signer, the verifier with its claim checks, and the in-memory denylist. OpenSSL's primitives, the
  JSON library and the clock are arguments; the clock counts seconds, and sums with it are reduced to
  64 bits (\<open>int64\<close>).
\<close>

definition int64 :: "int \<Rightarrow> int" where
  "int64 i = (i + 2 ^ 63) mod 2 ^ 64 - 2 ^ 63"

subsection \<open>Algorithms\<close>

datatype jwt_algorithm = HS256 | HS384 | HS512 | RS256 | RS384 | RS512 | PS256 | PS384 | PS512 | ES256 | ES384 | ES512

primrec algorithm_to_string :: "jwt_algorithm \<Rightarrow> string" where
  "algorithm_to_string HS256 = ''HS256''"
| "algorithm_to_string HS384 = ''HS384''"
| "algorithm_to_string HS512 = ''HS512''"
| "algorithm_to_string RS256 = ''RS256''"
| "algorithm_to_string RS384 = ''RS384''"
| "algorithm_to_string RS512 = ''RS512''"
| "algorithm_to_string PS256 = ''PS256''"
| "algorithm_to_string PS384 = ''PS384''"
| "algorithm_to_string PS512 = ''PS512''"
| "algorithm_to_string ES256 = ''ES256''"
| "algorithm_to_string ES384 = ''ES384''"
| "algorithm_to_string ES512 = ''ES512''"

definition algorithm_from_string :: "string \<Rightarrow> jwt_algorithm option" where
  "algorithm_from_string s =
     (if s = ''HS256'' then Some HS256
      else if s = ''HS384'' then Some HS384
      else if s = ''HS512'' then Some HS512
      else if s = ''RS256'' then Some RS256
      else if s = ''RS384'' then Some RS384
      else if s = ''RS512'' then Some RS512
      else if s = ''PS256'' then Some PS256
      else if s = ''PS384'' then Some PS384
      else if s = ''PS512'' then Some PS512
      else if s = ''ES256'' then Some ES256
      else if s = ''ES384'' then Some ES384
      else if s = ''ES512'' then Some ES512
      else None)"

definition is_hmac :: "jwt_algorithm \<Rightarrow> bool" where
  "is_hmac alg \<longleftrightarrow> alg = HS256 \<or> alg = HS384 \<or> alg = HS512"

definition is_rsa :: "jwt_algorithm \<Rightarrow> bool" where
  "is_rsa alg \<longleftrightarrow> alg = RS256 \<or> alg = RS384 \<or> alg = RS512"

definition is_rsa_pss :: "jwt_algorithm \<Rightarrow> bool" where
  "is_rsa_pss alg \<longleftrightarrow> alg = PS256 \<or> alg = PS384 \<or> alg = PS512"

definition is_ecdsa :: "jwt_algorithm \<Rightarrow> bool" where
  "is_ecdsa alg \<longleftrightarrow> alg = ES256 \<or> alg = ES384 \<or> alg = ES512"

datatype jwt_error = MalformedToken | AlgorithmMismatch | SignatureMismatch | TokenExpired | TokenNotYetValid
  | IssuerMismatch | AudienceMismatch | ParseError | KeyError | KeyNotFound | RevokedToken

datatype digest = SHA256 | SHA384 | SHA512

definition get_evp_md :: "jwt_algorithm \<Rightarrow> digest" where
  "get_evp_md alg =
     (if alg \<in> {HS256, RS256, PS256, ES256} then SHA256
      else if alg \<in> {HS384, RS384, PS384, ES384} then SHA384 else SHA512)"

definition get_ecdsa_raw_sig_length :: "jwt_algorithm \<Rightarrow> nat" where
  "get_ecdsa_raw_sig_length alg =
     (if alg = ES256 then 64 else if alg = ES384 then 96 else if alg = ES512 then 132 else 0)"

subsection \<open>Signatures\<close>

text \<open>
  OpenSSL: HMAC, the digest-sign and digest-verify sequences (with or without PSS padding), the DER
  codec of an ECDSA signature, the conversions between numbers and bytes (padded to a length, or
  failing when the number is longer), the PEM readers and the key constructors.
\<close>

record 'k crypto =
  cr_hmac :: "digest \<Rightarrow> string \<Rightarrow> string \<Rightarrow> string option"
  cr_digest_sign :: "digest \<Rightarrow> bool \<Rightarrow> 'k \<Rightarrow> string \<Rightarrow> string option"
  cr_digest_verify :: "digest \<Rightarrow> bool \<Rightarrow> 'k \<Rightarrow> string \<Rightarrow> string \<Rightarrow> bool"
  cr_d2i_sig :: "string \<Rightarrow> (nat \<times> nat) option"
  cr_i2d_sig :: "nat \<times> nat \<Rightarrow> string option"
  cr_bn2binpad :: "nat \<Rightarrow> nat \<Rightarrow> string option"
  cr_bin2bn :: "string \<Rightarrow> nat option"
  cr_load_public :: "string \<Rightarrow> 'k option"
  cr_load_private :: "string \<Rightarrow> 'k option"
  cr_rsa_key :: "string \<Rightarrow> string \<Rightarrow> 'k option"
  cr_ec_key :: "string \<Rightarrow> string \<Rightarrow> string \<Rightarrow> 'k option"

definition sign_hmac :: "'k crypto \<Rightarrow> jwt_algorithm \<Rightarrow> string \<Rightarrow> string \<Rightarrow> string option" where
  "sign_hmac C alg key data = cr_hmac C (get_evp_md alg) key data"

definition verify_hmac :: "'k crypto \<Rightarrow> jwt_algorithm \<Rightarrow> string \<Rightarrow> string \<Rightarrow> string \<Rightarrow> bool" where
  "verify_hmac C alg key data raw_sig =
     (case sign_hmac C alg key data of
        None \<Rightarrow> False
      | Some expected \<Rightarrow> if length expected \<noteq> length raw_sig then False else expected = raw_sig)"

text \<open>The DER encoding of an ECDSA signature and its raw form, the two numbers side by side.\<close>

definition ecdsa_der_to_raw :: "'k crypto \<Rightarrow> string \<Rightarrow> nat \<Rightarrow> string option" where
  "ecdsa_der_to_raw C der expected_raw_len =
     (case cr_d2i_sig C der of
        None \<Rightarrow> None
      | Some (r, s) \<Rightarrow>
          let half_len = expected_raw_len div 2
          in case (cr_bn2binpad C r half_len, cr_bn2binpad C s half_len) of
               (Some r_bytes, Some s_bytes) \<Rightarrow> Some (r_bytes @ s_bytes)
             | _ \<Rightarrow> None)"

definition ecdsa_raw_to_der :: "'k crypto \<Rightarrow> string \<Rightarrow> nat \<Rightarrow> string option" where
  "ecdsa_raw_to_der C raw expected_raw_len =
     (if length raw \<noteq> expected_raw_len then None
      else
        let half_len = expected_raw_len div 2
        in case (cr_bin2bn C (take half_len raw), cr_bin2bn C (substr raw half_len half_len)) of
             (Some r, Some s) \<Rightarrow> cr_i2d_sig C (r, s)
           | _ \<Rightarrow> None)"

definition sign_asymmetric :: "'k crypto \<Rightarrow> jwt_algorithm \<Rightarrow> 'k option \<Rightarrow> string \<Rightarrow> string option" where
  "sign_asymmetric C alg pkey data =
     (case pkey of
        None \<Rightarrow> None
      | Some k \<Rightarrow>
          (case cr_digest_sign C (get_evp_md alg) (is_rsa_pss alg) k data of
             None \<Rightarrow> None
           | Some sig \<Rightarrow> if is_ecdsa alg then ecdsa_der_to_raw C sig (get_ecdsa_raw_sig_length alg) else Some sig))"

definition verify_asymmetric :: "'k crypto \<Rightarrow> jwt_algorithm \<Rightarrow> 'k option \<Rightarrow> string \<Rightarrow> string \<Rightarrow> bool" where
  "verify_asymmetric C alg pkey data raw_sig =
     (case pkey of
        None \<Rightarrow> False
      | Some k \<Rightarrow>
          if is_ecdsa alg then
            (case ecdsa_raw_to_der C raw_sig (get_ecdsa_raw_sig_length alg) of
               None \<Rightarrow> False
             | Some der \<Rightarrow> cr_digest_verify C (get_evp_md alg) (is_rsa_pss alg) k data der)
          else cr_digest_verify C (get_evp_md alg) (is_rsa_pss alg) k data raw_sig)"

text \<open>A PEM text holds a public key, or a private key with the public one in it.\<close>

definition load_any_pem :: "'k crypto \<Rightarrow> string \<Rightarrow> 'k option" where
  "load_any_pem C pem = (case cr_load_public C pem of Some k \<Rightarrow> Some k | None \<Rightarrow> cr_load_private C pem)"

subsection \<open>Key sets\<close>

record jwk_key =
  jk_kty :: string
  jk_use :: string
  jk_alg :: string
  jk_kid :: string
  jk_n :: string
  jk_e :: string
  jk_crv :: string
  jk_x :: string
  jk_y :: string

definition to_evp_pkey :: "'k crypto \<Rightarrow> jwk_key \<Rightarrow> 'k option" where
  "to_evp_pkey C k =
     (if jk_kty k = ''RSA'' then
        (case (base64url_decode (jk_n k), base64url_decode (jk_e k)) of
           (Some n, Some e) \<Rightarrow> cr_rsa_key C n e
         | _ \<Rightarrow> None)
      else if jk_kty k = ''EC'' then
        (case (base64url_decode (jk_x k), base64url_decode (jk_y k)) of
           (Some x, Some y) \<Rightarrow> cr_ec_key C (jk_crv k) x y
         | _ \<Rightarrow> None)
      else None)"

fun jwks_get_key :: "'k crypto \<Rightarrow> jwk_key list \<Rightarrow> string \<Rightarrow> 'k option" where
  "jwks_get_key C [] kid = None"
| "jwks_get_key C (k # ks) kid = (if jk_kid k = kid then to_evp_pkey C k else jwks_get_key C ks kid)"

subsection \<open>Documents\<close>

text \<open>
  A claims document of the JSON library: the values the code distinguishes, everything else being
  \<open>COther\<close>. A payload that is no object has no keys. \<open>js_header\<close> reads the \<^verbatim>\<open>alg\<close> and \<^verbatim>\<open>kid\<close> of a
  header.
\<close>

datatype 'd claim_value = CString string | CInt int | CDouble 'd | COther

type_synonym 'd claim_doc = "string \<rightharpoonup> 'd claim_value"

record 'd json_lib =
  js_header :: "string \<Rightarrow> (string \<times> string) option"
  js_read :: "string \<Rightarrow> 'd claim_doc option"
  js_write :: "'d claim_doc \<Rightarrow> string"
  js_trunc :: "'d \<Rightarrow> int"

definition get_str :: "'d claim_value \<Rightarrow> string option" where
  "get_str v = (case v of CString s \<Rightarrow> Some s | _ \<Rightarrow> None)"

definition get_num :: "'d json_lib \<Rightarrow> 'd claim_value \<Rightarrow> int option" where
  "get_num J v = (case v of CInt n \<Rightarrow> Some n | CDouble d \<Rightarrow> Some (js_trunc J d) | _ \<Rightarrow> None)"

definition claim_str :: "'d claim_doc \<Rightarrow> string \<Rightarrow> string option" where
  "claim_str doc k = Option.bind (doc k) get_str"

definition claim_num :: "'d json_lib \<Rightarrow> 'd claim_doc \<Rightarrow> string \<Rightarrow> int option" where
  "claim_num J doc k = Option.bind (doc k) (get_num J)"

subsection \<open>The verifier\<close>

record jwt_options =
  vo_issuer :: "string option"
  vo_audience :: "string option"
  vo_expected_kid :: "string option"
  vo_leeway :: int
  vo_denylist :: "(string \<Rightarrow> bool) option"
  vo_jwks :: "jwk_key list option"
  vo_key_resolver :: "(string \<Rightarrow> string option) option"

record 'k jwt_verifier =
  vf_alg :: jwt_algorithm
  vf_secret :: string
  vf_pkey :: "'k option"
  vf_options :: "jwt_options"

definition make_verifier :: "'k crypto \<Rightarrow> jwt_algorithm \<Rightarrow> string \<Rightarrow> jwt_options \<Rightarrow> string + 'k jwt_verifier" where
  "make_verifier C alg key_or_pem opts =
     (if is_hmac alg then
        if key_or_pem = [] then Inl ''HMAC secret cannot be empty''
        else Inr \<lparr>vf_alg = alg, vf_secret = key_or_pem, vf_pkey = None, vf_options = opts\<rparr>
      else
        (case load_any_pem C key_or_pem of
           None \<Rightarrow> Inl (''Failed to parse public key PEM for '' @ algorithm_to_string alg)
         | Some k \<Rightarrow> Inr \<lparr>vf_alg = alg, vf_secret = [], vf_pkey = Some k, vf_options = opts\<rparr>))"

definition make_dynamic_verifier :: "jwt_algorithm \<Rightarrow> jwt_options \<Rightarrow> string + 'k jwt_verifier" where
  "make_dynamic_verifier alg opts =
     (if vo_jwks opts = None \<and> vo_key_resolver opts = None
      then Inl ''Dynamic JwtVerifier requires either a jwks or key_resolver in options''
      else Inr \<lparr>vf_alg = alg, vf_secret = [], vf_pkey = None, vf_options = opts\<rparr>)"

text \<open>The three parts: header, payload, signature, and the text that is signed.\<close>

definition split_token :: "string \<Rightarrow> (string \<times> string \<times> string \<times> string) option" where
  "split_token token =
     (case sv_find CHR ''.'' token 0 of
        None \<Rightarrow> None
      | Some first_dot \<Rightarrow>
          if first_dot = 0 then None
          else
            (case sv_find CHR ''.'' token (first_dot + 1) of
               None \<Rightarrow> None
             | Some second_dot \<Rightarrow>
                 if second_dot \<le> first_dot + 1 \<or> length token \<le> second_dot + 1 then None
                 else Some (substr token 0 first_dot, substr token (first_dot + 1) (second_dot - first_dot - 1),
                            drop (second_dot + 1) token, substr token 0 second_dot)))"

text \<open>Which key verifies the signature, and whether it does.\<close>

definition check_signature ::
    "'k crypto \<Rightarrow> 'k jwt_verifier \<Rightarrow> string \<Rightarrow> string \<Rightarrow> string \<Rightarrow> jwt_error + bool" where
  "check_signature C vf kid signing_input raw_sig =
     (let alg = vf_alg vf; opts = vf_options vf
      in case vo_jwks opts of
           Some keys \<Rightarrow>
             (case (if kid \<noteq> [] then jwks_get_key C keys kid
                    else if length keys = 1 then to_evp_pkey C (hd keys) else None) of
                None \<Rightarrow> Inl KeyNotFound
              | Some pkey \<Rightarrow> Inr (verify_asymmetric C alg (Some pkey) signing_input raw_sig))
         | None \<Rightarrow>
             (case vo_key_resolver opts of
                Some resolve \<Rightarrow>
                  (case resolve kid of
                     None \<Rightarrow> Inl KeyNotFound
                   | Some key_str \<Rightarrow>
                       if is_hmac alg then Inr (verify_hmac C alg key_str signing_input raw_sig)
                       else (case load_any_pem C key_str of
                           None \<Rightarrow> Inl KeyError
                         | Some pkey \<Rightarrow> Inr (verify_asymmetric C alg (Some pkey) signing_input raw_sig)))
              | None \<Rightarrow>
                  if is_hmac alg then Inr (verify_hmac C alg (vf_secret vf) signing_input raw_sig)
                  else Inr (verify_asymmetric C alg (vf_pkey vf) signing_input raw_sig)))"

record 'a jwt_result =
  jr_claims :: 'a
  jr_issuer :: "string option"
  jr_audience :: "string option"
  jr_subject :: "string option"
  jr_jti :: "string option"
  jr_kid :: "string option"
  jr_exp :: "int option"
  jr_iat :: "int option"
  jr_nbf :: "int option"
  jr_raw_payload :: string

definition standard_claims :: "'d json_lib \<Rightarrow> 'd claim_doc \<Rightarrow> string \<Rightarrow> string \<Rightarrow> 'a \<Rightarrow> 'a jwt_result" where
  "standard_claims J doc kid payload claims =
     \<lparr>jr_claims = claims, jr_issuer = claim_str doc ''iss'', jr_audience = claim_str doc ''aud'',
      jr_subject = (case claim_str doc ''sub'' of Some s \<Rightarrow> Some s | None \<Rightarrow> map_option to_string_int (claim_num J doc ''sub'')),
      jr_jti = claim_str doc ''jti'', jr_kid = (if kid = [] then None else Some kid),
      jr_exp = claim_num J doc ''exp'', jr_iat = claim_num J doc ''iat'', jr_nbf = claim_num J doc ''nbf'',
      jr_raw_payload = payload\<rparr>"

text \<open>The rules of step 6, in the order of the code; \<open>None\<close> when all pass.\<close>

definition check_claims :: "jwt_options \<Rightarrow> int \<Rightarrow> 'a jwt_result \<Rightarrow> jwt_error option" where
  "check_claims opts now_sec r =
     (if (case jr_nbf r of Some nbf \<Rightarrow> int64 (now_sec + vo_leeway opts) < nbf | None \<Rightarrow> False) then Some TokenNotYetValid
      else if (case jr_exp r of Some e \<Rightarrow> e \<le> int64 (now_sec - vo_leeway opts) | None \<Rightarrow> False) then Some TokenExpired
      else if (case vo_issuer opts of Some i \<Rightarrow> jr_issuer r \<noteq> Some i | None \<Rightarrow> False) then Some IssuerMismatch
      else if (case vo_audience opts of Some a \<Rightarrow> jr_audience r \<noteq> Some a | None \<Rightarrow> False) then Some AudienceMismatch
      else if (case (vo_denylist opts, jr_jti r) of (Some revoked, Some jti) \<Rightarrow> revoked jti | _ \<Rightarrow> False) then Some RevokedToken
      else None)"

definition verify ::
    "'k crypto \<Rightarrow> 'd json_lib \<Rightarrow> (string \<Rightarrow> 'a option) \<Rightarrow> 'k jwt_verifier \<Rightarrow> int \<Rightarrow> string \<Rightarrow> jwt_error + 'a jwt_result" where
  "verify C J read_claims vf now_sec token =
     (case split_token token of
        None \<Rightarrow> Inl MalformedToken
      | Some (header_b64, payload_b64, sig_b64, signing_input) \<Rightarrow>
          (case Option.bind (base64url_decode header_b64) (js_header J) of
             None \<Rightarrow> Inl MalformedToken
           | Some (alg, kid) \<Rightarrow>
               if algorithm_from_string alg \<noteq> Some (vf_alg vf) then Inl AlgorithmMismatch
               else if (case vo_expected_kid (vf_options vf) of Some k \<Rightarrow> kid = [] \<or> kid \<noteq> k | None \<Rightarrow> False)
               then Inl KeyNotFound
               else
                 (case base64url_decode sig_b64 of
                    None \<Rightarrow> Inl MalformedToken
                  | Some raw_sig \<Rightarrow>
                      (case check_signature C vf kid signing_input raw_sig of
                         Inl e \<Rightarrow> Inl e
                       | Inr sig_valid \<Rightarrow>
                           if \<not> sig_valid then Inl SignatureMismatch
                           else
                             (case base64url_decode payload_b64 of
                                None \<Rightarrow> Inl MalformedToken
                              | Some payload_json \<Rightarrow>
                                  (case js_read J payload_json of
                                     None \<Rightarrow> Inl ParseError
                                   | Some doc \<Rightarrow>
                                       (case check_claims (vf_options vf) now_sec (standard_claims J doc kid payload_json ()) of
                                          Some e \<Rightarrow> Inl e
                                        | None \<Rightarrow>
                                            (case read_claims payload_json of
                                               None \<Rightarrow> Inl ParseError
                                             | Some claims \<Rightarrow> Inr (standard_claims J doc kid payload_json claims)))))))))"

subsection \<open>The signer\<close>

record 'k jwt_signer =
  sg_alg :: jwt_algorithm
  sg_secret :: string
  sg_pkey :: "'k option"
  sg_kid :: string

definition make_signer :: "'k crypto \<Rightarrow> jwt_algorithm \<Rightarrow> string \<Rightarrow> string \<Rightarrow> string + 'k jwt_signer" where
  "make_signer C alg key_or_pem kid =
     (if is_hmac alg then
        if key_or_pem = [] then Inl ''HMAC secret cannot be empty''
        else Inr \<lparr>sg_alg = alg, sg_secret = key_or_pem, sg_pkey = None, sg_kid = kid\<rparr>
      else
        (case cr_load_private C key_or_pem of
           None \<Rightarrow> Inl (''Failed to parse private key PEM for '' @ algorithm_to_string alg)
         | Some k \<Rightarrow> Inr \<lparr>sg_alg = alg, sg_secret = [], sg_pkey = Some k, sg_kid = kid\<rparr>))"

definition header_json :: "jwt_algorithm \<Rightarrow> string \<Rightarrow> string" where
  "header_json alg kid =
     ''{'' @ [CHR 0x22] @ ''alg'' @ [CHR 0x22] @ '':'' @ [CHR 0x22] @ algorithm_to_string alg @ [CHR 0x22] @
     '','' @ [CHR 0x22] @ ''typ'' @ [CHR 0x22] @ '':'' @ [CHR 0x22] @ ''JWT'' @ [CHR 0x22] @
     (if kid \<noteq> [] then '','' @ [CHR 0x22] @ ''kid'' @ [CHR 0x22] @ '':'' @ [CHR 0x22] @ kid @ [CHR 0x22] else []) @ ''}''"

text \<open>The standard claims that the signer adds to the claims of the user.\<close>

definition inject_claims :: "int \<Rightarrow> int \<Rightarrow> int option \<Rightarrow> string \<Rightarrow> 'd claim_doc \<Rightarrow> 'd claim_doc" where
  "inject_claims now_sec ttl nbf jti doc =
     (let doc = (if doc ''iat'' = None then doc(''iat'' \<mapsto> CInt now_sec) else doc);
          doc = (if doc ''nbf'' = None then doc(''nbf'' \<mapsto> CInt (case nbf of Some n \<Rightarrow> n | None \<Rightarrow> now_sec)) else doc);
          doc = (if doc ''exp'' = None \<and> ttl \<noteq> 0 then doc(''exp'' \<mapsto> CInt (int64 (now_sec + ttl))) else doc)
      in if doc ''jti'' = None then doc(''jti'' \<mapsto> CString jti) else doc)"

text \<open>
  \<open>user_payload\<close> is the JSON text of the claims, or the failure to serialise them; \<open>jti\<close> is the fresh
  UUID. The error is the exception's text, without the detail the JSON library appends.
\<close>

definition sign ::
    "'k crypto \<Rightarrow> 'd json_lib \<Rightarrow> 'k jwt_signer \<Rightarrow> int \<Rightarrow> string \<Rightarrow> string option \<Rightarrow> int \<Rightarrow> int option \<Rightarrow> string + string" where
  "sign C J sg now_sec jti user_payload ttl nbf =
     (let header_b64 = base64url_encode (header_json (sg_alg sg) (sg_kid sg))
      in case user_payload of
           None \<Rightarrow> Inl ''Failed to serialize claims into JSON''
         | Some payload \<Rightarrow>
             (case js_read J payload of
                None \<Rightarrow> Inl ''Failed to parse serialized claims JSON''
              | Some doc \<Rightarrow>
                  let payload_b64 = base64url_encode (js_write J (inject_claims now_sec ttl nbf jti doc));
                      signing_input = header_b64 @ ''.'' @ payload_b64;
                      raw_sig = (if is_hmac (sg_alg sg) then sign_hmac C (sg_alg sg) (sg_secret sg) signing_input
                                 else sign_asymmetric C (sg_alg sg) (sg_pkey sg) signing_input)
                  in case raw_sig of
                       None \<Rightarrow> Inl (''Cryptographic signing failed for '' @ algorithm_to_string (sg_alg sg))
                     | Some s \<Rightarrow> Inr (signing_input @ ''.'' @ base64url_encode s)))"

subsection \<open>Reading without verifying\<close>

definition decode_header :: "string \<Rightarrow> string option" where
  "decode_header token =
     (case sv_find CHR ''.'' token 0 of
        None \<Rightarrow> None
      | Some first_dot \<Rightarrow> if first_dot = 0 then None else base64url_decode (substr token 0 first_dot))"

definition decode_payload_json :: "string \<Rightarrow> string option" where
  "decode_payload_json token =
     (case sv_find CHR ''.'' token 0 of
        None \<Rightarrow> None
      | Some first_dot \<Rightarrow>
          (case sv_find CHR ''.'' token (first_dot + 1) of
             None \<Rightarrow> None
           | Some second_dot \<Rightarrow>
               if second_dot \<le> first_dot + 1 then None
               else base64url_decode (substr token (first_dot + 1) (second_dot - first_dot - 1))))"

definition get_algorithm :: "'d json_lib \<Rightarrow> string \<Rightarrow> jwt_algorithm option" where
  "get_algorithm J token =
     Option.bind (Option.bind (decode_header token) (js_header J)) (\<lambda>(alg, kid). algorithm_from_string alg)"

definition get_kid :: "'d json_lib \<Rightarrow> string \<Rightarrow> string option" where
  "get_kid J token =
     Option.bind (Option.bind (decode_header token) (js_header J)) (\<lambda>(alg, kid). if kid = [] then None else Some kid)"

subsection \<open>The denylist\<close>

type_synonym denylist = "string \<rightharpoonup> int"

definition is_revoked :: "int \<Rightarrow> denylist \<Rightarrow> string \<Rightarrow> bool" where
  "is_revoked now d jti = (case d jti of None \<Rightarrow> False | Some e \<Rightarrow> \<not> e < now)"

definition revoke :: "string \<Rightarrow> int \<Rightarrow> denylist \<Rightarrow> denylist" where
  "revoke jti expires_at d = d(jti \<mapsto> expires_at)"

definition prune :: "int \<Rightarrow> denylist \<Rightarrow> denylist" where
  "prune now d = (\<lambda>jti. case d jti of Some e \<Rightarrow> if e < now then None else Some e | None \<Rightarrow> None)"

definition clear_denylist :: "denylist \<Rightarrow> denylist" where
  "clear_denylist d = Map.empty"

end
