(* ===== verification/Jwt_Proofs.thy ===== *)
theory Jwt_Proofs
  imports Jwt
begin

text \<open>
  What an accepted token is, that the verifier accepts what the signer issues, and that pruning the
  denylist is not observable.
\<close>

subsection \<open>Algorithm names\<close>

lemma algorithm_roundtrip [simp]: "algorithm_from_string (algorithm_to_string alg) = Some alg"
  by (cases alg) (simp_all add: algorithm_from_string_def)

lemma algorithm_from_Some: "algorithm_from_string s = Some alg \<Longrightarrow> s = algorithm_to_string alg"
  by (auto simp: algorithm_from_string_def split: if_splits)

subsection \<open>Tokens\<close>

lemma split_token_Some:
  assumes "split_token token = Some (h, p, s, m)"
  shows "token = h @ ''.'' @ p @ ''.'' @ s \<and> m = h @ ''.'' @ p \<and> CHR ''.'' \<notin> set h \<and> CHR ''.'' \<notin> set p \<and>
    h \<noteq> [] \<and> p \<noteq> [] \<and> s \<noteq> []"
proof -
  obtain i j where i: "sv_find CHR ''.'' token 0 = Some i" "i \<noteq> 0"
    and j: "sv_find CHR ''.'' token (i + 1) = Some j" "i + 1 < j" "j + 1 < length token"
    and e: "h = substr token 0 i" "p = substr token (i + 1) (j - i - 1)" "s = drop (j + 1) token" "m = substr token 0 j"
    using assms by (auto simp: split_token_def split: option.splits if_splits)
  define a where "a = drop (i + 1) token"
  have ij: "i < length token" "token ! i = CHR ''.''" "j < length token" "token ! j = CHR ''.''"
    "\<And>k. k < i \<Longrightarrow> token ! k \<noteq> CHR ''.''" "\<And>k. i + 1 \<le> k \<Longrightarrow> k < j \<Longrightarrow> token ! k \<noteq> CHR ''.''"
    using i j by (auto simp: sv_find_Some_iff)
  have t1: "token = take i token @ ''.'' @ a" using id_take_nth_drop [OF ij(1)] ij(2) by (simp add: a_def)
  have la: "j - i - 1 < length a" "a ! (j - i - 1) = CHR ''.''" using j ij(3,4) by (simp_all add: a_def)
  have t2: "a = take (j - i - 1) a @ ''.'' @ drop (j - i) a" using id_take_nth_drop [OF la(1)] la(2) j(2) by (simp add: Suc_diff_Suc)
  have hp: "h = take i token" "p = take (j - i - 1) a" by (simp_all add: e substr_def a_def)
  have s: "s = drop (j - i) a" using j(2) by (simp add: e a_def)
  have m: "m = h @ ''.'' @ p"
  proof -
    have "m = take j (take i token @ ''.'' @ a)" using t1 by (simp add: e substr_def)
    also have "\<dots> = take i token @ ''.'' @ take (j - i - 1) a" using ij(1) j(2) by (simp add: take_Cons' min_def)
    finally show ?thesis by (simp add: hp)
  qed
  have "CHR ''.'' \<notin> set h" using ij(1,5) by (auto simp: hp in_set_conv_nth)
  moreover have "CHR ''.'' \<notin> set p" using ij(6) j(2) by (auto simp: hp in_set_conv_nth a_def)
  moreover have "h \<noteq> []" "p \<noteq> []" "s \<noteq> []" using i j ij by (auto simp: e substr_def)
  ultimately show ?thesis using t1 t2 hp s m by simp
qed

lemma split_token_join:
  assumes "CHR ''.'' \<notin> set h" "CHR ''.'' \<notin> set p" "h \<noteq> []" "p \<noteq> []" "s \<noteq> []"
  shows "split_token (h @ ''.'' @ p @ ''.'' @ s) = Some (h, p, s, h @ ''.'' @ p)"
proof -
  let ?t = "h @ ''.'' @ p @ ''.'' @ s"
  have "sv_find CHR ''.'' ?t 0 = Some (length h)"
    using assms(1) by (auto simp: sv_find_Some_iff nth_append in_set_conv_nth)
  moreover have "sv_find CHR ''.'' ?t (length h + 1) = Some (length h + 1 + length p)"
    using assms(2) by (auto simp: sv_find_Some_iff nth_append in_set_conv_nth nth_Cons' split: if_splits)
  ultimately show ?thesis using assms(3-5) by (simp add: split_token_def substr_def)
qed

subsection \<open>What the verifier accepts\<close>

lemma int64_sum: "\<bar>a\<bar> < 2 ^ 62 \<Longrightarrow> \<bar>b\<bar> < 2 ^ 62 \<Longrightarrow> int64 (a + b) = a + b \<and> int64 (a - b) = a - b"
  by (simp add: int64_def)

lemma check_claims_None:
  "check_claims opts now r = None \<longleftrightarrow>
     (\<forall>n. jr_nbf r = Some n \<longrightarrow> n \<le> int64 (now + vo_leeway opts)) \<and>
     (\<forall>e. jr_exp r = Some e \<longrightarrow> int64 (now - vo_leeway opts) < e) \<and>
     (\<forall>i. vo_issuer opts = Some i \<longrightarrow> jr_issuer r = Some i) \<and>
     (\<forall>a. vo_audience opts = Some a \<longrightarrow> jr_audience r = Some a) \<and>
     (\<forall>f j. vo_denylist opts = Some f \<longrightarrow> jr_jti r = Some j \<longrightarrow> \<not> f j)"
  by (auto simp: check_claims_def split: option.splits if_splits)

lemma standard_claims_check:
  "check_claims opts now (standard_claims J doc kid payload a) = check_claims opts now (standard_claims J doc kid payload b)"
  by (cases "vo_issuer opts"; cases "vo_audience opts"; cases "vo_denylist opts")
    (simp_all add: check_claims_def standard_claims_def)

lemma verify_Inr:
  assumes "verify C J read_claims vf now token = Inr r"
  obtains h p s hj kid raw doc claims where
    "token = h @ ''.'' @ p @ ''.'' @ s" "CHR ''.'' \<notin> set h" "CHR ''.'' \<notin> set p"
    "base64url_decode h = Some hj" "js_header J hj = Some (algorithm_to_string (vf_alg vf), kid)"
    "base64url_decode s = Some raw" "check_signature C vf kid (h @ ''.'' @ p) raw = Inr True"
    "base64url_decode p = Some (jr_raw_payload r)" "js_read J (jr_raw_payload r) = Some doc"
    "r = standard_claims J doc kid (jr_raw_payload r) claims" "read_claims (jr_raw_payload r) = Some claims"
    "check_claims (vf_options vf) now r = None"
    "\<forall>k. vo_expected_kid (vf_options vf) = Some k \<longrightarrow> kid = k"
proof -
  obtain h p s m where sp: "split_token token = Some (h, p, s, m)"
    using assms by (auto simp: verify_def split: option.splits)
  obtain hj alg kid where hd: "base64url_decode h = Some hj" "js_header J hj = Some (alg, kid)"
    using assms sp by (auto simp: verify_def bind_eq_Some_conv split: option.splits)
  obtain raw pj doc claims where rest: "algorithm_from_string alg = Some (vf_alg vf)"
    "\<forall>k. vo_expected_kid (vf_options vf) = Some k \<longrightarrow> kid = k"
    "base64url_decode s = Some raw" "check_signature C vf kid m raw = Inr True" "base64url_decode p = Some pj"
    "js_read J pj = Some doc" "check_claims (vf_options vf) now (standard_claims J doc kid pj ()) = None"
    "read_claims pj = Some claims" "r = standard_claims J doc kid pj claims"
    using assms sp hd by (auto simp: verify_def split: option.splits if_splits sum.splits)
  have "jr_raw_payload r = pj" using rest(9) by (simp add: standard_claims_def)
  then show ?thesis
    using that [of h p s hj kid raw doc claims] split_token_Some [OF sp] hd rest algorithm_from_Some [OF rest(1)]
      standard_claims_check [of "vf_options vf" now J doc kid pj "()" claims] by simp
qed

text \<open>The key that a verifier trusts for a token, and the signature check with it.\<close>

definition trusted_signature :: "'k crypto \<Rightarrow> 'k jwt_verifier \<Rightarrow> string \<Rightarrow> string \<Rightarrow> string \<Rightarrow> bool" where
  "trusted_signature C vf kid msg sig \<longleftrightarrow>
     (case vo_jwks (vf_options vf) of
        Some keys \<Rightarrow> (\<exists>k \<in> set keys. (kid = [] \<longrightarrow> keys = [k]) \<and> (kid \<noteq> [] \<longrightarrow> jk_kid k = kid) \<and>
           (\<exists>pkey. to_evp_pkey C k = Some pkey \<and> verify_asymmetric C (vf_alg vf) (Some pkey) msg sig))
      | None \<Rightarrow>
          (case vo_key_resolver (vf_options vf) of
             Some resolve \<Rightarrow> (\<exists>key. resolve kid = Some key \<and>
               (if is_hmac (vf_alg vf) then sign_hmac C (vf_alg vf) key msg = Some sig
                else \<exists>pkey. load_any_pem C key = Some pkey \<and> verify_asymmetric C (vf_alg vf) (Some pkey) msg sig))
           | None \<Rightarrow>
               if is_hmac (vf_alg vf) then sign_hmac C (vf_alg vf) (vf_secret vf) msg = Some sig
               else verify_asymmetric C (vf_alg vf) (vf_pkey vf) msg sig))"

lemma verify_hmac_iff: "verify_hmac C alg key msg sig \<longleftrightarrow> sign_hmac C alg key msg = Some sig"
  by (auto simp: verify_hmac_def split: option.split)

lemma jwks_get_key_Some: "jwks_get_key C keys kid = Some k \<Longrightarrow> \<exists>j \<in> set keys. jk_kid j = kid \<and> to_evp_pkey C j = Some k"
  by (induction keys) (auto split: if_splits)

lemma check_signature_trusted: "check_signature C vf kid msg sig = Inr True \<Longrightarrow> trusted_signature C vf kid msg sig"
  by (auto simp: check_signature_def trusted_signature_def Let_def verify_hmac_iff length_Suc_conv
      dest!: jwks_get_key_Some split: option.splits if_splits)

subsection \<open>What the signer issues\<close>

lemma encode_no_dot: "CHR ''.'' \<notin> set (base64url_encode s)"
proof -
  have "sextet BASE64URL_CHARS t k \<noteq> CHR ''.''" for t k
  proof
    assume "sextet BASE64URL_CHARS t k = CHR ''.''"
    then have "b64_table CHR ''.'' = int (t div 2 ^ k mod 64)" using sextet_value [of BASE64URL_CHARS t k] by simp
    then show False by (simp add: b64_table_def u8_def)
  qed
  then show ?thesis by (induction s rule: base64url_encode.induct) (auto simp: Let_def dest: sym)
qed

lemma encode_not_Nil [simp]: "base64url_encode s = [] \<longleftrightarrow> s = []"
  by (cases s rule: base64url_encode.cases) (simp_all add: Let_def)

lemma decode_encode [simp]: "base64url_decode (base64url_encode s) = Some s"
  using decode_trimmed [of "[]" "base64url_encode s"] url_encode_kept [of s] by (simp add: decode_url_groups)

text \<open>A document whose times and identifier are left to the signer.\<close>

definition unset :: "'d claim_doc \<Rightarrow> bool" where
  "unset doc \<longleftrightarrow> doc ''iat'' = None \<and> doc ''nbf'' = None \<and> doc ''exp'' = None \<and> doc ''jti'' = None"

lemma inject_lookup:
  assumes "unset doc"
  shows "claim_num J (inject_claims now ttl nbf jti doc) ''exp'' = (if ttl = 0 then None else Some (int64 (now + ttl)))"
    "claim_num J (inject_claims now ttl nbf jti doc) ''nbf'' = Some (case nbf of Some n \<Rightarrow> n | None \<Rightarrow> now)"
    "claim_str (inject_claims now ttl nbf jti doc) ''jti'' = Some jti"
    "claim_str (inject_claims now ttl nbf jti doc) ''iss'' = claim_str doc ''iss''"
    "claim_str (inject_claims now ttl nbf jti doc) ''aud'' = claim_str doc ''aud''"
  using assms by (simp_all add: unset_def inject_claims_def Let_def claim_num_def claim_str_def get_num_def get_str_def)

text \<open>
  The JSON library as far as one token needs it: it reads what the signer wrote as a header, it reads
  back the document it wrote, and the text of the document is not empty.
\<close>

definition json_faithful :: "'d json_lib \<Rightarrow> jwt_algorithm \<Rightarrow> string \<Rightarrow> 'd claim_doc \<Rightarrow> bool" where
  "json_faithful J alg kid doc \<longleftrightarrow>
     js_header J (header_json alg kid) = Some (algorithm_to_string alg, kid) \<and>
     js_read J (js_write J doc) = Some doc \<and> js_write J doc \<noteq> []"

lemma header_json_not_Nil [simp]: "header_json alg kid \<noteq> []"
  by (simp add: header_json_def)

text \<open>An issued token in the hands of a verifier with the same secret: only the claim rules decide.\<close>

lemma verify_signed:
  assumes hmac: "is_hmac alg" and J: "json_faithful J alg kid (inject_claims now ttl nbf jti doc)" and doc: "js_read J payload = Some doc"
    and signed: "sign C J \<lparr>sg_alg = alg, sg_secret = secret, sg_pkey = None, sg_kid = kid\<rparr> now jti (Some payload) ttl nbf = Inr token"
    and mac: "\<And>m. cr_hmac C (get_evp_md alg) secret m \<noteq> Some []"
    and keys: "vo_jwks opts = None" "vo_key_resolver opts = None"
    and kid: "\<And>k. vo_expected_kid opts = Some k \<Longrightarrow> kid = k \<and> kid \<noteq> []"
  shows "verify C J read_claims \<lparr>vf_alg = alg, vf_secret = secret, vf_pkey = None, vf_options = opts\<rparr> later token =
    (let doc' = inject_claims now ttl nbf jti doc; pj = js_write J doc'
     in case check_claims opts later (standard_claims J doc' kid pj ()) of
          Some e \<Rightarrow> Inl e
        | None \<Rightarrow> (case read_claims pj of None \<Rightarrow> Inl ParseError | Some claims \<Rightarrow> Inr (standard_claims J doc' kid pj claims)))"
proof -
  let ?h = "base64url_encode (header_json alg kid)" and ?doc = "inject_claims now ttl nbf jti doc"
  let ?p = "base64url_encode (js_write J ?doc)"
  obtain mac where m: "cr_hmac C (get_evp_md alg) secret (?h @ ''.'' @ ?p) = Some mac" "token = ?h @ ''.'' @ ?p @ ''.'' @ base64url_encode mac"
    using signed hmac doc by (auto simp: sign_def sign_hmac_def Let_def split: option.splits)
  have "mac \<noteq> []" using mac m(1) by blast
  then have sp: "split_token token = Some (?h, ?p, base64url_encode mac, ?h @ ''.'' @ ?p)"
    unfolding m(2) using J by (intro split_token_join) (simp_all add: encode_no_dot json_faithful_def)
  have k: "\<not> (case vo_expected_kid opts of Some k \<Rightarrow> kid = [] \<or> kid \<noteq> k | None \<Rightarrow> False)"
    using kid by (simp split: option.split) blast
  have c: "check_signature C \<lparr>vf_alg = alg, vf_secret = secret, vf_pkey = None, vf_options = opts\<rparr> kid (?h @ ''.'' @ ?p) mac = Inr True"
    using hmac keys m(1) by (simp add: check_signature_def Let_def verify_hmac_iff sign_hmac_def)
  show ?thesis using sp k c J by (simp add: verify_def json_faithful_def Let_def)
qed

text \<open>A toy instance for examples: the signature is the secret and the message, the JSON texts are fixed.\<close>

definition ex_crypto :: "unit crypto" where
  "ex_crypto = \<lparr>cr_hmac = (\<lambda>d k m. Some (k @ m)), cr_digest_sign = (\<lambda>d b k m. None), cr_digest_verify = (\<lambda>d b k m s. False),
     cr_d2i_sig = (\<lambda>s. None), cr_i2d_sig = (\<lambda>rs. None), cr_bn2binpad = (\<lambda>n l. None), cr_bin2bn = (\<lambda>s. None), cr_load_public = (\<lambda>s. None), cr_load_private = (\<lambda>s. None),
     cr_rsa_key = (\<lambda>n e. None), cr_ec_key = (\<lambda>c x y. None)\<rparr>"

definition ex_doc :: "int claim_doc" where
  "ex_doc = inject_claims 100 60 None ''id'' Map.empty"

definition ex_json :: "int json_lib" where
  "ex_json = \<lparr>js_header = (\<lambda>s. Some (''HS256'', [])), js_read = (\<lambda>s. if s = ''{}'' then Some Map.empty else Some ex_doc),
     js_write = (\<lambda>d. ''claims''), js_trunc = (\<lambda>d. d)\<rparr>"

definition ex_signer :: "unit jwt_signer" where
  "ex_signer = \<lparr>sg_alg = HS256, sg_secret = ''key'', sg_pkey = None, sg_kid = []\<rparr>"

definition ex_token :: string where
  "ex_token = projr (sign ex_crypto ex_json ex_signer 100 ''id'' (Some ''{}'') 60 None)"

definition ex_options :: jwt_options where
  "ex_options = \<lparr>vo_issuer = None, vo_audience = None, vo_expected_kid = None, vo_leeway = 0,
     vo_denylist = Some (\<lambda>j. False), vo_jwks = None, vo_key_resolver = None\<rparr>"

definition ex_verifier :: "unit jwt_verifier" where
  "ex_verifier = \<lparr>vf_alg = HS256, vf_secret = ''key'', vf_pkey = None, vf_options = ex_options\<rparr>"

lemma ex_signed: "sign ex_crypto ex_json ex_signer 100 ''id'' (Some ''{}'') 60 None = Inr ex_token"
  by (simp add: ex_token_def sign_def ex_crypto_def ex_json_def ex_signer_def is_hmac_def sign_hmac_def Let_def)

lemma ex_faithful: "json_faithful ex_json HS256 [] (inject_claims 100 60 None ''id'' Map.empty)"
  by (simp add: json_faithful_def ex_json_def ex_doc_def)

lemma ex_verified: "\<exists>r. verify ex_crypto ex_json Some ex_verifier 120 ex_token = Inr r"
proof -
  have "verify ex_crypto ex_json Some ex_verifier 120 ex_token =
    (let doc' = inject_claims 100 60 None ''id'' Map.empty; pj = js_write ex_json doc'
     in case check_claims ex_options 120 (standard_claims ex_json doc' [] pj ()) of
          Some e \<Rightarrow> Inl e
        | None \<Rightarrow> (case Some pj of None \<Rightarrow> Inl ParseError | Some claims \<Rightarrow> Inr (standard_claims ex_json doc' [] pj claims)))"
    unfolding ex_verifier_def
    by (rule verify_signed [OF _ ex_faithful _ ex_signed [unfolded ex_signer_def]])
      (simp_all add: is_hmac_def ex_json_def ex_crypto_def ex_options_def)
  moreover have "check_claims ex_options 120 (standard_claims ex_json (inject_claims 100 60 None ''id'' Map.empty) [] pj ()) = None" for pj
    by (simp add: check_claims_def ex_options_def standard_claims_def inject_lookup unset_def int64_def)
  ultimately show ?thesis by (simp add: Let_def)
qed

text \<open>The value of a claim that holds a number, in either of the two forms the JSON library has for it.\<close>

definition number_claim :: "'d json_lib \<Rightarrow> 'd claim_doc \<Rightarrow> string \<Rightarrow> int \<Rightarrow> bool" where
  "number_claim J doc k n \<longleftrightarrow> doc k = Some (CInt n) \<or> (\<exists>x. doc k = Some (CDouble x) \<and> js_trunc J x = n)"

lemma claim_num_iff: "claim_num J doc k = Some n \<longleftrightarrow> number_claim J doc k n"
  by (cases "doc k"; cases "the (doc k)") (auto simp: claim_num_def number_claim_def get_num_def)

lemma claim_str_iff: "claim_str doc k = Some s \<longleftrightarrow> doc k = Some (CString s)"
  by (cases "doc k"; cases "the (doc k)") (auto simp: claim_str_def get_str_def)

text \<open>
  C13: An accepted token is authentic and current. It has exactly the form header, payload,
  signature; its header names the configured algorithm, so neither an unsigned token nor one signed
  under another algorithm passes; the signature verifies the exact bytes of header and payload under
  a key the verifier trusts (an entry of the key set with the token's key id, the resolver's key, or
  the configured one); and the document that the signed payload holds satisfies the configured rules:
  a numeric not-before time is not after now plus the leeway, a numeric expiry is after now less the
  leeway, issuer and audience are the configured ones, and its identifier is not on the denylist. The
  claims, times, issuer, audience and identifier that are reported are those of that document. Clock
  and leeway are below \<open>2 ^ 62\<close>, so that their sum does not overflow.
\<close>

theorem jwt_verify_sound:
  assumes "verify C J read_claims vf now token = Inr r"
    and "\<bar>now\<bar> < 2 ^ 62" "\<bar>vo_leeway (vf_options vf)\<bar> < 2 ^ 62"
  shows "\<exists>h p s kid hj raw pj doc. token = h @ ''.'' @ p @ ''.'' @ s \<and> CHR ''.'' \<notin> set (h @ p) \<and>
    base64url_decode h = Some hj \<and> js_header J hj = Some (algorithm_to_string (vf_alg vf), kid) \<and>
    (\<forall>k. vo_expected_kid (vf_options vf) = Some k \<longrightarrow> kid = k) \<and>
    base64url_decode s = Some raw \<and> trusted_signature C vf kid (h @ ''.'' @ p) raw \<and>
    base64url_decode p = Some pj \<and> js_read J pj = Some doc \<and> read_claims pj = Some (jr_claims r) \<and>
    (\<forall>n. number_claim J doc ''nbf'' n \<longrightarrow> n \<le> now + vo_leeway (vf_options vf)) \<and>
    (\<forall>e. number_claim J doc ''exp'' e \<longrightarrow> now - vo_leeway (vf_options vf) < e) \<and>
    (\<forall>i. vo_issuer (vf_options vf) = Some i \<longrightarrow> doc ''iss'' = Some (CString i)) \<and>
    (\<forall>a. vo_audience (vf_options vf) = Some a \<longrightarrow> doc ''aud'' = Some (CString a)) \<and>
    (\<forall>f j. vo_denylist (vf_options vf) = Some f \<longrightarrow> doc ''jti'' = Some (CString j) \<longrightarrow> \<not> f j) \<and>
    (\<forall>n. jr_nbf r = Some n \<longleftrightarrow> number_claim J doc ''nbf'' n) \<and>
    (\<forall>e. jr_exp r = Some e \<longleftrightarrow> number_claim J doc ''exp'' e) \<and>
    (\<forall>n. jr_iat r = Some n \<longleftrightarrow> number_claim J doc ''iat'' n) \<and>
    (\<forall>i. jr_issuer r = Some i \<longleftrightarrow> doc ''iss'' = Some (CString i)) \<and>
    (\<forall>a. jr_audience r = Some a \<longleftrightarrow> doc ''aud'' = Some (CString a)) \<and>
    (\<forall>j. jr_jti r = Some j \<longleftrightarrow> doc ''jti'' = Some (CString j))"
proof -
  obtain h p s hj kid raw doc claims where v: "token = h @ ''.'' @ p @ ''.'' @ s" "CHR ''.'' \<notin> set h" "CHR ''.'' \<notin> set p"
    "base64url_decode h = Some hj" "js_header J hj = Some (algorithm_to_string (vf_alg vf), kid)"
    "base64url_decode s = Some raw" "check_signature C vf kid (h @ ''.'' @ p) raw = Inr True"
    "base64url_decode p = Some (jr_raw_payload r)" "js_read J (jr_raw_payload r) = Some doc"
    "r = standard_claims J doc kid (jr_raw_payload r) claims" "read_claims (jr_raw_payload r) = Some claims"
    "check_claims (vf_options vf) now r = None"
    "\<forall>k. vo_expected_kid (vf_options vf) = Some k \<longrightarrow> kid = k"
    by (rule verify_Inr [OF assms(1)])
  have r: "jr_claims r = claims" "jr_nbf r = claim_num J doc ''nbf''" "jr_exp r = claim_num J doc ''exp''" "jr_iat r = claim_num J doc ''iat''"
    "jr_issuer r = claim_str doc ''iss''" "jr_audience r = claim_str doc ''aud''" "jr_jti r = claim_str doc ''jti''"
    by (subst v(10), simp add: standard_claims_def)+
  have "CHR ''.'' \<notin> set (h @ p)" "read_claims (jr_raw_payload r) = Some (jr_claims r)" using v(2,3,11) r(1) by simp_all
  moreover note check_signature_trusted [OF v(7)]
    v(12) [unfolded check_claims_None r claim_num_iff claim_str_iff conjunct1 [OF int64_sum [OF assms(2,3)]] conjunct2 [OF int64_sum [OF assms(2,3)]]]
  ultimately show ?thesis
    unfolding r(2-) claim_num_iff claim_str_iff
    by - (rule exI [of _ h], rule exI [of _ p], rule exI [of _ s], rule exI [of _ kid], rule exI [of _ hj],
        rule exI [of _ raw], rule exI [of _ "jr_raw_payload r"], rule exI [of _ doc], simp add: v(1,4,5,6,8,9,13), blast)
qed

theorem jwt_verify_sound_witness:
  "\<exists>r pj doc. verify ex_crypto ex_json Some ex_verifier 120 ex_token = Inr r \<and> js_read ex_json pj = Some doc \<and>
    (\<forall>e. number_claim ex_json doc ''exp'' e \<longrightarrow> 120 < e)"
proof -
  obtain r where r: "verify ex_crypto ex_json Some ex_verifier 120 ex_token = Inr r" using ex_verified by blast
  have l: "vo_leeway (vf_options ex_verifier) = 0" by (simp add: ex_verifier_def ex_options_def)
  then have "\<bar>120 :: int\<bar> < 2 ^ 62" "\<bar>vo_leeway (vf_options ex_verifier)\<bar> < 2 ^ 62" by simp_all
  from jwt_verify_sound [OF r this] obtain pj doc where
    "js_read ex_json pj = Some doc" "\<forall>e. number_claim ex_json doc ''exp'' e \<longrightarrow> 120 - vo_leeway (vf_options ex_verifier) < e"
    by (elim exE conjE) (rule that)
  with r l show ?thesis by auto
qed



subsection \<open>Revocation\<close>

text \<open>Pruning changes no answer now or later, and a revocation holds until its expiry.\<close>

lemma prune_invisible: "now \<le> later \<Longrightarrow> is_revoked later (prune now d) jti = is_revoked later d jti"
  by (auto simp: is_revoked_def prune_def split: option.split)

lemma revoke_holds: "is_revoked now (revoke jti e d) j \<longleftrightarrow> (if j = jti then now \<le> e else is_revoked now d j)"
  by (auto simp: is_revoked_def revoke_def)

end
