(* ===== verification/Auth_Guards.thy ===== *)
theory Auth_Guards
  imports Router_Proofs Jwt_Proofs
begin

text \<open>
  \<^verbatim>\<open>src/http/middleware/Auth.h\<close> and \<^verbatim>\<open>RbacGuard.h\<close>: the four authentication middlewares, their JWT
  variants and the three role guards. A validator is application code: it may change the context
  and may throw. The principal's type is the key under which the context stores it.
\<close>

subsection \<open>Refusals\<close>

definition default_send_unauthorized ::
    "simd_tier \<Rightarrow> (problem_details \<Rightarrow> string) \<Rightarrow> string \<Rightarrow> string option \<Rightarrow> ('v, 'w) ctx \<Rightarrow> ('v, 'w) ctx" where
  "default_send_unauthorized t to_json detail www_authenticate c =
     (let res = res_header t ''Content-Type'' ''application/problem+json'' (set_status Unauthorized (cx_res c));
          res = (case www_authenticate of Some ch \<Rightarrow> res_header t ''WWW-Authenticate'' ch res | None \<Rightarrow> res);
          pd = \<lparr>pd_type = ''about:blank'', pd_title = ''Unauthorized'', pd_status = 401, pd_detail = detail, pd_instance = []\<rparr>
      in c\<lparr>cx_res := set_body (to_json pd) res\<rparr>)"

definition send_forbidden ::
    "simd_tier \<Rightarrow> (problem_details \<Rightarrow> string) \<Rightarrow> string \<Rightarrow> ('v, 'w) ctx \<Rightarrow> ('v, 'w) ctx" where
  "send_forbidden t to_json detail c =
     (let res = res_header t ''Content-Type'' ''application/problem+json'' (set_status Forbidden (cx_res c));
          pd = \<lparr>pd_type = ''about:blank'', pd_title = ''Forbidden'', pd_status = 403, pd_detail = detail, pd_instance = []\<rparr>
      in c\<lparr>cx_res := set_body (to_json pd) res\<rparr>)"

definition is_trimmed_char :: "char \<Rightarrow> bool" where
  "is_trimmed_char ch \<longleftrightarrow> ch = SP \<or> ch = HTAB \<or> ch = CR \<or> ch = LF"

definition trim_whitespace :: "string \<Rightarrow> string" where
  "trim_whitespace s = rev (dropWhile is_trimmed_char (rev (dropWhile is_trimmed_char s)))"

definition iequals_prefix :: "string \<Rightarrow> string \<Rightarrow> bool" where
  "iequals_prefix s pre \<longleftrightarrow> length pre \<le> length s \<and> list_all2 (\<lambda>a b. ascii_lower a = ascii_lower b) (take (length pre) s) pre"

subsection \<open>Options and the common failure path\<close>

text \<open>
  The options of the bearer, cookie and API-key schemes have the same members; those of the basic
  scheme take the two credentials and a realm, which is passed apart.
\<close>

type_synonym ('c, 'k, 'v) validator = "'k \<Rightarrow> 'c \<Rightarrow> 'c \<times> (exn + 'v option)"

record ('c, 'k, 'v) auth_options =
  ao_validator :: "('c, 'k, 'v) validator"
  ao_on_unauthorized :: "('c \<Rightarrow> 'c outcome) option"
  ao_abort_on_failure :: bool

definition auth_fail ::
    "simd_tier \<Rightarrow> (problem_details \<Rightarrow> string) \<Rightarrow> (('v, 'w) ctx, 'k, 'v) auth_options \<Rightarrow> string \<Rightarrow> string option \<Rightarrow>
     ('v, 'w) ctx middleware" where
  "auth_fail t to_json opts detail www c next =
     (case (case ao_on_unauthorized opts of
              Some f \<Rightarrow> f c
            | None \<Rightarrow> (default_send_unauthorized t to_json detail www c, None)) of
        (c, Some e) \<Rightarrow> (c, Some e)
      | (c, None) \<Rightarrow> if ao_abort_on_failure opts then (c, None) else next c)"

definition auth_validate ::
    "simd_tier \<Rightarrow> (problem_details \<Rightarrow> string) \<Rightarrow> string \<Rightarrow> (('v, 'w) ctx, 'k, 'v) auth_options \<Rightarrow> 'k \<Rightarrow> string \<Rightarrow>
     string option \<Rightarrow> ('v, 'w) ctx middleware" where
  "auth_validate t to_json ty opts credential detail www c next =
     (case ao_validator opts credential c of
        (c, Inl e) \<Rightarrow> (c, Some e)
      | (c, Inr None) \<Rightarrow> auth_fail t to_json opts detail www c next
      | (c, Inr (Some who)) \<Rightarrow> next (ctx_set ty who c))"

subsection \<open>Authentication\<close>

definition bearer_auth ::
    "simd_tier \<Rightarrow> (problem_details \<Rightarrow> string) \<Rightarrow> string \<Rightarrow> (('v, 'w) ctx, string, 'v) auth_options \<Rightarrow> ('v, 'w) ctx middleware" where
  "bearer_auth t to_json ty opts c next =
     (let www = Some ''Bearer'';
          missing = ''Authentication credentials are missing or invalid.''
      in case get_header t (rq_headers (cx_req c)) ''authorization'' of
           None \<Rightarrow> auth_fail t to_json opts missing www c next
         | Some auth_header \<Rightarrow>
             let header_val = trim_whitespace auth_header
             in if \<not> iequals_prefix header_val ''bearer ''
                then auth_fail t to_json opts ''Authentication scheme must be Bearer.'' www c next
                else
                  let token = trim_whitespace (drop 7 header_val)
                  in if token = [] then auth_fail t to_json opts ''Bearer token is empty.'' www c next
                     else auth_validate t to_json ty opts token missing www c next)"

definition cookie_auth ::
    "simd_tier \<Rightarrow> (problem_details \<Rightarrow> string) \<Rightarrow> string \<Rightarrow> string \<Rightarrow> (('v, 'w) ctx, string, 'v) auth_options \<Rightarrow>
     ('v, 'w) ctx middleware" where
  "cookie_auth t to_json ty name opts c next =
     (let missing = ''Authentication session cookie is missing or invalid.''
      in case cookie t (cx_req c) name of
           None \<Rightarrow> auth_fail t to_json opts missing None c next
         | Some cookie_val \<Rightarrow>
             if cookie_val = [] then auth_fail t to_json opts missing None c next
             else auth_validate t to_json ty opts cookie_val missing None c next)"

definition api_key_auth ::
    "simd_tier \<Rightarrow> (problem_details \<Rightarrow> string) \<Rightarrow> string \<Rightarrow> string \<Rightarrow> (('v, 'w) ctx, string, 'v) auth_options \<Rightarrow>
     ('v, 'w) ctx middleware" where
  "api_key_auth t to_json ty name opts c next =
     (let missing = ''API key is missing or invalid.''
      in case get_header t (rq_headers (cx_req c)) name of
           None \<Rightarrow> auth_fail t to_json opts missing None c next
         | Some key_val \<Rightarrow>
             if key_val = [] then auth_fail t to_json opts missing None c next
             else auth_validate t to_json ty opts key_val missing None c next)"

definition basic_auth ::
    "simd_tier \<Rightarrow> (problem_details \<Rightarrow> string) \<Rightarrow> string \<Rightarrow> string \<Rightarrow> (('v, 'w) ctx, string \<times> string, 'v) auth_options \<Rightarrow>
     ('v, 'w) ctx middleware" where
  "basic_auth t to_json ty realm opts c next =
     (let www = Some (''Basic realm='' @ [CHR 0x22] @ realm @ [CHR 0x22]);
          missing = ''Authentication credentials are missing or invalid.''
      in case get_header t (rq_headers (cx_req c)) ''authorization'' of
           None \<Rightarrow> auth_fail t to_json opts missing www c next
         | Some auth_header \<Rightarrow>
             let header_val = trim_whitespace auth_header
             in if \<not> iequals_prefix header_val ''basic ''
                then auth_fail t to_json opts ''Authentication scheme must be Basic.'' www c next
                else
                  (case base64_decode (trim_whitespace (drop 6 header_val)) of
                     None \<Rightarrow> auth_fail t to_json opts ''Invalid Base64 encoding for Basic credentials.'' www c next
                   | Some decoded \<Rightarrow>
                       (case sv_find CHR '':'' decoded 0 of
                          None \<Rightarrow>
                            auth_fail t to_json opts ''Malformed Basic credentials: missing colon delimiter.'' www c next
                        | Some colon_pos \<Rightarrow>
                            auth_validate t to_json ty opts (take colon_pos decoded, drop (colon_pos + 1) decoded)
                              missing www c next)))"

text \<open>
  The overloads that take a verifier: the validator is the verifier, at the time the clock of the
  context's world shows.
\<close>

definition jwt_validator ::
    "'k crypto \<Rightarrow> 'd json_lib \<Rightarrow> (string \<Rightarrow> 'v option) \<Rightarrow> 'k jwt_verifier \<Rightarrow> ('w \<Rightarrow> int) \<Rightarrow> (('v, 'w) ctx, string, 'v) validator" where
  "jwt_validator C J read_claims vf clock token c =
     (c, Inr (case verify C J read_claims vf (clock (cx_world c)) token of Inl e \<Rightarrow> None | Inr r \<Rightarrow> Some (jr_claims r)))"

definition jwt_auth_options ::
    "'k crypto \<Rightarrow> 'd json_lib \<Rightarrow> (string \<Rightarrow> 'v option) \<Rightarrow> 'k jwt_verifier \<Rightarrow> ('w \<Rightarrow> int) \<Rightarrow>
     (('v, 'w) ctx \<Rightarrow> ('v, 'w) ctx outcome) option \<Rightarrow> (('v, 'w) ctx, string, 'v) auth_options" where
  "jwt_auth_options C J read_claims vf clock on_unauthorized =
     \<lparr>ao_validator = jwt_validator C J read_claims vf clock, ao_on_unauthorized = on_unauthorized,
      ao_abort_on_failure = True\<rparr>"

definition bearer_auth_jwt where
  "bearer_auth_jwt t to_json ty C J read_claims vf clock on_unauthorized =
     bearer_auth t to_json ty (jwt_auth_options C J read_claims vf clock on_unauthorized)"

definition cookie_auth_jwt where
  "cookie_auth_jwt t to_json ty name C J read_claims vf clock on_unauthorized =
     cookie_auth t to_json ty name (jwt_auth_options C J read_claims vf clock on_unauthorized)"

subsection \<open>Roles\<close>

definition has_role :: "string list \<Rightarrow> string \<Rightarrow> bool" where
  "has_role roles target \<longleftrightarrow> list_ex (\<lambda>r. r = target) roles"

definition no_principal :: string where
  "no_principal = ''Authentication principal is missing from request context.''"

definition missing_role :: "string \<Rightarrow> string" where
  "missing_role role = ''Access denied: missing required role '' @ [CHR 0x27] @ role @ [CHR 0x27] @ ''.''"

definition require_role ::
    "simd_tier \<Rightarrow> (problem_details \<Rightarrow> string) \<Rightarrow> string \<Rightarrow> ('v \<Rightarrow> string list) \<Rightarrow> string \<Rightarrow> ('v, 'w) ctx middleware" where
  "require_role t to_json ty get_roles role c next =
     (case ctx_get ty c of
        None \<Rightarrow> (send_forbidden t to_json no_principal c, None)
      | Some who \<Rightarrow>
          if \<not> has_role (get_roles who) role then (send_forbidden t to_json (missing_role role) c, None)
          else next c)"

definition require_roles ::
    "simd_tier \<Rightarrow> (problem_details \<Rightarrow> string) \<Rightarrow> string \<Rightarrow> ('v \<Rightarrow> string list) \<Rightarrow> string list \<Rightarrow> ('v, 'w) ctx middleware" where
  "require_roles t to_json ty get_roles roles c next =
     (case ctx_get ty c of
        None \<Rightarrow> (send_forbidden t to_json no_principal c, None)
      | Some who \<Rightarrow>
          (case List.find (\<lambda>required. \<not> has_role (get_roles who) required) roles of
             Some required \<Rightarrow> (send_forbidden t to_json (missing_role required) c, None)
           | None \<Rightarrow> next c))"

definition require_any_role ::
    "simd_tier \<Rightarrow> (problem_details \<Rightarrow> string) \<Rightarrow> string \<Rightarrow> ('v \<Rightarrow> string list) \<Rightarrow> string list \<Rightarrow> ('v, 'w) ctx middleware" where
  "require_any_role t to_json ty get_roles roles c next =
     (case ctx_get ty c of
        None \<Rightarrow> (send_forbidden t to_json no_principal c, None)
      | Some who \<Rightarrow>
          if \<not> list_ex (has_role (get_roles who)) roles
          then (send_forbidden t to_json ''Access denied: requires at least one authorized role.'' c, None)
          else next c)"

subsection \<open>Gates\<close>

text \<open>
  What the guards have in common: a gate either lets the request through, in a context it has
  prepared, or answers itself, whatever follows it in the chain. The laws of chains of gates are
  proved once.
\<close>

locale gate =
  fixes mw :: "'c middleware" and admit :: "'c \<Rightarrow> 'c option" and refuse :: "'c \<Rightarrow> 'c outcome"
  assumes gate_eq: "mw c next = (case admit c of Some c' \<Rightarrow> next c' | None \<Rightarrow> refuse c)"
begin

lemma passes: "admit c = Some c' \<Longrightarrow> mw c next = next c'"
  by (simp add: gate_eq)

lemma blocks: "admit c = None \<Longrightarrow> mw c next = mw c next'"
  by (simp add: gate_eq)

lemma chain: "run_chain [] (mw # rest) 0 h c =
    (case admit c of Some c' \<Rightarrow> run_chain [] rest 0 h c' | None \<Rightarrow> refuse c)"
  by (simp add: run_chain_drop gate_eq split: option.split)

end

text \<open>The token of a bearer header, and the bearer gate of a verifier.\<close>

definition bearer_token :: "simd_tier \<Rightarrow> request \<Rightarrow> string option" where
  "bearer_token t req =
     (case get_header t (rq_headers req) ''authorization'' of
        None \<Rightarrow> None
      | Some h \<Rightarrow> if iequals_prefix (trim_whitespace h) ''bearer '' then Some (trim_whitespace (drop 7 (trim_whitespace h))) else None)"

definition jwt_admit where
  "jwt_admit t ty C J read_claims vf clock c =
     (case bearer_token t (cx_req c) of
        None \<Rightarrow> None
      | Some token \<Rightarrow>
          (case verify C J read_claims vf (clock (cx_world c)) token of
             Inl e \<Rightarrow> None
           | Inr r \<Rightarrow> Some (ctx_set ty (jr_claims r) c)))"

definition role_admit where
  "role_admit ty get_roles role c =
     (case ctx_get ty c of Some p \<Rightarrow> if has_role (get_roles p) role then Some c else None | None \<Rightarrow> None)"

lemma trim_last:
  assumes "trim_whitespace s \<noteq> []"
  shows "\<not> is_trimmed_char (last (trim_whitespace s))"
proof -
  have "dropWhile is_trimmed_char (rev (dropWhile is_trimmed_char s)) \<noteq> []" using assms by (simp add: trim_whitespace_def)
  then show ?thesis by (metis hd_dropWhile last_rev trim_whitespace_def)
qed

lemma trim_Nil_iff: "trim_whitespace s = [] \<longleftrightarrow> (\<forall>ch \<in> set s. is_trimmed_char ch)"
  by (auto simp: trim_whitespace_def dropWhile_eq_Nil_conv dest: set_dropWhileD)
    (metis dropWhile_eq_Nil_conv set_rev dropWhile_idem)

lemma ascii_lower_space: "ascii_lower ch = ascii_lower CHR '' '' \<Longrightarrow> ch = SP"
proof (rule ccontr)
  assume e: "ascii_lower ch = ascii_lower CHR '' ''" and ne: "ch \<noteq> SP"
  have "u8 (ascii_lower CHR '' '') = 32" by (simp add: ascii_lower_def u8_def)
  then have u: "u8 (ascii_lower ch) = 32" using e by simp
  show False
  proof (cases "65 \<le> u8 ch \<and> u8 ch \<le> 90")
    case True
    then have "u8 (ascii_lower ch) = u8 ch + 32" by (simp add: ascii_lower_def u8_def)
    then show False using u True by simp
  next
    case False
    then have "u8 ch = u8 SP" using u by (auto simp: ascii_lower_def u8_def)
    then show False using ne by simp
  qed
qed

text \<open>Since the header is trimmed first, the scheme is never followed by an empty token.\<close>

lemma bearer_token_nonempty:
  assumes "iequals_prefix (trim_whitespace h) ''bearer ''"
  shows "trim_whitespace (drop 7 (trim_whitespace h)) \<noteq> []"
proof
  let ?v = "trim_whitespace h"
  assume "trim_whitespace (drop 7 ?v) = []"
  moreover have l: "7 \<le> length ?v" using assms by (simp add: iequals_prefix_def)
  have "ascii_lower (?v ! 6) = ascii_lower (''bearer '' ! 6)"
    using assms by (simp add: iequals_prefix_def list_all2_conv_all_nth)
  then have sp: "is_trimmed_char (?v ! 6)" by (auto simp: is_trimmed_char_def dest: ascii_lower_space)
  have "?v \<noteq> []" using l by auto
  then have nt: "\<not> is_trimmed_char (last ?v)" by (rule trim_last)
  ultimately show False
  proof (cases "length ?v = 7")
    case True
    then show False using sp nt \<open>?v \<noteq> []\<close> by (simp add: last_conv_nth)
  next
    case False
    then have "last ?v \<in> set (drop 7 ?v)" using l by (metis drop_eq_Nil last_drop last_in_set le_neq_implies_less not_le)
    then show False using \<open>trim_whitespace (drop 7 ?v) = []\<close> nt by (simp add: trim_Nil_iff)
  qed
qed


interpretation jwt_gate: gate "bearer_auth_jwt t to_json ty C J read_claims vf clock None" "jwt_admit t ty C J read_claims vf clock"
    "\<lambda>c. bearer_auth_jwt t to_json ty C J read_claims vf clock None c (\<lambda>c. (c, None))"
  for t to_json ty C J read_claims vf clock
proof
  fix c and "next"
  show "bearer_auth_jwt t to_json ty C J read_claims vf clock None c next =
    (case jwt_admit t ty C J read_claims vf clock c of Some c' \<Rightarrow> next c'
     | None \<Rightarrow> bearer_auth_jwt t to_json ty C J read_claims vf clock None c (\<lambda>c. (c, None)))"
    using bearer_token_nonempty
    by (simp add: bearer_auth_jwt_def bearer_auth_def jwt_admit_def bearer_token_def auth_fail_def auth_validate_def
        jwt_auth_options_def jwt_validator_def Let_def split: option.split sum.split)
qed

interpretation role_gate: gate "require_role t to_json ty get_roles role" "role_admit ty get_roles role"
    "\<lambda>c. require_role t to_json ty get_roles role c (\<lambda>c. (c, None))"
  for t to_json ty get_roles role
  by unfold_locales (simp add: require_role_def role_admit_def split: option.split)

interpretation roles_gate: gate "require_roles t to_json ty get_roles roles"
    "\<lambda>c. case ctx_get ty c of Some p \<Rightarrow> if set roles \<subseteq> set (get_roles p) then Some c else None | None \<Rightarrow> None"
    "\<lambda>c. require_roles t to_json ty get_roles roles c (\<lambda>c. (c, None))"
  for t to_json ty get_roles roles
proof unfold_locales
  fix c "next"
  have "List.find (\<lambda>r. \<not> has_role (get_roles p) r) roles = None \<longleftrightarrow> set roles \<subseteq> set (get_roles p)" for p
    by (auto simp: find_None_iff has_role_def list_ex_iff)
  note f = this
  show "require_roles t to_json ty get_roles roles c next =
    (case (case ctx_get ty c of Some p \<Rightarrow> if set roles \<subseteq> set (get_roles p) then Some c else None | None \<Rightarrow> None) of
       Some c' \<Rightarrow> next c' | None \<Rightarrow> require_roles t to_json ty get_roles roles c (\<lambda>c. (c, None)))"
  proof (cases "ctx_get ty c")
    case (Some p)
    then show ?thesis
      using f [of p] by (cases "List.find (\<lambda>r. \<not> has_role (get_roles p) r) roles") (auto simp: require_roles_def)
  qed (simp add: require_roles_def)
qed

interpretation any_role_gate: gate "require_any_role t to_json ty get_roles roles"
    "\<lambda>c. case ctx_get ty c of Some p \<Rightarrow> if set roles \<inter> set (get_roles p) \<noteq> {} then Some c else None | None \<Rightarrow> None"
    "\<lambda>c. require_any_role t to_json ty get_roles roles c (\<lambda>c. (c, None))"
  for t to_json ty get_roles roles
proof unfold_locales
  fix c "next"
  have "list_ex (has_role (get_roles p)) roles \<longleftrightarrow> set roles \<inter> set (get_roles p) \<noteq> {}" for p
    by (auto simp: has_role_def list_ex_iff)
  then show "require_any_role t to_json ty get_roles roles c next =
    (case (case ctx_get ty c of Some p \<Rightarrow> if set roles \<inter> set (get_roles p) \<noteq> {} then Some c else None | None \<Rightarrow> None) of
       Some c' \<Rightarrow> next c' | None \<Rightarrow> require_any_role t to_json ty get_roles roles c (\<lambda>c. (c, None)))"
    by (auto simp: require_any_role_def split: option.split)
qed

lemma has_role_iff: "has_role roles r \<longleftrightarrow> r \<in> set roles"
  by (auto simp: has_role_def list_ex_iff)

lemma ctx_set_simps [simp]:
  "ctx_get ty (ctx_set ty v c) = Some v" "cx_req (ctx_set ty v c) = cx_req c" "cx_res (ctx_set ty v c) = cx_res c"
  "cx_world (ctx_set ty v c) = cx_world c"
  by (simp_all add: ctx_get_def ctx_set_def)

lemma send_unauthorized_simps [simp]:
  "rs_status (cx_res (default_send_unauthorized t to_json d w c)) = Unauthorized"
  "cx_req (default_send_unauthorized t to_json d w c) = cx_req c"
  "cx_world (default_send_unauthorized t to_json d w c) = cx_world c"
  by (simp_all add: default_send_unauthorized_def Let_def set_body_def res_header_def set_status_def split: option.split)

lemma send_forbidden_simps [simp]:
  "rs_status (cx_res (send_forbidden t to_json d c)) = Forbidden"
  "cx_req (send_forbidden t to_json d c) = cx_req c" "cx_world (send_forbidden t to_json d c) = cx_world c"
  by (simp_all add: send_forbidden_def Let_def set_body_def res_header_def set_status_def)

definition refused :: "status_code \<Rightarrow> ('v, 'w) ctx \<Rightarrow> ('v, 'w) ctx outcome \<Rightarrow> bool" where
  "refused st c out \<longleftrightarrow> snd out = None \<and> rs_status (cx_res (fst out)) = st \<and>
     cx_req (fst out) = cx_req c \<and> cx_world (fst out) = cx_world c"

lemma jwt_refusal:
  "jwt_admit t ty C J rc vf clock c = None \<Longrightarrow>
    refused Unauthorized c (bearer_auth_jwt t to_json ty C J rc vf clock None c (\<lambda>c. (c, None)))"
  using bearer_token_nonempty
  by (simp add: refused_def bearer_auth_jwt_def bearer_auth_def jwt_admit_def bearer_token_def auth_fail_def auth_validate_def
      jwt_auth_options_def jwt_validator_def Let_def split: option.splits sum.splits if_splits)

lemma role_refusal:
  "role \<notin> set (get_roles v) \<Longrightarrow>
    refused Forbidden c (require_role t to_json ty get_roles role (ctx_set ty v c) (\<lambda>c. (c, None)))"
  by (simp add: refused_def require_role_def has_role_iff)

text \<open>
  C15: A route behind \<^verbatim>\<open>bearer_auth(verifier)\<close> and \<^verbatim>\<open>require_role(role)\<close> is reached only by an
  authenticated principal that holds the role. When the request carries a bearer token that the
  verifier accepts now and whose claims name the role, the rest of the chain runs, with exactly
  those claims as the principal in the context; a token that is missing or rejected gives 401 and
  one without the role 403, and then neither the handler nor any later middleware has run, whatever
  they are: the request and the world are as before.
\<close>

theorem jwt_guarded_route:
  "let out = run_chain [] (bearer_auth_jwt t to_json ty C J read_claims vf clock None #
        require_role t to_json ty get_roles role # rest) 0 h c
   in (case bearer_token t (cx_req c) of
        None \<Rightarrow> refused Unauthorized c out
      | Some token \<Rightarrow>
          (case verify C J read_claims vf (clock (cx_world c)) token of
             Inl e \<Rightarrow> refused Unauthorized c out
           | Inr r \<Rightarrow>
               if role \<in> set (get_roles (jr_claims r))
               then out = run_chain [] rest 0 h (ctx_set ty (jr_claims r) c)
               else refused Forbidden c out))"
  using jwt_refusal [of t ty C J read_claims vf clock c to_json] role_refusal [of role get_roles _ c t to_json ty]
  by (simp add: Let_def jwt_gate.chain role_gate.chain role_admit_def jwt_admit_def has_role_iff split: option.split sum.split)

subsection \<open>Basic credentials\<close>

lemma trim_id:
  assumes "s \<noteq> []" "\<not> is_trimmed_char (hd s)" "\<not> is_trimmed_char (last s)"
  shows "trim_whitespace s = s"
proof -
  have "dropWhile is_trimmed_char s = s" using assms(1,2) by (cases s) simp_all
  moreover have "dropWhile is_trimmed_char (rev s) = rev s" using assms(1,3) by (cases "rev s") (simp_all add: last_rev flip: hd_rev)
  ultimately show ?thesis by (simp add: trim_whitespace_def)
qed

lemma base64_not_space: "ch \<in> set (base64_encode s) \<Longrightarrow> \<not> is_trimmed_char ch"
proof -
  have "\<not> is_trimmed_char (sextet BASE64_CHARS t k)" for t k
    using sextet_kept [of BASE64_CHARS t k] by (simp add: is_trimmed_char_def is_b64_space_def)
  then show "ch \<in> set (base64_encode s) \<Longrightarrow> ?thesis"
    by (induction s rule: base64_encode.induct) (auto simp: Let_def is_trimmed_char_def)
qed

text \<open>
  Basic credentials reach the validator exactly. For every user name without a colon and every
  password, the header a client builds (the Base64 of \<open>user:password\<close> after the scheme) makes the
  middleware call the validator with that user name and that password, colons and any other bytes
  in the password included.
\<close>

theorem basic_auth_exact:
  assumes "get_header t (rq_headers (cx_req c)) ''authorization'' = Some (''Basic '' @ base64_encode (user @ '':'' @ password))"
    and "CHR '':'' \<notin> set user"
  shows "basic_auth t to_json ty realm opts c next =
    (case ao_validator opts (user, password) c of
       (c, Inl e) \<Rightarrow> (c, Some e)
     | (c, Inr None) \<Rightarrow> auth_fail t to_json opts ''Authentication credentials are missing or invalid.''
           (Some (''Basic realm='' @ [CHR 0x22] @ realm @ [CHR 0x22])) c next
     | (c, Inr (Some who)) \<Rightarrow> next (ctx_set ty who c))"
proof -
  let ?b = "base64_encode (user @ '':'' @ password)"
  have ne: "?b \<noteq> []" by (cases "user @ '':'' @ password" rule: base64_encode.cases) (simp_all add: Let_def)
  have hl: "\<not> is_trimmed_char (hd ?b)" "\<not> is_trimmed_char (last ?b)"
    using base64_not_space [OF hd_in_set [OF ne]] base64_not_space [OF last_in_set [OF ne]] .
  then have t: "trim_whitespace ?b = ?b" using ne by (intro trim_id)
  have "\<not> is_trimmed_char CHR ''B''" by (simp add: is_trimmed_char_def)
  then have v: "trim_whitespace (''Basic '' @ ?b) = ''Basic '' @ ?b" using ne hl by (intro trim_id) simp_all
  have "ascii_lower CHR ''B'' = ascii_lower CHR ''b''" by code_simp
  then have p: "iequals_prefix (''Basic '' @ ?b) ''basic ''" by (simp add: iequals_prefix_def)
  have f: "sv_find CHR '':'' (user @ '':'' @ password) 0 = Some (length user)"
    using assms(2) by (auto simp: sv_find_Some_iff nth_append in_set_conv_nth)
  have d: "base64_decode ?b = Some (user @ '':'' @ password)"
    using base64_padding [of "user @ '':'' @ password"] decode_trimmed by (metis base64_decode_def)
  have s: "drop 6 (''Basic '' @ ?b) = ?b" by simp
  show ?thesis
    unfolding basic_auth_def Let_def assms(1) option.case v s t d f
    using p by (simp add: auth_validate_def split: prod.split sum.split option.split)
qed

definition basic_request :: request where
  "basic_request = initial_request\<lparr>rq_headers :=
     set_header Scalar ''Authorization'' (''Basic '' @ base64_encode ''ann:a:b'') empty_map\<rparr>"

definition one_user :: "((string, unit) ctx, string \<times> string, string) auth_options" where
  "one_user = \<lparr>ao_validator = (\<lambda>(u, p) c. (c, Inr (if u = ''ann'' \<and> p = ''a:b'' then Some u else None))),
     ao_on_unauthorized = None, ao_abort_on_failure = True\<rparr>"

theorem basic_auth_exact_witness:
  "ctx_get ''User'' (fst (basic_auth Scalar pd_detail ''User'' ''Access'' one_user
      \<lparr>cx_req = basic_request, cx_res = initial_response, cx_local_store = Map.empty, cx_world = ()\<rparr> (\<lambda>c. (c, None)))) = Some ''ann''"
proof -
  have "same_name ''Authorization'' ''authorization''" by code_simp
  then have "get_header Scalar (rq_headers basic_request) ''authorization'' = Some (''Basic '' @ base64_encode (''ann'' @ '':'' @ ''a:b''))"
    by (simp add: basic_request_def hm.lookup_put [OF inv_empty])
  then show ?thesis
    by (subst basic_auth_exact [where user = "''ann''" and password = "''a:b''"]) (simp_all add: one_user_def)
qed

end
