(* ===== verification/Http_Middleware.thy ===== *)
theory Http_Middleware
  imports Router_Proofs
begin

text \<open>
  \<^verbatim>\<open>src/http/middleware/Cors.h\<close>, \<^verbatim>\<open>SecurityHeaders.h\<close>, \<^verbatim>\<open>Compress.h\<close> and \<^verbatim>\<open>AccessLog.h\<close>: the
  middlewares that dress a response. The compression library, the clock and log of the world, and
  the formatting of fractions are arguments.
\<close>

subsection \<open>Origins\<close>

definition sv_ends_with :: "string \<Rightarrow> string \<Rightarrow> bool" where
  "sv_ends_with s p \<longleftrightarrow> length p \<le> length s \<and> drop (length s - length p) s = p"

definition match_origin_pattern :: "string \<Rightarrow> string \<Rightarrow> bool" where
  "match_origin_pattern pattern origin =
     (case sv_find CHR ''*'' pattern 0 of
        None \<Rightarrow> pattern = origin
      | Some star_pos \<Rightarrow>
          let pre = take star_pos pattern
          in if \<not> starts_with origin pre then False
             else
               let rem_pattern = drop (star_pos + 1) pattern;
                   rem_origin = drop (length pre) origin
               in case sv_find CHR ''*'' rem_pattern 0 of
                    None \<Rightarrow> sv_ends_with rem_origin rem_pattern \<and> length rem_pattern \<le> length rem_origin
                  | Some second_star \<Rightarrow>
                      let mid = take second_star rem_pattern;
                          suf = drop (second_star + 1) rem_pattern
                      in case sv_find_str mid rem_origin 0 of
                           None \<Rightarrow> False
                         | Some mid_pos \<Rightarrow>
                             let end_origin = drop (mid_pos + length mid) rem_origin
                             in sv_ends_with end_origin suf \<and> length suf \<le> length end_origin)"

record cors_config =
  cc_allowed_origins :: "string list"
  cc_origin_patterns :: "string list"
  cc_origin_validator :: "(string \<Rightarrow> bool) option"
  cc_allowed_methods :: "http_method list"
  cc_allowed_headers :: "string list"
  cc_expose_headers :: "string list"
  cc_allow_credentials :: bool
  cc_allow_private_network :: bool
  cc_max_age :: int
  cc_vary_header :: bool

definition cors_default :: cors_config where
  "cors_default = \<lparr>cc_allowed_origins = [], cc_origin_patterns = [], cc_origin_validator = None,
     cc_allowed_methods = [GET, POST, PUT, DELETE, PATCH, OPTIONS, HEAD], cc_allowed_headers = [''*''],
     cc_expose_headers = [], cc_allow_credentials = False, cc_allow_private_network = False, cc_max_age = 86400,
     cc_vary_header = True\<rparr>"

definition cors_permissive :: cors_config where
  "cors_permissive = cors_default\<lparr>cc_allowed_origins := [''*'']\<rparr>"

definition cors_strict :: "string list \<Rightarrow> bool \<Rightarrow> cors_config" where
  "cors_strict origins credentials = cors_default\<lparr>cc_allowed_origins := origins, cc_allow_credentials := credentials,
     cc_allowed_headers := [''Authorization'', ''Content-Type'', ''X-Requested-With'', ''Accept'', ''Origin'', ''X-Request-ID''],
     cc_expose_headers := [''X-Request-ID'', ''Content-Length'']\<rparr>"

text \<open>The loop over the exact origins: the first that is the wildcard or the origin itself.\<close>

fun scan_origins :: "string \<Rightarrow> string list \<Rightarrow> (bool \<times> bool) option" where
  "scan_origins origin [] = None"
| "scan_origins origin (allowed # rest) =
     (if allowed = ''*'' then Some (True, True)
      else if allowed = origin then Some (True, False)
      else scan_origins origin rest)"

text \<open>Whether the origin is allowed, and whether by the wildcard.\<close>

definition is_origin_allowed :: "cors_config \<Rightarrow> string \<Rightarrow> bool \<times> bool" where
  "is_origin_allowed cfg origin =
     (case scan_origins origin (cc_allowed_origins cfg) of
        Some r \<Rightarrow> r
      | None \<Rightarrow>
          if list_ex (\<lambda>p. match_origin_pattern p origin) (cc_origin_patterns cfg) then (True, False)
          else case cc_origin_validator cfg of
                 Some f \<Rightarrow> (f origin, False)
               | None \<Rightarrow> (False, False))"

fun join_with :: "string \<Rightarrow> string list \<Rightarrow> string" where
  "join_with d [] = []"
| "join_with d [x] = x"
| "join_with d (x # y # xs) = x @ d @ join_with d (y # xs)"

definition join_methods :: "http_method list \<Rightarrow> string" where
  "join_methods ms = join_with '', '' (map method_to_string ms)"

definition allow_origin_headers :: "simd_tier \<Rightarrow> cors_config \<Rightarrow> string \<Rightarrow> bool \<Rightarrow> response \<Rightarrow> response" where
  "allow_origin_headers t cfg origin is_wildcard res =
     (if cc_allow_credentials cfg then
        res_header t ''access-control-allow-credentials'' ''true'' (res_header t ''access-control-allow-origin'' origin res)
      else if is_wildcard then res_header t ''access-control-allow-origin'' ''*'' res
      else res_header t ''access-control-allow-origin'' origin res)"

definition preflight_headers :: "simd_tier \<Rightarrow> cors_config \<Rightarrow> request \<Rightarrow> response \<Rightarrow> response" where
  "preflight_headers t cfg req res =
     (let rh = rq_headers req;
          res = res_header t ''access-control-allow-methods'' (join_methods (cc_allowed_methods cfg)) res;
          res = res_header t ''access-control-allow-headers''
                  (if cc_allowed_headers cfg = [''*''] then
                     (case get_header t rh ''access-control-request-headers'' of Some h \<Rightarrow> h | None \<Rightarrow> ''*'')
                   else join_with '', '' (cc_allowed_headers cfg)) res;
          res = res_header t ''access-control-max-age'' (to_string_int (cc_max_age cfg)) res;
          res = (if cc_allow_private_network cfg \<and> get_header t rh ''access-control-request-private-network'' = Some ''true''
                 then res_header t ''access-control-allow-private-network'' ''true'' res else res);
          res = (if cc_vary_header cfg
                 then res_header t ''vary'' ''Origin, Access-Control-Request-Method, Access-Control-Request-Headers'' res
                 else res)
      in set_status NoContent res)"

definition is_preflight :: "simd_tier \<Rightarrow> request \<Rightarrow> bool" where
  "is_preflight t req \<longleftrightarrow> rq_method req = OPTIONS \<and> contains t (rq_headers req) ''access-control-request-method''"

definition cors :: "simd_tier \<Rightarrow> cors_config \<Rightarrow> ('v, 'w) ctx middleware" where
  "cors t cfg c next =
     (case get_header t (rq_headers (cx_req c)) ''origin'' of
        None \<Rightarrow> next c
      | Some origin \<Rightarrow>
          let (allowed, is_wildcard) = is_origin_allowed cfg origin
          in if is_preflight t (cx_req c) then
               if \<not> allowed then (c\<lparr>cx_res := set_status NoContent (cx_res c)\<rparr>, None)
               else (c\<lparr>cx_res := preflight_headers t cfg (cx_req c) (allow_origin_headers t cfg origin is_wildcard (cx_res c))\<rparr>, None)
             else if allowed then
               let res = allow_origin_headers t cfg origin is_wildcard (cx_res c);
                   exposed = join_with '', '' (cc_expose_headers cfg);
                   res = (if exposed \<noteq> [] then res_header t ''access-control-expose-headers'' exposed res else res);
                   res = (if cc_vary_header cfg then res_header t ''vary'' ''Origin'' res else res)
               in next (c\<lparr>cx_res := res\<rparr>)
             else next c)"

subsection \<open>Security headers\<close>

datatype frame_option = FO_Deny | FO_SameOrigin | FO_Disabled

primrec frame_option_string :: "frame_option \<Rightarrow> string" where
  "frame_option_string FO_Deny = ''DENY''"
| "frame_option_string FO_SameOrigin = ''SAMEORIGIN''"
| "frame_option_string FO_Disabled = []"

datatype referrer_policy = RP_NoReferrer | RP_NoReferrerWhenDowngrade | RP_SameOrigin | RP_Origin | RP_StrictOrigin
  | RP_OriginWhenCrossOrigin | RP_StrictOriginWhenCrossOrigin | RP_UnsafeUrl

primrec referrer_policy_string :: "referrer_policy \<Rightarrow> string" where
  "referrer_policy_string RP_NoReferrer = ''no-referrer''"
| "referrer_policy_string RP_NoReferrerWhenDowngrade = ''no-referrer-when-downgrade''"
| "referrer_policy_string RP_SameOrigin = ''same-origin''"
| "referrer_policy_string RP_Origin = ''origin''"
| "referrer_policy_string RP_StrictOrigin = ''strict-origin''"
| "referrer_policy_string RP_OriginWhenCrossOrigin = ''origin-when-cross-origin''"
| "referrer_policy_string RP_StrictOriginWhenCrossOrigin = ''strict-origin-when-cross-origin''"
| "referrer_policy_string RP_UnsafeUrl = ''unsafe-url''"

datatype coop_policy = COOP_SameOrigin | COOP_SameOriginAllowPopups | COOP_UnsafeNone | COOP_Disabled

primrec coop_string :: "coop_policy \<Rightarrow> string" where
  "coop_string COOP_SameOrigin = ''same-origin''"
| "coop_string COOP_SameOriginAllowPopups = ''same-origin-allow-popups''"
| "coop_string COOP_UnsafeNone = ''unsafe-none''"
| "coop_string COOP_Disabled = []"

datatype coep_policy = COEP_RequireCorp | COEP_Credentialless | COEP_UnsafeNone | COEP_Disabled

primrec coep_string :: "coep_policy \<Rightarrow> string" where
  "coep_string COEP_RequireCorp = ''require-corp''"
| "coep_string COEP_Credentialless = ''credentialless''"
| "coep_string COEP_UnsafeNone = ''unsafe-none''"
| "coep_string COEP_Disabled = []"

datatype corp_policy = CORP_SameOrigin | CORP_SameSite | CORP_CrossOrigin | CORP_Disabled

primrec corp_string :: "corp_policy \<Rightarrow> string" where
  "corp_string CORP_SameOrigin = ''same-origin''"
| "corp_string CORP_SameSite = ''same-site''"
| "corp_string CORP_CrossOrigin = ''cross-origin''"
| "corp_string CORP_Disabled = []"

record hsts_config =
  hs_enabled :: bool
  hs_max_age :: int
  hs_include_subdomains :: bool
  hs_preload :: bool

definition hsts_serialize :: "hsts_config \<Rightarrow> string" where
  "hsts_serialize h =
     (if \<not> hs_enabled h then []
      else ''max-age='' @ to_string_int (hs_max_age h) @ (if hs_include_subdomains h then ''; includeSubDomains'' else []) @
           (if hs_preload h then ''; preload'' else []))"

record security_config =
  sc_content_type_nosniff :: bool
  sc_frame_options :: frame_option
  sc_xss_protection_disabled :: bool
  sc_referrer_policy :: referrer_policy
  sc_hsts :: hsts_config
  sc_content_security_policy :: string
  sc_csp_report_only :: bool
  sc_permissions_policy :: string
  sc_coop :: coop_policy
  sc_coep :: coep_policy
  sc_corp :: corp_policy
  sc_prevent_browser_caching :: bool

definition security_defaults :: security_config where
  "security_defaults = \<lparr>sc_content_type_nosniff = True, sc_frame_options = FO_Deny, sc_xss_protection_disabled = True,
     sc_referrer_policy = RP_StrictOriginWhenCrossOrigin,
     sc_hsts = \<lparr>hs_enabled = True, hs_max_age = 31536000, hs_include_subdomains = True, hs_preload = False\<rparr>,
     sc_content_security_policy = [], sc_csp_report_only = False, sc_permissions_policy = [], sc_coop = COOP_SameOrigin,
     sc_coep = COEP_Disabled, sc_corp = CORP_SameOrigin, sc_prevent_browser_caching = False\<rparr>"

definition security_api :: security_config where
  "security_api = security_defaults\<lparr>sc_frame_options := FO_Deny, sc_referrer_policy := RP_NoReferrer,
     sc_coop := COOP_SameOrigin, sc_corp := CORP_SameOrigin\<rparr>"

definition static_headers :: "security_config \<Rightarrow> (string \<times> string) list" where
  "static_headers cfg =
     (if sc_content_type_nosniff cfg then [(''x-content-type-options'', ''nosniff'')] else []) @
     (if sc_frame_options cfg \<noteq> FO_Disabled then [(''x-frame-options'', frame_option_string (sc_frame_options cfg))] else []) @
     (if sc_xss_protection_disabled cfg then [(''x-xss-protection'', ''0'')] else []) @
     [(''referrer-policy'', referrer_policy_string (sc_referrer_policy cfg))] @
     (if hs_enabled (sc_hsts cfg) \<and> hsts_serialize (sc_hsts cfg) \<noteq> []
      then [(''strict-transport-security'', hsts_serialize (sc_hsts cfg))] else []) @
     (if sc_content_security_policy cfg \<noteq> []
      then [(if sc_csp_report_only cfg then ''content-security-policy-report-only'' else ''content-security-policy'',
             sc_content_security_policy cfg)] else []) @
     (if sc_permissions_policy cfg \<noteq> [] then [(''permissions-policy'', sc_permissions_policy cfg)] else []) @
     (if sc_coop cfg \<noteq> COOP_Disabled then [(''cross-origin-opener-policy'', coop_string (sc_coop cfg))] else []) @
     (if sc_coep cfg \<noteq> COEP_Disabled then [(''cross-origin-embedder-policy'', coep_string (sc_coep cfg))] else []) @
     (if sc_corp cfg \<noteq> CORP_Disabled then [(''cross-origin-resource-policy'', corp_string (sc_corp cfg))] else []) @
     (if sc_prevent_browser_caching cfg
      then [(''cache-control'', ''no-cache, no-store, max-age=0, must-revalidate''), (''pragma'', ''no-cache''), (''expires'', ''0'')]
      else [])"

definition security_headers :: "simd_tier \<Rightarrow> security_config \<Rightarrow> ('v, 'w) ctx middleware" where
  "security_headers t cfg c next =
     next (c\<lparr>cx_res := fold (\<lambda>(name, value). res_header t name value) (static_headers cfg) (cx_res c)\<rparr>)"

subsection \<open>Compression\<close>

text \<open>
  libdeflate: whether a compressor of a level and a decompressor can be had, the two compressors (the
  empty result is the failure code 0) and the two decompressors with an output capacity.
\<close>

datatype inflate_result = Inflated string | InsufficientSpace | BadData

record deflate_lib =
  dl_level_ok :: "int \<Rightarrow> bool"
  dl_gzip :: "int \<Rightarrow> string \<Rightarrow> string"
  dl_zlib :: "int \<Rightarrow> string \<Rightarrow> string"
  dl_decomp_ok :: bool
  dl_gunzip :: "string \<Rightarrow> nat \<Rightarrow> inflate_result"
  dl_inflate :: "string \<Rightarrow> nat \<Rightarrow> inflate_result"

record compress_options =
  co_level :: int
  co_min_size :: nat
  co_gzip :: bool
  co_deflate :: bool
  co_prefer_deflate :: bool
  co_vary :: bool

definition default_compress :: compress_options where
  "default_compress = \<lparr>co_level = 1, co_min_size = 256, co_gzip = True, co_deflate = True, co_prefer_deflate = True, co_vary = True\<rparr>"

definition gzip_compress :: "deflate_lib \<Rightarrow> string \<Rightarrow> int \<Rightarrow> string option" where
  "gzip_compress D input level =
     (if input = [] then None
      else if \<not> dl_level_ok D level then None
      else let out = dl_gzip D level input in if out = [] then None else Some out)"

definition deflate_compress :: "deflate_lib \<Rightarrow> string \<Rightarrow> int \<Rightarrow> string option" where
  "deflate_compress D input level =
     (if input = [] then None
      else if \<not> dl_level_ok D level then None
      else let out = dl_zlib D level input in if out = [] then None else Some out)"

text \<open>The decompressors: one attempt with four times the input, one with eight times that, capped.\<close>

definition two_attempts :: "(string \<Rightarrow> nat \<Rightarrow> inflate_result) \<Rightarrow> string \<Rightarrow> nat \<Rightarrow> string option" where
  "two_attempts f input max_out =
     (if input = [] then None
      else
        let n = max (size_wrap (length input * 4)) 1024;
            res = (case f input n of InsufficientSpace \<Rightarrow> f input (min max_out (size_wrap (n * 8))) | r \<Rightarrow> r)
        in case res of Inflated s \<Rightarrow> Some s | _ \<Rightarrow> None)"

definition gzip_decompress :: "deflate_lib \<Rightarrow> string \<Rightarrow> nat \<Rightarrow> string option" where
  "gzip_decompress D input max_out =
     (if input \<noteq> [] \<and> \<not> dl_decomp_ok D then None else two_attempts (dl_gunzip D) input max_out)"

definition deflate_decompress :: "deflate_lib \<Rightarrow> string \<Rightarrow> nat \<Rightarrow> string option" where
  "deflate_decompress D input max_out =
     (if input \<noteq> [] \<and> \<not> dl_decomp_ok D then None else two_attempts (dl_inflate D) input max_out)"

definition merge_vary :: "simd_tier \<Rightarrow> response \<Rightarrow> response" where
  "merge_vary t res =
     (case get_header t (rs_headers res) ''vary'' of
        None \<Rightarrow> res_header t ''Vary'' ''Accept-Encoding'' res
      | Some current_vary \<Rightarrow>
          if sv_find_str ''accept-encoding'' (map ascii_lower current_vary) 0 = None
          then res_header t ''Vary'' (current_vary @ '', Accept-Encoding'') res else res)"

text \<open>The encoding chosen for an Accept-Encoding header: its name and the compressed body.\<close>

definition choose_encoding :: "deflate_lib \<Rightarrow> compress_options \<Rightarrow> string \<Rightarrow> string \<Rightarrow> (string \<times> string) option" where
  "choose_encoding D opts accept_encoding body =
     (let ae = map ascii_lower accept_encoding;
          star = sv_find_str ''*'' ae 0 \<noteq> None;
          has_gzip = co_gzip opts \<and> (sv_find_str ''gzip'' ae 0 \<noteq> None \<or> star);
          has_deflate = co_deflate opts \<and> (sv_find_str ''deflate'' ae 0 \<noteq> None \<or> star)
      in if co_prefer_deflate opts \<and> has_deflate then map_option (Pair ''deflate'') (deflate_compress D body (co_level opts))
         else if has_gzip then map_option (Pair ''gzip'') (gzip_compress D body (co_level opts))
         else if has_deflate then map_option (Pair ''deflate'') (deflate_compress D body (co_level opts))
         else None)"

definition Compress :: "simd_tier \<Rightarrow> deflate_lib \<Rightarrow> compress_options \<Rightarrow> ('v, 'w) ctx middleware" where
  "Compress t D opts c next =
     (case next c of
        (c, Some e) \<Rightarrow> (c, Some e)
      | (c, None) \<Rightarrow>
          (case get_header t (rq_headers (cx_req c)) ''accept-encoding'' of
             None \<Rightarrow> (c, None)
           | Some accept_encoding \<Rightarrow>
               if contains t (rs_headers (cx_res c)) ''content-encoding'' then (c, None)
               else if rs_status (cx_res c) = NoContent \<or> rs_status (cx_res c) = NotModified then (c, None)
               else if length (res_body (cx_res c)) < co_min_size opts then (c, None)
               else
                 (case choose_encoding D opts accept_encoding (res_body (cx_res c)) of
                    None \<Rightarrow> (c, None)
                  | Some (name, out) \<Rightarrow>
                      let res = res_header t ''Content-Encoding'' name (set_body out (cx_res c));
                          res = (if co_vary opts then merge_vary t res else res)
                      in (c\<lparr>cx_res := res\<rparr>, None))))"

subsection \<open>Access log\<close>

datatype log_level = LTrace | LDebug | LInfo | LWarn | LError | LFatal | LOff

primrec level_value :: "log_level \<Rightarrow> nat" where
  "level_value LTrace = 0" | "level_value LDebug = 1" | "level_value LInfo = 2" | "level_value LWarn = 3"
| "level_value LError = 4" | "level_value LFatal = 5" | "level_value LOff = 6"

datatype log_format = LF_Combined | LF_Common | LF_Json | LF_Custom

record 'c access_log_config =
  al_format :: log_format
  al_normal_level :: log_level
  al_client_error_level :: log_level
  al_server_error_level :: log_level
  al_slow_threshold :: int
  al_slow_level :: log_level
  al_log_query :: bool
  al_log_client_ip :: bool
  al_log_bytes :: bool
  al_log_protocol :: bool
  al_request_headers :: "string list"
  al_response_headers :: "string list"
  al_skip_paths :: "string list"
  al_skip_if :: "('c \<Rightarrow> bool) option"
  al_custom_formatter :: "('c \<Rightarrow> int \<Rightarrow> string) option"
  al_correlation_header :: string

text \<open>
  The world: its clock in nanoseconds, the global log level and the sink. \<open>lw_fixed d n k\<close> is \<open>n / k\<close>
  with \<open>d\<close> decimals.
\<close>

record 'w log_world =
  lw_now :: "'w \<Rightarrow> int"
  lw_level :: "'w \<Rightarrow> log_level"
  lw_dispatch :: "log_level \<Rightarrow> string \<Rightarrow> 'w \<Rightarrow> 'w"
  lw_fixed :: "nat \<Rightarrow> int \<Rightarrow> int \<Rightarrow> string"

definition format_duration :: "'w log_world \<Rightarrow> int \<Rightarrow> string" where
  "format_duration L n =
     (if n < 1000 then to_string_int n @ ''ns''
      else if n < 1000000 then lw_fixed L 1 n 1000 @ [CHR 0xC2, CHR 0xB5] @ ''s''
      else if n < 1000000000 then lw_fixed L 2 n 1000000 @ ''ms''
      else lw_fixed L 2 n 1000000000 @ ''s'')"

definition format_bytes :: "'w log_world \<Rightarrow> nat \<Rightarrow> string" where
  "format_bytes L n =
     (if n < 1024 then to_chars 10 n @ '' B''
      else if n < 1024 * 1024 then lw_fixed L 1 (int n) 1024 @ '' KB''
      else lw_fixed L 2 (int n) (1024 * 1024) @ '' MB'')"

definition extract_client_ip :: "simd_tier \<Rightarrow> request \<Rightarrow> string" where
  "extract_client_ip t req =
     (let real = (case get_header t (rq_headers req) ''x-real-ip'' of Some r \<Rightarrow> if r \<noteq> [] then r else ''-'' | None \<Rightarrow> ''-'')
      in case get_header t (rq_headers req) ''x-forwarded-for'' of
           Some fwd \<Rightarrow>
             if fwd = [] then real
             else (case sv_find CHR '','' fwd 0 of Some comma \<Rightarrow> take comma fwd | None \<Rightarrow> fwd)
         | None \<Rightarrow> real)"

definition status_level :: "'c access_log_config \<Rightarrow> nat \<Rightarrow> log_level" where
  "status_level cfg st =
     (if 500 \<le> st then al_server_error_level cfg else if 400 \<le> st then al_client_error_level cfg else al_normal_level cfg)"

definition max_level :: "log_level \<Rightarrow> log_level \<Rightarrow> log_level" where
  "max_level a b = (if level_value a < level_value b then b else a)"

definition quoted :: "string \<Rightarrow> string" where
  "quoted s = [CHR 0x22] @ s @ [CHR 0x22]"

definition header_list :: "simd_tier \<Rightarrow> string \<Rightarrow> header_map \<Rightarrow> string list \<Rightarrow> string" where
  "header_list t tag hm names =
     concat (map (\<lambda>h. case get_header t hm h of Some v \<Rightarrow> '' ['' @ tag @ h @ '': '' @ v @ '']'' | None \<Rightarrow> []) names)"

definition access_line ::
    "simd_tier \<Rightarrow> 'w log_world \<Rightarrow> ('v, 'w) ctx access_log_config \<Rightarrow> string \<Rightarrow> bool \<Rightarrow> int \<Rightarrow> ('v, 'w) ctx \<Rightarrow> string" where
  "access_line t L cfg path is_slow duration c =
     (let req = cx_req c; res = cx_res c;
          method_str = method_to_string (rq_method req);
          status_str = to_chars 10 (status_value (rs_status res));
          phrase = status_phrase (rs_status res);
          body_len = (if rs_is_file res then rs_file_size res else length (res_body res))
      in case al_format cfg of
           LF_Json \<Rightarrow>
             ''{'' @ quoted ''method'' @ '':'' @ quoted method_str @ '','' @ quoted ''path'' @ '':'' @ quoted path @ '','' @
             quoted ''status'' @ '':'' @ status_str @ '','' @ quoted ''phrase'' @ '':'' @ quoted phrase @ '','' @
             quoted ''duration_ns'' @ '':'' @ to_string_int duration @ '','' @ quoted ''bytes'' @ '':'' @ to_chars 10 body_len @ ''}''
         | LF_Common \<Rightarrow>
             (if al_log_client_ip cfg then extract_client_ip t req else ''-'') @ '' - '' @
             quoted (method_str @ '' '' @ path @ '' '' @ version_to_string (rq_version req)) @ '' '' @ status_str @ '' '' @
             to_chars 10 body_len @ '' ('' @ format_duration L duration @ '')''
         | _ \<Rightarrow>
             (if is_slow then ''[SLOW] '' else []) @ method_str @ '' '' @ path @
             (if al_log_query cfg \<and> rq_query req \<noteq> [] then ''?'' @ rq_query req else []) @
             '' '' @ status_str @ '' '' @ phrase @ '' '' @ format_duration L duration @
             (if al_log_client_ip cfg then '' - '' @ extract_client_ip t req else []) @
             (if al_log_bytes cfg then '' ('' @ format_bytes L body_len @ '')'' else []) @
             (if al_log_protocol cfg then '' ['' @ version_to_string (rq_version req) @ '']'' else []) @
             header_list t [] (rq_headers req) (al_request_headers cfg) @
             header_list t ''res:'' (rs_headers res) (al_response_headers cfg))"

text \<open>\<open>mk_logger\<close> builds the contextual logger from the correlation id, the method and the path.\<close>

definition access_log ::
    "simd_tier \<Rightarrow> 'w log_world \<Rightarrow> (string \<Rightarrow> string \<Rightarrow> string \<Rightarrow> 'v) \<Rightarrow> ('v, 'w) ctx access_log_config \<Rightarrow> ('v, 'w) ctx middleware" where
  "access_log t L mk_logger cfg c next =
     (let req_id = (if al_correlation_header cfg = [] then []
                    else case get_header t (rq_headers (cx_req c)) (al_correlation_header cfg) of Some v \<Rightarrow> v | None \<Rightarrow> []);
          path = rq_path (cx_req c);
          c = ctx_set ''RequestLogger'' (mk_logger req_id (method_to_string (rq_method (cx_req c))) path) c
      in if list_ex (\<lambda>p. path = p) (al_skip_paths cfg) then next c
         else if (case al_skip_if cfg of Some f \<Rightarrow> f c | None \<Rightarrow> False) then next c
         else
           let start = lw_now L (cx_world c)
           in case next c of
                (c, Some e) \<Rightarrow> (c, Some e)
              | (c, None) \<Rightarrow>
                  let duration = lw_now L (cx_world c) - start;
                      level = status_level cfg (status_value (rs_status (cx_res c)));
                      is_slow = (0 < al_slow_threshold cfg \<and> al_slow_threshold cfg < duration);
                      level = (if is_slow then max_level level (al_slow_level cfg) else level)
                  in if level_value level < level_value (lw_level L (cx_world c)) then (c, None)
                     else
                       let line = (case al_custom_formatter cfg of
                                     Some f \<Rightarrow> f c duration
                                   | None \<Rightarrow> access_line t L cfg path is_slow duration c)
                       in (c\<lparr>cx_world := lw_dispatch L level line (cx_world c)\<rparr>, None))"

end
