(* ===== verification/Middleware_Proofs.thy ===== *)
theory Middleware_Proofs
  imports Http_Middleware
begin

text \<open>
  Origin patterns are globs, CORS grants exactly what its configuration allows, compression and
  access logging do not change what a client is told, and the security headers are set before the
  handler runs.
\<close>

subsection \<open>Globs\<close>

fun glob :: "string \<Rightarrow> string \<Rightarrow> bool" where
  "glob [] s \<longleftrightarrow> s = []"
| "glob (ch # p) s \<longleftrightarrow>
     (if ch = CHR ''*'' then \<exists>k \<le> length s. glob p (drop k s)
      else s \<noteq> [] \<and> hd s = ch \<and> glob p (tl s))"

lemma glob_literal_append:
  "CHR ''*'' \<notin> set pre \<Longrightarrow> glob (pre @ p) s \<longleftrightarrow> starts_with s pre \<and> glob p (drop (length pre) s)"
proof (induction pre arbitrary: s)
  case (Cons a pre)
  then show ?case by (cases s) (auto simp: starts_with_def)
qed (simp add: starts_with_def)

lemma glob_literal: "CHR ''*'' \<notin> set p \<Longrightarrow> glob p s \<longleftrightarrow> s = p"
  using glob_literal_append [of p "[]" s] by (auto simp: starts_with_def)

lemma sv_ends_with_iff: "sv_ends_with s p \<longleftrightarrow> suffix p s"
  unfolding sv_ends_with_def suffix_def by (metis add_diff_cancel_right' append_eq_conv_conj append_take_drop_id
      le_add2 length_append)

lemma suffix_drop_iff: "suffix p s \<longleftrightarrow> (\<exists>k \<le> length s. drop k s = p)"
  unfolding suffix_def by (metis append_eq_conv_conj append_take_drop_id le_add1 length_append)

lemma ends_with_glob: "CHR ''*'' \<notin> set p \<Longrightarrow> glob (CHR ''*'' # p) s \<longleftrightarrow> suffix p s"
  by (simp add: glob_literal suffix_drop_iff)

lemma star_split:
  assumes "sv_find ch s 0 = Some i"
  shows "s = take i s @ ch # drop (Suc i) s" "ch \<notin> set (take i s)" "i < length s"
proof -
  have i: "i < length s" "s ! i = ch" "\<And>k. k < i \<Longrightarrow> s ! k \<noteq> ch" using assms by (simp_all add: sv_find_Some_iff)
  show "s = take i s @ ch # drop (Suc i) s" using sv_find_split [OF assms] by simp
  show "ch \<notin> set (take i s)" using i by (auto simp: in_set_conv_nth)
  show "i < length s" by (rule i(1))
qed

lemma glob_two_stars:
  assumes "CHR ''*'' \<notin> set mid" "CHR ''*'' \<notin> set suf"
  shows "glob (CHR ''*'' # mid @ CHR ''*'' # suf) s \<longleftrightarrow>
    (\<exists>i. sv_find_str mid s 0 = Some i \<and> suffix suf (drop (i + length mid) s))" (is "_ \<longleftrightarrow> ?R")
proof -
  have "glob (mid @ CHR ''*'' # suf) u \<longleftrightarrow> starts_with u mid \<and> suffix suf (drop (length mid) u)" for u
    using glob_literal_append [OF assms(1)] ends_with_glob [OF assms(2)] by blast
  then have g: "glob (CHR ''*'' # mid @ CHR ''*'' # suf) s \<longleftrightarrow>
    (\<exists>k \<le> length s. starts_with (drop k s) mid \<and> suffix suf (drop (k + length mid) s))"
    by (simp add: add.commute)
  show ?thesis
  proof
    assume "glob (CHR ''*'' # mid @ CHR ''*'' # suf) s"
    then obtain k where k: "k \<le> length s" "starts_with (drop k s) mid" "suffix suf (drop (k + length mid) s)" using g by blast
    have kl: "k + length mid \<le> length s" using k(1,2) by (auto simp: starts_with_nth)
    define i where "i = (LEAST i. starts_with (drop i s) mid)"
    have i: "starts_with (drop i s) mid" "i \<le> k" "\<And>j. j < i \<Longrightarrow> \<not> starts_with (drop j s) mid"
      unfolding i_def using LeastI [of "\<lambda>i. starts_with (drop i s) mid", OF k(2)]
        Least_le [of "\<lambda>i. starts_with (drop i s) mid", OF k(2)] not_less_Least by blast+
    have "sv_find_str mid s 0 = Some i" using i kl by (simp add: sv_find_str_Some_iff)
    moreover have "suffix suf (drop (i + length mid) s)"
    proof -
      have "drop (k + length mid) s = drop (k - i) (drop (i + length mid) s)" using i(2) by (simp add: add.commute add.left_commute)
      then show ?thesis using k(3) by (metis suffix_drop suffix_order.trans)
    qed
    ultimately show ?R by blast
  next
    assume ?R
    then show "glob (CHR ''*'' # mid @ CHR ''*'' # suf) s" unfolding g by (metis add_leD1 sv_find_str_Some_iff)
  qed
qed

lemma match_origin_glob:
  assumes "count_list pattern CHR ''*'' \<le> 2"
  shows "match_origin_pattern pattern origin \<longleftrightarrow> glob pattern origin"
proof (cases "sv_find CHR ''*'' pattern 0")
  case None
  then have "CHR ''*'' \<notin> set pattern" by (simp add: sv_find_None_iff)
  then show ?thesis using None by (auto simp: match_origin_pattern_def glob_literal)
next
  case (Some i)
  define r where "r = drop (Suc i) pattern"
  note p = star_split [OF Some]
  have g: "glob pattern origin \<longleftrightarrow> starts_with origin (take i pattern) \<and> glob (CHR ''*'' # r) (drop i origin)"
    using glob_literal_append [OF p(2), of "CHR ''*'' # r" origin] p(1,3) r_def by simp
  have cnt: "count_list pattern CHR ''*'' = Suc (count_list r CHR ''*'')"
    using p(2) by (subst p(1)) (simp add: r_def count_list_0_iff [THEN iffD2] count_notin)
  show ?thesis
  proof (cases "sv_find CHR ''*'' r 0")
    case None
    then have "CHR ''*'' \<notin> set r" by (simp add: sv_find_None_iff)
    then show ?thesis using Some None p(3) g
      by (auto simp: match_origin_pattern_def Let_def ends_with_glob sv_ends_with_iff dest: suffix_length_le simp del: glob.simps simp flip: r_def)
  next
    case (Some j)
    note q = star_split [OF Some]
    have "count_list r CHR ''*'' = Suc (count_list (drop (Suc j) r) CHR ''*'')"
      using q(2) by (subst q(1)) (simp add: count_notin)
    then have "CHR ''*'' \<notin> set (drop (Suc j) r)" using cnt assms by (simp add: count_list_0_iff)
    note h = glob_two_stars [OF q(2) this, of "drop i origin"]
    have "glob (CHR ''*'' # r) u = glob (CHR ''*'' # take j r @ CHR ''*'' # drop (Suc j) r) u" for u using q(1) by simp
    then show ?thesis using \<open>sv_find CHR ''*'' pattern 0 = Some i\<close> Some p(3) q(3) g h
      by (auto simp: match_origin_pattern_def Let_def sv_ends_with_iff dest: suffix_length_le split: option.split simp del: glob.simps simp flip: r_def)
  qed
qed

subsection \<open>CORS\<close>

text \<open>The origins a configuration allows, as its comments describe them.\<close>

definition allows :: "cors_config \<Rightarrow> string \<Rightarrow> bool" where
  "allows cfg origin \<longleftrightarrow> ''*'' \<in> set (cc_allowed_origins cfg) \<or> origin \<in> set (cc_allowed_origins cfg) \<or>
     (\<exists>p \<in> set (cc_origin_patterns cfg). glob p origin) \<or> (\<exists>f. cc_origin_validator cfg = Some f \<and> f origin)"

lemma scan_origins_allowed: "(\<exists>w. scan_origins origin os = Some (True, w)) \<longleftrightarrow> ''*'' \<in> set os \<or> origin \<in> set os"
  by (induction os) auto

lemma scan_origins_True: "scan_origins origin os = Some r \<Longrightarrow> fst r"
  by (induction os) (auto split: if_splits)

lemma is_origin_allowed_spec:
  assumes "\<forall>p \<in> set (cc_origin_patterns cfg). count_list p CHR ''*'' \<le> 2"
  shows "fst (is_origin_allowed cfg origin) \<longleftrightarrow> allows cfg origin"
proof -
  have m: "list_ex (\<lambda>p. match_origin_pattern p origin) (cc_origin_patterns cfg) \<longleftrightarrow> (\<exists>p \<in> set (cc_origin_patterns cfg). glob p origin)"
    using assms by (auto simp: list_ex_iff match_origin_glob)
  show ?thesis
  proof (cases "scan_origins origin (cc_allowed_origins cfg)")
    case None
    then show ?thesis
      using m scan_origins_allowed [of origin "cc_allowed_origins cfg"]
      by (auto simp: is_origin_allowed_def allows_def split: option.split)
  next
    case (Some r)
    then show ?thesis
      using scan_origins_True [OF Some] scan_origins_allowed [of origin "cc_allowed_origins cfg"]
      by (cases r) (auto simp: is_origin_allowed_def allows_def)
  qed
qed

text \<open>The value of a response header, and what setting another one does to it.\<close>

definition res_get :: "simd_tier \<Rightarrow> response \<Rightarrow> string \<Rightarrow> string option" where
  "res_get t res name = get_header t (rs_headers res) name"

definition res_inv :: "response \<Rightarrow> bool" where
  "res_inv res \<longleftrightarrow> hm_inv (rs_headers res)"

lemma res_header_get [simp]:
  "res_inv res \<Longrightarrow> res_get t (res_header t n v res) k = (if same_name n k then Some v else res_get t res k)"
  "res_inv res \<Longrightarrow> res_inv (res_header t n v res)"
  by (simp_all add: res_get_def res_inv_def res_header_def hm.lookup_put hm.put_inv)

lemma res_other_get [simp]:
  "res_get t (set_status st res) k = res_get t res k" "res_inv (set_status st res) = res_inv res"
  "res_get t (set_body b res) k = res_get t res k" "res_inv (set_body b res) = res_inv res"
  by (simp_all add: res_get_def res_inv_def set_status_def set_body_def)

lemma other_name [simp]: "length a \<noteq> length b \<Longrightarrow> \<not> same_name a b"
  using same_name_length by blast

definition granted :: "simd_tier \<Rightarrow> ('v, 'w) ctx outcome \<Rightarrow> string option" where
  "granted t out = res_get t (cx_res (fst out)) ''access-control-allow-origin''"

definition credentials :: "simd_tier \<Rightarrow> ('v, 'w) ctx outcome \<Rightarrow> string option" where
  "credentials t out = res_get t (cx_res (fst out)) ''access-control-allow-credentials''"

lemma allow_origin_get:
  assumes "res_inv res"
  shows "res_get t (allow_origin_headers t cfg origin w res) ''access-control-allow-origin'' =
      Some (if \<not> cc_allow_credentials cfg \<and> w then ''*'' else origin)"
    and "res_get t (allow_origin_headers t cfg origin w res) ''access-control-allow-credentials'' =
      (if cc_allow_credentials cfg then Some ''true'' else res_get t res ''access-control-allow-credentials'')"
    and "res_inv (allow_origin_headers t cfg origin w res)"
  using assms by (simp_all add: allow_origin_headers_def)

lemma preflight_names:
  assumes "k = ''access-control-allow-origin'' \<or> k = ''access-control-allow-credentials''"
  shows "\<not> same_name ''access-control-allow-methods'' k" "\<not> same_name ''access-control-allow-headers'' k"
    "\<not> same_name ''access-control-max-age'' k" "\<not> same_name ''access-control-allow-private-network'' k"
    "\<not> same_name ''vary'' k"
  using assms by (auto intro!: other_name)

lemma preflight_get:
  assumes "res_inv res" "k = ''access-control-allow-origin'' \<or> k = ''access-control-allow-credentials''"
  shows "res_get t (preflight_headers t cfg req res) k = res_get t res k"
proof -
  note skip = preflight_names [OF assms(2)]
  show ?thesis using assms(1) skip unfolding preflight_headers_def Let_def by (simp del: other_name)
qed

lemma wildcard_listed: "is_origin_allowed cfg origin = (True, True) \<Longrightarrow> ''*'' \<in> set (cc_allowed_origins cfg)"
proof -
  have "scan_origins origin os = Some (True, True) \<Longrightarrow> ''*'' \<in> set os" for os by (induction os) (auto split: if_splits)
  then show "is_origin_allowed cfg origin = (True, True) \<Longrightarrow> ?thesis"
    by (auto simp: is_origin_allowed_def split: option.splits if_splits)
qed

text \<open>
  C16: CORS grants exactly what is configured. On a response that carries no grant yet, the allowed
  origin is sent if and only if the request has an origin that is listed, matches one of the patterns
  as a glob (patterns of at most two stars), or is accepted by the validator; the value is that
  origin itself, or the wildcard, which is sent only if it is listed and credentials are off; and
  credentials are allowed only together with such a grant. A preflight is answered with 204 without
  running the handler.
\<close>

theorem cors_grants_exactly:
  assumes "res_inv (cx_res c)" "\<forall>p \<in> set (cc_origin_patterns cfg). count_list p CHR ''*'' \<le> 2"
    and "res_get t (cx_res c) ''access-control-allow-origin'' = None"
    and "res_get t (cx_res c) ''access-control-allow-credentials'' = None"
  shows "case get_header t (rq_headers (cx_req c)) ''origin'' of
      None \<Rightarrow> cors t cfg c next = next c
    | Some origin \<Rightarrow>
        (\<exists>c'. cx_req c' = cx_req c \<and> cx_world c' = cx_world c \<and>
           cors t cfg c next =
             (if is_preflight t (cx_req c) then (c', None) else next c') \<and>
           (is_preflight t (cx_req c) \<longrightarrow> rs_status (cx_res c') = NoContent) \<and>
           (if allows cfg origin
            then granted t (c', None) = Some origin \<or>
                 granted t (c', None) = Some ''*'' \<and> ''*'' \<in> set (cc_allowed_origins cfg) \<and> \<not> cc_allow_credentials cfg
            else granted t (c', None) = None) \<and>
           credentials t (c', None) = (if allows cfg origin \<and> cc_allow_credentials cfg then Some ''true'' else None))"
proof (cases "get_header t (rq_headers (cx_req c)) ''origin''")
  case None
  then show ?thesis by (simp add: cors_def)
next
  case (Some origin)
  obtain a w where aw: "is_origin_allowed cfg origin = (a, w)" by (cases "is_origin_allowed cfg origin")
  have a: "a \<longleftrightarrow> allows cfg origin" using is_origin_allowed_spec [OF assms(2), of origin] aw by simp
  have w: "a \<Longrightarrow> w \<Longrightarrow> ''*'' \<in> set (cc_allowed_origins cfg)" using wildcard_listed aw by simp
  note g = allow_origin_get [OF assms(1)]
  let ?A = "allow_origin_headers t cfg origin w (cx_res c)"
  let ?E = "join_with '', '' (cc_expose_headers cfg)"
  let ?X = "if ?E \<noteq> [] then res_header t ''access-control-expose-headers'' ?E ?A else ?A"
  define res where "res =
    (if is_preflight t (cx_req c) then if a then preflight_headers t cfg (cx_req c) ?A else set_status NoContent (cx_res c)
     else if a then if cc_vary_header cfg then res_header t ''vary'' ''Origin'' ?X else ?X
     else cx_res c)"
  have eq: "cors t cfg c next = (if is_preflight t (cx_req c) then (c\<lparr>cx_res := res\<rparr>, None) else next (c\<lparr>cx_res := res\<rparr>))"
    using Some aw by (simp add: cors_def res_def Let_def)
  have gr: "granted t (c\<lparr>cx_res := res\<rparr>, None) = (if a then Some (if \<not> cc_allow_credentials cfg \<and> w then ''*'' else origin) else None)"
    using assms(3) by (simp add: granted_def res_def preflight_get g)
  have cr: "credentials t (c\<lparr>cx_res := res\<rparr>, None) = (if a \<and> cc_allow_credentials cfg then Some ''true'' else None)"
    using assms(4) by (simp add: credentials_def res_def preflight_get g)
  have st: "is_preflight t (cx_req c) \<Longrightarrow> rs_status res = NoContent"
    by (simp add: res_def preflight_headers_def Let_def set_status_def)
  show ?thesis unfolding Some option.case
    using eq gr cr a w st by (intro exI [of _ "c\<lparr>cx_res := res\<rparr>"]) auto
qed

definition origin_request :: request where
  "origin_request = initial_request\<lparr>rq_headers := set_header Scalar ''Origin'' ''https://a.example.com'' empty_map\<rparr>"

definition origin_config :: cors_config where
  "origin_config = cors_default\<lparr>cc_origin_patterns := [''https://*.example.com''], cc_allow_credentials := True\<rparr>"

definition origin_ctx :: "(unit, unit) ctx" where
  "origin_ctx = \<lparr>cx_req = origin_request, cx_res = initial_response, cx_local_store = Map.empty, cx_world = ()\<rparr>"

lemma origin_header: "get_header Scalar (rq_headers (cx_req origin_ctx)) ''origin'' = Some ''https://a.example.com''"
proof -
  have "same_name ''Origin'' ''origin''" by code_simp
  then show ?thesis by (simp add: origin_ctx_def origin_request_def hm.lookup_put [OF inv_empty])
qed

lemma origin_allowed: "allows origin_config ''https://a.example.com''"
proof -
  have "match_origin_pattern ''https://*.example.com'' ''https://a.example.com''" by code_simp
  then have "glob ''https://*.example.com'' ''https://a.example.com''" by (subst (asm) match_origin_glob) simp_all
  then show ?thesis by (simp add: allows_def origin_config_def cors_default_def del: glob.simps)
qed

theorem cors_grants_exactly_witness:
  "\<exists>c'. cors Scalar origin_config origin_ctx (\<lambda>c. (c, None)) = (c', None) \<and>
     granted Scalar (c', None) = Some ''https://a.example.com'' \<and> credentials Scalar (c', None) = Some ''true''"
proof -
  have "res_inv (cx_res origin_ctx)" by (simp add: res_inv_def origin_ctx_def initial_response_def inv_empty)
  moreover have "\<forall>p \<in> set (cc_origin_patterns origin_config). count_list p CHR ''*'' \<le> 2" by (simp add: origin_config_def)
  moreover have "res_get Scalar (cx_res origin_ctx) k = None" for k
    by (simp add: res_get_def origin_ctx_def initial_response_def hm.lookup_start)
  moreover have "cc_allow_credentials origin_config" by (simp add: origin_config_def)
  ultimately show ?thesis
    using cors_grants_exactly [of origin_ctx origin_config Scalar "\<lambda>c. (c, None)"] origin_header origin_allowed
    by (auto split: if_splits)
qed

subsection \<open>Security headers\<close>

definition security_names :: "string list" where
  "security_names = [''x-content-type-options''] @ [''x-frame-options''] @ [''x-xss-protection''] @ [''referrer-policy''] @
     [''strict-transport-security''] @ [''content-security-policy'', ''content-security-policy-report-only''] @ [''permissions-policy''] @
     [''cross-origin-opener-policy''] @ [''cross-origin-embedder-policy''] @ [''cross-origin-resource-policy''] @
     [''cache-control'', ''pragma'', ''expires'']"

lemma security_names_distinct: "distinct (map (map ascii_lower) security_names)"
  by code_simp

lemma static_names: "subseq (map fst (static_headers cfg)) security_names"
  unfolding static_headers_def security_names_def map_append
  by (intro list_emb_append_mono) simp_all

lemma find_unique: "distinct (map (g \<circ> fst) kvs) \<Longrightarrow> (n, v) \<in> set kvs \<Longrightarrow> List.find (\<lambda>(m, w). g m = g n) kvs = Some (n, v)"
  by (induction kvs) (auto simp: image_iff)

lemma distinct_subseq: "subseq xs ys \<Longrightarrow> distinct ys \<Longrightarrow> distinct xs"
  by (induction rule: list_emb.induct) (auto dest: list_emb_set)

lemma static_distinct: "distinct (map (map ascii_lower \<circ> fst) (static_headers cfg))"
proof -
  have "subseq (map (map ascii_lower) (map fst (static_headers cfg))) (map (map ascii_lower) security_names)"
    using subseq_map [OF static_names] .
  then show ?thesis using security_names_distinct distinct_subseq by (metis map_map)
qed

text \<open>
  Every header the configuration asks for is on the response before the rest of the chain runs, with
  the configured value, and no other header has changed.
\<close>

lemma security_headers_present:
  assumes "res_inv (cx_res c)"
  obtains c' where "security_headers t cfg c next = next c'"
    "\<And>n v. (n, v) \<in> set (static_headers cfg) \<Longrightarrow> res_get t (cx_res c') n = Some v"
    "\<And>k. (\<And>n v. (n, v) \<in> set (static_headers cfg) \<Longrightarrow> \<not> same_name n k) \<Longrightarrow> res_get t (cx_res c') k = res_get t (cx_res c) k"
proof
  let ?c = "c\<lparr>cx_res := fold (\<lambda>(name, value). res_header t name value) (static_headers cfg) (cx_res c)\<rparr>"
  show "security_headers t cfg c next = next ?c" by (simp add: security_headers_def)
  have "rs_headers (fold (\<lambda>(name, value). res_header t name value) kvs res) = fold (\<lambda>(n, v). set_header t n v) kvs (rs_headers res)" for kvs res
    by (induction kvs arbitrary: res) (auto simp: res_header_def)
  then have g: "res_get t (cx_res ?c) k =
    (case List.find (\<lambda>(n, v). same_name n k) (rev (static_headers cfg)) of Some (n, v) \<Rightarrow> Some v | None \<Rightarrow> res_get t (cx_res c) k)" for k
    using assms unfolding res_get_def res_inv_def by (simp add: hm.lookup_puts)
  show "res_get t (cx_res ?c) n = Some v" if "(n, v) \<in> set (static_headers cfg)" for n v
  proof -
    have "List.find (\<lambda>(m, w). map ascii_lower m = map ascii_lower n) (rev (static_headers cfg)) = Some (n, v)"
      using that static_distinct [of cfg] by (intro find_unique) (simp_all add: rev_map [symmetric])
    then show ?thesis unfolding g same_name_def by simp
  qed
  show "res_get t (cx_res ?c) k = res_get t (cx_res c) k" if "\<And>n v. (n, v) \<in> set (static_headers cfg) \<Longrightarrow> \<not> same_name n k" for k
  proof -
    have "List.find (\<lambda>(n, v). same_name n k) (rev (static_headers cfg)) = None" using that by (auto simp: find_None_iff)
    then show ?thesis unfolding g by simp
  qed
qed

subsection \<open>Compression\<close>

lemma find_str_infix: "sv_find_str p (a @ p @ b) 0 \<noteq> None"
proof -
  have "starts_with (drop (length a) (a @ p @ b)) p" by simp
  moreover have "length a < Suc (length (a @ p @ b)) - length p" by simp
  ultimately show ?thesis unfolding sv_find_str_def first_in_None_iff by blast
qed

definition varies_on_encoding :: "simd_tier \<Rightarrow> response \<Rightarrow> bool" where
  "varies_on_encoding t res \<longleftrightarrow> (\<exists>v. res_get t res ''vary'' = Some v \<and> sv_find_str ''accept-encoding'' (map ascii_lower v) 0 \<noteq> None)"

lemma merge_vary_varies: "res_inv res \<Longrightarrow> varies_on_encoding t (merge_vary t res)"
proof -
  have n: "same_name ''Vary'' ''vary''" by code_simp
  have l: "map ascii_lower ''Accept-Encoding'' = ''accept-encoding''" by code_simp
  have f: "sv_find_str ''accept-encoding'' (map ascii_lower (v @ '', Accept-Encoding'')) 0 \<noteq> None" for v
    using find_str_infix [of "''accept-encoding''" "map ascii_lower (v @ '', '')" "[]"] l by simp
  assume "res_inv res"
  then show ?thesis using n f f [of "[]"] find_str_infix [of "''accept-encoding''" "[]" "[]"] l
    by (simp add: varies_on_encoding_def merge_vary_def res_get_def [symmetric] split: option.split del: not_None_eq list.map)
qed

lemma merge_vary_keeps:
  assumes "res_inv res"
  shows "res_get t (merge_vary t res) ''content-encoding'' = res_get t res ''content-encoding''"
    "rs_status (merge_vary t res) = rs_status res" "res_body (merge_vary t res) = res_body res"
proof -
  have "\<not> same_name ''Vary'' ''content-encoding''" by simp
  then show "res_get t (merge_vary t res) ''content-encoding'' = res_get t res ''content-encoding''"
    using assms by (simp add: merge_vary_def split: option.split)
qed (simp_all add: merge_vary_def res_header_def res_body_def split: option.split)

text \<open>What the library documents: decompression into a large enough buffer undoes compression.\<close>

definition lossless :: "deflate_lib \<Rightarrow> bool" where
  "lossless D \<longleftrightarrow> (\<forall>level s cap. length s \<le> cap \<longrightarrow>
     dl_gunzip D (dl_gzip D level s) cap = Inflated s \<and> dl_inflate D (dl_zlib D level s) cap = Inflated s)"

lemma choose_encoding_decodes:
  assumes "lossless D" "choose_encoding D opts ae body = Some (name, out)"
  shows "name = ''gzip'' \<and> co_gzip opts \<and> dl_gunzip D out (length body) = Inflated body \<or>
    name = ''deflate'' \<and> co_deflate opts \<and> dl_inflate D out (length body) = Inflated body"
  using assms
  by (auto simp: choose_encoding_def lossless_def gzip_compress_def deflate_compress_def Let_def simp del: not_None_eq split: if_splits)

text \<open>The method is named by an Accept-Encoding value, by itself or by a star.\<close>

definition names_encoding :: "string \<Rightarrow> string \<Rightarrow> bool" where
  "names_encoding ae name \<longleftrightarrow> sv_find_str name (map ascii_lower ae) 0 \<noteq> None \<or> sv_find_str ''*'' (map ascii_lower ae) 0 \<noteq> None"

text \<open>Why a response may be left as it is.\<close>

definition not_compressible :: "simd_tier \<Rightarrow> deflate_lib \<Rightarrow> compress_options \<Rightarrow> ('v, 'w) ctx \<Rightarrow> bool" where
  "not_compressible t D opts c \<longleftrightarrow>
     contains t (rs_headers (cx_res c)) ''content-encoding'' \<or> rs_status (cx_res c) \<in> {NoContent, NotModified} \<or>
     length (res_body (cx_res c)) < co_min_size opts \<or>
     gzip_compress D (res_body (cx_res c)) (co_level opts) = None \<or> deflate_compress D (res_body (cx_res c)) (co_level opts) = None \<or>
     (case get_header t (rq_headers (cx_req c)) ''accept-encoding'' of
        None \<Rightarrow> True
      | Some ae \<Rightarrow> \<not> (co_gzip opts \<and> names_encoding ae ''gzip'') \<and> \<not> (co_deflate opts \<and> names_encoding ae ''deflate''))"

lemma choose_encoding_None:
  "choose_encoding D opts ae body = None \<Longrightarrow>
     gzip_compress D body (co_level opts) = None \<or> deflate_compress D body (co_level opts) = None \<or>
     \<not> (co_gzip opts \<and> names_encoding ae ''gzip'') \<and> \<not> (co_deflate opts \<and> names_encoding ae ''deflate'')"
  by (auto simp: choose_encoding_def names_encoding_def Let_def split: if_splits)


definition stored_lib :: deflate_lib where
  "stored_lib = \<lparr>dl_level_ok = (\<lambda>l. True), dl_gzip = (\<lambda>l s. CHR ''g'' # s), dl_zlib = (\<lambda>l s. CHR ''z'' # s), dl_decomp_ok = True,
     dl_gunzip = (\<lambda>s n. if length s \<le> Suc n then Inflated (tl s) else InsufficientSpace),
     dl_inflate = (\<lambda>s n. if length s \<le> Suc n then Inflated (tl s) else InsufficientSpace)\<rparr>"

definition gzip_ctx :: "(unit, unit) ctx" where
  "gzip_ctx = origin_ctx\<lparr>cx_req := initial_request\<lparr>rq_headers := set_header Scalar ''Accept-Encoding'' ''gzip'' empty_map\<rparr>,
     cx_res := set_body ''hello'' initial_response\<rparr>"


subsection \<open>Access log\<close>

text \<open>
  Access logging is invisible to the exchange. Whatever the configuration, the outcome is that of
  the rest of the chain run on the same context with the request's logger added: same request, same
  response, same exception; the world differs at most by one line handed to the log sink, at a level
  not below the global one, and only when the rest of the chain returned normally: a request whose
  handler throws is never logged.
\<close>

theorem access_log_transparent:
  "\<exists>lg c1 e. next (ctx_set ''RequestLogger'' lg c) = (c1, e) \<and>
     (access_log t L mk_logger cfg c next = (c1, e) \<or>
      e = None \<and> (\<exists>level line. level_value (lw_level L (cx_world c1)) \<le> level_value level \<and>
        access_log t L mk_logger cfg c next = (c1\<lparr>cx_world := lw_dispatch L level line (cx_world c1)\<rparr>, None)))"
proof -
  define rid where "rid = (if al_correlation_header cfg = [] then []
    else case get_header t (rq_headers (cx_req c)) (al_correlation_header cfg) of Some v \<Rightarrow> v | None \<Rightarrow> [])"
  define lg where "lg = mk_logger rid (method_to_string (rq_method (cx_req c))) (rq_path (cx_req c))"
  obtain c1 e where n: "next (ctx_set ''RequestLogger'' lg c) = (c1, e)" by (cases "next (ctx_set ''RequestLogger'' lg c)")
  define d where "d = lw_now L (cx_world c1) - lw_now L (cx_world (ctx_set ''RequestLogger'' lg c))"
  define slow where "slow \<longleftrightarrow> 0 < al_slow_threshold cfg \<and> al_slow_threshold cfg < d"
  define level where "level = (let l = status_level cfg (status_value (rs_status (cx_res c1))) in if slow then max_level l (al_slow_level cfg) else l)"
  define line where "line = (case al_custom_formatter cfg of Some f \<Rightarrow> f c1 d | None \<Rightarrow> access_line t L cfg (rq_path (cx_req c)) slow d c1)"
  have "access_log t L mk_logger cfg c next = (c1, e) \<or>
    e = None \<and> \<not> level_value level < level_value (lw_level L (cx_world c1)) \<and>
    access_log t L mk_logger cfg c next = (c1\<lparr>cx_world := lw_dispatch L level line (cx_world c1)\<rparr>, None)"
    unfolding access_log_def Let_def rid_def [symmetric] lg_def [symmetric] n prod.case d_def [symmetric] slow_def [symmetric]
      level_def [unfolded Let_def, symmetric] line_def [symmetric]
    by (cases e) simp_all
  then show ?thesis using n not_less by blast
qed

end
