(* ===== verification/Byte_Types.thy ===== *)
theory Byte_Types
  imports Base64 WebSocket_Frame
begin

text \<open>
  \<^verbatim>\<open>src/data/types\<close>: the hexadecimal tables (\<^verbatim>\<open>Hex.h\<close>), MAC addresses, 256-bit hashes, blobs with
  their own Base64 codec, and UUIDs with every tier of their formatter and parser. Bytes are \<^typ>\<open>byte\<close>,
  text is a string.
\<close>

subsection \<open>Hexadecimal\<close>

definition HEX_DIGITS_LOWER :: string where
  "HEX_DIGITS_LOWER = ''0123456789abcdef''"

definition HEX_DECODE_TABLE :: "char \<Rightarrow> byte" where
  "HEX_DECODE_TABLE ch =
     (if u8 CHR ''0'' \<le> u8 ch \<and> u8 ch \<le> u8 CHR ''9'' then of_nat (u8 ch - u8 CHR ''0'')
      else if u8 CHR ''a'' \<le> u8 ch \<and> u8 ch \<le> u8 CHR ''f'' then of_nat (10 + (u8 ch - u8 CHR ''a''))
      else if u8 CHR ''A'' \<le> u8 ch \<and> u8 ch \<le> u8 CHR ''F'' then of_nat (10 + (u8 ch - u8 CHR ''A''))
      else 0xFF)"

definition hex_digit :: "byte \<Rightarrow> char" where
  "hex_digit n = HEX_DIGITS_LOWER ! unat n"

definition hex_pair :: "byte \<Rightarrow> string" where
  "hex_pair b = [hex_digit (drop_bit 4 b), hex_digit (b AND 0x0F)]"

text \<open>One byte from two digits; a digit that is none has a bit of \<open>0xF0\<close> set.\<close>

definition hex_byte :: "char \<Rightarrow> char \<Rightarrow> byte option" where
  "hex_byte c d =
     (let hi = HEX_DECODE_TABLE c; lo = HEX_DECODE_TABLE d
      in if (hi OR lo) AND 0xF0 \<noteq> 0 then None else Some (push_bit 4 hi OR lo))"

fun hex_bytes :: "string \<Rightarrow> byte list option" where
  "hex_bytes [] = Some []"
| "hex_bytes [c] = None"
| "hex_bytes (c # d # s) =
     (case hex_byte c d of
        None \<Rightarrow> None
      | Some b \<Rightarrow> (case hex_bytes s of None \<Rightarrow> None | Some bs \<Rightarrow> Some (b # bs)))"

text \<open>Both prefixes of a hexadecimal text are dropped.\<close>

definition strip_hex_prefix :: "string \<Rightarrow> string" where
  "strip_hex_prefix s = (if starts_with s ([CHR 0x5C] @ ''x'') \<or> starts_with s ''0x'' then drop 2 s else s)"

subsection \<open>MAC addresses\<close>

type_synonym mac_address = "byte list"

fun mac_chars :: "byte list \<Rightarrow> string" where
  "mac_chars [] = []"
| "mac_chars [b] = hex_pair b"
| "mac_chars (b # bs) = hex_pair b @ '':'' @ mac_chars bs"

definition mac_to_string :: "mac_address \<Rightarrow> string" where
  "mac_to_string m = mac_chars m"

definition mac_loop :: "string \<Rightarrow> nat \<Rightarrow> byte option" where
  "mac_loop s i =
     (if 0 < i \<and> s ! (i * 3 - 1) \<noteq> CHR '':'' \<and> s ! (i * 3 - 1) \<noteq> CHR ''-'' then None
      else hex_byte (s ! (i * 3)) (s ! (i * 3 + 1)))"

definition mac_from_string :: "string \<Rightarrow> mac_address option" where
  "mac_from_string s = (if length s \<noteq> 17 then None else those (map (mac_loop s) [0..<6]))"

subsection \<open>Hashes\<close>

type_synonym hash256 = "byte list"

definition hash_to_hex :: "hash256 \<Rightarrow> string" where
  "hash_to_hex h = concat (map hex_pair h)"

definition hash_from_hex :: "string \<Rightarrow> hash256 option" where
  "hash_from_hex s = (let hex = strip_hex_prefix s in if length hex \<noteq> 64 then None else hex_bytes hex)"

definition hash_eq :: "hash256 \<Rightarrow> hash256 \<Rightarrow> bool" where
  "hash_eq a b \<longleftrightarrow> fold (\<lambda>(x, y) diff. diff OR (x XOR y)) (zip a b) 0 = 0"

subsection \<open>Blobs\<close>

text \<open>The encoder reads one to three bytes per round; \<open>i\<close> is the index after them.\<close>

function blob_encode_loop :: "byte list \<Rightarrow> nat \<Rightarrow> string" where
  "blob_encode_loop bytes i =
     (let len = length bytes
      in if \<not> i < len then []
         else
           let b0 = unat (bytes ! i); i1 = i + 1;
               b1 = (if i1 < len then unat (bytes ! i1) else 0); i2 = (if i1 < len then i1 + 1 else i1);
               b2 = (if i2 < len then unat (bytes ! i2) else 0); i3 = (if i2 < len then i2 + 1 else i2);
               t = triple b0 b1 b2
           in [sextet BASE64_CHARS t 18, sextet BASE64_CHARS t 12,
               if len + 1 < i3 then CHR ''='' else sextet BASE64_CHARS t 6,
               if len < i3 then CHR ''='' else sextet BASE64_CHARS t 0] @ blob_encode_loop bytes i3)"
  by pat_completeness auto
termination
  by (relation "measure (\<lambda>(bytes, i). length bytes - i)") (auto simp: Let_def split: if_splits)

declare blob_encode_loop.simps [simp del]

definition blob_to_base64 :: "byte list \<Rightarrow> string" where
  "blob_to_base64 bytes = blob_encode_loop bytes 0"

definition decode_char :: "char \<Rightarrow> int" where
  "decode_char ch =
     (let n = int (u8 ch)
      in if int (u8 CHR ''A'') \<le> n \<and> n \<le> int (u8 CHR ''Z'') then n - int (u8 CHR ''A'')
         else if int (u8 CHR ''a'') \<le> n \<and> n \<le> int (u8 CHR ''z'') then n - int (u8 CHR ''a'') + 26
         else if int (u8 CHR ''0'') \<le> n \<and> n \<le> int (u8 CHR ''9'') then n - int (u8 CHR ''0'') + 52
         else if ch = CHR ''+'' then 62
         else if ch = CHR ''/'' then 63
         else if ch = CHR ''='' then - 1
         else - 2)"

fun blob_decode_loop :: "string \<Rightarrow> byte list option" where
  "blob_decode_loop (p # q # r # s # rest) =
     (let c0 = decode_char p; c1 = decode_char q; c2 = decode_char r; c3 = decode_char s
      in if c0 < 0 \<or> c1 < 0 \<or> c2 = - 2 \<or> c3 = - 2 then None
         else
           let t = push_bit 18 (nat c0) OR push_bit 12 (nat c1);
               o1 = [of_nat (drop_bit 16 t AND 0xFF)];
               t2 = (if c2 \<noteq> - 1 then t OR push_bit 6 (nat c2) else t);
               o2 = (if c2 \<noteq> - 1 then [of_nat (drop_bit 8 t2 AND 0xFF)] else []);
               t3 = (if c3 \<noteq> - 1 \<and> c2 \<noteq> - 1 then t2 OR nat c3 else t2);
               o3 = (if c3 \<noteq> - 1 \<and> c2 \<noteq> - 1 then [of_nat (t3 AND 0xFF)] else [])
           in map_option (\<lambda>out. o1 @ o2 @ o3 @ out) (blob_decode_loop rest))"
| "blob_decode_loop s = Some []"

definition blob_from_base64 :: "string \<Rightarrow> byte list option" where
  "blob_from_base64 s = (if length s mod 4 \<noteq> 0 then None else blob_decode_loop s)"

definition blob_to_hex :: "byte list \<Rightarrow> string" where
  "blob_to_hex bytes = concat (map hex_pair bytes)"

definition blob_from_hex :: "string \<Rightarrow> byte list option" where
  "blob_from_hex s = (let hex = strip_hex_prefix s in if length hex mod 2 \<noteq> 0 then None else hex_bytes hex)"

end
