(* ===== verification/Uuid.thy ===== *)
theory Uuid
  imports Byte_Types
begin

text \<open>
  \<^verbatim>\<open>src/data/types/UUID.h\<close>: the sixteen bytes of a UUID, their fields and order, and the formatter and
  parser in every tier of the instruction set. Registers are lists of lanes, lowest first.
\<close>

datatype uuid_tier = VBMI | SSSE3 | AArch64 | Portable

type_synonym uuid = "byte list"

definition nil_uuid :: uuid where
  "nil_uuid = replicate 16 0"

definition uuid_of_words :: "u64 \<Rightarrow> u64 \<Rightarrow> uuid" where
  "uuid_of_words hi lo = le_bytes 8 hi @ le_bytes 8 lo"

definition uuid_is_nil :: "uuid \<Rightarrow> bool" where
  "uuid_is_nil u \<longleftrightarrow> le_word (take 8 u) = 0 \<and> le_word (drop 8 u) = 0"

definition uuid_version :: "uuid \<Rightarrow> byte" where
  "uuid_version u = drop_bit 4 (u ! 6) AND 0x0F"

definition uuid_variant :: "uuid \<Rightarrow> nat" where
  "uuid_variant u =
     (let v = u ! 8
      in if v AND 0x80 = 0 then 0 else if v AND 0xC0 = 0x80 then 1 else if v AND 0xE0 = 0xC0 then 2 else 3)"

definition byteswap :: "u64 \<Rightarrow> u64" where
  "byteswap w = le_word (rev (le_bytes 8 w))"

definition timestamp_ms :: "uuid \<Rightarrow> u64" where
  "timestamp_ms u = drop_bit 16 (byteswap (le_word (take 8 u)))"

definition uuid_eq :: "uuid \<Rightarrow> uuid \<Rightarrow> bool" where
  "uuid_eq a b \<longleftrightarrow> le_word (take 8 a) = le_word (take 8 b) \<and> le_word (drop 8 a) = le_word (drop 8 b)"

definition uuid_less :: "uuid \<Rightarrow> uuid \<Rightarrow> bool" where
  "uuid_less a b =
     (let a_hi = byteswap (le_word (take 8 a)); b_hi = byteswap (le_word (take 8 b))
      in if a_hi \<noteq> b_hi then a_hi < b_hi
         else byteswap (le_word (drop 8 a)) < byteswap (le_word (drop 8 b)))"

subsection \<open>Lanes\<close>

definition chr :: "byte \<Rightarrow> char" where
  "chr b = char_of (unat b)"

text \<open>A logical shift right of each 16-bit lane, two byte lanes at a time.\<close>

fun srli_epi16 :: "nat \<Rightarrow> reg \<Rightarrow> reg" where
  "srli_epi16 k (a # b # r) =
     (let w = drop_bit k (push_bit 8 (ucast b) OR ucast a :: 16 word)
      in ucast w # ucast (drop_bit 8 w) # srli_epi16 k r)"
| "srli_epi16 k r = []"

fun interleave :: "reg \<Rightarrow> reg \<Rightarrow> reg" where
  "interleave (a # as) (b # bs) = a # b # interleave as bs"
| "interleave as bs = []"

definition shuffle_epi8 :: "reg \<Rightarrow> reg \<Rightarrow> reg" where
  "shuffle_epi8 lut idx = map (\<lambda>i. if bit i 7 then 0 else lut ! unat (i AND 0x0F)) idx"

definition vqtbl1q_u8 :: "reg \<Rightarrow> reg \<Rightarrow> reg" where
  "vqtbl1q_u8 lut idx = map (\<lambda>i. if unat i < 16 then lut ! unat i else 0) idx"

definition permutexvar_epi8 :: "nat list \<Rightarrow> reg \<Rightarrow> reg" where
  "permutexvar_epi8 idx v = map (\<lambda>i. v ! (i mod 64)) idx"

definition hex_lut :: reg where
  "hex_lut = map lane HEX_DIGITS_LOWER"

definition VBMI_FORMAT_PERMUTE :: "nat list" where
  "VBMI_FORMAT_PERMUTE = [0, 1, 2, 3, 4, 5, 6, 7, 32, 8, 9, 10, 11, 32, 12, 13, 14, 15, 32, 16, 17, 18, 19, 32,
     20, 21, 22, 23, 24, 25, 26, 27, 28, 29, 30, 31] @ replicate 28 0"

definition VBMI_PARSE_PERMUTE :: "nat list" where
  "VBMI_PARSE_PERMUTE = [0, 1, 2, 3, 4, 5, 6, 7, 9, 10, 11, 12, 14, 15, 16, 17, 19, 20, 21, 22,
     24, 25, 26, 27, 28, 29, 30, 31, 32, 33, 34, 35] @ replicate 32 0"

subsection \<open>Formatting\<close>

text \<open>
  The first tier widens a 256-bit register to 512 bits, whose upper half is unspecified; \<open>junk\<close> is
  what it holds.
\<close>

definition to_chars_vbmi :: "reg \<Rightarrow> uuid \<Rightarrow> string" where
  "to_chars_vbmi junk u =
     (let mask_0f = set1 16 0x0F;
          hi_nibbles = and_reg (srli_epi16 4 u) mask_0f;
          lo_nibbles = and_reg u mask_0f;
          nibbles_lo = interleave (take 8 hi_nibbles) (take 8 lo_nibbles);
          nibbles_hi = interleave (drop 8 hi_nibbles) (drop 8 lo_nibbles);
          ascii_lo = shuffle_epi8 hex_lut nibbles_lo;
          ascii_hi = shuffle_epi8 hex_lut nibbles_hi;
          ascii_512 = (ascii_lo @ ascii_hi @ junk)[32 := lane CHR ''-''];
          formatted = permutexvar_epi8 VBMI_FORMAT_PERMUTE ascii_512
      in map chr (take 36 formatted))"

text \<open>The stores of the second and third tier: parts of the two registers of digits, with hyphens between.\<close>

definition hyphenate :: "reg \<Rightarrow> reg \<Rightarrow> string" where
  "hyphenate ascii_0 ascii_1 =
     map chr (take 8 ascii_0) @ ''-'' @ map chr (take 4 (drop 8 ascii_0)) @ ''-'' @ map chr (take 4 (drop 12 ascii_0)) @
     ''-'' @ map chr (take 4 ascii_1) @ ''-'' @ map chr (take 8 (drop 4 ascii_1)) @ map chr (take 4 (drop 12 ascii_1))"

definition to_chars_ssse3 :: "uuid \<Rightarrow> string" where
  "to_chars_ssse3 u =
     (let mask_0f = set1 16 0x0F;
          hi = and_reg (srli_epi16 4 u) mask_0f;
          lo = and_reg u mask_0f;
          nibbles_0 = interleave (take 8 hi) (take 8 lo);
          nibbles_1 = interleave (drop 8 hi) (drop 8 lo)
      in hyphenate (shuffle_epi8 hex_lut nibbles_0) (shuffle_epi8 hex_lut nibbles_1))"

definition to_chars_aarch64 :: "uuid \<Rightarrow> string" where
  "to_chars_aarch64 u =
     (let hi = map (drop_bit 4) u;
          lo = and_reg u (set1 16 0x0F);
          nibbles_0 = interleave (take 8 hi) (take 8 lo);
          nibbles_1 = interleave (drop 8 hi) (drop 8 lo)
      in hyphenate (vqtbl1q_u8 hex_lut nibbles_0) (vqtbl1q_u8 hex_lut nibbles_1))"

definition to_chars_portable :: "uuid \<Rightarrow> string" where
  "to_chars_portable u =
     concat (map (\<lambda>i. (if i = 4 \<or> i = 6 \<or> i = 8 \<or> i = 10 then ''-'' else []) @ hex_pair (u ! i)) [0..<16])"

definition uuid_to_string :: "uuid_tier \<Rightarrow> reg \<Rightarrow> uuid \<Rightarrow> string" where
  "uuid_to_string t junk u =
     (case t of VBMI \<Rightarrow> to_chars_vbmi junk u | SSSE3 \<Rightarrow> to_chars_ssse3 u | AArch64 \<Rightarrow> to_chars_aarch64 u
      | Portable \<Rightarrow> to_chars_portable u)"

subsection \<open>Parsing\<close>

definition sub_epi8 :: "reg \<Rightarrow> reg \<Rightarrow> reg" where
  "sub_epi8 = map2 (-)"

definition add_epi8 :: "reg \<Rightarrow> reg \<Rightarrow> reg" where
  "add_epi8 = map2 (+)"

text \<open>\<open>blendv_epi8 a b m\<close> takes \<open>b\<close> where the high bit of the mask is set.\<close>

definition blendv_epi8 :: "reg \<Rightarrow> reg \<Rightarrow> reg \<Rightarrow> reg" where
  "blendv_epi8 a b m = map (\<lambda>(x, y, z). if bit z 7 then y else x) (zip a (zip b m))"

text \<open>
  Multiply unsigned by signed bytes, add neighbours with saturation to 16 bits, then pack with
  unsigned saturation to bytes; the multipliers are 16 and 1.
\<close>

fun maddubs_epi16 :: "reg \<Rightarrow> int list" where
  "maddubs_epi16 (a # b # r) = (let s = uint a * 0x10 + uint b * 0x01 in max (- 32768) (min 32767 s)) # maddubs_epi16 r"
| "maddubs_epi16 r = []"

definition packus_epi16 :: "int list \<Rightarrow> reg" where
  "packus_epi16 v = map (\<lambda>n. word_of_int (max 0 (min 255 n))) v"

definition is_between :: "reg \<Rightarrow> char \<Rightarrow> char \<Rightarrow> reg" where
  "is_between v lo hi =
     and_reg (cmpgt_epi8 v (sub_epi8 (set1 32 (u8 lo)) (set1 32 1))) (cmpgt_epi8 (add_epi8 (set1 32 (u8 hi)) (set1 32 1)) v)"

definition from_chars_vbmi :: "string \<Rightarrow> uuid option" where
  "from_chars_vbmi s =
     (let chars_512 = maskz_loadu 64 (tail_mask 36) s 0;
          hex_compact = permutexvar_epi8 VBMI_PARSE_PERMUTE chars_512;
          hex_chars = take 32 hex_compact;
          digit = is_between hex_chars CHR ''0'' CHR ''9'';
          upper = is_between hex_chars CHR ''A'' CHR ''Z'';
          hex_lower = or_reg hex_chars (and_reg upper (set1 32 0x20));
          alpha = is_between hex_lower CHR ''a'' CHR ''f'';
          valid = or_reg digit alpha
      in if movemask_epi8 valid \<noteq> 0xFFFFFFFF then None
         else
           let digit_val = sub_epi8 hex_lower (set1 32 (u8 CHR ''0''));
               alpha_val = add_epi8 (sub_epi8 hex_lower (set1 32 (u8 CHR ''a''))) (set1 32 10);
               nibbles = blendv_epi8 alpha_val digit_val digit
           in Some (packus_epi16 (maddubs_epi16 nibbles)))"

text \<open>The table-driven loop: \<open>error_acc\<close> collects the bits of every digit, tested once at the end.\<close>

function from_chars_loop :: "string \<Rightarrow> nat \<Rightarrow> nat \<Rightarrow> byte \<Rightarrow> byte \<times> uuid" where
  "from_chars_loop s b_idx s_idx error_acc =
     (if 16 \<le> b_idx then (error_acc, [])
      else
        let i = (if s_idx = 8 \<or> s_idx = 13 \<or> s_idx = 18 \<or> s_idx = 23 then s_idx + 1 else s_idx);
            hi = HEX_DECODE_TABLE (s ! i); lo = HEX_DECODE_TABLE (s ! (i + 1));
            (e, out) = from_chars_loop s (b_idx + 1) (i + 2) (error_acc OR (hi OR lo))
        in (e, (push_bit 4 hi OR lo) # out))"
  by pat_completeness auto
termination
  by (relation "measure (\<lambda>(s, b_idx, s_idx, e). 16 - b_idx)") auto

declare from_chars_loop.simps [simp del]

definition uuid_from_chars :: "uuid_tier \<Rightarrow> string \<Rightarrow> uuid option" where
  "uuid_from_chars t s =
     (if s ! 8 \<noteq> CHR ''-'' \<or> s ! 13 \<noteq> CHR ''-'' \<or> s ! 18 \<noteq> CHR ''-'' \<or> s ! 23 \<noteq> CHR ''-'' then None
      else if t = VBMI then from_chars_vbmi s
      else (let (e, out) = from_chars_loop s 0 0 0 in if e AND 0xF0 = 0 then Some out else None))"

definition uuid_from_string :: "uuid_tier \<Rightarrow> string \<Rightarrow> uuid option" where
  "uuid_from_string t s = (if length s \<noteq> 36 then None else uuid_from_chars t s)"

definition uuid_parse_or_nil :: "uuid_tier \<Rightarrow> string \<Rightarrow> uuid" where
  "uuid_parse_or_nil t s = (case uuid_from_string t s of Some u \<Rightarrow> u | None \<Rightarrow> nil_uuid)"

end
