(* ===== verification/Uuid_Generator.thy ===== *)
theory Uuid_Generator
  imports Uuid
begin

text \<open>
  \<^verbatim>\<open>src/data/types/UUIDGenerator.h\<close>: the scalar and the vector generator of a thread, the seeding from
  hardware, version 4 in every tier with its buffer and its batch form, and version 7 with its counter.
  The hardware (entropy instructions, random device, clocks) is a state with operations; the call
  counters are reset long before 32 bits, so they are natural numbers.
\<close>

subsection \<open>Hardware\<close>

record 'h hardware =
  hw_has_rdrand :: bool
  hw_has_rdseed :: bool
  hw_rdrand :: "'h \<Rightarrow> u64 option \<times> 'h"
  hw_rdseed :: "'h \<Rightarrow> u64 option \<times> 'h"
  hw_device :: "'h \<Rightarrow> 32 word \<times> 'h"
  hw_ticks :: "'h \<Rightarrow> u64 \<times> 'h"
  hw_steady :: "'h \<Rightarrow> u64 \<times> 'h"
  hw_now_ms :: "'h \<Rightarrow> u64 \<times> 'h"

primrec retry :: "nat \<Rightarrow> ('h \<Rightarrow> u64 option \<times> 'h) \<Rightarrow> 'h \<Rightarrow> u64 option \<times> 'h" where
  "retry 0 f h = (None, h)"
| "retry (Suc n) f h = (case f h of (Some v, h) \<Rightarrow> (Some v, h) | (None, h) \<Rightarrow> retry n f h)"

definition hardware_random64 :: "'h hardware \<Rightarrow> 'h \<Rightarrow> u64 \<times> 'h" where
  "hardware_random64 H h =
     (case (if hw_has_rdrand H then retry 16 (hw_rdrand H) h else (None, h)) of
        (Some v, h) \<Rightarrow> (v, h)
      | (None, h) \<Rightarrow>
          let (r1, h) = hw_device H h; (r2, h) = hw_device H h;
              a = push_bit 32 (ucast r1) OR ucast r2;
              (b, h) = hw_ticks H h
          in (a XOR b * 0x9e3779b97f4a7c15, h))"

definition hardware_seed64 :: "'h hardware \<Rightarrow> 'h \<Rightarrow> u64 \<times> 'h" where
  "hardware_seed64 H h =
     (case (if hw_has_rdseed H then retry 32 (hw_rdseed H) h else (None, h)) of
        (Some v, h) \<Rightarrow> (v, h)
      | (None, h) \<Rightarrow> hardware_random64 H h)"

subsection \<open>The scalar generator\<close>

record fast_rng =
  fr_s0 :: u64
  fr_s1 :: u64
  fr_s2 :: u64
  fr_s3 :: u64
  fr_count :: nat

definition initial_rng :: fast_rng where
  "initial_rng = \<lparr>fr_s0 = 0x9e3779b97f4a7c15, fr_s1 = 0xbf58476d1ce4e5b9, fr_s2 = 0x94d049bb133111eb,
     fr_s3 = 0xd6e8feb86659fd93, fr_count = 0\<rparr>"

definition rotl :: "u64 \<Rightarrow> nat \<Rightarrow> u64" where
  "rotl x k = push_bit k x OR drop_bit (64 - k) x"

definition seed_word :: "'h hardware \<Rightarrow> nat \<Rightarrow> 'h \<Rightarrow> u64 \<times> 'h" where
  "seed_word H i h =
     (let (v, h) = hardware_seed64 H h
      in if v = 0 then let (s, h) = hw_steady H h in (s XOR 0x9e3779b97f4a7c15 * of_nat (i + 1), h) else (v, h))"

definition seed_from_hardware :: "'h hardware \<Rightarrow> 'h \<Rightarrow> fast_rng \<times> 'h" where
  "seed_from_hardware H h =
     (let (a, h) = seed_word H 0 h; (b, h) = seed_word H 1 h; (c, h) = seed_word H 2 h; (d, h) = seed_word H 3 h
      in (\<lparr>fr_s0 = a, fr_s1 = b, fr_s2 = c, fr_s3 = d, fr_count = 0\<rparr>, h))"

text \<open>One step of the generator on its four words.\<close>

definition xoshiro :: "u64 \<times> u64 \<times> u64 \<times> u64 \<Rightarrow> u64 \<times> u64 \<times> u64 \<times> u64 \<times> u64" where
  "xoshiro s =
     (let (s0, s1, s2, s3) = s;
          result = rotl (s0 + s3) 23 + s0;
          t = push_bit 17 s1;
          s2 = s2 XOR s0;
          s3 = s3 XOR s1;
          s1 = s1 XOR s2;
          s0 = s0 XOR s3;
          s2 = s2 XOR t;
          s3 = rotl s3 45
      in (result, s0, s1, s2, s3))"

definition next_u64 :: "'h hardware \<Rightarrow> fast_rng \<times> 'h \<Rightarrow> u64 \<times> fast_rng \<times> 'h" where
  "next_u64 H rh =
     (let (r, h) = rh; r = r\<lparr>fr_count := fr_count r + 1\<rparr>;
          (r, h) = (if 65536 \<le> fr_count r then seed_from_hardware H h else (r, h));
          (result, s0, s1, s2, s3) = xoshiro (fr_s0 r, fr_s1 r, fr_s2 r, fr_s3 r)
      in (result, r\<lparr>fr_s0 := s0, fr_s1 := s1, fr_s2 := s2, fr_s3 := s3\<rparr>, h))"

primrec draw :: "'h hardware \<Rightarrow> nat \<Rightarrow> fast_rng \<times> 'h \<Rightarrow> u64 list \<times> fast_rng \<times> 'h" where
  "draw H 0 rh = ([], rh)"
| "draw H (Suc n) rh = (let (x, rh) = next_u64 H rh; (xs, rh) = draw H n rh in (x # xs, rh))"

subsection \<open>The vector generator\<close>

text \<open>Four lanes of the same recurrence, lowest first.\<close>

record vector_rng =
  vr_lanes :: "(u64 \<times> u64 \<times> u64 \<times> u64) list"
  vr_count :: nat

definition seed_from_scalar :: "'h hardware \<Rightarrow> fast_rng \<times> 'h \<Rightarrow> vector_rng \<times> fast_rng \<times> 'h" where
  "seed_from_scalar H rh =
     (let (buf, rh) = draw H 16 rh
      in (\<lparr>vr_lanes = map (\<lambda>k. (buf ! (4 * k), buf ! (4 * k + 1), buf ! (4 * k + 2), buf ! (4 * k + 3))) [0..<4],
           vr_count = 0\<rparr>, rh))"

record thread_gen =
  tg_rng :: fast_rng
  tg_vec :: vector_rng
  tg_buffer :: "uuid list"
  tg_index :: nat
  tg_last_ts_ms :: u64
  tg_counter :: u64

definition next_4x64 :: "'h hardware \<Rightarrow> thread_gen \<times> 'h \<Rightarrow> u64 list \<times> thread_gen \<times> 'h" where
  "next_4x64 H gh =
     (let (g, h) = gh; v = (tg_vec g)\<lparr>vr_count := vr_count (tg_vec g) + 1\<rparr>;
          (v, r, h) = (if 16384 \<le> vr_count v then seed_from_scalar H (tg_rng g, h) else (v, tg_rng g, h));
          steps = map xoshiro (vr_lanes v)
      in (map fst steps, g\<lparr>tg_rng := r, tg_vec := v\<lparr>vr_lanes := map snd steps\<rparr>\<rparr>, h))"

subsection \<open>Version 4\<close>

datatype gen_tier = G_AVX512 | G_AVX2 | G_NEON | G_Scalar

definition and_mask :: "byte list" where
  "and_mask = [0xFF, 0xFF, 0xFF, 0xFF, 0xFF, 0xFF, 0x0F, 0xFF, 0x3F, 0xFF, 0xFF, 0xFF, 0xFF, 0xFF, 0xFF, 0xFF]"

definition or_mask :: "byte list" where
  "or_mask = [0, 0, 0, 0, 0, 0, 0x40, 0, 0x80, 0, 0, 0, 0, 0, 0, 0]"

definition stamp_v4 :: "byte list \<Rightarrow> uuid" where
  "stamp_v4 raw = or_reg (and_reg raw and_mask) or_mask"

fun pair_words :: "u64 list \<Rightarrow> byte list list" where
  "pair_words (a # b # r) = (le_bytes 8 a @ le_bytes 8 b) # pair_words r"
| "pair_words r = []"

text \<open>
  The registers of one refill as the words in memory order: two registers side by side with AVX-512,
  the low words of each half interleaved with AVX2.
\<close>

definition refill_words :: "gen_tier \<Rightarrow> u64 list \<Rightarrow> u64 list \<Rightarrow> u64 list" where
  "refill_words t a b = (if t = G_AVX512 then a @ b else [a ! 0, b ! 0, a ! 2, b ! 2])"

definition block_v4 :: "gen_tier \<Rightarrow> 'h hardware \<Rightarrow> thread_gen \<times> 'h \<Rightarrow> uuid list \<times> thread_gen \<times> 'h" where
  "block_v4 t H gh =
     (let (a, gh) = next_4x64 H gh; (b, gh) = next_4x64 H gh
      in (map stamp_v4 (pair_words (refill_words t a b)), gh))"

definition buffer_size :: "gen_tier \<Rightarrow> nat" where
  "buffer_size t = (if t = G_AVX512 then 4 else 2)"

definition buffer_next :: "gen_tier \<Rightarrow> 'h hardware \<Rightarrow> thread_gen \<times> 'h \<Rightarrow> uuid \<times> thread_gen \<times> 'h" where
  "buffer_next t H gh =
     (let (g, h) = gh;
          (g, h) = (if buffer_size t \<le> tg_index g
                    then let (us, g, h) = block_v4 t H (g, h) in (g\<lparr>tg_buffer := us, tg_index := 0\<rparr>, h)
                    else (g, h))
      in (tg_buffer g ! tg_index g, g\<lparr>tg_index := tg_index g + 1\<rparr>, h))"

text \<open>The scalar tier masks the two words themselves, on a little-endian machine.\<close>

definition uuid_v4 :: "gen_tier \<Rightarrow> 'h hardware \<Rightarrow> thread_gen \<times> 'h \<Rightarrow> uuid \<times> thread_gen \<times> 'h" where
  "uuid_v4 t H gh =
     (if t = G_AVX512 \<or> t = G_AVX2 then buffer_next t H gh
      else
        let (g, h) = gh;
            (w0, r, h) = next_u64 H (tg_rng g, h);
            (w1, r, h) = next_u64 H (r, h);
            u = (if t = G_NEON then stamp_v4 (le_bytes 8 w0 @ le_bytes 8 w1)
                 else le_bytes 8 ((w0 AND 0xFF0FFFFFFFFFFFFF) OR 0x0040000000000000) @
                      le_bytes 8 ((w1 AND 0xFFFFFFFFFFFFFF3F) OR 0x0000000000000080))
        in (u, g\<lparr>tg_rng := r\<rparr>, h))"

primrec uuid_v4s :: "gen_tier \<Rightarrow> 'h hardware \<Rightarrow> nat \<Rightarrow> thread_gen \<times> 'h \<Rightarrow> uuid list \<times> thread_gen \<times> 'h" where
  "uuid_v4s t H 0 gh = ([], gh)"
| "uuid_v4s t H (Suc n) gh = (let (u, gh) = uuid_v4 t H gh; (us, gh) = uuid_v4s t H n gh in (u # us, gh))"

text \<open>The vector loop of the batch form: whole blocks, then single UUIDs.\<close>

definition batch_block :: "gen_tier \<Rightarrow> 'h hardware \<Rightarrow> thread_gen \<times> 'h \<Rightarrow> uuid list \<times> thread_gen \<times> 'h" where
  "batch_block t H gh =
     (if t = G_NEON then
        let (g, h) = gh; (ws, r, h) = draw H 4 (tg_rng g, h)
        in (map stamp_v4 (pair_words ws), g\<lparr>tg_rng := r\<rparr>, h)
      else block_v4 t H gh)"

primrec batch_blocks :: "gen_tier \<Rightarrow> 'h hardware \<Rightarrow> nat \<Rightarrow> thread_gen \<times> 'h \<Rightarrow> uuid list \<times> thread_gen \<times> 'h" where
  "batch_blocks t H 0 gh = ([], gh)"
| "batch_blocks t H (Suc n) gh = (let (us, gh) = batch_block t H gh; (vs, gh) = batch_blocks t H n gh in (us @ vs, gh))"

definition v4_batch :: "gen_tier \<Rightarrow> 'h hardware \<Rightarrow> nat \<Rightarrow> thread_gen \<times> 'h \<Rightarrow> uuid list \<times> thread_gen \<times> 'h" where
  "v4_batch t H n gh =
     (if t = G_Scalar then uuid_v4s t H n gh
      else
        let size = (if t = G_AVX512 then 4 else 2);
            (us, gh) = batch_blocks t H (n div size) gh;
            (vs, gh) = uuid_v4s t H (n mod size) gh
        in (us @ vs, gh))"

subsection \<open>Version 7\<close>

definition stamp_v7 :: "u64 \<Rightarrow> u64 \<Rightarrow> 32 word \<Rightarrow> uuid" where
  "stamp_v7 ts_ms counter random_tail =
     (let rand_a = drop_bit 30 counter AND 0x0FFF;
          counter_lo = counter AND 0x3FFFFFFF;
          hi = push_bit 16 ts_ms OR 0x7000 OR rand_a;
          lo = push_bit 32 counter_lo OR ucast random_tail;
          lo = (lo AND 0x3FFFFFFFFFFFFFFF) OR 0x8000000000000000
      in le_bytes 8 (byteswap hi) @ le_bytes 8 (byteswap lo))"

definition v7_counter :: "'h hardware \<Rightarrow> u64 \<Rightarrow> thread_gen \<times> 'h \<Rightarrow> u64 \<times> thread_gen \<times> 'h" where
  "v7_counter H now_ms gh =
     (let (g, h) = gh
      in if tg_last_ts_ms g < now_ms then
           let (x, r, h) = next_u64 H (tg_rng g, h); c = x AND 0x000003FFFFFFFFFF
           in (c, g\<lparr>tg_rng := r, tg_last_ts_ms := now_ms, tg_counter := c\<rparr>, h)
         else (tg_counter g + 1, g, h))"

definition uuid_v7 :: "'h hardware \<Rightarrow> thread_gen \<times> 'h \<Rightarrow> uuid \<times> thread_gen \<times> 'h" where
  "uuid_v7 H gh =
     (let (g, h) = gh; (now_ms, h) = hw_now_ms H h;
          (counter, g, h) = v7_counter H now_ms (g, h);
          g = g\<lparr>tg_counter := counter\<rparr>;
          (tail, r, h) = next_u64 H (tg_rng g, h)
      in (stamp_v7 now_ms counter (ucast tail), g\<lparr>tg_rng := r\<rparr>, h))"

primrec v7_stamps :: "'h hardware \<Rightarrow> u64 \<Rightarrow> u64 \<Rightarrow> nat \<Rightarrow> fast_rng \<times> 'h \<Rightarrow> uuid list \<times> fast_rng \<times> 'h" where
  "v7_stamps H now_ms counter 0 rh = ([], rh)"
| "v7_stamps H now_ms counter (Suc n) rh =
     (let (tail, rh) = next_u64 H rh; (us, rh) = v7_stamps H now_ms (counter + 1) n rh
      in (stamp_v7 now_ms counter (ucast tail) # us, rh))"

definition v7_batch :: "'h hardware \<Rightarrow> nat \<Rightarrow> thread_gen \<times> 'h \<Rightarrow> uuid list \<times> thread_gen \<times> 'h" where
  "v7_batch H n gh =
     (if n = 0 then ([], gh)
      else
        let (g, h) = gh; (now_ms, h) = hw_now_ms H h;
            (base, g, h) = v7_counter H now_ms (g, h);
            g = g\<lparr>tg_counter := base + of_nat (n - 1)\<rparr>;
            (us, r, h) = v7_stamps H now_ms base n (tg_rng g, h)
        in (us, g\<lparr>tg_rng := r\<rparr>, h))"

text \<open>The state a thread starts with: the vector generator is seeded from the scalar one.\<close>

definition fresh_thread :: "gen_tier \<Rightarrow> 'h hardware \<Rightarrow> 'h \<Rightarrow> thread_gen \<times> 'h" where
  "fresh_thread t H h =
     (let (v, r, h) = (if t = G_AVX512 \<or> t = G_AVX2 then seed_from_scalar H (initial_rng, h)
                       else (\<lparr>vr_lanes = [], vr_count = 0\<rparr>, initial_rng, h))
      in (\<lparr>tg_rng = r, tg_vec = v, tg_buffer = replicate (buffer_size t) nil_uuid, tg_index = buffer_size t,
           tg_last_ts_ms = 0, tg_counter = 0\<rparr>, h))"

end
