(* ===== verification/Byte_Types_Proofs.thy ===== *)
theory Byte_Types_Proofs
  imports Uuid
begin

text \<open>
  Round trips of the hexadecimal and UUID texts in every tier, the constant-time comparison of
  hashes, and what the Base64 codec of blobs does.
\<close>

subsection \<open>Hexadecimal\<close>

lemma nibble_cases: "n < 16 \<Longrightarrow> n \<in> {0, 1, 2, 3, 4, 5, 6, 7, 8, 9, 10, 11, 12, 13, 14, 15}" for n :: byte
proof -
  have "\<forall>n :: byte. n < 16 \<longrightarrow> List.member [0, 1, 2, 3, 4, 5, 6, 7, 8, 9, 10, 11, 12, 13, 14, 15] n"
    unfolding byte_all by code_simp
  then show "n < 16 \<Longrightarrow> ?thesis" by auto
qed

lemma hex_digit_decode: "n < 16 \<Longrightarrow> HEX_DECODE_TABLE (hex_digit n) = n"
  using nibble_cases [of n]
  by (auto simp: hex_digit_def HEX_DIGITS_LOWER_def HEX_DECODE_TABLE_def u8_def)

lemma hex_digit_plain: "n < 16 \<Longrightarrow> hex_digit n \<noteq> CHR ''x'' \<and> hex_digit n \<noteq> CHR ''-''"
  using nibble_cases [of n] by (auto simp: hex_digit_def HEX_DIGITS_LOWER_def)

lemma nibbles:
  fixes b :: byte
  shows "drop_bit 4 b < 16" "b AND 0x0F < 16" "(drop_bit 4 b OR (b AND 0x0F)) AND 0xF0 = 0"
    "push_bit 4 (drop_bit 4 b) OR (b AND 0x0F) = b"
proof -
  have "\<forall>b :: byte. drop_bit 4 b < 16 \<and> b AND 0x0F < 16 \<and> (drop_bit 4 b OR (b AND 0x0F)) AND 0xF0 = 0 \<and>
    push_bit 4 (drop_bit 4 b) OR (b AND 0x0F) = b"
    unfolding byte_all by code_simp
  then show "drop_bit 4 b < 16" "b AND 0x0F < 16" "(drop_bit 4 b OR (b AND 0x0F)) AND 0xF0 = 0"
    "push_bit 4 (drop_bit 4 b) OR (b AND 0x0F) = b" by blast+
qed

lemma hex_byte_digits: "hex_byte (hex_digit (drop_bit 4 b)) (hex_digit (b AND 0x0F)) = Some b"
  by (simp add: hex_byte_def hex_digit_decode nibbles)

lemma hex_pair_plain: "hex_pair b ! 1 \<noteq> CHR ''x''"
  using hex_digit_plain [OF nibbles(2)] by (simp add: hex_pair_def)

lemma length_hex_pair [simp]: "length (hex_pair b) = 2"
  by (simp add: hex_pair_def)

lemma hex_bytes_pairs: "hex_bytes (concat (map hex_pair bs)) = Some bs"
  by (induction bs) (simp_all add: hex_pair_def hex_byte_digits)

lemma strip_hex_pairs: "strip_hex_prefix (concat (map hex_pair bs)) = concat (map hex_pair bs)"
proof (cases bs)
  case (Cons b r)
  have "concat (map hex_pair bs) ! 1 \<noteq> CHR ''x''" using hex_pair_plain [of b] Cons by (simp add: nth_append)
  then show ?thesis by (auto simp: strip_hex_prefix_def starts_with_nth less_Suc_eq all_conj_distrib numeral_2_eq_2)
qed (simp add: strip_hex_prefix_def starts_with_def)

lemma xor_zero_iff: "a XOR b = 0 \<longleftrightarrow> a = b" for a b :: byte
  by (metis xor.left_commute xor.right_neutral xor_self_eq)

lemma hash_eq_iff:
  assumes "length a = length b"
  shows "hash_eq a b \<longleftrightarrow> a = b"
proof -
  have "fold (\<lambda>(x, y) diff. diff OR (x XOR y)) (zip a b) d = 0 \<longleftrightarrow> d = 0 \<and> a = b" for d
    using assms by (induction a b arbitrary: d rule: list_induct2) (auto simp: or_eq_0_iff xor_zero_iff)
  then show ?thesis by (simp add: hash_eq_def)
qed

lemma list_of_length:
  "length xs = Suc n \<longleftrightarrow> (\<exists>y ys. xs = y # ys \<and> length ys = n)"
  by (rule length_Suc_conv)

lemma mac_roundtrip:
  assumes "length m = 6"
  shows "mac_from_string (mac_to_string m) = Some m"
proof -
  obtain a b c d e f where "m = [a, b, c, d, e, f]" using assms by (auto simp: eval_nat_numeral length_Suc_conv)
  then show ?thesis
    by (simp add: mac_from_string_def mac_to_string_def mac_loop_def hex_pair_def hex_byte_digits upt_rec)
qed

subsection \<open>Blobs\<close>

text \<open>
  The index never passes the length, so the two padding tests of the encoder are always false: a
  last group of one or two bytes is written as if zero bytes followed.
\<close>

fun zero_padded :: "byte list \<Rightarrow> string" where
  "zero_padded [] = []"
| "zero_padded [a] = (let t = triple (unat a) 0 0 in
     [sextet BASE64_CHARS t 18, sextet BASE64_CHARS t 12, sextet BASE64_CHARS t 6, sextet BASE64_CHARS t 0])"
| "zero_padded [a, b] = (let t = triple (unat a) (unat b) 0 in
     [sextet BASE64_CHARS t 18, sextet BASE64_CHARS t 12, sextet BASE64_CHARS t 6, sextet BASE64_CHARS t 0])"
| "zero_padded (a # b # c # r) = (let t = triple (unat a) (unat b) (unat c) in
     [sextet BASE64_CHARS t 18, sextet BASE64_CHARS t 12, sextet BASE64_CHARS t 6, sextet BASE64_CHARS t 0]) @ zero_padded r"

lemma blob_encode_zero_padded: "blob_encode_loop bytes i = zero_padded (drop i bytes)"
proof (induction "length bytes - i" arbitrary: i rule: less_induct)
  case less
  have len: "length (drop i bytes) = length bytes - i" by simp
  have at: "drop i bytes ! k = bytes ! (i + k)" if "i + k < length bytes" for k using that by simp
  show ?case
  proof (cases "drop i bytes" rule: zero_padded.cases)
    case 1
    then show ?thesis by (subst blob_encode_loop.simps) simp
  next
    case (2 a)
    then have "length bytes = Suc i" "bytes ! i = a" using len at [of 0] by (cases "i < length bytes"; simp)+
    then show ?thesis using 2 less [of "Suc i"] by (subst blob_encode_loop.simps) (simp add: Let_def)
  next
    case (3 a b)
    then have "length bytes = Suc (Suc i)" "bytes ! i = a" "bytes ! Suc i = b" using len at [of 0] at [of 1] by auto
    then show ?thesis using 3 less [of "Suc (Suc i)"] by (subst blob_encode_loop.simps) (simp add: Let_def)
  next
    case (4 a b c r)
    then have "Suc (Suc i) < length bytes" "bytes ! i = a" "bytes ! Suc i = b" "bytes ! Suc (Suc i) = c"
      using len at [of 0] at [of 1] at [of 2] by auto
    moreover have "drop (Suc (Suc (Suc i))) bytes = r" using 4 by (metis drop_Suc list.sel(3) tl_drop)
    ultimately show ?thesis using 4 less [of "Suc (Suc (Suc i))"] by (subst blob_encode_loop.simps) (simp add: Let_def)
  qed
qed

lemma decode_char_sextet: "decode_char (sextet BASE64_CHARS t k) = int (t div 2 ^ k mod 64)"
proof -
  have tab: "map decode_char BASE64_CHARS = map int [0..<64]"
    by (simp add: BASE64_CHARS_def decode_char_def u8_def upt_rec)
  have "decode_char (BASE64_CHARS ! n) = int n" if "n < 64" for n
    using arg_cong [OF tab, of "\<lambda>xs. xs ! n"] that alphabet_length [OF alphabets(2)] by simp
  then show ?thesis by (simp add: sextet_def and_63 drop_bit_eq_div)
qed

lemma blob_decode_group:
  fixes a b c :: byte
  shows "blob_decode_loop (let t = triple (unat a) (unat b) (unat c) in
      [sextet BASE64_CHARS t 18, sextet BASE64_CHARS t 12, sextet BASE64_CHARS t 6, sextet BASE64_CHARS t 0] @ rest) =
    map_option (\<lambda>out. a # b # c # out) (blob_decode_loop rest)"
proof -
  let ?t = "triple (unat a) (unat b) (unat c)"
  have ub: "unat a < 256" "unat b < 256" "unat c < 256"
    using unsigned_less [where 'a = nat, of a] unsigned_less [where 'a = nat, of b] unsigned_less [where 'a = nat, of c] by simp_all
  have t: "?t = unat a * 65536 + unat b * 256 + unat c" by (rule triple_eq) (rule ub)+
  have lt: "?t < 2 ^ 24" using ub t by simp
  define c0 where "c0 = ?t div 2 ^ 18 mod 64"
  define c1 where "c1 = ?t div 2 ^ 12 mod 64"
  define c2 where "c2 = ?t div 2 ^ 6 mod 64"
  define c3 where "c3 = ?t mod 64"
  have j: "push_bit 18 c0 OR push_bit 12 c1 OR push_bit 6 c2 OR c3 = ?t"
    unfolding c0_def c1_def c2_def c3_def by (rule sextets_join [OF lt])
  have small: "c0 < 64" "c1 < 64" "c2 < 64" "c3 < 64" by (simp_all add: c0_def c1_def c2_def c3_def)
  have sum: "?t = ((c0 * 64 + c1) * 64 + c2) * 64 + c3" using or_four [OF small] j by simp
  have t1: "push_bit 18 c0 OR push_bit 12 c1 = (c0 * 64 + c1) * 4096"
    using or_four [of c0 c1 0 0] small by simp
  have t2: "push_bit 18 c0 OR push_bit 12 c1 OR push_bit 6 c2 = ((c0 * 64 + c1) * 64 + c2) * 64"
    using or_four [of c0 c1 c2 0] small by simp
  have d1: "(x * 4096 + r) div 65536 = x div 16" if "r < 4096" for x r :: nat
    using that div_mult2_eq [of "x * 4096 + r" 4096 16] by simp
  have d2: "(x * 64 + r) div 256 = x div 4" if "r < 64" for x r :: nat
    using that div_mult2_eq [of "x * 64 + r" 64 4] by simp
  have "?t = (c0 * 64 + c1) * 4096 + (c2 * 64 + c3)" unfolding sum by simp
  then have "(c0 * 64 + c1) * 4096 div 65536 = ?t div 65536"
    using d1 [of "c2 * 64 + c3" "c0 * 64 + c1"] d1 [of 0 "c0 * 64 + c1"] small by simp
  moreover have "((c0 * 64 + c1) * 64 + c2) * 64 div 256 = ?t div 256"
    using d2 [OF small(4), of "(c0 * 64 + c1) * 64 + c2"] d2 [of 0 "(c0 * 64 + c1) * 64 + c2"] sum by simp
  ultimately have o1: "of_nat (drop_bit 16 (push_bit 18 c0 OR push_bit 12 c1) AND 0xFF) = a"
    and o2: "of_nat (drop_bit 8 (push_bit 18 c0 OR push_bit 12 c1 OR push_bit 6 c2) AND 0xFF) = b"
    using bytes_of_sum [OF ub] unfolding t1 t2 by (simp_all add: t and_255 drop_bit_eq_div)
  have o3: "of_nat ((push_bit 18 c0 OR push_bit 12 c1 OR push_bit 6 c2 OR c3) AND 0xFF) = c"
    using bytes_of_sum [OF ub] unfolding j by (simp add: t and_255)
  have dc: "decode_char (sextet BASE64_CHARS ?t 18) = int c0" "decode_char (sextet BASE64_CHARS ?t 12) = int c1"
    "decode_char (sextet BASE64_CHARS ?t 6) = int c2" "decode_char (sextet BASE64_CHARS ?t 0) = int c3"
    by (simp_all add: decode_char_sextet c0_def c1_def c2_def c3_def)
  have "blob_decode_loop (sextet BASE64_CHARS ?t 18 # sextet BASE64_CHARS ?t 12 # sextet BASE64_CHARS ?t 6 # sextet BASE64_CHARS ?t 0 # rest) =
    map_option (\<lambda>out. [a] @ [b] @ [c] @ out) (blob_decode_loop rest)"
    unfolding blob_decode_loop.simps(1) Let_def dc using o1 o2 o3 by (simp add: or.assoc del: drop_bit_or)
  then show ?thesis unfolding Let_def append.simps by simp
qed

lemma zero_padded_zeros: "zero_padded bs = zero_padded (bs @ replicate ((3 - length bs mod 3) mod 3) 0)"
proof (induction bs rule: zero_padded.induct)
  case (4 a b c r)
  have "length (a # b # c # r) mod 3 = length r mod 3" unfolding list.size by presburger
  then show ?case using 4 by simp
next
  case (2 a)
  show ?case by (simp add: numeral_2_eq_2)
next
  case (3 a b)
  have "(3 - length [a, b] mod 3) mod 3 = Suc 0" by (simp add: numeral_2_eq_2 [symmetric])
  then show ?case by simp
qed simp

lemma blob_decode_whole: "length bs mod 3 = 0 \<Longrightarrow> blob_decode_loop (zero_padded bs) = Some bs"
proof (induction bs rule: zero_padded.induct)
  case (4 a b c r)
  then have "blob_decode_loop (zero_padded r) = Some r" by simp
  then show ?case using blob_decode_group [of a b c "zero_padded r"] by (simp add: Let_def)
qed simp_all

lemma length_zero_padded: "length (zero_padded bs) mod 4 = 0"
  by (induction bs rule: zero_padded.induct) (simp_all add: Let_def)

text \<open>
  The Base64 of a blob does not round-trip. The encoder never writes padding: reading back the
  text it wrote for a blob gives the blob followed by zero bytes up to a multiple of three, so a blob
  comes back unchanged if and only if its length is a multiple of three. The hexadecimal form does
  round-trip for every blob.
\<close>

theorem blob_base64_grows:
  "blob_from_base64 (blob_to_base64 bs) = Some (bs @ replicate ((3 - length bs mod 3) mod 3) 0) \<and>
   (blob_from_base64 (blob_to_base64 bs) = Some bs \<longleftrightarrow> length bs mod 3 = 0) \<and>
   blob_from_hex (blob_to_hex bs) = Some bs"
proof -
  let ?z = "bs @ replicate ((3 - length bs mod 3) mod 3) 0"
  have "length ?z mod 3 = 0" by (simp add: mod_simps) presburger
  then have "blob_from_base64 (blob_to_base64 bs) = Some ?z"
    using blob_decode_whole [of ?z] zero_padded_zeros [of bs] length_zero_padded [of bs]
    by (simp add: blob_from_base64_def blob_to_base64_def blob_encode_zero_padded)
  moreover have "?z = bs \<longleftrightarrow> length bs mod 3 = 0" by (cases "length bs mod 3 = 0") auto
  moreover have "length (concat (map hex_pair bs)) mod 2 = 0" by (induction bs) simp_all
  ultimately show ?thesis
    by (simp add: blob_from_hex_def blob_to_hex_def strip_hex_pairs hex_bytes_pairs)
qed

end
