(* ===== verification/Uuid_Proofs.thy ===== *)
theory Uuid_Proofs
  imports Byte_Types_Proofs
begin

text \<open>
  Every tier of the UUID formatter writes, and every tier of the parser reads, the canonical form.
\<close>

subsection \<open>Lanes\<close>

lemma lane_chr [simp]: "lane (chr b) = b"
proof -
  have "unat b < 256" using unsigned_less [of b] by simp
  then show ?thesis by (simp add: lane_def chr_def u8_def)
qed

lemma chr_lane [simp]: "chr (lane ch) = ch"
  by (simp add: chr_def lane_def char_u8 unat_of_nat)

lemma srli_nibble:
  fixes a b :: byte
  shows "ucast (drop_bit 4 (push_bit 8 (ucast b) OR ucast a :: 16 word)) AND 0x0F = drop_bit 4 a"
    and "ucast (drop_bit 8 (drop_bit 4 (push_bit 8 (ucast b) OR ucast a :: 16 word))) AND 0x0F = drop_bit 4 b"
proof -
  have m: "(0x0F :: byte) = mask 4" by (simp add: mask_eq_exp_minus_1)
  show "ucast (drop_bit 4 (push_bit 8 (ucast b) OR ucast a :: 16 word)) AND 0x0F = drop_bit 4 a"
    unfolding m by (rule bit_word_eqI) (auto simp: bit_simps dest: bit_imp_le_length)
  show "ucast (drop_bit 8 (drop_bit 4 (push_bit 8 (ucast b) OR ucast a :: 16 word))) AND 0x0F = drop_bit 4 b"
    unfolding m by (rule bit_word_eqI) (auto simp: bit_simps dest: bit_imp_le_length)
qed

lemma srli_high: "even (length u) \<Longrightarrow> and_reg (srli_epi16 4 u) (set1 (length u) 0x0F) = map (drop_bit 4) u"
proof (induction "4 :: nat" u rule: srli_epi16.induct)
  case (1 a b r)
  then have "and_reg (srli_epi16 4 r) (set1 (length r) 0x0F) = map (drop_bit 4) r" by simp
  then show ?case using srli_nibble [of b a] by (simp add: and_reg_def set1_def Let_def del: drop_bit_or)
qed (simp_all add: and_reg_def)

lemma and_low: "and_reg u (set1 (length u) 0x0F) = map (\<lambda>b. b AND 0x0F) u"
  by (induction u) (simp_all add: and_reg_def set1_def)

lemma lut_digit:
  assumes "n < 16"
  shows "chr (hex_lut ! unat n) = hex_digit n" "unat n < 16" "\<not> bit n 7" "n AND 0x0F = n"
proof -
  show "unat n < 16" using assms by (simp add: word_less_nat_alt)
  moreover have "length HEX_DIGITS_LOWER = 16" by (simp add: HEX_DIGITS_LOWER_def)
  ultimately show "chr (hex_lut ! unat n) = hex_digit n" by (simp add: hex_lut_def hex_digit_def)
  have "\<forall>n :: byte. n < 16 \<longrightarrow> \<not> bit n 7 \<and> n AND 0x0F = n" unfolding byte_all by code_simp
  then show "\<not> bit n 7" "n AND 0x0F = n" using assms by blast+
qed

lemma uuid_cases:
  assumes "length u = 16"
  obtains b0 b1 b2 b3 b4 b5 b6 b7 b8 b9 b10 b11 b12 b13 b14 b15
  where "u = [b0, b1, b2, b3, b4, b5, b6, b7, b8, b9, b10, b11, b12, b13, b14, b15]"
  using assms by (auto simp: eval_nat_numeral length_Suc_conv)

lemma shuffle_digits: "list_all (\<lambda>n. n < 16) ns \<Longrightarrow> map chr (shuffle_epi8 hex_lut ns) = map hex_digit ns"
  by (induction ns) (simp_all add: shuffle_epi8_def lut_digit)

lemma tbl_digits: "list_all (\<lambda>n. n < 16) ns \<Longrightarrow> map chr (vqtbl1q_u8 hex_lut ns) = map hex_digit ns"
  by (induction ns) (simp_all add: vqtbl1q_u8_def lut_digit)

lemma hyphenate_digits:
  assumes "map chr a = map hex_digit p" "map chr b = map hex_digit q"
  shows "hyphenate a b =
     map hex_digit (take 8 p) @ ''-'' @ map hex_digit (take 4 (drop 8 p)) @ ''-'' @ map hex_digit (take 4 (drop 12 p)) @
     ''-'' @ map hex_digit (take 4 q) @ ''-'' @ map hex_digit (take 8 (drop 4 q)) @ map hex_digit (take 4 (drop 12 q))"
  unfolding hyphenate_def take_map [symmetric] drop_map [symmetric] assms ..

lemma nibble_list: "length u = 16 \<Longrightarrow> list_all (\<lambda>n. n < 16) (interleave (take 8 (map (drop_bit 4) u)) (take 8 (map (\<lambda>b. b AND 0x0F) u)))"
    "length u = 16 \<Longrightarrow> list_all (\<lambda>n. n < 16) (interleave (drop 8 (map (drop_bit 4) u)) (drop 8 (map (\<lambda>b. b AND 0x0F) u)))"
  by (erule uuid_cases, simp add: nibbles)+

lemma hyphenate_portable:
  assumes "length u = 16"
    and "map chr a = map hex_digit (interleave (take 8 (map (drop_bit 4) u)) (take 8 (map (\<lambda>b. b AND 0x0F) u)))"
    and "map chr b = map hex_digit (interleave (drop 8 (map (drop_bit 4) u)) (drop 8 (map (\<lambda>b. b AND 0x0F) u)))"
  shows "hyphenate a b = to_chars_portable u"
  unfolding hyphenate_digits [OF assms(2,3)]
  by (rule uuid_cases [OF assms(1)]) (simp add: to_chars_portable_def hex_pair_def upt_rec)

lemma to_chars_ssse3_eq: "length u = 16 \<Longrightarrow> to_chars_ssse3 u = to_chars_portable u"
  using srli_high [of u] and_low [of u]
  by (auto simp: to_chars_ssse3_def Let_def intro!: hyphenate_portable shuffle_digits nibble_list)

lemma to_chars_aarch64_eq: "length u = 16 \<Longrightarrow> to_chars_aarch64 u = to_chars_portable u"
  using and_low [of u]
  by (auto simp: to_chars_aarch64_def Let_def intro!: hyphenate_portable tbl_digits nibble_list)

lemma to_chars_vbmi_eq:
  assumes "length u = 16" "length junk = 32"
  shows "to_chars_vbmi junk u = to_chars_portable u"
proof -
  let ?lo = "shuffle_epi8 hex_lut (interleave (take 8 (map (drop_bit 4) u)) (take 8 (map (\<lambda>b. b AND 0x0F) u)))"
  let ?hi = "shuffle_epi8 hex_lut (interleave (drop 8 (map (drop_bit 4) u)) (drop 8 (map (\<lambda>b. b AND 0x0F) u)))"
  define D where "D = map hex_digit (interleave (take 8 (map (drop_bit 4) u)) (take 8 (map (\<lambda>b. b AND 0x0F) u)) @
    interleave (drop 8 (map (drop_bit 4) u)) (drop 8 (map (\<lambda>b. b AND 0x0F) u)))"
  have D: "map chr (?lo @ ?hi) = D"
    unfolding map_append D_def using shuffle_digits [OF nibble_list(1) [OF assms(1)]] shuffle_digits [OF nibble_list(2) [OF assms(1)]] by simp
  have "length D = 32" unfolding D_def by (rule uuid_cases [OF assms(1)]) simp
  then have len: "length (?lo @ ?hi) = 32" using arg_cong [OF D, of length] by simp
  have at: "chr ((?lo @ ?hi @ junk)[32 := lane CHR ''-''] ! i) = (if i = 32 then CHR ''-'' else D ! i)" if "i < 33" for i
  proof (cases "i = 32")
    case True
    have "32 < length (?lo @ ?hi @ junk)" using len assms(2) by simp
    then show ?thesis using True by (simp only: nth_list_update_eq) simp
  next
    case False
    then have "i < 32" using that by simp
    then have l: "i < length (?lo @ ?hi)" using len by simp
    have "(?lo @ ?hi @ junk)[32 := lane CHR ''-''] ! i = ((?lo @ ?hi) @ junk) ! i"
      unfolding append_assoc using False by (intro nth_list_update_neq) simp
    also have "\<dots> = (?lo @ ?hi) ! i" using l by (simp only: nth_append_left)
    finally have "chr ((?lo @ ?hi @ junk)[32 := lane CHR ''-''] ! i) = map chr (?lo @ ?hi) ! i" using nth_map [OF l, of chr] by (simp only:)
    then show ?thesis unfolding D using False by (simp only: if_False)
  qed
  define V where "V = (?lo @ ?hi @ junk)[32 := lane CHR ''-'']"
  have "and_reg (srli_epi16 4 u) (set1 16 15) = map (drop_bit 4) u" "and_reg u (set1 16 15) = map (\<lambda>b. b AND 15) u"
    using srli_high [of u] and_low [of u] assms(1) by simp_all
  then have v: "to_chars_vbmi junk u = map chr (take 36 (permutexvar_epi8 VBMI_FORMAT_PERMUTE V))"
    unfolding to_chars_vbmi_def Let_def V_def by (simp only:)
  have "to_chars_vbmi junk u = map (\<lambda>i. if i = 32 then CHR ''-'' else D ! i)
    [0, 1, 2, 3, 4, 5, 6, 7, 32, 8, 9, 10, 11, 32, 12, 13, 14, 15, 32, 16, 17, 18, 19, 32, 20, 21, 22, 23, 24, 25, 26, 27, 28, 29, 30, 31]"
    using at by (simp add: v permutexvar_epi8_def VBMI_FORMAT_PERMUTE_def flip: V_def)
  also have "\<dots> = to_chars_portable u"
    unfolding D_def by (rule uuid_cases [OF assms(1)]) (simp add: to_chars_portable_def hex_pair_def upt_rec)
  finally show ?thesis .
qed

subsection \<open>Parsing\<close>

definition pair_positions :: "nat list" where
  "pair_positions = [0, 2, 4, 6, 9, 11, 14, 16, 19, 21, 24, 26, 28, 30, 32, 34]"

definition canonical :: "string \<Rightarrow> uuid option" where
  "canonical s =
     (if s ! 8 \<noteq> CHR ''-'' \<or> s ! 13 \<noteq> CHR ''-'' \<or> s ! 18 \<noteq> CHR ''-'' \<or> s ! 23 \<noteq> CHR ''-'' then None
      else those (map (\<lambda>i. hex_byte (s ! i) (s ! (i + 1))) pair_positions))"

definition pair_bits :: "string \<Rightarrow> nat \<Rightarrow> byte" where
  "pair_bits s i = HEX_DECODE_TABLE (s ! i) OR HEX_DECODE_TABLE (s ! (i + 1))"

definition pair_value :: "string \<Rightarrow> nat \<Rightarrow> byte" where
  "pair_value s i = push_bit 4 (HEX_DECODE_TABLE (s ! i)) OR HEX_DECODE_TABLE (s ! (i + 1))"

function positions :: "nat \<Rightarrow> nat \<Rightarrow> nat list" where
  "positions b i = (if 16 \<le> b then []
     else let j = (if i = 8 \<or> i = 13 \<or> i = 18 \<or> i = 23 then i + 1 else i) in j # positions (b + 1) (j + 2))"
  by pat_completeness auto
termination
  by (relation "measure (\<lambda>(b, i). 16 - b)") auto

declare positions.simps [simp del]

lemma positions_pairs: "positions 0 0 = pair_positions"
  by code_simp

lemma loop_positions: "from_chars_loop s b i e = (fold (\<lambda>i e. e OR pair_bits s i) (positions b i) e, map (pair_value s) (positions b i))"
proof (induction "16 - b" arbitrary: b i e)
  case 0
  then show ?case by (simp add: from_chars_loop.simps [of s b] positions.simps [of b])
next
  case (Suc n)
  then have b: "\<not> 16 \<le> b" and n: "n = 16 - (b + 1)" by simp_all
  show ?case
    using Suc(1) [OF n] b
    by (simp add: from_chars_loop.simps [of s b i e] positions.simps [of b i] pair_bits_def pair_value_def Let_def)
qed

lemmas loop_eq = loop_positions [of _ 0 0 0, unfolded positions_pairs]

lemma fold_or_bits: "fold (\<lambda>i e. e OR pair_bits s i) is a AND 0xF0 = 0 \<longleftrightarrow> a AND 0xF0 = 0 \<and> (\<forall>i \<in> set is. pair_bits s i AND 0xF0 = 0)"
  by (induction "is" arbitrary: a) (auto simp: bit.conj_disj_distrib2 or_eq_0_iff)

lemma those_pairs: "those (map (\<lambda>i. hex_byte (s ! i) (s ! (i + 1))) is) =
    (if \<forall>i \<in> set is. pair_bits s i AND 0xF0 = 0 then Some (map (pair_value s) is) else None)"
  by (induction "is") (auto simp: hex_byte_def pair_bits_def pair_value_def Let_def)

lemma portable_canonical: "t \<noteq> VBMI \<Longrightarrow> uuid_from_chars t s = canonical s"
  unfolding canonical_def those_pairs by (simp add: uuid_from_chars_def loop_eq fold_or_bits)

text \<open>The tests and values of one lane of the vector parser.\<close>

definition lane_between :: "byte \<Rightarrow> byte \<Rightarrow> byte \<Rightarrow> byte" where
  "lane_between x lo hi = (if sint x > sint (lo - 1) then - 1 else 0) AND (if sint (hi + 1) > sint x then - 1 else 0)"

definition lane_fold :: "byte \<Rightarrow> byte" where
  "lane_fold x = x OR (lane_between x 65 90 AND 32)"

definition lane_valid :: "byte \<Rightarrow> byte" where
  "lane_valid x = lane_between x 48 57 OR lane_between (lane_fold x) 97 102"

definition lane_nibble :: "byte \<Rightarrow> byte" where
  "lane_nibble x = (if bit (lane_between x 48 57) 7 then lane_fold x - 48 else lane_fold x - 97 + 10)"

definition lane_hex :: "byte \<Rightarrow> byte" where
  "lane_hex x = (if 48 \<le> x \<and> x \<le> 57 then x - 48 else if 97 \<le> x \<and> x \<le> 102 then x - 87
     else if 65 \<le> x \<and> x \<le> 70 then x - 55 else 255)"

lemma lane_le_numeral:
  assumes "n < 256"
  shows "of_nat n \<le> lane ch \<longleftrightarrow> n \<le> u8 ch" "lane ch \<le> of_nat n \<longleftrightarrow> u8 ch \<le> n"
  using assms by (simp_all add: word_le_nat_alt unat_of_nat)

lemma lane_hex_table: "HEX_DECODE_TABLE ch = lane_hex (lane ch)"
proof -
  have o: "(of_nat (u8 ch - n) :: byte) = lane ch - of_nat n" if "n \<le> u8 ch" for n
    using that by (simp add: lane_def of_nat_diff)
  have "(of_nat (10 + (u8 ch - n)) :: byte) = lane ch - of_nat (n - 10)" if "n \<le> u8 ch" "10 \<le> n" for n
    using that by (simp add: lane_def of_nat_diff)
  note o2 = this
  show ?thesis
    using lane_le_numeral [of 48 ch] lane_le_numeral [of 57 ch] lane_le_numeral [of 97 ch] lane_le_numeral [of 102 ch]
      lane_le_numeral [of 65 ch] lane_le_numeral [of 70 ch] o [of 48] o2 [of 97] o2 [of 65]
    by (simp add: HEX_DECODE_TABLE_def lane_hex_def) (auto simp: u8_def)
qed

lemma lane_between_eq:
  "lane_between x 48 57 = (if 48 \<le> x \<and> x \<le> 57 then - 1 else 0)"
  "lane_between x 65 90 = (if 65 \<le> x \<and> x \<le> 90 then - 1 else 0)"
  "lane_between x 97 102 = (if 97 \<le> x \<and> x \<le> 102 then - 1 else 0)"
proof -
  have "\<forall>x :: byte. (sint x > 47 \<and> 58 > sint x \<longleftrightarrow> 48 \<le> x \<and> x \<le> 57) \<and> (sint x > 64 \<and> 91 > sint x \<longleftrightarrow> 65 \<le> x \<and> x \<le> 90) \<and>
    (sint x > 96 \<and> 103 > sint x \<longleftrightarrow> 97 \<le> x \<and> x \<le> 102)"
    unfolding byte_all by code_simp
  then have t: "sint x > 47 \<and> 58 > sint x \<longleftrightarrow> 48 \<le> x \<and> x \<le> 57" "sint x > 64 \<and> 91 > sint x \<longleftrightarrow> 65 \<le> x \<and> x \<le> 90"
    "sint x > 96 \<and> 103 > sint x \<longleftrightarrow> 97 \<le> x \<and> x \<le> 102" by blast+
  show "lane_between x 48 57 = (if 48 \<le> x \<and> x \<le> 57 then - 1 else 0)"
    "lane_between x 65 90 = (if 65 \<le> x \<and> x \<le> 90 then - 1 else 0)"
    "lane_between x 97 102 = (if 97 \<le> x \<and> x \<le> 102 then - 1 else 0)"
    using t by (auto simp: lane_between_def)
qed

lemma lane_valid_hex:
  "bit (lane_valid x) 7 \<longleftrightarrow> lane_hex x AND 0xF0 = 0"
  "lane_hex x AND 0xF0 = 0 \<Longrightarrow> lane_nibble x = lane_hex x \<and> lane_hex x < 16"
proof -
  have "\<forall>x :: byte. let y = (if 65 \<le> x \<and> x \<le> 90 then x OR 32 else x) in
      ((48 \<le> x \<and> x \<le> 57 \<or> 97 \<le> y \<and> y \<le> 102) \<longleftrightarrow> lane_hex x AND 0xF0 = 0) \<and>
      (lane_hex x AND 0xF0 = 0 \<longrightarrow> (if 48 \<le> x \<and> x \<le> 57 then y - 48 else y - 97 + 10) = lane_hex x \<and> lane_hex x < 16)"
    unfolding byte_all by code_simp
  then have a: "let y = (if 65 \<le> x \<and> x \<le> 90 then x OR 32 else x) in
      ((48 \<le> x \<and> x \<le> 57 \<or> 97 \<le> y \<and> y \<le> 102) \<longleftrightarrow> lane_hex x AND 0xF0 = 0) \<and>
      (lane_hex x AND 0xF0 = 0 \<longrightarrow> (if 48 \<le> x \<and> x \<le> 57 then y - 48 else y - 97 + 10) = lane_hex x \<and> lane_hex x < 16)"
    by blast
  have f: "lane_fold x = (if 65 \<le> x \<and> x \<le> 90 then x OR 32 else x)" by (simp add: lane_fold_def lane_between_eq)
  show "bit (lane_valid x) 7 \<longleftrightarrow> lane_hex x AND 0xF0 = 0"
    "lane_hex x AND 0xF0 = 0 \<Longrightarrow> lane_nibble x = lane_hex x \<and> lane_hex x < 16"
    using a by (auto simp: lane_valid_def lane_nibble_def lane_between_eq f Let_def)
qed

lemma set1_map: "length v = n \<Longrightarrow> set1 n k = map (\<lambda>x. of_nat k) v"
  by (simp add: set1_def map_replicate_const)

lemma map2_maps: "map2 f (map g v) (map h v) = map (\<lambda>x. f (g x) (h x)) v"
  by (induction v) simp_all

lemma is_between_map:
  assumes "length xs = 32" "v = map g xs"
  shows "is_between v lo hi = map (\<lambda>x. lane_between (g x) (of_nat (u8 lo)) (of_nat (u8 hi))) xs"
  unfolding is_between_def set1_map [OF assms(1)] assms(2)
  by (simp add: and_reg_def cmpgt_epi8_def sub_epi8_def add_epi8_def map2_maps lane_between_def)

lemma pack_pair:
  assumes "a < 16" "b < 16"
  shows "word_of_int (max 0 (min 255 (max (- 32768) (min 32767 (uint a * 0x10 + uint b * 0x01))))) = (push_bit 4 a OR b :: byte)"
proof -
  have u: "uint a < 16" "uint b < 16" "0 \<le> uint a" "0 \<le> uint b" using assms by (simp_all add: word_less_def)
  then have "0 \<le> uint a * 16 + uint b" "uint a * 16 + uint b \<le> 255" by linarith+
  then have "max 0 (min 255 (max (- 32768) (min 32767 (uint a * 0x10 + uint b * 0x01)))) = uint a * 16 + uint b"
    by linarith
  moreover have "(word_of_int (uint a * 16 + uint b) :: byte) = a * 16 + b" by simp
  moreover have "a * 16 = push_bit 4 a" by (simp add: push_bit_eq_mult mult.commute)
  moreover have "\<forall>b :: byte. b < 16 \<longrightarrow> take_bit 4 b = b" unfolding byte_all by code_simp
  then have "take_bit 4 b = b" using assms(2) by blast
  then have "\<not> bit (push_bit 4 a) n \<or> \<not> bit b n" for n by (metis bit_push_bit_iff bit_take_bit_iff not_le)
  then have "push_bit 4 a + b = push_bit 4 a OR b" by (rule disjunctive_add)
  ultimately show ?thesis by simp
qed

lemma vbmi_canonical:
  assumes "length s = 36"
  shows "from_chars_vbmi s = those (map (\<lambda>i. hex_byte (s ! i) (s ! (i + 1))) pair_positions)"
proof -
  define xs where "xs = map (\<lambda>i. lane (s ! i)) (take 32 VBMI_PARSE_PERMUTE)"
  have len: "length xs = 32" by (simp add: xs_def VBMI_PARSE_PERMUTE_def)
  have hc: "take 32 (permutexvar_epi8 VBMI_PARSE_PERMUTE (maskz_loadu 64 (tail_mask 36) s 0)) = map (\<lambda>x. x) xs"
  proof -
    have "\<forall>i \<in> set (take 32 VBMI_PARSE_PERMUTE). i < 36" by (simp add: VBMI_PARSE_PERMUTE_def)
    then show ?thesis by (auto simp: xs_def permutexvar_epi8_def take_map bit_tail_mask)
  qed
  have digit: "is_between (map (\<lambda>x. x) xs) CHR ''0'' CHR ''9'' = map (\<lambda>x. lane_between x 48 57) xs"
    using is_between_map [OF len refl, of "\<lambda>x. x" "CHR ''0''" "CHR ''9''"] by (simp add: u8_def)
  have upper: "is_between (map (\<lambda>x. x) xs) CHR ''A'' CHR ''Z'' = map (\<lambda>x. lane_between x 65 90) xs"
    using is_between_map [OF len refl, of "\<lambda>x. x" "CHR ''A''" "CHR ''Z''"] by (simp add: u8_def)
  have low: "or_reg (map (\<lambda>x. x) xs) (and_reg (map (\<lambda>x. lane_between x 65 90) xs) (set1 32 0x20)) = map lane_fold xs"
    unfolding set1_map [OF len] and_reg_def or_reg_def map2_maps by (simp add: lane_fold_def)
  have alpha: "is_between (map lane_fold xs) CHR ''a'' CHR ''f'' = map (\<lambda>x. lane_between (lane_fold x) 97 102) xs"
    using is_between_map [OF len refl, of lane_fold "CHR ''a''" "CHR ''f''"] by (simp add: u8_def)
  have valid: "or_reg (map (\<lambda>x. lane_between x 48 57) xs) (map (\<lambda>x. lane_between (lane_fold x) 97 102) xs) = map lane_valid xs"
    unfolding or_reg_def map2_maps by (simp add: lane_valid_def)
  have dv: "sub_epi8 (map lane_fold xs) (set1 32 (u8 CHR ''0'')) = map (\<lambda>x. lane_fold x - 48) xs"
    unfolding set1_map [OF len] sub_epi8_def map2_maps by (simp add: u8_def)
  have av: "add_epi8 (sub_epi8 (map lane_fold xs) (set1 32 (u8 CHR ''a''))) (set1 32 10) = map (\<lambda>x. lane_fold x - 97 + 10) xs"
    unfolding set1_map [OF len] sub_epi8_def add_epi8_def map2_maps by (simp add: u8_def)
  have nib: "blendv_epi8 (map (\<lambda>x. lane_fold x - 97 + 10) xs) (map (\<lambda>x. lane_fold x - 48) xs) (map (\<lambda>x. lane_between x 48 57) xs) = map lane_nibble xs"
    unfolding blendv_epi8_def lane_nibble_def by (induction xs) simp_all
  have "(0xFFFFFFFF :: u64) = mask 32" by (simp add: mask_eq_exp_minus_1)
  then have mm: "movemask_epi8 (map lane_valid xs) = 0xFFFFFFFF \<longleftrightarrow> (\<forall>x \<in> set xs. lane_hex x AND 0xF0 = 0)"
    using movemask_ones(1) [of "map lane_valid xs" 32] len by (simp add: lane_valid_hex all_set_conv_all_nth)
  have v: "from_chars_vbmi s = (if \<forall>x \<in> set xs. lane_hex x AND 0xF0 = 0 then Some (packus_epi16 (maddubs_epi16 (map lane_nibble xs))) else None)"
    unfolding from_chars_vbmi_def Let_def hc digit upper low alpha valid dv av nib using mm by auto
  have all: "(\<forall>x \<in> set xs. lane_hex x AND 0xF0 = 0) \<longleftrightarrow> (\<forall>i \<in> set pair_positions. pair_bits s i AND 0xF0 = 0)"
    by (auto simp: xs_def VBMI_PARSE_PERMUTE_def pair_positions_def pair_bits_def lane_hex_table bit.conj_disj_distrib2 or_eq_0_iff)
  have "packus_epi16 (maddubs_epi16 (map lane_nibble xs)) = map (pair_value s) pair_positions" if "\<forall>x \<in> set xs. lane_hex x AND 0xF0 = 0"
  proof -
    have "map lane_nibble xs = map lane_hex xs" "\<forall>x \<in> set xs. lane_hex x < 16" using that lane_valid_hex(2) by auto
    then show ?thesis
      by (simp add: xs_def VBMI_PARSE_PERMUTE_def packus_epi16_def pair_positions_def pair_value_def lane_hex_table pack_pair [unfolded mult_1_right] Let_def)
  qed
  then show ?thesis unfolding v all those_pairs by simp
qed

subsection \<open>The accepted texts\<close>

definition is_hex_digit :: "char \<Rightarrow> bool" where
  "is_hex_digit c \<longleftrightarrow> c \<in> set ''0123456789abcdefABCDEF''"

definition lower_hex :: "char \<Rightarrow> char" where
  "lower_hex c = (if c \<in> set ''ABCDEF'' then char_of (u8 c + 32) else c)"

definition hyphen_positions :: "nat list" where
  "hyphen_positions = [8, 13, 18, 23]"

definition uuid_text :: "string \<Rightarrow> bool" where
  "uuid_text s \<longleftrightarrow> length s = 36 \<and>
     (\<forall>i<36. if i \<in> set hyphen_positions then s ! i = CHR ''-'' else is_hex_digit (s ! i))"

lemma hex_digit_known:
  assumes "is_hex_digit c"
  shows "HEX_DECODE_TABLE c < 16 \<and> hex_digit (HEX_DECODE_TABLE c) = lower_hex c"
  using assms unfolding is_hex_digit_def list.set insert_iff empty_iff
  by (elim disjE; simp add: HEX_DECODE_TABLE_def hex_digit_def HEX_DIGITS_LOWER_def lower_hex_def u8_def char_of_def bit_Suc_0_iff)

lemma u8_char: "u8 c = n \<Longrightarrow> c = char_of n"
  by (auto simp: u8_def)

lemma hex_digit_table: "HEX_DECODE_TABLE c AND 0xF0 = 0 \<longleftrightarrow> is_hex_digit c"
proof
  assume "HEX_DECODE_TABLE c AND 0xF0 = 0"
  then have "48 \<le> u8 c \<and> u8 c \<le> 57 \<or> 97 \<le> u8 c \<and> u8 c \<le> 102 \<or> 65 \<le> u8 c \<and> u8 c \<le> 70"
    by (auto simp: HEX_DECODE_TABLE_def u8_def split: if_splits)
  then have "u8 c \<in> set ([48..<58] @ [97..<103] @ [65..<71])"
    unfolding set_append set_upt Un_iff atLeastLessThan_iff by linarith
  moreover have "list_all (\<lambda>n. is_hex_digit (char_of n)) ([48..<58] @ [97..<103] @ [65..<71])" by code_simp
  ultimately show "is_hex_digit c" using u8_char [OF refl, of c] unfolding list_all_iff by metis
next
  assume "is_hex_digit c"
  then have "HEX_DECODE_TABLE c < 16" using hex_digit_known by blast
  moreover have "\<forall>b :: byte. b < 16 \<longrightarrow> b AND 0xF0 = 0" unfolding byte_all by code_simp
  ultimately show "HEX_DECODE_TABLE c AND 0xF0 = 0" by blast
qed

lemma nibbles_joined:
  fixes h l :: byte
  assumes "h < 16" "l < 16"
  shows "drop_bit 4 (push_bit 4 h OR l) = h" "(push_bit 4 h OR l) AND 0x0F = l"
proof -
  have "\<forall>a :: byte. a < 16 \<longrightarrow> drop_bit 4 a = 0 \<and> a AND 0x0F = a \<and> drop_bit 4 (push_bit 4 a) = a \<and> push_bit 4 a AND 0x0F = 0"
    unfolding byte_all by code_simp
  then show "drop_bit 4 (push_bit 4 h OR l) = h" "(push_bit 4 h OR l) AND 0x0F = l"
    using assms by (simp_all add: drop_bit_or bit.conj_disj_distrib2)
qed

lemma hex_byte_pair:
  "hex_byte c d = Some b \<longleftrightarrow> is_hex_digit c \<and> is_hex_digit d \<and> hex_pair b = [lower_hex c, lower_hex d]"
proof
  assume "hex_byte c d = Some b"
  then have cd: "is_hex_digit c" "is_hex_digit d" and b: "b = push_bit 4 (HEX_DECODE_TABLE c) OR HEX_DECODE_TABLE d"
    by (auto simp: hex_byte_def Let_def bit.conj_disj_distrib2 or_eq_0_iff hex_digit_table split: if_splits)
  then show "is_hex_digit c \<and> is_hex_digit d \<and> hex_pair b = [lower_hex c, lower_hex d]"
    using hex_digit_known [OF cd(1)] hex_digit_known [OF cd(2)] by (simp add: hex_pair_def nibbles_joined del: drop_bit_or)
next
  assume a: "is_hex_digit c \<and> is_hex_digit d \<and> hex_pair b = [lower_hex c, lower_hex d]"
  then have k: "HEX_DECODE_TABLE c < 16" "hex_digit (HEX_DECODE_TABLE c) = lower_hex c"
    "HEX_DECODE_TABLE d < 16" "hex_digit (HEX_DECODE_TABLE d) = lower_hex d" using hex_digit_known by blast+
  then have "HEX_DECODE_TABLE c = drop_bit 4 b" "HEX_DECODE_TABLE d = b AND 0x0F"
    using a hex_digit_decode nibbles(1,2) [of b] by (metis hex_pair_def list.inject)+
  then show "hex_byte c d = Some b" by (simp add: hex_byte_def Let_def nibbles)
qed

lemma text_cases:
  assumes "length s = 36"
  obtains a0 a1 a2 a3 a4 a5 a6 a7 a8 a9 b0 b1 b2 b3 b4 b5 b6 b7 b8 b9 c0 c1 c2 c3 c4 c5 c6 c7 c8 c9 d0 d1 d2 d3 d4 d5
  where "s = [a0, a1, a2, a3, a4, a5, a6, a7, a8, a9, b0, b1, b2, b3, b4, b5, b6, b7, b8, b9,
    c0, c1, c2, c3, c4, c5, c6, c7, c8, c9, d0, d1, d2, d3, d4, d5]"
  using assms by (auto simp: eval_nat_numeral length_Suc_conv)

lemma those_map_Some: "those (map f is) = Some v \<longleftrightarrow> list_all2 (\<lambda>i b. f i = Some b) is v"
proof (induction "is" arbitrary: v)
  case (Cons i "is")
  show ?case by (cases v; cases "f i") (use Cons.IH in auto)
qed auto

definition text_checks :: "string \<Rightarrow> nat list \<Rightarrow> bool" where
  "text_checks s = list_all (\<lambda>i. if i \<in> {8, 13, 18, 23} then s ! i = CHR ''-'' else is_hex_digit (s ! i))"

lemma uuid_text_checks: "length s = 36 \<Longrightarrow> uuid_text s \<longleftrightarrow> text_checks s [0..<36]"
  by (simp only: uuid_text_def text_checks_def hyphen_positions_def list_all_iff set_upt atLeast0LessThan lessThan_iff Ball_def list.set simp_thms)

lemma upt_36: "[0..<36] = [0, 1, 2, 3, 4, 5, 6, 7, 8, 9, 10, 11, 12, 13, 14, 15, 16, 17, 18, 19, 20, 21, 22, 23, 24, 25, 26, 27, 28, 29,
    30, 31, 32, 33, 34, 35]"
  by code_simp

lemmas checks_36 = text_checks_def upt_36 list.pred_inject insert_iff empty_iff

lemma canonical_accepts:
  assumes "length s = 36"
  shows "canonical s \<noteq> None \<longleftrightarrow> uuid_text s"
proof -
  have "canonical s \<noteq> None \<longleftrightarrow> s ! 8 = CHR ''-'' \<and> s ! 13 = CHR ''-'' \<and> s ! 18 = CHR ''-'' \<and> s ! 23 = CHR ''-'' \<and>
      (\<forall>i \<in> set pair_positions. is_hex_digit (s ! i) \<and> is_hex_digit (s ! (i + 1)))"
    unfolding canonical_def those_pairs pair_bits_def bit.conj_disj_distrib2 or_eq_0_iff hex_digit_table by auto
  then show ?thesis
    unfolding uuid_text_checks [OF assms] checks_36 pair_positions_def by simp blast
qed

lemma canonical_text: "length s = 36 \<Longrightarrow> canonical s = Some v \<longleftrightarrow> uuid_text s \<and> length v = 16 \<and> to_chars_portable v = map lower_hex s"
proof (cases "length v = 16")
  case False
  then have "\<not> list_all2 P pair_positions v" for P by (auto simp: pair_positions_def dest: list_all2_lengthD)
  then show ?thesis using False by (simp add: canonical_def those_map_Some)
next
  case True
  assume 36: "length s = 36"
  then obtain a0 a1 a2 a3 a4 a5 a6 a7 a8 a9 b0 b1 b2 b3 b4 b5 b6 b7 b8 b9 c0 c1 c2 c3 c4 c5 c6 c7 c8 c9 d0 d1 d2 d3 d4 d5
    where s: "s = [a0, a1, a2, a3, a4, a5, a6, a7, a8, a9, b0, b1, b2, b3, b4, b5, b6, b7, b8, b9,
      c0, c1, c2, c3, c4, c5, c6, c7, c8, c9, d0, d1, d2, d3, d4, d5]" by (rule text_cases)
  have can: "canonical s = Some v \<longleftrightarrow> s ! 8 = CHR ''-'' \<and> s ! 13 = CHR ''-'' \<and> s ! 18 = CHR ''-'' \<and> s ! 23 = CHR ''-'' \<and>
      those (map (\<lambda>i. hex_byte (s ! i) (s ! (i + 1))) pair_positions) = Some v"
    unfolding canonical_def by (auto simp del: One_nat_def add_Suc_right)
  have hb: "those (map (\<lambda>i. hex_byte (s ! i) (s ! (i + 1))) pair_positions) = Some v \<longleftrightarrow>
      list_all2 (\<lambda>i b. is_hex_digit (s ! i) \<and> is_hex_digit (s ! (i + 1)) \<and> hex_pair b = [lower_hex (s ! i), lower_hex (s ! (i + 1))])
        pair_positions v" unfolding those_map_Some hex_byte_pair ..
  have l: "lower_hex CHR ''-'' = CHR ''-''" by (simp add: lower_hex_def)
  from True show ?thesis
    unfolding can hb uuid_text_checks [OF 36] unfolding s checks_36
    by (rule uuid_cases) (simp add: pair_positions_def upt_rec to_chars_portable_def hex_pair_def, use l in auto)
qed

text \<open>
  C34: UUID text is canonical in every tier of the instruction set. Every formatter writes the same
  thirty-six characters, whatever the unused half of the widened register holds. Every parser accepts
  exactly the texts of thirty-six characters with hyphens at the places 8, 13, 18 and 23 and hexadecimal digits, of
  either case, everywhere else, with the same result; formatting that result gives the text back with its letters in lower case;
  and parsing what was formatted gives the UUID back.
\<close>

theorem uuid_text_canonical:
  assumes "length u = 16" "length junk = 32"
  shows "uuid_to_string t junk u = uuid_to_string Portable junk u \<and>
    uuid_from_string t s = uuid_from_string Portable s \<and>
    (uuid_from_string t s \<noteq> None \<longleftrightarrow> uuid_text s) \<and>
    (\<forall>v. uuid_from_string t s = Some v \<longrightarrow> length v = 16 \<and> uuid_to_string t' junk v = map lower_hex s) \<and>
    uuid_from_string t (uuid_to_string t' junk u) = Some u"
proof -
  have f: "uuid_to_string t junk u = to_chars_portable u" if "length u = 16" for t u
    using assms(2) that by (cases t) (simp_all add: uuid_to_string_def to_chars_vbmi_eq to_chars_ssse3_eq to_chars_aarch64_eq)
  have p: "uuid_from_string t s = (if length s \<noteq> 36 then None else canonical s)" for t s
    using vbmi_canonical [of s] portable_canonical [of t s]
    by (cases "t = VBMI") (auto simp: uuid_from_string_def uuid_from_chars_def canonical_def)
  have "length (to_chars_portable u) = 36 \<and> canonical (to_chars_portable u) = Some u"
    by (rule uuid_cases [OF assms(1)]) (simp add: to_chars_portable_def hex_pair_def upt_rec canonical_def pair_positions_def hex_byte_digits)
  moreover have "uuid_from_string t s \<noteq> None \<longleftrightarrow> uuid_text s"
    using canonical_accepts [of s] by (cases "length s = 36") (simp_all add: p, simp add: uuid_text_def)
  moreover have "length v = 16 \<and> uuid_to_string t' junk v = map lower_hex s" if "uuid_from_string t s = Some v" for v
    using canonical_text [of s v] f that by (auto simp: p split: if_splits)
  ultimately show ?thesis using f [OF assms(1)] by (simp add: p)
qed

theorem uuid_text_canonical_witness:
  "uuid_from_string VBMI (uuid_to_string SSSE3 (replicate 32 7) nil_uuid) = Some nil_uuid \<and>
   (\<exists>v. uuid_from_string VBMI ''0123ABCD-4567-89ab-CDEF-0123456789ab'' = Some v \<and>
      uuid_to_string SSSE3 (replicate 32 7) v = ''0123abcd-4567-89ab-cdef-0123456789ab'') \<and>
   uuid_from_string VBMI ''0123ABCD+4567-89ab-CDEF-0123456789ab'' = None"
proof -
  have l: "length nil_uuid = 16" "length (replicate 32 (7 :: byte)) = 32" by (simp_all add: nil_uuid_def)
  note C = uuid_text_canonical [OF l, of VBMI _ SSSE3]
  have "list_all (\<lambda>i. if i \<in> set hyphen_positions then ''0123ABCD-4567-89ab-CDEF-0123456789ab'' ! i = CHR ''-''
      else is_hex_digit (''0123ABCD-4567-89ab-CDEF-0123456789ab'' ! i)) [0..<36]" by code_simp
  then have t: "uuid_text ''0123ABCD-4567-89ab-CDEF-0123456789ab''" by (simp add: uuid_text_def list_all_iff)
  have "8 \<in> set hyphen_positions" by (simp add: hyphen_positions_def)
  then have "\<not> uuid_text ''0123ABCD+4567-89ab-CDEF-0123456789ab''"
    unfolding uuid_text_def by (intro notI) (drule conjunct2, drule spec [of _ 8], simp)
  moreover have "map lower_hex ''0123ABCD-4567-89ab-CDEF-0123456789ab'' = ''0123abcd-4567-89ab-cdef-0123456789ab''" by code_simp
  moreover obtain v where "uuid_from_string VBMI ''0123ABCD-4567-89ab-CDEF-0123456789ab'' = Some v" using C t by blast
  ultimately show ?thesis using C [of "''0123ABCD-4567-89ab-CDEF-0123456789ab''"] C [of "''0123ABCD+4567-89ab-CDEF-0123456789ab''"] by metis
qed

end
