(* ===== verification/Uuid_Generator_Proofs.thy ===== *)
theory Uuid_Generator_Proofs
  imports Uuid_Generator Uuid_Proofs
begin

text \<open>
  What the generator promises: every version 4 UUID carries its version and variant in every tier,
  whatever calls came before; version 7 UUIDs grow while the clock does not step back; and, as the code
  has it, the version 4 UUIDs of a new thread do not depend on the hardware at all.
\<close>

subsection \<open>Version and variant\<close>

definition is_v4 :: "uuid \<Rightarrow> bool" where
  "is_v4 u \<longleftrightarrow> length u = 16 \<and> uuid_version u = 4 \<and> uuid_variant u = 1"

lemma version_bits:
  fixes b :: byte
  shows "drop_bit 4 (b AND 0x0F OR 0x40) AND 0x0F = 4" "(b AND 0x3F OR 0x80) AND 0x80 \<noteq> 0"
    "(b AND 0x3F OR 0x80) AND 0xC0 = 0x80"
proof -
  have "\<forall>b :: byte. drop_bit 4 (b AND 0x0F OR 0x40) AND 0x0F = 4 \<and> (b AND 0x3F OR 0x80) AND 0x80 \<noteq> 0 \<and>
      (b AND 0x3F OR 0x80) AND 0xC0 = 0x80"
    unfolding byte_all by code_simp
  then show "drop_bit 4 (b AND 0x0F OR 0x40) AND 0x0F = 4" "(b AND 0x3F OR 0x80) AND 0x80 \<noteq> 0"
    "(b AND 0x3F OR 0x80) AND 0xC0 = 0x80" by blast+
qed

lemma is_v4I:
  assumes "length u = 16" "u ! 6 = a AND 0x0F OR 0x40" "u ! 8 = b AND 0x3F OR 0x80"
  shows "is_v4 u"
  using assms version_bits(1) [of a] version_bits(2,3) [of b]
  by (simp add: is_v4_def uuid_version_def uuid_variant_def Let_def)

lemma stamp_v4_is_v4: "length raw = 16 \<Longrightarrow> is_v4 (stamp_v4 raw)"
  by (rule is_v4I [of _ "raw ! 6" "raw ! 8"])
    (simp_all add: stamp_v4_def or_reg_def and_reg_def and_mask_def or_mask_def)


lemma scalar_words:
  fixes w0 w1 :: u64
  shows "is_v4 (le_bytes 8 ((w0 AND 0xFF0FFFFFFFFFFFFF) OR 0x0040000000000000) @
    le_bytes 8 ((w1 AND 0xFFFFFFFFFFFFFF3F) OR 0x0000000000000080))"
proof (rule is_v4I [of _ "ucast (drop_bit 48 w0)" "ucast w1"])
  have m: "(0xFF0F :: byte) = 0x0F" "(0xFFFFFFFFFFFFFF3F :: byte) = 0x3F" by simp_all
  show "(le_bytes 8 ((w0 AND 0xFF0FFFFFFFFFFFFF) OR 0x0040000000000000) @
      le_bytes 8 ((w1 AND 0xFFFFFFFFFFFFFF3F) OR 0x0000000000000080)) ! 6 = ucast (drop_bit 48 w0) AND 0x0F OR 0x40"
    by (simp add: m nth_append nth_le_bytes unsigned_and_eq unsigned_or_eq)
  show "(le_bytes 8 ((w0 AND 0xFF0FFFFFFFFFFFFF) OR 0x0040000000000000) @
      le_bytes 8 ((w1 AND 0xFFFFFFFFFFFFFF3F) OR 0x0000000000000080)) ! 8 = ucast w1 AND 0x3F OR 0x80"
    by (simp add: m nth_append nth_le_bytes unsigned_and_eq unsigned_or_eq)
qed simp

subsection \<open>Concrete hardware\<close>

text \<open>A machine without entropy instructions whose clock stands at 2000 milliseconds, for the witnesses.\<close>

definition plain_hw :: "u64 hardware" where
  "plain_hw = \<lparr>hw_has_rdrand = False, hw_has_rdseed = False, hw_rdrand = (\<lambda>h. (None, h)), hw_rdseed = (\<lambda>h. (None, h)),
     hw_device = (\<lambda>h. (7, h)), hw_ticks = (\<lambda>h. (h, h)), hw_steady = (\<lambda>h. (h, h)), hw_now_ms = (\<lambda>h. (2000, h))\<rparr>"

subsection \<open>The generator of a thread\<close>

text \<open>
  The invariant of a thread: with a vector tier the generator has four lanes, and the buffer holds
  version 4 UUIDs from the index on.
\<close>

definition gen_ok :: "gen_tier \<Rightarrow> thread_gen \<Rightarrow> bool" where
  "gen_ok t g \<longleftrightarrow> (t = G_AVX512 \<or> t = G_AVX2 \<longrightarrow>
     length (vr_lanes (tg_vec g)) = 4 \<and> length (tg_buffer g) = buffer_size t \<and>
     (\<forall>u \<in> set (drop (tg_index g) (tg_buffer g)). is_v4 u))"

lemma seed_lanes: "length (vr_lanes (fst (seed_from_scalar H rh))) = 4"
  by (simp add: seed_from_scalar_def split: prod.splits)

lemma next_4x64_keeps:
  assumes "next_4x64 H (g, h) = (ws, g', h')" "length (vr_lanes (tg_vec g)) = 4"
  shows "length ws = 4" "length (vr_lanes (tg_vec g')) = 4" "tg_buffer g' = tg_buffer g" "tg_index g' = tg_index g"
  using assms seed_lanes [of H "(tg_rng g, h)"] by (auto simp: next_4x64_def Let_def split: prod.splits if_splits)

lemma pair_words_length: "\<forall>w \<in> set (pair_words ws). length w = 16" "length (pair_words ws) = length ws div 2"
  by (induction ws rule: pair_words.induct) auto

lemma block_v4_keeps:
  assumes "block_v4 t H (g, h) = (us, g', h')" "length (vr_lanes (tg_vec g)) = 4"
  shows "length us = buffer_size t" "\<forall>u \<in> set us. is_v4 u" "length (vr_lanes (tg_vec g')) = 4"
    "tg_buffer g' = tg_buffer g" "tg_index g' = tg_index g"
proof -
  obtain a g1 h1 b where n: "next_4x64 H (g, h) = (a, g1, h1)" "next_4x64 H (g1, h1) = (b, g', h')"
    "us = map stamp_v4 (pair_words (refill_words t a b))"
    using assms(1) by (auto simp: block_v4_def Let_def split: prod.splits)
  note 1 = next_4x64_keeps [OF n(1) assms(2)]
  note 2 = next_4x64_keeps [OF n(2) 1(2)]
  show "length us = buffer_size t"
    using 1(1) 2(1) by (simp add: n(3) pair_words_length refill_words_def buffer_size_def)
  show "\<forall>u \<in> set us. is_v4 u" by (auto simp: n(3) pair_words_length(1) intro!: stamp_v4_is_v4)
  show "length (vr_lanes (tg_vec g')) = 4" "tg_buffer g' = tg_buffer g" "tg_index g' = tg_index g"
    using 1 2 by simp_all
qed

lemma buffer_next_v4:
  assumes "gen_ok t g" "t = G_AVX512 \<or> t = G_AVX2" "buffer_next t H (g, h) = (u, g', h')"
  shows "is_v4 u \<and> gen_ok t g'"
proof -
  let ?take = "\<lambda>g. (tg_buffer g ! tg_index g, g\<lparr>tg_index := tg_index g + 1\<rparr>)"
  have hd: "is_v4 u \<and> gen_ok t g'" if "gen_ok t g1" "tg_index g1 < buffer_size t" "(u, g') = ?take g1" for g1
  proof -
    have b: "length (tg_buffer g1) = buffer_size t" "\<forall>u \<in> set (drop (tg_index g1) (tg_buffer g1)). is_v4 u"
      "length (vr_lanes (tg_vec g1)) = 4"
      using that(1) assms(2) by (auto simp: gen_ok_def)
    moreover have "drop (tg_index g1) (tg_buffer g1) = tg_buffer g1 ! tg_index g1 # drop (Suc (tg_index g1)) (tg_buffer g1)"
      using b(1) that(2) by (simp add: Cons_nth_drop_Suc)
    ultimately show ?thesis using that(3) by (simp add: gen_ok_def)
  qed
  have size: "0 < buffer_size t" by (simp add: buffer_size_def)
  show ?thesis
  proof (cases "buffer_size t \<le> tg_index g")
    case True
    obtain us g1 h1 where b: "block_v4 t H (g, h) = (us, g1, h1)" by (cases "block_v4 t H (g, h)") auto
    have "length (vr_lanes (tg_vec g)) = 4" using assms(1,2) by (auto simp: gen_ok_def)
    note k = block_v4_keeps [OF b this]
    show ?thesis
      by (rule hd [of "g1\<lparr>tg_buffer := us, tg_index := 0\<rparr>"])
        (use k assms(3) True b size in \<open>auto simp: gen_ok_def buffer_next_def Let_def\<close>)
  next
    case False
    then show ?thesis
      by (intro hd [of g]) (use assms in \<open>auto simp: buffer_next_def Let_def\<close>)
  qed
qed

lemma uuid_v4_ok:
  assumes "gen_ok t g" "uuid_v4 t H (g, h) = (u, g', h')"
  shows "is_v4 u \<and> gen_ok t g'"
proof (cases "t = G_AVX512 \<or> t = G_AVX2")
  case True
  then have "buffer_next t H (g, h) = (u, g', h')" using assms(2) by (simp add: uuid_v4_def)
  then show ?thesis by (rule buffer_next_v4 [OF assms(1) True])
next
  case False
  then show ?thesis using assms(2)
    by (auto simp: uuid_v4_def Let_def gen_ok_def scalar_words stamp_v4_is_v4 split: prod.splits if_splits)
qed

lemma uuid_v4s_ok: "gen_ok t g \<Longrightarrow> uuid_v4s t H n (g, h) = (us, g', h') \<Longrightarrow> length us = n \<and> (\<forall>u \<in> set us. is_v4 u) \<and> gen_ok t g'"
proof (induction n arbitrary: g h us)
  case (Suc n)
  obtain u g1 h1 where u: "uuid_v4 t H (g, h) = (u, g1, h1)" by (cases "uuid_v4 t H (g, h)") auto
  obtain vs where v: "uuid_v4s t H n (g1, h1) = (vs, g', h')" "us = u # vs"
    using Suc.prems(2) by (auto simp: u Let_def split: prod.splits)
  show ?case using Suc.IH [OF _ v(1)] uuid_v4_ok [OF Suc.prems(1) u] v(2) by auto
qed simp

lemma draw_length: "length (fst (draw H n rh)) = n"
  by (induction n arbitrary: rh) (simp_all add: case_prod_beta Let_def)

lemma batch_block_ok:
  assumes "gen_ok t g" "t \<noteq> G_Scalar" "batch_block t H (g, h) = (us, g', h')"
  shows "length us = buffer_size t" "\<forall>u \<in> set us. is_v4 u" "gen_ok t g'"
proof -
  have "length us = buffer_size t \<and> (\<forall>u \<in> set us. is_v4 u) \<and> gen_ok t g'"
  proof (cases "t = G_NEON")
    case True
    then show ?thesis using assms(3) draw_length [of H 4 "(tg_rng g, h)"]
      by (auto simp: batch_block_def Let_def gen_ok_def buffer_size_def pair_words_length intro!: stamp_v4_is_v4
          split: prod.splits)
  next
    case False
    then have v: "t = G_AVX512 \<or> t = G_AVX2" using assms(2) by (cases t) auto
    then have b: "block_v4 t H (g, h) = (us, g', h')" using assms(3) False by (simp add: batch_block_def)
    have "length (vr_lanes (tg_vec g)) = 4" using assms(1) v by (auto simp: gen_ok_def)
    from block_v4_keeps [OF b this] show ?thesis using assms(1) v by (auto simp: gen_ok_def)
  qed
  then show "length us = buffer_size t" "\<forall>u \<in> set us. is_v4 u" "gen_ok t g'" by auto
qed

lemma batch_blocks_ok:
  "gen_ok t g \<Longrightarrow> t \<noteq> G_Scalar \<Longrightarrow> batch_blocks t H n (g, h) = (us, g', h') \<Longrightarrow>
     length us = n * buffer_size t \<and> (\<forall>u \<in> set us. is_v4 u) \<and> gen_ok t g'"
proof (induction n arbitrary: g h us)
  case (Suc n)
  obtain ws g1 h1 where u: "batch_block t H (g, h) = (ws, g1, h1)" by (cases "batch_block t H (g, h)") auto
  obtain vs where v: "batch_blocks t H n (g1, h1) = (vs, g', h')" "us = ws @ vs"
    using Suc.prems(3) by (auto simp: u Let_def split: prod.splits)
  note b = batch_block_ok [OF Suc.prems(1,2) u]
  show ?case using Suc.IH [OF b(3) Suc.prems(2) v(1)] b v(2) by auto
qed simp

lemma v4_batch_ok:
  assumes "gen_ok t g" "v4_batch t H n (g, h) = (us, g', h')"
  shows "length us = n \<and> (\<forall>u \<in> set us. is_v4 u) \<and> gen_ok t g'"
proof (cases "t = G_Scalar")
  case True
  then have "uuid_v4s t H n (g, h) = (us, g', h')" using assms(2) by (simp add: v4_batch_def)
  then show ?thesis by (rule uuid_v4s_ok [OF assms(1)])
next
  case False
  let ?s = "buffer_size t"
  obtain ws g1 h1 where w: "batch_blocks t H (n div ?s) (g, h) = (ws, g1, h1)"
    by (cases "batch_blocks t H (n div ?s) (g, h)") auto
  obtain vs where v: "uuid_v4s t H (n mod ?s) (g1, h1) = (vs, g', h')" "us = ws @ vs"
    using assms(2) False w by (auto simp: v4_batch_def buffer_size_def Let_def split: prod.splits if_splits)
  note b = batch_blocks_ok [OF assms(1) False w]
  show ?thesis using uuid_v4s_ok [OF _ v(1)] b v(2) by (auto simp: div_mult_mod_eq)
qed


text \<open>A thread's generator after any sequence of calls.\<close>

inductive gen_reach :: "gen_tier \<Rightarrow> 'h hardware \<Rightarrow> thread_gen \<times> 'h \<Rightarrow> bool" for t H where
  reach_start: "gen_reach t H (fresh_thread t H h)"
| reach_v4: "gen_reach t H gh \<Longrightarrow> gen_reach t H (snd (uuid_v4 t H gh))"
| reach_v4_batch: "gen_reach t H gh \<Longrightarrow> gen_reach t H (snd (v4_batch t H n gh))"
| reach_v7: "gen_reach t H gh \<Longrightarrow> gen_reach t H (snd (uuid_v7 H gh))"
| reach_v7_batch: "gen_reach t H gh \<Longrightarrow> gen_reach t H (snd (v7_batch H n gh))"
| reach_elsewhere: "gen_reach t H (g, h) \<Longrightarrow> gen_reach t H (g, h')"

lemma v7_keeps: "gen_ok t (fst gh) \<Longrightarrow> gen_ok t (fst (snd (uuid_v7 H gh)))"
  "gen_ok t (fst gh) \<Longrightarrow> gen_ok t (fst (snd (v7_batch H n gh)))"
  by (auto simp: uuid_v7_def v7_batch_def v7_counter_def gen_ok_def Let_def split: prod.splits if_splits)

lemma gen_reach_ok: "gen_reach t H gh \<Longrightarrow> gen_ok t (fst gh)"
proof (induction rule: gen_reach.induct)
  case (reach_start h)
  show ?case using seed_lanes [of H "(initial_rng, h)"] by (auto simp: fresh_thread_def gen_ok_def Let_def split: prod.splits)
next
  case (reach_v4 gh)
  then show ?case using uuid_v4_ok [of t "fst gh" H "snd gh"] by (metis prod.collapse)
next
  case (reach_v4_batch gh n)
  then show ?case using v4_batch_ok [of t "fst gh" H n "snd gh"] by (metis prod.collapse)
qed (simp_all add: v7_keeps)

text \<open>
  In every tier of the instruction set, after any sequence of calls of the four generator functions on
  a thread and whatever the hardware delivers, \<open>v4\<close> returns sixteen bytes with version 4 and the RFC
  variant, and \<open>v4_batch\<close> fills exactly its span with such UUIDs.
\<close>

theorem v4_well_formed:
  assumes "gen_reach t H gh"
  shows "is_v4 (fst (uuid_v4 t H gh)) \<and> length (fst (v4_batch t H n gh)) = n \<and> list_all is_v4 (fst (v4_batch t H n gh))"
  using gen_reach_ok [OF assms] uuid_v4_ok [of t "fst gh" H "snd gh"] v4_batch_ok [of t "fst gh" H n "snd gh"]
  by (metis prod.collapse list_all_iff)


theorem v4_well_formed_witness:
  "gen_reach G_AVX2 plain_hw (fresh_thread G_AVX2 plain_hw 5) \<and> is_v4 (fst (uuid_v4 G_AVX2 plain_hw (fresh_thread G_AVX2 plain_hw 5)))"
  using v4_well_formed [of G_AVX2 plain_hw "fresh_thread G_AVX2 plain_hw 5"] gen_reach.reach_start [of G_AVX2 plain_hw 5]
  by simp

subsection \<open>The order of version 7\<close>

lemma le_word_le_bytes: "le_word (le_bytes 8 w) = w"
  by (rule bit_word_eqI) (auto simp: bit_le_word nth_le_bytes bit_simps)

lemma byteswap_twice: "byteswap (byteswap w) = w"
  by (simp add: byteswap_def le_bytes_word le_word_le_bytes)

definition v7_hi :: "u64 \<Rightarrow> u64 \<Rightarrow> u64" where
  "v7_hi ts c = push_bit 16 ts OR 0x7000 OR (drop_bit 30 c AND 0x0FFF)"

definition v7_lo :: "u64 \<Rightarrow> 32 word \<Rightarrow> u64" where
  "v7_lo c r = ((push_bit 32 (c AND 0x3FFFFFFF) OR ucast r) AND 0x3FFFFFFFFFFFFFFF) OR 0x8000000000000000"

lemma stamp_v7_words:
  "byteswap (le_word (take 8 (stamp_v7 ts c r))) = v7_hi ts c" "byteswap (le_word (drop 8 (stamp_v7 ts c r))) = v7_lo c r"
  by (simp_all add: stamp_v7_def Let_def le_word_le_bytes byteswap_twice v7_hi_def v7_lo_def)

text \<open>The two words as numbers.\<close>

lemma or_plus:
  fixes a b :: u64
  assumes "\<And>n. n < 64 \<Longrightarrow> bit a n \<Longrightarrow> \<not> bit b n"
  shows "unat (a OR b) = unat a + unat b"
proof -
  have "a AND b = 0" using assms by (auto intro!: bit_word_eqI simp: bit_simps)
  then have "and (unat a) (unat b) = 0" by (metis unsigned_and_eq unat_0 unsigned_0)
  moreover have "unat (a OR b) = or (unat a) (unat b)" by (simp add: unsigned_or_eq)
  ultimately show ?thesis by (simp add: disjunctive_add_eq_or)
qed

lemma v7_masks:
  "(0x7000 :: u64) = push_bit 12 (mask 3)" "(0x0FFF :: u64) = mask 12" "(0x3FFFFFFF :: u64) = mask 30"
  "(0x3FFFFFFFFFFFFFFF :: u64) = mask 62" "(0x8000000000000000 :: u64) = push_bit 63 1"
  by (simp_all add: mask_eq_exp_minus_1 push_bit_eq_mult)

lemma unat_push:
  fixes w :: u64
  assumes "unat w < 2 ^ (64 - k)" "k \<le> 64"
  shows "unat (push_bit k w) = unat w * 2 ^ k"
proof -
  have "unat w * 2 ^ k < 2 ^ (64 - k) * 2 ^ k" using assms(1) by simp
  then have "unat w * 2 ^ k < 2 ^ 64" using assms(2) by (simp flip: power_add)
  then show ?thesis unfolding unsigned_push_bit_eq by (simp add: push_bit_eq_mult take_bit_nat_eq_self)
qed

lemma unat_v7_hi:
  assumes "ts < 2 ^ 48"
  shows "unat (v7_hi ts c) = unat ts * 2 ^ 16 + 0x7000 + unat c div 2 ^ 30 mod 2 ^ 12"
proof -
  have "unat ts < 2 ^ 48" using assms by (simp add: word_less_nat_alt)
  then have 1: "unat (push_bit 16 ts) = unat ts * 2 ^ 16" by (intro unat_push) simp_all
  have "unat c < 2 ^ 64" using unsigned_less [of c] by simp
  then have 2: "unat (drop_bit 30 c AND 0x0FFF) = unat c div 2 ^ 30 mod 2 ^ 12"
    unfolding v7_masks take_bit_eq_mask [symmetric] unsigned_take_bit_eq unsigned_drop_bit_eq
    by (simp add: take_bit_eq_mod drop_bit_eq_div flip: unsigned_take_bit_eq)
  have "unat (0x7000 OR (drop_bit 30 c AND 0x0FFF)) = unat (0x7000 :: u64) + unat (drop_bit 30 c AND 0x0FFF)"
    unfolding v7_masks by (rule or_plus) (auto simp: bit_simps)
  moreover have "unat (v7_hi ts c) = unat (push_bit 16 ts) + unat (0x7000 OR (drop_bit 30 c AND 0x0FFF))"
    unfolding v7_hi_def v7_masks by (rule or_plus) (auto simp: bit_simps)
  ultimately show ?thesis by (simp add: 1 2)
qed

lemma unat_v7_lo: "unat (v7_lo c r) = 2 ^ 63 + unat c mod 2 ^ 30 * 2 ^ 32 + unat r"
proof -
  have m: "unat (c AND 0x3FFFFFFF) = unat c mod 2 ^ 30"
    unfolding v7_masks take_bit_eq_mask [symmetric] unsigned_take_bit_eq by (simp add: take_bit_eq_mod)
  then have 1: "unat (push_bit 32 (c AND 0x3FFFFFFF)) = unat c mod 2 ^ 30 * 2 ^ 32" by (subst unat_push) simp_all
  have "unat r < 2 ^ 32" using unsigned_less [of r] by simp
  then have 2: "unat (push_bit 32 (c AND 0x3FFFFFFF) OR ucast r) = unat (push_bit 32 (c AND 0x3FFFFFFF)) + unat r"
    unfolding v7_masks
    by (subst or_plus) (auto simp: bit_simps unsigned_ucast_eq take_bit_nat_eq_self dest: bit_imp_le_length)
  have 3: "(push_bit 32 (c AND 0x3FFFFFFF) OR ucast r) AND 0x3FFFFFFFFFFFFFFF = push_bit 32 (c AND 0x3FFFFFFF) OR ucast r"
    unfolding v7_masks by (rule bit_word_eqI) (auto simp: bit_simps dest: bit_imp_le_length)
  have 4: "bit (0x8000000000000000 :: u64) n \<longleftrightarrow> n = 63" for n
    unfolding v7_masks(5) bit_push_bit_iff by (auto simp: bit_1_iff)
  have "unat (v7_lo c r) = unat (push_bit 32 (c AND 0x3FFFFFFF) OR ucast r) + unat (0x8000000000000000 :: u64)"
    unfolding v7_lo_def 3
  proof (rule or_plus)
    fix n assume "bit (push_bit 32 (c AND 0x3FFFFFFF) OR ucast r) n"
    then have "n < 62" unfolding v7_masks by (auto simp: bit_simps dest: bit_imp_le_length)
    then show "\<not> bit (0x8000000000000000 :: u64) n" unfolding 4 by simp
  qed
  then show ?thesis unfolding 2 1 by simp
qed

lemma v7_digits:
  fixes t t' c c' q q' m m' r r' :: nat
  assumes "t < t' \<or> t = t' \<and> c < c'" "c = q * 2 ^ 30 + m" "c' = q' * 2 ^ 30 + m'"
    and "q < 2 ^ 12" "q' < 2 ^ 12" "m < 2 ^ 30" "m' < 2 ^ 30" "r < 2 ^ 32" "r' < 2 ^ 32"
  shows "t * 2 ^ 16 + 0x7000 + q < t' * 2 ^ 16 + 0x7000 + q' \<or>
    t * 2 ^ 16 + 0x7000 + q = t' * 2 ^ 16 + 0x7000 + q' \<and> 2 ^ 63 + m * 2 ^ 32 + r < 2 ^ 63 + m' * 2 ^ 32 + r'"
  using assms by (cases "q < q'"; cases "q = q'") auto

lemma stamp_v7_less:
  assumes "ts < 2 ^ 48" "ts' < 2 ^ 48" "c < 2 ^ 42" "c' < 2 ^ 42"
    and "ts < ts' \<or> ts = ts' \<and> c < c'"
  shows "uuid_less (stamp_v7 ts c r) (stamp_v7 ts' c' r')"
proof -
  have r: "unat r < 2 ^ 32" "unat r' < 2 ^ 32" using unsigned_less [of r] unsigned_less [of r'] by simp_all
  have n: "unat c < 2 ^ 42" "unat c' < 2 ^ 42" using assms(3,4) by (simp_all add: word_less_nat_alt)
  have k: "unat ts < unat ts' \<or> unat ts = unat ts' \<and> unat c < unat c'" using assms(5) by (auto simp: word_less_nat_alt)
  have d: "unat x div 2 ^ 30 mod 2 ^ 12 = unat x div 2 ^ 30" "unat x div 2 ^ 30 < 2 ^ 12" if "unat x < 2 ^ 42" for x :: u64
    using that by (simp_all add: div_less_iff_less_mult)
  have e: "unat x = unat x div 2 ^ 30 * 2 ^ 30 + unat x mod 2 ^ 30" "unat x mod 2 ^ 30 < 2 ^ 30" for x :: u64 by simp_all
  have "unat (v7_hi ts c) < unat (v7_hi ts' c') \<or>
      unat (v7_hi ts c) = unat (v7_hi ts' c') \<and> unat (v7_lo c r) < unat (v7_lo c' r')"
    unfolding unat_v7_hi [OF assms(1)] unat_v7_hi [OF assms(2)] unat_v7_lo d(1) [OF n(1)] d(1) [OF n(2)]
    by (rule v7_digits [OF k e(1) e(1) d(2) [OF n(1)] d(2) [OF n(2)] e(2) e(2) r])
  then show ?thesis by (auto simp: uuid_less_def stamp_v7_words Let_def word_less_nat_alt word_unat_eq_iff)
qed


text \<open>A run of calls: the clock each reads, the counter it uses and the UUID it returns.\<close>

primrec v7_trace :: "'h hardware \<Rightarrow> nat \<Rightarrow> thread_gen \<times> 'h \<Rightarrow> (u64 \<times> u64 \<times> uuid) list" where
  "v7_trace H 0 gh = []"
| "v7_trace H (Suc n) gh =
     (let (u, g, h) = uuid_v7 H gh in (fst (hw_now_ms H (snd gh)), tg_counter g, u) # v7_trace H n (g, h))"

lemma uuid_v7_step:
  assumes "uuid_v7 H (g, h) = (u, g', h')" "fst (hw_now_ms H h) = now"
  shows "\<exists>r. u = stamp_v7 now (tg_counter g') r" "now \<le> tg_last_ts_ms g'"
    "now \<le> tg_last_ts_ms g \<Longrightarrow> tg_counter g' = tg_counter g + 1 \<and> tg_last_ts_ms g' = tg_last_ts_ms g"
  using assms by (auto simp: uuid_v7_def v7_counter_def Let_def split: prod.splits if_splits)

lemma v7_trace_stamps: "(now, c, u) \<in> set (v7_trace H n gh) \<Longrightarrow> \<exists>r. u = stamp_v7 now c r"
proof (induction n arbitrary: gh)
  case (Suc n)
  obtain v g h where v: "uuid_v7 H gh = (v, g, h)" by (cases "uuid_v7 H gh") auto
  show ?case using Suc uuid_v7_step(1) [of H "fst gh" "snd gh" v g h] v by auto
qed simp

definition v7_key_less :: "u64 \<times> u64 \<times> uuid \<Rightarrow> u64 \<times> u64 \<times> uuid \<Rightarrow> bool" where
  "v7_key_less a b \<longleftrightarrow> fst a < fst b \<or> fst a = fst b \<and> fst (snd a) < fst (snd b)"

lemma v7_trace_above:
  assumes "sorted (now # map fst (v7_trace H n (g, h)))" "list_all (\<lambda>x. fst (snd x) < 2 ^ 42) (v7_trace H n (g, h))"
    and "now \<le> tg_last_ts_ms g" "tg_counter g < 2 ^ 42" "x \<in> set (v7_trace H n (g, h))"
  shows "v7_key_less (now, tg_counter g, w) x"
  using assms
proof (induction n arbitrary: g h now)
  case (Suc n)
  obtain v g1 h1 where v: "uuid_v7 H (g, h) = (v, g1, h1)" by (cases "uuid_v7 H (g, h)") auto
  let ?t = "fst (hw_now_ms H h)"
  note s = uuid_v7_step [OF v refl]
  have c: "tg_counter g1 < 2 ^ 42" using Suc.prems(2) v by simp
  have "tg_counter g < tg_counter g + 1" using Suc.prems(4) by (simp add: word_less_nat_alt unat_word_ariths)
  then have first: "v7_key_less (now, tg_counter g, w) (?t, tg_counter g1, v)"
    using Suc.prems(1,3) s(3) v by (auto simp: v7_key_less_def)
  show ?case
  proof (cases "x = (?t, tg_counter g1, v)")
    case False
    then have "x \<in> set (v7_trace H n (g1, h1))" using Suc.prems(5) v by auto
    then have "v7_key_less (?t, tg_counter g1, w) x" using Suc.IH [of ?t g1 h1] Suc.prems(1,2) s(2) c v by auto
    then show ?thesis using first by (auto simp: v7_key_less_def)
  qed (use first in simp)
qed simp

lemma v7_trace_increasing:
  "sorted (map fst (v7_trace H n gh)) \<Longrightarrow> list_all (\<lambda>x. fst (snd x) < 2 ^ 42) (v7_trace H n gh) \<Longrightarrow>
     sorted_wrt v7_key_less (v7_trace H n gh)"
proof (induction n arbitrary: gh)
  case (Suc n)
  obtain v g1 h1 where v: "uuid_v7 H gh = (v, g1, h1)" by (cases "uuid_v7 H gh") auto
  have "fst (hw_now_ms H (snd gh)) \<le> tg_last_ts_ms g1" using uuid_v7_step(2) [of H "fst gh" "snd gh"] v by simp
  then show ?case using Suc v7_trace_above [of "fst (hw_now_ms H (snd gh))" H n g1 h1] v by auto
qed simp

lemma v7_less_key:
  assumes "x \<in> set (v7_trace H n gh)" "y \<in> set (v7_trace H n gh)"
    and "list_all (\<lambda>x. fst x < 2 ^ 48 \<and> fst (snd x) < 2 ^ 42) (v7_trace H n gh)"
  shows "v7_key_less x y \<Longrightarrow> uuid_less (snd (snd x)) (snd (snd y))" "uuid_less (snd (snd x)) (snd (snd y)) \<Longrightarrow> fst x \<le> fst y"
proof -
  obtain r r' where r: "snd (snd x) = stamp_v7 (fst x) (fst (snd x)) r" "snd (snd y) = stamp_v7 (fst y) (fst (snd y)) r'"
    using v7_trace_stamps assms(1,2) by (metis prod.collapse)
  have b: "fst x < 2 ^ 48" "fst (snd x) < 2 ^ 42" "fst y < 2 ^ 48" "fst (snd y) < 2 ^ 42"
    using assms by (auto simp: list_all_iff)
  show "uuid_less (snd (snd x)) (snd (snd y))" if "v7_key_less x y"
    using that b unfolding r v7_key_less_def by (intro stamp_v7_less) auto
  have "\<not> uuid_less (snd (snd x)) (snd (snd y))" if "fst y < fst x"
    using stamp_v7_less [OF b(3,1,4,2) disjI1 [OF that], of r' r] unfolding r by (auto simp: uuid_less_def Let_def split: if_splits)
  then show "fst x \<le> fst y" if "uuid_less (snd (snd x)) (snd (snd y))" using that by fastforce
qed

text \<open>
  C35: Over a run of \<open>v7\<close> calls of one thread, from any state and with any seeding, the returned UUIDs are
  strictly increasing exactly when the clock readings never step back, as long as the readings fit 48
  bits and the counter stays within its 42 bits.
\<close>

theorem v7_ordered_iff_clock:
  assumes "list_all (\<lambda>x. fst x < 2 ^ 48 \<and> fst (snd x) < 2 ^ 42) (v7_trace H n gh)"
  shows "sorted_wrt uuid_less (map (snd \<circ> snd) (v7_trace H n gh)) \<longleftrightarrow> sorted (map fst (v7_trace H n gh))"
proof
  let ?T = "v7_trace H n gh"
  show "sorted_wrt uuid_less (map (snd \<circ> snd) ?T)" if "sorted (map fst ?T)"
  proof -
    have "sorted_wrt v7_key_less ?T" using v7_trace_increasing [OF that] assms by (auto simp: list_all_iff)
    then show ?thesis unfolding sorted_wrt_map using v7_less_key(1) [OF _ _ assms] by (auto elim: sorted_wrt_mono_rel [rotated])
  qed
  show "sorted (map fst ?T)" if "sorted_wrt uuid_less (map (snd \<circ> snd) ?T)"
    using that unfolding sorted_wrt_map using v7_less_key(2) [OF _ _ assms] by (auto elim: sorted_wrt_mono_rel [rotated])
qed


text \<open>A thread that has already read the millisecond 2000.\<close>

definition demo_gen :: thread_gen where
  "demo_gen = \<lparr>tg_rng = initial_rng, tg_vec = \<lparr>vr_lanes = [], vr_count = 0\<rparr>, tg_buffer = [], tg_index = 0,
     tg_last_ts_ms = 2000, tg_counter = 10\<rparr>"

lemma demo_trace: "\<exists>u v. v7_trace plain_hw 2 (demo_gen, 5) = [(2000, 11, u), (2000, 12, v)]"
proof -
  obtain u g h where 1: "uuid_v7 plain_hw (demo_gen, 5) = (u, g, h)" by (cases "uuid_v7 plain_hw (demo_gen, 5)") auto
  obtain v g' h' where 2: "uuid_v7 plain_hw (g, h) = (v, g', h')" by (cases "uuid_v7 plain_hw (g, h)") auto
  have n: "fst (hw_now_ms plain_hw h) = 2000" for h by (simp add: plain_hw_def)
  show ?thesis using uuid_v7_step(3) [OF 1 n] uuid_v7_step(3) [OF 2 n] 1 2 by (simp add: numeral_2_eq_2 n demo_gen_def)
qed

theorem v7_ordered_iff_clock_witness:
  "list_all (\<lambda>x. fst x < 2 ^ 48 \<and> fst (snd x) < 2 ^ 42) (v7_trace plain_hw 2 (demo_gen, 5)) \<and>
   sorted_wrt uuid_less (map (snd \<circ> snd) (v7_trace plain_hw 2 (demo_gen, 5)))"
proof -
  obtain u v where t: "v7_trace plain_hw 2 (demo_gen, 5) = [(2000, 11, u), (2000, 12, v)]" using demo_trace by blast
  have a: "list_all (\<lambda>x. fst x < 2 ^ 48 \<and> fst (snd x) < 2 ^ 42) (v7_trace plain_hw 2 (demo_gen, 5))" by (simp add: t)
  have "sorted (map fst (v7_trace plain_hw 2 (demo_gen, 5)))" by (simp add: t)
  then show ?thesis using v7_ordered_iff_clock [OF a] a by blast
qed

subsection \<open>Seeding\<close>

text \<open>While the scalar generator has drawn fewer than 65536 words it never asks the hardware.\<close>

lemma next_u64_unseeded:
  assumes "fr_count r < 65535" "next_u64 H (r, h) = (x, r', k)"
  shows "next_u64 H' (r, h') = (x, r', h') \<and> k = h \<and> fr_count r' = fr_count r + 1"
  using assms by (auto simp: next_u64_def Let_def split: prod.splits)

lemma draw_unseeded:
  "fr_count r + n < 65536 \<Longrightarrow> draw H n (r, h) = (xs, r', k) \<Longrightarrow>
     draw H' n (r, h') = (xs, r', h') \<and> k = h \<and> fr_count r' = fr_count r + n"
proof (induction n arbitrary: r h h' xs)
  case (Suc n)
  obtain x r1 k1 where x: "next_u64 H (r, h) = (x, r1, k1)" by (cases "next_u64 H (r, h)") auto
  note n = next_u64_unseeded [OF _ x]
  obtain ys where y: "draw H n (r1, k1) = (ys, r', k)" "xs = x # ys" using Suc.prems(2) x by (auto split: prod.splits)
  show ?case using Suc.IH [OF _ y(1), of h'] Suc.prems(1) n [of H' h'] y(2) by simp
qed simp

lemma next_4x64_unseeded:
  assumes "vr_count (tg_vec g) < 16383" "next_4x64 H (g, h) = (ws, g', k)"
  shows "next_4x64 H' (g, h') = (ws, g', h') \<and> k = h \<and> vr_count (tg_vec g') = vr_count (tg_vec g) + 1 \<and> tg_rng g' = tg_rng g"
  using assms by (auto simp: next_4x64_def Let_def)

lemma block_v4_unseeded:
  assumes "vr_count (tg_vec g) < 16382" "block_v4 t H (g, h) = (us, g', k)"
  shows "block_v4 t H' (g, h') = (us, g', h') \<and> k = h \<and> vr_count (tg_vec g') = vr_count (tg_vec g) + 2 \<and> tg_rng g' = tg_rng g"
proof -
  obtain a g1 k1 where a: "next_4x64 H (g, h) = (a, g1, k1)" by (cases "next_4x64 H (g, h)") auto
  obtain b g2 k2 where b: "next_4x64 H (g1, k1) = (b, g2, k2)" by (cases "next_4x64 H (g1, k1)") auto
  note 1 = next_4x64_unseeded [OF _ a] and 2 = next_4x64_unseeded [OF _ b]
  show "block_v4 t H' (g, h') = (us, g', h') \<and> k = h \<and> vr_count (tg_vec g') = vr_count (tg_vec g) + 2 \<and> tg_rng g' = tg_rng g"
    using assms 1 [of H' h'] 2 [of H' h'] a b by (auto simp: block_v4_def Let_def)
qed

lemma uuid_v4_unseeded:
  assumes "fr_count (tg_rng g) < 65534" "vr_count (tg_vec g) < 16382" "uuid_v4 t H (g, h) = (u, g', k)"
  shows "uuid_v4 t H' (g, h') = (u, g', h') \<and> k = h \<and> fr_count (tg_rng g') \<le> fr_count (tg_rng g) + 2 \<and>
    vr_count (tg_vec g') \<le> vr_count (tg_vec g) + 2"
proof (cases "t = G_AVX512 \<or> t = G_AVX2")
  case True
  obtain us g1 k1 where b: "block_v4 t H (g, h) = (us, g1, k1)" by (cases "block_v4 t H (g, h)") auto
  show ?thesis using True assms(3) block_v4_unseeded [OF assms(2) b, of H' h'] b
      by (auto simp: uuid_v4_def buffer_next_def Let_def)
next
  case False
  obtain w0 r1 k1 where a: "next_u64 H (tg_rng g, h) = (w0, r1, k1)" by (cases "next_u64 H (tg_rng g, h)") auto
  obtain w1 r2 k2 where b: "next_u64 H (r1, k1) = (w1, r2, k2)" by (cases "next_u64 H (r1, k1)") auto
  show ?thesis using False assms(1,3) next_u64_unseeded [OF _ a, of H' h'] next_u64_unseeded [OF _ b, of H' h'] a b
      by (auto simp: uuid_v4_def Let_def)
qed

lemma uuid_v4s_unseeded:
  "fr_count (tg_rng g) + 2 * n < 65536 \<Longrightarrow> vr_count (tg_vec g) + 2 * n < 16384 \<Longrightarrow>
     uuid_v4s t H n (g, h) = (us, g', k) \<Longrightarrow> uuid_v4s t H' n (g, h') = (us, g', h')"
proof (induction n arbitrary: g h us)
  case (Suc n)
  obtain u g1 k1 where u: "uuid_v4 t H (g, h) = (u, g1, k1)" by (cases "uuid_v4 t H (g, h)") auto
  obtain vs where v: "uuid_v4s t H n (g1, k1) = (vs, g', k)" "us = u # vs"
    using Suc.prems(3) u by (auto split: prod.splits)
  note s = uuid_v4_unseeded [OF _ _ u, of H' h']
  show ?case using Suc.IH [OF _ _ v(1)] Suc.prems(1,2) s v(2) by simp
qed simp

lemma fresh_thread_unseeded:
  assumes "fresh_thread t H h = (g, k)"
  shows "fresh_thread t H' h' = (g, h') \<and> fr_count (tg_rng g) \<le> 16 \<and> vr_count (tg_vec g) = 0"
proof -
  obtain xs r l where d: "draw H 16 (initial_rng, h) = (xs, r, l)" by (cases "draw H 16 (initial_rng, h)") auto
  have "fr_count initial_rng = 0" by (simp add: initial_rng_def)
  then show "fresh_thread t H' h' = (g, h') \<and> fr_count (tg_rng g) \<le> 16 \<and> vr_count (tg_vec g) = 0"
    using assms d draw_unseeded [OF _ d, of H' h'] by (auto simp: fresh_thread_def seed_from_scalar_def split: if_splits)
qed

text \<open>
  The first eight thousand version 4 UUIDs of a thread do not depend on the hardware: whatever the
  entropy instructions, the random device and the clocks return, in this process or another, every thread
  starts with the same UUIDs, since the generator has fixed initial words and is first seeded after 65536
  draws. The comment calls them cryptographically strong.
\<close>

theorem v4_same_on_every_thread:
  assumes "n \<le> 8000"
  shows "fst (uuid_v4s t H n (fresh_thread t H h)) = fst (uuid_v4s t H' n (fresh_thread t H' h'))"
proof -
  obtain g k where f: "fresh_thread t H h = (g, k)" by (cases "fresh_thread t H h") auto
  note 1 = fresh_thread_unseeded [OF f, of H' h']
  obtain us g2 l where u: "uuid_v4s t H n (g, k) = (us, g2, l)" by (cases "uuid_v4s t H n (g, k)") auto
  show ?thesis using uuid_v4s_unseeded [OF _ _ u, of H' h'] assms 1 f u by simp
qed


theorem v4_same_on_every_thread_witness:
  "(3 :: nat) \<le> 8000 \<and> fst (uuid_v4s G_AVX2 plain_hw 3 (fresh_thread G_AVX2 plain_hw 5)) =
     fst (uuid_v4s G_AVX2 plain_hw 3 (fresh_thread G_AVX2 plain_hw 9))"
  using v4_same_on_every_thread [of 3 G_AVX2 plain_hw 5 plain_hw 9] by simp

end
