(* ===== verification/Http1_Connection.thy ===== *)
theory Http1_Connection
  imports Http_Router Http1_Parser WebSocket_Handshake "HOL-Library.Monad_Syntax"
begin

text \<open>
  \<^verbatim>\<open>src/http/v1/Http1Connection.cpp\<close>, \<^verbatim>\<open>IoEngine::send_all\<close> of \<^verbatim>\<open>src/core/engine/IoEngine.cpp\<close> and the
  reader of \<^verbatim>\<open>src/storage/FileStream.cpp\<close>: the life of an HTTP/1 connection around the modelled parser,
  router and serialiser. The kernel is a record of operations on a state of the outside world; an awaited
  call is a call. The loops end only if the world lets them, so they are partial: a loop that never ends
  has the value \<open>None\<close>.
\<close>

subsection \<open>The outside world\<close>

datatype recv_result = Received string | NoBuffers | Gone

datatype sendfile_result = Sent nat | WouldBlock | Interrupted | SendfileFailed

record 'n engine =
  eg_recv :: "'n \<Rightarrow> recv_result \<times> 'n"
  eg_send :: "string \<Rightarrow> 'n \<Rightarrow> int \<times> 'n"
  eg_timeout :: "'n \<Rightarrow> 'n"
  eg_poll_out :: "'n \<Rightarrow> 'n"
  eg_close :: "'n \<Rightarrow> 'n"
  eg_date :: "'n \<Rightarrow> string"
  os_open :: "string \<Rightarrow> 'n \<Rightarrow> int \<times> 'n"
  os_sendfile :: "int \<Rightarrow> nat \<Rightarrow> nat \<Rightarrow> 'n \<Rightarrow> sendfile_result \<times> 'n"
  os_pread :: "int \<Rightarrow> nat \<Rightarrow> nat \<Rightarrow> 'n \<Rightarrow> string option \<times> 'n"
  os_close :: "int \<Rightarrow> 'n \<Rightarrow> 'n"
  os_direct_block :: "int \<Rightarrow> nat option"

text \<open>The cast of a size to a 32-bit \<^verbatim>\<open>int\<close>.\<close>

definition to_int32 :: "nat \<Rightarrow> int" where
  "to_int32 n = (int n + 2 ^ 31) mod 2 ^ 32 - 2 ^ 31"

text \<open>\<^verbatim>\<open>send_all\<close>: the loop over the rest of the data, and its result.\<close>

function send_rest :: "'n engine \<Rightarrow> nat \<Rightarrow> string \<Rightarrow> 'n \<Rightarrow> int \<times> 'n" where
  "send_rest E len rest n =
     (if rest = [] then (to_int32 len, n)
      else
        let (sent, n) = eg_send E rest n
        in if sent \<le> 0 then (if sent < 0 then sent else to_int32 (len - length rest), n)
           else send_rest E len (drop (nat sent) rest) n)"
  by pat_completeness auto
termination
  by (relation "measure (\<lambda>(E, len, rest, n). length rest)") auto

declare send_rest.simps [simp del]

definition send_all :: "'n engine \<Rightarrow> string \<Rightarrow> 'n \<Rightarrow> int \<times> 'n" where
  "send_all E s n = send_rest E (length s) s n"

subsection \<open>Streaming a file\<close>

record read_stream =
  st_fd :: int
  st_chunk_size :: nat
  st_offset :: nat
  st_remaining :: int
  st_eof :: bool

text \<open>\<^verbatim>\<open>File::read\<close>: \<open>None\<close> when it throws.\<close>

definition file_read :: "'n engine \<Rightarrow> int \<Rightarrow> nat \<Rightarrow> nat \<Rightarrow> 'n \<Rightarrow> string option \<times> 'n" where
  "file_read E fd off len n =
     (if fd < 0 then (None, n) else if len = 0 then (Some [], n) else os_pread E fd len off n)"

definition advance_stream :: "nat \<Rightarrow> bool \<Rightarrow> read_stream \<Rightarrow> read_stream" where
  "advance_stream k eof s =
     s\<lparr>st_offset := st_offset s + k,
       st_remaining := (if 0 < st_remaining s then st_remaining s - int k else st_remaining s),
       st_eof := st_eof s \<or> eof\<rparr>"

text \<open>The result of \<^verbatim>\<open>next_chunk\<close>: an exception, the end of the file, or a chunk.\<close>

datatype chunk_read = Threw | NoChunk | Chunk string

definition next_chunk :: "'n engine \<Rightarrow> read_stream \<Rightarrow> 'n \<Rightarrow> chunk_read \<times> read_stream \<times> 'n" where
  "next_chunk E s n =
     (if st_eof s \<or> st_remaining s = 0 then (NoChunk, s, n)
      else
        let to_read = (if 0 < st_remaining s \<and> st_remaining s < int (st_chunk_size s) then nat (st_remaining s)
                       else st_chunk_size s)
        in case os_direct_block E (st_fd s) of
             Some block_size \<Rightarrow>
               let block_size = (if 0 < block_size then block_size else 4096);
                   aligned_offset = st_offset s div block_size * block_size;
                   offset_in_block = st_offset s - aligned_offset;
                   raw_len = (offset_in_block + to_read + block_size - 1) div block_size * block_size
               in (case file_read E (st_fd s) aligned_offset raw_len n of
                     (None, n) \<Rightarrow> (Threw, s, n)
                   | (Some d, n) \<Rightarrow>
                       if length d \<le> offset_in_block then (NoChunk, s\<lparr>st_eof := True\<rparr>, n)
                       else
                         let result_len = min to_read (length d - offset_in_block)
                         in (Chunk (take result_len (drop offset_in_block d)),
                             advance_stream result_len (length d < raw_len) s, n))
           | None \<Rightarrow>
               (case file_read E (st_fd s) (st_offset s) to_read n of
                  (None, n) \<Rightarrow> (Threw, s, n)
                | (Some d, n) \<Rightarrow>
                    if d = [] then (NoChunk, s\<lparr>st_eof := True\<rparr>, n)
                    else (Chunk d, advance_stream (length d) (length d < to_read) s, n)))"

partial_function (option) stream_loop :: "'n engine \<Rightarrow> read_stream \<Rightarrow> 'n \<Rightarrow> (bool \<times> 'n) option" where
  "stream_loop E s n =
     (case next_chunk E s n of
        (Threw, s, n) \<Rightarrow> Some (False, n)
      | (NoChunk, s, n) \<Rightarrow> Some (True, n)
      | (Chunk d, s, n) \<Rightarrow>
          (case send_all E d n of (sent, n) \<Rightarrow> if sent \<le> 0 then Some (False, n) else stream_loop E s n))"

text \<open>The loop of \<^verbatim>\<open>sendfile\<close> calls: whether it went without error, what remains, and the world.\<close>

partial_function (option) sendfile_loop :: "'n engine \<Rightarrow> int \<Rightarrow> nat \<Rightarrow> nat \<Rightarrow> 'n \<Rightarrow> (bool \<times> nat \<times> 'n) option" where
  "sendfile_loop E fd off remaining n =
     (if remaining = 0 then Some (True, 0, n)
      else
        (case os_sendfile E fd off (min remaining 1048576) n of
           (Sent k, n) \<Rightarrow>
             if 0 < k then sendfile_loop E fd (off + k) (remaining - k) n else Some (True, remaining, n)
         | (WouldBlock, n) \<Rightarrow> sendfile_loop E fd off remaining (eg_poll_out E n)
         | (Interrupted, n) \<Rightarrow> sendfile_loop E fd off remaining n
         | (SendfileFailed, n) \<Rightarrow> Some (False, remaining, n)))"

partial_function (option) pread_loop :: "'n engine \<Rightarrow> int \<Rightarrow> nat \<Rightarrow> nat \<Rightarrow> 'n \<Rightarrow> (bool \<times> 'n) option" where
  "pread_loop E fd off remaining n =
     (if remaining = 0 then Some (True, n)
      else
        (case os_pread E fd (min remaining 65536) off n of
           (None, n) \<Rightarrow> Some (False, n)
         | (Some d, n) \<Rightarrow>
             if d = [] then Some (False, n)
             else
               (case send_all E d n of
                  (sent, n) \<Rightarrow>
                    if sent \<le> 0 then Some (False, n)
                    else pread_loop E fd (off + length d) (remaining - length d) n)))"

definition stream_file :: "'n engine \<Rightarrow> string \<Rightarrow> nat \<Rightarrow> int option \<Rightarrow> 'n \<Rightarrow> (bool \<times> 'n) option" where
  "stream_file E file_path file_size file_handle n =
     (if file_size = 0 then Some (True, n)
      else do {
        let (file_fd, should_close, n) =
          (case file_handle of
             Some fd \<Rightarrow> if 0 \<le> fd then (fd, False, n)
                        else if file_path \<noteq> [] then case os_open E file_path n of (fd, n) \<Rightarrow> (fd, 0 \<le> fd, n)
                        else (- 1, False, n)
           | None \<Rightarrow> if file_path \<noteq> [] then case os_open E file_path n of (fd, n) \<Rightarrow> (fd, 0 \<le> fd, n)
                     else (- 1, False, n));
        (served, n) \<leftarrow>
          (if 0 \<le> file_fd then do {
             (good, remaining, n) \<leftarrow> sendfile_loop E file_fd 0 file_size n;
             Some (good \<and> remaining = 0, if should_close then os_close E file_fd n else n)
           } else Some (False, n));
        if served then Some (True, n)
        else
          (case file_handle of
             Some fd \<Rightarrow>
               stream_loop E \<lparr>st_fd = fd, st_chunk_size = 65536, st_offset = 0, st_remaining = int file_size, st_eof = False\<rparr> n
           | None \<Rightarrow>
               (case os_open E file_path n of
                  (fd, n) \<Rightarrow>
                    if fd < 0 then Some (False, n)
                    else do {
                      (good, n) \<leftarrow> pread_loop E fd 0 file_size n;
                      Some (good, os_close E fd n)
                    }))
      })"


subsection \<open>The pieces of the connection\<close>

definition error_response :: "simd_tier \<Rightarrow> status_code \<Rightarrow> string \<Rightarrow> response" where
  "error_response t code message =
     res_text t message (set_status code (res_header t ''Connection'' ''close'' initial_response))"

definition make_parse_error_response :: "simd_tier \<Rightarrow> parse_status \<Rightarrow> response option" where
  "make_parse_error_response t st =
     (case st of
        PUriTooLong \<Rightarrow> Some (error_response t UriTooLong ''URI Too Long: request URI exceeds limit'')
      | PHeadersTooLarge \<Rightarrow> Some (error_response t RequestHeaderFieldsTooLarge ''Request Header Fields Too Large'')
      | PPayloadTooLarge \<Rightarrow> Some (error_response t PayloadTooLarge ''Payload Too Large: maximum body size exceeded'')
      | PExpectationFailed \<Rightarrow> Some (error_response t ExpectationFailed ''Expectation Failed'')
      | PError \<Rightarrow> Some (error_response t BadRequest ''Bad Request'')
      | PNotImplemented \<Rightarrow> Some (error_response t NotImplemented ''Not Implemented'')
      | _ \<Rightarrow> None)"

definition evaluate_keep_alive :: "simd_tier \<Rightarrow> request \<Rightarrow> response \<Rightarrow> bool \<times> response" where
  "evaluate_keep_alive t req res =
     (let keep_alive =
        (case get_header t (rq_headers req) ''Connection'' of
           Some conn_hdr \<Rightarrow> \<not> iequals t conn_hdr ''close''
         | None \<Rightarrow> rq_version req \<noteq> Http1_0)
      in (keep_alive, if keep_alive then res else res_header t ''Connection'' ''close'' res))"

definition build_alt_svc_header :: "nat \<Rightarrow> bool \<Rightarrow> string" where
  "build_alt_svc_header port http3_enabled =
     (let q = [char_of (34 :: nat)]; p = to_chars 10 port
      in if http3_enabled
         then ''h3='' @ q @ '':'' @ p @ q @ ''; ma=86400, h2='' @ q @ '':'' @ p @ q @ ''; ma=86400''
         else ''h2='' @ q @ '':'' @ p @ q @ ''; ma=86400'')"

definition validate_websocket_upgrade :: "simd_tier \<Rightarrow> request \<Rightarrow> response option" where
  "validate_websocket_upgrade t req =
     (if get_header t (rq_headers req) ''Sec-WebSocket-Version'' = Some ''13'' then None
      else Some (res_text t ''Upgrade Required: Sec-WebSocket-Version 13 required''
             (res_header t ''Sec-WebSocket-Version'' ''13'' (set_status UpgradeRequired initial_response))))"

definition CLIENT_PREFACE :: string where
  "CLIENT_PREFACE = ''PRI * HTTP/2.0'' @ [CR, LF, CR, LF] @ ''SM'' @ [CR, LF, CR, LF]"

subsection \<open>State of a connection\<close>

text \<open>
  What handlers and the connection share besides request and response: the world, the responses not yet
  sent, and whether the headers of an event stream are out.
\<close>

record 'n conn =
  cn_net :: 'n
  cn_resp_batch :: string
  cn_sse_headers_sent :: bool

type_synonym ('v, 'n) h1_ctx = "('v, 'n conn) ctx"

definition with_net :: "('n \<Rightarrow> 'n) \<Rightarrow> ('v, 'n) h1_ctx \<Rightarrow> ('v, 'n) h1_ctx" where
  "with_net f c = c\<lparr>cx_world := (cx_world c)\<lparr>cn_net := f (cn_net (cx_world c))\<rparr>\<rparr>"

definition put :: "'n engine \<Rightarrow> string \<Rightarrow> ('v, 'n) h1_ctx \<Rightarrow> ('v, 'n) h1_ctx" where
  "put E s = with_net (\<lambda>n. snd (send_all E s n))"

definition batch :: "('v, 'n) h1_ctx \<Rightarrow> string" where
  "batch c = cn_resp_batch (cx_world c)"

definition set_batch :: "string \<Rightarrow> ('v, 'n) h1_ctx \<Rightarrow> ('v, 'n) h1_ctx" where
  "set_batch s c = c\<lparr>cx_world := (cx_world c)\<lparr>cn_resp_batch := s\<rparr>\<rparr>"

text \<open>
  The four ways the batch is flushed differ in what they do when the socket takes less than all of it:
  before an upgrade and before an event stream's first frame failures are ignored; before a file and at
  the end of a round both calls are checked; at the end of an event stream only the first.
\<close>

datatype flush_mode = Unchecked | CheckFirst | CheckBoth

definition flush_batch :: "flush_mode \<Rightarrow> 'n engine \<Rightarrow> ('v, 'n) h1_ctx \<Rightarrow> bool \<times> ('v, 'n) h1_ctx" where
  "flush_batch mode E c =
     (if batch c = [] then (True, c)
      else
        let (sent, n) = eg_send E (batch c) (cn_net (cx_world c)); c = with_net (\<lambda>_. n) c
        in if sent = to_int32 (length (batch c)) then (True, set_batch [] c)
           else if sent \<le> 0 then (if mode = Unchecked then (True, set_batch [] c) else (False, c))
           else
             let rest = drop (nat sent) (batch c); (rem, n) = send_all E rest n; c = with_net (\<lambda>_. n) c
             in if mode = CheckBoth \<and> rem \<noteq> to_int32 (length rest) then (False, c)
                else (True, set_batch [] c))"

definition date_now :: "'n engine \<Rightarrow> ('v, 'n) h1_ctx \<Rightarrow> string" where
  "date_now E c = eg_date E (cn_net (cx_world c))"

definition send_response :: "'n engine \<Rightarrow> response \<Rightarrow> ('v, 'n) h1_ctx \<Rightarrow> ('v, 'n) h1_ctx" where
  "send_response E res c = put E (serialize_response (date_now E c) res) c"

text \<open>The writer that \<^verbatim>\<open>ctx.sse()\<close> hands to a handler.\<close>

definition sse_write :: "'n engine \<Rightarrow> string \<Rightarrow> ('v, 'n) h1_ctx \<Rightarrow> ('v, 'n) h1_ctx" where
  "sse_write E frame c =
     (let c = (if cn_sse_headers_sent (cx_world c) then c
               else
                 let c = snd (flush_batch Unchecked E c);
                     c = put E (append_headers (date_now E c) (cx_res c) []) c
                 in c\<lparr>cx_world := (cx_world c)\<lparr>cn_sse_headers_sent := True\<rparr>\<rparr>)
      in put E (serialize_chunk frame []) c)"

subsection \<open>One request\<close>

datatype 'ws h1_exit =
    Closed
  | H2Direct string
  | H2Upgrade request string string
  | WebSocketUpgrade string 'ws string
  | Crashed fault

datatype 'ws h1_step = Advance nat bool | Break bool | Exit "'ws h1_exit"

definition refuse :: "'n engine \<Rightarrow> response \<Rightarrow> ('v, 'n) h1_ctx \<Rightarrow> 'ws h1_step \<times> ('v, 'n) h1_ctx" where
  "refuse E res c = (Break False, send_response E res c)"

definition upgrade_h2c :: "simd_tier \<Rightarrow> 'n engine \<Rightarrow> string \<Rightarrow> ('v, 'n) h1_ctx \<Rightarrow> 'ws h1_step \<times> ('v, 'n) h1_ctx" where
  "upgrade_h2c t E trailing c =
     (let c = snd (flush_batch Unchecked E c);
          c = put E (''HTTP/1.1 101 Switching Protocols'' @ [CR, LF] @ ''Connection: Upgrade'' @ [CR, LF] @
                     ''Upgrade: h2c'' @ [CR, LF, CR, LF]) c;
          settings = (case get_header t (rq_headers (cx_req c)) ''HTTP2-Settings'' of Some s \<Rightarrow> s | None \<Rightarrow> [])
      in (Exit (H2Upgrade (cx_req c) settings trailing), c))"

definition upgrade_websocket ::
    "simd_tier \<Rightarrow> (string \<Rightarrow> string) \<Rightarrow> (('v, 'n) h1_ctx, 'ws) router \<Rightarrow> 'n engine \<Rightarrow> string \<Rightarrow> ('v, 'n) h1_ctx \<Rightarrow>
     'ws h1_step \<times> ('v, 'n) h1_ctx" where
  "upgrade_websocket t sha1 r E trailing c =
     (let req = cx_req c
      in case validate_websocket_upgrade t req of
           Some ver_res \<Rightarrow> refuse E ver_res c
         | None \<Rightarrow>
             (case find_ws r (rq_path req) of
                None \<Rightarrow> refuse E (res_text t ''WebSocket endpoint not found'' (set_status NotFound initial_response)) c
              | Some ws_entry \<Rightarrow>
                  let key = (if rq_sec_websocket_key req = []
                             then case get_header t (rq_headers req) ''Sec-WebSocket-Key'' of Some k \<Rightarrow> k | None \<Rightarrow> []
                             else rq_sec_websocket_key req)
                  in if key = []
                     then refuse E (res_text t ''Missing Sec-WebSocket-Key'' (set_status BadRequest initial_response)) c
                     else
                       let c = snd (flush_batch Unchecked E c);
                           c = put E (build_handshake_response (compute_websocket_accept sha1 key)) c
                       in (Exit (WebSocketUpgrade (rq_path req) ws_entry trailing), c)))"

text \<open>Sending what the handler left in the response.\<close>

definition answer_file ::
    "'n engine \<Rightarrow> nat \<Rightarrow> bool \<Rightarrow> ('v, 'n) h1_ctx \<Rightarrow> ('ws h1_step \<times> ('v, 'n) h1_ctx) option" where
  "answer_file E consumed keep_alive c =
     (case flush_batch CheckBoth E c of
        (False, c) \<Rightarrow> Some (Break False, c)
      | (True, c) \<Rightarrow>
          let res = cx_res c; c = put E (append_headers (date_now E c) res []) c
          in if rq_method (cx_req c) \<noteq> HEAD \<and> 0 < rs_file_size res then
               do {
                 (good, n) \<leftarrow> stream_file E (rs_file_path res) (rs_file_size res) (rs_file_handle res) (cn_net (cx_world c));
                 let c = with_net (\<lambda>_. n) c;
                 Some (if good then Advance consumed keep_alive else Break False, c)
               }
             else Some (Advance consumed keep_alive, c))"

definition answer_sse :: "'n engine \<Rightarrow> nat \<Rightarrow> ('v, 'n) h1_ctx \<Rightarrow> 'ws h1_step \<times> ('v, 'n) h1_ctx" where
  "answer_sse E consumed c =
     (let (good, c) = (if cn_sse_headers_sent (cx_world c) then (True, c)
                       else case flush_batch CheckFirst E c of
                              (False, c) \<Rightarrow> (False, c)
                            | (True, c) \<Rightarrow>
                                let c = put E (append_headers (date_now E c) (cx_res c) []) c
                                in (True, c\<lparr>cx_world := (cx_world c)\<lparr>cn_sse_headers_sent := True\<rparr>\<rparr>))
      in if good then (Advance consumed False, put E (''0'' @ [CR, LF, CR, LF]) c) else (Break False, c))"

definition answer ::
    "simd_tier \<Rightarrow> (problem_details \<Rightarrow> string) \<Rightarrow> (('v, 'n) h1_ctx, 'ws) router \<Rightarrow> 'n engine \<Rightarrow> nat \<Rightarrow>
     ('v, 'n) h1_ctx \<Rightarrow> ('ws h1_step \<times> ('v, 'n) h1_ctx) option" where
  "answer t to_json r E consumed c =
     (let c = c\<lparr>cx_world := (cx_world c)\<lparr>cn_sse_headers_sent := False\<rparr>\<rparr>;
          c = serve_request t to_json r c;
          (keep_alive, res) = evaluate_keep_alive t (cx_req c) (cx_res c);
          c = c\<lparr>cx_res := res\<rparr>
      in if rs_is_file res then answer_file E consumed keep_alive c
         else if rs_is_sse res then Some (answer_sse E consumed c)
         else
           Some (Advance consumed keep_alive,
             set_batch (if rq_method (cx_req c) = HEAD then append_headers (date_now E c) res (batch c)
                        else append_response (date_now E c) res (batch c)) c))"

definition serve_one ::
    "simd_tier \<Rightarrow> (string \<Rightarrow> string) \<Rightarrow> (problem_details \<Rightarrow> string) \<Rightarrow> protocol_limits \<Rightarrow>
     (('v, 'n) h1_ctx, 'ws) router \<Rightarrow> 'n engine \<Rightarrow> string \<Rightarrow> ('v, 'n) h1_ctx \<Rightarrow> ('ws h1_step \<times> ('v, 'n) h1_ctx) option" where
  "serve_one t sha1 to_json limits r E unparsed c =
     (case parse t limits unparsed (reset (cx_req c)) of
        Faulted f \<Rightarrow> Some (Exit (Crashed f), c)
      | Returned st req consumed \<Rightarrow>
          let c = c\<lparr>cx_req := req\<rparr>
          in if st = PNeedMoreData then
               Some (Break True,
                 if rq_expect_continue req
                 then put E (''HTTP/1.1 100 Continue'' @ [CR, LF, CR, LF]) (c\<lparr>cx_req := req\<lparr>rq_expect_continue := False\<rparr>\<rparr>)
                 else c)
             else case make_parse_error_response t st of
                    Some err_res \<Rightarrow> Some (refuse E err_res c)
                  | None \<Rightarrow>
                      if rq_upgrade_h2c req then Some (upgrade_h2c t E (drop consumed unparsed) c)
                      else if rq_websocket_upgrade req
                      then Some (upgrade_websocket t sha1 r E (drop consumed unparsed) c)
                      else answer t to_json r E consumed c)"

subsection \<open>The loops\<close>

text \<open>
  The loop over the requests of a buffer: the exit if one was taken, whether the connection stays open,
  the offset reached and whether the next packet is still the first.
\<close>

partial_function (option) request_loop ::
    "simd_tier \<Rightarrow> (string \<Rightarrow> string) \<Rightarrow> (problem_details \<Rightarrow> string) \<Rightarrow> protocol_limits \<Rightarrow>
     (('v, 'n) h1_ctx, 'ws) router \<Rightarrow> 'n engine \<Rightarrow> string \<Rightarrow> bool \<Rightarrow> nat \<Rightarrow> ('v, 'n) h1_ctx \<Rightarrow>
     ('ws h1_exit option \<times> bool \<times> nat \<times> bool \<times> ('v, 'n) h1_ctx) option" where
  "request_loop t sha1 to_json limits r E accum first offset c =
     (if offset < length accum then
        if first \<and> starts_with (drop offset accum) CLIENT_PREFACE
        then Some (Some (H2Direct (drop offset accum)), True, offset, False, c)
        else do {
          (step, c) \<leftarrow> serve_one t sha1 to_json limits r E (drop offset accum) c;
          case step of
            Exit e \<Rightarrow> Some (Some e, True, offset, False, c)
          | Break keep_alive \<Rightarrow> Some (None, keep_alive, offset, False, c)
          | Advance consumed keep_alive \<Rightarrow>
              if keep_alive then request_loop t sha1 to_json limits r E accum False (offset + consumed) c
              else Some (None, False, offset + consumed, False, c)
        }
      else Some (None, True, offset, first, c))"

partial_function (option) run_loop ::
    "simd_tier \<Rightarrow> (string \<Rightarrow> string) \<Rightarrow> (problem_details \<Rightarrow> string) \<Rightarrow> protocol_limits \<Rightarrow>
     (('v, 'n) h1_ctx, 'ws) router \<Rightarrow> 'n engine \<Rightarrow> string \<Rightarrow> bool \<Rightarrow> ('v, 'n) h1_ctx \<Rightarrow>
     ('ws h1_exit \<times> ('v, 'n) h1_ctx) option" where
  "run_loop t sha1 to_json limits r E accum first c =
     (case eg_recv E (cn_net (cx_world c)) of
        (NoBuffers, n) \<Rightarrow> run_loop t sha1 to_json limits r E accum first (with_net (\<lambda>_. eg_timeout E n) c)
      | (Gone, n) \<Rightarrow> Some (Closed, with_net (\<lambda>_. eg_close E n) c)
      | (Received s, n) \<Rightarrow>
          do {
            (ex, keep_alive, offset, first, c) \<leftarrow>
              request_loop t sha1 to_json limits r E (accum @ s) first 0 (with_net (\<lambda>_. n) c);
            case ex of
              Some e \<Rightarrow> Some (e, c)
            | None \<Rightarrow>
                (case flush_batch CheckBoth E c of
                   (good, c) \<Rightarrow>
                     if good \<and> keep_alive then run_loop t sha1 to_json limits r E (drop offset (accum @ s)) first c
                     else Some (Closed, with_net (eg_close E) c))
          })"

definition fresh_conn :: "'n \<Rightarrow> ('v, 'n) h1_ctx" where
  "fresh_conn n = \<lparr>cx_req = initial_request, cx_res = initial_response, cx_local_store = Map.empty,
     cx_world = \<lparr>cn_net = n, cn_resp_batch = [], cn_sse_headers_sent = False\<rparr>\<rparr>"

definition run_connection ::
    "simd_tier \<Rightarrow> (string \<Rightarrow> string) \<Rightarrow> (problem_details \<Rightarrow> string) \<Rightarrow> protocol_limits \<Rightarrow>
     (('v, 'n) h1_ctx, 'ws) router \<Rightarrow> 'n engine \<Rightarrow> 'n \<Rightarrow> ('ws h1_exit \<times> ('v, 'n) h1_ctx) option" where
  "run_connection t sha1 to_json limits r E n = run_loop t sha1 to_json limits r E [] True (fresh_conn n)"

end
