(* ===== verification/Http1_Connection_Proofs.thy ===== *)
theory Http1_Connection_Proofs
  imports Http1_Connection Http1_Parser_Proofs
begin

text \<open>
  The connection as a whole: how the parser, the router and the serialiser work together on a byte stream
  that arrives in pieces.
\<close>

subsection \<open>Incomplete requests\<close>

lemma find_crlf_prefix:
  assumes "find_crlf t (b @ u) c = Some h"
  shows "find_crlf t b c = (if h + 2 \<le> length b then Some h else None)"
proof (cases "find_crlf t b c")
  case None
  have "h + 2 > length b"
  proof (rule ccontr)
    assume "\<not> length b < h + 2"
    then have "starts_with (drop h b) crlf"
      using crlf_scan.hit [OF assms] by (simp add: starts_with_def substr_def crlf_def)
    then show False using None crlf_scan.found_iff [of t b c] crlf_scan.bound [OF assms] \<open>\<not> length b < h + 2\<close>
      by (auto simp: crlf_def)
  qed
  then show ?thesis using None by simp
next
  case (Some x)
  then show ?thesis using crlf_scan.append_stable [OF Some, of u] crlf_scan.bound [OF Some] assms by (simp add: crlf_def)
qed

lemma substr_crlf_nth: "substr s c 2 = crlf \<Longrightarrow> c + 2 \<le> length s \<Longrightarrow> s ! c = CR \<and> s ! (c + 1) = LF"
  by (auto simp: substr_def crlf_def numeral_2_eq_2 take_Suc_conv_app_nth)

lemma header_field_expect:
  "header_field t limits n v req hs = Inr (req', hs') \<Longrightarrow> rq_expect_continue req \<Longrightarrow> rq_expect_continue req'"
  by (auto simp: header_field_def split: if_splits option.splits)

lemma header_loop_expect:
  "header_loop t limits b e c req hs = Inr (req', hs', c') \<Longrightarrow> rq_expect_continue req \<Longrightarrow> rq_expect_continue req'"
proof (induction "length b - c" arbitrary: c req hs rule: less_induct)
  case less
  from less.prems(1) show ?case
  proof (cases rule: header_loop_cases)
    case (field header_end n v req1 hs1)
    have "length b - (header_end + 2) < length b - c" using field(2,3) by linarith
    from less.hyps [OF this field(7)] show ?thesis using header_field_expect [OF field(6)] less.prems(2) by simp
  qed (use less.prems in simp)
qed

text \<open>
  On a prefix of a buffer whose header section is complete, the header loop either finds the same or asks
  for more.
\<close>

lemma header_loop_prefix:
  assumes "header_loop t limits (b @ u) e c req hs = Inr (req', hs', c')"
  shows "header_loop t limits b e c req hs = Inr (req', hs', c') \<and> c' \<le> length b \<or>
    (\<exists>r. header_loop t limits b e c req hs = Inl (PNeedMoreData, r) \<and> (rq_expect_continue r \<longrightarrow> rq_expect_continue req'))"
  using assms
proof (induction "length (b @ u) - c" arbitrary: c req hs rule: less_induct)
  case less
  have ex: "rq_expect_continue req \<longrightarrow> rq_expect_continue req'" using header_loop_expect [OF less.prems] by simp
  have small: "\<not> max_headers_size limits < c - e" "\<not> max_header_count limits \<le> header_count (rq_headers req)"
    using less.prems by (auto simp: header_loop.simps [of t limits _ e c] split: if_splits)
  show ?case
  proof (cases "length b \<le> c \<or> (b ! c = CR \<and> c + 1 = length b)")
    case True
    then have "header_loop t limits b e c req hs = Inl (PNeedMoreData, req)"
      using small by (subst header_loop.simps) auto
    then show ?thesis using ex by blast
  next
    case False
    then have c: "c < length b" "(b @ u) ! c = b ! c" by (auto simp: nth_append)
    from less.prems show ?thesis
    proof (cases rule: header_loop_cases)
      case blank
      then have "(b @ u) ! c = CR" "(b @ u) ! (c + 1) = LF"
        using substr_crlf_nth [OF blank(2,1)] by simp_all
      moreover from this have "c + 2 \<le> length b" using False c by auto
      ultimately have "header_loop t limits b e c req hs = Inr (req, hs, c + 2)"
        using small c by (subst header_loop.simps) (auto simp: nth_append)
      then show ?thesis using blank \<open>c + 2 \<le> length b\<close> by simp
    next
      case (field h n v req1 hs1)
      have after: "\<not> max_headers_size limits < h + 2 - e"
        using field(7) by (subst (asm) header_loop.simps) (auto split: if_splits)
      have nb: "\<not> (c + 2 \<le> length b \<and> b ! c = CR \<and> b ! (c + 1) = LF)"
      proof
        assume a: "c + 2 \<le> length b \<and> b ! c = CR \<and> b ! (c + 1) = LF"
        then have "starts_with (drop c (b @ u)) crlf" by (simp add: starts_with_crlf nth_append del: drop_append)
        then have "h = c" using crlf_scan.first [OF field(1), of c] field(2) by force
        then show False using field(5) by (simp add: header_line_def find_char_correct substr_def sv_find_def)
      qed
      show ?thesis
      proof (cases "h + 2 \<le> length b")
        case True
        have l: "substr (b @ u) c (h - c) = substr b c (h - c)" using True field(2) by (intro substr_append) simp
        have "header_loop t limits b e c req hs = header_loop t limits b e (h + 2) req1 hs1"
          using small nb False c True field find_crlf_prefix [OF field(1)]
          by (subst header_loop.simps) (auto simp: l Let_def)
        moreover have "length (b @ u) - (h + 2) < length (b @ u) - c" using field(2,3) by linarith
        ultimately show ?thesis using less.hyps [OF _ field(7)] by simp
      next
        case out: False
        then have "header_loop t limits b e c req hs = Inl (PNeedMoreData, req)"
          using small nb False c find_crlf_prefix [OF field(1)] after by (subst header_loop.simps) auto
        then show ?thesis using ex by blast
      qed
    qed
  qed
qed

lemma parse_prefix:
  assumes "parse t limits (b @ u) req = Returned PComplete req' n"
    and "name_count ''Transfer-Encoding'' req' = 0" and "length (b @ u) < 2 ^ 63" and "length b < n"
  shows "\<exists>r. parse t limits b req = Returned PNeedMoreData r 0 \<and>
    (rq_expect_continue r \<longrightarrow> rq_expect_continue req' \<or> rq_expect_continue req)"
proof -
  from assms(1) obtain e req1 req2 hs c where ph:
    "find_crlf t (b @ u) 0 = Some e" "parse_request_line t limits (take e (b @ u)) req = Inr req1"
    "header_loop t limits (b @ u) e (e + 2) (clear_header_fields req1) initial_header_state = Inr (req2, hs, c)"
    "\<not> (rq_version req2 = Http1_1 \<and> \<not> hs_has_host hs)"
    "\<not> (hs_has_content_length hs \<and> hs_has_transfer_encoding hs)"
    "parse_body t limits (b @ u) req2 hs c = Returned PComplete req' n"
    by (rule parse_phases) auto
  note hl = header_loop_inv [OF ph(3) framing_inv_start]
  have c: "c \<le> length (b @ u)" and cl: "hs_content_length hs \<le> max_body_size limits"
    using hl by (auto simp: framing_inv_def)
  have "name_count ''Transfer-Encoding'' req2 = 0"
    using assms(2) name_count_headers [OF parse_body_Complete(4) [OF ph(6) assms(3) c cl]] by simp
  then have nochunk: "\<not> hs_is_chunked hs" using hl by (simp add: framing_inv_def)
  have body: "rq_expect_continue req' = rq_expect_continue req2"
    "n = c + (if hs_has_content_length hs then hs_content_length hs else 0)"
    using ph(6) nochunk by (auto simp: parse_body_def split: if_splits)
  show ?thesis
  proof (cases "e + 2 \<le> length b")
    case False
    then have "parse t limits b req = Returned PNeedMoreData req 0"
      using find_crlf_prefix [OF ph(1)] by (simp add: parse_def)
    then show ?thesis by blast
  next
    case True
    have f: "find_crlf t b 0 = Some e" "parse_request_line t limits (take e b) req = Inr req1"
      using find_crlf_prefix [OF ph(1)] ph(2) True by simp_all
    from header_loop_prefix [OF ph(3)] consider
      (same) "header_loop t limits b e (e + 2) (clear_header_fields req1) initial_header_state = Inr (req2, hs, c)" "c \<le> length b"
      | (more) r where "header_loop t limits b e (e + 2) (clear_header_fields req1) initial_header_state = Inl (PNeedMoreData, r)"
        "rq_expect_continue r \<longrightarrow> rq_expect_continue req2" by blast
    then show ?thesis
    proof cases
      case same
      then have "parse_body t limits b req2 hs c = Returned PNeedMoreData req2 0"
        using nochunk assms(4) body(2) by (auto simp: parse_body_def split: if_splits)
      then have "parse t limits b req = Returned PNeedMoreData req2 0" using f same ph(4,5) by (simp add: parse_def)
      then show ?thesis using body(1) by simp
    next
      case more
      then have "parse t limits b req = Returned PNeedMoreData r 0" using f by (simp add: parse_def)
      then show ?thesis using more(2) body(1) by simp
    qed
  qed
qed


subsection \<open>A faithful network\<close>

text \<open>
  What the engine promises: the segments still to come arrive in order and then the peer is gone; a send
  takes at least one byte and appends what it took to what the peer has received.
\<close>

definition delivers :: "'n engine \<Rightarrow> ('n \<Rightarrow> string list) \<Rightarrow> ('n \<Rightarrow> string) \<Rightarrow> bool" where
  "delivers E inp out \<longleftrightarrow>
     (\<forall>n. case inp n of
            [] \<Rightarrow> \<exists>n'. eg_recv E n = (Gone, n') \<and> out n' = out n
          | s # rest \<Rightarrow> \<exists>n'. eg_recv E n = (Received s, n') \<and> inp n' = rest \<and> out n' = out n) \<and>
     (\<forall>s n. s \<noteq> [] \<longrightarrow>
        (\<exists>k n'. eg_send E s n = (int k, n') \<and> 0 < k \<and> k \<le> length s \<and> out n' = out n @ take k s \<and> inp n' = inp n)) \<and>
     (\<forall>n. out (eg_close E n) = out n)"

lemma delivers_recv:
  assumes "delivers E inp out"
  shows "inp n = [] \<Longrightarrow> \<exists>n'. eg_recv E n = (Gone, n') \<and> out n' = out n"
    and "inp n = s # rest \<Longrightarrow> \<exists>n'. eg_recv E n = (Received s, n') \<and> inp n' = rest \<and> out n' = out n"
proof -
  have "case inp n of [] \<Rightarrow> \<exists>n'. eg_recv E n = (Gone, n') \<and> out n' = out n
      | s # rest \<Rightarrow> \<exists>n'. eg_recv E n = (Received s, n') \<and> inp n' = rest \<and> out n' = out n"
    using assms unfolding delivers_def by blast
  then show "inp n = [] \<Longrightarrow> \<exists>n'. eg_recv E n = (Gone, n') \<and> out n' = out n"
    and "inp n = s # rest \<Longrightarrow> \<exists>n'. eg_recv E n = (Received s, n') \<and> inp n' = rest \<and> out n' = out n"
    by simp_all
qed

lemma to_int32_id: "n < 2 ^ 31 \<Longrightarrow> to_int32 n = int n"
  by (simp add: to_int32_def)

lemma send_rest_delivers:
  assumes "delivers E inp out"
  shows "\<exists>n'. send_rest E len rest n = (to_int32 len, n') \<and> out n' = out n @ rest \<and> inp n' = inp n"
proof (induction "length rest" arbitrary: rest n rule: less_induct)
  case less
  show ?case
  proof (cases "rest = []")
    case False
    obtain k n1 where k: "eg_send E rest n = (int k, n1)" "0 < k" "k \<le> length rest" "out n1 = out n @ take k rest" "inp n1 = inp n"
      using assms False unfolding delivers_def by blast
    have "length (drop k rest) < length rest" using k(2) False by simp
    from less [OF this, of n1] obtain n' where
      "send_rest E len (drop k rest) n1 = (to_int32 len, n')" "out n' = out n1 @ drop k rest" "inp n' = inp n1" by blast
    then show ?thesis using k False by (subst send_rest.simps) auto
  qed (simp add: send_rest.simps)
qed

lemma flush_delivers:
  assumes "delivers E inp out" "length (batch c) < 2 ^ 31"
  shows "\<exists>n'. flush_batch mode E c = (True, set_batch [] (with_net (\<lambda>_. n') c)) \<and>
    out n' = out (cn_net (cx_world c)) @ batch c \<and> inp n' = inp (cn_net (cx_world c))"
proof (cases "batch c = []")
  case True
  then have "set_batch [] (with_net (\<lambda>_. cn_net (cx_world c)) c) = c" by (simp add: set_batch_def with_net_def batch_def)
  then show ?thesis using True by (intro exI [of _ "cn_net (cx_world c)"]) (simp add: flush_batch_def)
next
  case False
  let ?n = "cn_net (cx_world c)"
  obtain k n1 where k: "eg_send E (batch c) ?n = (int k, n1)" "0 < k" "k \<le> length (batch c)"
    "out n1 = out ?n @ take k (batch c)" "inp n1 = inp ?n" using assms(1) False unfolding delivers_def by blast
  have b: "batch (with_net f c) = batch c" for f by (simp add: batch_def with_net_def)
  have w: "with_net (\<lambda>_. x) (with_net (\<lambda>_. y) c) = with_net (\<lambda>_. x) c" for x y by (simp add: with_net_def)
  obtain n2 where n2: "send_all E (drop k (batch c)) n1 = (to_int32 (length (drop k (batch c))), n2)"
    "out n2 = out n1 @ drop k (batch c)" "inp n2 = inp n1"
    using send_rest_delivers [OF assms(1)] unfolding send_all_def by blast
  show ?thesis
  proof (cases "k = length (batch c)")
    case True
    then show ?thesis using k False to_int32_id [OF assms(2)]
      by (intro exI [of _ n1]) (simp add: flush_batch_def b)
  next
    case less: False
    then have "int k \<noteq> to_int32 (length (batch c))" using to_int32_id [OF assms(2)] by simp
    then show ?thesis using k n2 False
      by (intro exI [of _ n2]) (simp add: flush_batch_def b w)
  qed
qed

subsection \<open>Pipelined requests\<close>

lemma starts_with_extend: "starts_with p x \<Longrightarrow> starts_with (p @ u) x"
  by (metis append.assoc append_eq_conv_conj append_take_drop_id starts_with_def)

lemma reset_initial: "reset q = initial_request"
  by (simp add: reset_def initial_request_def clear_def empty_map_def)

text \<open>A request as sent: complete, not chunked, no upgrade and no expectation; and it keeps the connection open.\<close>

definition plain_wire :: "simd_tier \<Rightarrow> protocol_limits \<Rightarrow> string \<times> request \<Rightarrow> bool" where
  "plain_wire t limits w \<longleftrightarrow>
     parse t limits (fst w) initial_request = Returned PComplete (snd w) (length (fst w)) \<and>
     name_count ''Transfer-Encoding'' (snd w) = 0 \<and> \<not> rq_expect_continue (snd w) \<and>
     \<not> rq_upgrade_h2c (snd w) \<and> \<not> rq_websocket_upgrade (snd w) \<and>
     fst (evaluate_keep_alive t (snd w) initial_response)"

text \<open>
  The application answers the requests of a set from the request alone, with an ordinary response, and
  leaves the method, the version and the headers of the request alone.
\<close>

definition serves ::
    "simd_tier \<Rightarrow> (problem_details \<Rightarrow> string) \<Rightarrow> (('v, 'n) h1_ctx, 'ws) router \<Rightarrow> request set \<Rightarrow>
     (request \<Rightarrow> response) \<Rightarrow> bool" where
  "serves t to_json r Q f \<longleftrightarrow>
     (\<forall>c. cx_req c \<in> Q \<longrightarrow>
        (let c' = serve_request t to_json r c; q = cx_req c; q' = cx_req c'
         in cx_world c' = cx_world c \<and> cx_res c' = f q \<and> \<not> rs_is_file (f q) \<and> \<not> rs_is_sse (f q) \<and>
            rq_method q' = rq_method q \<and> rq_version q' = rq_version q \<and> rq_headers q' = rq_headers q))"

definition response_wire :: "string \<Rightarrow> (request \<Rightarrow> response) \<Rightarrow> request \<Rightarrow> string" where
  "response_wire d f q = (if rq_method q = HEAD then append_headers d (f q) [] else append_response d (f q) [])"

lemma append_headers_prefix: "append_headers d res acc = acc @ append_headers d res []"
  by (simp add: append_headers_def)

lemma append_response_prefix: "append_response d res acc = acc @ append_response d res []"
  by (simp add: append_response_def append_headers_prefix [of d res acc] Let_def serialize_chunk_end_def serialize_chunk_def)

lemma keep_alive_res: "fst (evaluate_keep_alive t q res) = fst (evaluate_keep_alive t q initial_response)"
  by (simp add: evaluate_keep_alive_def Let_def)

lemma answer_plain:
  assumes "serves t to_json r Q f" "cx_req c \<in> Q" "fst (evaluate_keep_alive t (cx_req c) initial_response)"
    and "\<And>n. eg_date E n = d"
  shows "\<exists>c'. answer t to_json r E k c = Some (Advance k True, c') \<and>
    cn_net (cx_world c') = cn_net (cx_world c) \<and> batch c' = batch c @ response_wire d f (cx_req c)"
proof -
  let ?c = "c\<lparr>cx_world := (cx_world c)\<lparr>cn_sse_headers_sent := False\<rparr>\<rparr>"
  let ?s = "serve_request t to_json r ?c"
  have q: "cx_req ?c = cx_req c" by simp
  have s: "cx_world ?s = cx_world ?c" "cx_res ?s = f (cx_req c)" "\<not> rs_is_file (f (cx_req c))" "\<not> rs_is_sse (f (cx_req c))"
    "rq_method (cx_req ?s) = rq_method (cx_req c)" "rq_version (cx_req ?s) = rq_version (cx_req c)"
    "rq_headers (cx_req ?s) = rq_headers (cx_req c)"
    using assms(1,2) q unfolding serves_def Let_def by metis+
  have "evaluate_keep_alive t (cx_req ?s) (f (cx_req c)) = (True, f (cx_req c))"
    using assms(3) s(6,7) by (simp add: evaluate_keep_alive_def Let_def split: option.splits)
  then show ?thesis
    using s assms(4) append_headers_prefix [of d "f (cx_req c)" "batch c"] append_response_prefix [of d "f (cx_req c)" "batch c"]
    by (simp add: answer_def date_now_def set_batch_def batch_def response_wire_def)
qed


lemma serve_plain:
  assumes "plain_wire t limits (w, q)" "serves t to_json r Q f" "q \<in> Q" "\<And>n. eg_date E n = d" "length w < 2 ^ 62"
  shows "\<exists>c'. serve_one t sha1 to_json limits r E (w @ u) c = Some (Advance (length w) True, c') \<and>
    cn_net (cx_world c') = cn_net (cx_world c) \<and> batch c' = batch c @ response_wire d f q"
proof -
  have "parse t limits (w @ u) initial_request = Returned PComplete q (length w)"
    by (rule parse_append) (use assms(1,5) in \<open>auto simp: plain_wire_def\<close>)
  moreover obtain c' where "answer t to_json r E (length w) (c\<lparr>cx_req := q\<rparr>) = Some (Advance (length w) True, c')"
    "cn_net (cx_world c') = cn_net (cx_world c)" "batch c' = batch c @ response_wire d f q"
    using answer_plain [OF assms(2), of "c\<lparr>cx_req := q\<rparr>" E d "length w"] assms(1,3,4)
    by (auto simp: plain_wire_def batch_def)
  ultimately show ?thesis using assms(1)
    by (simp add: serve_one_def reset_initial make_parse_error_response_def plain_wire_def)
qed

lemma serve_partial:
  assumes "plain_wire t limits (w, q)" "w = p @ u" "u \<noteq> []" "length w < 2 ^ 62"
  shows "\<exists>c'. serve_one t sha1 to_json limits r E p c = Some (Break True, c') \<and> cx_world c' = cx_world c"
proof -
  have "parse t limits (p @ u) initial_request = Returned PComplete q (length w)" using assms(1,2) by (simp add: plain_wire_def)
  then obtain r' where "parse t limits p initial_request = Returned PNeedMoreData r' 0" "\<not> rq_expect_continue r'"
    using parse_prefix [of t limits p u initial_request q "length w"] assms by (auto simp: plain_wire_def initial_request_def)
  then show ?thesis by (simp add: serve_one_def reset_initial)
qed

lemma plain_wire_nonempty: "plain_wire t limits (w, q) \<Longrightarrow> length w < 2 ^ 62 \<Longrightarrow> w \<noteq> []"
  using parse_Complete [of t limits w initial_request q "length w"] by (fastforce simp: plain_wire_def)

text \<open>
  The requests of the current buffer: the whole ones are answered in order into the batch, and what is
  left is less than the next request.
\<close>

definition short_of :: "string \<Rightarrow> (string \<times> request) list \<Rightarrow> bool" where
  "short_of p ws \<longleftrightarrow> (case ws of [] \<Rightarrow> p = [] | w # _ \<Rightarrow> length p < length (fst w))"

lemma request_loop_plain:
  assumes "list_all (\<lambda>w. plain_wire t limits w \<and> snd w \<in> Q \<and> length (fst w) < 2 ^ 62) ws"
    and "serves t to_json r Q f" "\<And>n. eg_date E n = d"
    and "drop offset accum @ rest = concat (map fst ws)" "offset \<le> length accum"
    and "first \<Longrightarrow> \<not> starts_with (concat (map fst ws)) CLIENT_PREFACE"
  shows "\<exists>done ws' offset' first' c'. ws = done @ ws' \<and>
    request_loop t sha1 to_json limits r E accum first offset c = Some (None, True, offset', first', c') \<and>
    drop offset' accum @ rest = concat (map fst ws') \<and> short_of (drop offset' accum) ws' \<and>
    (first' \<longrightarrow> first \<and> done = []) \<and>
    cn_net (cx_world c') = cn_net (cx_world c) \<and> batch c' = batch c @ concat (map (response_wire d f \<circ> snd) done)"
  using assms
proof (induction ws arbitrary: offset first c)
  case Nil
  then show ?case
    by (intro exI [of _ "[]"] exI [of _ "[]"] exI [of _ offset] exI [of _ first] exI [of _ c]) (simp add: short_of_def request_loop.simps [of t sha1 to_json limits r E accum])
next
  case (Cons wq ws)
  obtain w q where wq: "wq = (w, q)" by (cases wq)
  let ?p = "drop offset accum"
  have w: "plain_wire t limits (w, q)" "q \<in> Q" "length w < 2 ^ 62" using Cons.prems(1) wq by auto
  show ?case
  proof (cases "offset < length accum")
    case False
    then show ?thesis using plain_wire_nonempty [OF w(1,3)] Cons.prems(4)
      by - (rule exI [of _ "[]"], rule exI [of _ "wq # ws"], rule exI [of _ offset], rule exI [of _ first], rule exI [of _ c],
        simp add: short_of_def wq request_loop.simps [of t sha1 to_json limits r E accum])
  next
    case True
    have np: "\<not> (first \<and> starts_with ?p CLIENT_PREFACE)"
      using Cons.prems(6) starts_with_extend [of ?p CLIENT_PREFACE rest] unfolding Cons.prems(4) by blast
    show ?thesis
    proof (cases "length w \<le> length ?p")
      case whole: True
      then obtain u where u: "?p = w @ u" using Cons.prems(4) wq by (metis append_eq_append_conv_if append_take_drop_id concat.simps(2) fst_conv list.simps(9))
      obtain c1 where c1: "serve_one t sha1 to_json limits r E ?p c = Some (Advance (length w) True, c1)"
        "cn_net (cx_world c1) = cn_net (cx_world c)" "batch c1 = batch c @ response_wire d f q"
        using serve_plain [OF w(1) Cons.prems(2) w(2) Cons.prems(3) w(3)] u by metis
      have d: "drop (offset + length w) accum = u" using u by (metis append_eq_conv_conj drop_drop add.commute)
      have "offset + length w \<le> length accum" using whole True by simp
      moreover have "list_all (\<lambda>w. plain_wire t limits w \<and> snd w \<in> Q \<and> length (fst w) < 2 ^ 62) ws"
        "drop (offset + length w) accum @ rest = concat (map fst ws)" using Cons.prems(1,4) u d wq by simp_all
      ultimately obtain dn ws' offset' first' c' where r: "ws = dn @ ws'"
        "request_loop t sha1 to_json limits r E accum False (offset + length w) c1 = Some (None, True, offset', first', c')"
        "drop offset' accum @ rest = concat (map fst ws')" "short_of (drop offset' accum) ws'" "first' \<longrightarrow> False \<and> dn = []"
        "cn_net (cx_world c') = cn_net (cx_world c1)" "batch c' = batch c1 @ concat (map (response_wire d f \<circ> snd) dn)"
        using Cons.IH [OF _ Cons.prems(2,3), of "offset + length w" False c1] by blast
      have "request_loop t sha1 to_json limits r E accum first offset c = Some (None, True, offset', first', c')"
        using True np c1(1) r(2) by (subst request_loop.simps) auto
      then show ?thesis using r c1 wq
        by - (rule exI [of _ "(w, q) # dn"], rule exI [of _ ws'], rule exI [of _ offset'], rule exI [of _ first'], rule exI [of _ c'], simp add: comp_def)
    next
      case part: False
      obtain u where u: "w = ?p @ u" using Cons.prems(4) wq part
        by (metis append_eq_append_conv2 concat.simps(2) fst_conv length_append le_add1 list.simps(9) nat_le_linear)
      then have "u \<noteq> []" using part by auto
      then obtain c1 where c1: "serve_one t sha1 to_json limits r E ?p c = Some (Break True, c1)" "cx_world c1 = cx_world c"
        using serve_partial [OF w(1) u _ w(3)] by blast
      then have "request_loop t sha1 to_json limits r E accum first offset c = Some (None, True, offset, False, c1)"
        using True np by (subst request_loop.simps) auto
      then show ?thesis using Cons.prems(4) part wq c1(2)
        by - (rule exI [of _ "[]"], rule exI [of _ "wq # ws"], rule exI [of _ offset], rule exI [of _ False], rule exI [of _ c1], simp add: short_of_def batch_def)
    qed
  qed
qed


lemma run_loop_plain:
  assumes "delivers E inp out" "serves t to_json r Q f" "\<And>n. eg_date E n = d"
    and "list_all (\<lambda>w. plain_wire t limits w \<and> snd w \<in> Q \<and> length (fst w) < 2 ^ 62) ws"
    and "accum @ concat (inp (cn_net (cx_world c))) = concat (map fst ws)" "short_of accum ws" "batch c = []"
    and "first \<Longrightarrow> \<not> starts_with (concat (map fst ws)) CLIENT_PREFACE"
    and "length (concat (map (response_wire d f \<circ> snd) ws)) < 2 ^ 31"
  shows "\<exists>c'. run_loop t sha1 to_json limits r E accum first c = Some (Closed, c') \<and>
    out (cn_net (cx_world c')) = out (cn_net (cx_world c)) @ concat (map (response_wire d f \<circ> snd) ws)"
  using assms(4-)
proof (induction "inp (cn_net (cx_world c))" arbitrary: ws accum first c)
  case Nil
  obtain n' where n: "eg_recv E (cn_net (cx_world c)) = (Gone, n')" "out n' = out (cn_net (cx_world c))"
    using delivers_recv(1) [OF assms(1) Nil(1) [symmetric]] by blast
  have "ws = []" using Nil(1,3,4) by (cases ws) (auto simp: short_of_def)
  moreover have "out (eg_close E n') = out n'" using assms(1) by (simp add: delivers_def)
  ultimately show ?case using n by (subst run_loop.simps) (simp add: with_net_def)
next
  case (Cons s segs)
  obtain n1 where n1: "eg_recv E (cn_net (cx_world c)) = (Received s, n1)" "inp n1 = segs" "out n1 = out (cn_net (cx_world c))"
    using delivers_recv(2) [OF assms(1) Cons(2) [symmetric]] by blast
  let ?c = "with_net (\<lambda>_. n1) c"
  have net: "cn_net (cx_world ?c) = n1" "batch ?c = []" using Cons.prems(4) by (simp_all add: with_net_def batch_def)
  have "drop 0 (accum @ s) @ concat segs = concat (map fst ws)" using Cons.prems(2) Cons(2) [symmetric] by simp
  from request_loop_plain [OF Cons.prems(1) assms(2,3) this _ Cons.prems(5), of first sha1 ?c]
  obtain dn ws' offset' first' c1 where r: "ws = dn @ ws'"
    "request_loop t sha1 to_json limits r E (accum @ s) first 0 ?c = Some (None, True, offset', first', c1)"
    "drop offset' (accum @ s) @ concat segs = concat (map fst ws')" "short_of (drop offset' (accum @ s)) ws'"
    "first' \<longrightarrow> first \<and> dn = []"
    "cn_net (cx_world c1) = cn_net (cx_world ?c)" "batch c1 = batch ?c @ concat (map (response_wire d f \<circ> snd) dn)"
    by (blast intro: le0)
  note r = r [unfolded net, simplified]
  have "length (batch c1) < 2 ^ 31" using Cons.prems(6) r(1,7) by simp
  from flush_delivers [OF assms(1) this, of CheckBoth] obtain n2 where
    n2: "flush_batch CheckBoth E c1 = (True, set_batch [] (with_net (\<lambda>_. n2) c1))" "out n2 = out n1 @ batch c1" "inp n2 = segs"
    using r(6) n1(2) by auto
  let ?c2 = "set_batch [] (with_net (\<lambda>_. n2) c1)"
  have c2: "cn_net (cx_world ?c2) = n2" "batch ?c2 = []" by (simp_all add: set_batch_def with_net_def batch_def)
  have "\<exists>c'. run_loop t sha1 to_json limits r E (drop offset' (accum @ s)) first' ?c2 = Some (Closed, c') \<and>
      out (cn_net (cx_world c')) = out (cn_net (cx_world ?c2)) @ concat (map (response_wire d f \<circ> snd) ws')"
    by (rule Cons(1)) (use Cons.prems r n2(3) c2 in auto)
  then show ?case using n1 n2 r c2 by (subst run_loop.simps) auto
qed

text \<open>
  C7: Pipelining over any segmentation. Take requests that each parse on their own as complete plain
  requests and that keep the connection open, an application that answers each from the request alone,
  and a network that delivers the concatenated requests cut into segments at any places and takes at
  least one byte per send. Then the connection ends when the peer goes, and what the peer has received
  is the responses to exactly these requests, one each, in order.
\<close>

theorem http1_pipelining:
  assumes "delivers E inp out" "serves t to_json r (snd ` set ws) f" "\<And>n. eg_date E n = d"
    and "list_all (\<lambda>w. plain_wire t limits w \<and> length (fst w) < 2 ^ 62) ws"
    and "concat (inp n) = concat (map fst ws)" "\<not> starts_with (concat (map fst ws)) CLIENT_PREFACE"
    and "length (concat (map (response_wire d f \<circ> snd) ws)) < 2 ^ 31"
  shows "\<exists>c. run_connection t sha1 to_json limits r E n = Some (Closed, c) \<and>
    out (cn_net (cx_world c)) = out n @ concat (map (response_wire d f \<circ> snd) ws)"
proof -
  have l: "list_all (\<lambda>w. plain_wire t limits w \<and> snd w \<in> snd ` set ws \<and> length (fst w) < 2 ^ 62) ws"
    using assms(4) by (auto simp: list_all_iff)
  have "short_of [] ws" using assms(4) plain_wire_nonempty by (cases ws) (auto simp: short_of_def)
  then show ?thesis
    using run_loop_plain [OF assms(1-3) l, of "[]" "fresh_conn n" True sha1] assms(5-7)
    by (simp add: run_connection_def fresh_conn_def batch_def)
qed


text \<open>A network that takes one byte per send, and a request that every router answers, for the witnesses.\<close>

definition byte_engine :: "(string list \<times> string) engine" where
  "byte_engine = \<lparr>eg_recv = (\<lambda>n. case n of ([], x) \<Rightarrow> (Gone, n) | (s # rest, x) \<Rightarrow> (Received s, (rest, x))),
     eg_send = (\<lambda>s n. (1, (fst n, snd n @ take 1 s))), eg_timeout = (\<lambda>n. n), eg_poll_out = (\<lambda>n. n), eg_close = (\<lambda>n. n),
     eg_date = (\<lambda>n. []), os_open = (\<lambda>p n. (- 1, n)), os_sendfile = (\<lambda>fd off len n. (SendfileFailed, n)),
     os_pread = (\<lambda>fd len off n. (None, n)), os_close = (\<lambda>fd n. n), os_direct_block = (\<lambda>fd. None)\<rparr>"

lemma byte_engine_delivers: "delivers byte_engine fst snd"
proof -
  have "\<exists>k. (1 :: int) = int k \<and> 0 < k \<and> k \<le> length s \<and> out @ take 1 s = out @ take k s" if "s \<noteq> []" for s out :: string
    using that by (intro exI [of _ 1]) (cases s, auto)
  then show ?thesis by (auto simp: delivers_def byte_engine_def split: list.splits)
qed

definition options_wire :: string where
  "options_wire = ''OPTIONS * HTTP/1.1'' @ crlf @ ''Host: a'' @ crlf @ crlf"

lemma options_wire_parses: "parse Scalar DEFAULT_LIMITS options_wire initial_request = Returned PComplete (parsed options_wire) (length options_wire)"
  by (simp add: parsed_def options_wire_def eval_simps)

lemma parsed_options: "rq_method (parsed options_wire) = OPTIONS" "rq_path (parsed options_wire) = ''*''"
  "\<not> rq_expect_continue (parsed options_wire)" "\<not> rq_upgrade_h2c (parsed options_wire)" "\<not> rq_websocket_upgrade (parsed options_wire)"
  "name_count ''Transfer-Encoding'' (parsed options_wire) = 0" "fst (evaluate_keep_alive Scalar (parsed options_wire) initial_response)"
  by (simp_all add: parsed_def options_wire_def eval_simps name_count_def entries_def same_name_def evaluate_keep_alive_def
      get_header_def)


lemma serves_options:
  "serves Scalar to_json r {parsed options_wire} (\<lambda>q. options_asterisk Scalar initial_response)"
proof -
  have r: "res_reset x = initial_response" for x
    by (simp add: res_reset_def initial_response_def clear_def empty_map_def)
  have "\<not> rs_is_file (options_asterisk Scalar initial_response)" "\<not> rs_is_sse (options_asterisk Scalar initial_response)"
    by (simp_all add: options_asterisk_def res_text_def content_response_def set_body_def res_header_def set_status_def initial_response_def)
  then show ?thesis
    by (simp add: serves_def serve_request_def dispatch_sync_def is_options_asterisk_def parsed_options r ctx_reset_def)
qed

lemma options_reply_short:
  "length (response_wire [] (\<lambda>q. options_asterisk Scalar initial_response) (parsed options_wire)) < 1000"
proof -
  have "length (append_response [] (options_asterisk Scalar initial_response) []) < 1000" by code_simp
  then show ?thesis by (simp add: response_wire_def parsed_options)
qed

lemma options_plain: "plain_wire Scalar DEFAULT_LIMITS (options_wire, parsed options_wire)" "length options_wire = 31"
  using options_wire_parses parsed_options by (simp_all add: plain_wire_def) (simp add: options_wire_def crlf_def)

theorem http1_pipelining_witness:
  "\<exists>c. run_connection Scalar (\<lambda>s. s) (\<lambda>pd. []) DEFAULT_LIMITS (empty_router :: ((nat, string list \<times> string) h1_ctx, unit) router)
      byte_engine ([take 7 (options_wire @ options_wire), drop 7 (options_wire @ options_wire)], []) = Some (Closed, c) \<and>
    snd (cn_net (cx_world c)) =
      concat (map (response_wire [] (\<lambda>q. options_asterisk Scalar initial_response)) [parsed options_wire, parsed options_wire])"
proof -
  let ?ws = "[(options_wire, parsed options_wire), (options_wire, parsed options_wire)]"
  have np: "\<not> starts_with (options_wire @ options_wire) CLIENT_PREFACE"
    by (simp add: options_wire_def CLIENT_PREFACE_def starts_with_def)
  let ?f = "\<lambda>q. options_asterisk Scalar initial_response"
  have s: "serves Scalar (\<lambda>pd. []) (empty_router :: ((nat, string list \<times> string) h1_ctx, unit) router) (snd ` set ?ws) ?f"
    using serves_options by simp
  have d: "\<And>n. eg_date byte_engine n = []" by (simp add: byte_engine_def)
  have l: "list_all (\<lambda>w. plain_wire Scalar DEFAULT_LIMITS w \<and> length (fst w) < 2 ^ 62) ?ws" using options_plain by simp
  have c: "concat (fst ([take 7 (options_wire @ options_wire), drop 7 (options_wire @ options_wire)], [] :: string)) = concat (map fst ?ws)"
    by (simp del: drop_append take_append)
  have z: "length (concat (map (response_wire [] ?f \<circ> snd) ?ws)) < 2 ^ 31" using options_reply_short by simp
  show ?thesis
    using http1_pipelining [OF byte_engine_delivers s d l c _ z, of "\<lambda>s. s"] np by (simp del: drop_append take_append)
qed

text \<open>
  C40: The answer to a malformed request overtakes the answers before it. When a plain request and bytes
  that the parser rejects arrive in one segment, the peer receives the error response first and the
  response to the first request after it: the error is written to the socket at once, the earlier response
  is still in the batch.
\<close>

theorem http1_error_overtakes_batch:
  assumes "delivers E inp out" "serves t to_json r {q} f" "\<And>n. eg_date E n = d"
    and "plain_wire t limits (w, q)" "parse t limits b initial_request = Returned st q' 0"
    and "make_parse_error_response t st = Some e" "inp n = [w @ b]" "b \<noteq> []" "\<not> starts_with (w @ b) CLIENT_PREFACE"
    and "length w < 2 ^ 62" "length (response_wire d f q) < 2 ^ 31"
  shows "\<exists>c. run_connection t sha1 to_json limits r E n = Some (Closed, c) \<and>
    out (cn_net (cx_world c)) = out n @ serialize_response d e @ response_wire d f q"
proof -
  obtain n1 where n1: "eg_recv E n = (Received (w @ b), n1)" "out n1 = out n" using delivers_recv(2) [OF assms(1,7)] by blast
  let ?c = "with_net (\<lambda>_. n1) (fresh_conn n)"
  obtain c1 where c1: "serve_one t sha1 to_json limits r E (w @ b) ?c = Some (Advance (length w) True, c1)"
    "cn_net (cx_world c1) = n1" "batch c1 = response_wire d f q"
    using serve_plain [OF assms(4,2) _ assms(3,10), of sha1 b ?c] by (auto simp: with_net_def fresh_conn_def batch_def)
  obtain n2 where n2: "send_all E (serialize_response d e) n1 = (to_int32 (length (serialize_response d e)), n2)"
    "out n2 = out n1 @ serialize_response d e" using send_rest_delivers [OF assms(1)] unfolding send_all_def by blast
  let ?c2 = "with_net (\<lambda>_. n2) (c1\<lparr>cx_req := q'\<rparr>)"
  have "st \<noteq> PNeedMoreData" using assms(6) by (auto simp: make_parse_error_response_def)
  then have c2: "serve_one t sha1 to_json limits r E b c1 = Some (Break False, ?c2)"
    using assms(3,5,6) n2 c1(2)
    by (simp add: serve_one_def reset_initial refuse_def send_response_def put_def with_net_def date_now_def Let_def)
  have b2: "batch ?c2 = response_wire d f q" "cn_net (cx_world ?c2) = n2" using c1(3) by (simp_all add: with_net_def batch_def)
  have "request_loop t sha1 to_json limits r E (w @ b) False (length w) c1 = Some (None, False, length w, False, ?c2)"
    using c2 assms(8) by (subst request_loop.simps) simp
  then have l: "request_loop t sha1 to_json limits r E (w @ b) True 0 ?c = Some (None, False, length w, False, ?c2)"
    using c1(1) assms(8,9) by (subst request_loop.simps) simp
  obtain n3 where n3: "flush_batch CheckBoth E ?c2 = (True, set_batch [] (with_net (\<lambda>_. n3) ?c2))" "out n3 = out n2 @ batch ?c2"
    using flush_delivers [OF assms(1), of ?c2 CheckBoth] assms(11) b2 by auto
  have "out (eg_close E n3) = out n3" using assms(1) by (simp add: delivers_def)
  then show ?thesis using n1 l n3 n2(2) b2(1) unfolding run_connection_def
    by (subst run_loop.simps) (simp add: fresh_conn_def with_net_def set_batch_def)
qed

theorem http1_error_overtakes_batch_witness:
  "\<exists>c e. run_connection Scalar (\<lambda>s. s) (\<lambda>pd. []) DEFAULT_LIMITS (empty_router :: ((nat, string list \<times> string) h1_ctx, unit) router)
      byte_engine ([options_wire @ ''BAD'' @ crlf], []) = Some (Closed, c) \<and>
    snd (cn_net (cx_world c)) = serialize_response [] (error_response Scalar BadRequest ''Bad Request'') @
      response_wire [] (\<lambda>q. options_asterisk Scalar initial_response) (parsed options_wire)"
proof -
  have np: "\<not> starts_with (options_wire @ ''BAD'' @ crlf) CLIENT_PREFACE"
    by (simp add: options_wire_def CLIENT_PREFACE_def starts_with_def)
  obtain q' where p: "parse Scalar DEFAULT_LIMITS (''BAD'' @ crlf) initial_request = Returned PError q' 0"
    by (simp add: eval_simps)
  have m: "make_parse_error_response Scalar PError = Some (error_response Scalar BadRequest ''Bad Request'')"
    by (simp add: make_parse_error_response_def)
  have "\<And>n. eg_date byte_engine n = []" by (simp add: byte_engine_def)
  from http1_error_overtakes_batch [OF byte_engine_delivers serves_options this options_plain(1) p m, of "([options_wire @ ''BAD'' @ crlf], [])"]
  show ?thesis using np options_plain(2) options_reply_short by simp
qed

end
