(* ===== verification/Http1_Liveness.thy ===== *)
theory Http1_Liveness
  imports Http1_Connection_Proofs
begin

text \<open>
  The connection ends: whatever bytes a peer sends before it goes or fails, whatever the handlers do with the
  response and however sends and file transfers are split or fail, the loops of the connection return, unless the
  kernel answers that it has no buffers, would block or was interrupted for ever.
\<close>

text \<open>
  What is assumed of the socket: each read returns the next segment, finds the peer gone, or reports that there are no
  buffers, the last not for ever (the measure \<open>p\<close> goes down); a send may take any number of bytes, none, or fail, and
  does not consume input.
\<close>

definition receives :: "'n engine \<Rightarrow> ('n \<Rightarrow> string list) \<Rightarrow> ('n \<Rightarrow> nat) \<Rightarrow> bool" where
  "receives E inp p \<longleftrightarrow>
     (\<forall>n. (\<exists>n'. eg_recv E n = (Gone, n')) \<or>
          (\<exists>s n'. eg_recv E n = (Received s, n') \<and> inp n = s # inp n') \<or>
          (\<exists>n'. eg_recv E n = (NoBuffers, n') \<and> inp (eg_timeout E n') = inp n \<and> p (eg_timeout E n') < p n)) \<and>
     (\<forall>s n. inp (snd (eg_send E s n)) = inp n)"

lemma recv_cases:
  assumes "receives E inp p"
  obtains (gone) n' where "eg_recv E n = (Gone, n')"
  | (received) s n' where "eg_recv E n = (Received s, n')" "inp n = s # inp n'"
  | (no_buffers) n' where "eg_recv E n = (NoBuffers, n')" "inp (eg_timeout E n') = inp n" "p (eg_timeout E n') < p n"
  using assms unfolding receives_def by metis

lemma send_keeps: "receives E inp p \<Longrightarrow> inp (snd (eg_send E s n)) = inp n"
  by (simp add: receives_def)

text \<open>
  What is assumed about files: a transfer moves at most what was asked for, it does not consume
  socket input, and it does not report that it would block, or was interrupted, for ever.
\<close>

definition patient :: "'n engine \<Rightarrow> ('n \<Rightarrow> string list) \<Rightarrow> ('n \<Rightarrow> nat) \<Rightarrow> bool" where
  "patient E inp p \<longleftrightarrow>
     (\<forall>fd off len n k n'. os_sendfile E fd off len n = (Sent k, n') \<longrightarrow> inp n' = inp n) \<and>
     (\<forall>fd off len n n'. os_sendfile E fd off len n = (WouldBlock, n') \<longrightarrow>
        inp (eg_poll_out E n') = inp n \<and> p (eg_poll_out E n') < p n) \<and>
     (\<forall>fd off len n n'. os_sendfile E fd off len n = (Interrupted, n') \<longrightarrow> inp n' = inp n \<and> p n' < p n) \<and>
     (\<forall>fd off len n n'. os_sendfile E fd off len n = (SendfileFailed, n') \<longrightarrow> inp n' = inp n) \<and>
     (\<forall>fd len off n n'. os_pread E fd len off n = (None, n') \<longrightarrow> inp n' = inp n) \<and>
     (\<forall>fd len off n d n'. os_pread E fd len off n = (Some d, n') \<longrightarrow> inp n' = inp n \<and> length d \<le> len) \<and>
     (\<forall>path n. inp (snd (os_open E path n)) = inp n) \<and>
     (\<forall>fd n. inp (os_close E fd n) = inp n)"

lemma sendfile_cases:
  assumes "patient E inp p"
  obtains (sent) k n' where "os_sendfile E fd off len n = (Sent k, n')" "inp n' = inp n"
  | (blocked) n' where "os_sendfile E fd off len n = (WouldBlock, n')" "inp (eg_poll_out E n') = inp n" "p (eg_poll_out E n') < p n"
  | (interrupted) n' where "os_sendfile E fd off len n = (Interrupted, n')" "inp n' = inp n" "p n' < p n"
  | (failed) n' where "os_sendfile E fd off len n = (SendfileFailed, n')" "inp n' = inp n"
  using assms unfolding patient_def by (metis sendfile_result.exhaust surj_pair)

lemma pread_cases:
  assumes "patient E inp p"
  obtains (error) n' where "os_pread E fd len off n = (None, n')" "inp n' = inp n"
  | (data) d n' where "os_pread E fd len off n = (Some d, n')" "inp n' = inp n" "length d \<le> len"
  using assms unfolding patient_def by (metis option.exhaust surj_pair)

lemma open_close_keep: "patient E inp p \<Longrightarrow> inp (snd (os_open E path n)) = inp n" "patient E inp p \<Longrightarrow> inp (os_close E fd n) = inp n"
  unfolding patient_def by blast+

subsection \<open>Files\<close>

lemma sendfile_loop_returns:
  assumes "patient E inp p"
  shows "\<exists>b rem n'. sendfile_loop E fd off remaining n = Some (b, rem, n') \<and> inp n' = inp n"
proof (induction remaining arbitrary: off n rule: less_induct)
  case outer: (less remaining)
  show ?case
  proof (induction "p n" arbitrary: n rule: less_induct)
    case inner: less
    show ?case
    proof (cases "remaining = 0")
      case False
      from assms show ?thesis
      proof (cases rule: sendfile_cases [where fd = fd and off = off and len = "min remaining 1048576" and n = n])
        case (sent k n')
        show ?thesis
        proof (cases "0 < k")
          case True
          then show ?thesis using outer [of "remaining - k" "off + k" n'] sent False by (subst sendfile_loop.simps) auto
        qed (use sent False in \<open>subst sendfile_loop.simps, auto\<close>)
      next
        case (blocked n')
        then show ?thesis using inner [of "eg_poll_out E n'"] False by (subst sendfile_loop.simps) auto
      next
        case (interrupted n')
        then show ?thesis using inner [of n'] False by (subst sendfile_loop.simps) auto
      next
        case (failed n')
        then show ?thesis using False by (subst sendfile_loop.simps) auto
      qed
    qed (subst sendfile_loop.simps, auto)
  qed
qed

lemma send_rest_keeps: "receives E inp p \<Longrightarrow> inp (snd (send_rest E len rest n)) = inp n"
proof (induction E len rest n rule: send_rest.induct)
  case (1 E len rest n)
  obtain k n' where k: "eg_send E rest n = (k, n')" by (cases "eg_send E rest n")
  then have "inp n' = inp n" using send_keeps [OF 1(2), of rest n] by simp
  then show ?case using 1 k by (subst send_rest.simps) (auto split: prod.splits)
qed

lemma send_all_keeps: "receives E inp p \<Longrightarrow> inp (snd (send_all E s n)) = inp n"
  by (simp add: send_all_def send_rest_keeps)

lemma pread_loop_returns:
  assumes "patient E inp p" "receives E inp q"
  shows "\<exists>b n'. pread_loop E fd off remaining n = Some (b, n') \<and> inp n' = inp n"
proof (induction remaining arbitrary: off n rule: less_induct)
  case (less remaining)
  show ?case
  proof (cases "remaining = 0")
    case False
    from assms(1) show ?thesis
    proof (cases rule: pread_cases [where fd = fd and len = "min remaining 65536" and off = off and n = n])
      case (error n')
      then show ?thesis using False by (subst pread_loop.simps) auto
    next
      case (data d n')
      have "inp (snd (send_all E d n')) = inp n'" by (rule send_all_keeps [OF assms(2)])
      then show ?thesis
        using data False less [of "remaining - length d" "off + length d" "snd (send_all E d n')"]
        by (subst pread_loop.simps) (auto split: prod.splits)
    qed
  qed (subst pread_loop.simps, auto)
qed

text \<open>A chunk of the reader is not empty and within what remains.\<close>

lemma next_chunk_step:
  assumes "patient E inp p" "next_chunk E s n = (x, s', n')" "0 \<le> st_remaining s" "0 < st_chunk_size s"
  shows "inp n' = inp n" "st_chunk_size s' = st_chunk_size s"
    "x = Chunk d \<Longrightarrow> 0 \<le> st_remaining s' \<and> nat (st_remaining s') < nat (st_remaining s)"
proof -
  define len where "len = (if 0 < st_remaining s \<and> st_remaining s < int (st_chunk_size s) then nat (st_remaining s) else st_chunk_size s)"
  have len: "0 < st_remaining s \<Longrightarrow> 0 < len \<and> int len \<le> st_remaining s" using assms(4) by (auto simp: len_def)
  have read: "inp n2 = inp n" "y = Some e \<Longrightarrow> length e \<le> l" if "file_read E fd off l n = (y, n2)" for fd off l y n2 e
    using that pread_cases [OF assms(1), of fd l off n] by (auto simp: file_read_def split: if_splits)
  note d = assms(2) [unfolded next_chunk_def, folded len_def]
  show "inp n' = inp n" "st_chunk_size s' = st_chunk_size s"
    using d by (auto simp: Let_def advance_stream_def dest: read(1) split: if_splits option.splits prod.splits)
  show "0 \<le> st_remaining s' \<and> nat (st_remaining s') < nat (st_remaining s)" if "x = Chunk d"
    using d that assms(3) len
    by (auto simp: Let_def advance_stream_def dest!: read(2) [OF _ refl] split: if_splits option.splits prod.splits)
qed

lemma stream_loop_returns:
  assumes "patient E inp p" "receives E inp q" "0 \<le> st_remaining s" "0 < st_chunk_size s"
  shows "\<exists>b n'. stream_loop E s n = Some (b, n') \<and> inp n' = inp n"
  using assms(3,4)
proof (induction "nat (st_remaining s)" arbitrary: s n rule: less_induct)
  case less
  obtain x s' n' where x: "next_chunk E s n = (x, s', n')" by (cases "next_chunk E s n") auto
  note st = next_chunk_step [OF assms(1) x less.prems]
  show ?case
  proof (cases x)
    case (Chunk d)
    have "inp (snd (send_all E d n')) = inp n'" by (rule send_all_keeps [OF assms(2)])
    then show ?thesis using less.hyps [of s' "snd (send_all E d n')"] st Chunk x less.prems
      by (subst stream_loop.simps) (auto split: prod.splits)
  next
    case Threw
    then show ?thesis using x st(1) by (subst stream_loop.simps) auto
  next
    case NoChunk
    then show ?thesis using x st(1) by (subst stream_loop.simps) auto
  qed
qed

lemma stream_file_returns:
  assumes "patient E inp p" "receives E inp q"
  shows "\<exists>b n'. stream_file E path len h n = Some (b, n') \<and> inp n' = inp n"
proof (cases "len = 0")
  case False
  define fd where "fd = (case h of Some fd \<Rightarrow> if 0 \<le> fd then (fd, False, n)
      else if path \<noteq> [] then case os_open E path n of (fd, n) \<Rightarrow> (fd, 0 \<le> fd, n) else (- 1, False, n)
    | None \<Rightarrow> if path \<noteq> [] then case os_open E path n of (fd, n) \<Rightarrow> (fd, 0 \<le> fd, n) else (- 1, False, n))"
  obtain f sc n1 where f: "fd = (f, sc, n1)" by (cases fd) auto
  have n1: "inp n1 = inp n" using f open_close_keep(1) [OF assms(1), of path n]
    by (auto simp: fd_def split: option.splits if_splits prod.splits)
  obtain b rem n2 where l: "sendfile_loop E f 0 len n1 = Some (b, rem, n2)" "inp n2 = inp n1"
    using sendfile_loop_returns [OF assms(1)] by blast
  have fin: "\<exists>b n'. (case h of
        Some fd \<Rightarrow> stream_loop E \<lparr>st_fd = fd, st_chunk_size = 65536, st_offset = 0, st_remaining = int len, st_eof = False\<rparr> m
      | None \<Rightarrow> (case os_open E path m of (fd, m) \<Rightarrow> if fd < 0 then Some (False, m)
           else pread_loop E fd 0 len m \<bind> (\<lambda>(good, m). Some (good, os_close E fd m)))) = Some (b, n') \<and> inp n' = inp m" for m
  proof (cases h)
    case None
    obtain fd m' where op: "os_open E path m = (fd, m')" by (cases "os_open E path m")
    then have "inp m' = inp m" using open_close_keep(1) [OF assms(1), of path m] by simp
    then show ?thesis using None op pread_loop_returns [OF assms, of fd 0 len m'] open_close_keep(2) [OF assms(1)] by auto
  next
    case (Some fd)
    show ?thesis using stream_loop_returns [OF assms, of "\<lparr>st_fd = fd, st_chunk_size = 65536, st_offset = 0, st_remaining = int len, st_eof = False\<rparr>"] Some
      by simp
  qed
  show ?thesis
    unfolding stream_file_def fd_def [symmetric] f
    using False l n1 fin [of n1] fin [of n2] fin [of "os_close E f n2"] open_close_keep(2) [OF assms(1)]
    by (auto simp: Let_def)
qed (auto simp: stream_file_def)


subsection \<open>One request\<close>

abbreviation input_of :: "('n \<Rightarrow> string list) \<Rightarrow> ('v, 'n) h1_ctx \<Rightarrow> string list" where
  "input_of inp c \<equiv> inp (cn_net (cx_world c))"

lemma put_keeps: "receives E inp q \<Longrightarrow> input_of inp (put E s c) = input_of inp c"
  by (simp add: put_def with_net_def send_all_keeps)

lemma flush_keeps:
  assumes "receives E inp q"
  shows "input_of inp (snd (flush_batch mode E c)) = input_of inp c"
proof (cases "batch c = []")
  case False
  obtain k n1 where k: "eg_send E (batch c) (cn_net (cx_world c)) = (k, n1)" by (cases "eg_send E (batch c) (cn_net (cx_world c))")
  then have "inp n1 = input_of inp c" using send_keeps [OF assms, of "batch c" "cn_net (cx_world c)"] by simp
  moreover have "inp (snd (send_all E s n1)) = inp n1" for s by (rule send_all_keeps [OF assms])
  ultimately show ?thesis
    using k by (auto simp: flush_batch_def Let_def with_net_def set_batch_def batch_def split: prod.splits) (metis snd_conv)+
qed (simp add: flush_batch_def)

lemmas keeps = put_keeps flush_keeps

lemma answer_file_returns:
  assumes "patient E inp p" "receives E inp q" "0 < k"
  shows "\<exists>s c'. answer_file E k ka c = Some (s, c') \<and> input_of inp c' = input_of inp c \<and> s \<in> {Advance k ka, Break False}"
proof -
  obtain g c1 where f: "flush_batch CheckBoth E c = (g, c1)" by (cases "flush_batch CheckBoth E c")
  then have 1: "input_of inp c1 = input_of inp c" using flush_keeps [OF assms(2), of CheckBoth c] by simp
  let ?c = "put E (append_headers (date_now E c1) (cx_res c1) []) c1"
  have 2: "input_of inp ?c = input_of inp c" using 1 by (simp add: put_keeps [OF assms(2)])
  obtain b n' where n: "stream_file E (rs_file_path (cx_res c1)) (rs_file_size (cx_res c1)) (rs_file_handle (cx_res c1)) (cn_net (cx_world ?c)) = Some (b, n')"
    "inp n' = input_of inp ?c" using stream_file_returns [OF assms(1,2)] by blast
  show ?thesis using f 1 2 n by (cases g) (auto simp: answer_file_def Let_def with_net_def put_def)
qed

lemma answer_sse_returns:
  assumes "receives E inp q"
  shows "\<exists>s c'. answer_sse E k c = (s, c') \<and> input_of inp c' = input_of inp c \<and> s \<in> {Advance k False, Break False}"
  using flush_keeps [OF assms, of CheckFirst c]
  by (auto simp: put_keeps [OF assms] answer_sse_def Let_def split: prod.splits bool.splits)

lemma answer_returns:
  assumes "patient E inp p" "receives E inp q" "0 < k"
    and "\<And>c. input_of inp (serve_request t to_json r c) = input_of inp c"
  shows "\<exists>s c'. answer t to_json r E k c = Some (s, c') \<and> input_of inp c' = input_of inp c \<and>
    (\<forall>j b. s = Advance j b \<longrightarrow> j = k)"
proof -
  let ?c0 = "serve_request t to_json r (c\<lparr>cx_world := (cx_world c)\<lparr>cn_sse_headers_sent := False\<rparr>\<rparr>)"
  obtain ka res where e: "evaluate_keep_alive t (cx_req ?c0) (cx_res ?c0) = (ka, res)"
    by (cases "evaluate_keep_alive t (cx_req ?c0) (cx_res ?c0)")
  let ?c = "?c0\<lparr>cx_res := res\<rparr>"
  have c: "input_of inp ?c = input_of inp c" using assms(4) [of "c\<lparr>cx_world := (cx_world c)\<lparr>cn_sse_headers_sent := False\<rparr>\<rparr>"] by simp
  consider "rs_is_file res" | "\<not> rs_is_file res" "rs_is_sse res" | "\<not> rs_is_file res" "\<not> rs_is_sse res" by blast
  then show ?thesis
  proof cases
    case 1
    then show ?thesis using answer_file_returns [OF assms(1-3), of ka ?c] c e by (auto simp: answer_def Let_def)
  next
    case 2
    then show ?thesis using answer_sse_returns [OF assms(2), of k ?c] c e by (auto simp: answer_def Let_def)
  next
    case 3
    then show ?thesis using c e by (auto simp: answer_def Let_def set_batch_def)
  qed
qed

lemma upgrade_h2c_keeps:
  assumes "receives E inp q"
  shows "\<exists>e c'. upgrade_h2c t E tr c = (Exit e, c') \<and> input_of inp c' = input_of inp c"
  by (simp add: keeps [OF assms] upgrade_h2c_def Let_def)

lemma upgrade_websocket_keeps:
  assumes "receives E inp q"
  shows "\<exists>s c'. upgrade_websocket t sha1 r E tr c = (s, c') \<and> input_of inp c' = input_of inp c \<and> (\<nexists>j b. s = Advance j b)"
  by (auto simp: keeps [OF assms] upgrade_websocket_def refuse_def send_response_def Let_def split: option.splits)

lemma serve_one_returns:
  assumes "patient E inp p" "receives E inp q" "length unparsed < 2 ^ 63"
    and "\<And>c. input_of inp (serve_request t to_json r c) = input_of inp c"
  shows "\<exists>s c'. serve_one t sha1 to_json limits r E unparsed c = Some (s, c') \<and> input_of inp c' = input_of inp c \<and>
    (\<forall>j b. s = Advance j b \<longrightarrow> 0 < j)"
proof (cases "parse t limits unparsed (reset (cx_req c))")
  case (Returned st q k)
  let ?c = "c\<lparr>cx_req := q\<rparr>"
  consider "st = PNeedMoreData" | e where "st \<noteq> PNeedMoreData" "make_parse_error_response t st = Some e" | "st = PComplete"
    by (cases st) (auto simp: make_parse_error_response_def)
  then show ?thesis
  proof cases
    case 1
    then show ?thesis using Returned by (auto simp: put_keeps [OF assms(2)] serve_one_def Let_def)
  next
    case 2
    then show ?thesis using Returned by (auto simp: put_keeps [OF assms(2)] serve_one_def refuse_def send_response_def Let_def)
  next
    case 3
    then have "0 < k" using parse_Complete [of t limits unparsed "reset (cx_req c)" q k] Returned assms(3) by blast
    then show ?thesis
      using 3 Returned upgrade_h2c_keeps [OF assms(2), of t "drop k unparsed" ?c] upgrade_websocket_keeps [OF assms(2), of t sha1 r "drop k unparsed" ?c]
        answer_returns [OF assms(1,2) _ assms(4), where k = k and c = ?c]
      by (auto simp: serve_one_def make_parse_error_response_def Let_def)
  qed
qed (auto simp: serve_one_def)

subsection \<open>The loops\<close>

lemma request_loop_returns:
  assumes "patient E inp p" "receives E inp q" "length accum < 2 ^ 63"
    and "\<And>c. input_of inp (serve_request t to_json r c) = input_of inp c"
  shows "\<exists>x c'. request_loop t sha1 to_json limits r E accum first offset c = Some x \<and> snd (snd (snd (snd x))) = c' \<and>
    input_of inp c' = input_of inp c"
proof (induction "length accum - offset" arbitrary: offset first c rule: less_induct)
  case less
  have len: "length (drop offset accum) < 2 ^ 63" using assms(3) by simp
  obtain s c1 where s: "serve_one t sha1 to_json limits r E (drop offset accum) c = Some (s, c1)"
    "input_of inp c1 = input_of inp c" "\<forall>j b. s = Advance j b \<longrightarrow> 0 < j"
    using serve_one_returns [OF assms(1,2) len assms(4), where c = c and ?sha1.0 = sha1 and limits = limits] by blast
  show ?case
  proof (cases "offset < length accum \<and> \<not> (first \<and> starts_with (drop offset accum) CLIENT_PREFACE)")
    case True
    show ?thesis
    proof (cases s)
      case (Advance j b)
      then have "length accum - (offset + j) < length accum - offset" using True s(3) by auto
      from less [OF this, of False c1] show ?thesis
        using True s Advance by (subst request_loop.simps) auto
    qed (use True s in \<open>subst request_loop.simps, auto\<close>)+
  qed (subst request_loop.simps, auto)
qed

lemma run_loop_returns:
  assumes "patient E inp p" "receives E inp q"
    and "\<And>c. input_of inp (serve_request t to_json r c) = input_of inp c"
    and "length accum + length (concat (input_of inp c)) < 2 ^ 63"
  shows "\<exists>e c'. run_loop t sha1 to_json limits r E accum first c = Some (e, c')"
  using assms(4)
proof (induction "(length (input_of inp c), q (cn_net (cx_world c)))" arbitrary: accum first c
    rule: wf_induct_rule [OF wf_lex_prod [OF wf_less_than wf_less_than]])
  case (1 c)
  from assms(2) show ?case
  proof (cases rule: recv_cases [where n = "cn_net (cx_world c)"])
    case (gone n')
    then show ?thesis by (subst run_loop.simps) auto
  next
    case (no_buffers n')
    let ?c = "with_net (\<lambda>_. eg_timeout E n') c"
    have "\<exists>e c'. run_loop t sha1 to_json limits r E accum first ?c = Some (e, c')"
      by (rule 1(1)) (use no_buffers 1(2) in \<open>simp_all add: with_net_def\<close>)
    then show ?thesis using no_buffers by (subst run_loop.simps) auto
  next
    case (received s n1)
    have len: "length (accum @ s) + length (concat (inp n1)) < 2 ^ 63" using 1(2) received(2) by simp
    then obtain ex ka off fst' c1 where l: "request_loop t sha1 to_json limits r E (accum @ s) first 0 (with_net (\<lambda>_. n1) c) = Some (ex, ka, off, fst', c1)"
      "input_of inp c1 = inp n1"
      using request_loop_returns [OF assms(1,2) _ assms(3), where accum = "accum @ s" and c = "with_net (\<lambda>_. n1) c" and ?sha1.0 = sha1 and limits = limits and first = first and offset = 0]
      by (auto simp: with_net_def)
    obtain g c2 where g: "flush_batch CheckBoth E c1 = (g, c2)" "input_of inp c2 = inp n1"
      using flush_keeps [OF assms(2), of CheckBoth c1] l(2) by (cases "flush_batch CheckBoth E c1") auto
    have "\<exists>e c'. run_loop t sha1 to_json limits r E (drop off (accum @ s)) fst' c2 = Some (e, c')"
      by (rule 1(1)) (use received g(2) len in simp_all)
    then show ?thesis using received l g by (cases ex; cases "g \<and> ka") (subst run_loop.simps, auto)+
  qed
qed



text \<open>A router whose only middleware answers everything itself.\<close>

definition closed_router :: "((nat, string list \<times> string) h1_ctx, unit) router" where
  "closed_router = empty_router\<lparr>rt_global_middleware := [\<lambda>c next. (c, None)]\<rparr>"


end
