(* ===== verification/Mem_Store.thy ===== *)
theory Mem_Store
  imports Http_Response
begin

text \<open>
  \<^verbatim>\<open>src/data/memory/MemStore.h\<close> and \<^verbatim>\<open>MemStore.cpp\<close>: the in-process key-value store with expiry and
  least-recently-used eviction, and the thread that owns it. An entry holds an iterator into the list of
  keys; as the keys of that list are distinct, the iterator is the position of the entry's key. Time is
  the reading of the steady clock in nanoseconds.
\<close>

subsection \<open>State\<close>

record mem_entry =
  me_value :: string
  me_expires_at :: "int option"

record mem_store =
  ms_max_entries :: nat
  ms_store :: "string \<rightharpoonup> mem_entry"
  ms_lru_list :: "string list"
  ms_hits :: u64
  ms_misses :: u64

definition empty_store :: "nat \<Rightarrow> mem_store" where
  "empty_store m = \<lparr>ms_max_entries = m, ms_store = Map.empty, ms_lru_list = [], ms_hits = 0, ms_misses = 0\<rparr>"

definition is_expired :: "int \<Rightarrow> mem_entry \<Rightarrow> bool" where
  "is_expired now e = (case me_expires_at e of None \<Rightarrow> False | Some t \<Rightarrow> t \<le> now)"

definition mem_size :: "mem_store \<Rightarrow> nat" where
  "mem_size s = card (dom (ms_store s))"

text \<open>Removing an entry with its place in the list, and moving a key to the front.\<close>

definition erase_entry :: "string \<Rightarrow> mem_store \<Rightarrow> mem_store" where
  "erase_entry k s = s\<lparr>ms_store := (ms_store s)(k := None), ms_lru_list := remove1 k (ms_lru_list s)\<rparr>"

definition touch :: "string \<Rightarrow> mem_store \<Rightarrow> mem_store" where
  "touch k s = s\<lparr>ms_lru_list := k # remove1 k (ms_lru_list s)\<rparr>"

definition evict_lru :: "mem_store \<Rightarrow> mem_store" where
  "evict_lru s =
     (if ms_lru_list s = [] then s
      else s\<lparr>ms_store := (ms_store s)(last (ms_lru_list s) := None), ms_lru_list := butlast (ms_lru_list s)\<rparr>)"

definition make_room :: "mem_store \<Rightarrow> mem_store" where
  "make_room s = (if ms_max_entries s \<le> mem_size s then evict_lru s else s)"

definition add_entry :: "string \<Rightarrow> mem_entry \<Rightarrow> mem_store \<Rightarrow> mem_store" where
  "add_entry k e s = s\<lparr>ms_store := (ms_store s)(k \<mapsto> e), ms_lru_list := k # ms_lru_list s\<rparr>"

subsection \<open>The operations\<close>

definition do_get :: "int \<Rightarrow> string \<Rightarrow> mem_store \<Rightarrow> string option \<times> mem_store" where
  "do_get now k s =
     (case ms_store s k of
        None \<Rightarrow> (None, s\<lparr>ms_misses := ms_misses s + 1\<rparr>)
      | Some e \<Rightarrow>
          if is_expired now e then (None, (erase_entry k s)\<lparr>ms_misses := ms_misses s + 1\<rparr>)
          else (Some (me_value e), (touch k s)\<lparr>ms_hits := ms_hits s + 1\<rparr>))"

definition expiry :: "int \<Rightarrow> nat option \<Rightarrow> int option" where
  "expiry now ttl = map_option (\<lambda>seconds. now + int seconds * 1000000000) ttl"

definition do_set :: "int \<Rightarrow> string \<Rightarrow> string \<Rightarrow> nat option \<Rightarrow> mem_store \<Rightarrow> bool \<times> mem_store" where
  "do_set now k v ttl s =
     (let e = \<lparr>me_value = v, me_expires_at = expiry now ttl\<rparr>
      in (True,
          case ms_store s k of
            Some _ \<Rightarrow> (touch k s)\<lparr>ms_store := (ms_store s)(k \<mapsto> e)\<rparr>
          | None \<Rightarrow> add_entry k e (make_room s)))"

definition do_del :: "string \<Rightarrow> mem_store \<Rightarrow> bool \<times> mem_store" where
  "do_del k s = (case ms_store s k of None \<Rightarrow> (False, s) | Some _ \<Rightarrow> (True, erase_entry k s))"

text \<open>
  \<^verbatim>\<open>std::stoll\<close>: white space, a sign and digits; \<open>None\<close> when it throws. \<open>incr64\<close> is the increment of a
  64-bit integer as compiled.
\<close>

definition is_space :: "char \<Rightarrow> bool" where
  "is_space ch \<longleftrightarrow> ch = CHR '' '' \<or> 9 \<le> u8 ch \<and> u8 ch \<le> 13"

definition stoll :: "string \<Rightarrow> int option" where
  "stoll s =
     (let s = dropWhile is_space s;
          neg = (case s of ch # _ \<Rightarrow> ch = CHR ''-'' | [] \<Rightarrow> False);
          s = (case s of ch # r \<Rightarrow> if ch = CHR ''-'' \<or> ch = CHR ''+'' then r else s | [] \<Rightarrow> []);
          digits = takeWhile is_digit s;
          v = int (foldl (\<lambda>a ch. 10 * a + digit_val ch) 0 digits);
          v = (if neg then - v else v)
      in if digits = [] \<or> v < - (2 ^ 63) \<or> 2 ^ 63 \<le> v then None else Some v)"

definition incr64 :: "int \<Rightarrow> int" where
  "incr64 v = (v + 1 + 2 ^ 63) mod 2 ^ 64 - 2 ^ 63"

definition do_incr :: "int \<Rightarrow> string \<Rightarrow> mem_store \<Rightarrow> int \<times> mem_store" where
  "do_incr now k s =
     (case ms_store s k of
        Some e \<Rightarrow>
          if is_expired now e
          then (1, add_entry k \<lparr>me_value = ''1'', me_expires_at = None\<rparr> (make_room (erase_entry k s)))
          else
            let val = incr64 (case stoll (me_value e) of Some v \<Rightarrow> v | None \<Rightarrow> 0)
            in (val, (touch k s)\<lparr>ms_store := (ms_store s)(k \<mapsto> e\<lparr>me_value := to_string_int val\<rparr>)\<rparr>)
      | None \<Rightarrow> (1, add_entry k \<lparr>me_value = ''1'', me_expires_at = None\<rparr> (make_room s)))"

definition sweep_expired :: "int \<Rightarrow> mem_store \<Rightarrow> mem_store" where
  "sweep_expired now s =
     (let live = (\<lambda>k. case ms_store s k of Some e \<Rightarrow> \<not> is_expired now e | None \<Rightarrow> False)
      in s\<lparr>ms_store := (\<lambda>k. if live k then ms_store s k else None), ms_lru_list := filter live (ms_lru_list s)\<rparr>)"

subsection \<open>Requests\<close>

datatype mem_op =
    OpGet string
  | OpMGet "string list"
  | OpSet string string "nat option"
  | OpDel string
  | OpDelMany "string list"
  | OpIncr string

datatype mem_result = RStr "string option" | RMStr "string option list" | RBool bool | RInt int

text \<open>\<open>clock\<close> gives the successive readings taken while the request is processed.\<close>

fun get_many :: "(nat \<Rightarrow> int) \<Rightarrow> nat \<Rightarrow> string list \<Rightarrow> mem_store \<Rightarrow> string option list \<times> mem_store" where
  "get_many clock i [] s = ([], s)"
| "get_many clock i (k # ks) s =
     (let (r, s) = do_get (clock i) k s; (rs, s) = get_many clock (i + 1) ks s in (r # rs, s))"

fun del_many :: "string list \<Rightarrow> mem_store \<Rightarrow> int \<times> mem_store" where
  "del_many [] s = (0, s)"
| "del_many (k # ks) s =
     (let (b, s) = do_del k s; (n, s) = del_many ks s in (if b then n + 1 else n, s))"

definition mem_process :: "(nat \<Rightarrow> int) \<Rightarrow> mem_op \<Rightarrow> mem_store \<Rightarrow> mem_result \<times> mem_store" where
  "mem_process clock op s =
     (case op of
        OpGet k \<Rightarrow> (case do_get (clock 0) k s of (r, s) \<Rightarrow> (RStr r, s))
      | OpMGet ks \<Rightarrow> (case get_many clock 0 ks s of (rs, s) \<Rightarrow> (RMStr rs, s))
      | OpSet k v ttl \<Rightarrow> (case do_set (clock 0) k v ttl s of (b, s) \<Rightarrow> (RBool b, s))
      | OpDel k \<Rightarrow> (case do_del k s of (b, s) \<Rightarrow> (RBool b, s))
      | OpDelMany ks \<Rightarrow> (case del_many ks s of (n, s) \<Rightarrow> (RInt n, s))
      | OpIncr k \<Rightarrow> (case do_incr (clock 0) k s of (n, s) \<Rightarrow> (RInt n, s)))"

subsection \<open>The thread and its queue\<close>

text \<open>
  Workers append to the queue; the thread swaps the whole queue out, processes it, and sweeps when the
  interval has passed. \<open>mt_answered\<close> records what has been answered, in order.
\<close>

record mem_thread =
  mt_store :: mem_store
  mt_queue :: "mem_op list"
  mt_stop_flag :: bool
  mt_last_sweep :: int
  mt_running :: bool
  mt_answered :: "(mem_op \<times> mem_result) list"

definition start_thread :: "nat \<Rightarrow> int \<Rightarrow> mem_thread" where
  "start_thread m now = \<lparr>mt_store = empty_store m, mt_queue = [], mt_stop_flag = False, mt_last_sweep = now,
     mt_running = True, mt_answered = []\<rparr>"

definition process_one :: "(nat \<Rightarrow> int) \<Rightarrow> mem_op \<Rightarrow> mem_thread \<Rightarrow> mem_thread" where
  "process_one clock op m =
     (case mem_process clock op (mt_store m) of
        (r, s) \<Rightarrow> m\<lparr>mt_store := s, mt_answered := mt_answered m @ [(op, r)]\<rparr>)"

fun process_batch :: "(nat \<Rightarrow> nat \<Rightarrow> int) \<Rightarrow> nat \<Rightarrow> mem_op list \<Rightarrow> mem_thread \<Rightarrow> mem_thread" where
  "process_batch clock i [] m = m"
| "process_batch clock i (op # ops) m = process_batch clock (i + 1) ops (process_one (clock i) op m)"

definition submit_op :: "mem_op \<Rightarrow> mem_thread \<Rightarrow> mem_thread" where
  "submit_op op m = m\<lparr>mt_queue := mt_queue m @ [op]\<rparr>"

definition set_stop :: "mem_thread \<Rightarrow> mem_thread" where
  "set_stop m = m\<lparr>mt_stop_flag := True\<rparr>"

definition thread_round :: "(nat \<Rightarrow> nat \<Rightarrow> int) \<Rightarrow> int \<Rightarrow> int \<Rightarrow> mem_thread \<Rightarrow> mem_thread" where
  "thread_round clock now sweep_interval m =
     (if mt_stop_flag m \<and> mt_queue m = [] then m\<lparr>mt_running := False\<rparr>
      else
        let m = process_batch clock 0 (mt_queue m) (m\<lparr>mt_queue := []\<rparr>)
        in if sweep_interval \<le> now - mt_last_sweep m
           then m\<lparr>mt_store := sweep_expired now (mt_store m), mt_last_sweep := now\<rparr>
           else m)"

text \<open>The last swap of the queue, after the loop.\<close>

definition thread_drain :: "(nat \<Rightarrow> nat \<Rightarrow> int) \<Rightarrow> mem_thread \<Rightarrow> mem_thread" where
  "thread_drain clock m = process_batch clock 0 (mt_queue m) (m\<lparr>mt_queue := []\<rparr>)"

end
