(* ===== verification/Mem_Store_Proofs.thy ===== *)
theory Mem_Store_Proofs
  imports Mem_Store
begin

text \<open>
  The store refines a bounded list of entries ordered by recency: a hit moves its key to the front, a new
  key drops the last entry of a full store. The thread answers every request once, in order of submission.
\<close>

subsection \<open>Invariant\<close>

text \<open>The keys of the list are distinct and are the keys of the map.\<close>

definition mem_inv :: "mem_store \<Rightarrow> bool" where
  "mem_inv s \<longleftrightarrow> distinct (ms_lru_list s) \<and> set (ms_lru_list s) = dom (ms_store s)"

lemma mem_inv_size: "mem_inv s \<Longrightarrow> mem_size s = length (ms_lru_list s)"
  by (metis distinct_card mem_inv_def mem_size_def)

lemma mem_inv_empty: "mem_inv (empty_store m)"
  by (simp add: mem_inv_def empty_store_def)

lemma mem_inv_key: "mem_inv s \<Longrightarrow> k \<in> set (ms_lru_list s) \<longleftrightarrow> ms_store s k \<noteq> None"
  by (auto simp: mem_inv_def dom_def)

subsection \<open>The abstract cache\<close>

type_synonym cache = "(string \<times> mem_entry) list"

definition abs_cache :: "mem_store \<Rightarrow> cache" where
  "abs_cache s = map (\<lambda>k. (k, the (ms_store s k))) (ms_lru_list s)"

definition without :: "string \<Rightarrow> cache \<Rightarrow> cache" where
  "without k c = filter (\<lambda>x. fst x \<noteq> k) c"

definition live_entry :: "int \<Rightarrow> string \<Rightarrow> cache \<Rightarrow> mem_entry option" where
  "live_entry now k c = (case map_of c k of Some e \<Rightarrow> if is_expired now e then None else Some e | None \<Rightarrow> None)"

definition cache_get :: "int \<Rightarrow> string \<Rightarrow> cache \<Rightarrow> cache" where
  "cache_get now k c = (case live_entry now k c of Some e \<Rightarrow> (k, e) # without k c | None \<Rightarrow> without k c)"

text \<open>A new first entry; the last one goes when the key is new and the cache is full.\<close>

definition cache_put :: "nat \<Rightarrow> string \<Rightarrow> mem_entry \<Rightarrow> cache \<Rightarrow> cache" where
  "cache_put m k e c =
     (k, e) # (if map_of c k = None \<and> m \<le> length c then butlast c else without k c)"

definition cache_incr :: "nat \<Rightarrow> int \<Rightarrow> string \<Rightarrow> cache \<Rightarrow> cache" where
  "cache_incr m now k c =
     (case live_entry now k c of
        Some e \<Rightarrow> (k, e\<lparr>me_value := to_string_int (incr64 (case stoll (me_value e) of Some v \<Rightarrow> v | None \<Rightarrow> 0))\<rparr>) # without k c
      | None \<Rightarrow> cache_put m k \<lparr>me_value = ''1'', me_expires_at = None\<rparr> (without k c))"

lemma abs_lookup: "mem_inv s \<Longrightarrow> map_of (abs_cache s) k = ms_store s k"
proof -
  assume i: "mem_inv s"
  have "map_of (map (\<lambda>k. (k, f k)) ks) k = (if k \<in> set ks then Some (f k) else None)" for f :: "string \<Rightarrow> mem_entry" and ks
    by (induction ks) auto
  then show ?thesis using mem_inv_key [OF i, of k] by (auto simp: abs_cache_def)
qed

lemma length_abs [simp]: "length (abs_cache s) = length (ms_lru_list s)"
  by (simp add: abs_cache_def)

lemma abs_cong: "(\<And>k. k \<in> set ks \<Longrightarrow> f k = g k) \<Longrightarrow> map (\<lambda>k. (k, the (f k))) ks = map (\<lambda>k. (k, the (g k))) ks"
  by simp

lemma abs_remove:
  assumes "mem_inv s"
  shows "map (\<lambda>k. (k, the (ms_store s k))) (remove1 k (ms_lru_list s)) = without k (abs_cache s)"
  using assms by (simp add: mem_inv_def distinct_remove1_removeAll removeAll_filter_not_eq without_def abs_cache_def filter_map comp_def)
    (simp add: eq_commute)

lemma remove_facts:
  assumes "mem_inv s"
  shows "distinct (remove1 k (ms_lru_list s))" "set (remove1 k (ms_lru_list s)) = dom (ms_store s) - {k}"
  using assms by (auto simp: mem_inv_def)

lemma without_absent: "map_of c k = None \<Longrightarrow> without k c = c"
  by (auto simp: without_def map_of_eq_None_iff filter_id_conv image_iff)

subsection \<open>Each operation keeps the invariant and follows the cache\<close>

lemma erase_entry_abs:
  assumes "mem_inv s"
  shows "mem_inv (erase_entry k s)" "abs_cache (erase_entry k s) = without k (abs_cache s)"
proof -
  show "mem_inv (erase_entry k s)" using remove_facts [OF assms, of k] by (auto simp: mem_inv_def erase_entry_def)
  have "k' \<noteq> k" if "k' \<in> set (remove1 k (ms_lru_list s))" for k' using that remove_facts(2) [OF assms, of k] by auto
  then show "abs_cache (erase_entry k s) = without k (abs_cache s)"
    unfolding abs_remove [OF assms, symmetric] by (simp add: abs_cache_def erase_entry_def)
qed

lemma touch_abs:
  assumes "mem_inv s" "ms_store s k = Some e0"
  shows "mem_inv ((touch k s)\<lparr>ms_store := (ms_store s)(k \<mapsto> e)\<rparr>)"
    "abs_cache ((touch k s)\<lparr>ms_store := (ms_store s)(k \<mapsto> e)\<rparr>) = (k, e) # without k (abs_cache s)"
proof -
  show "mem_inv ((touch k s)\<lparr>ms_store := (ms_store s)(k \<mapsto> e)\<rparr>)"
    using remove_facts [OF assms(1), of k] assms(2) by (auto simp: mem_inv_def touch_def)
  have "k' \<noteq> k" if "k' \<in> set (remove1 k (ms_lru_list s))" for k' using that remove_facts(2) [OF assms(1), of k] by auto
  then show "abs_cache ((touch k s)\<lparr>ms_store := (ms_store s)(k \<mapsto> e)\<rparr>) = (k, e) # without k (abs_cache s)"
    unfolding abs_remove [OF assms(1), symmetric] by (simp add: abs_cache_def touch_def)
qed

lemma touch_same: "ms_store s k = Some e \<Longrightarrow> touch k s = (touch k s)\<lparr>ms_store := (ms_store s)(k \<mapsto> e)\<rparr>"
  by (cases s) (simp add: touch_def fun_upd_idem)

lemma evict_map:
  "distinct ks \<Longrightarrow> map (\<lambda>k. (k, the ((f(last ks := None)) k))) (butlast ks) = butlast (map (\<lambda>k. (k, the (f k))) ks)"
  by (cases ks rule: rev_cases) auto

lemma make_room_abs:
  assumes "mem_inv s" "ms_store s k = None"
  shows "mem_inv (make_room s)" "ms_store (make_room s) k = None"
    "abs_cache (make_room s) = (if ms_max_entries s \<le> length (abs_cache s) then butlast (abs_cache s) else abs_cache s)"
proof -
  have l: "distinct (butlast l)" "set (butlast l) = set l - {last l}" if "distinct l" "l \<noteq> []" for l :: "string list"
    using that by (cases l rule: rev_cases; auto)+
  have d: "distinct (ms_lru_list s)" using assms(1) by (simp add: mem_inv_def)
  have a: "abs_cache (evict_lru s) = butlast (abs_cache s)"
    by (simp add: abs_cache_def evict_lru_def evict_map [OF d] del: fun_upd_apply)
  have "mem_inv (evict_lru s)" using assms(1) l [of "ms_lru_list s"] by (auto simp: mem_inv_def evict_lru_def)
  then show "mem_inv (make_room s)" "ms_store (make_room s) k = None"
    "abs_cache (make_room s) = (if ms_max_entries s \<le> length (abs_cache s) then butlast (abs_cache s) else abs_cache s)"
    using assms a mem_inv_size [OF assms(1)] by (auto simp: make_room_def evict_lru_def)
qed

lemma add_entry_abs:
  assumes "mem_inv s" "ms_store s k = None"
  shows "mem_inv (add_entry k e (make_room s))" "abs_cache (add_entry k e (make_room s)) = cache_put (ms_max_entries s) k e (abs_cache s)"
proof -
  note m = make_room_abs [OF assms]
  have k: "k \<notin> set (ms_lru_list (make_room s))" using m(1,2) mem_inv_key by blast
  then show "mem_inv (add_entry k e (make_room s))" using m(1) by (auto simp: mem_inv_def add_entry_def)
  have "abs_cache (add_entry k e (make_room s)) = (k, e) # abs_cache (make_room s)"
    using k by (auto simp: abs_cache_def add_entry_def)
  then show "abs_cache (add_entry k e (make_room s)) = cache_put (ms_max_entries s) k e (abs_cache s)"
    using m(3) abs_lookup [OF assms(1), of k] assms(2) by (simp add: cache_put_def without_absent)
qed


lemma do_get_abs:
  assumes "mem_inv s" "do_get now k s = (r, s')"
  shows "mem_inv s'" "abs_cache s' = cache_get now k (abs_cache s)" "r = map_option me_value (live_entry now k (abs_cache s))"
    "ms_max_entries s' = ms_max_entries s"
proof -
  have stats: "mem_inv (x\<lparr>ms_hits := h\<rparr>) = mem_inv x" "mem_inv (x\<lparr>ms_misses := h\<rparr>) = mem_inv x"
    "abs_cache (x\<lparr>ms_hits := h\<rparr>) = abs_cache x" "abs_cache (x\<lparr>ms_misses := h\<rparr>) = abs_cache x" for x h
    by (simp_all add: mem_inv_def abs_cache_def)
  have "mem_inv s' \<and> abs_cache s' = cache_get now k (abs_cache s) \<and> r = map_option me_value (live_entry now k (abs_cache s)) \<and>
      ms_max_entries s' = ms_max_entries s"
  proof (cases "ms_store s k")
    case None
    then show ?thesis using assms abs_lookup [OF assms(1), of k] without_absent [of "abs_cache s" k]
      by (auto simp: do_get_def stats cache_get_def live_entry_def)
  next
    case (Some e)
    note t = touch_abs [OF assms(1) Some, of e, folded touch_same [OF Some]]
    show ?thesis using assms Some abs_lookup [OF assms(1), of k] erase_entry_abs [OF assms(1), of k] t
      by (auto simp: do_get_def stats cache_get_def live_entry_def touch_def erase_entry_def split: if_splits)
  qed
  then show "mem_inv s'" "abs_cache s' = cache_get now k (abs_cache s)" "r = map_option me_value (live_entry now k (abs_cache s))"
    "ms_max_entries s' = ms_max_entries s" by blast+
qed

lemma do_set_abs:
  assumes "mem_inv s"
  shows "mem_inv (snd (do_set now k v ttl s))"
    "abs_cache (snd (do_set now k v ttl s)) =
       cache_put (ms_max_entries s) k \<lparr>me_value = v, me_expires_at = expiry now ttl\<rparr> (abs_cache s)"
    "ms_max_entries (snd (do_set now k v ttl s)) = ms_max_entries s"
proof -
  have "mem_inv (snd (do_set now k v ttl s)) \<and> abs_cache (snd (do_set now k v ttl s)) =
       cache_put (ms_max_entries s) k \<lparr>me_value = v, me_expires_at = expiry now ttl\<rparr> (abs_cache s)"
  proof (cases "ms_store s k")
    case None
    then show ?thesis using add_entry_abs [OF assms None] by (simp add: do_set_def)
  next
    case (Some e)
    then show ?thesis using touch_abs [OF assms Some] abs_lookup [OF assms, of k] by (simp add: do_set_def cache_put_def)
  qed
  then show "mem_inv (snd (do_set now k v ttl s))"
    "abs_cache (snd (do_set now k v ttl s)) =
       cache_put (ms_max_entries s) k \<lparr>me_value = v, me_expires_at = expiry now ttl\<rparr> (abs_cache s)" by blast+
  show "ms_max_entries (snd (do_set now k v ttl s)) = ms_max_entries s"
    by (simp add: do_set_def add_entry_def make_room_def evict_lru_def touch_def Let_def split: option.splits)
qed

lemma do_del_abs:
  assumes "mem_inv s" "do_del k s = (b, s')"
  shows "mem_inv s'" "abs_cache s' = without k (abs_cache s)" "b = (map_of (abs_cache s) k \<noteq> None)"
    "ms_max_entries s' = ms_max_entries s"
  using assms abs_lookup [OF assms(1), of k] without_absent [of "abs_cache s" k] erase_entry_abs [OF assms(1), of k]
  by (auto simp: do_del_def erase_entry_def split: option.splits)

lemma do_incr_abs:
  assumes "mem_inv s"
  shows "mem_inv (snd (do_incr now k s))" "abs_cache (snd (do_incr now k s)) = cache_incr (ms_max_entries s) now k (abs_cache s)"
    "ms_max_entries (snd (do_incr now k s)) = ms_max_entries s"
proof -
  have "mem_inv (snd (do_incr now k s)) \<and> abs_cache (snd (do_incr now k s)) = cache_incr (ms_max_entries s) now k (abs_cache s)"
  proof (cases "ms_store s k")
    case None
    then show ?thesis using add_entry_abs [OF assms None] abs_lookup [OF assms, of k] without_absent [of "abs_cache s" k]
      by (simp add: do_incr_def cache_incr_def live_entry_def)
  next
    case (Some e)
    have "ms_store (erase_entry k s) k = None" by (simp add: erase_entry_def)
    from add_entry_abs [OF erase_entry_abs(1) [OF assms, of k] this] show ?thesis
      using Some touch_abs [OF assms Some] abs_lookup [OF assms, of k] erase_entry_abs(2) [OF assms, of k]
      by (auto simp: do_incr_def cache_incr_def live_entry_def erase_entry_def Let_def)
  qed
  then show "mem_inv (snd (do_incr now k s))" "abs_cache (snd (do_incr now k s)) = cache_incr (ms_max_entries s) now k (abs_cache s)"
    by blast+
  show "ms_max_entries (snd (do_incr now k s)) = ms_max_entries s"
    by (simp add: do_incr_def add_entry_def make_room_def evict_lru_def touch_def erase_entry_def Let_def split: option.splits)
qed

lemma sweep_abs:
  assumes "mem_inv s"
  shows "mem_inv (sweep_expired now s)"
    "abs_cache (sweep_expired now s) = filter (\<lambda>x. \<not> is_expired now (snd x)) (abs_cache s)"
    "ms_max_entries (sweep_expired now s) = ms_max_entries s"
proof -
  define live where "live = (\<lambda>k. case ms_store s k of Some e \<Rightarrow> \<not> is_expired now e | None \<Rightarrow> False)"
  have d: "sweep_expired now s = s\<lparr>ms_store := (\<lambda>k. if live k then ms_store s k else None), ms_lru_list := filter live (ms_lru_list s)\<rparr>"
    by (simp add: sweep_expired_def live_def)
  have l: "live k \<longleftrightarrow> \<not> is_expired now (the (ms_store s k))" if "k \<in> set (ms_lru_list s)" for k
    using mem_inv_key [OF assms, of k] that by (auto simp: live_def)
  show "mem_inv (sweep_expired now s)" using assms by (auto simp: d mem_inv_def dom_def live_def split: option.splits if_splits)
  show "abs_cache (sweep_expired now s) = filter (\<lambda>x. \<not> is_expired now (snd x)) (abs_cache s)"
    using l by (simp add: d abs_cache_def filter_map comp_def cong: filter_cong)
  show "ms_max_entries (sweep_expired now s) = ms_max_entries s" by (simp add: d)
qed


subsection \<open>Requests\<close>

fun cache_get_many :: "(nat \<Rightarrow> int) \<Rightarrow> nat \<Rightarrow> string list \<Rightarrow> cache \<Rightarrow> string option list \<times> cache" where
  "cache_get_many clock i [] c = ([], c)"
| "cache_get_many clock i (k # ks) c =
     (case cache_get_many clock (i + 1) ks (cache_get (clock i) k c) of
        (rs, c') \<Rightarrow> (map_option me_value (live_entry (clock i) k c) # rs, c'))"

fun cache_del_many :: "string list \<Rightarrow> cache \<Rightarrow> int \<times> cache" where
  "cache_del_many [] c = (0, c)"
| "cache_del_many (k # ks) c =
     (case cache_del_many ks (without k c) of (n, c') \<Rightarrow> (if map_of c k \<noteq> None then n + 1 else n, c'))"

definition cache_step :: "nat \<Rightarrow> (nat \<Rightarrow> int) \<Rightarrow> mem_op \<Rightarrow> cache \<Rightarrow> mem_result \<times> cache" where
  "cache_step m clock op c =
     (case op of
        OpGet k \<Rightarrow> (RStr (map_option me_value (live_entry (clock 0) k c)), cache_get (clock 0) k c)
      | OpMGet ks \<Rightarrow> (case cache_get_many clock 0 ks c of (rs, c) \<Rightarrow> (RMStr rs, c))
      | OpSet k v ttl \<Rightarrow> (RBool True, cache_put m k \<lparr>me_value = v, me_expires_at = expiry (clock 0) ttl\<rparr> c)
      | OpDel k \<Rightarrow> (RBool (map_of c k \<noteq> None), without k c)
      | OpDelMany ks \<Rightarrow> (case cache_del_many ks c of (n, c) \<Rightarrow> (RInt n, c))
      | OpIncr k \<Rightarrow>
          (RInt (case live_entry (clock 0) k c of
                   Some e \<Rightarrow> incr64 (case stoll (me_value e) of Some v \<Rightarrow> v | None \<Rightarrow> 0)
                 | None \<Rightarrow> 1),
           cache_incr m (clock 0) k c))"

lemma get_many_abs:
  "mem_inv s \<Longrightarrow> get_many clock i ks s = (rs, s') \<Longrightarrow>
     mem_inv s' \<and> cache_get_many clock i ks (abs_cache s) = (rs, abs_cache s') \<and> ms_max_entries s' = ms_max_entries s"
proof (induction ks arbitrary: i s rs)
  case (Cons k ks)
  obtain r s1 where g: "do_get (clock i) k s = (r, s1)" by (cases "do_get (clock i) k s")
  obtain rs1 where m: "get_many clock (i + 1) ks s1 = (rs1, s')" "rs = r # rs1"
    using Cons.prems(2) g by (auto split: prod.splits)
  show ?case using Cons.IH [OF _ m(1)] do_get_abs [OF Cons.prems(1) g] m(2) by auto
qed simp

lemma del_many_abs:
  "mem_inv s \<Longrightarrow> del_many ks s = (n, s') \<Longrightarrow>
     mem_inv s' \<and> cache_del_many ks (abs_cache s) = (n, abs_cache s') \<and> ms_max_entries s' = ms_max_entries s"
proof (induction ks arbitrary: s n)
  case (Cons k ks)
  obtain b s1 where g: "do_del k s = (b, s1)" by (cases "do_del k s")
  obtain n1 where m: "del_many ks s1 = (n1, s')" "n = (if b then n1 + 1 else n1)"
    using Cons.prems(2) g by (auto split: prod.splits)
  show ?case using Cons.IH [OF _ m(1)] do_del_abs [OF Cons.prems(1) g] m(2) by auto
qed simp

lemma do_incr_value:
  assumes "mem_inv s"
  shows "fst (do_incr now k s) = (case live_entry now k (abs_cache s) of
     Some e \<Rightarrow> incr64 (case stoll (me_value e) of Some v \<Rightarrow> v | None \<Rightarrow> 0) | None \<Rightarrow> 1)"
  using abs_lookup [OF assms, of k] by (auto simp: do_incr_def live_entry_def Let_def split: option.splits)

lemma mem_process_abs:
  assumes "mem_inv s" "mem_process clock op s = (r, s')"
  shows "mem_inv s' \<and> cache_step (ms_max_entries s) clock op (abs_cache s) = (r, abs_cache s') \<and> ms_max_entries s' = ms_max_entries s"
proof (cases op)
  case (OpGet k)
  then show ?thesis using assms do_get_abs [OF assms(1)] by (auto simp: mem_process_def cache_step_def split: prod.splits)
next
  case (OpMGet ks)
  then show ?thesis using assms get_many_abs [OF assms(1)] by (auto simp: mem_process_def cache_step_def split: prod.splits)
next
  case (OpSet k v ttl)
  have "fst (do_set (clock 0) k v ttl s) = True" by (simp add: do_set_def Let_def)
  then show ?thesis using assms(2) OpSet do_set_abs [OF assms(1), of "clock 0" k v ttl]
    by (auto simp: mem_process_def cache_step_def split: prod.splits)
next
  case (OpDel k)
  then show ?thesis using assms do_del_abs [OF assms(1)] by (auto simp: mem_process_def cache_step_def split: prod.splits)
next
  case (OpDelMany ks)
  then show ?thesis using assms del_many_abs [OF assms(1)] by (auto simp: mem_process_def cache_step_def split: prod.splits)
next
  case (OpIncr k)
  then show ?thesis using assms(2) do_incr_abs [OF assms(1), of "clock 0" k] do_incr_value [OF assms(1), of "clock 0" k]
    by (auto simp: mem_process_def cache_step_def split: prod.splits)
qed

subsection \<open>Sequences of requests\<close>

primrec mem_run :: "(mem_op \<times> (nat \<Rightarrow> int)) list \<Rightarrow> mem_store \<Rightarrow> mem_result list \<times> mem_store" where
  "mem_run [] s = ([], s)"
| "mem_run (x # xs) s =
     (case mem_process (snd x) (fst x) s of (r, s) \<Rightarrow> case mem_run xs s of (rs, s) \<Rightarrow> (r # rs, s))"

primrec cache_run :: "nat \<Rightarrow> (mem_op \<times> (nat \<Rightarrow> int)) list \<Rightarrow> cache \<Rightarrow> mem_result list \<times> cache" where
  "cache_run m [] c = ([], c)"
| "cache_run m (x # xs) c =
     (case cache_step m (snd x) (fst x) c of (r, c) \<Rightarrow> case cache_run m xs c of (rs, c) \<Rightarrow> (r # rs, c))"

lemma mem_run_abs:
  "mem_inv s \<Longrightarrow> mem_run ops s = (rs, s') \<Longrightarrow>
     mem_inv s' \<and> cache_run (ms_max_entries s) ops (abs_cache s) = (rs, abs_cache s') \<and> ms_max_entries s' = ms_max_entries s"
proof (induction ops arbitrary: s rs)
  case (Cons x xs)
  obtain r s1 where p: "mem_process (snd x) (fst x) s = (r, s1)" by (cases "mem_process (snd x) (fst x) s")
  obtain rs1 where m: "mem_run xs s1 = (rs1, s')" "rs = r # rs1" using Cons.prems(2) p by (auto split: prod.splits)
  show ?case using Cons.IH [OF _ m(1)] mem_process_abs [OF Cons.prems(1) p] m(2) by auto
qed simp

text \<open>
  C24: The in-memory store is a least-recently-used cache. Over any sequence of requests with any clock
  readings, its answers and its content are those of a list of entries ordered by recency, in which a hit
  or a write moves its key to the front, an expired entry is dropped when it is read, and a new key drops
  exactly the last entry of a full list.
\<close>

theorem memstore_is_lru_cache:
  "fst (mem_run ops (empty_store m)) = fst (cache_run m ops []) \<and>
   abs_cache (snd (mem_run ops (empty_store m))) = snd (cache_run m ops [])"
proof -
  obtain rs s where r: "mem_run ops (empty_store m) = (rs, s)" by (cases "mem_run ops (empty_store m)")
  have "abs_cache (empty_store m) = []" "ms_max_entries (empty_store m) = m" by (simp_all add: abs_cache_def empty_store_def)
  then show ?thesis using mem_run_abs [OF mem_inv_empty r] r by simp
qed


subsection \<open>The bound\<close>

definition mem_bounded :: "mem_store \<Rightarrow> bool" where
  "mem_bounded s \<longleftrightarrow> mem_inv s \<and> length (abs_cache s) \<le> max 1 (ms_max_entries s)"

lemma without_le: "length (without k c) \<le> length c" "map_of c k \<noteq> None \<Longrightarrow> length (without k c) < length c"
proof -
  show "length (without k c) \<le> length c" by (simp add: without_def)
  assume "map_of c k \<noteq> None"
  then have "\<exists>x \<in> set c. \<not> fst x \<noteq> k" by (auto simp: map_of_eq_None_iff)
  then show "length (without k c) < length c" unfolding without_def by (blast intro: length_filter_less)
qed

lemma live_entry_present: "live_entry now k c = Some e \<Longrightarrow> map_of c k \<noteq> None"
  by (auto simp: live_entry_def split: option.splits)

lemma cache_put_le: "length c \<le> max 1 m \<Longrightarrow> length (cache_put m k e c) \<le> max 1 m"
  using without_le(1) [of k c] without_le(2) [of c k] by (auto simp: cache_put_def without_absent)

lemma cache_get_le: "length (cache_get now k c) \<le> length c"
  using without_le(1) [of k c] without_le(2) [of c k] live_entry_present [of now k c] by (fastforce simp: cache_get_def split: option.splits)

lemma cache_incr_le: "length c \<le> max 1 m \<Longrightarrow> length (cache_incr m now k c) \<le> max 1 m"
proof (cases "live_entry now k c")
  case None
  assume "length c \<le> max 1 m"
  then have "length (without k c) \<le> max 1 m" using without_le(1) [of k c] by simp
  then show ?thesis using cache_put_le None by (simp add: cache_incr_def)
next
  case (Some e)
  assume "length c \<le> max 1 m"
  then show ?thesis using without_le(2) [OF live_entry_present [OF Some]] Some by (simp add: cache_incr_def)
qed

lemma cache_get_many_le: "length (snd (cache_get_many clock i ks c)) \<le> length c"
proof (induction ks arbitrary: i c)
  case (Cons k ks)
  show ?case using Cons [of "i + 1" "cache_get (clock i) k c"] cache_get_le [of "clock i" k c]
    by (simp add: case_prod_beta)
qed simp

lemma cache_del_many_le: "length (snd (cache_del_many ks c)) \<le> length c"
proof (induction ks arbitrary: c)
  case (Cons k ks)
  show ?case using Cons [of "without k c"] without_le(1) [of k c] by (simp add: case_prod_beta)
qed simp

lemma cache_step_le: "length c \<le> max 1 m \<Longrightarrow> length (snd (cache_step m clock op c)) \<le> max 1 m"
proof (cases op)
  case (OpGet k)
  assume "length c \<le> max 1 m"
  then show ?thesis using OpGet cache_get_le [of "clock 0" k c] by (simp add: cache_step_def)
next
  case (OpMGet ks)
  assume "length c \<le> max 1 m"
  then show ?thesis using OpMGet cache_get_many_le [of clock 0 ks c] by (simp add: cache_step_def case_prod_beta)
next
  case (OpDel k)
  assume "length c \<le> max 1 m"
  then show ?thesis using OpDel without_le(1) [of k c] by (simp add: cache_step_def)
next
  case (OpDelMany ks)
  assume "length c \<le> max 1 m"
  then show ?thesis using OpDelMany cache_del_many_le [of ks c] by (simp add: cache_step_def case_prod_beta)
qed (use cache_put_le cache_incr_le in \<open>auto simp: cache_step_def\<close>)

lemma mem_process_bounded: "mem_bounded s \<Longrightarrow> mem_process clock op s = (r, s') \<Longrightarrow> mem_bounded s' \<and> ms_max_entries s' = ms_max_entries s"
  using mem_process_abs [of s clock op r s'] cache_step_le [of "abs_cache s" "ms_max_entries s" clock op] by (auto simp: mem_bounded_def)

lemma sweep_bounded: "mem_bounded s \<Longrightarrow> mem_bounded (sweep_expired now s)"
proof -
  assume b: "mem_bounded s"
  then have i: "mem_inv s" by (simp add: mem_bounded_def)
  have "length (filter (\<lambda>x. \<not> is_expired now (snd x)) (abs_cache s)) \<le> length (abs_cache s)" by (rule length_filter_le)
  then have "length (abs_cache (sweep_expired now s)) \<le> length (abs_cache s)" unfolding sweep_abs(2) [OF i] .
  then show ?thesis using b sweep_abs(1,3) [OF i, of now] unfolding mem_bounded_def by linarith
qed

subsection \<open>The thread\<close>

text \<open>
  The moves of the workers and of the thread. A round takes the queue at the moment of the swap; requests
  submitted while it runs are submitted after it.
\<close>

inductive mem_reach :: "nat \<Rightarrow> mem_op list \<Rightarrow> mem_thread \<Rightarrow> bool" for m where
  mr_start: "mem_reach m [] (start_thread m now)"
| mr_submit: "mem_reach m sent t \<Longrightarrow> mem_reach m (sent @ [op]) (submit_op op t)"
| mr_stop: "mem_reach m sent t \<Longrightarrow> mem_reach m sent (set_stop t)"
| mr_round: "mem_reach m sent t \<Longrightarrow> mt_running t \<Longrightarrow> mem_reach m sent (thread_round clock now interval t)"
| mr_drain: "mem_reach m sent t \<Longrightarrow> \<not> mt_running t \<Longrightarrow> mem_reach m sent (thread_drain clock t)"

inductive_cases mem_reach_cases: "mem_reach m sent t"

definition thread_ok :: "nat \<Rightarrow> mem_op list \<Rightarrow> mem_thread \<Rightarrow> bool" where
  "thread_ok m sent t \<longleftrightarrow>
     map fst (mt_answered t) @ mt_queue t = sent \<and> mem_bounded (mt_store t) \<and> ms_max_entries (mt_store t) = m"

lemma process_batch_ok:
  "mem_bounded (mt_store t) \<Longrightarrow>
     map fst (mt_answered (process_batch clock i ops t)) = map fst (mt_answered t) @ ops \<and>
     mt_queue (process_batch clock i ops t) = mt_queue t \<and> mem_bounded (mt_store (process_batch clock i ops t)) \<and>
     ms_max_entries (mt_store (process_batch clock i ops t)) = ms_max_entries (mt_store t)"
proof (induction ops arbitrary: i t)
  case (Cons op ops)
  obtain r s where p: "mem_process (clock i) op (mt_store t) = (r, s)" by (cases "mem_process (clock i) op (mt_store t)")
  show ?case using Cons.IH [of "process_one (clock i) op t" "i + 1"] mem_process_bounded [OF Cons.prems p] p
    by (simp add: process_one_def)
qed simp

lemma mem_reach_ok: "mem_reach m sent t \<Longrightarrow> thread_ok m sent t"
proof (induction rule: mem_reach.induct)
  case (mr_start now)
  have "abs_cache (empty_store m) = []" "ms_max_entries (empty_store m) = m" by (simp_all add: abs_cache_def empty_store_def)
  then show ?case using mem_inv_empty by (simp add: thread_ok_def start_thread_def mem_bounded_def)
next
  case (mr_round sent t clock now interval)
  then have "mem_bounded (mt_store t)" by (simp add: thread_ok_def)
  note p = process_batch_ok [of "t\<lparr>mt_queue := []\<rparr>" clock 0 "mt_queue t", simplified, OF this]
  from p have "mem_inv (mt_store (process_batch clock 0 (mt_queue t) (t\<lparr>mt_queue := []\<rparr>)))" by (simp add: mem_bounded_def)
  then show ?case using mr_round.IH p sweep_bounded sweep_abs(3) by (auto simp: thread_ok_def thread_round_def Let_def)
next
  case (mr_drain sent t clock)
  then show ?case using process_batch_ok [of "t\<lparr>mt_queue := []\<rparr>" clock 0 "mt_queue t"]
    by (auto simp: thread_ok_def thread_drain_def)
qed (auto simp: thread_ok_def submit_op_def set_stop_def)

text \<open>
  C25: The store's thread answers in order. In every reachable state of the workers and the thread, the
  requests answered so far followed by those waiting are exactly the requests submitted, in order: none is
  lost, repeated or overtaken. The map and the recency list agree, and the store never holds more entries
  than it is configured for (one, when configured for none).
\<close>

theorem memstore_thread_fifo:
  assumes "mem_reach m sent t"
  shows "map fst (mt_answered t) @ mt_queue t = sent \<and> mem_inv (mt_store t) \<and> mem_size (mt_store t) \<le> max 1 m"
  using mem_reach_ok [OF assms] mem_inv_size [of "mt_store t"] by (auto simp: thread_ok_def mem_bounded_def)

theorem memstore_thread_fifo_witness:
  "map fst (mt_answered (thread_round (\<lambda>i j. 0) 1 500 (submit_op (OpIncr ''k'') (start_thread 2 0)))) = [OpIncr ''k'']"
proof -
  have "mem_reach 2 ([] @ [OpIncr ''k'']) (submit_op (OpIncr ''k'') (start_thread 2 0))"
    by (rule mem_reach.mr_submit [OF mem_reach.mr_start])
  moreover have "mt_running (submit_op (OpIncr ''k'') (start_thread 2 0))" by (simp add: submit_op_def start_thread_def)
  ultimately have "mem_reach 2 [OpIncr ''k''] (thread_round (\<lambda>i j. 0) 1 500 (submit_op (OpIncr ''k'') (start_thread 2 0)))"
    using mem_reach.mr_round by fastforce
  moreover have "mt_queue (thread_round (\<lambda>i j. 0) 1 500 (submit_op (OpIncr ''k'') (start_thread 2 0))) = []"
    using process_batch_ok [of "start_thread 2 0" "\<lambda>i j. 0" 0 "[OpIncr ''k'']"]
    by (simp add: thread_round_def submit_op_def start_thread_def process_one_def Let_def split: prod.splits)
  ultimately show ?thesis using memstore_thread_fifo by fastforce
qed

end
