(* ===== verification/Redis_Codec.thy ===== *)
theory Redis_Codec
  imports Http1_Parser
begin

unbundle bit_operations_syntax

text \<open>
  \<^verbatim>\<open>src/data/redis/Resp3.h\<close>, \<^verbatim>\<open>Resp3.cpp\<close> and \<^verbatim>\<open>Crc16.h\<close>: the values of the Redis protocol, the
  incremental parser of replies, the writer of commands, and the slot of a key in a cluster.

  A double is a value of a type \<open>'d\<close> with \<^verbatim>\<open>std::stod\<close> as a parameter; whether a vector of \<open>n\<close> replies
  can be allocated is the parameter \<open>alloc\<close>. The parser calls itself on the elements of a reply; its
  model counts the nesting with a fuel of one more than the length of the input, which always suffices.
\<close>

subsection \<open>Values\<close>

datatype 'd resp_value =
    RNull
  | RSimple string
  | RError string
  | RInteger int
  | RBulk string
  | RArray "'d resp_value list"
  | RBoolean bool
  | RDouble 'd
  | RPush "'d resp_value list"

definition is_null :: "'d resp_value \<Rightarrow> bool" where
  "is_null v = (case v of RNull \<Rightarrow> True | _ \<Rightarrow> False)"

definition is_boolean :: "'d resp_value \<Rightarrow> bool" where
  "is_boolean v = (case v of RBoolean b \<Rightarrow> True | _ \<Rightarrow> False)"

definition is_double :: "'d resp_value \<Rightarrow> bool" where
  "is_double v = (case v of RDouble d \<Rightarrow> True | _ \<Rightarrow> False)"

definition is_error :: "'d resp_value \<Rightarrow> bool" where
  "is_error v = (case v of RError s \<Rightarrow> True | _ \<Rightarrow> False)"

definition is_string :: "'d resp_value \<Rightarrow> bool" where
  "is_string v = (case v of RSimple s \<Rightarrow> True | RBulk s \<Rightarrow> True | _ \<Rightarrow> False)"

definition is_integer :: "'d resp_value \<Rightarrow> bool" where
  "is_integer v = (case v of RInteger i \<Rightarrow> True | _ \<Rightarrow> False)"

definition is_array :: "'d resp_value \<Rightarrow> bool" where
  "is_array v = (case v of RArray vs \<Rightarrow> True | RPush vs \<Rightarrow> True | _ \<Rightarrow> False)"

definition as_string :: "'d resp_value \<Rightarrow> string" where
  "as_string v = (case v of RSimple s \<Rightarrow> s | RError s \<Rightarrow> s | RBulk s \<Rightarrow> s | _ \<Rightarrow> [])"

definition as_integer :: "'d resp_value \<Rightarrow> int" where
  "as_integer v = (case v of RInteger i \<Rightarrow> i | _ \<Rightarrow> 0)"

definition as_boolean :: "'d resp_value \<Rightarrow> bool" where
  "as_boolean v = (case v of RBoolean b \<Rightarrow> b | _ \<Rightarrow> False)"

definition as_double :: "'d \<Rightarrow> 'd resp_value \<Rightarrow> 'd" where
  "as_double zero v = (case v of RDouble d \<Rightarrow> d | _ \<Rightarrow> zero)"

definition as_array :: "'d resp_value \<Rightarrow> 'd resp_value list" where
  "as_array v = (case v of RArray vs \<Rightarrow> vs | RPush vs \<Rightarrow> vs | _ \<Rightarrow> [])"

lemmas resp_access = is_error_def is_string_def is_integer_def is_array_def as_string_def as_integer_def as_array_def

subsection \<open>The parser\<close>

text \<open>
  What can go wrong beyond a reported status: the exceptions of \<^verbatim>\<open>reserve\<close>, of \<^verbatim>\<open>std::stoi\<close> and of the client,
  and two operations whose behaviour C++ leaves undefined.
\<close>

datatype fault = LengthError | BadAlloc | InvalidArgument | OutOfRange | RuntimeError
  | SignedOverflow | OutOfBounds | NullPointer

datatype 'd parsed =
    Done "'d resp_value" string
  | NeedMoreData
  | ParseError
  | Raised fault
  | OutOfFuel

text \<open>\<^verbatim>\<open>std::from_chars\<close> on \<^verbatim>\<open>int64_t\<close>: an optional minus sign, then the leading digits.\<close>

definition from_chars_i64 :: "string \<Rightarrow> int option" where
  "from_chars_i64 s =
     (let neg = (s \<noteq> [] \<and> hd s = CHR ''-'');
          ds = takeWhile is_digit (if neg then tl s else s)
      in if ds = [] then None
         else if neg then (if dec_val ds \<le> 2 ^ 63 then Some (- int (dec_val ds)) else None)
         else if dec_val ds < 2 ^ 63 then Some (int (dec_val ds)) else None)"

definition resp_find_crlf :: "string \<Rightarrow> nat option" where
  "resp_find_crlf s = sv_find_str [CR, LF] s 0"

text \<open>\<^verbatim>\<open>max_size()\<close> of a vector of replies, which take 48 bytes each.\<close>

definition resp_vector_max :: nat where
  "resp_vector_max = (2 ^ 63 - 1) div 48"

definition to_size :: "int \<Rightarrow> nat" where
  "to_size i = nat (i mod 2 ^ 64)"

primrec read_elems :: "(string \<Rightarrow> 'd parsed) \<Rightarrow> nat \<Rightarrow> 'd resp_value list \<Rightarrow> string \<Rightarrow>
    ('d resp_value list \<times> string) + 'd parsed" where
  "read_elems p 0 arr s = Inl (arr, s)"
| "read_elems p (Suc n) arr s =
     (case p s of
        Done v s' \<Rightarrow> read_elems p n (arr @ [v]) s'
      | r \<Rightarrow> Inr r)"

definition read_aggregate :: "(nat \<Rightarrow> bool) \<Rightarrow> (string \<Rightarrow> 'd parsed) \<Rightarrow>
    ('d resp_value list \<Rightarrow> 'd resp_value) \<Rightarrow> int \<Rightarrow> string \<Rightarrow> 'd parsed" where
  "read_aggregate alloc p mk count s =
     (if resp_vector_max < to_size count then Raised LengthError
      else if 0 < to_size count \<and> \<not> alloc (to_size count) then Raised BadAlloc
      else (case read_elems p (nat count) [] s of Inl (arr, s') \<Rightarrow> Done (mk arr) s' | Inr r \<Rightarrow> r))"

definition parse_bulk :: "string \<Rightarrow> nat \<Rightarrow> int \<Rightarrow> 'd parsed" where
  "parse_bulk s crlf_pos len =
     (if len = - 1 then Done RNull (drop (crlf_pos + 2) s)
      else
        let total_needed = size_wrap (crlf_pos + 2 + to_size len + 2)
        in if length s < total_needed then NeedMoreData
           else Done (RBulk (substr s (crlf_pos + 2) (to_size len))) (drop total_needed s))"

fun resp_parse :: "(nat \<Rightarrow> bool) \<Rightarrow> (string \<Rightarrow> 'd option) \<Rightarrow> nat \<Rightarrow> string \<Rightarrow> 'd parsed" where
  "resp_parse alloc stod 0 s = OutOfFuel"
| "resp_parse alloc stod (Suc fuel) s =
     (if s = [] then NeedMoreData
      else if hd s \<notin> set ''+-:_#,$*>~%'' then ParseError
      else
        (case resp_find_crlf s of
           None \<Rightarrow> NeedMoreData
         | Some crlf_pos \<Rightarrow>
             let arg = substr s 1 (crlf_pos - 1);
                 rest = drop (crlf_pos + 2) s
             in if hd s = CHR ''+'' then Done (RSimple arg) rest
                else if hd s = CHR ''-'' then Done (RError arg) rest
                else if hd s = CHR '':''
                then (case from_chars_i64 arg of None \<Rightarrow> ParseError | Some i \<Rightarrow> Done (RInteger i) rest)
                else if hd s = CHR ''_'' then Done RNull rest
                else if hd s = CHR ''#'' then Done (RBoolean (1 < length s \<and> s ! 1 = CHR ''t'')) rest
                else if hd s = CHR '',''
                then (case stod arg of None \<Rightarrow> ParseError | Some d \<Rightarrow> Done (RDouble d) rest)
                else if hd s = CHR ''$''
                then (case from_chars_i64 arg of None \<Rightarrow> ParseError | Some len \<Rightarrow> parse_bulk s crlf_pos len)
                else if hd s = CHR ''%''
                then (case from_chars_i64 arg of
                        None \<Rightarrow> ParseError
                      | Some count \<Rightarrow>
                          if 2 ^ 62 \<le> count \<or> count < - (2 ^ 62) then Raised SignedOverflow
                          else read_aggregate alloc (resp_parse alloc stod fuel) RArray (count * 2) rest)
                else (case from_chars_i64 arg of
                        None \<Rightarrow> ParseError
                      | Some count \<Rightarrow>
                          if count = - 1 then Done RNull rest
                          else read_aggregate alloc (resp_parse alloc stod fuel)
                                 (if hd s = CHR ''>'' then RPush else RArray) count rest)))"

declare resp_parse.simps [simp del]

definition resp3_parse :: "(nat \<Rightarrow> bool) \<Rightarrow> (string \<Rightarrow> 'd option) \<Rightarrow> string \<Rightarrow> 'd parsed" where
  "resp3_parse alloc stod s = resp_parse alloc stod (Suc (length s)) s"

subsection \<open>Commands\<close>

definition serialize_arg :: "string \<Rightarrow> string" where
  "serialize_arg arg = CHR ''$'' # to_chars 10 (length arg) @ [CR, LF] @ arg @ [CR, LF]"

definition serialize_command :: "string list \<Rightarrow> string" where
  "serialize_command args =
     CHR ''*'' # to_chars 10 (length args) @ [CR, LF] @ concat (map serialize_arg args)"

subsection \<open>Slots of a cluster\<close>

definition crc16_values :: "int list" where
  "crc16_values = [
     0x0000, 0x1021, 0x2042, 0x3063, 0x4084, 0x50a5, 0x60c6, 0x70e7,
     0x8108, 0x9129, 0xa14a, 0xb16b, 0xc18c, 0xd1ad, 0xe1ce, 0xf1ef,
     0x1231, 0x0210, 0x3273, 0x2252, 0x52b5, 0x4294, 0x72f7, 0x62d6,
     0x9339, 0x8318, 0xb37b, 0xa35a, 0xd3bd, 0xc39c, 0xf3ff, 0xe3de,
     0x2462, 0x3443, 0x0420, 0x1401, 0x64e6, 0x74c7, 0x44a4, 0x5485,
     0xa56a, 0xb54b, 0x8528, 0x9509, 0xe5ee, 0xf5cf, 0xc5ac, 0xd58d,
     0x3653, 0x2672, 0x1611, 0x0630, 0x76d7, 0x66f6, 0x5695, 0x46b4,
     0xb75b, 0xa77a, 0x9719, 0x8738, 0xf7df, 0xe7fe, 0xd79d, 0xc7bc,
     0x48c4, 0x58e5, 0x6886, 0x78a7, 0x0840, 0x1861, 0x2802, 0x3823,
     0xc9cc, 0xd9ed, 0xe98e, 0xf9af, 0x8948, 0x9969, 0xa90a, 0xb92b,
     0x5af5, 0x4ad4, 0x7ab7, 0x6a96, 0x1a71, 0x0a50, 0x3a33, 0x2a12,
     0xdbfd, 0xcbdc, 0xfbbf, 0xeb9e, 0x9b79, 0x8b58, 0xbb3b, 0xab1a,
     0x6ca6, 0x7c87, 0x4ce4, 0x5cc5, 0x2c22, 0x3c03, 0x0c60, 0x1c41,
     0xedae, 0xfd8f, 0xcdec, 0xddcd, 0xad2a, 0xbd0b, 0x8d68, 0x9d49,
     0x7e97, 0x6eb6, 0x5ed5, 0x4ef4, 0x3e13, 0x2e32, 0x1e51, 0x0e70,
     0xff9f, 0xefbe, 0xdfdd, 0xcffc, 0xbf1b, 0xaf3a, 0x9f59, 0x8f78,
     0x9188, 0x81a9, 0xb1ca, 0xa1eb, 0xd10c, 0xc12d, 0xf14e, 0xe16f,
     0x1080, 0x00a1, 0x30c2, 0x20e3, 0x5004, 0x4025, 0x7046, 0x6067,
     0x83b9, 0x9398, 0xa3fb, 0xb3da, 0xc33d, 0xd31c, 0xe37f, 0xf35e,
     0x02b1, 0x1290, 0x22f3, 0x32d2, 0x4235, 0x5214, 0x6277, 0x7256,
     0xb5ea, 0xa5cb, 0x95a8, 0x8589, 0xf56e, 0xe54f, 0xd52c, 0xc50d,
     0x34e2, 0x24c3, 0x14a0, 0x0481, 0x7466, 0x6447, 0x5424, 0x4405,
     0xa7db, 0xb7fa, 0x8799, 0x97b8, 0xe75f, 0xf77e, 0xc71d, 0xd73c,
     0x26d3, 0x36f2, 0x0691, 0x16b0, 0x6657, 0x7676, 0x4615, 0x5634,
     0xd94c, 0xc96d, 0xf90e, 0xe92f, 0x99c8, 0x89e9, 0xb98a, 0xa9ab,
     0x5844, 0x4865, 0x7806, 0x6827, 0x18c0, 0x08e1, 0x3882, 0x28a3,
     0xcb7d, 0xdb5c, 0xeb3f, 0xfb1e, 0x8bf9, 0x9bd8, 0xabbb, 0xbb9a,
     0x4a75, 0x5a54, 0x6a37, 0x7a16, 0x0af1, 0x1ad0, 0x2ab3, 0x3a92,
     0xfd2e, 0xed0f, 0xdd6c, 0xcd4d, 0xbdaa, 0xad8b, 0x9de8, 0x8dc9,
     0x7c26, 0x6c07, 0x5c64, 0x4c45, 0x3ca2, 0x2c83, 0x1ce0, 0x0cc1,
     0xef1f, 0xff3e, 0xcf5d, 0xdf7c, 0xaf9b, 0xbfba, 0x8fd9, 0x9ff8,
     0x6e17, 0x7e36, 0x4e55, 0x5e74, 0x2e93, 0x3eb2, 0x0ed1, 0x1ef0]"

definition crc16_table :: "16 word list" where
  "crc16_table = map word_of_int crc16_values"

definition crc16_byte :: "16 word \<Rightarrow> char \<Rightarrow> 16 word" where
  "crc16_byte crc c =
     push_bit 8 crc XOR
     crc16_table ! unat ((drop_bit 8 crc XOR word_of_nat (u8 c)) AND 0xff)"

definition crc16 :: "string \<Rightarrow> 16 word" where
  "crc16 s = foldl crc16_byte 0 s"

text \<open>The loop that looks for a hash tag: \<open>s\<close> and \<open>e\<close> as the loop leaves them.\<close>

primrec tag_scan :: "string \<Rightarrow> nat \<Rightarrow> nat option \<Rightarrow> nat option \<times> nat option" where
  "tag_scan [] i s = (s, None)"
| "tag_scan (c # cs) i s =
     (if c = CHR ''{'' \<and> s = None then tag_scan cs (i + 1) (Some i)
      else if c = CHR ''}'' \<and> s \<noteq> None then (s, Some i)
      else tag_scan cs (i + 1) s)"

definition hash_tag :: "string \<Rightarrow> string" where
  "hash_tag key =
     (case tag_scan key 0 None of
        (Some s, Some e) \<Rightarrow> if s + 1 < e then substr key (s + 1) (e - s - 1) else key
      | _ \<Rightarrow> key)"

definition key_slot :: "string \<Rightarrow> nat" where
  "key_slot key = unat (crc16 (hash_tag key)) mod 16384"

end
