(* ===== verification/Redis_Connection.thy ===== *)
theory Redis_Connection
  imports Redis_Codec
begin

text \<open>
  \<^verbatim>\<open>src/data/redis/RedisConnection.cpp\<close>, \<^verbatim>\<open>RedisConnectionPool.h\<close> and \<^verbatim>\<open>RedisSubscriber.h\<close>: one connection to a
  server, the pool of idle connections, and the subscriber that owns a connection of its own.

  The network is a record of operations on a state \<open>'n\<close> of the outside world, with the functions on doubles,
  the digest and the allocator beside them; an awaited call is a call, and one task runs at a time. An operation
  maps a state to an outcome, a value or the exception it ends with, and a new state; it is partial because
  reading a reply may wait for ever.
\<close>

subsection \<open>Operations with state and exceptions\<close>

datatype 'a outcome = Ret 'a | Fault fault

type_synonym ('a, 's) io = "'s \<Rightarrow> ('a outcome \<times> 's) option"

definition io_ret :: "'a \<Rightarrow> ('a, 's) io" where
  "io_ret a s = Some (Ret a, s)"

definition io_throw :: "fault \<Rightarrow> ('a, 's) io" where
  "io_throw e s = Some (Fault e, s)"

definition io_bind :: "('a, 's) io \<Rightarrow> ('a \<Rightarrow> ('b, 's) io) \<Rightarrow> ('b, 's) io" where
  "io_bind m f s =
     (case m s of
        None \<Rightarrow> None
      | Some (Ret a, s') \<Rightarrow> f a s'
      | Some (Fault e, s') \<Rightarrow> Some (Fault e, s'))"

definition io_seq :: "('a, 's) io \<Rightarrow> ('b, 's) io \<Rightarrow> ('b, 's) io" where
  "io_seq m m' = io_bind m (\<lambda>_. m')"

definition io_modify :: "('s \<Rightarrow> 's) \<Rightarrow> (unit, 's) io" where
  "io_modify f s = Some (Ret (), f s)"

definition io_get :: "('s \<Rightarrow> 'a) \<Rightarrow> ('a, 's) io" where
  "io_get f s = Some (Ret (f s), s)"

lemmas io_defs = io_ret_def io_throw_def io_bind_def io_seq_def io_modify_def io_get_def

subsection \<open>A connection\<close>

record node_config =
  nc_host :: string
  nc_port :: nat
  nc_username :: string
  nc_password :: string
  nc_database :: nat

definition default_node :: node_config where
  "default_node = \<lparr>nc_host = ''127.0.0.1'', nc_port = 6379, nc_username = [], nc_password = [], nc_database = 0\<rparr>"

record ('n, 'd) redis_env =
  re_connect :: "string \<Rightarrow> nat \<Rightarrow> 'n \<Rightarrow> nat option \<times> 'n"
  re_send :: "nat \<Rightarrow> string \<Rightarrow> 'n \<Rightarrow> int \<times> 'n"
  re_recv :: "nat \<Rightarrow> 'n \<Rightarrow> string \<times> 'n"
  re_close :: "nat \<Rightarrow> 'n \<Rightarrow> 'n"
  re_sleep :: "int \<Rightarrow> 'n \<Rightarrow> 'n"
  re_uuid :: "'n \<Rightarrow> string \<times> 'n"
  re_alloc :: "nat \<Rightarrow> bool"
  re_stod :: "string \<Rightarrow> 'd option"
  re_dtoa :: "'d \<Rightarrow> string"
  re_zero :: 'd
  re_sha1 :: "string \<Rightarrow> byte list"

record redis_conn =
  rc_config :: node_config
  rc_fd :: "nat option"
  rc_buffer :: string

definition new_conn :: "node_config \<Rightarrow> redis_conn" where
  "new_conn cfg = \<lparr>rc_config = cfg, rc_fd = None, rc_buffer = []\<rparr>"

definition is_connected :: "redis_conn \<Rightarrow> bool" where
  "is_connected c \<longleftrightarrow> rc_fd c \<noteq> None"

text \<open>\<^verbatim>\<open>close\<close>, which the destructor calls too.\<close>

definition conn_close :: "('n, 'd) redis_env \<Rightarrow> redis_conn \<times> 'n \<Rightarrow> redis_conn \<times> 'n" where
  "conn_close R cn =
     (case cn of (c, n) \<Rightarrow>
        (c\<lparr>rc_fd := None, rc_buffer := []\<rparr>,
         case rc_fd c of None \<Rightarrow> n | Some fd \<Rightarrow> re_close R fd n))"

text \<open>
  The move constructor and the move assignment: the new owner, and what is left of the source. A moved-from
  string is taken to be empty.
\<close>

definition conn_move :: "redis_conn \<Rightarrow> redis_conn \<times> redis_conn" where
  "conn_move other =
     (other,
      other\<lparr>rc_config := (rc_config other)\<lparr>nc_host := [], nc_username := [], nc_password := []\<rparr>,
        rc_fd := None, rc_buffer := []\<rparr>)"

definition conn_move_assign :: "('n, 'd) redis_env \<Rightarrow> redis_conn \<Rightarrow> redis_conn \<Rightarrow> 'n \<Rightarrow> redis_conn \<times> redis_conn \<times> 'n" where
  "conn_move_assign R self other n =
     (case conn_close R (self, n) of (self, n) \<Rightarrow> (case conn_move other of (self, other) \<Rightarrow> (self, other, n)))"

text \<open>A descriptor that was closed receives nothing.\<close>

definition conn_recv :: "('n, 'd) redis_env \<Rightarrow> redis_conn \<Rightarrow> 'n \<Rightarrow> string \<times> 'n" where
  "conn_recv R c n = (case rc_fd c of None \<Rightarrow> ([], n) | Some fd \<Rightarrow> re_recv R fd n)"

partial_function (option) read_response ::
    "('n, 'd) redis_env \<Rightarrow> redis_conn \<times> 'n \<Rightarrow> ('d resp_value outcome \<times> redis_conn \<times> 'n) option" where
  "read_response R cn =
     (case (if rc_buffer (fst cn) = [] then NeedMoreData
            else resp3_parse (re_alloc R) (re_stod R) (rc_buffer (fst cn))) of
        Done v rest \<Rightarrow> Some (Ret v, (fst cn)\<lparr>rc_buffer := rest\<rparr>, snd cn)
      | ParseError \<Rightarrow> Some (Ret (RError ''RESP parse error''), conn_close R cn)
      | Raised e \<Rightarrow> Some (Fault e, cn)
      | OutOfFuel \<Rightarrow> None
      | NeedMoreData \<Rightarrow>
          (case conn_recv R (fst cn) (snd cn) of
             (buf, n) \<Rightarrow>
               if buf = [] then Some (Ret (RError ''Redis connection closed by remote host''), conn_close R (fst cn, n))
               else read_response R ((fst cn)\<lparr>rc_buffer := rc_buffer (fst cn) @ buf\<rparr>, n)))"

text \<open>One \<^verbatim>\<open>send\<close> of the whole text: its result is only compared with zero.\<close>

definition conn_send :: "('n, 'd) redis_env \<Rightarrow> string \<Rightarrow> (int, redis_conn \<times> 'n) io" where
  "conn_send R s cn =
     (case rc_fd (fst cn) of
        None \<Rightarrow> Some (Ret (- 1), cn)
      | Some fd \<Rightarrow> (case re_send R fd s (snd cn) of (sent, n) \<Rightarrow> Some (Ret sent, fst cn, n)))"

text \<open>\<^verbatim>\<open>execute\<close> on a connection that is open.\<close>

definition execute_open :: "('n, 'd) redis_env \<Rightarrow> string list \<Rightarrow> ('d resp_value, redis_conn \<times> 'n) io" where
  "execute_open R args =
     (if args = [] then read_response R
      else
        io_bind (conn_send R (serialize_command args)) (\<lambda>sent.
          if sent \<le> 0
          then io_seq (io_modify (conn_close R)) (io_ret (RError ''Failed to send command to Redis''))
          else read_response R))"

definition conn_auth :: "('n, 'd) redis_env \<Rightarrow> node_config \<Rightarrow> (bool, redis_conn \<times> 'n) io" where
  "conn_auth R cfg =
     (if nc_password cfg = [] then io_ret True
      else
        io_bind
          (execute_open R
             (if nc_username cfg \<noteq> [] then [''AUTH'', nc_username cfg, nc_password cfg]
              else [''AUTH'', nc_password cfg]))
          (\<lambda>auth_res.
             if is_error auth_res then io_seq (io_modify (conn_close R)) (io_ret False) else io_ret True))"

definition conn_select :: "('n, 'd) redis_env \<Rightarrow> node_config \<Rightarrow> (bool, redis_conn \<times> 'n) io" where
  "conn_select R cfg =
     (if nc_database cfg = 0 then io_ret True
      else
        io_bind (execute_open R [''SELECT'', to_chars 10 (nc_database cfg)]) (\<lambda>sel_res.
          if is_error sel_res then io_seq (io_modify (conn_close R)) (io_ret False) else io_ret True))"

text \<open>
  \<^verbatim>\<open>connect\<close>. It calls \<^verbatim>\<open>execute\<close> only on the connection it has just opened: after an answer that is not an error
  the connection is still open, and after an error it returns.
\<close>

definition conn_open :: "('n, 'd) redis_env \<Rightarrow> (bool, redis_conn \<times> 'n) io" where
  "conn_open R cn =
     (case conn_close R cn of (c, n) \<Rightarrow>
        (case re_connect R (nc_host (rc_config c)) (nc_port (rc_config c)) n of
           (None, n) \<Rightarrow> Some (Ret False, c, n)
         | (Some fd, n) \<Rightarrow>
             io_bind (conn_auth R (rc_config c)) (\<lambda>ok. if ok then conn_select R (rc_config c) else io_ret False)
               (c\<lparr>rc_fd := Some fd\<rparr>, n)))"

definition conn_execute :: "('n, 'd) redis_env \<Rightarrow> string list \<Rightarrow> ('d resp_value, redis_conn \<times> 'n) io" where
  "conn_execute R args =
     io_bind (io_get (is_connected \<circ> fst)) (\<lambda>up.
       if up then execute_open R args
       else
         io_bind (conn_open R) (\<lambda>ok.
           if \<not> ok then io_ret (RError ''Failed to connect to Redis'') else execute_open R args))"

primrec read_responses :: "('n, 'd) redis_env \<Rightarrow> nat \<Rightarrow> ('d resp_value list, redis_conn \<times> 'n) io" where
  "read_responses R 0 = io_ret []"
| "read_responses R (Suc k) =
     io_bind (read_response R) (\<lambda>v. io_bind (read_responses R k) (\<lambda>vs. io_ret (v # vs)))"

definition pipeline_open :: "('n, 'd) redis_env \<Rightarrow> string list list \<Rightarrow> ('d resp_value list, redis_conn \<times> 'n) io" where
  "pipeline_open R batch =
     io_bind (conn_send R (concat (map serialize_command batch))) (\<lambda>sent.
       if sent \<le> 0
       then io_seq (io_modify (conn_close R))
              (io_ret (replicate (length batch) (RError ''Failed to send pipeline commands to Redis'')))
       else read_responses R (length batch))"

definition execute_pipeline :: "('n, 'd) redis_env \<Rightarrow> string list list \<Rightarrow> ('d resp_value list, redis_conn \<times> 'n) io" where
  "execute_pipeline R batch =
     (if batch = [] then io_ret []
      else
        io_bind (io_get (is_connected \<circ> fst)) (\<lambda>up.
          if up then pipeline_open R batch
          else
            io_bind (conn_open R) (\<lambda>ok.
              if \<not> ok then io_ret (replicate (length batch) (RError ''Failed to connect to Redis''))
              else pipeline_open R batch)))"

subsection \<open>The pool\<close>

record conn_pool =
  pl_config :: node_config
  pl_max :: nat
  pl_conns :: "redis_conn list"

definition new_pool :: "node_config \<Rightarrow> nat \<Rightarrow> conn_pool" where
  "new_pool cfg max_size = \<lparr>pl_config = cfg, pl_max = max_size, pl_conns = []\<rparr>"

text \<open>
  \<^verbatim>\<open>acquire\<close>: the last idle connection or a new one, connected if it is not; a failure to connect is left to the
  caller. When connecting throws, the connection is destroyed on the way out.
\<close>

definition pool_acquire :: "('n, 'd) redis_env \<Rightarrow> (redis_conn, conn_pool \<times> 'n) io" where
  "pool_acquire R pn =
     (case pn of (p, n) \<Rightarrow>
        let c = (if pl_conns p = [] then new_conn (pl_config p) else last (pl_conns p));
            p = p\<lparr>pl_conns := butlast (pl_conns p)\<rparr>
        in if is_connected c then Some (Ret c, p, n)
           else
             (case conn_open R (c, n) of
                None \<Rightarrow> None
              | Some (Ret ok, c, n) \<Rightarrow> Some (Ret c, p, n)
              | Some (Fault e, c, n) \<Rightarrow> Some (Fault e, p, snd (conn_close R (c, n)))))"

text \<open>\<^verbatim>\<open>release\<close>: a connection that the pool does not keep is destroyed.\<close>

definition pool_release :: "('n, 'd) redis_env \<Rightarrow> redis_conn \<Rightarrow> conn_pool \<times> 'n \<Rightarrow> conn_pool \<times> 'n" where
  "pool_release R c pn =
     (case pn of (p, n) \<Rightarrow>
        if length (pl_conns p) < pl_max p \<and> is_connected c
        then (p\<lparr>pl_conns := pl_conns p @ [c]\<rparr>, n)
        else (p, snd (conn_close R (c, n))))"

text \<open>Work under a \<^verbatim>\<open>Guard\<close>, whose destructor releases the connection however the work ends.\<close>

definition with_guard :: "('n, 'd) redis_env \<Rightarrow> ('a, redis_conn \<times> 'n) io \<Rightarrow> ('a, conn_pool \<times> 'n) io" where
  "with_guard R work =
     io_bind (pool_acquire R) (\<lambda>c pn.
       (case work (c, snd pn) of
          None \<Rightarrow> None
        | Some (r, c, n) \<Rightarrow> Some (r, pool_release R c (fst pn, n))))"

definition pool_execute :: "('n, 'd) redis_env \<Rightarrow> string list \<Rightarrow> ('d resp_value, conn_pool \<times> 'n) io" where
  "pool_execute R args = with_guard R (conn_execute R args)"

definition pool_execute_pipeline :: "('n, 'd) redis_env \<Rightarrow> string list list \<Rightarrow> ('d resp_value list, conn_pool \<times> 'n) io" where
  "pool_execute_pipeline R batch = with_guard R (execute_pipeline R batch)"

subsection \<open>Subscriptions\<close>

record redis_message =
  rm_channel :: string
  rm_pattern :: string
  rm_payload :: string

definition sub_command :: "('n, 'd) redis_env \<Rightarrow> string \<Rightarrow> string list \<Rightarrow> (bool, redis_conn \<times> 'n) io" where
  "sub_command R name names =
     io_bind (io_get (is_connected \<circ> fst)) (\<lambda>up.
       io_bind (if up then io_ret True else conn_open R) (\<lambda>ok.
         if \<not> ok then io_ret False
         else io_bind (conn_execute R (name # names)) (\<lambda>res. io_ret (\<not> is_error res))))"

definition subscribe :: "('n, 'd) redis_env \<Rightarrow> string list \<Rightarrow> (bool, redis_conn \<times> 'n) io" where
  "subscribe R channels = sub_command R ''SUBSCRIBE'' channels"

definition psubscribe :: "('n, 'd) redis_env \<Rightarrow> string list \<Rightarrow> (bool, redis_conn \<times> 'n) io" where
  "psubscribe R patterns = sub_command R ''PSUBSCRIBE'' patterns"

definition unsubscribe :: "('n, 'd) redis_env \<Rightarrow> string list \<Rightarrow> (bool, redis_conn \<times> 'n) io" where
  "unsubscribe R channels =
     io_bind (io_get (is_connected \<circ> fst)) (\<lambda>up.
       if \<not> up then io_ret False
       else io_bind (conn_execute R (''UNSUBSCRIBE'' # channels)) (\<lambda>res. io_ret (\<not> is_error res)))"

definition message_of :: "'d resp_value list \<Rightarrow> redis_message option" where
  "message_of arr =
     (if 3 \<le> length arr \<and> as_string (arr ! 0) = ''message''
      then Some \<lparr>rm_channel = as_string (arr ! 1), rm_pattern = [], rm_payload = as_string (arr ! 2)\<rparr>
      else if 4 \<le> length arr \<and> as_string (arr ! 0) = ''pmessage''
      then Some \<lparr>rm_channel = as_string (arr ! 2), rm_pattern = as_string (arr ! 1), rm_payload = as_string (arr ! 3)\<rparr>
      else None)"

partial_function (option) next_message ::
    "('n, 'd) redis_env \<Rightarrow> redis_conn \<times> 'n \<Rightarrow> (redis_message option outcome \<times> redis_conn \<times> 'n) option" where
  "next_message R cn =
     (if \<not> is_connected (fst cn) then Some (Ret None, cn)
      else
        (case conn_execute R [] cn of
           None \<Rightarrow> None
         | Some (Fault e, cn) \<Rightarrow> Some (Fault e, cn)
         | Some (Ret res, cn) \<Rightarrow>
             if is_array res
             then (case message_of (as_array res) of Some m \<Rightarrow> Some (Ret (Some m), cn) | None \<Rightarrow> next_message R cn)
             else if is_error res then Some (Ret None, cn)
             else next_message R cn))"

end
