(* ===== verification/Redis_Client.thy ===== *)
theory Redis_Client
  imports Redis_Connection
begin

text \<open>
  \<^verbatim>\<open>src/data/redis/RedisSentinel.h\<close>, \<^verbatim>\<open>RedisCluster.h\<close>, \<^verbatim>\<open>RedisClient.cpp\<close>, \<^verbatim>\<open>RedisPipeline.h\<close>,
  \<^verbatim>\<open>RedisTransaction.h\<close>, \<^verbatim>\<open>RedisLock.cpp\<close> and \<^verbatim>\<open>RedisCacheBackend.h\<close>: the client in its three modes, its commands,
  and the objects built on it. A \<^verbatim>\<open>shared_ptr\<close> to a pool is an index into the pools of the state.
\<close>

subsection \<open>State\<close>

datatype redis_mode = Standalone | Sentinel | Cluster

record sentinel_config =
  sn_master_name :: string
  sn_sentinels :: "(string \<times> nat) list"
  sn_username :: string
  sn_password :: string
  sn_database :: nat

record cluster_router =
  cl_seeds :: "(string \<times> nat) list"
  cl_password :: string
  cl_pool_size :: nat
  cl_slots :: "nat option list"
  cl_nodes :: "(string \<times> nat) list"

definition new_router :: "(string \<times> nat) list \<Rightarrow> string \<Rightarrow> nat \<Rightarrow> cluster_router" where
  "new_router seeds password pool_size =
     \<lparr>cl_seeds = seeds, cl_password = password, cl_pool_size = pool_size,
      cl_slots = replicate 16384 None, cl_nodes = []\<rparr>"

record 'n redis_state =
  rd_mode :: redis_mode
  rd_standalone :: node_config
  rd_sentinel :: sentinel_config
  rd_cluster :: cluster_router
  rd_pool_size :: nat
  rd_pool :: "nat option"
  rd_pools :: "conn_pool list"
  rd_net :: 'n

definition on_pool :: "nat \<Rightarrow> ('a, conn_pool \<times> 'n) io \<Rightarrow> ('a, 'n redis_state) io" where
  "on_pool pid m s =
     (case m (rd_pools s ! pid, rd_net s) of
        None \<Rightarrow> None
      | Some (r, p, n) \<Rightarrow> Some (r, s\<lparr>rd_pools := (rd_pools s)[pid := p], rd_net := n\<rparr>))"

definition on_net :: "('a, 'n) io \<Rightarrow> ('a, 'n redis_state) io" where
  "on_net m s = (case m (rd_net s) of None \<Rightarrow> None | Some (r, n) \<Rightarrow> Some (r, s\<lparr>rd_net := n\<rparr>))"

text \<open>\<^verbatim>\<open>std::make_shared\<close> of a pool, and the destruction of one: its idle connections close.\<close>

definition add_pool :: "node_config \<Rightarrow> nat \<Rightarrow> 'n redis_state \<Rightarrow> nat \<times> 'n redis_state" where
  "add_pool cfg max_size s = (length (rd_pools s), s\<lparr>rd_pools := rd_pools s @ [new_pool cfg max_size]\<rparr>)"

definition destroy_pool :: "('n, 'd) redis_env \<Rightarrow> nat option \<Rightarrow> 'n redis_state \<Rightarrow> 'n redis_state" where
  "destroy_pool R po s =
     (case po of
        None \<Rightarrow> s
      | Some pid \<Rightarrow>
          s\<lparr>rd_net := foldl (\<lambda>n c. snd (conn_close R (c, n))) (rd_net s) (pl_conns (rd_pools s ! pid)),
            rd_pools := (rd_pools s)[pid := (rd_pools s ! pid)\<lparr>pl_conns := []\<rparr>]\<rparr>)"

definition set_standalone_pool :: "('n, 'd) redis_env \<Rightarrow> node_config \<Rightarrow> 'n redis_state \<Rightarrow> 'n redis_state" where
  "set_standalone_pool R cfg s =
     (case add_pool cfg (rd_pool_size s) s of (pid, s') \<Rightarrow> (destroy_pool R (rd_pool s) s')\<lparr>rd_pool := Some pid\<rparr>)"

text \<open>The constructors.\<close>

definition client_standalone :: "node_config \<Rightarrow> nat \<Rightarrow> 'n \<Rightarrow> 'n redis_state" where
  "client_standalone cfg pool_size n =
     \<lparr>rd_mode = Standalone, rd_standalone = cfg,
      rd_sentinel = \<lparr>sn_master_name = ''mymaster'', sn_sentinels = [(''127.0.0.1'', 26379)], sn_username = [], sn_password = [], sn_database = 0\<rparr>,
      rd_cluster = new_router [] [] 8, rd_pool_size = pool_size, rd_pool = Some 0,
      rd_pools = [new_pool cfg pool_size], rd_net = n\<rparr>"

definition client_sentinel :: "sentinel_config \<Rightarrow> nat \<Rightarrow> 'n \<Rightarrow> 'n redis_state" where
  "client_sentinel cfg pool_size n =
     \<lparr>rd_mode = Sentinel, rd_standalone = default_node, rd_sentinel = cfg,
      rd_cluster = new_router [] [] 8, rd_pool_size = pool_size, rd_pool = None, rd_pools = [], rd_net = n\<rparr>"

definition client_cluster :: "cluster_router \<Rightarrow> 'n \<Rightarrow> 'n redis_state" where
  "client_cluster r n =
     \<lparr>rd_mode = Cluster, rd_standalone = default_node,
      rd_sentinel = \<lparr>sn_master_name = ''mymaster'', sn_sentinels = [(''127.0.0.1'', 26379)], sn_username = [], sn_password = [], sn_database = 0\<rparr>,
      rd_cluster = r, rd_pool_size = 8, rd_pool = None, rd_pools = [], rd_net = n\<rparr>"

subsection \<open>Sentinel\<close>

text \<open>\<^verbatim>\<open>std::stoi\<close>: leading white space, a sign, digits; text after them is ignored.\<close>

definition is_c_space :: "char \<Rightarrow> bool" where
  "is_c_space c \<longleftrightarrow> c = SP \<or> 9 \<le> u8 c \<and> u8 c \<le> 13"

definition stoi :: "string \<Rightarrow> fault + int" where
  "stoi s =
     (let t = dropWhile is_c_space s;
          neg = (t \<noteq> [] \<and> hd t = CHR ''-'');
          ds = takeWhile is_digit (if t \<noteq> [] \<and> (hd t = CHR ''-'' \<or> hd t = CHR ''+'') then tl t else t);
          i = (if neg then - int (dec_val ds) else int (dec_val ds))
      in if ds = [] then Inl InvalidArgument
         else if i < - (2 ^ 31) \<or> 2 ^ 31 \<le> i then Inl OutOfRange
         else Inr i)"

definition to_u16 :: "int \<Rightarrow> nat" where
  "to_u16 i = nat (i mod 65536)"

definition master_of :: "sentinel_config \<Rightarrow> 'd resp_value list \<Rightarrow> node_config outcome" where
  "master_of cfg arr =
     (case stoi (as_string (arr ! 1)) of
        Inl e \<Rightarrow> Fault e
      | Inr p \<Rightarrow>
          Ret \<lparr>nc_host = as_string (arr ! 0), nc_port = to_u16 p, nc_username = [],
               nc_password = sn_password cfg, nc_database = sn_database cfg\<rparr>)"

text \<open>One sentinel: an answer, an exception, or on to the next one; its connection is closed in each case.\<close>

definition ask_sentinel :: "('n, 'd) redis_env \<Rightarrow> sentinel_config \<Rightarrow> string \<Rightarrow> nat \<Rightarrow> (node_config option, 'n) io" where
  "ask_sentinel R cfg shost sport n =
     (case io_bind (conn_open R) (\<lambda>ok.
              if \<not> ok then io_ret None
              else
                io_bind (conn_execute R [''SENTINEL'', ''get-master-addr-by-name'', sn_master_name cfg]) (\<lambda>resp.
                  if is_array resp \<and> 2 \<le> length (as_array resp)
                  then (\<lambda>cn. Some (case master_of cfg (as_array resp) of Fault e \<Rightarrow> Fault e | Ret m \<Rightarrow> Ret (Some m), cn))
                  else io_ret None))
            (new_conn (default_node\<lparr>nc_host := shost, nc_port := sport\<rparr>), n) of
        None \<Rightarrow> None
      | Some (r, cn) \<Rightarrow> Some (r, snd (conn_close R cn)))"

primrec discover_from :: "('n, 'd) redis_env \<Rightarrow> sentinel_config \<Rightarrow> (string \<times> nat) list \<Rightarrow> (node_config option, 'n) io" where
  "discover_from R cfg [] = io_ret None"
| "discover_from R cfg (a # as) =
     io_bind (ask_sentinel R cfg (fst a) (snd a)) (\<lambda>r.
       case r of Some m \<Rightarrow> io_ret (Some m) | None \<Rightarrow> discover_from R cfg as)"

definition discover_master :: "('n, 'd) redis_env \<Rightarrow> sentinel_config \<Rightarrow> (node_config option, 'n) io" where
  "discover_master R cfg = discover_from R cfg (sn_sentinels cfg)"

subsection \<open>Cluster\<close>

definition get_or_create_pool :: "string \<Rightarrow> nat \<Rightarrow> (nat, 'n redis_state) io" where
  "get_or_create_pool host port s =
     (let key = host @ '':'' @ to_chars 10 port;
          r = rd_cluster s
      in case map_of (cl_nodes r) key of
           Some pid \<Rightarrow> Some (Ret pid, s)
         | None \<Rightarrow>
             (case add_pool (default_node\<lparr>nc_host := host, nc_port := port, nc_password := cl_password r\<rparr>) (cl_pool_size r) s of
                (pid, s) \<Rightarrow> Some (Ret pid, s\<lparr>rd_cluster := r\<lparr>cl_nodes := (key, pid) # cl_nodes r\<rparr>\<rparr>)))"

definition set_slot :: "nat \<Rightarrow> nat \<Rightarrow> 'n redis_state \<Rightarrow> 'n redis_state" where
  "set_slot slot pid s =
     s\<lparr>rd_cluster := (rd_cluster s)\<lparr>cl_slots := (cl_slots (rd_cluster s))[slot := Some pid]\<rparr>\<rparr>"

text \<open>
  The loop over a range of slots. Slots from 16384 on are cut off; a negative first slot indexes before the
  array, which is undefined.
\<close>

definition set_slot_range :: "int \<Rightarrow> int \<Rightarrow> nat \<Rightarrow> (unit, 'n redis_state) io" where
  "set_slot_range start_slot end_slot pid s =
     (if end_slot < start_slot \<or> 16384 \<le> start_slot then Some (Ret (), s)
      else if start_slot < 0 then Some (Fault OutOfBounds, s)
      else Some (Ret (), foldl (\<lambda>s i. set_slot i pid s) s [nat start_slot..<min (nat end_slot + 1) 16384]))"

text \<open>One entry of \<^verbatim>\<open>CLUSTER SLOTS\<close>: first slot, last slot, then the node that serves them.\<close>

definition load_range :: "'d resp_value \<Rightarrow> (unit, 'n redis_state) io" where
  "load_range v =
     (if \<not> is_array v \<or> length (as_array v) < 3 then io_ret ()
      else
        let range_arr = as_array v;
            start_slot = as_integer (range_arr ! 0);
            end_slot = as_integer (range_arr ! 1)
        in if \<not> is_array (range_arr ! 2) \<or> length (as_array (range_arr ! 2)) < 2 then io_ret ()
           else
             let node_info = as_array (range_arr ! 2)
             in io_bind (get_or_create_pool (as_string (node_info ! 0)) (to_u16 (as_integer (node_info ! 1))))
                  (set_slot_range start_slot end_slot))"

primrec load_ranges :: "'d resp_value list \<Rightarrow> (unit, 'n redis_state) io" where
  "load_ranges [] = io_ret ()"
| "load_ranges (v # vs) = io_seq (load_range v) (load_ranges vs)"

primrec refresh_from :: "('n, 'd) redis_env \<Rightarrow> (string \<times> nat) list \<Rightarrow> (bool, 'n redis_state) io" where
  "refresh_from R [] = io_ret False"
| "refresh_from R (a # as) =
     io_bind (get_or_create_pool (fst a) (snd a)) (\<lambda>pid.
       io_bind (on_pool pid (pool_execute R [''CLUSTER'', ''SLOTS''])) (\<lambda>resp.
         if is_array resp then io_seq (load_ranges (as_array resp)) (io_ret True)
         else refresh_from R as))"

definition refresh_slots :: "('n, 'd) redis_env \<Rightarrow> (bool, 'n redis_state) io" where
  "refresh_slots R = io_bind (io_get (\<lambda>s. cl_seeds (rd_cluster s))) (refresh_from R)"

definition slot_pool :: "nat \<Rightarrow> 'n redis_state \<Rightarrow> nat option" where
  "slot_pool slot s = cl_slots (rd_cluster s) ! slot"

text \<open>The pool of a slot, or that of the first seed when the slot has none.\<close>

definition or_seed_pool :: "nat option \<Rightarrow> (nat option, 'n redis_state) io" where
  "or_seed_pool po =
     (case po of
        Some pid \<Rightarrow> io_ret (Some pid)
      | None \<Rightarrow>
          io_bind (io_get (\<lambda>s. cl_seeds (rd_cluster s))) (\<lambda>seeds.
            if seeds = [] then io_ret None
            else io_bind (get_or_create_pool (fst (hd seeds)) (snd (hd seeds))) (\<lambda>pid. io_ret (Some pid))))"

definition pool_for_key :: "string \<Rightarrow> (nat option, 'n redis_state) io" where
  "pool_for_key key = io_bind (io_get (slot_pool (key_slot key))) or_seed_pool"

text \<open>\<^verbatim>\<open>MOVED <slot> <ip>:<port>\<close> and \<^verbatim>\<open>ASK <slot> <ip>:<port>\<close>, without the word: the address and the text of the port.\<close>

definition redirect_target :: "string \<Rightarrow> (string \<times> string) option" where
  "redirect_target err =
     (case sv_find SP err 0 of
        None \<Rightarrow> None
      | Some space_pos \<Rightarrow>
          let target_addr = drop (space_pos + 1) err
          in case sv_find CHR '':'' target_addr 0 of
               None \<Rightarrow> None
             | Some colon_pos \<Rightarrow> Some (take colon_pos target_addr, drop (colon_pos + 1) target_addr))"

definition redirect_pool :: "string \<times> string \<Rightarrow> (nat, 'n redis_state) io" where
  "redirect_pool t =
     (case stoi (snd t) of
        Inl e \<Rightarrow> io_throw e
      | Inr port \<Rightarrow> get_or_create_pool (fst t) (to_u16 port))"

definition cluster_redirect :: "('n, 'd) redis_env \<Rightarrow> nat \<Rightarrow> string list \<Rightarrow> 'd resp_value \<Rightarrow> ('d resp_value, 'n redis_state) io" where
  "cluster_redirect R slot args resp =
     (let moved = (if is_error resp \<and> starts_with (as_string resp) ''MOVED '' then redirect_target (drop 6 (as_string resp)) else None);
          ask = (if is_error resp \<and> starts_with (as_string resp) ''ASK '' then redirect_target (drop 4 (as_string resp)) else None)
      in case moved of
           Some t \<Rightarrow>
             io_bind (redirect_pool t) (\<lambda>pid.
               io_seq (io_modify (set_slot slot pid)) (on_pool pid (pool_execute R args)))
         | None \<Rightarrow>
             (case ask of
                Some t \<Rightarrow>
                  io_bind (redirect_pool t) (\<lambda>pid.
                    on_pool pid (with_guard R (io_seq (conn_execute R [''ASKING'']) (conn_execute R args))))
              | None \<Rightarrow> io_ret resp))"

definition cluster_execute :: "('n, 'd) redis_env \<Rightarrow> string \<Rightarrow> string list \<Rightarrow> ('d resp_value, 'n redis_state) io" where
  "cluster_execute R key args =
     (let slot = key_slot key
      in io_bind (io_get (slot_pool slot)) (\<lambda>known.
           io_bind
             (case known of
                Some pid \<Rightarrow> io_ret (Some pid)
              | None \<Rightarrow> io_seq (refresh_slots R) (io_bind (io_get (slot_pool slot)) or_seed_pool))
             (\<lambda>po.
                case po of
                  None \<Rightarrow> io_ret (RError ''Cluster topology not initialized'')
                | Some pid \<Rightarrow> io_bind (on_pool pid (pool_execute R args)) (cluster_redirect R slot args))))"

subsection \<open>Executing a command\<close>

text \<open>\<^verbatim>\<open>standalone_pool_->execute\<close>: through a null pointer in a sentinel client whose master is unknown.\<close>

definition on_standalone :: "('a, conn_pool \<times> 'n) io \<Rightarrow> ('a, 'n redis_state) io" where
  "on_standalone m = io_bind (io_get rd_pool) (\<lambda>po. case po of None \<Rightarrow> io_throw NullPointer | Some pid \<Rightarrow> on_pool pid m)"

definition client_discover :: "('n, 'd) redis_env \<Rightarrow> (bool, 'n redis_state) io" where
  "client_discover R =
     io_bind (io_get rd_sentinel) (\<lambda>cfg.
       io_bind (on_net (discover_master R cfg)) (\<lambda>m.
         case m of
           None \<Rightarrow> io_ret False
         | Some mcfg \<Rightarrow> io_seq (io_modify (set_standalone_pool R mcfg)) (io_ret True)))"

definition client_execute :: "('n, 'd) redis_env \<Rightarrow> string list \<Rightarrow> ('d resp_value, 'n redis_state) io" where
  "client_execute R args =
     (if args = [] then io_ret (RError ''Empty command'')
      else
        io_bind (io_get rd_mode) (\<lambda>mode.
          if mode = Cluster then cluster_execute R (if 1 < length args then args ! 1 else []) args
          else
            io_bind (io_get rd_pool) (\<lambda>po.
              io_bind (if mode = Sentinel \<and> po = None then client_discover R else io_ret True) (\<lambda>ready.
                if \<not> ready then io_ret (RError ''Failed to discover master from Sentinel'')
                else
                  io_bind (on_standalone (pool_execute R args)) (\<lambda>resp.
                    if mode = Sentinel \<and> is_error resp
                    then io_bind (client_discover R) (\<lambda>found.
                           if found then on_standalone (pool_execute R args) else io_ret resp)
                    else io_ret resp)))))"

definition execute_key :: "('n, 'd) redis_env \<Rightarrow> string \<Rightarrow> string list \<Rightarrow> ('d resp_value, 'n redis_state) io" where
  "execute_key R key args =
     io_bind (io_get rd_mode) (\<lambda>mode.
       if mode = Cluster then cluster_execute R key args else client_execute R args)"

end
