(* ===== verification/Redis_Commands.thy ===== *)
theory Redis_Commands
  imports Redis_Client
begin

text \<open>
  The commands of \<^verbatim>\<open>src/data/redis/RedisClient.cpp\<close> over the client's \<^verbatim>\<open>execute\<close>, and the pipeline, the transaction,
  the lock and the cache built on them: which words each sends, to which slot, and how it reads the reply.
\<close>

subsection \<open>Reading replies\<close>

definition string_reply :: "'d resp_value \<Rightarrow> string option" where
  "string_reply resp = (if is_string resp then Some (as_string resp) else None)"

definition string_or_empty :: "'d resp_value \<Rightarrow> string" where
  "string_or_empty resp = (if is_string resp then as_string resp else [])"

definition integer_reply :: "int \<Rightarrow> 'd resp_value \<Rightarrow> int" where
  "integer_reply dflt resp = (if is_integer resp then as_integer resp else dflt)"

definition int_option_reply :: "'d resp_value \<Rightarrow> int option" where
  "int_option_reply resp = (if is_integer resp then Some (as_integer resp) else None)"

definition positive_reply :: "'d resp_value \<Rightarrow> bool" where
  "positive_reply resp \<longleftrightarrow> is_integer resp \<and> 0 < as_integer resp"

definition one_reply :: "'d resp_value \<Rightarrow> bool" where
  "one_reply resp \<longleftrightarrow> is_integer resp \<and> as_integer resp = 1"

definition ok_reply :: "'d resp_value \<Rightarrow> bool" where
  "ok_reply resp \<longleftrightarrow> is_string resp \<and> (as_string resp = ''OK'' \<or> as_string resp = ''+OK'')"

definition strings_reply :: "'d resp_value \<Rightarrow> string list" where
  "strings_reply resp = (if is_array resp then map as_string (filter is_string (as_array resp)) else [])"

fun reply_pairs :: "'d resp_value list \<Rightarrow> (string \<times> string) list" where
  "reply_pairs (a # b # vs) = (as_string a, as_string b) # reply_pairs vs"
| "reply_pairs vs = []"

definition pairs_reply :: "'d resp_value \<Rightarrow> (string \<times> string) list" where
  "pairs_reply resp = (if is_array resp then reply_pairs (as_array resp) else [])"

definition scored_reply :: "('n, 'd) redis_env \<Rightarrow> 'd resp_value \<Rightarrow> (string \<times> 'd) list" where
  "scored_reply R resp =
     map (\<lambda>(m, t). (m, case re_stod R t of Some d \<Rightarrow> d | None \<Rightarrow> re_zero R)) (pairs_reply resp)"

definition double_reply :: "('n, 'd) redis_env \<Rightarrow> 'd resp_value \<Rightarrow> 'd option" where
  "double_reply R resp = (if is_string resp then re_stod R (as_string resp) else None)"

record stream_message =
  sm_id :: string
  sm_fields :: "(string \<times> string) list"

definition parse_stream_messages :: "'d resp_value \<Rightarrow> stream_message list" where
  "parse_stream_messages resp =
     (if \<not> is_array resp then []
      else
        map (\<lambda>v. \<lparr>sm_id = as_string (as_array v ! 0), sm_fields = pairs_reply (as_array v ! 1)\<rparr>)
          (filter (\<lambda>v. is_array v \<and> 2 \<le> length (as_array v)) (as_array resp)))"

definition parse_stream_read_results :: "'d resp_value \<Rightarrow> (string \<times> stream_message list) list" where
  "parse_stream_read_results resp =
     (if \<not> is_array resp then []
      else
        map (\<lambda>v. (as_string (as_array v ! 0), parse_stream_messages (as_array v ! 1)))
          (filter (\<lambda>v. is_array v \<and> 2 \<le> length (as_array v)) (as_array resp)))"

definition compute_sha1 :: "('n, 'd) redis_env \<Rightarrow> string \<Rightarrow> string" where
  "compute_sha1 R s =
     concat (map (\<lambda>b. [digit_char (unat b div 16 mod 16), digit_char (unat b mod 16)]) (re_sha1 R s))"

subsection \<open>Words of a command\<close>

definition flatten_pairs :: "(string \<times> string) list \<Rightarrow> string list" where
  "flatten_pairs kvs = concat (map (\<lambda>(k, v). [k, v]) kvs)"

definition limit_args :: "int \<Rightarrow> int \<Rightarrow> string list" where
  "limit_args offset count =
     (if 0 \<le> count then [''LIMIT'', to_string_int offset, to_string_int count] else [])"

definition count_args :: "nat option \<Rightarrow> string list" where
  "count_args count = (case count of Some c \<Rightarrow> [''COUNT'', to_chars 10 c] | None \<Rightarrow> [])"

definition block_args :: "int option \<Rightarrow> string list" where
  "block_args block_ms = (case block_ms of Some b \<Rightarrow> [''BLOCK'', to_string_int b] | None \<Rightarrow> [])"

subsection \<open>The commands\<close>

definition redis_get :: "('n, 'd) redis_env \<Rightarrow> string \<Rightarrow> (string option, 'n redis_state) io" where
  "redis_get R key =
     io_bind (execute_key R key [''GET'', key]) (\<lambda>resp. io_ret (string_reply resp))"

definition redis_set :: "('n, 'd) redis_env \<Rightarrow> string \<Rightarrow> string \<Rightarrow> int option \<Rightarrow> (bool, 'n redis_state) io" where
  "redis_set R key val ttl =
     io_bind
       (execute_key R key
          (case ttl of Some t \<Rightarrow> [''SET'', key, val, ''EX'', to_string_int t] | None \<Rightarrow> [''SET'', key, val]))
       (\<lambda>resp. io_ret (\<not> is_error resp))"

primrec redis_get_each :: "('n, 'd) redis_env \<Rightarrow> string list \<Rightarrow> (string option list, 'n redis_state) io" where
  "redis_get_each R [] = io_ret []"
| "redis_get_each R (k # ks) = io_bind (redis_get R k) (\<lambda>v. io_bind (redis_get_each R ks) (\<lambda>vs. io_ret (v # vs)))"

definition redis_mget :: "('n, 'd) redis_env \<Rightarrow> string list \<Rightarrow> (string option list, 'n redis_state) io" where
  "redis_mget R keys =
     (if keys = [] then io_ret []
      else
        io_bind (io_get rd_mode) (\<lambda>mode.
          if mode = Cluster then redis_get_each R keys
          else
            io_bind (client_execute R (''MGET'' # keys)) (\<lambda>resp.
              io_ret (if is_array resp then map string_reply (as_array resp) else replicate (length keys) None))))"

primrec redis_set_each :: "('n, 'd) redis_env \<Rightarrow> (string \<times> string) list \<Rightarrow> (bool, 'n redis_state) io" where
  "redis_set_each R [] = io_ret True"
| "redis_set_each R (kv # kvs) =
     io_bind (redis_set R (fst kv) (snd kv) None) (\<lambda>ok. if \<not> ok then io_ret False else redis_set_each R kvs)"

definition redis_mset :: "('n, 'd) redis_env \<Rightarrow> (string \<times> string) list \<Rightarrow> (bool, 'n redis_state) io" where
  "redis_mset R kvs =
     (if kvs = [] then io_ret True
      else
        io_bind (io_get rd_mode) (\<lambda>mode.
          if mode = Cluster then redis_set_each R kvs
          else
            io_bind (client_execute R (''MSET'' # flatten_pairs kvs)) (\<lambda>resp. io_ret (\<not> is_error resp))))"

definition redis_del :: "('n, 'd) redis_env \<Rightarrow> string \<Rightarrow> (bool, 'n redis_state) io" where
  "redis_del R key =
     io_bind (execute_key R key [''DEL'', key]) (\<lambda>resp. io_ret (positive_reply resp))"

primrec redis_del_each :: "('n, 'd) redis_env \<Rightarrow> string list \<Rightarrow> int \<Rightarrow> (int, 'n redis_state) io" where
  "redis_del_each R [] count = io_ret count"
| "redis_del_each R (k # ks) count =
     io_bind (redis_del R k) (\<lambda>ok. redis_del_each R ks (if ok then count + 1 else count))"

definition redis_del_many :: "('n, 'd) redis_env \<Rightarrow> string list \<Rightarrow> (int, 'n redis_state) io" where
  "redis_del_many R keys =
     (if keys = [] then io_ret 0
      else
        io_bind (io_get rd_mode) (\<lambda>mode.
          if mode = Cluster then redis_del_each R keys 0
          else io_bind (client_execute R (''DEL'' # keys)) (\<lambda>resp. io_ret (integer_reply 0 resp))))"

definition redis_incr :: "('n, 'd) redis_env \<Rightarrow> string \<Rightarrow> (int, 'n redis_state) io" where
  "redis_incr R key =
     io_bind (execute_key R key [''INCR'', key]) (\<lambda>resp. io_ret (integer_reply 0 resp))"

definition redis_decr :: "('n, 'd) redis_env \<Rightarrow> string \<Rightarrow> (int, 'n redis_state) io" where
  "redis_decr R key =
     io_bind (execute_key R key [''DECR'', key]) (\<lambda>resp. io_ret (integer_reply 0 resp))"

definition redis_hget :: "('n, 'd) redis_env \<Rightarrow> string \<Rightarrow> string \<Rightarrow> (string option, 'n redis_state) io" where
  "redis_hget R key field =
     io_bind (execute_key R key [''HGET'', key, field]) (\<lambda>resp. io_ret (string_reply resp))"

definition redis_hset :: "('n, 'd) redis_env \<Rightarrow> string \<Rightarrow> string \<Rightarrow> string \<Rightarrow> (bool, 'n redis_state) io" where
  "redis_hset R key field val =
     io_bind (execute_key R key [''HSET'', key, field, val]) (\<lambda>resp. io_ret (\<not> is_error resp))"

definition redis_hdel :: "('n, 'd) redis_env \<Rightarrow> string \<Rightarrow> string \<Rightarrow> (bool, 'n redis_state) io" where
  "redis_hdel R key field =
     io_bind (execute_key R key [''HDEL'', key, field]) (\<lambda>resp. io_ret (positive_reply resp))"

definition redis_hgetall :: "('n, 'd) redis_env \<Rightarrow> string \<Rightarrow> ((string \<times> string) list, 'n redis_state) io" where
  "redis_hgetall R key =
     io_bind (execute_key R key [''HGETALL'', key]) (\<lambda>resp. io_ret (pairs_reply resp))"

definition redis_hexists :: "('n, 'd) redis_env \<Rightarrow> string \<Rightarrow> string \<Rightarrow> (bool, 'n redis_state) io" where
  "redis_hexists R key field =
     io_bind (execute_key R key [''HEXISTS'', key, field]) (\<lambda>resp. io_ret (one_reply resp))"

definition redis_lpush :: "('n, 'd) redis_env \<Rightarrow> string \<Rightarrow> string \<Rightarrow> (int, 'n redis_state) io" where
  "redis_lpush R key val =
     io_bind (execute_key R key [''LPUSH'', key, val]) (\<lambda>resp. io_ret (integer_reply 0 resp))"

definition redis_rpush :: "('n, 'd) redis_env \<Rightarrow> string \<Rightarrow> string \<Rightarrow> (int, 'n redis_state) io" where
  "redis_rpush R key val =
     io_bind (execute_key R key [''RPUSH'', key, val]) (\<lambda>resp. io_ret (integer_reply 0 resp))"

definition redis_lpop :: "('n, 'd) redis_env \<Rightarrow> string \<Rightarrow> (string option, 'n redis_state) io" where
  "redis_lpop R key =
     io_bind (execute_key R key [''LPOP'', key]) (\<lambda>resp. io_ret (string_reply resp))"

definition redis_rpop :: "('n, 'd) redis_env \<Rightarrow> string \<Rightarrow> (string option, 'n redis_state) io" where
  "redis_rpop R key =
     io_bind (execute_key R key [''RPOP'', key]) (\<lambda>resp. io_ret (string_reply resp))"

definition redis_sadd :: "('n, 'd) redis_env \<Rightarrow> string \<Rightarrow> string \<Rightarrow> (bool, 'n redis_state) io" where
  "redis_sadd R key member =
     io_bind (execute_key R key [''SADD'', key, member]) (\<lambda>resp. io_ret (positive_reply resp))"

definition redis_srem :: "('n, 'd) redis_env \<Rightarrow> string \<Rightarrow> string \<Rightarrow> (bool, 'n redis_state) io" where
  "redis_srem R key member =
     io_bind (execute_key R key [''SREM'', key, member]) (\<lambda>resp. io_ret (positive_reply resp))"

definition redis_smembers :: "('n, 'd) redis_env \<Rightarrow> string \<Rightarrow> (string list, 'n redis_state) io" where
  "redis_smembers R key =
     io_bind (execute_key R key [''SMEMBERS'', key]) (\<lambda>resp. io_ret (strings_reply resp))"

definition redis_sismember :: "('n, 'd) redis_env \<Rightarrow> string \<Rightarrow> string \<Rightarrow> (bool, 'n redis_state) io" where
  "redis_sismember R key member =
     io_bind (execute_key R key [''SISMEMBER'', key, member]) (\<lambda>resp. io_ret (one_reply resp))"

definition redis_zadd :: "('n, 'd) redis_env \<Rightarrow> string \<Rightarrow> string \<Rightarrow> 'd \<Rightarrow> (bool, 'n redis_state) io" where
  "redis_zadd R key member score =
     io_bind (execute_key R key [''ZADD'', key, re_dtoa R score, member]) (\<lambda>resp. io_ret (\<not> is_error resp))"

definition redis_zrem :: "('n, 'd) redis_env \<Rightarrow> string \<Rightarrow> string \<Rightarrow> (bool, 'n redis_state) io" where
  "redis_zrem R key member =
     io_bind (execute_key R key [''ZREM'', key, member]) (\<lambda>resp. io_ret (positive_reply resp))"

definition redis_zrange :: "('n, 'd) redis_env \<Rightarrow> string \<Rightarrow> int \<Rightarrow> int \<Rightarrow> (string list, 'n redis_state) io" where
  "redis_zrange R key start stop =
     io_bind (execute_key R key [''ZRANGE'', key, to_string_int start, to_string_int stop]) (\<lambda>resp. io_ret (strings_reply resp))"

definition redis_zrange_with_scores :: "('n, 'd) redis_env \<Rightarrow> string \<Rightarrow> int \<Rightarrow> int \<Rightarrow> ((string \<times> 'd) list, 'n redis_state) io" where
  "redis_zrange_with_scores R key start stop =
     io_bind (execute_key R key [''ZRANGE'', key, to_string_int start, to_string_int stop, ''WITHSCORES'']) (\<lambda>resp. io_ret (scored_reply R resp))"

definition redis_zrevrange :: "('n, 'd) redis_env \<Rightarrow> string \<Rightarrow> int \<Rightarrow> int \<Rightarrow> (string list, 'n redis_state) io" where
  "redis_zrevrange R key start stop =
     io_bind (execute_key R key [''ZREVRANGE'', key, to_string_int start, to_string_int stop]) (\<lambda>resp. io_ret (strings_reply resp))"

definition redis_zrevrange_with_scores :: "('n, 'd) redis_env \<Rightarrow> string \<Rightarrow> int \<Rightarrow> int \<Rightarrow> ((string \<times> 'd) list, 'n redis_state) io" where
  "redis_zrevrange_with_scores R key start stop =
     io_bind (execute_key R key [''ZREVRANGE'', key, to_string_int start, to_string_int stop, ''WITHSCORES'']) (\<lambda>resp. io_ret (scored_reply R resp))"

definition redis_zrangebyscore :: "('n, 'd) redis_env \<Rightarrow> string \<Rightarrow> string \<Rightarrow> string \<Rightarrow> int \<Rightarrow> int \<Rightarrow> (string list, 'n redis_state) io" where
  "redis_zrangebyscore R key lo hi offset count =
     io_bind (execute_key R key ([''ZRANGEBYSCORE'', key, lo, hi] @ limit_args offset count)) (\<lambda>resp. io_ret (strings_reply resp))"

definition redis_zrangebyscore_with_scores :: "('n, 'd) redis_env \<Rightarrow> string \<Rightarrow> string \<Rightarrow> string \<Rightarrow> int \<Rightarrow> int \<Rightarrow> ((string \<times> 'd) list, 'n redis_state) io" where
  "redis_zrangebyscore_with_scores R key lo hi offset count =
     io_bind (execute_key R key ([''ZRANGEBYSCORE'', key, lo, hi, ''WITHSCORES''] @ limit_args offset count)) (\<lambda>resp. io_ret (scored_reply R resp))"

definition redis_zcard :: "('n, 'd) redis_env \<Rightarrow> string \<Rightarrow> (int, 'n redis_state) io" where
  "redis_zcard R key =
     io_bind (execute_key R key [''ZCARD'', key]) (\<lambda>resp. io_ret (integer_reply 0 resp))"

definition redis_zcount :: "('n, 'd) redis_env \<Rightarrow> string \<Rightarrow> string \<Rightarrow> string \<Rightarrow> (int, 'n redis_state) io" where
  "redis_zcount R key lo hi =
     io_bind (execute_key R key [''ZCOUNT'', key, lo, hi]) (\<lambda>resp. io_ret (integer_reply 0 resp))"

definition redis_zscore :: "('n, 'd) redis_env \<Rightarrow> string \<Rightarrow> string \<Rightarrow> ('d option, 'n redis_state) io" where
  "redis_zscore R key member =
     io_bind (execute_key R key [''ZSCORE'', key, member]) (\<lambda>resp. io_ret (double_reply R resp))"

definition redis_zrank :: "('n, 'd) redis_env \<Rightarrow> string \<Rightarrow> string \<Rightarrow> (int option, 'n redis_state) io" where
  "redis_zrank R key member =
     io_bind (execute_key R key [''ZRANK'', key, member]) (\<lambda>resp. io_ret (int_option_reply resp))"

definition redis_zrevrank :: "('n, 'd) redis_env \<Rightarrow> string \<Rightarrow> string \<Rightarrow> (int option, 'n redis_state) io" where
  "redis_zrevrank R key member =
     io_bind (execute_key R key [''ZREVRANK'', key, member]) (\<lambda>resp. io_ret (int_option_reply resp))"

definition redis_xadd :: "('n, 'd) redis_env \<Rightarrow> string \<Rightarrow> string \<Rightarrow> (string \<times> string) list \<Rightarrow> nat option \<Rightarrow> (string, 'n redis_state) io" where
  "redis_xadd R key entry_id fvs maxlen =
     io_bind (execute_key R key 
          ([''XADD'', key] @ (case maxlen of Some m \<Rightarrow> [''MAXLEN'', ''~'', to_chars 10 m] | None \<Rightarrow> []) @ entry_id # flatten_pairs fvs)) (\<lambda>resp. io_ret (string_or_empty resp))"

definition redis_xread :: "('n, 'd) redis_env \<Rightarrow> string list \<Rightarrow> string list \<Rightarrow> nat option \<Rightarrow> int option \<Rightarrow> ((string \<times> stream_message list) list, 'n redis_state) io" where
  "redis_xread R streams ids count block_ms =
     io_bind
       (execute_key R (if streams = [] then [] else hd streams)
          (''XREAD'' # count_args count @ block_args block_ms @ ''STREAMS'' # streams @ ids))
       (\<lambda>resp. io_ret (parse_stream_read_results resp))"

definition redis_xrange :: "('n, 'd) redis_env \<Rightarrow> string \<Rightarrow> string \<Rightarrow> string \<Rightarrow> nat option \<Rightarrow> (stream_message list, 'n redis_state) io" where
  "redis_xrange R key start stop count =
     io_bind (execute_key R key ([''XRANGE'', key, start, stop] @ count_args count)) (\<lambda>resp. io_ret (parse_stream_messages resp))"

definition redis_xrevrange :: "('n, 'd) redis_env \<Rightarrow> string \<Rightarrow> string \<Rightarrow> string \<Rightarrow> nat option \<Rightarrow> (stream_message list, 'n redis_state) io" where
  "redis_xrevrange R key stop start count =
     io_bind (execute_key R key ([''XREVRANGE'', key, stop, start] @ count_args count)) (\<lambda>resp. io_ret (parse_stream_messages resp))"

definition redis_xlen :: "('n, 'd) redis_env \<Rightarrow> string \<Rightarrow> (int, 'n redis_state) io" where
  "redis_xlen R key =
     io_bind (execute_key R key [''XLEN'', key]) (\<lambda>resp. io_ret (integer_reply 0 resp))"

definition redis_xgroup_create :: "('n, 'd) redis_env \<Rightarrow> string \<Rightarrow> string \<Rightarrow> string \<Rightarrow> bool \<Rightarrow> (bool, 'n redis_state) io" where
  "redis_xgroup_create R key grp start_id mkstream =
     io_bind (execute_key R key ([''XGROUP'', ''CREATE'', key, grp, start_id] @ (if mkstream then [''MKSTREAM''] else []))) (\<lambda>resp. io_ret (ok_reply resp))"

definition redis_xreadgroup :: "('n, 'd) redis_env \<Rightarrow> string \<Rightarrow> string \<Rightarrow> string list \<Rightarrow> string list \<Rightarrow> nat option \<Rightarrow> int option \<Rightarrow> bool \<Rightarrow> ((string \<times> stream_message list) list, 'n redis_state) io" where
  "redis_xreadgroup R grp consumer streams ids count block_ms noack =
     io_bind
       (execute_key R (if streams = [] then [] else hd streams)
          ([''XREADGROUP'', ''GROUP'', grp, consumer] @ count_args count @ block_args block_ms @
             (if noack then [''NOACK''] else []) @ ''STREAMS'' # streams @ ids))
       (\<lambda>resp. io_ret (parse_stream_read_results resp))"

definition redis_xack :: "('n, 'd) redis_env \<Rightarrow> string \<Rightarrow> string \<Rightarrow> string list \<Rightarrow> (int, 'n redis_state) io" where
  "redis_xack R key grp ids =
     io_bind (execute_key R key ([''XACK'', key, grp] @ ids)) (\<lambda>resp. io_ret (integer_reply 0 resp))"

definition redis_xdel :: "('n, 'd) redis_env \<Rightarrow> string \<Rightarrow> string list \<Rightarrow> (int, 'n redis_state) io" where
  "redis_xdel R key ids =
     io_bind (execute_key R key ([''XDEL'', key] @ ids)) (\<lambda>resp. io_ret (integer_reply 0 resp))"

definition redis_eval :: "('n, 'd) redis_env \<Rightarrow> string \<Rightarrow> string list \<Rightarrow> string list \<Rightarrow> ('d resp_value, 'n redis_state) io" where
  "redis_eval R script keys args =
     (let cmd = [''EVAL'', script, to_chars 10 (length keys)] @ keys @ args
      in if keys \<noteq> [] then execute_key R (hd keys) cmd else client_execute R cmd)"

definition redis_evalsha :: "('n, 'd) redis_env \<Rightarrow> string \<Rightarrow> string list \<Rightarrow> string list \<Rightarrow> ('d resp_value, 'n redis_state) io" where
  "redis_evalsha R sha keys args =
     (let cmd = [''EVALSHA'', sha, to_chars 10 (length keys)] @ keys @ args
      in if keys \<noteq> [] then execute_key R (hd keys) cmd else client_execute R cmd)"

definition redis_script_load :: "('n, 'd) redis_env \<Rightarrow> string \<Rightarrow> (string, 'n redis_state) io" where
  "redis_script_load R script =
     io_bind (client_execute R [''SCRIPT'', ''LOAD'', script]) (\<lambda>resp.
       io_ret (if is_string resp then as_string resp else compute_sha1 R script))"

definition redis_eval_script :: "('n, 'd) redis_env \<Rightarrow> string \<Rightarrow> string list \<Rightarrow> string list \<Rightarrow> ('d resp_value, 'n redis_state) io" where
  "redis_eval_script R script keys args =
     io_bind (redis_evalsha R (compute_sha1 R script) keys args) (\<lambda>resp.
       if is_error resp \<and> starts_with (as_string resp) ''NOSCRIPT'' then redis_eval R script keys args else io_ret resp)"

definition redis_publish :: "('n, 'd) redis_env \<Rightarrow> string \<Rightarrow> string \<Rightarrow> (int, 'n redis_state) io" where
  "redis_publish R channel payload =
     io_bind (client_execute R [''PUBLISH'', channel, payload]) (\<lambda>resp. io_ret (integer_reply 0 resp))"

definition redis_expire :: "('n, 'd) redis_env \<Rightarrow> string \<Rightarrow> int \<Rightarrow> (bool, 'n redis_state) io" where
  "redis_expire R key seconds =
     io_bind (execute_key R key [''EXPIRE'', key, to_string_int seconds]) (\<lambda>resp. io_ret (one_reply resp))"

definition redis_pexpire :: "('n, 'd) redis_env \<Rightarrow> string \<Rightarrow> int \<Rightarrow> (bool, 'n redis_state) io" where
  "redis_pexpire R key ms =
     io_bind (execute_key R key [''PEXPIRE'', key, to_string_int ms]) (\<lambda>resp. io_ret (one_reply resp))"

definition redis_ttl :: "('n, 'd) redis_env \<Rightarrow> string \<Rightarrow> (int, 'n redis_state) io" where
  "redis_ttl R key =
     io_bind (execute_key R key [''TTL'', key]) (\<lambda>resp. io_ret (integer_reply (- 2) resp))"

definition redis_pttl :: "('n, 'd) redis_env \<Rightarrow> string \<Rightarrow> (int, 'n redis_state) io" where
  "redis_pttl R key =
     io_bind (execute_key R key [''PTTL'', key]) (\<lambda>resp. io_ret (integer_reply (- 2) resp))"

definition redis_persist :: "('n, 'd) redis_env \<Rightarrow> string \<Rightarrow> (bool, 'n redis_state) io" where
  "redis_persist R key =
     io_bind (execute_key R key [''PERSIST'', key]) (\<lambda>resp. io_ret (one_reply resp))"

definition redis_exists :: "('n, 'd) redis_env \<Rightarrow> string \<Rightarrow> (bool, 'n redis_state) io" where
  "redis_exists R key =
     io_bind (execute_key R key [''EXISTS'', key]) (\<lambda>resp. io_ret (one_reply resp))"

definition redis_select_db :: "('n, 'd) redis_env \<Rightarrow> nat \<Rightarrow> (bool, 'n redis_state) io" where
  "redis_select_db R db =
     io_bind (client_execute R [''SELECT'', to_chars 10 db]) (\<lambda>resp. io_ret (\<not> is_error resp))"

subsection \<open>Locks\<close>

record redis_lock =
  lk_key :: string
  lk_token :: string
  lk_ttl :: int
  lk_locked :: bool

text \<open>
  The attempts of \<^verbatim>\<open>lock\<close>: one more than \<^verbatim>\<open>max_retries\<close>, with a sleep between them. (The counter is 64 bits wide; for
  the largest \<^verbatim>\<open>max_retries\<close> it wraps and the loop has no end, which this model leaves out.)
\<close>

primrec lock_loop :: "('n, 'd) redis_env \<Rightarrow> string \<Rightarrow> string \<Rightarrow> int \<Rightarrow> int \<Rightarrow> nat \<Rightarrow> (redis_lock option, 'n redis_state) io" where
  "lock_loop R key token ttl retry_delay 0 =
     io_bind (execute_key R key [''SET'', key, token, ''NX'', ''PX'', to_string_int ttl]) (\<lambda>resp.
       io_ret (if ok_reply resp then Some \<lparr>lk_key = key, lk_token = token, lk_ttl = ttl, lk_locked = True\<rparr> else None))"
| "lock_loop R key token ttl retry_delay (Suc k) =
     io_bind (execute_key R key [''SET'', key, token, ''NX'', ''PX'', to_string_int ttl]) (\<lambda>resp.
       if ok_reply resp then io_ret (Some \<lparr>lk_key = key, lk_token = token, lk_ttl = ttl, lk_locked = True\<rparr>)
       else
         io_seq (if 0 < retry_delay then io_modify (\<lambda>s. s\<lparr>rd_net := re_sleep R retry_delay (rd_net s)\<rparr>) else io_ret ())
           (lock_loop R key token ttl retry_delay k))"

definition redis_lock_key :: "('n, 'd) redis_env \<Rightarrow> string \<Rightarrow> int \<Rightarrow> int \<Rightarrow> nat \<Rightarrow> (redis_lock option, 'n redis_state) io" where
  "redis_lock_key R key ttl retry_delay max_retries =
     io_bind (on_net (\<lambda>n. case re_uuid R n of (token, n) \<Rightarrow> Some (Ret token, n))) (\<lambda>token.
       lock_loop R key token ttl retry_delay max_retries)"

definition release_script :: string where
  "release_script =
     ''if redis.call('' @ [CHR 0x27] @ ''GET'' @ [CHR 0x27] @ '', KEYS[1]) == ARGV[1] then return redis.call('' @
     [CHR 0x27] @ ''DEL'' @ [CHR 0x27] @ '', KEYS[1]) else return 0 end''"

definition extend_script :: string where
  "extend_script =
     ''if redis.call('' @ [CHR 0x27] @ ''GET'' @ [CHR 0x27] @ '', KEYS[1]) == ARGV[1] then return redis.call('' @
     [CHR 0x27] @ ''PEXPIRE'' @ [CHR 0x27] @ '', KEYS[1], ARGV[2]) else return 0 end''"

definition lock_release :: "('n, 'd) redis_env \<Rightarrow> redis_lock \<Rightarrow> (bool \<times> redis_lock, 'n redis_state) io" where
  "lock_release R l =
     (if \<not> lk_locked l then io_ret (False, l)
      else
        io_bind (redis_eval_script R release_script [lk_key l] [lk_token l]) (\<lambda>resp.
          io_ret (one_reply resp, l\<lparr>lk_locked := False\<rparr>)))"

definition lock_extend :: "('n, 'd) redis_env \<Rightarrow> int \<Rightarrow> redis_lock \<Rightarrow> (bool \<times> redis_lock, 'n redis_state) io" where
  "lock_extend R extra_ttl l =
     (if \<not> lk_locked l then io_ret (False, l)
      else
        io_bind (redis_eval_script R extend_script [lk_key l] [lk_token l, to_string_int extra_ttl]) (\<lambda>resp.
          io_ret (if one_reply resp then (True, l\<lparr>lk_ttl := extra_ttl\<rparr>) else (False, l))))"

subsection \<open>Transactions\<close>

text \<open>A transaction holds a guard on its pool until it is destroyed.\<close>

record redis_tx =
  tx_pool :: nat
  tx_conn :: redis_conn
  tx_commands :: "string list list"

definition on_conn :: "redis_conn \<Rightarrow> ('a, redis_conn \<times> 'n) io \<Rightarrow> ('a outcome \<times> redis_conn, 'n redis_state) io" where
  "on_conn c m s =
     (case m (c, rd_net s) of None \<Rightarrow> None | Some (r, c, n) \<Rightarrow> Some (Ret (r, c), s\<lparr>rd_net := n\<rparr>))"

definition release_conn :: "('n, 'd) redis_env \<Rightarrow> nat \<Rightarrow> redis_conn \<Rightarrow> (unit, 'n redis_state) io" where
  "release_conn R pid c = on_pool pid (io_modify (pool_release R c))"

definition tx_begin :: "('n, 'd) redis_env \<Rightarrow> nat \<Rightarrow> (redis_tx option, 'n redis_state) io" where
  "tx_begin R pid =
     io_bind (on_pool pid (pool_acquire R)) (\<lambda>c.
       io_bind (on_conn c (conn_execute R [''MULTI''])) (\<lambda>(r, c).
         case r of
           Fault e \<Rightarrow> io_seq (release_conn R pid c) (io_throw e)
         | Ret res \<Rightarrow>
             if is_error res then io_seq (release_conn R pid c) (io_ret None)
             else io_ret (Some \<lparr>tx_pool = pid, tx_conn = c, tx_commands = []\<rparr>)))"

definition tx_command :: "string list \<Rightarrow> redis_tx \<Rightarrow> redis_tx" where
  "tx_command cmd t = t\<lparr>tx_commands := tx_commands t @ [cmd]\<rparr>"

definition tx_set :: "string \<Rightarrow> string \<Rightarrow> redis_tx \<Rightarrow> redis_tx" where
  "tx_set key val = tx_command [''SET'', key, val]"

definition tx_get :: "string \<Rightarrow> redis_tx \<Rightarrow> redis_tx" where
  "tx_get key = tx_command [''GET'', key]"

definition tx_incr :: "string \<Rightarrow> redis_tx \<Rightarrow> redis_tx" where
  "tx_incr key = tx_command [''INCR'', key]"

definition tx_del :: "string \<Rightarrow> redis_tx \<Rightarrow> redis_tx" where
  "tx_del key = tx_command [''DEL'', key]"

text \<open>Sending the commands one by one: whether every one was queued.\<close>

primrec tx_queue :: "('n, 'd) redis_env \<Rightarrow> string list list \<Rightarrow> (bool, redis_conn \<times> 'n) io" where
  "tx_queue R [] = io_ret True"
| "tx_queue R (cmd # cmds) =
     io_bind (conn_execute R cmd) (\<lambda>queue_res.
       if is_error queue_res then io_seq (conn_execute R [''DISCARD'']) (io_ret False) else tx_queue R cmds)"

definition tx_run :: "('n, 'd) redis_env \<Rightarrow> string list list \<Rightarrow> ('d resp_value list, redis_conn \<times> 'n) io" where
  "tx_run R cmds =
     io_bind (tx_queue R cmds) (\<lambda>ok.
       if \<not> ok then io_ret []
       else
         io_bind (conn_execute R [''EXEC'']) (\<lambda>exec_res.
           io_ret (if is_array exec_res then as_array exec_res else [])))"

text \<open>A call on the transaction: how it ended, and the transaction with its connection after the call.\<close>

definition tx_exec :: "('n, 'd) redis_env \<Rightarrow> redis_tx \<Rightarrow> ('d resp_value list outcome \<times> redis_tx, 'n redis_state) io" where
  "tx_exec R t =
     io_bind (on_conn (tx_conn t) (tx_run R (tx_commands t))) (\<lambda>(r, c). io_ret (r, t\<lparr>tx_conn := c\<rparr>))"

definition tx_discard :: "('n, 'd) redis_env \<Rightarrow> redis_tx \<Rightarrow> (bool outcome \<times> redis_tx, 'n redis_state) io" where
  "tx_discard R t =
     io_bind (on_conn (tx_conn t) (io_bind (conn_execute R [''DISCARD'']) (\<lambda>res. io_ret (\<not> is_error res))))
       (\<lambda>(r, c). io_ret (r, t\<lparr>tx_conn := c\<rparr>))"

text \<open>The destructor: the guard releases the connection, in whatever state the server has it.\<close>

definition tx_destroy :: "('n, 'd) redis_env \<Rightarrow> redis_tx \<Rightarrow> (unit, 'n redis_state) io" where
  "tx_destroy R t = release_conn R (tx_pool t) (tx_conn t)"

definition redis_multi :: "('n, 'd) redis_env \<Rightarrow> (redis_tx option, 'n redis_state) io" where
  "redis_multi R =
     io_bind (io_get rd_mode) (\<lambda>mode.
       if mode = Cluster then io_throw RuntimeError
       else
         io_bind (io_get rd_pool) (\<lambda>po.
           io_bind (if mode = Sentinel \<and> po = None then client_discover R else io_ret True) (\<lambda>ready.
             if \<not> ready then io_ret None
             else
               io_bind (io_get rd_pool) (\<lambda>po.
                 case po of None \<Rightarrow> io_throw NullPointer | Some pid \<Rightarrow> tx_begin R pid))))"

subsection \<open>Pipelines\<close>

record redis_pipeline =
  pp_pool :: "nat option"
  pp_commands :: "string list list"

text \<open>\<^verbatim>\<open>pipeline\<close>: no pool stands for the cluster's router.\<close>

definition redis_pipeline_of :: "(redis_pipeline, 'n redis_state) io" where
  "redis_pipeline_of =
     io_bind (io_get rd_mode) (\<lambda>mode.
       if mode = Cluster then io_ret \<lparr>pp_pool = None, pp_commands = []\<rparr>
       else
         io_bind (io_get rd_pool) (\<lambda>po.
           case po of None \<Rightarrow> io_throw NullPointer | Some pid \<Rightarrow> io_ret \<lparr>pp_pool = Some pid, pp_commands = []\<rparr>))"

definition pp_command :: "string list \<Rightarrow> redis_pipeline \<Rightarrow> redis_pipeline" where
  "pp_command cmd p = p\<lparr>pp_commands := pp_commands p @ [cmd]\<rparr>"

definition pp_set :: "string \<Rightarrow> string \<Rightarrow> int option \<Rightarrow> redis_pipeline \<Rightarrow> redis_pipeline" where
  "pp_set key val ttl =
     pp_command ([''SET'', key, val] @ (case ttl of Some t \<Rightarrow> [''EX'', to_string_int t] | None \<Rightarrow> []))"

definition pp_get :: "string \<Rightarrow> redis_pipeline \<Rightarrow> redis_pipeline" where
  "pp_get key = pp_command [''GET'', key]"

definition pp_del :: "string \<Rightarrow> redis_pipeline \<Rightarrow> redis_pipeline" where
  "pp_del key = pp_command [''DEL'', key]"

definition pp_incr :: "string \<Rightarrow> redis_pipeline \<Rightarrow> redis_pipeline" where
  "pp_incr key = pp_command [''INCR'', key]"

definition pp_decr :: "string \<Rightarrow> redis_pipeline \<Rightarrow> redis_pipeline" where
  "pp_decr key = pp_command [''DECR'', key]"

definition pp_hget :: "string \<Rightarrow> string \<Rightarrow> redis_pipeline \<Rightarrow> redis_pipeline" where
  "pp_hget key field = pp_command [''HGET'', key, field]"

definition pp_hset :: "string \<Rightarrow> string \<Rightarrow> string \<Rightarrow> redis_pipeline \<Rightarrow> redis_pipeline" where
  "pp_hset key field val = pp_command [''HSET'', key, field, val]"

text \<open>
  The batches of a cluster: for each pool the indices of its commands, in order. Commands without a pool get
  their error at once; \<open>results\<close> starts out as nulls.
\<close>

type_synonym batches = "(nat \<times> nat list) list"

definition add_to_batch :: "nat \<Rightarrow> nat \<Rightarrow> batches \<Rightarrow> batches" where
  "add_to_batch pid i bs =
     (if pid \<in> set (map fst bs) then map (\<lambda>(q, is). if q = pid then (q, is @ [i]) else (q, is)) bs
      else bs @ [(pid, [i])])"

primrec split_commands :: "nat \<Rightarrow> string list list \<Rightarrow> batches \<Rightarrow> 'd resp_value list \<Rightarrow>
    (batches \<times> 'd resp_value list, 'n redis_state) io" where
  "split_commands i [] bs results = io_ret (bs, results)"
| "split_commands i (cmd # cmds) bs results =
     io_bind (pool_for_key (if 1 < length cmd then cmd ! 1 else [])) (\<lambda>po.
       case po of
         None \<Rightarrow> split_commands (i + 1) cmds bs (results[i := RError ''No cluster pool for key''])
       | Some pid \<Rightarrow> split_commands (i + 1) cmds (add_to_batch pid i bs) results)"

definition put_results :: "nat list \<Rightarrow> 'd resp_value list \<Rightarrow> 'd resp_value list \<Rightarrow> 'd resp_value list" where
  "put_results indices vs results = foldl (\<lambda>rs (i, v). rs[i := v]) results (zip indices vs)"

primrec run_batches :: "('n, 'd) redis_env \<Rightarrow> string list list \<Rightarrow> batches \<Rightarrow> 'd resp_value list \<Rightarrow>
    ('d resp_value list, 'n redis_state) io" where
  "run_batches R cmds [] results = io_ret results"
| "run_batches R cmds (b # bs) results =
     io_bind (on_pool (fst b) (pool_execute_pipeline R (map ((!) cmds) (snd b)))) (\<lambda>vs.
       run_batches R cmds bs (put_results (snd b) vs results))"

text \<open>
  \<^verbatim>\<open>execute\<close>. The order in which an \<^verbatim>\<open>unordered_map\<close> visits the batches is not specified: it is the parameter
  \<open>visit\<close>. A guard always holds a connection, so the branches for a guard without one cannot be taken.
\<close>

definition pp_execute :: "('n, 'd) redis_env \<Rightarrow> (batches \<Rightarrow> batches) \<Rightarrow> redis_pipeline \<Rightarrow> ('d resp_value list, 'n redis_state) io" where
  "pp_execute R visit p =
     (if pp_commands p = [] then io_ret []
      else
        (case pp_pool p of
           Some pid \<Rightarrow> on_pool pid (pool_execute_pipeline R (pp_commands p))
         | None \<Rightarrow>
             io_bind (split_commands 0 (pp_commands p) [] (replicate (length (pp_commands p)) RNull)) (\<lambda>(bs, results).
               run_batches R (pp_commands p) (visit bs) results)))"

subsection \<open>Subscribers and the cache\<close>

text \<open>The node a subscriber connects to.\<close>

definition subscriber_config :: "'n redis_state \<Rightarrow> node_config" where
  "subscriber_config s =
     (if rd_mode s = Standalone then rd_standalone s
      else
        let cfg = rd_sentinel s
        in \<lparr>nc_host = (if sn_sentinels cfg = [] then ''127.0.0.1'' else fst (hd (sn_sentinels cfg))),
            nc_port = (if sn_sentinels cfg = [] then 6379 else snd (hd (sn_sentinels cfg))),
            nc_username = sn_username cfg, nc_password = sn_password cfg, nc_database = sn_database cfg\<rparr>)"

text \<open>\<^verbatim>\<open>RedisCacheBackend\<close>: \<open>present\<close> tells whether the provider has a client.\<close>

definition make_key :: "string \<Rightarrow> string \<Rightarrow> string" where
  "make_key pfx key = (if pfx = [] then key else pfx @ key)"

definition cache_get :: "('n, 'd) redis_env \<Rightarrow> bool \<Rightarrow> string \<Rightarrow> string \<Rightarrow> (string option, 'n redis_state) io" where
  "cache_get R present pfx key = (if \<not> present then io_ret None else redis_get R (make_key pfx key))"

definition cache_mget :: "('n, 'd) redis_env \<Rightarrow> bool \<Rightarrow> string \<Rightarrow> string list \<Rightarrow> (string option list, 'n redis_state) io" where
  "cache_mget R present pfx keys =
     (if \<not> present then io_ret (replicate (length keys) None)
      else if pfx = [] then redis_mget R keys
      else redis_mget R (map (make_key pfx) keys))"

definition cache_set :: "('n, 'd) redis_env \<Rightarrow> bool \<Rightarrow> string \<Rightarrow> string \<Rightarrow> string \<Rightarrow> int option \<Rightarrow> (bool, 'n redis_state) io" where
  "cache_set R present pfx key val ttl = (if \<not> present then io_ret False else redis_set R (make_key pfx key) val ttl)"

definition cache_del :: "('n, 'd) redis_env \<Rightarrow> bool \<Rightarrow> string \<Rightarrow> string \<Rightarrow> (bool, 'n redis_state) io" where
  "cache_del R present pfx key = (if \<not> present then io_ret False else redis_del R (make_key pfx key))"

definition cache_del_many :: "('n, 'd) redis_env \<Rightarrow> bool \<Rightarrow> string \<Rightarrow> string list \<Rightarrow> (int, 'n redis_state) io" where
  "cache_del_many R present pfx keys =
     (if \<not> present then io_ret 0
      else if pfx = [] then redis_del_many R keys
      else redis_del_many R (map (make_key pfx) keys))"

definition cache_incr :: "('n, 'd) redis_env \<Rightarrow> bool \<Rightarrow> string \<Rightarrow> string \<Rightarrow> (int, 'n redis_state) io" where
  "cache_incr R present pfx key = (if \<not> present then io_ret 0 else redis_incr R (make_key pfx key))"

text \<open>
  \<^verbatim>\<open>PerCoreRedisClient\<close>: the clients of the calling thread by the address of the object, created on first use
  inside an event loop. A client here is its initial state.
\<close>

datatype redis_config = StandaloneConfig node_config | SentinelConfig sentinel_config | ClusterConfig cluster_router

definition make_client :: "redis_config \<Rightarrow> nat \<Rightarrow> 'n \<Rightarrow> 'n redis_state" where
  "make_client cfg pool_size n =
     (case cfg of
        StandaloneConfig c \<Rightarrow> client_standalone c pool_size n
      | SentinelConfig c \<Rightarrow> client_sentinel c pool_size n
      | ClusterConfig r \<Rightarrow> client_cluster r n)"

definition percore_current :: "bool \<Rightarrow> redis_config \<Rightarrow> nat \<Rightarrow> 'n \<Rightarrow> nat \<Rightarrow> (nat \<rightharpoonup> 'n redis_state) \<Rightarrow>
    'n redis_state option \<times> (nat \<rightharpoonup> 'n redis_state)" where
  "percore_current in_loop cfg pool_size n self clients =
     (if \<not> in_loop then (None, clients)
      else
        (case clients self of
           Some c \<Rightarrow> (Some c, clients)
         | None \<Rightarrow> let c = make_client cfg pool_size n in (Some c, clients(self \<mapsto> c))))"

definition percore_get :: "bool \<Rightarrow> redis_config \<Rightarrow> nat \<Rightarrow> 'n \<Rightarrow> nat \<Rightarrow> (nat \<rightharpoonup> 'n redis_state) \<Rightarrow>
    (fault + 'n redis_state) \<times> (nat \<rightharpoonup> 'n redis_state)" where
  "percore_get in_loop cfg pool_size n self clients =
     (case percore_current in_loop cfg pool_size n self clients of
        (None, clients) \<Rightarrow> (Inl RuntimeError, clients)
      | (Some c, clients) \<Rightarrow> (Inr c, clients))"

end
