(* ===== verification/Redis_Codec_Proofs.thy ===== *)
theory Redis_Codec_Proofs
  imports Redis_Codec
begin

unbundle bit_operations_syntax

text \<open>
  What the Redis codec promises. The parser is total and its fuel irrelevant; it inverts the reference
  encoding of every value a server can send and asks for more data on every proper beginning of one; the
  table-driven checksum is the bitwise CRC of polynomial \<open>0x1021\<close>.
\<close>

subsection \<open>Lines\<close>

lemma find_crlf_line: "CR \<notin> set h \<Longrightarrow> resp_find_crlf (h @ CR # LF # rest) = Some (length h)"
  unfolding resp_find_crlf_def
proof (induction h)
  case Nil
  then show ?case by (simp add: sv_find_str_eval starts_with_def)
next
  case (Cons x h)
  then show ?case by (auto simp: sv_find_str_eval starts_with_def)
qed

lemma find_crlf_absent: "CR \<notin> set h \<Longrightarrow> resp_find_crlf h = None" "CR \<notin> set h \<Longrightarrow> resp_find_crlf (h @ [CR]) = None"
  unfolding resp_find_crlf_def
  by (induction h) (auto simp: sv_find_str_eval starts_with_def)

lemma strict_prefix_line:
  "strict_prefix p (h @ CR # LF # body) \<Longrightarrow> CR \<notin> set h \<Longrightarrow>
    (resp_find_crlf p = None) \<or> (\<exists>q. p = h @ CR # LF # q \<and> strict_prefix q body)"
proof -
  assume p: "strict_prefix p (h @ CR # LF # body)" and h: "CR \<notin> set h"
  from p have "prefix p h \<or> (\<exists>q. p = h @ q \<and> strict_prefix q (CR # LF # body))"
    unfolding strict_prefix_def by (auto simp: prefix_append)
  then show ?thesis
  proof
    assume "prefix p h"
    with h have "CR \<notin> set p" by (auto simp: prefix_def)
    then show ?thesis by (simp add: find_crlf_absent)
  next
    assume "\<exists>q. p = h @ q \<and> strict_prefix q (CR # LF # body)"
    then obtain q where q: "p = h @ q" "strict_prefix q (CR # LF # body)" by blast
    then consider "q = []" | "q = [CR]" | r where "q = CR # LF # r" "strict_prefix r body"
      by (cases q; cases "tl q") (auto simp: strict_prefix_def)
    then show ?thesis using q(1) h by cases (auto simp: find_crlf_absent)
  qed
qed

subsection \<open>The parser is total\<close>

lemma from_chars_i64_bounds: "from_chars_i64 s = Some i \<Longrightarrow> - (2 ^ 63) \<le> i \<and> i < 2 ^ 63"
  by (auto simp: from_chars_i64_def Let_def split: if_splits)

lemma read_elems_shrinks:
  assumes "read_elems p n arr s = Inl (arr', s')" "\<And>t v t'. p t = Done v t' \<Longrightarrow> length t' \<le> length t"
  shows "length s' \<le> length s"
  using assms(1)
proof (induction n arbitrary: arr s)
  case (Suc n)
  then show ?case using assms(2) [of s] by (fastforce split: parsed.splits)
qed simp

lemma read_elems_not_done [simp]: "read_elems p n arr s \<noteq> Inr (Done v s')"
  by (induction n arbitrary: arr s) (auto split: parsed.split)

lemma drop_shorter: "s \<noteq> [] \<Longrightarrow> length t \<le> length (drop (k + 2) s) \<Longrightarrow> length t < length s"
  by (cases s) auto

lemma resp_parse_shrinks: "resp_parse alloc stod fuel s = Done v s' \<Longrightarrow> length s' \<le> length s"
proof (induction fuel arbitrary: s v s')
  case (Suc fuel)
  have agg: "length s' \<le> length t" if "read_aggregate alloc (resp_parse alloc stod fuel) mk c t = Done v s'" for mk c t
    using that read_elems_shrinks [where p = "resp_parse alloc stod fuel", OF _ Suc.IH] unfolding read_aggregate_def
    by (auto split: if_splits sum.splits prod.splits)
  show ?case
    using Suc.prems
    by (auto simp: resp_parse.simps Let_def parse_bulk_def split: if_splits option.splits
        dest!: agg)
qed (simp add: resp_parse.simps)

lemma read_elems_cong:
  assumes "\<And>t. length t \<le> length s \<Longrightarrow> p t = q t" "\<And>t v t'. p t = Done v t' \<Longrightarrow> length t' \<le> length t"
  shows "read_elems p n arr s = read_elems q n arr s"
  using assms(1)
proof (induction n arbitrary: arr s)
  case (Suc n)
  have "read_elems p n (arr @ [v]) t' = read_elems q n (arr @ [v]) t'" if "p s = Done v t'" for v t'
    using Suc assms(2) [OF that] by (metis order.trans)
  with Suc.prems [of s] show ?case by (auto split: parsed.split)
qed simp

text \<open>More fuel than the input has bytes does not change the result.\<close>

lemma resp_parse_fuel: "length s < f \<Longrightarrow> length s < g \<Longrightarrow> resp_parse alloc stod f s = resp_parse alloc stod g s"
proof (induction f arbitrary: g s)
  case (Suc f)
  then obtain g' where g: "g = Suc g'" by (cases g) auto
  have agg: "read_aggregate alloc (resp_parse alloc stod f) mk c (drop (k + 2) s) =
      read_aggregate alloc (resp_parse alloc stod g') mk c (drop (k + 2) s)" if "s \<noteq> []" for mk c k
  proof -
    have "read_elems (resp_parse alloc stod f) (nat c) [] (drop (k + 2) s) =
        read_elems (resp_parse alloc stod g') (nat c) [] (drop (k + 2) s)"
    proof (rule read_elems_cong)
      fix t :: string assume "length t \<le> length (drop (k + 2) s)"
      then have "length t < length s" using that by (rule drop_shorter [rotated])
      with Suc.prems g show "resp_parse alloc stod f t = resp_parse alloc stod g' t" by (intro Suc.IH) auto
    qed (rule resp_parse_shrinks)
    then show ?thesis by (simp add: read_aggregate_def)
  qed
  show ?case unfolding g resp_parse.simps
    by (rule if_cong [OF refl refl], rule if_cong [OF refl refl], rule option.case_cong [OF refl refl])
      (simp add: Let_def agg [simplified] del: One_nat_def cong: option.case_cong if_cong)
qed simp

lemma read_elems_no_fuel:
  assumes "\<And>t. length t \<le> length s \<Longrightarrow> p t \<noteq> OutOfFuel" "\<And>t v t'. p t = Done v t' \<Longrightarrow> length t' \<le> length t"
  shows "read_elems p n arr s \<noteq> Inr OutOfFuel"
  using assms(1)
proof (induction n arbitrary: arr s)
  case (Suc n)
  have "read_elems p n (arr @ [v]) t' \<noteq> Inr OutOfFuel" if "p s = Done v t'" for v t'
    using Suc assms(2) [OF that] by (metis order.trans)
  with Suc.prems [of s] show ?case by (auto split: parsed.split)
qed simp

lemma resp_parse_no_fuel: "length s < f \<Longrightarrow> resp_parse alloc stod f s \<noteq> OutOfFuel"
proof (induction f arbitrary: s)
  case (Suc f)
  have agg: "read_aggregate alloc (resp_parse alloc stod f) mk c (drop (k + 2) s) \<noteq> OutOfFuel" if "s \<noteq> []" for mk c k
  proof -
    have "read_elems (resp_parse alloc stod f) (nat c) [] (drop (k + 2) s) \<noteq> Inr OutOfFuel"
    proof (rule read_elems_no_fuel)
      fix t :: string assume "length t \<le> length (drop (k + 2) s)"
      then have "length t < length s" using that by (rule drop_shorter [rotated])
      with Suc.prems show "resp_parse alloc stod f t \<noteq> OutOfFuel" by (intro Suc.IH) auto
    qed (rule resp_parse_shrinks)
    then show ?thesis by (auto simp: read_aggregate_def split: sum.split prod.split)
  qed
  then have agg': "OutOfFuel \<noteq> read_aggregate alloc (resp_parse alloc stod f) mk c (drop (k + 2) s)" if "s \<noteq> []" for mk c k
    using that by metis
  show ?case using agg agg' by (auto simp: resp_parse.simps Let_def parse_bulk_def split: option.split)
qed simp

subsection \<open>Numbers\<close>

lemma takeWhile_digits: "takeWhile is_digit (to_chars 10 n) = to_chars 10 n"
  using to_chars_dec [of n] by (simp add: takeWhile_eq_all_conv list_all_iff)

lemma to_chars_digits: "c \<in> set (to_chars 10 n) \<Longrightarrow> is_digit c"
  using to_chars_dec [of n] by (simp add: list_all_iff)

lemma to_chars_no_CR [simp]: "CR \<notin> set (to_chars 10 n)"
  using to_chars_digits [of CR n] by (auto simp: is_digit_def less_eq_char_def)

lemma to_chars_not_minus: "hd (to_chars 10 n) \<noteq> CHR ''-''"
  using to_chars_digits [of "hd (to_chars 10 n)" n] by (auto simp: is_digit_def less_eq_char_def)

lemma from_chars_to_chars: "n < 2 ^ 63 \<Longrightarrow> from_chars_i64 (to_chars 10 n) = Some (int n)"
  using to_chars_dec [of n] by (simp add: from_chars_i64_def to_chars_not_minus takeWhile_digits)

lemma from_chars_to_string:
  assumes "- (2 ^ 63) \<le> i" "i < 2 ^ 63"
  shows "from_chars_i64 (to_string_int i) = Some i"
proof (cases "i < 0")
  case True
  with assms to_chars_dec [of "nat (- i)"] show ?thesis
    by (simp add: to_string_int_def from_chars_i64_def Let_def takeWhile_digits nat_le_iff)
next
  case False
  with assms from_chars_to_chars [of "nat i"] show ?thesis by (simp add: to_string_int_def nat_less_iff)
qed

lemma to_string_no_CR [simp]: "CR \<notin> set (to_string_int i)"
  by (simp add: to_string_int_def)

subsection \<open>Reference encoding\<close>

text \<open>
  How a server writes a value, and the values it can write: lines without a carriage return, integers of
  64 bits, and no reply longer than memory allows.
\<close>

fun resp_encode :: "('d \<Rightarrow> string) \<Rightarrow> 'd resp_value \<Rightarrow> string" where
  "resp_encode pr RNull = ''_'' @ [CR, LF]"
| "resp_encode pr (RSimple s) = CHR ''+'' # s @ [CR, LF]"
| "resp_encode pr (RError s) = CHR ''-'' # s @ [CR, LF]"
| "resp_encode pr (RInteger i) = CHR '':'' # to_string_int i @ [CR, LF]"
| "resp_encode pr (RBulk s) = serialize_arg s"
| "resp_encode pr (RArray vs) = CHR ''*'' # to_chars 10 (length vs) @ [CR, LF] @ concat (map (resp_encode pr) vs)"
| "resp_encode pr (RBoolean b) = CHR ''#'' # (if b then ''t'' else ''f'') @ [CR, LF]"
| "resp_encode pr (RDouble d) = CHR '','' # pr d @ [CR, LF]"
| "resp_encode pr (RPush vs) = CHR ''>'' # to_chars 10 (length vs) @ [CR, LF] @ concat (map (resp_encode pr) vs)"

fun sendable :: "(nat \<Rightarrow> bool) \<Rightarrow> (string \<Rightarrow> 'd option) \<Rightarrow> ('d \<Rightarrow> string) \<Rightarrow> 'd resp_value \<Rightarrow> bool" where
  "sendable alloc stod pr RNull = True"
| "sendable alloc stod pr (RSimple s) = (CR \<notin> set s)"
| "sendable alloc stod pr (RError s) = (CR \<notin> set s)"
| "sendable alloc stod pr (RInteger i) = (- (2 ^ 63) \<le> i \<and> i < 2 ^ 63)"
| "sendable alloc stod pr (RBulk s) = (length s < 2 ^ 63)"
| "sendable alloc stod pr (RArray vs) =
     (length vs \<le> resp_vector_max \<and> (vs = [] \<or> alloc (length vs)) \<and> (\<forall>v \<in> set vs. sendable alloc stod pr v))"
| "sendable alloc stod pr (RBoolean b) = True"
| "sendable alloc stod pr (RDouble d) = (CR \<notin> set (pr d) \<and> stod (pr d) = Some d)"
| "sendable alloc stod pr (RPush vs) =
     (length vs \<le> resp_vector_max \<and> (vs = [] \<or> alloc (length vs)) \<and> (\<forall>v \<in> set vs. sendable alloc stod pr v))"

lemma serialize_command_encode: "serialize_command args = resp_encode pr (RArray (map RBulk args))"
  by (simp add: serialize_command_def comp_def)

lemma resp_encode_nonempty [simp]: "resp_encode pr v \<noteq> []"
  by (cases v) (simp_all add: serialize_arg_def)

lemma to_size_nat [simp]: "n < 2 ^ 63 \<Longrightarrow> to_size (int n) = n"
  by (simp add: to_size_def)

text \<open>A parser that reads each of \<open>vs\<close> reads the whole sequence, and waits within it.\<close>

lemma read_elems_encoded:
  assumes "\<And>v rest. v \<in> set vs \<Longrightarrow> length (enc v @ rest) \<le> L \<Longrightarrow> p (enc v @ rest) = Done v rest"
    "length (concat (map enc vs) @ rest) \<le> L"
  shows "read_elems p (length vs) arr (concat (map enc vs) @ rest) = Inl (arr @ vs, rest)"
  using assms
proof (induction vs arbitrary: arr)
  case (Cons v vs)
  have "p (enc v @ concat (map enc vs) @ rest) = Done v (concat (map enc vs) @ rest)"
    using Cons.prems by (intro Cons.prems(1)) auto
  moreover have "read_elems p (length vs) (arr @ [v]) (concat (map enc vs) @ rest) = Inl ((arr @ [v]) @ vs, rest)"
    using Cons.prems by (intro Cons.IH) auto
  ultimately show ?case by simp
qed simp

lemma read_elems_waits:
  assumes "\<And>v rest. v \<in> set vs \<Longrightarrow> length (enc v @ rest) \<le> L \<Longrightarrow> p (enc v @ rest) = Done v rest"
    "\<And>v q. v \<in> set vs \<Longrightarrow> strict_prefix q (enc v) \<Longrightarrow> length q \<le> L \<Longrightarrow> p q = NeedMoreData"
    "strict_prefix q (concat (map enc vs))" "length q \<le> L"
  shows "read_elems p (length vs) arr q = Inr NeedMoreData"
  using assms
proof (induction vs arbitrary: arr q)
  case (Cons v vs)
  from Cons.prems(3) consider "strict_prefix q (enc v)"
    | r where "q = enc v @ r" "strict_prefix r (concat (map enc vs))"
    unfolding strict_prefix_def by (cases "q = enc v") (auto simp: prefix_append)
  then show ?case
  proof cases
    case 1
    with Cons.prems(2) [of v q] Cons.prems(4) show ?thesis by simp
  next
    case 2
    then have "p q = Done v r" using Cons.prems(1) [of v r] Cons.prems(4) by simp
    moreover have "read_elems p (length vs) (arr @ [v]) r = Inr NeedMoreData"
      using Cons.prems 2 by (intro Cons.IH) auto
    ultimately show ?thesis by simp
  qed
qed simp

text \<open>One reply line: what the parser does once it has found the end of the line.\<close>

lemma resp_parse_line:
  assumes "CR \<notin> set h" "k \<in> set ''+-:_#,$*>~%''"
  shows "resp_parse alloc stod (Suc f) (k # h @ CR # LF # rest) =
    (if k = CHR ''+'' then Done (RSimple h) rest
     else if k = CHR ''-'' then Done (RError h) rest
     else if k = CHR '':''
     then (case from_chars_i64 h of None \<Rightarrow> ParseError | Some i \<Rightarrow> Done (RInteger i) rest)
     else if k = CHR ''_'' then Done RNull rest
     else if k = CHR ''#'' then Done (RBoolean (h \<noteq> [] \<and> hd h = CHR ''t'')) rest
     else if k = CHR '',''
     then (case stod h of None \<Rightarrow> ParseError | Some d \<Rightarrow> Done (RDouble d) rest)
     else if k = CHR ''$''
     then (case from_chars_i64 h of
             None \<Rightarrow> ParseError | Some len \<Rightarrow> parse_bulk (k # h @ CR # LF # rest) (Suc (length h)) len)
     else if k = CHR ''%''
     then (case from_chars_i64 h of
             None \<Rightarrow> ParseError
           | Some count \<Rightarrow>
               if 2 ^ 62 \<le> count \<or> count < - (2 ^ 62) then Raised SignedOverflow
               else read_aggregate alloc (resp_parse alloc stod f) RArray (count * 2) rest)
     else (case from_chars_i64 h of
             None \<Rightarrow> ParseError
           | Some count \<Rightarrow>
               if count = - 1 then Done RNull rest
               else read_aggregate alloc (resp_parse alloc stod f)
                      (if k = CHR ''>'' then RPush else RArray) count rest))"
proof -
  from assms have "CR \<notin> set (k # h)" by auto
  then have "resp_find_crlf (k # h @ CR # LF # rest) = Some (Suc (length h))"
    using find_crlf_line [of "k # h" rest] by simp
  moreover have "(h @ CR # LF # rest) ! 0 = CHR ''t'' \<longleftrightarrow> h \<noteq> [] \<and> hd h = CHR ''t''"
    by (cases h) auto
  ultimately show ?thesis using assms(2)
    by (simp add: resp_parse.simps substr_def del: list.set)
qed

lemma resp_parse_no_line:
  "k \<in> set ''+-:_#,$*>~%'' \<Longrightarrow> resp_find_crlf (k # h) = None \<Longrightarrow> resp_parse alloc stod (Suc f) (k # h) = NeedMoreData"
  by (simp add: resp_parse.simps del: list.set)

text \<open>A proper beginning of \<open>k # h @ [CR, LF] @ body\<close>: it lacks the end of the line, or stops in the body.\<close>

lemma resp_parse_beginning:
  assumes "strict_prefix q (k # h @ CR # LF # body)" "CR \<notin> set (k # h)" "k \<in> set ''+-:_#,$*>~%''"
  shows "resp_parse alloc stod (Suc f) q = NeedMoreData \<or>
    (\<exists>r. q = k # h @ CR # LF # r \<and> strict_prefix r body)"
proof (cases q)
  case Nil
  then show ?thesis by (simp add: resp_parse.simps)
next
  case (Cons x q')
  with assms(1) have "x = k" by (auto simp: strict_prefix_def)
  from assms(1) have "strict_prefix q ((k # h) @ CR # LF # body)" by simp
  from strict_prefix_line [OF this assms(2)] show ?thesis
  proof
    assume "resp_find_crlf q = None"
    with Cons \<open>x = k\<close> assms(3) resp_parse_no_line show ?thesis by metis
  qed auto
qed

lemma read_aggregate_nat:
  assumes "length vs \<le> resp_vector_max" "vs = [] \<or> alloc (length vs)"
  shows "read_aggregate alloc p mk (int (length vs)) s =
    (case read_elems p (length vs) [] s of Inl (arr, s') \<Rightarrow> Done (mk arr) s' | Inr r \<Rightarrow> r)"
proof -
  have "length vs < 2 ^ 63" using assms(1) by (simp add: resp_vector_max_def)
  with assms show ?thesis by (auto simp: read_aggregate_def)
qed

lemma parse_bulk_encoded:
  assumes "length b < 2 ^ 63" "length h \<le> 20"
  shows "parse_bulk (CHR ''$'' # h @ CR # LF # b @ CR # LF # rest) (Suc (length h)) (int (length b)) = Done (RBulk b) rest"
    "strict_prefix q (b @ [CR, LF]) \<Longrightarrow>
      parse_bulk (CHR ''$'' # h @ CR # LF # q) (Suc (length h)) (int (length b)) = NeedMoreData"
proof -
  have t: "size_wrap (Suc (length h) + 2 + to_size (int (length b)) + 2) = length h + length b + 5"
    using assms by (simp add: size_wrap_def)
  have drop_line: "drop (4 + length b) (CR # LF # b @ CR # LF # rest) = rest"
    by (simp add: eval_nat_numeral)
  from t show "parse_bulk (CHR ''$'' # h @ CR # LF # b @ CR # LF # rest) (Suc (length h)) (int (length b)) = Done (RBulk b) rest"
    using assms drop_line by (simp add: parse_bulk_def Let_def substr_def)
  assume "strict_prefix q (b @ [CR, LF])"
  then have "length q < length b + 2" using prefix_length_less by fastforce
  with t show "parse_bulk (CHR ''$'' # h @ CR # LF # q) (Suc (length h)) (int (length b)) = NeedMoreData"
    by (simp add: parse_bulk_def Let_def)
qed

lemma to_chars_dec_length: "n < 10 ^ k \<Longrightarrow> 0 < k \<Longrightarrow> length (to_chars 10 n) \<le> k"
proof (induction k arbitrary: n)
  case (Suc k)
  show ?case
  proof (cases "n < 10")
    case True
    then show ?thesis by (simp add: to_chars.simps)
  next
    case False
    then have "0 < k" using Suc.prems by (cases k) auto
    moreover have "n div 10 < 10 ^ k" using Suc.prems by (simp add: less_mult_imp_div_less)
    ultimately have "length (to_chars 10 (n div 10)) \<le> k" by (rule Suc.IH [rotated])
    with False show ?thesis by (subst to_chars.simps) simp
  qed
qed simp

lemma to_chars_u64_length: "n < 2 ^ 63 \<Longrightarrow> length (to_chars 10 n) \<le> 20"
  by (rule to_chars_dec_length) auto

lemma resp_parse_encoded:
  assumes "sendable alloc stod pr v" "length (resp_encode pr v @ rest) < f"
  shows "resp_parse alloc stod f (resp_encode pr v @ rest) = Done v rest"
  using assms
proof (induction v arbitrary: f rest)
  case (RArray vs)
  then obtain f' where f: "f = Suc f'" by (cases f) auto
  have "read_elems (resp_parse alloc stod f') (length vs) [] (concat (map (resp_encode pr) vs) @ rest) = Inl ([] @ vs, rest)"
    using RArray by (intro read_elems_encoded [where L = "f' - 1"]) (auto simp: f)
  moreover have "length vs < 2 ^ 63" using RArray.prems by (simp add: resp_vector_max_def)
  ultimately show ?case using RArray.prems
    by (simp add: f resp_parse_line from_chars_to_chars read_aggregate_nat)
next
  case (RPush vs)
  then obtain f' where f: "f = Suc f'" by (cases f) auto
  have "read_elems (resp_parse alloc stod f') (length vs) [] (concat (map (resp_encode pr) vs) @ rest) = Inl ([] @ vs, rest)"
    using RPush by (intro read_elems_encoded [where L = "f' - 1"]) (auto simp: f)
  moreover have "length vs < 2 ^ 63" using RPush.prems by (simp add: resp_vector_max_def)
  ultimately show ?case using RPush.prems
    by (simp add: f resp_parse_line from_chars_to_chars read_aggregate_nat)
next
  case (RBulk s)
  then obtain f' where f: "f = Suc f'" by (cases f) auto
  with RBulk show ?case
    by (simp add: serialize_arg_def resp_parse_line from_chars_to_chars parse_bulk_encoded(1) to_chars_u64_length)
qed (case_tac f; simp add: resp_parse_line [where h = "[]", simplified] resp_parse_line from_chars_to_string)+

lemma simple_line_waits:
  assumes "strict_prefix q (k # h @ [CR, LF])" "CR \<notin> set (k # h)" "k \<in> set ''+-:_#,$*>~%''" "0 < f"
  shows "resp_parse alloc stod f q = NeedMoreData"
  using resp_parse_beginning [of q k h "[]" alloc stod "f - 1"] assms by (auto simp: strict_prefix_def)

lemma aggregate_waits:
  assumes "strict_prefix q (k # to_chars 10 (length vs) @ CR # LF # concat (map enc vs))" "k \<in> {CHR ''*'', CHR ''>''}"
    and p: "\<And>v rest. v \<in> set vs \<Longrightarrow> length (enc v @ rest) \<le> f' \<Longrightarrow> resp_parse alloc stod (Suc f') (enc v @ rest) = Done v rest"
      "\<And>v q. v \<in> set vs \<Longrightarrow> strict_prefix q (enc v) \<Longrightarrow> length q \<le> f' \<Longrightarrow> resp_parse alloc stod (Suc f') q = NeedMoreData"
    and len: "length vs \<le> resp_vector_max" "vs = [] \<or> alloc (length vs)" "length q \<le> Suc f'"
  shows "resp_parse alloc stod (Suc (Suc f')) q = NeedMoreData"
proof -
  have small: "length vs < 2 ^ 63" using len(1) by (simp add: resp_vector_max_def)
  have "resp_parse alloc stod (Suc (Suc f')) q = NeedMoreData \<or>
      (\<exists>r. q = k # to_chars 10 (length vs) @ CR # LF # r \<and> strict_prefix r (concat (map enc vs)))"
    using assms(1,2) by (intro resp_parse_beginning) auto
  then show ?thesis
  proof
    assume "\<exists>r. q = k # to_chars 10 (length vs) @ CR # LF # r \<and> strict_prefix r (concat (map enc vs))"
    then obtain r where r: "q = k # to_chars 10 (length vs) @ CR # LF # r" "strict_prefix r (concat (map enc vs))" by blast
    have "read_elems (resp_parse alloc stod (Suc f')) (length vs) [] r = Inr NeedMoreData"
      using r len(3) p by (intro read_elems_waits [where L = f']) auto
    with r(1) assms(2) len small show ?thesis
      by (auto simp: resp_parse_line from_chars_to_chars read_aggregate_nat)
  qed
qed

lemma resp_parse_waits:
  assumes "sendable alloc stod pr v" "strict_prefix q (resp_encode pr v)" "length q < f"
  shows "resp_parse alloc stod f q = NeedMoreData"
  using assms
proof (induction v arbitrary: f q)
  case (RArray vs)
  show ?case
  proof (cases "f < 2")
    case True
    with RArray.prems(3) have "length q = 0" "f = Suc 0" by linarith+
    then show ?thesis by (simp add: resp_parse.simps)
  next
    case False
    then obtain f' where "f = Suc (Suc f')" by (metis add_2_eq_Suc le_Suc_ex not_less)
    with RArray show ?thesis
      using aggregate_waits [where enc = "resp_encode pr", of q "CHR ''*''" vs f' alloc stod] resp_parse_encoded [of alloc stod pr]
      by auto
  qed
next
  case (RPush vs)
  show ?case
  proof (cases "f < 2")
    case True
    with RPush.prems(3) have "length q = 0" "f = Suc 0" by linarith+
    then show ?thesis by (simp add: resp_parse.simps)
  next
    case False
    then obtain f' where "f = Suc (Suc f')" by (metis add_2_eq_Suc le_Suc_ex not_less)
    with RPush show ?thesis
      using aggregate_waits [where enc = "resp_encode pr", of q "CHR ''>''" vs f' alloc stod] resp_parse_encoded [of alloc stod pr]
      by auto
  qed
next
  case (RBulk s)
  then obtain f' where f: "f = Suc f'" by (cases f) auto
  have "resp_parse alloc stod f q = NeedMoreData \<or>
      (\<exists>r. q = CHR ''$'' # to_chars 10 (length s) @ CR # LF # r \<and> strict_prefix r (s @ [CR, LF]))"
    unfolding f using RBulk.prems by (intro resp_parse_beginning) (auto simp: serialize_arg_def)
  then show ?case
    using RBulk.prems by (auto simp: f resp_parse_line from_chars_to_chars parse_bulk_encoded(2) to_chars_u64_length)
next
  case (RBoolean b)
  then show ?case by (intro simple_line_waits [where k = "CHR ''#''" and h = "if b then ''t'' else ''f''"]) auto
qed (auto elim!: simple_line_waits [where h = "[]", simplified] simple_line_waits)



subsection \<open>Checksum and slots\<close>

text \<open>The specification: one bit of the division by the polynomial, eight bits for a byte.\<close>

definition crc_bit :: "16 word \<Rightarrow> 16 word" where
  "crc_bit w = (if bit w 15 then push_bit 1 w XOR 0x1021 else push_bit 1 w)"

definition crc_byte_spec :: "16 word \<Rightarrow> char \<Rightarrow> 16 word" where
  "crc_byte_spec w c = (crc_bit ^^ 8) (w XOR push_bit 8 (word_of_nat (u8 c)))"

definition crc16_spec :: "string \<Rightarrow> 16 word" where
  "crc16_spec s = foldl crc_byte_spec 0 s"

lemma crc_bit_xor: "crc_bit (v XOR w) = crc_bit v XOR crc_bit w"
  by (auto simp: crc_bit_def push_bit_xor bit_xor_iff ac_simps)

lemma crc_bits_xor: "(crc_bit ^^ n) (v XOR w) = (crc_bit ^^ n) v XOR (crc_bit ^^ n) w"
  by (induction n) (simp_all add: crc_bit_xor)

text \<open>The same on integers, where the table is evaluated.\<close>

definition crc_bit_int :: "int \<Rightarrow> int" where
  "crc_bit_int x = (if 32768 \<le> x then (2 * x - 65536) XOR 0x1021 else 2 * x)"

lemma bit_15_iff: "bit w 15 \<longleftrightarrow> 32768 \<le> uint w" for w :: "16 word"
proof -
  have "bit w 15 \<longleftrightarrow> bit (uint w) 15" by (simp add: bit_uint_iff)
  then have "bit w 15 \<longleftrightarrow> odd (uint w div 2 ^ 15)" by (simp only: bit_iff_odd [of "uint w"])
  moreover have "uint w < 2 ^ 16" "0 \<le> uint w" using uint_lt2p [of w] by simp_all
  then have "uint w div 2 ^ 15 = (if 32768 \<le> uint w then 1 else 0)" by auto
  ultimately show ?thesis by simp
qed

lemma uint_crc_bit: "uint (crc_bit w) = crc_bit_int (uint w)"
proof -
  have w: "uint w < 65536" "0 \<le> uint w" using uint_lt2p [of w] by simp_all
  have "uint (push_bit 1 w) = (2 * uint w) mod 65536"
    by (simp add: push_bit_eq_mult uint_word_ariths mult.commute)
  also have "\<dots> = (if 32768 \<le> uint w then 2 * uint w - 65536 else 2 * uint w)"
    using w minus_mod_self2 [of "2 * uint w" 65536] by (auto simp: mod_pos_pos_trivial simp del: minus_mod_self2)
  finally show ?thesis
    by (simp add: crc_bit_def crc_bit_int_def bit_15_iff uint_xor)
qed

lemma uint_crc_bits: "uint ((crc_bit ^^ n) w) = (crc_bit_int ^^ n) (uint w)"
  by (induction n) (simp_all add: uint_crc_bit)

lemma crc16_values_spec: "crc16_values = map (\<lambda>i. (crc_bit_int ^^ 8) (256 * i)) [0..255]"
  by code_simp

lemma crc16_table_nth: "i < 256 \<Longrightarrow> crc16_table ! i = (crc_bit ^^ 8) (push_bit 8 (word_of_nat i))"
proof -
  assume i: "i < 256"
  then have "uint (word_of_nat i :: 16 word) = int i" by (simp add: unsigned_of_nat take_bit_nat_eq_self)
  with i have "uint (push_bit 8 (word_of_nat i :: 16 word)) = 256 * int i"
    by (simp add: push_bit_eq_mult uint_word_ariths mult.commute)
  then have "(crc_bit_int ^^ 8) (256 * int i) = uint ((crc_bit ^^ 8) (push_bit 8 (word_of_nat i)))"
    by (simp add: uint_crc_bits)
  moreover have "crc16_table ! i = word_of_int ((crc_bit_int ^^ 8) (256 * int i))"
    using i by (simp add: crc16_table_def crc16_values_spec)
  ultimately show ?thesis by simp
qed

lemma crc_bit_int_small: "0 \<le> x \<Longrightarrow> 2 ^ n * x < 65536 \<Longrightarrow> (crc_bit_int ^^ n) x = 2 ^ n * x"
proof (induction n)
  case (Suc n)
  then have "2 ^ n * x < 32768" by (simp add: mult.commute)
  with Suc show ?case by (simp add: crc_bit_int_def)
qed simp

lemma crc_bits_low: "(crc_bit ^^ 8) (take_bit 8 w) = push_bit 8 w"
proof -
  have small: "uint (take_bit 8 w) < 256"
    using take_bit_int_less_exp [of 8 "uint w"] by (simp add: unsigned_take_bit_eq)
  have "(crc_bit_int ^^ 8) (uint (take_bit 8 w)) = 2 ^ 8 * uint (take_bit 8 w)"
    using small by (intro crc_bit_int_small) simp_all
  then have "uint ((crc_bit ^^ 8) (take_bit 8 w)) = uint (push_bit 8 (take_bit 8 w))"
    using small by (simp add: uint_crc_bits push_bit_eq_mult uint_word_ariths mult.commute)
  then have "(crc_bit ^^ 8) (take_bit 8 w) = push_bit 8 (take_bit 8 w)" by (simp only: word_uint_eq_iff)
  also have "\<dots> = push_bit 8 w" by (rule bit_word_eqI) (auto simp: bit_simps)
  finally show ?thesis .
qed

lemma crc16_byte_spec: "crc16_byte w c = crc_byte_spec w c"
proof -
  let ?y = "drop_bit 8 w XOR word_of_nat (u8 c)"
  have "(0xff :: 16 word) = mask 8" by (simp add: mask_eq_exp_minus_1)
  then have idx: "?y AND 0xff = take_bit 8 ?y" by (simp add: take_bit_eq_mask)
  have "unat (take_bit 8 ?y) < 2 ^ 8" by (simp only: unsigned_take_bit_eq take_bit_nat_less_exp)
  then have "crc16_table ! unat (?y AND 0xff) = (crc_bit ^^ 8) (push_bit 8 (take_bit 8 ?y))"
    by (subst idx, subst crc16_table_nth) simp_all
  then have "crc16_byte w c = (crc_bit ^^ 8) (take_bit 8 w XOR push_bit 8 (take_bit 8 ?y))"
    by (simp add: crc16_byte_def crc_bits_xor crc_bits_low)
  also have "take_bit 8 w XOR push_bit 8 (take_bit 8 ?y) = w XOR push_bit 8 (word_of_nat (u8 c))"
    by (rule bit_word_eqI) (auto simp: bit_simps)
  finally show ?thesis by (simp add: crc_byte_spec_def)
qed

lemma crc16_is_xmodem: "crc16 s = crc16_spec s"
  by (simp add: crc16_def crc16_spec_def crc16_byte_spec [abs_def])

text \<open>The hash tag of a key: what stands between the first opening brace and the first closing brace after it.\<close>

lemma tag_scan_skip: "CHR ''{'' \<notin> set a \<Longrightarrow> tag_scan (a @ b) i None = tag_scan b (i + length a) None"
  by (induction a arbitrary: i) auto

lemma tag_scan_skip_tag: "CHR ''}'' \<notin> set a \<Longrightarrow> tag_scan (a @ b) i (Some s) = tag_scan b (i + length a) (Some s)"
  by (induction a arbitrary: i) auto

lemma hash_tag_tagged:
  "CHR ''{'' \<notin> set a \<Longrightarrow> CHR ''}'' \<notin> set tag \<Longrightarrow> tag \<noteq> [] \<Longrightarrow>
    hash_tag (a @ CHR ''{'' # tag @ CHR ''}'' # b) = tag"
  by (simp add: hash_tag_def tag_scan_skip tag_scan_skip_tag substr_def)

lemma hash_tag_untagged:
  assumes "\<nexists>a tag b. key = a @ CHR ''{'' # tag @ CHR ''}'' # b \<and> CHR ''{'' \<notin> set a \<and> CHR ''}'' \<notin> set tag \<and> tag \<noteq> []"
  shows "hash_tag key = key"
proof (cases "CHR ''{'' \<in> set key")
  case False
  then show ?thesis using tag_scan_skip [of key "[]"] by (simp add: hash_tag_def)
next
  case True
  then obtain a r where r: "key = a @ CHR ''{'' # r" "CHR ''{'' \<notin> set a" by (metis split_list_first)
  show ?thesis
  proof (cases "CHR ''}'' \<in> set r")
    case False
    with r tag_scan_skip_tag [of r "[]"] show ?thesis by (simp add: hash_tag_def tag_scan_skip)
  next
    case True
    then obtain tag b where "r = tag @ CHR ''}'' # b" "CHR ''}'' \<notin> set tag" by (metis split_list_first)
    moreover from this r assms have "tag = []" by blast
    ultimately show ?thesis using r by (simp add: hash_tag_def tag_scan_skip)
  qed
qed

text \<open>
  C32: the slot of a key is the one of the cluster specification: the CRC of polynomial \<open>0x1021\<close>, computed
  bit by bit, of the hash tag (the non-empty text between the first opening brace and the first closing
  brace after it) or, without one, of the whole key, modulo 16384. So keys with the same tag share a slot.
\<close>

theorem key_slot_spec:
  "key_slot key =
     unat (crc16_spec
       (if \<exists>a tag b. key = a @ CHR ''{'' # tag @ CHR ''}'' # b \<and> CHR ''{'' \<notin> set a \<and> CHR ''}'' \<notin> set tag \<and> tag \<noteq> []
        then takeWhile ((\<noteq>) CHR ''}'') (tl (dropWhile ((\<noteq>) CHR ''{'') key)) else key)) mod 16384"
proof (cases "\<exists>a tag b. key = a @ CHR ''{'' # tag @ CHR ''}'' # b \<and> CHR ''{'' \<notin> set a \<and> CHR ''}'' \<notin> set tag \<and> tag \<noteq> []")
  case True
  then obtain a tag b where k: "key = a @ CHR ''{'' # tag @ CHR ''}'' # b" "CHR ''{'' \<notin> set a" "CHR ''}'' \<notin> set tag" "tag \<noteq> []"
    by blast
  then have "dropWhile ((\<noteq>) CHR ''{'') key = CHR ''{'' # tag @ CHR ''}'' # b"
    by (subst k(1), subst dropWhile_append2) auto
  moreover have "takeWhile ((\<noteq>) CHR ''}'') (tag @ CHR ''}'' # b) = tag"
    using k(3) by (subst takeWhile_append2) auto
  ultimately show ?thesis using True k by (simp add: key_slot_def crc16_is_xmodem hash_tag_tagged)
next
  case False
  with hash_tag_untagged [OF False] show ?thesis by (simp only: key_slot_def crc16_is_xmodem if_False)
qed

end
