(* ===== verification/Redis_Connection_Proofs.thy ===== *)
theory Redis_Connection_Proofs
  imports Redis_Connection Redis_Codec_Proofs
begin

text \<open>
  Replies over a connection. However the network cuts the byte stream, the replies read are the values the
  server wrote, in order, and the unread bytes stay in order between the buffer and the network.
\<close>

text \<open>
  \<open>delivers R fd pending\<close>: the network hands out the chunks of \<open>pending n\<close>, one for each \<^verbatim>\<open>recv\<close> on \<open>fd\<close>. This is
  what a stream socket does; the chunks and their sizes are arbitrary.
\<close>

definition delivers :: "('n, 'd) redis_env \<Rightarrow> nat \<Rightarrow> ('n \<Rightarrow> string list) \<Rightarrow> bool" where
  "delivers R fd pending \<longleftrightarrow>
     (\<forall>n c cs. pending n = c # cs \<longrightarrow> fst (re_recv R fd n) = c \<and> pending (snd (re_recv R fd n)) = cs)"

lemma read_response_more:
  "rc_buffer c = [] \<or> resp3_parse (re_alloc R) (re_stod R) (rc_buffer c) = NeedMoreData \<Longrightarrow>
    conn_recv R c n = (buf, n') \<Longrightarrow> buf \<noteq> [] \<Longrightarrow>
    read_response R (c, n) = read_response R (c\<lparr>rc_buffer := rc_buffer c @ buf\<rparr>, n')"
  by (subst read_response.simps) auto

lemma read_response_one:
  assumes net: "delivers R fd pending" and s: "sendable (re_alloc R) (re_stod R) pr v"
    and "rc_fd c = Some fd" "rc_buffer c @ concat (pending n) = resp_encode pr v @ rest" "[] \<notin> set (pending n)"
  shows "\<exists>c' n'. read_response R (c, n) = Some (Ret v, c', n') \<and> rc_fd c' = Some fd \<and>
    rc_buffer c' @ concat (pending n') = rest \<and> [] \<notin> set (pending n')"
  using assms(3-5)
proof (induction "pending n" arbitrary: c n)
  case Nil
  then have b: "rc_buffer c = resp_encode pr v @ rest" by simp
  then have "resp3_parse (re_alloc R) (re_stod R) (rc_buffer c) = Done v rest"
    using resp_parse_encoded [OF s] by (simp add: resp3_parse_def)
  moreover have "rc_buffer c \<noteq> []" using b by simp
  ultimately show ?case using Nil
    by (subst read_response.simps) (auto intro!: exI [of _ "c\<lparr>rc_buffer := rest\<rparr>"] exI [of _ n])
next
  case (Cons ch cs)
  show ?case
  proof (cases "strict_prefix (rc_buffer c) (resp_encode pr v)")
    case True
    then have more: "resp3_parse (re_alloc R) (re_stod R) (rc_buffer c) = NeedMoreData"
      using resp_parse_waits [OF s] by (simp add: resp3_parse_def)
    obtain n' where n': "re_recv R fd n = (ch, n')" "pending n' = cs"
    proof
      show "re_recv R fd n = (ch, snd (re_recv R fd n))" "pending (snd (re_recv R fd n)) = cs"
        using net Cons.hyps(2) [symmetric] unfolding delivers_def by (simp_all add: prod_eq_iff)
    qed
    have "read_response R (c, n) = read_response R (c\<lparr>rc_buffer := rc_buffer c @ ch\<rparr>, n')"
      using more n' Cons.prems Cons.hyps(2) [symmetric]
      by (intro read_response_more) (auto simp: conn_recv_def)
    moreover have "\<exists>c' m. read_response R (c\<lparr>rc_buffer := rc_buffer c @ ch\<rparr>, n') = Some (Ret v, c', m) \<and> rc_fd c' = Some fd \<and>
        rc_buffer c' @ concat (pending m) = rest \<and> [] \<notin> set (pending m)"
      using Cons.prems Cons.hyps(2) [symmetric] n'(2) by (intro Cons.hyps(1)) simp_all
    ultimately show ?thesis by simp
  next
    case False
    have "prefix (rc_buffer c) (resp_encode pr v) \<or> prefix (resp_encode pr v) (rc_buffer c)"
      by (rule prefix_same_cases [OF prefixI [OF Cons.prems(2) [symmetric]]]) simp
    with False have "prefix (resp_encode pr v) (rc_buffer c)" by (auto simp: strict_prefix_def)
    then obtain r where r: "rc_buffer c = resp_encode pr v @ r" by (rule prefixE)
    then have "resp3_parse (re_alloc R) (re_stod R) (rc_buffer c) = Done v r"
      using resp_parse_encoded [OF s] by (simp add: resp3_parse_def)
    moreover have "rc_buffer c \<noteq> []" "r @ concat (pending n) = rest" using r Cons.prems(2) by simp_all
    ultimately show ?thesis using Cons.prems
      by (subst read_response.simps) (auto intro!: exI [of _ "c\<lparr>rc_buffer := r\<rparr>"] exI [of _ n])
  qed
qed

lemma read_responses_all:
  assumes net: "delivers R fd pending" and "list_all (sendable (re_alloc R) (re_stod R) pr) vs"
    and "rc_fd c = Some fd" "rc_buffer c @ concat (pending n) = concat (map (resp_encode pr) vs) @ rest" "[] \<notin> set (pending n)"
  shows "\<exists>c' n'. read_responses R (length vs) (c, n) = Some (Ret vs, c', n') \<and> rc_fd c' = Some fd \<and>
    rc_buffer c' @ concat (pending n') = rest \<and> [] \<notin> set (pending n')"
  using assms(2-5)
proof (induction vs arbitrary: c n)
  case Nil
  then show ?case by (simp add: io_ret_def)
next
  case (Cons v vs)
  obtain c1 n1 where 1: "read_response R (c, n) = Some (Ret v, c1, n1)" "rc_fd c1 = Some fd"
      "rc_buffer c1 @ concat (pending n1) = concat (map (resp_encode pr) vs) @ rest" "[] \<notin> set (pending n1)"
    using read_response_one [OF net, of pr v c n "concat (map (resp_encode pr) vs) @ rest"] Cons.prems by auto
  then obtain c2 n2 where "read_responses R (length vs) (c1, n1) = Some (Ret vs, c2, n2)" "rc_fd c2 = Some fd"
      "rc_buffer c2 @ concat (pending n2) = rest" "[] \<notin> set (pending n2)"
    using Cons.IH [of c1 n1] Cons.prems(1) by auto
  with 1 show ?case by (simp add: io_bind_def io_ret_def)
qed

text \<open>
  C29: a pipeline returns the server's replies. On an open connection with an empty buffer, after a
  successful send, if the network then delivers, in chunks cut anywhere, the encodings of as many values as
  the batch has commands and possibly more bytes, the call returns exactly those values in order, the connection
  stays open, and the bytes not consumed are still there, in order, for the next call.
\<close>

theorem redis_pipeline_replies:
  assumes "delivers R fd pending" "list_all (sendable (re_alloc R) (re_stod R) pr) vs" "length vs = length batch"
    and "rc_fd c = Some fd" "rc_buffer c = []"
    and "re_send R fd (concat (map serialize_command batch)) n = (sent, n1)" "0 < sent"
    and "concat (pending n1) = concat (map (resp_encode pr) vs) @ rest" "[] \<notin> set (pending n1)"
  shows "if batch = [] then execute_pipeline R batch (c, n) = Some (Ret [], c, n)
    else \<exists>c' n'. execute_pipeline R batch (c, n) = Some (Ret vs, c', n') \<and> rc_fd c' = Some fd \<and>
      rc_buffer c' @ concat (pending n') = rest"
proof (cases "batch = []")
  case True
  then show ?thesis by (simp add: execute_pipeline_def io_ret_def)
next
  case False
  have "\<exists>c' n'. read_responses R (length vs) (c, n1) = Some (Ret vs, c', n') \<and> rc_fd c' = Some fd \<and>
      rc_buffer c' @ concat (pending n') = rest \<and> [] \<notin> set (pending n')"
    using assms by (intro read_responses_all) simp_all
  moreover have "execute_pipeline R batch (c, n) = read_responses R (length vs) (c, n1)"
    using False assms(3-7)
    by (simp add: execute_pipeline_def pipeline_open_def conn_send_def io_bind_def io_get_def is_connected_def)
  ultimately show ?thesis using False by auto
qed

definition demo_env :: "(string list, bool) redis_env" where
  "demo_env =
     \<lparr>re_connect = \<lambda>h p n. (Some 3, n), re_send = \<lambda>fd s n. (int (length s), n),
      re_recv = \<lambda>fd n. (case n of [] \<Rightarrow> ([], []) | c # cs \<Rightarrow> (c, cs)), re_close = \<lambda>fd n. n, re_sleep = \<lambda>t n. n,
      re_uuid = \<lambda>n. ([], n), re_alloc = \<lambda>n. n \<le> 1000, re_stod = \<lambda>s. None, re_dtoa = \<lambda>d. [], re_zero = False,
      re_sha1 = \<lambda>s. []\<rparr>"

theorem redis_pipeline_replies_witness:
  "\<exists>c' n'. execute_pipeline demo_env [[''GET'', ''a''], [''PING'']]
     (\<lparr>rc_config = default_node, rc_fd = Some 3, rc_buffer = []\<rparr>, [''$1'' @ [CR], LF # ''x'', [CR, LF] @ ''+PO'', ''NG'' @ [CR, LF], ''!'']) =
     Some (Ret [RBulk ''x'', RSimple ''PONG''], c', n') \<and> rc_fd c' = Some 3 \<and> rc_buffer c' @ concat n' = ''!''"
proof -
  let ?n = "[''$1'' @ [CR], LF # ''x'', [CR, LF] @ ''+PO'', ''NG'' @ [CR, LF], ''!'']"
  let ?vs = "[RBulk ''x'', RSimple ''PONG'']" and ?batch = "[[''GET'', ''a''], [''PING'']]"
  have "delivers demo_env 3 (\<lambda>n. n)" by (simp add: delivers_def demo_env_def)
  moreover have "concat ?n = concat (map (resp_encode (\<lambda>d. [])) ?vs) @ ''!''"
    by (simp add: serialize_arg_def to_chars.simps digit_char_def u8_def char_eq_char_of)
  moreover have "list_all (sendable (re_alloc demo_env) (re_stod demo_env) (\<lambda>d. [])) ?vs"
    by simp
  moreover have "re_send demo_env 3 (concat (map serialize_command ?batch)) ?n =
      (int (length (concat (map serialize_command ?batch))), ?n)" by (simp add: demo_env_def)
  moreover have "0 < int (length (concat (map serialize_command ?batch)))" by (simp add: serialize_command_def)
  ultimately show ?thesis
    using redis_pipeline_replies [of demo_env 3 "\<lambda>n. n" "\<lambda>d. []" ?vs ?batch "\<lparr>rc_config = default_node, rc_fd = Some 3, rc_buffer = []\<rparr>" ?n _ ?n "''!''"]
    by simp
qed

end
