(* ===== verification/Redis_Client_Proofs.thy ===== *)
theory Redis_Client_Proofs
  imports Redis_Commands Redis_Connection_Proofs "HOL-Library.Multiset"
begin

text \<open>
  Properties of the client on a cluster: redirections move a slot for good, and a pipeline that is scattered over
  the nodes gathers every reply at the place of its command.
\<close>

lemma io_bind_Some:
  "io_bind m f s = Some (Ret b, s'') \<longleftrightarrow> (\<exists>a s'. m s = Some (Ret a, s') \<and> f a s' = Some (Ret b, s''))"
  by (auto simp: io_bind_def split: option.split outcome.split)

lemma io_bind_eq: "m s = Some (Ret a, s') \<Longrightarrow> io_bind m f s = f a s'"
  by (simp add: io_bind_def)

subsection \<open>A pipeline answers every command\<close>

lemma read_responses_length: "read_responses R k cn = Some (Ret vs, cn') \<Longrightarrow> length vs = k"
  by (induction k arbitrary: cn vs cn') (auto simp: io_ret_def io_bind_Some)

lemma pipeline_open_length: "pipeline_open R batch cn = Some (Ret vs, cn') \<Longrightarrow> length vs = length batch"
  by (auto simp: pipeline_open_def io_bind_Some io_seq_def io_ret_def split: if_splits dest: read_responses_length)

lemma execute_pipeline_length: "execute_pipeline R batch cn = Some (Ret vs, cn') \<Longrightarrow> length vs = length batch"
  by (auto simp: execute_pipeline_def io_bind_Some io_ret_def split: if_splits dest: pipeline_open_length)

lemma on_pool_pipeline_length:
  "on_pool pid (pool_execute_pipeline R batch) s = Some (Ret vs, s') \<Longrightarrow> length vs = length batch"
  by (auto simp: on_pool_def pool_execute_pipeline_def with_guard_def io_bind_Some
      split: option.splits prod.splits dest: execute_pipeline_length)

subsection \<open>Batches\<close>

text \<open>The indices below \<open>i\<close> that have a pool are spread over the batches, each once.\<close>

definition batch_indices :: "batches \<Rightarrow> nat list" where
  "batch_indices bs = concat (map snd bs)"

lemma add_to_batch_indices:
  "distinct (map fst bs) \<Longrightarrow> mset (batch_indices (add_to_batch pid i bs)) = add_mset i (mset (batch_indices bs))"
proof (induction bs)
  case (Cons b bs)
  show ?case
  proof (cases "fst b = pid")
    case True
    with Cons.prems have "pid \<notin> fst ` set bs" by auto
    then have "map (\<lambda>(q, is). if q = pid then (q, is @ [i]) else (q, is)) bs = bs"
      by (auto intro!: map_idI simp: image_iff)
    with True show ?thesis by (cases b) (simp add: add_to_batch_def batch_indices_def)
  next
    case False
    with Cons show ?thesis by (cases b) (auto simp: add_to_batch_def batch_indices_def split: if_splits)
  qed
qed (simp add: add_to_batch_def batch_indices_def)

lemma add_to_batch_distinct: "distinct (map fst bs) \<Longrightarrow> distinct (map fst (add_to_batch pid i bs))"
proof -
  have "map fst (map (\<lambda>(q, is). if q = pid then (q, is @ [i]) else (q, is)) bs) = map fst bs" by auto
  then show "distinct (map fst bs) \<Longrightarrow> distinct (map fst (add_to_batch pid i bs))"
    by (auto simp: add_to_batch_def simp del: map_map)
qed

definition batches_ok :: "nat \<Rightarrow> nat \<Rightarrow> batches \<Rightarrow> 'd resp_value list \<Rightarrow> bool" where
  "batches_ok n i bs results \<longleftrightarrow>
     distinct (map fst bs) \<and> distinct (batch_indices bs) \<and> set (batch_indices bs) \<subseteq> {..<i} \<and> length results = n \<and>
     (\<forall>j < i. j \<in> set (batch_indices bs) \<or> results ! j = RError ''No cluster pool for key'')"

lemma batches_ok_none:
  "batches_ok n i bs results \<Longrightarrow> i < n \<Longrightarrow> batches_ok n (i + 1) bs (results[i := RError ''No cluster pool for key''])"
  unfolding batches_ok_def by (auto simp: nth_list_update subset_iff less_Suc_eq)

lemma batches_ok_some:
  assumes "batches_ok n i bs results"
  shows "batches_ok n (i + 1) (add_to_batch pid i bs) results"
proof -
  have m: "mset (batch_indices (add_to_batch pid i bs)) = mset (i # batch_indices bs)"
    using assms by (simp add: batches_ok_def add_to_batch_indices)
  then have "set (batch_indices (add_to_batch pid i bs)) = insert i (set (batch_indices bs))"
    using mset_eq_setD [OF m] by simp
  moreover have "distinct (i # batch_indices bs)" using assms by (auto simp: batches_ok_def)
  then have "distinct (batch_indices (add_to_batch pid i bs))" using mset_eq_imp_distinct_iff [OF m] by simp
  ultimately show ?thesis
    using assms unfolding batches_ok_def by (auto simp: add_to_batch_distinct subset_iff less_Suc_eq)
qed

lemma split_commands_ok:
  "split_commands i cmds bs results s = Some (Ret (bs', results'), s') \<Longrightarrow> batches_ok n i bs results \<Longrightarrow>
    n = i + length cmds \<Longrightarrow> batches_ok n n bs' results'"
proof (induction cmds arbitrary: i bs results s)
  case Nil
  then show ?case by (auto simp: io_ret_def)
next
  case (Cons cmd cmds)
  then obtain po s1 where "(case po of
        None \<Rightarrow> split_commands (i + 1) cmds bs (results[i := RError ''No cluster pool for key''])
      | Some pid \<Rightarrow> split_commands (i + 1) cmds (add_to_batch pid i bs) results) s1 = Some (Ret (bs', results'), s')"
    by (auto simp: io_bind_Some)
  then show ?case
    using Cons.IH Cons.prems(2,3) batches_ok_none [of n i bs results] batches_ok_some [of n i bs results]
    by (auto split: option.splits)
qed

subsection \<open>Gathering\<close>

lemma length_put_results [simp]: "length (put_results is vs rs) = length rs"
proof -
  have "length (foldl (\<lambda>rs (i, v). rs[i := v]) rs ps) = length rs" for ps
    by (induction ps arbitrary: rs) (auto simp: case_prod_beta)
  then show ?thesis by (simp add: put_results_def)
qed

lemma put_results_nth:
  "distinct is \<Longrightarrow> length vs = length is \<Longrightarrow> set is \<subseteq> {..<length rs} \<Longrightarrow>
    (\<forall>k < length is. put_results is vs rs ! (is ! k) = vs ! k) \<and>
    (\<forall>j. j \<notin> set is \<longrightarrow> put_results is vs rs ! j = rs ! j)"
proof (induction "is" arbitrary: vs rs)
  case Nil
  then show ?case by (simp add: put_results_def)
next
  case (Cons i js)
  then obtain v vs' where vs: "vs = v # vs'" by (cases vs) auto
  have "put_results (i # js) vs rs = put_results js vs' (rs[i := v])" by (simp add: vs put_results_def)
  with Cons.IH [of vs' "rs[i := v]"] Cons.prems vs show ?case
    by (auto simp: nth_Cons nth_list_update split: nat.split)
qed

text \<open>
  \<open>answers R P\<close>: the nodes answer each command of a pipeline with a reply that \<open>P\<close> accepts for it, whatever
  that means: a statement about the servers, for an arbitrary relation.
\<close>

definition answers :: "('n, 'd) redis_env \<Rightarrow> (string list \<Rightarrow> 'd resp_value \<Rightarrow> bool) \<Rightarrow> bool" where
  "answers R P \<longleftrightarrow>
     (\<forall>pid batch s vs s'. on_pool pid (pool_execute_pipeline R batch) s = Some (Ret vs, s') \<longrightarrow> list_all2 P batch vs)"

lemma run_batches_aligned:
  assumes "answers R P"
  shows "run_batches R cmds bs rs s = Some (Ret rs', s') \<Longrightarrow> distinct (batch_indices bs) \<Longrightarrow>
    set (batch_indices bs) \<subseteq> {..<length rs} \<Longrightarrow>
    length rs' = length rs \<and> (\<forall>j \<in> set (batch_indices bs). P (cmds ! j) (rs' ! j)) \<and>
    (\<forall>j. j \<notin> set (batch_indices bs) \<longrightarrow> rs' ! j = rs ! j)"
proof (induction bs arbitrary: rs s)
  case Nil
  then show ?case by (auto simp: io_ret_def batch_indices_def)
next
  case (Cons b bs)
  then obtain vs s1 where vs: "on_pool (fst b) (pool_execute_pipeline R (map ((!) cmds) (snd b))) s = Some (Ret vs, s1)"
      "run_batches R cmds bs (put_results (snd b) vs rs) s1 = Some (Ret rs', s')"
    by (auto simp: io_bind_Some)
  have P: "list_all2 P (map ((!) cmds) (snd b)) vs" using assms vs(1) unfolding answers_def by blast
  then have len: "length vs = length (snd b)" by (auto dest: list_all2_lengthD)
  have idx: "distinct (snd b)" "set (snd b) \<subseteq> {..<length rs}" "distinct (batch_indices bs)"
      "set (batch_indices bs) \<subseteq> {..<length rs}" "set (snd b) \<inter> set (batch_indices bs) = {}"
    using Cons.prems(2,3) by (auto simp: batch_indices_def)
  have IH: "length rs' = length rs" "\<And>j. j \<in> set (batch_indices bs) \<Longrightarrow> P (cmds ! j) (rs' ! j)"
      "\<And>j. j \<notin> set (batch_indices bs) \<Longrightarrow> rs' ! j = put_results (snd b) vs rs ! j"
    using Cons.IH [OF vs(2)] idx by auto
  have put: "\<And>k. k < length (snd b) \<Longrightarrow> put_results (snd b) vs rs ! (snd b ! k) = vs ! k"
      "\<And>j. j \<notin> set (snd b) \<Longrightarrow> put_results (snd b) vs rs ! j = rs ! j"
    using put_results_nth [OF idx(1) len idx(2)] by auto
  have "P (cmds ! j) (rs' ! j)" if j: "j \<in> set (snd b)" for j
  proof -
    obtain k where k: "k < length (snd b)" "snd b ! k = j" using j by (auto simp: in_set_conv_nth)
    moreover have "P (cmds ! j) (vs ! k)" using P k by (auto simp: list_all2_conv_all_nth)
    moreover have "j \<notin> set (batch_indices bs)" using idx(5) j by blast
    ultimately show ?thesis using IH(3) [of j] put(1) [of k] by simp
  qed
  with IH put(2) show ?case by (auto simp: batch_indices_def)
qed


text \<open>A network on which no connection opens and nothing can be sent.\<close>

definition dead_env :: "(unit, bool) redis_env" where
  "dead_env =
     \<lparr>re_connect = \<lambda>h p n. (None, n), re_send = \<lambda>fd s n. (0, n), re_recv = \<lambda>fd n. ([], n),
      re_close = \<lambda>fd n. n, re_sleep = \<lambda>t n. n, re_uuid = \<lambda>n. ([], n), re_alloc = \<lambda>n. True,
      re_stod = \<lambda>s. None, re_dtoa = \<lambda>d. [], re_zero = False, re_sha1 = \<lambda>s. []\<rparr>"

lemma dead_pipeline_open:
  "pipeline_open dead_env batch (c, n) =
    Some (Ret (replicate (length batch) (RError ''Failed to send pipeline commands to Redis'')), conn_close dead_env (c, n))"
  by (simp add: pipeline_open_def conn_send_def io_defs dead_env_def split: option.split)

lemma dead_conn_open: "conn_open dead_env (c, n) = Some (Ret False, conn_close dead_env (c, n))"
  by (simp add: conn_open_def conn_close_def dead_env_def split: option.split)

lemma dead_answers: "answers dead_env (\<lambda>cmd v. is_error v)"
proof -
  have "list_all2 (\<lambda>cmd v. is_error v) batch vs" if "execute_pipeline dead_env batch (c, n) = Some (Ret vs, cn)" for batch c n vs cn
    using that
    by (auto simp: execute_pipeline_def dead_pipeline_open dead_conn_open io_ret_def io_bind_def io_get_def
        list_all2_conv_all_nth is_error_def split: if_splits)
  then show ?thesis
    by (auto simp: answers_def on_pool_def pool_execute_pipeline_def with_guard_def io_bind_Some
        split: option.splits prod.splits)
qed

lemma key_slot_less [simp]: "key_slot key < 16384"
  by (simp add: key_slot_def)


subsection \<open>Redirections\<close>

lemma on_pool_cluster: "on_pool pid m s = Some (r, s') \<Longrightarrow> rd_cluster s' = rd_cluster s"
  by (auto simp: on_pool_def split: option.splits)

lemma get_or_create_pool_total:
  "\<exists>pid s'. get_or_create_pool host port s = Some (Ret pid, s') \<and>
    cl_slots (rd_cluster s') = cl_slots (rd_cluster s) \<and> cl_seeds (rd_cluster s') = cl_seeds (rd_cluster s)"
  by (auto simp: get_or_create_pool_def add_pool_def Let_def split: option.split)

lemma sv_find_after: "c \<notin> set a \<Longrightarrow> sv_find c (a @ c # b) 0 = Some (length a)"
  by (induction a) (auto simp: sv_find_eval)

lemma redirect_target_address:
  "SP \<notin> set n \<Longrightarrow> CHR '':'' \<notin> set ip \<Longrightarrow> redirect_target (n @ SP # ip @ CHR '':'' # p) = Some (ip, p)"
  by (simp add: redirect_target_def sv_find_after)

lemma stoi_to_chars: "n < 2 ^ 31 \<Longrightarrow> stoi (to_chars 10 n) = Inr (int n)"
proof -
  assume n: "n < 2 ^ 31"
  have d: "is_digit (hd (to_chars 10 n))" using to_chars_digits [of "hd (to_chars 10 n)" n] by simp
  then have "\<not> is_c_space (hd (to_chars 10 n))" "hd (to_chars 10 n) \<noteq> CHR ''-''" "hd (to_chars 10 n) \<noteq> CHR ''+''"
    by (auto simp: is_digit_def less_eq_char_def is_c_space_def u8_def)
  moreover from this have "dropWhile is_c_space (to_chars 10 n) = to_chars 10 n"
    by (cases "to_chars 10 n") auto
  ultimately show ?thesis using n to_chars_dec [of n] by (simp add: stoi_def Let_def takeWhile_digits)
qed

text \<open>
  a cluster client follows a \<^verbatim>\<open>MOVED\<close> redirection and remembers it. When the node that serves the slot of a key
  answers that the slot moved to another address, the command is run on the pool of that address, and its outcome is
  the outcome of the call; from then on that pool serves every key of the slot.
\<close>

theorem cluster_follows_moved:
  assumes "slot_pool (key_slot key) s = Some pid" "length (cl_slots (rd_cluster s)) = 16384"
    and "on_pool pid (pool_execute R args) s = Some (Ret (RError (''MOVED '' @ n @ SP # ip @ CHR '':'' # to_chars 10 port)), s1)"
    and "SP \<notin> set n" "CHR '':'' \<notin> set ip" "port < 65536"
  shows "\<exists>pid' s2. get_or_create_pool ip port s1 = Some (Ret pid', s2) \<and>
    cluster_execute R key args s = on_pool pid' (pool_execute R args) (set_slot (key_slot key) pid' s2) \<and>
    (\<forall>r s3 key'. cluster_execute R key args s = Some (r, s3) \<and> key_slot key' = key_slot key \<longrightarrow>
       slot_pool (key_slot key') s3 = Some pid')"
proof -
  obtain pid' s2 where g: "get_or_create_pool ip port s1 = Some (Ret pid', s2)"
      "cl_slots (rd_cluster s2) = cl_slots (rd_cluster s1)" using get_or_create_pool_total by blast
  have t: "redirect_target (n @ SP # ip @ CHR '':'' # to_chars 10 port) = Some (ip, to_chars 10 port)"
    using assms(4,5) by (rule redirect_target_address)
  have "redirect_pool (ip, to_chars 10 port) s1 = Some (Ret pid', s2)"
    using assms(6) g(1) by (simp add: redirect_pool_def stoi_to_chars to_u16_def)
  then have ex: "cluster_execute R key args s = on_pool pid' (pool_execute R args) (set_slot (key_slot key) pid' s2)"
    using assms(1,3) t
    by (simp add: cluster_execute_def Let_def io_bind_def io_get_def io_ret_def io_seq_def io_modify_def cluster_redirect_def
        is_error_def as_string_def starts_with_def)
  have "slot_pool (key_slot key) s3 = Some pid'" if "cluster_execute R key args s = Some (r, s3)" for r s3
  proof -
    have "rd_cluster s3 = rd_cluster (set_slot (key_slot key) pid' s2)"
      using that unfolding ex by (rule on_pool_cluster)
    with g(2) on_pool_cluster [OF assms(3)] assms(2) show ?thesis by (simp add: slot_pool_def set_slot_def)
  qed
  with ex g(1) show ?thesis by auto
qed

text \<open>Reading one reply that arrives in one piece.\<close>

lemma demo_read:
  assumes "rc_fd c = Some fd" "rc_buffer c = []" "sendable (re_alloc demo_env) (re_stod demo_env) pr v"
  shows "read_response demo_env (c, resp_encode pr v # n) = Some (Ret v, c, n)"
proof -
  have "read_response demo_env (c, resp_encode pr v # n) = read_response demo_env (c\<lparr>rc_buffer := resp_encode pr v\<rparr>, n)"
    using assms read_response_more [of c demo_env "resp_encode pr v # n" "resp_encode pr v" n]
    by (simp add: conn_recv_def demo_env_def)
  moreover have "resp3_parse (re_alloc demo_env) (re_stod demo_env) (resp_encode pr v) = Done v []"
    using resp_parse_encoded [OF assms(3), of "[]"] by (simp add: resp3_parse_def)
  ultimately show ?thesis using assms(2) by (subst (asm) (2) read_response.simps) simp
qed

definition moved_state :: "string list redis_state" where
  "moved_state =
     (client_cluster ((new_router [] [] 8)\<lparr>cl_slots := replicate 16384 (Some 0)\<rparr>)
        [resp_encode (\<lambda>d. []) (RError (''MOVED '' @ ''1'' @ SP # ''b'' @ CHR '':'' # to_chars 10 7) :: bool resp_value),
         resp_encode (\<lambda>d. []) (RSimple ''OK'' :: bool resp_value)])
     \<lparr>rd_pools := [\<lparr>pl_config = default_node, pl_max = 8,
        pl_conns = [\<lparr>rc_config = default_node, rc_fd = Some 3, rc_buffer = []\<rparr>]\<rparr>]\<rparr>"

lemma moved_first:
  "\<exists>s1. on_pool 0 (pool_execute demo_env [''GET'', ''a'']) moved_state =
     Some (Ret (RError (''MOVED '' @ ''1'' @ SP # ''b'' @ CHR '':'' # to_chars 10 7)), s1)"
proof -
  have "CR \<notin> set (''MOVED '' @ ''1'' @ SP # ''b'' @ CHR '':'' # to_chars 10 7)" by simp
  then show ?thesis
    by (simp add: on_pool_def moved_state_def client_cluster_def pool_execute_def with_guard_def io_bind_def
        pool_acquire_def is_connected_def conn_execute_def io_get_def execute_open_def conn_send_def
        demo_env_def [THEN arg_cong, of "\<lambda>R. re_send R"] serialize_command_def
        demo_read [where pr = "\<lambda>d. []"] pool_release_def del: resp_encode.simps)
qed

theorem cluster_follows_moved_witness:
  "\<exists>s1 pid' s2. on_pool 0 (pool_execute demo_env [''GET'', ''a'']) moved_state =
      Some (Ret (RError (''MOVED '' @ ''1'' @ SP # ''b'' @ CHR '':'' # to_chars 10 7)), s1) \<and>
     get_or_create_pool ''b'' 7 s1 = Some (Ret pid', s2) \<and>
     cluster_execute demo_env ''a'' [''GET'', ''a''] moved_state =
       on_pool pid' (pool_execute demo_env [''GET'', ''a'']) (set_slot (key_slot ''a'') pid' s2)"
proof -
  obtain s1 where s1: "on_pool 0 (pool_execute demo_env [''GET'', ''a'']) moved_state =
      Some (Ret (RError (''MOVED '' @ ''1'' @ SP # ''b'' @ CHR '':'' # to_chars 10 7)), s1)"
    using moved_first by blast
  have "slot_pool (key_slot ''a'') moved_state = Some 0" "length (cl_slots (rd_cluster moved_state)) = 16384"
    by (simp_all add: moved_state_def slot_pool_def client_cluster_def)
  from cluster_follows_moved [OF this s1] s1 show ?thesis by auto
qed

end
