(* ===== verification/Wal_Log.thy ===== *)
theory Wal_Log
  imports Aegon_Prelude
begin

unbundle bit_operations_syntax

text \<open>
  \<^verbatim>\<open>src/storage/File.cpp\<close>, \<^verbatim>\<open>FileStream.cpp\<close> (the writer) and \<^verbatim>\<open>WalLog.cpp\<close>: a file handle over the kernel's
  positional reads and writes, the buffered writer, and the write-ahead log with its record framing and
  checksum.

  The kernel is a record of operations on a state \<open>'w\<close> of the disk; a call fails, or transfers some bytes. Loops
  end because every round transfers at least one byte, or moves past a record header. Byte order is that of the
  supported machines, little endian.
\<close>

subsection \<open>Opening a file\<close>

datatype direct_io_mode = DirectAuto | DirectAlways | DirectDisabled

datatype device_tier = NVMe | SATA_SSD | HDD | RemoteDevice | UnknownDevice

datatype posix_flag = O_RDWR | O_WRONLY | O_RDONLY | O_CREAT | O_EXCL | O_TRUNC | O_APPEND | O_SYNC | O_CLOEXEC | O_DIRECT

type_synonym open_mode = "32 word"

abbreviation ReadOnly :: open_mode where "ReadOnly \<equiv> 1"
abbreviation WriteOnly :: open_mode where "WriteOnly \<equiv> 2"
abbreviation ReadWrite :: open_mode where "ReadWrite \<equiv> ReadOnly OR WriteOnly"
abbreviation CreateFile :: open_mode where "CreateFile \<equiv> 4"
abbreviation ExclusiveFile :: open_mode where "ExclusiveFile \<equiv> 8"
abbreviation TruncateFile :: open_mode where "TruncateFile \<equiv> 16"
abbreviation AppendMode :: open_mode where "AppendMode \<equiv> 32"
abbreviation DirectMode :: open_mode where "DirectMode \<equiv> 64"
abbreviation SyncMode :: open_mode where "SyncMode \<equiv> 128"

definition has_flag :: "open_mode \<Rightarrow> open_mode \<Rightarrow> bool" where
  "has_flag m flag \<longleftrightarrow> m AND flag = flag"

definition posix_flags :: "open_mode \<Rightarrow> posix_flag list" where
  "posix_flags mode =
     (if has_flag mode ReadWrite then [O_RDWR] else if has_flag mode WriteOnly then [O_WRONLY] else [O_RDONLY]) @
     (if has_flag mode CreateFile then [O_CREAT] else []) @
     (if has_flag mode ExclusiveFile then [O_EXCL] else []) @
     (if has_flag mode TruncateFile then [O_TRUNC] else []) @
     (if has_flag mode AppendMode then [O_APPEND] else []) @
     (if has_flag mode SyncMode then [O_SYNC] else []) @ [O_CLOEXEC]"

definition try_direct :: "open_mode \<Rightarrow> direct_io_mode \<Rightarrow> device_tier \<Rightarrow> bool" where
  "try_direct mode dio tier \<longleftrightarrow>
     has_flag mode DirectMode \<or> dio = DirectAlways \<or>
     dio = DirectAuto \<and> has_flag mode WriteOnly \<and> (tier = NVMe \<or> tier = SATA_SSD)"

text \<open>The descriptor and whether it is unbuffered; \<open>None\<close> when the open throws. \<open>sys_open\<close> is the system call.\<close>

definition open_file :: "(posix_flag list \<Rightarrow> int) \<Rightarrow> open_mode \<Rightarrow> direct_io_mode \<Rightarrow> device_tier \<Rightarrow> (int \<times> bool) option" where
  "open_file sys_open mode dio tier =
     (let flags = posix_flags mode;
          (fd, is_direct) =
            (if try_direct mode dio tier
             then (let fd = sys_open (flags @ [O_DIRECT])
                   in if 0 \<le> fd then (fd, True)
                      else if dio \<noteq> DirectAlways then (sys_open flags, False) else (fd, False))
             else (sys_open flags, False))
      in if fd < 0 then None else Some (fd, is_direct))"

definition create_file :: "(posix_flag list \<Rightarrow> int) \<Rightarrow> direct_io_mode \<Rightarrow> device_tier \<Rightarrow> (int \<times> bool) option" where
  "create_file sys_open dio tier = open_file sys_open (ReadWrite OR CreateFile OR TruncateFile) dio tier"

subsection \<open>Files\<close>

datatype io_error = ClosedHandle | SystemError | UnexpectedEof | ZeroTransfer

record 'w disk =
  dk_read :: "int \<Rightarrow> nat \<Rightarrow> 'w \<Rightarrow> byte list option \<times> 'w"
  dk_write :: "int \<Rightarrow> byte list \<Rightarrow> 'w \<Rightarrow> nat option \<times> 'w"
  dk_sync :: "bool \<Rightarrow> 'w \<Rightarrow> bool \<times> 'w"
  dk_allocate :: "int \<Rightarrow> int \<Rightarrow> 'w \<Rightarrow> bool \<times> 'w"
  dk_truncate :: "int \<Rightarrow> 'w \<Rightarrow> bool \<times> 'w"
  dk_size :: "'w \<Rightarrow> nat option"
  dk_close :: "'w \<Rightarrow> 'w"

record os_file =
  fl_open :: bool
  fl_append_offset :: int

text \<open>The constructor takes the append position from \<^verbatim>\<open>fstat\<close>.\<close>

definition file_handle :: "'w disk \<Rightarrow> 'w \<Rightarrow> os_file" where
  "file_handle d w = \<lparr>fl_open = True, fl_append_offset = (case dk_size d w of Some n \<Rightarrow> int n | None \<Rightarrow> 0)\<rparr>"

definition file_read :: "'w disk \<Rightarrow> os_file \<Rightarrow> int \<Rightarrow> nat \<Rightarrow> 'w \<Rightarrow> (io_error + byte list) \<times> 'w" where
  "file_read d f off len w =
     (if \<not> fl_open f then (Inl ClosedHandle, w)
      else if len = 0 then (Inr [], w)
      else (case dk_read d off len w of (None, w) \<Rightarrow> (Inl SystemError, w) | (Some bs, w) \<Rightarrow> (Inr (take len bs), w)))"

definition file_write :: "'w disk \<Rightarrow> int \<Rightarrow> byte list \<Rightarrow> os_file \<times> 'w \<Rightarrow> (io_error + nat) \<times> os_file \<times> 'w" where
  "file_write d off data fw =
     (case fw of (f, w) \<Rightarrow>
        if \<not> fl_open f then (Inl ClosedHandle, f, w)
        else if data = [] then (Inr 0, f, w)
        else
          (case dk_write d off data w of
             (None, w) \<Rightarrow> (Inl SystemError, f, w)
           | (Some res, w) \<Rightarrow>
               let res = min res (length data)
               in (Inr res,
                   if 0 \<le> off \<and> fl_append_offset f < off + int res then f\<lparr>fl_append_offset := off + int res\<rparr> else f, w)))"

text \<open>\<^verbatim>\<open>read_exact\<close> and \<^verbatim>\<open>write_all\<close>: the loops, on what has been and what remains to be transferred.\<close>

function read_exact_loop :: "'w disk \<Rightarrow> os_file \<Rightarrow> int \<Rightarrow> nat \<Rightarrow> byte list \<Rightarrow> 'w \<Rightarrow> (io_error + byte list) \<times> 'w" where
  "read_exact_loop d f off len got w =
     (if len \<le> length got then (Inr got, w)
      else
        (case file_read d f (if 0 \<le> off then off + int (length got) else - 1) (len - length got) w of
           (Inl e, w) \<Rightarrow> (Inl e, w)
         | (Inr bs, w) \<Rightarrow>
             if bs = [] then (Inl UnexpectedEof, w) else read_exact_loop d f off len (got @ bs) w))"
  by pat_completeness auto
termination
  by (relation "measure (\<lambda>(d, f, off, len, got, w). len - length got)") (auto intro!: diff_less_mono2)

declare read_exact_loop.simps [simp del]

definition read_exact :: "'w disk \<Rightarrow> os_file \<Rightarrow> int \<Rightarrow> nat \<Rightarrow> 'w \<Rightarrow> (io_error + byte list) \<times> 'w" where
  "read_exact d f off len w = read_exact_loop d f off len [] w"

function write_all_loop :: "'w disk \<Rightarrow> int \<Rightarrow> byte list \<Rightarrow> nat \<Rightarrow> os_file \<times> 'w \<Rightarrow> (io_error + unit) \<times> os_file \<times> 'w" where
  "write_all_loop d off data moved fw =
     (if length data \<le> moved then (Inr (), fw)
      else
        (case file_write d (if 0 \<le> off then off + int moved else - 1) (drop moved data) fw of
           (Inl e, fw) \<Rightarrow> (Inl e, fw)
         | (Inr n, fw) \<Rightarrow>
             if n = 0 then (Inl ZeroTransfer, fw) else write_all_loop d off data (moved + n) fw))"
  by pat_completeness auto
termination
  by (relation "measure (\<lambda>(d, off, data, moved, fw). length data - moved)") auto

declare write_all_loop.simps [simp del]

definition write_all :: "'w disk \<Rightarrow> int \<Rightarrow> byte list \<Rightarrow> os_file \<times> 'w \<Rightarrow> (io_error + unit) \<times> os_file \<times> 'w" where
  "write_all d off data fw = write_all_loop d off data 0 fw"

definition file_append :: "'w disk \<Rightarrow> byte list \<Rightarrow> os_file \<times> 'w \<Rightarrow> (io_error + nat) \<times> os_file \<times> 'w" where
  "file_append d data fw =
     (case file_write d (fl_append_offset (fst fw)) data fw of
        (Inl e, fw) \<Rightarrow> (Inl e, fw)
      | (Inr written, f, w) \<Rightarrow> (Inr written, f\<lparr>fl_append_offset := fl_append_offset f + int written\<rparr>, w))"

definition file_sync :: "'w disk \<Rightarrow> bool \<Rightarrow> os_file \<Rightarrow> 'w \<Rightarrow> (io_error + unit) \<times> 'w" where
  "file_sync d data_only f w =
     (if \<not> fl_open f then (Inr (), w)
      else (case dk_sync d data_only w of (ok, w) \<Rightarrow> (if ok then Inr () else Inl SystemError, w)))"

definition file_allocate :: "'w disk \<Rightarrow> int \<Rightarrow> int \<Rightarrow> os_file \<Rightarrow> 'w \<Rightarrow> (io_error + unit) \<times> 'w" where
  "file_allocate d off len f w =
     (if \<not> fl_open f then (Inr (), w)
      else (case dk_allocate d off len w of (ok, w) \<Rightarrow> (if ok then Inr () else Inl SystemError, w)))"

definition file_truncate :: "'w disk \<Rightarrow> int \<Rightarrow> os_file \<times> 'w \<Rightarrow> (io_error + unit) \<times> os_file \<times> 'w" where
  "file_truncate d new_size fw =
     (case fw of (f, w) \<Rightarrow>
        if \<not> fl_open f then (Inr (), f, w)
        else
          (case dk_truncate d new_size w of
             (False, w) \<Rightarrow> (Inl SystemError, f, w)
           | (True, w) \<Rightarrow> (Inr (), f\<lparr>fl_append_offset := new_size\<rparr>, w)))"

definition file_size :: "'w disk \<Rightarrow> os_file \<Rightarrow> 'w \<Rightarrow> io_error + nat" where
  "file_size d f w =
     (if \<not> fl_open f then Inr 0 else (case dk_size d w of None \<Rightarrow> Inl SystemError | Some n \<Rightarrow> Inr n))"

definition file_close :: "'w disk \<Rightarrow> os_file \<times> 'w \<Rightarrow> os_file \<times> 'w" where
  "file_close d fw = (case fw of (f, w) \<Rightarrow> if fl_open f then (f\<lparr>fl_open := False\<rparr>, dk_close d w) else (f, w))"

subsection \<open>The buffered writer\<close>

record write_stream =
  ws_file :: os_file
  ws_chunk_size :: nat
  ws_offset :: int
  ws_total :: int
  ws_buffer :: "byte list"

definition new_write_stream :: "os_file \<Rightarrow> nat \<Rightarrow> nat \<Rightarrow> int \<Rightarrow> write_stream" where
  "new_write_stream f default_chunk chunk_size start_offset =
     \<lparr>ws_file = f, ws_chunk_size = (if 0 < chunk_size then chunk_size else default_chunk),
      ws_offset = (if 0 \<le> start_offset then start_offset else 0), ws_total = 0, ws_buffer = []\<rparr>"

definition stream_flush :: "'w disk \<Rightarrow> write_stream \<times> 'w \<Rightarrow> (io_error + unit) \<times> write_stream \<times> 'w" where
  "stream_flush d sw =
     (case sw of (s, w) \<Rightarrow>
        if ws_buffer s = [] then (Inr (), s, w)
        else
          (case write_all d (ws_offset s) (ws_buffer s) (ws_file s, w) of
             (Inl e, f, w) \<Rightarrow> (Inl e, s\<lparr>ws_file := f\<rparr>, w)
           | (Inr _, f, w) \<Rightarrow>
               (Inr (),
                s\<lparr>ws_file := f, ws_offset := ws_offset s + int (length (ws_buffer s)),
                  ws_total := ws_total s + int (length (ws_buffer s)), ws_buffer := []\<rparr>, w)))"

text \<open>The loop of \<^verbatim>\<open>write_chunk\<close>; a chunk size of 0 with a full buffer would make no progress and is excluded by the constructor.\<close>

function write_chunk :: "'w disk \<Rightarrow> byte list \<Rightarrow> write_stream \<times> 'w \<Rightarrow> (io_error + unit) \<times> write_stream \<times> 'w" where
  "write_chunk d chunk sw =
     (if chunk = [] then (Inr (), sw)
      else
        let n = min (ws_chunk_size (fst sw) - length (ws_buffer (fst sw))) (length chunk);
            s = (fst sw)\<lparr>ws_buffer := ws_buffer (fst sw) @ take n chunk\<rparr>
        in if n = 0 then (Inl ZeroTransfer, sw)
           else if ws_chunk_size s \<le> length (ws_buffer s)
           then (case stream_flush d (s, snd sw) of
                   (Inl e, sw) \<Rightarrow> (Inl e, sw)
                 | (Inr _, sw) \<Rightarrow> write_chunk d (drop n chunk) sw)
           else write_chunk d (drop n chunk) (s, snd sw))"
  by pat_completeness auto
termination
  by (relation "measure (\<lambda>(d, chunk, sw). length chunk)") auto

declare write_chunk.simps [simp del]

subsection \<open>The checksum\<close>

definition crc32_bit :: "32 word \<Rightarrow> 32 word" where
  "crc32_bit c = (if bit c 0 then 0xEDB88320 XOR drop_bit 1 c else drop_bit 1 c)"

definition crc32_table :: "32 word list" where
  "crc32_table = map (\<lambda>i. (crc32_bit ^^ 8) (word_of_nat i)) [0..<256]"

definition crc32_byte :: "32 word \<Rightarrow> byte \<Rightarrow> 32 word" where
  "crc32_byte c b = crc32_table ! unat ((c XOR ucast b) AND 0xFF) XOR drop_bit 8 c"

definition calculate_crc32 :: "byte list \<Rightarrow> 32 word" where
  "calculate_crc32 data = foldl crc32_byte 0xFFFFFFFF data XOR 0xFFFFFFFF"

subsection \<open>Records\<close>

definition wal_magic :: nat where
  "wal_magic = 0xAE601060"

definition header_size :: nat where
  "header_size = 20"

primrec le_bytes :: "nat \<Rightarrow> nat \<Rightarrow> byte list" where
  "le_bytes 0 n = []"
| "le_bytes (Suc k) n = word_of_nat (n mod 256) # le_bytes k (n div 256)"

primrec le_value :: "byte list \<Rightarrow> nat" where
  "le_value [] = 0"
| "le_value (b # bs) = unat b + 256 * le_value bs"

record wal_header =
  wh_magic :: nat
  wh_seq :: nat
  wh_length :: nat
  wh_crc :: nat

definition header_bytes :: "wal_header \<Rightarrow> byte list" where
  "header_bytes h = le_bytes 4 (wh_magic h) @ le_bytes 8 (wh_seq h) @ le_bytes 4 (wh_length h) @ le_bytes 4 (wh_crc h)"

definition header_of :: "byte list \<Rightarrow> wal_header" where
  "header_of bs =
     \<lparr>wh_magic = le_value (take 4 bs), wh_seq = le_value (take 8 (drop 4 bs)),
      wh_length = le_value (take 4 (drop 12 bs)), wh_crc = le_value (take 4 (drop 16 bs))\<rparr>"

record wal =
  wl_file :: os_file
  wl_last_seq :: nat
  wl_append_offset :: int

definition wal_record :: "nat \<Rightarrow> byte list \<Rightarrow> byte list" where
  "wal_record seq payload =
     header_bytes \<lparr>wh_magic = wal_magic, wh_seq = seq, wh_length = length payload mod 2 ^ 32,
       wh_crc = unat (calculate_crc32 payload)\<rparr> @ payload"

text \<open>\<^verbatim>\<open>append\<close>: when the write throws, the sequence number stays advanced.\<close>

definition wal_append :: "'w disk \<Rightarrow> byte list \<Rightarrow> wal \<times> 'w \<Rightarrow> (io_error + nat) \<times> wal \<times> 'w" where
  "wal_append d payload lw =
     (case lw of (l, w) \<Rightarrow>
        let seq = size_wrap (wl_last_seq l + 1);
            buffer = wal_record seq payload
        in (case write_all d (wl_append_offset l) buffer (wl_file l, w) of
              (Inl e, f, w) \<Rightarrow> (Inl e, l\<lparr>wl_file := f, wl_last_seq := seq\<rparr>, w)
            | (Inr _, f, w) \<Rightarrow>
                (Inr seq,
                 l\<lparr>wl_file := f, wl_last_seq := seq, wl_append_offset := wl_append_offset l + int (length buffer)\<rparr>, w)))"

definition wal_sync :: "'w disk \<Rightarrow> wal \<times> 'w \<Rightarrow> (io_error + unit) \<times> wal \<times> 'w" where
  "wal_sync d lw = (case file_sync d True (wl_file (fst lw)) (snd lw) of (r, w) \<Rightarrow> (r, fst lw, w))"

text \<open>
  One round of \<^verbatim>\<open>recover\<close> at an offset: the record found there, or \<open>None\<close> when the loop breaks, be it for a failed read,
  a wrong magic number, a payload that passes the end of the file, or a wrong checksum.
\<close>

definition wal_read_record :: "'w disk \<Rightarrow> os_file \<Rightarrow> nat \<Rightarrow> nat \<Rightarrow> 'w \<Rightarrow> (nat \<times> byte list) option \<times> 'w" where
  "wal_read_record d f file_sz off w =
     (case read_exact d f (int off) header_size w of
        (Inl e, w) \<Rightarrow> (None, w)
      | (Inr bs, w) \<Rightarrow>
          let h = header_of bs
          in if wh_magic h \<noteq> wal_magic then (None, w)
             else if file_sz < off + header_size + wh_length h then (None, w)
             else if wh_length h = 0 then (Some (wh_seq h, []), w)
             else
               (case read_exact d f (int (off + header_size)) (wh_length h) w of
                  (Inl e, w) \<Rightarrow> (None, w)
                | (Inr payload, w) \<Rightarrow>
                    if unat (calculate_crc32 payload) \<noteq> wh_crc h then (None, w)
                    else (Some (wh_seq h, payload), w)))"

function recover_loop :: "'w disk \<Rightarrow> os_file \<Rightarrow> nat \<Rightarrow> nat \<Rightarrow> nat \<Rightarrow> byte list list \<Rightarrow> 'w \<Rightarrow> byte list list \<times> nat \<times> nat \<times> 'w" where
  "recover_loop d f file_sz off max_seq records w =
     (if file_sz < off + header_size then (records, off, max_seq, w)
      else
        (case wal_read_record d f file_sz off w of
           (None, w) \<Rightarrow> (records, off, max_seq, w)
         | (Some (seq, payload), w) \<Rightarrow>
             recover_loop d f file_sz (off + header_size + length payload) (max max_seq seq) (records @ [payload]) w))"
  by pat_completeness auto
termination
  by (relation "measure (\<lambda>(d, f, sz, off, m, rs, w). Suc sz - off)") (auto simp: header_size_def)

declare recover_loop.simps [simp del]

definition wal_recover :: "'w disk \<Rightarrow> wal \<times> 'w \<Rightarrow> (io_error + byte list list) \<times> wal \<times> 'w" where
  "wal_recover d lw =
     (case lw of (l, w) \<Rightarrow>
        (case file_size d (wl_file l) w of
           Inl e \<Rightarrow> (Inl e, l, w)
         | Inr file_sz \<Rightarrow>
             (case recover_loop d (wl_file l) file_sz 0 0 [] w of
                (records, off, max_seq, w) \<Rightarrow>
                  (Inr records, l\<lparr>wl_last_seq := max_seq, wl_append_offset := int off\<rparr>, w))))"

text \<open>\<^verbatim>\<open>open\<close>, given the handle of the opened file.\<close>

definition wal_open :: "'w disk \<Rightarrow> os_file \<Rightarrow> 'w \<Rightarrow> (io_error + wal) \<times> 'w" where
  "wal_open d f w =
     (case file_size d f w of
        Inl e \<Rightarrow> (Inl e, w)
      | Inr file_sz \<Rightarrow>
          let l = \<lparr>wl_file = f, wl_last_seq = 0, wl_append_offset = int file_sz\<rparr>
          in if 0 < file_sz
             then (case wal_recover d (l, w) of
                     (Inl e, l, w) \<Rightarrow> (Inl e, w)
                   | (Inr records, l, w) \<Rightarrow> (Inr l, w))
             else (Inr l, w))"

definition wal_close :: "'w disk \<Rightarrow> wal \<times> 'w \<Rightarrow> wal \<times> 'w" where
  "wal_close d lw =
     (case file_close d (wl_file (fst lw), snd lw) of (f, w) \<Rightarrow> ((fst lw)\<lparr>wl_file := f\<rparr>, w))"

end
