(* ===== verification/Wal_Log_Proofs.thy ===== *)
theory Wal_Log_Proofs
  imports Wal_Log "HOL-Library.Sublist"
begin

unbundle bit_operations_syntax

text \<open>
  The write-ahead log on a disk that keeps what it is told: after any crash that cuts the file at an arbitrary byte,
  recovery returns exactly the records that are complete; a change within one byte of a payload is always detected.
\<close>

subsection \<open>The checksum is injective in every byte\<close>

lemma xor_left_cancel: "c XOR a = c XOR b \<longleftrightarrow> a = b" for a b c :: "'a::len word"
  by (metis xor.assoc xor.left_neutral xor_self_eq)

lemma crc32_bit_xor: "crc32_bit (v XOR w) = crc32_bit v XOR crc32_bit w"
  by (auto simp: crc32_bit_def bit_xor_iff drop_bit_xor ac_simps)

lemma crc32_bits_xor: "(crc32_bit ^^ n) (v XOR w) = (crc32_bit ^^ n) v XOR (crc32_bit ^^ n) w"
  by (induction n) (simp_all add: crc32_bit_xor)

lemma crc32_bit_shifts: "\<not> bit w 0 \<Longrightarrow> crc32_bit w = drop_bit 1 w"
  by (simp add: crc32_bit_def)

lemma crc32_bits_high: "take_bit n w = 0 \<Longrightarrow> (crc32_bit ^^ n) w = drop_bit n w"
proof (induction n arbitrary: w)
  case (Suc n)
  have low: "\<not> bit w m" if "m < Suc n" for m
    using arg_cong [OF Suc.prems, of "\<lambda>v. bit v m"] that by (simp add: bit_take_bit_iff)
  then have b: "\<not> bit w 0" "take_bit n (drop_bit 1 w) = 0"
    by (auto intro!: bit_word_eqI simp: bit_simps)
  have "(crc32_bit ^^ Suc n) w = (crc32_bit ^^ n) (crc32_bit w)" by (simp only: funpow_Suc_right comp_def)
  also have "\<dots> = drop_bit n (drop_bit 1 w)" using Suc.IH [OF b(2)] b(1) by (simp add: crc32_bit_shifts)
  finally show ?case by (simp add: drop_bit_drop_bit)
qed simp

lemma bit_in_32: "bit (c :: 32 word) (8 + n) \<Longrightarrow> n < 24"
  by (drule bit_imp_le_length) simp

lemma crc32_byte_bits: "crc32_byte c b = (crc32_bit ^^ 8) (c XOR ucast b)"
proof -
  let ?x = "c XOR ucast b"
  have "(0xFF :: 32 word) = mask 8" by (simp add: mask_eq_exp_minus_1)
  then have low: "?x AND 0xFF = take_bit 8 ?x" by (simp add: take_bit_eq_mask)
  have "unat (take_bit 8 ?x) < 2 ^ 8" by (simp only: unsigned_take_bit_eq take_bit_nat_less_exp)
  then have "crc32_table ! unat (?x AND 0xFF) = (crc32_bit ^^ 8) (take_bit 8 ?x)"
    by (subst low) (simp add: crc32_table_def)
  moreover have "drop_bit 8 c = drop_bit 8 ?x"
    by (rule bit_word_eqI) (auto simp: bit_simps dest: bit_imp_le_length)
  moreover have "drop_bit 8 ?x = (crc32_bit ^^ 8) (push_bit 8 (drop_bit 8 ?x))"
    by (subst crc32_bits_high) (auto intro!: bit_word_eqI simp: bit_simps dest: bit_imp_le_length bit_in_32)
  moreover have "take_bit 8 ?x XOR push_bit 8 (drop_bit 8 ?x) = ?x"
  proof (rule bit_word_eqI)
    fix n assume "n < LENGTH(32)"
    then show "bit (take_bit 8 ?x XOR push_bit 8 (drop_bit 8 ?x)) n = bit ?x n"
      by (cases "n < 8") (auto simp: bit_simps)
  qed
  ultimately show ?thesis by (metis crc32_byte_def crc32_bits_xor)
qed

lemma crc32_bit_inj: "crc32_bit v = crc32_bit w \<Longrightarrow> v = w"
proof -
  assume eq: "crc32_bit v = crc32_bit w"
  have top: "bit (crc32_bit u) 31 \<longleftrightarrow> bit u 0" for u
    by (auto simp: crc32_bit_def bit_simps dest: bit_imp_le_length)
  from eq have b0: "bit v 0 \<longleftrightarrow> bit w 0" using top by metis
  with eq have d: "drop_bit 1 v = drop_bit 1 w" by (auto simp: crc32_bit_def xor_left_cancel split: if_splits)
  have "bit v (Suc n) = bit w (Suc n)" for n
    using arg_cong [OF d, of "\<lambda>x. bit x n"] by (simp add: bit_drop_bit_eq)
  with b0 show "v = w" by (intro bit_eqI) (metis not0_implies_Suc)
qed

lemma crc32_bits_inj: "(crc32_bit ^^ n) v = (crc32_bit ^^ n) w \<Longrightarrow> v = w"
  by (induction n) (auto dest: crc32_bit_inj)

lemma crc32_byte_inj: "crc32_byte c b = crc32_byte c' b \<Longrightarrow> c = c'"
  unfolding crc32_byte_bits by (drule crc32_bits_inj) (simp add: xor_left_cancel xor.commute [of _ "ucast b"])

lemma ucast_byte_inj: "(ucast (b :: byte) :: 32 word) = ucast b' \<Longrightarrow> b = b'"
  by (rule bit_word_eqI) (auto simp: bit_eq_iff bit_simps)

lemma crc32_byte_inj2: "crc32_byte c b = crc32_byte c b' \<Longrightarrow> b = b'"
  unfolding crc32_byte_bits by (drule crc32_bits_inj) (simp add: xor_left_cancel ucast_byte_inj)

lemma foldl_crc32_inj: "foldl crc32_byte c bs = foldl crc32_byte c' bs \<Longrightarrow> c = c'"
  by (induction bs arbitrary: c c') (auto dest: crc32_byte_inj)

lemma crc32_detects_byte: "b \<noteq> b' \<Longrightarrow> calculate_crc32 (xs @ b # ys) \<noteq> calculate_crc32 (xs @ b' # ys)"
  by (auto simp: calculate_crc32_def xor_left_cancel xor.commute [of _ "0xFFFFFFFF"]
      dest!: foldl_crc32_inj crc32_byte_inj2)

subsection \<open>Headers\<close>

lemma length_wal_le_bytes [simp]: "length (le_bytes k n) = k"
  by (induction k arbitrary: n) auto

lemma le_value_bytes: "n < 256 ^ k \<Longrightarrow> le_value (le_bytes k n) = n"
proof (induction k arbitrary: n)
  case (Suc k)
  then have "n div 256 < 256 ^ k" by (simp add: less_mult_imp_div_less mult.commute)
  with Suc show ?case by (simp add: unsigned_of_nat take_bit_eq_mod)
qed simp

lemma length_header_bytes [simp]: "length (header_bytes h) = header_size"
  by (simp add: header_bytes_def header_size_def)

lemma header_of_bytes:
  "wh_magic h < 2 ^ 32 \<Longrightarrow> wh_seq h < 2 ^ 64 \<Longrightarrow> wh_length h < 2 ^ 32 \<Longrightarrow> wh_crc h < 2 ^ 32 \<Longrightarrow>
    header_of (header_bytes h) = h"
  by (simp add: header_of_def header_bytes_def le_value_bytes)

lemma length_wal_record [simp]: "length (wal_record seq p) = header_size + length p"
  by (simp add: wal_record_def)

lemma wal_record_nonempty: "wal_record seq p \<noteq> []"
proof
  assume "wal_record seq p = []"
  then have "length (wal_record seq p) = 0" by (simp only: list.size)
  then show False by (simp add: header_size_def)
qed

lemma header_of_record:
  assumes "length p < 2 ^ 32" "seq < 2 ^ 64"
  shows "header_of (take header_size (wal_record seq p)) =
    \<lparr>wh_magic = wal_magic, wh_seq = seq, wh_length = length p, wh_crc = unat (calculate_crc32 p)\<rparr>"
proof -
  have "unat (calculate_crc32 p) < 2 ^ 32" by (rule order.strict_trans2 [OF unsigned_less]) simp
  with assms show ?thesis by (simp add: wal_record_def header_of_bytes wal_magic_def)
qed

subsection \<open>A disk that keeps its contents\<close>

text \<open>
  Reads return a non-empty beginning of what is asked for where there is something to read, writes store a non-empty
  beginning of what they are given; \<open>content\<close> is what the file holds.
\<close>

definition overwrite :: "nat \<Rightarrow> byte list \<Rightarrow> byte list \<Rightarrow> byte list" where
  "overwrite off data bs = take off bs @ replicate (off - length bs) 0 @ data @ drop (off + length data) bs"

definition disk_ok :: "'w disk \<Rightarrow> ('w \<Rightarrow> byte list) \<Rightarrow> bool" where
  "disk_ok d content \<longleftrightarrow>
     (\<forall>w. dk_size d w = Some (length (content w))) \<and>
     (\<forall>off len w. \<exists>bs w'. dk_read d (int off) len w = (Some bs, w') \<and> content w' = content w \<and>
        prefix bs (take len (drop off (content w))) \<and> (bs = [] \<longrightarrow> len = 0 \<or> length (content w) \<le> off)) \<and>
     (\<forall>off data w. data \<noteq> [] \<longrightarrow> (\<exists>n w'. dk_write d (int off) data w = (Some n, w') \<and> 0 < n \<and> n \<le> length data \<and>
        content w' = overwrite off (take n data) (content w)))"

lemma overwrite_append:
  "overwrite (off + length xs) ys (overwrite off xs bs) = overwrite off (xs @ ys) bs"
proof -
  have "length (take off bs @ replicate (off - length bs) 0) = off" by simp
  then obtain ps where ps: "take off bs @ replicate (off - length bs) 0 = ps" "length ps = off" by blast
  then have o: "overwrite off zs bs = ps @ zs @ drop (off + length zs) bs" for zs
    by (simp add: overwrite_def flip: append_assoc)
  show ?thesis
    by (simp add: o) (simp add: overwrite_def ps(2) add.commute add.left_commute)
qed

subsection \<open>Transfers on such a disk\<close>

lemma read_exact_loop_ok:
  assumes d: "disk_ok d content" and "fl_open f" "off + len \<le> length (content w)"
    and "got = take (length got) (drop off (content w))" "length got \<le> len"
  shows "\<exists>w'. read_exact_loop d f (int off) len got w = (Inr (take len (drop off (content w))), w') \<and> content w' = content w"
  using assms(3-5)
proof (induction "len - length got" arbitrary: got w rule: less_induct)
  case less
  show ?case
  proof (cases "len \<le> length got")
    case True
    with less.prems show ?thesis by (subst read_exact_loop.simps) auto
  next
    case False
    let ?o = "off + length got" and ?n = "len - length got"
    obtain bs w' where bs: "dk_read d (int ?o) ?n w = (Some bs, w')" "content w' = content w"
        "prefix bs (take ?n (drop ?o (content w)))" "bs = [] \<longrightarrow> ?n = 0 \<or> length (content w) \<le> ?o"
      using d unfolding disk_ok_def by blast
    have ne: "bs \<noteq> []" using bs(4) False less.prems(1) by auto
    have len: "length bs \<le> ?n" using bs(3) prefix_length_le by fastforce
    have got': "got @ bs = take (length (got @ bs)) (drop off (content w'))"
    proof -
      obtain zs where "take ?n (drop ?o (content w)) = bs @ zs" using bs(3) by (auto simp: prefix_def)
      then have "take (length bs) (take ?n (drop ?o (content w))) = bs" by simp
      then have "bs = take (length bs) (drop ?o (content w))" using len by (simp add: min_absorb1)
      then show ?thesis using less.prems(2) bs(2) by (metis add.commute drop_drop length_append take_add)
    qed
    have "read_exact_loop d f (int off) len got w = read_exact_loop d f (int off) len (got @ bs) w'"
      using False ne len bs(1) assms(2) by (subst read_exact_loop.simps) (simp add: file_read_def)
    moreover have "\<exists>w''. read_exact_loop d f (int off) len (got @ bs) w' =
        (Inr (take len (drop off (content w'))), w'') \<and> content w'' = content w'"
      using ne len False less.prems bs(2) got' by (intro less.hyps) (auto simp: diff_less_mono2)
    ultimately show ?thesis using bs(2) by simp
  qed
qed

lemma read_exact_ok:
  "disk_ok d content \<Longrightarrow> fl_open f \<Longrightarrow> off + len \<le> length (content w) \<Longrightarrow>
    \<exists>w'. read_exact d f (int off) len w = (Inr (take len (drop off (content w))), w') \<and> content w' = content w"
  unfolding read_exact_def by (rule read_exact_loop_ok) simp_all

lemma write_all_loop_ok:
  assumes d: "disk_ok d content" and "fl_open f" "n \<le> length data" "content w = overwrite off (take n data) bs" "data \<noteq> []"
  shows "\<exists>f' w'. write_all_loop d (int off) data n (f, w) = (Inr (), f', w') \<and> fl_open f' \<and> content w' = overwrite off data bs"
  using assms(2-4)
proof (induction "length data - n" arbitrary: n f w rule: less_induct)
  case less
  show ?case
  proof (cases "length data \<le> n")
    case True
    with less.prems show ?thesis by (subst write_all_loop.simps) auto
  next
    case False
    obtain k w' where k: "dk_write d (int (off + n)) (drop n data) w = (Some k, w')" "0 < k" "k \<le> length (drop n data)"
        "content w' = overwrite (off + n) (take k (drop n data)) (content w)"
      using d False unfolding disk_ok_def by (metis drop_eq_Nil)
    then obtain f' where f': "file_write d (int off + int n) (drop n data) (f, w) = (Inr k, f', w')" "fl_open f'"
      using False less.prems(1) by (auto simp: file_write_def Let_def min_def)
    have "content w' = overwrite off (take n data @ take k (drop n data)) bs"
      using overwrite_append [of off "take n data" "take k (drop n data)" bs] k(4) less.prems(2,3) by (simp add: min_absorb2)
    then have c: "content w' = overwrite off (take (n + k) data) bs" by (simp add: take_add)
    have "write_all_loop d (int off) data n (f, w) = write_all_loop d (int off) data (n + k) (f', w')"
      using False k(2) f'(1) by (subst write_all_loop.simps) simp
    moreover have "\<exists>f'' w''. write_all_loop d (int off) data (n + k) (f', w') = (Inr (), f'', w'') \<and> fl_open f'' \<and>
        content w'' = overwrite off data bs"
      using k(2,3) False f'(2) c by (intro less.hyps) auto
    ultimately show ?thesis by simp
  qed
qed

lemma write_all_ok:
  "disk_ok d content \<Longrightarrow> fl_open f \<Longrightarrow> data \<noteq> [] \<Longrightarrow> off \<le> length (content w) \<Longrightarrow>
    \<exists>f' w'. write_all d (int off) data (f, w) = (Inr (), f', w') \<and> fl_open f' \<and> content w' = overwrite off data (content w)"
  unfolding write_all_def by (rule write_all_loop_ok) (simp_all add: overwrite_def)

subsection \<open>Recovery\<close>

text \<open>The bytes of a log: the records of \<open>ps\<close>, numbered from \<open>i + 1\<close>.\<close>

primrec wal_bytes_from :: "nat \<Rightarrow> byte list list \<Rightarrow> byte list" where
  "wal_bytes_from i [] = []"
| "wal_bytes_from i (p # ps) = wal_record (i + 1) p @ wal_bytes_from (i + 1) ps"

abbreviation wal_bytes :: "byte list list \<Rightarrow> byte list" where
  "wal_bytes \<equiv> wal_bytes_from 0"

lemma wal_bytes_append: "wal_bytes_from i (ps @ qs) = wal_bytes_from i ps @ wal_bytes_from (i + length ps) qs"
  by (induction ps arbitrary: i) auto

text \<open>A whole record at the offset is read back; a record that is cut off, or whose payload fails its checksum, is not.\<close>

lemma read_record_whole:
  assumes d: "disk_ok d content" and "fl_open f" "length p < 2 ^ 32" "seq < 2 ^ 64"
    and c: "drop off (content w) = wal_record seq p @ rest"
  shows "\<exists>w'. wal_read_record d f (length (content w)) off w = (Some (seq, p), w') \<and> content w' = content w"
proof -
  have len: "off + header_size + length p \<le> length (content w)"
    using arg_cong [OF c, of length] by (simp add: header_size_def)
  then obtain bs w1 where h: "read_exact d f (int off) header_size w = (Inr bs, w1)" "content w1 = content w"
      "bs = take header_size (wal_record seq p)"
    using read_exact_ok [OF d assms(2), of off header_size w] by (auto simp: c)
  then have hb: "header_of bs = \<lparr>wh_magic = wal_magic, wh_seq = seq, wh_length = length p, wh_crc = unat (calculate_crc32 p)\<rparr>"
    using header_of_record [OF assms(3,4)] by simp
  have "drop (off + header_size) (content w) = p @ rest"
    using arg_cong [OF c, of "drop header_size"] by (simp add: wal_record_def add.commute)
  then obtain w2 where p: "read_exact d f (int (off + header_size)) (length p) w1 = (Inr p, w2)" "content w2 = content w"
    using read_exact_ok [OF d assms(2), of "off + header_size" "length p" w1] len h(2) by auto
  show ?thesis
    using h(1,2) p len by (cases "p = []") (auto simp: wal_read_record_def hb)
qed

text \<open>Bytes that recovery stops at: too short, not a header, cut off, or with a wrong checksum.\<close>

definition dead_tail :: "byte list \<Rightarrow> bool" where
  "dead_tail bs \<longleftrightarrow>
     length bs < header_size \<or>
     (let h = header_of (take header_size bs)
      in wh_magic h \<noteq> wal_magic \<or> length bs < header_size + wh_length h \<or>
         wh_length h \<noteq> 0 \<and> unat (calculate_crc32 (take (wh_length h) (drop header_size bs))) \<noteq> wh_crc h)"

lemma read_record_dead:
  assumes d: "disk_ok d content" and "fl_open f" "dead_tail (drop off (content w))" "off + header_size \<le> length (content w)"
  shows "\<exists>w'. wal_read_record d f (length (content w)) off w = (None, w') \<and> content w' = content w"
proof -
  let ?h = "header_of (take header_size (drop off (content w)))"
  obtain w1 where h: "read_exact d f (int off) header_size w = (Inr (take header_size (drop off (content w))), w1)" "content w1 = content w"
    using read_exact_ok [OF d assms(2,4)] by auto
  show ?thesis
  proof (cases "wh_magic ?h \<noteq> wal_magic \<or> length (content w) < off + header_size + wh_length ?h")
    case True
    with h show ?thesis by (auto simp: wal_read_record_def Let_def)
  next
    case False
    then obtain w2 where p: "read_exact d f (int (off + header_size)) (wh_length ?h) w1 =
        (Inr (take (wh_length ?h) (drop (off + header_size) (content w))), w2)" "content w2 = content w"
      using read_exact_ok [OF d assms(2), of "off + header_size" "wh_length ?h" w1] h(2) by auto
    from False assms(3,4) have "wh_length ?h \<noteq> 0"
        "unat (calculate_crc32 (take (wh_length ?h) (drop (off + header_size) (content w)))) \<noteq> wh_crc ?h"
      by (auto simp: dead_tail_def Let_def add.commute)
    with False h p show ?thesis by (auto simp: wal_read_record_def Let_def)
  qed
qed

lemma recover_loop_dead:
  assumes d: "disk_ok d content" and f: "fl_open f" and "list_all (\<lambda>p. length p < 2 ^ 32) ps" "i + length ps < 2 ^ 64"
    and "drop off (content w) = wal_bytes_from i ps @ tail" "off \<le> length (content w)" "dead_tail tail"
  shows "\<exists>w'. recover_loop d f (length (content w)) off i rs w =
      (rs @ ps, off + length (wal_bytes_from i ps), i + length ps, w') \<and> content w' = content w"
  using assms(3-6)
proof (induction ps arbitrary: i off rs w)
  case Nil
  then show ?case
  proof (cases "length (content w) < off + header_size")
    case False
    then obtain w' where "wal_read_record d f (length (content w)) off w = (None, w')" "content w' = content w"
      using read_record_dead [OF d f, of off w] Nil.prems(3) assms(7) by auto
    with False show ?thesis by (subst recover_loop.simps) simp
  qed (subst recover_loop.simps, simp)
next
  case (Cons p ps)
  let ?off = "off + (header_size + length p)"
  have c: "drop off (content w) = wal_record (i + 1) p @ wal_bytes_from (i + 1) ps @ tail"
    using Cons.prems(3) by simp
  obtain w1 where w1: "wal_read_record d f (length (content w)) off w = (Some (i + 1, p), w1)" "content w1 = content w"
    using read_record_whole [OF d f _ _ c] Cons.prems(1,2) by auto
  have len: "?off \<le> length (content w)"
    using arg_cong [OF c, of length] Cons.prems(4) by (simp add: header_size_def)
  have "drop ?off (content w1) = wal_bytes_from (i + 1) ps @ tail"
    using arg_cong [OF c, of "drop (header_size + length p)"] w1(2) by (simp add: add.commute add.left_commute)
  moreover have "recover_loop d f (length (content w)) off i rs w = recover_loop d f (length (content w1)) ?off (i + 1) (rs @ [p]) w1"
    using w1 len by (subst recover_loop.simps) (simp add: add.assoc max_def)
  moreover have "list_all (\<lambda>p. length p < 2 ^ 32) ps" "i + 1 + length ps < 2 ^ 64" "?off \<le> length (content w1)"
    using Cons.prems len w1(2) by auto
  ultimately obtain w' where "recover_loop d f (length (content w)) off i rs w =
      ((rs @ [p]) @ ps, ?off + length (wal_bytes_from (i + 1) ps), i + 1 + length ps, w')" "content w' = content w1"
    using Cons.IH [of "i + 1" ?off w1 "rs @ [p]"] by auto
  with w1(2) show ?case by (simp add: add.assoc)
qed

lemma wal_recover_dead:
  assumes "disk_ok d content" "fl_open (wl_file l)" "list_all (\<lambda>p. length p < 2 ^ 32) ps" "length ps < 2 ^ 64"
    and "content w = wal_bytes ps @ tail" "dead_tail tail"
  shows "\<exists>w'. wal_recover d (l, w) =
      (Inr ps, l\<lparr>wl_last_seq := length ps, wl_append_offset := int (length (wal_bytes ps))\<rparr>, w') \<and> content w' = content w"
proof -
  have "dk_size d w = Some (length (content w))" using assms(1) by (simp add: disk_ok_def)
  moreover obtain w' where "recover_loop d (wl_file l) (length (content w)) 0 0 [] w = (ps, length (wal_bytes ps), length ps, w')"
      "content w' = content w"
    using recover_loop_dead [OF assms(1-3), of 0 0 w tail "[]"] assms(4-6) by auto
  ultimately show ?thesis using assms(2) by (simp add: wal_recover_def file_size_def)
qed

subsection \<open>Crashes\<close>

text \<open>How many records of a log that is cut after \<open>k\<close> bytes are whole.\<close>

fun whole_records :: "nat \<Rightarrow> byte list list \<Rightarrow> nat" where
  "whole_records k [] = 0"
| "whole_records k (p # ps) =
     (if header_size + length p \<le> k then Suc (whole_records (k - (header_size + length p)) ps) else 0)"

lemma whole_records_all: "length (wal_bytes_from i ps) \<le> k \<Longrightarrow> whole_records k ps = length ps"
proof (induction k ps arbitrary: i rule: whole_records.induct)
  case (2 k p ps)
  then have "whole_records (k - (header_size + length p)) ps = length ps"
    by (intro "2.IH" [where i = "Suc i"]) auto
  with "2.prems" show ?case by auto
qed simp

lemma torn_record_dead: "length p < 2 ^ 32 \<Longrightarrow> seq < 2 ^ 64 \<Longrightarrow> k < header_size + length p \<Longrightarrow> dead_tail (take k (wal_record seq p))"
  by (cases "k < header_size") (simp_all add: dead_tail_def Let_def min_absorb1 header_of_record)

lemma cut_log:
  assumes "list_all (\<lambda>p. length p < 2 ^ 32) ps" "i + length ps < 2 ^ 64"
  shows "\<exists>tail. take k (wal_bytes_from i ps) = wal_bytes_from i (take (whole_records k ps) ps) @ tail \<and> dead_tail tail"
  using assms
proof (induction k ps arbitrary: i rule: whole_records.induct)
  case (1 k)
  then show ?case by (simp add: dead_tail_def header_size_def)
next
  case (2 k p ps)
  show ?case
  proof (cases "header_size + length p \<le> k")
    case True
    with "2.IH" [of "i + 1"] "2.prems" show ?thesis by auto
  next
    case False
    with "2.prems" torn_record_dead [of p "i + 1" k] show ?thesis by auto
  qed
qed

lemma corrupted_dead:
  assumes "length (xs @ b # ys) < 2 ^ 32" "seq < 2 ^ 64" "b \<noteq> b'"
  shows "dead_tail (take header_size (wal_record seq (xs @ b # ys)) @ (xs @ b' # ys) @ rest)"
proof -
  have "unat (calculate_crc32 (xs @ b' # ys)) \<noteq> unat (calculate_crc32 (xs @ b # ys))"
    using crc32_detects_byte [OF assms(3), of xs ys] by (auto simp: word_unat_eq_iff)
  then show ?thesis using header_of_record [OF assms(1,2)] by (simp add: dead_tail_def Let_def)
qed

text \<open>The log holds the records \<open>ps\<close>: they are at the beginning of the file, and appending continues after them.\<close>

definition wal_holds :: "('w \<Rightarrow> byte list) \<Rightarrow> byte list list \<Rightarrow> byte list \<Rightarrow> wal \<times> 'w \<Rightarrow> bool" where
  "wal_holds content ps tail lw \<longleftrightarrow>
     fl_open (wl_file (fst lw)) \<and> content (snd lw) = wal_bytes ps @ tail \<and> wl_last_seq (fst lw) = length ps \<and>
     wl_append_offset (fst lw) = int (length (wal_bytes ps))"

lemma wal_append_holds:
  assumes d: "disk_ok d content" and h: "wal_holds content ps tail lw" and "length ps + 1 < 2 ^ 64"
  shows "\<exists>lw'. wal_append d p lw = (Inr (length ps + 1), lw') \<and>
    wal_holds content (ps @ [p]) (drop (header_size + length p) tail) lw'"
proof -
  obtain l w where lw: "lw = (l, w)" by (cases lw)
  let ?r = "wal_record (length ps + 1) p"
  have "?r \<noteq> []" by (rule wal_record_nonempty)
  then obtain f' w' where "write_all d (int (length (wal_bytes ps))) ?r (wl_file l, w) = (Inr (), f', w')" "fl_open f'"
      "content w' = overwrite (length (wal_bytes ps)) ?r (content w)"
    using write_all_ok [OF d, of "wl_file l" ?r "length (wal_bytes ps)" w] h by (auto simp: wal_holds_def lw)
  with h assms(3) show ?thesis
    by (simp add: wal_append_def wal_holds_def lw overwrite_def wal_bytes_append Let_def)
qed

text \<open>
  C26: the write-ahead log is a list of records that survives a crash. On a disk that keeps its contents, appending to a
  log of \<open>ps\<close> returns the next sequence number and leaves the log of \<open>ps\<close> followed by the new record. If a crash leaves
  the first \<open>k\<close> bytes of the file, for any \<open>k\<close>, opening the log restores exactly the records that lie completely within
  those bytes: it continues numbering and writing after them, and recovery returns their payloads.
\<close>

theorem wal_crash_recovery:
  assumes "disk_ok d content" "list_all (\<lambda>p. length p < 2 ^ 32) (ps @ [p])" "length ps + 1 < 2 ^ 64"
    and "wal_holds content ps [] lw"
  shows "(\<exists>lw'. wal_append d p lw = (Inr (length ps + 1), lw') \<and> wal_holds content (ps @ [p]) [] lw') \<and>
    (\<forall>k (f :: os_file) w. fl_open f \<and> content w = take k (wal_bytes ps) \<longrightarrow>
       (\<exists>l' w' tail l'' w''. wal_open d f w = (Inr l', w') \<and>
          wal_holds content (take (whole_records k ps) ps) tail (l', w') \<and>
          wal_recover d (l', w') = (Inr (take (whole_records k ps) ps), l'', w'') \<and>
          (length (wal_bytes ps) \<le> k \<longrightarrow> take (whole_records k ps) ps = ps \<and> tail = [])))"
proof (intro conjI allI impI)
  show "\<exists>lw'. wal_append d p lw = (Inr (length ps + 1), lw') \<and> wal_holds content (ps @ [p]) [] lw'"
    using wal_append_holds [OF assms(1,4,3), of p] by simp
next
  fix k w and f :: os_file assume w: "fl_open f \<and> content w = take k (wal_bytes ps)"
  let ?qs = "take (whole_records k ps) ps"
  obtain tail where tail: "take k (wal_bytes ps) = wal_bytes ?qs @ tail" "dead_tail tail"
    using cut_log [of ps 0 k] assms(2,3) by auto
  have qs: "list_all (\<lambda>p. length p < 2 ^ 32) ?qs" "length ?qs < 2 ^ 64"
    using assms(2,3) by (auto simp: list_all_iff dest: in_set_takeD)
  have sz: "dk_size d v = Some (length (content v))" for v using assms(1) by (simp add: disk_ok_def)
  let ?l = "\<lparr>wl_file = f, wl_last_seq = length ?qs, wl_append_offset = int (length (wal_bytes ?qs))\<rparr>"
  have rec: "\<exists>w'. wal_recover d (l, v) = (Inr ?qs, ?l, w') \<and> content w' = content w"
    if "wl_file l = f" "content v = content w" for l v
    using wal_recover_dead [OF assms(1) _ qs, of l v tail] tail that w by (cases l) auto
  have "\<exists>w'. wal_open d f w = (Inr ?l, w') \<and> content w' = content w"
  proof (cases "content w = []")
    case True
    with w tail(1) have "wal_bytes ?qs = []" by simp
    then have "?qs = []" by (cases ?qs) (auto simp: wal_record_nonempty)
    moreover have "wal_open d f w = (Inr \<lparr>wl_file = f, wl_last_seq = 0, wl_append_offset = 0\<rparr>, w)"
      using True conjunct1 [OF w] sz [of w] by (simp add: wal_open_def file_size_def)
    ultimately show ?thesis by (simp del: take_eq_Nil)
  next
    case False
    with w sz rec [of "\<lparr>wl_file = f, wl_last_seq = 0, wl_append_offset = int (length (content w))\<rparr>" w] show ?thesis
      by (auto simp: wal_open_def file_size_def)
  qed
  then obtain w' where w': "wal_open d f w = (Inr ?l, w')" "content w' = content w" by blast
  obtain w'' where "wal_recover d (?l, w') = (Inr ?qs, ?l, w'')" using rec [of ?l w'] w'(2) by auto
  moreover have "wal_holds content ?qs tail (?l, w')" using w w' tail(1) by (simp add: wal_holds_def)
  moreover have "?qs = ps \<and> tail = []" if "length (wal_bytes ps) \<le> k"
    using whole_records_all [OF that] tail(1) that by simp
  ultimately show "\<exists>l' w' tail l'' w''. wal_open d f w = (Inr l', w') \<and> wal_holds content ?qs tail (l', w') \<and>
      wal_recover d (l', w') = (Inr ?qs, l'', w'') \<and> (length (wal_bytes ps) \<le> k \<longrightarrow> ?qs = ps \<and> tail = [])"
    using w'(1) by blast
qed

text \<open>A file in memory that transfers at most seven bytes at a time.\<close>

definition mem_disk :: "byte list disk" where
  "mem_disk =
     \<lparr>dk_read = \<lambda>off len w. (Some (take (min 7 len) (drop (nat off) w)), w),
      dk_write = \<lambda>off data w. (Some (min 7 (length data)), overwrite (nat off) (take (min 7 (length data)) data) w),
      dk_sync = \<lambda>b w. (True, w), dk_allocate = \<lambda>off len w. (True, w), dk_truncate = \<lambda>n w. (True, take (nat n) w),
      dk_size = \<lambda>w. Some (length w), dk_close = \<lambda>w. w\<rparr>"

lemma mem_disk_ok: "disk_ok mem_disk (\<lambda>w. w)"
proof -
  have "prefix (take (min 7 len) (drop off w)) (take len (drop off w))" for off len and w :: "byte list"
    by (metis min.cobounded2 take_is_prefix take_take min.absorb1)
  then show ?thesis
    by (auto simp: disk_ok_def mem_disk_def)
qed

theorem wal_crash_recovery_witness:
  "(\<exists>lw'. wal_append mem_disk [5] (\<lparr>wl_file = \<lparr>fl_open = True, fl_append_offset = 0\<rparr>, wl_last_seq = 1,
       wl_append_offset = 22\<rparr>, wal_bytes [[1, 2]]) = (Inr 2, lw') \<and> wal_holds (\<lambda>w. w) [[1, 2], [5]] [] lw')"
proof -
  let ?lw = "(\<lparr>wl_file = \<lparr>fl_open = True, fl_append_offset = 0\<rparr>, wl_last_seq = 1, wl_append_offset = 22\<rparr>, wal_bytes [[1, 2]])"
  have "wal_holds (\<lambda>w. w) [[1, 2]] [] ?lw" by (simp add: wal_holds_def header_size_def)
  then have "\<exists>lw'. wal_append mem_disk [5] ?lw = (Inr (length [[1, 2 :: byte]] + 1), lw') \<and> wal_holds (\<lambda>w. w) ([[1, 2]] @ [[5]]) [] lw'"
    using wal_crash_recovery [OF mem_disk_ok, of "[[1, 2]]" "[5]" ?lw] by (simp only:) simp
  then show ?thesis by (simp add: numeral_2_eq_2)
qed

text \<open>
  C27: a damaged record ends recovery. If within the payload of a stored record a single byte is changed, in any way,
  recovery returns exactly the records before it, and the next append will overwrite the damaged one.
\<close>

theorem wal_detects_corruption:
  assumes "disk_ok d content" "fl_open (wl_file l)" "list_all (\<lambda>p. length p < 2 ^ 32) (ps @ [xs @ b # ys])"
    and "length ps + 1 < 2 ^ 64" "b \<noteq> b'"
    and "content w = wal_bytes ps @ take header_size (wal_record (length ps + 1) (xs @ b # ys)) @ (xs @ b' # ys) @ rest"
  shows "\<exists>w'. wal_recover d (l, w) =
      (Inr ps, l\<lparr>wl_last_seq := length ps, wl_append_offset := int (length (wal_bytes ps))\<rparr>, w') \<and> content w' = content w"
  using assms corrupted_dead [of xs b ys "length ps + 1" b' rest] by (intro wal_recover_dead) auto

theorem wal_detects_corruption_witness:
  "\<exists>w'. wal_recover mem_disk (\<lparr>wl_file = \<lparr>fl_open = True, fl_append_offset = 0\<rparr>, wl_last_seq = 0, wl_append_offset = 0\<rparr>,
       wal_bytes [[7]] @ take header_size (wal_record 2 [1, 2, 3]) @ [1, 9, 3] @ wal_record 3 [4]) =
     (Inr [[7]], \<lparr>wl_file = \<lparr>fl_open = True, fl_append_offset = 0\<rparr>, wl_last_seq = 1,
       wl_append_offset = int (length (wal_bytes [[7]]))\<rparr>, w')"
proof -
  let ?l = "\<lparr>wl_file = \<lparr>fl_open = True, fl_append_offset = 0\<rparr>, wl_last_seq = 0, wl_append_offset = 0\<rparr>"
  let ?w = "wal_bytes [[7]] @ take header_size (wal_record 2 [1, 2, 3]) @ [1, 9, 3] @ wal_record 3 [4]"
  have eq: "?w = wal_bytes [[7]] @ take header_size (wal_record (length [[7 :: byte]] + 1) ([1] @ 2 # [3])) @ ([1] @ 9 # [3]) @ wal_record 3 [4]"
    by (simp add: numeral_2_eq_2)
  have "(2 :: byte) \<noteq> 9" by simp
  then show ?thesis
    using wal_detects_corruption [OF mem_disk_ok, of ?l "[[7]]" "[1]" 2 "[3]" 9 ?w "wal_record 3 [4]"] eq by auto
qed



subsection \<open>Appending to a file\<close>

text \<open>
  \<^verbatim>\<open>File::append\<close> counts what it has written twice: \<^verbatim>\<open>write\<close> has already moved the append position. Two appends in a row
  leave a hole of zero bytes between them, as long as the first one.
\<close>

lemma file_append_once:
  assumes "disk_ok d content" "fl_open f" "data \<noteq> []" "fl_append_offset f = int off" "length (content w) \<le> off"
  shows "\<exists>n w' f'. file_append d data (f, w) = (Inr n, f', w') \<and> 0 < n \<and> n \<le> length data \<and> fl_open f' \<and>
    content w' = content w @ replicate (off - length (content w)) 0 @ take n data \<and> fl_append_offset f' = int (off + 2 * n)"
proof -
  obtain n w' where "dk_write d (int off) data w = (Some n, w')" "0 < n" "n \<le> length data"
      "content w' = overwrite off (take n data) (content w)"
    using assms(1,3) unfolding disk_ok_def by blast
  then show ?thesis
    using assms by (simp add: file_append_def file_write_def overwrite_def min_absorb1)
qed

lemma file_append_gap:
  assumes "disk_ok d content" "fl_open f" "x \<noteq> []" "y \<noteq> []" "fl_append_offset f = int (length (content w))"
  shows "\<exists>n m fw1 f2 w2. file_append d x (f, w) = (Inr n, fw1) \<and> file_append d y fw1 = (Inr m, f2, w2) \<and> 0 < n \<and>
    content w2 = content w @ take n x @ replicate n 0 @ take m y"
proof -
  obtain n w1 f1 where 1: "file_append d x (f, w) = (Inr n, f1, w1)" "0 < n" "n \<le> length x" "fl_open f1"
      "content w1 = content w @ take n x" "fl_append_offset f1 = int (length (content w) + 2 * n)"
    using file_append_once [OF assms(1,2,3,5), of w] by auto
  have len: "length (content w1) = length (content w) + n" using 1(3,5) by simp
  obtain m w2 f2 where "file_append d y (f1, w1) = (Inr m, f2, w2)"
      "content w2 = content w1 @ replicate n 0 @ take m y"
    using file_append_once [OF assms(1) 1(4) assms(4) 1(6), of w1] len by auto
  with 1 show ?thesis by auto
qed

text \<open>
  A log on a solid-state disk is opened unbuffered by default: the read-write mode includes the write-only bit.
\<close>

lemma wal_file_opened_direct:
  "try_direct (ReadWrite OR CreateFile) DirectAuto NVMe" "try_direct (ReadWrite OR CreateFile) DirectAuto SATA_SSD"
  by (simp_all add: try_direct_def has_flag_def)

end
