(* ===== verification/Calendar.thy ===== *)
theory Calendar
  imports Http_Protocol "HOL-Library.Signed_Division"
begin

text \<open>
  \<^verbatim>\<open>src/data/types/DateTime.h\<close>, \<^verbatim>\<open>Date.h\<close> and \<^verbatim>\<open>Time.h\<close>: the conversion between day numbers and calendar dates, and the
  three calendar types with their text forms. Division and remainder of C++ round towards zero (\<open>sdiv\<close>, \<open>smod\<close>); a value
  stored in an \<^verbatim>\<open>int\<close>, \<^verbatim>\<open>unsigned\<close> or \<^verbatim>\<open>int64_t\<close> is reduced to its width where it can leave it. The C++ standard leaves
  the overflow of a signed sum open; the model wraps it, and no theorem concerns a year where that happens.
\<close>

subsection \<open>Widths\<close>

definition wrap_i32 :: "int \<Rightarrow> int" where
  "wrap_i32 i = (i + 2 ^ 31) mod 2 ^ 32 - 2 ^ 31"

definition wrap_u32 :: "int \<Rightarrow> int" where
  "wrap_u32 i = i mod 2 ^ 32"

definition wrap_i64 :: "int \<Rightarrow> int" where
  "wrap_i64 i = (i + 2 ^ 63) mod 2 ^ 64 - 2 ^ 63"

subsection \<open>Days and dates\<close>

definition days_to_civil :: "int \<Rightarrow> int \<times> int \<times> int" where
  "days_to_civil n =
     (let days = n + 719468;
          era = (if 0 \<le> days then days else days - 146096) sdiv 146097;
          doe = wrap_u32 (days - era * 146097);
          yoe = (doe - doe div 1460 + doe div 36524 - doe div 146096) div 365;
          y = yoe + era * 400;
          doy = doe - (365 * yoe + yoe div 4 - yoe div 100);
          mp = (5 * doy + 2) div 153;
          d = doy - (153 * mp + 2) div 5 + 1;
          m = (if mp < 10 then mp + 3 else mp - 9)
      in (wrap_i32 (y + (if m \<le> 2 then 1 else 0)), m, d))"

definition civil_to_days :: "int \<Rightarrow> int \<Rightarrow> int \<Rightarrow> int" where
  "civil_to_days y m d =
     (let y = wrap_i32 (y - (if m \<le> 2 then 1 else 0));
          era = (if 0 \<le> y then y else wrap_i32 (y - 399)) sdiv 400;
          yoe = wrap_u32 (y - era * 400);
          mp = wrap_u32 (if 2 < m then m - 3 else m + 9);
          doy = wrap_u32 (wrap_u32 (153 * mp + 2) div 5 + d - 1);
          doe = wrap_u32 (yoe * 365 + yoe div 4 - yoe div 100 + doy)
      in era * 146097 + doe - 719468)"

subsection \<open>Digits\<close>

definition write_2digits :: "int \<Rightarrow> string" where
  "write_2digits v = [char_of (nat (48 + v div 10)), char_of (nat (48 + v mod 10))]"

definition write_4digits :: "int \<Rightarrow> string" where
  "write_4digits v = write_2digits (v div 100) @ write_2digits (v mod 100)"

definition write_6digits :: "int \<Rightarrow> string" where
  "write_6digits v = write_2digits (v div 10000) @ write_4digits (v mod 10000)"

definition parse_2digits :: "string \<Rightarrow> int option" where
  "parse_2digits s =
     (if length s < 2 \<or> \<not> is_digit (s ! 0) \<or> \<not> is_digit (s ! 1) then None
      else Some (int (digit_val (s ! 0)) * 10 + int (digit_val (s ! 1))))"

definition parse_4digits :: "string \<Rightarrow> int option" where
  "parse_4digits s =
     (case parse_2digits s of
        None \<Rightarrow> None
      | Some hi \<Rightarrow> (case parse_2digits (drop 2 s) of None \<Rightarrow> None | Some lo \<Rightarrow> Some (hi * 100 + lo)))"

text \<open>A two-digit field at a position, with the range the callers check.\<close>

definition field2 :: "string \<Rightarrow> nat \<Rightarrow> int \<Rightarrow> int \<Rightarrow> int option" where
  "field2 s pos lo hi =
     (case parse_2digits (substr s pos 2) of None \<Rightarrow> None | Some v \<Rightarrow> if lo \<le> v \<and> v \<le> hi then Some v else None)"

subsection \<open>Timestamps\<close>

text \<open>A \<^verbatim>\<open>DateTime\<close> is its number of microseconds since 1970.\<close>

type_synonym date_time = int

definition from_epoch_millis :: "int \<Rightarrow> date_time" where
  "from_epoch_millis ms = wrap_i64 (ms * 1000)"

definition from_epoch_seconds :: "int \<Rightarrow> date_time" where
  "from_epoch_seconds s = wrap_i64 (s * 1000000)"

definition epoch_millis :: "date_time \<Rightarrow> int" where
  "epoch_millis t = t sdiv 1000"

definition epoch_seconds :: "date_time \<Rightarrow> int" where
  "epoch_seconds t = t sdiv 1000000"

definition datetime_add :: "date_time \<Rightarrow> int \<Rightarrow> date_time" where
  "datetime_add t us = wrap_i64 (t + us)"

definition datetime_sub :: "date_time \<Rightarrow> int \<Rightarrow> date_time" where
  "datetime_sub t us = wrap_i64 (t - us)"

definition datetime_diff :: "date_time \<Rightarrow> date_time \<Rightarrow> int" where
  "datetime_diff t u = wrap_i64 (t - u)"

text \<open>The split of a timestamp that \<^verbatim>\<open>to_iso8601\<close> makes: day, second of the day, microsecond.\<close>

definition split_micros :: "date_time \<Rightarrow> int \<times> int \<times> int" where
  "split_micros t =
     (let total_sec = t sdiv 1000000;
          rem_us = t smod 1000000;
          (total_sec, rem_us) = (if rem_us < 0 then (total_sec - 1, rem_us + 1000000) else (total_sec, rem_us));
          days = total_sec sdiv 86400;
          rem_sec = total_sec smod 86400;
          (days, rem_sec) = (if rem_sec < 0 then (days - 1, rem_sec + 86400) else (days, rem_sec))
      in (days, rem_sec, rem_us))"

definition to_iso8601 :: "date_time \<Rightarrow> string" where
  "to_iso8601 t =
     (case split_micros t of
        (days, rem_sec, rem_us) \<Rightarrow>
          (case days_to_civil days of
             (y, m, d) \<Rightarrow>
               write_4digits (wrap_u32 y) @ ''-'' @ write_2digits m @ ''-'' @ write_2digits d @ ''T'' @
               write_2digits (rem_sec div 3600) @ '':'' @ write_2digits (rem_sec mod 3600 div 60) @ '':'' @
               write_2digits (rem_sec mod 60) @ ''.'' @ write_6digits rem_us @ ''Z''))"

text \<open>The first six digits of a fraction, scaled to microseconds.\<close>

definition frac_micros :: "string \<Rightarrow> int" where
  "frac_micros ds = int (dec_val (take 6 ds)) * 10 ^ (6 - length ds)"

text \<open>
  The offset from UTC in seconds: none at the end of the text, after \<^verbatim>\<open>Z\<close>, or before anything that is not a sign;
  \<open>None\<close> for a malformed offset.
\<close>

definition tz_offset :: "string \<Rightarrow> int option" where
  "tz_offset s =
     (if s = [] \<or> hd s \<noteq> CHR ''+'' \<and> hd s \<noteq> CHR ''-'' then Some 0
      else
        (case parse_2digits (substr s 1 2) of
           None \<Rightarrow> None
         | Some tz_hr \<Rightarrow>
             let idx = (if 3 < length s \<and> s ! 3 = CHR '':'' then 4 else 3);
                 tz_min = (if idx + 1 < length s then parse_2digits (substr s idx 2) else Some 0)
             in (case tz_min of
                   None \<Rightarrow> None
                 | Some tz_min \<Rightarrow>
                     let off = tz_hr * 3600 + tz_min * 60 in Some (if hd s = CHR ''+'' then off else - off))))"

definition iso_tail :: "string \<Rightarrow> int \<times> string" where
  "iso_tail s =
     (if s \<noteq> [] \<and> hd s = CHR ''.''
      then (let ds = takeWhile is_digit (tl s) in (if ds = [] then 0 else frac_micros ds, dropWhile is_digit (tl s)))
      else (0, s))"

definition datetime_from_string :: "string \<Rightarrow> date_time option" where
  "datetime_from_string s =
     (if length s < 19 \<or> s ! 4 \<noteq> CHR ''-'' \<or> s ! 7 \<noteq> CHR ''-'' \<or> s ! 10 \<notin> {CHR ''T'', SP, CHR ''t''} \<or>
         s ! 13 \<noteq> CHR '':'' \<or> s ! 16 \<noteq> CHR '':'' then None
      else
        (case (parse_4digits (take 4 s), field2 s 5 1 12, field2 s 8 1 31, field2 s 11 0 23, field2 s 14 0 59, field2 s 17 0 59) of
           (Some y, Some m, Some d, Some hr, Some mi, Some sec) \<Rightarrow>
             (case iso_tail (drop 19 s) of
                (us, rest) \<Rightarrow>
                  (case tz_offset rest of
                     None \<Rightarrow> None
                   | Some off \<Rightarrow>
                       Some ((civil_to_days y m d * 86400 + hr * 3600 + mi * 60 + sec - off) * 1000000 + us)))
         | _ \<Rightarrow> None))"

subsection \<open>Dates\<close>

record date =
  dt_year :: int
  dt_month :: int
  dt_day :: int

definition is_leap_year :: "date \<Rightarrow> bool" where
  "is_leap_year t \<longleftrightarrow> dt_year t smod 4 = 0 \<and> dt_year t smod 100 \<noteq> 0 \<or> dt_year t smod 400 = 0"

text \<open>\<^verbatim>\<open>today\<close>, given the seconds since 1970.\<close>

definition date_today :: "int \<Rightarrow> date" where
  "date_today secs = (case days_to_civil (secs sdiv 86400) of (y, m, d) \<Rightarrow> \<lparr>dt_year = y, dt_month = m, dt_day = d\<rparr>)"

definition date_to_string :: "date \<Rightarrow> string" where
  "date_to_string t =
     write_4digits (wrap_u32 (if dt_year t < 0 then - dt_year t else dt_year t)) @ ''-'' @
     write_2digits (dt_month t) @ ''-'' @ write_2digits (dt_day t)"

definition date_from_string :: "string \<Rightarrow> date option" where
  "date_from_string s =
     (if length s \<noteq> 10 \<or> s ! 4 \<noteq> CHR ''-'' \<or> s ! 7 \<noteq> CHR ''-'' then None
      else
        (case (parse_4digits (take 4 s), field2 s 5 1 12, field2 s 8 1 31) of
           (Some y, Some m, Some d) \<Rightarrow> Some \<lparr>dt_year = y, dt_month = m, dt_day = d\<rparr>
         | _ \<Rightarrow> None))"

definition date_less :: "date \<Rightarrow> date \<Rightarrow> bool" where
  "date_less a b \<longleftrightarrow>
     dt_year a < dt_year b \<or> dt_year a = dt_year b \<and>
     (dt_month a < dt_month b \<or> dt_month a = dt_month b \<and> dt_day a < dt_day b)"

subsection \<open>Times of day\<close>

text \<open>A \<^verbatim>\<open>Time\<close> is its number of microseconds since midnight.\<close>

type_synonym day_time = int

definition make_time :: "int \<Rightarrow> int \<Rightarrow> int \<Rightarrow> int \<Rightarrow> day_time" where
  "make_time h m s us = h * 3600000000 + m * 60000000 + s * 1000000 + us"

definition time_of_micros :: "int \<Rightarrow> day_time" where
  "time_of_micros us = us mod 86400000000"

text \<open>\<^verbatim>\<open>now\<close>, given the microseconds since 1970: a negative remainder becomes a huge unsigned number.\<close>

definition time_now :: "int \<Rightarrow> day_time" where
  "time_now epoch_us = time_of_micros ((epoch_us smod 86400000000) mod 2 ^ 64)"

definition time_hour :: "day_time \<Rightarrow> int" where
  "time_hour t = (t div 3600000000) mod 256"

definition time_minute :: "day_time \<Rightarrow> int" where
  "time_minute t = t mod 3600000000 div 60000000"

definition time_second :: "day_time \<Rightarrow> int" where
  "time_second t = t mod 60000000 div 1000000"

definition time_micro :: "day_time \<Rightarrow> int" where
  "time_micro t = t mod 1000000"

definition time_to_string :: "bool \<Rightarrow> day_time \<Rightarrow> string" where
  "time_to_string with_micros t =
     write_2digits (time_hour t) @ '':'' @ write_2digits (time_minute t) @ '':'' @ write_2digits (time_second t) @
     (if with_micros then ''.'' @ write_6digits (time_micro t) else [])"

text \<open>The fraction of a time: its leading digits, six at most, scaled by the length of all the text after the point.\<close>

definition time_frac :: "string \<Rightarrow> int" where
  "time_frac frac = int (dec_val (takeWhile is_digit (take 6 frac))) * 10 ^ (6 - length frac)"

definition time_from_string :: "string \<Rightarrow> day_time option" where
  "time_from_string s =
     (if length s < 8 \<or> s ! 2 \<noteq> CHR '':'' \<or> s ! 5 \<noteq> CHR '':'' then None
      else
        (case (field2 s 0 0 23, field2 s 3 0 59, field2 s 6 0 59) of
           (Some h, Some m, Some sec) \<Rightarrow>
             Some (make_time h m sec (if 8 < length s \<and> s ! 8 = CHR ''.'' then time_frac (drop 9 s) else 0))
         | _ \<Rightarrow> None))"

end
