(* ===== verification/Calendar_Proofs.thy ===== *)
theory Calendar_Proofs
  imports Calendar
begin

text \<open>
  The conversions are the proleptic Gregorian calendar, and the text forms are read back exactly.
\<close>

subsection \<open>The calendar\<close>

definition leap_year :: "int \<Rightarrow> bool" where
  "leap_year y \<longleftrightarrow> y mod 4 = 0 \<and> y mod 100 \<noteq> 0 \<or> y mod 400 = 0"

definition days_in_month :: "int \<Rightarrow> int \<Rightarrow> int" where
  "days_in_month y m =
     (if m \<in> {4, 6, 9, 11} then 30 else if m = 2 then (if leap_year y then 29 else 28) else 31)"

definition valid_date :: "int \<Rightarrow> int \<Rightarrow> int \<Rightarrow> bool" where
  "valid_date y m d \<longleftrightarrow> 1 \<le> m \<and> m \<le> 12 \<and> 1 \<le> d \<and> d \<le> days_in_month y m"

definition next_date :: "int \<times> int \<times> int \<Rightarrow> int \<times> int \<times> int" where
  "next_date t =
     (case t of (y, m, d) \<Rightarrow>
        if d < days_in_month y m then (y, m, d + 1) else if m < 12 then (y, m + 1, 1) else (y + 1, 1, 1))"

lemma leap_year_mod4: "leap_year y \<Longrightarrow> y mod 4 = 0"
  by (auto simp: leap_year_def mod_eq_0_iff_dvd intro: dvd_trans [of 4 400])

lemma leap_year_mod400: "leap_year (z mod 400 + 1) = leap_year (z + 1)"
proof -
  have "(z mod 400 + 1) mod k = (z + 1) mod k" if "k dvd 400" for k
    using that by (metis mod_add_left_eq mod_mod_cancel)
  from this [of 4] this [of 100] this [of 400] show ?thesis by (simp add: leap_year_def)
qed

lemma div_by: "b * q \<le> a \<Longrightarrow> a < b * (q + 1) \<Longrightarrow> a div b = q" for a b q :: int
  by (rule int_div_pos_eq [of a b q "a - b * q"]) (simp_all add: algebra_simps)

lemma sdiv_floor: "0 < b \<Longrightarrow> (if 0 \<le> a then a else a - (b - 1)) sdiv b = a div b" for a b :: int
proof (cases "0 \<le> a")
  case False
  assume b: "0 < b"
  define q r where "q = a div b" and "r = a mod b"
  have r: "0 \<le> r" "r < b" and a: "a = b * q + r" using b by (simp_all add: q_def r_def)
  have "(- (a - (b - 1))) div b = - q"
    by (rule div_by) (use r in \<open>simp_all add: a algebra_simps\<close>)
  then show ?thesis using False b by (simp add: signed_divide_int_def sgn_if q_def)
qed (simp add: signed_divide_int_def sgn_if)

lemma sdiv_400: "(if 0 \<le> y then y else y - 399) sdiv 400 = y div 400" for y :: int
  using sdiv_floor [of 400 y] by (cases "0 \<le> y") simp_all

lemma sdiv_146097: "(if 0 \<le> n then n else n - 146096) sdiv 146097 = n div 146097" for n :: int
  using sdiv_floor [of 146097 n] by (cases "0 \<le> n") simp_all

text \<open>
  Years counted from March: year \<open>y\<close> of the era, day \<open>doy\<close> of the year, which has 366 days when the following
  calendar year is a leap year.
\<close>

lemma year_of_era:
  fixes y doy :: int
  assumes "0 \<le> y" "y < 400" "0 \<le> doy" "doy \<le> 365" "doy = 365 \<Longrightarrow> leap_year (y + 1)"
    and doe_def: "doe = 365 * y + y div 4 - y div 100 + doy"
  shows "(doe - doe div 1460 + doe div 36524 - doe div 146096) div 365 = y" "0 \<le> doe" "doe < 146097"
proof -
  obtain c q r where y: "y = 100 * c + 4 * q + r" and b: "0 \<le> c" "c \<le> 3" "0 \<le> q" "q \<le> 24" "0 \<le> r" "r \<le> 3"
  proof
    show "y = 100 * (y div 100) + 4 * (y mod 100 div 4) + y mod 100 mod 4" by simp
  qed (use assms(1,2) in \<open>auto intro: div_by [symmetric, THEN eq_refl]\<close>)
  have "y div 4 = 25 * c + q" "y div 100 = c" using y b by (auto intro!: div_by)
  then have doe: "doe = 36524 * c + 1461 * q + 365 * r + doy" by (simp add: doe_def y)
  have leap: "r = 3 \<and> (q = 24 \<longrightarrow> c = 3)" if "doy = 365"
  proof -
    have l: "leap_year (y + 1)" using assms(5) that by simp
    have "(r + 1) mod 4 = (4 * (25 * c + q) + (r + 1)) mod 4" by (rule mod_mult_self4 [symmetric])
    also have "4 * (25 * c + q) + (r + 1) = y + 1" by (simp add: y)
    finally have "(r + 1) mod 4 = 0" using leap_year_mod4 [OF l] by simp
    moreover have "r = 0 \<or> r = 1 \<or> r = 2 \<or> r = 3" using b by auto
    ultimately have r: "r = 3" by auto
    have "c = 3" if "q = 24"
    proof -
      have "y + 1 = 100 * (c + 1)" using r that by (simp add: y)
      moreover have "c = 0 \<or> c = 1 \<or> c = 2 \<or> c = 3" using b by auto
      ultimately show ?thesis using l by (auto simp: leap_year_def)
    qed
    with r show ?thesis by simp
  qed
  show "0 \<le> doe" using doe b assms(3) by linarith
  show lt: "doe < 146097" using doe b assms(4) leap by (cases "doy = 365") linarith+
  have ctr: "doe div 36524 - doe div 146096 = c"
  proof (cases "doe = 146096")
    case True
    then have "c = 3" using doe b assms(4) by linarith
    with True show ?thesis by simp
  next
    case False
    then have "doe < 36524 * (c + 1)"
      using doe b assms(4) leap lt by (cases "doy = 365"; cases "q = 24") (auto, linarith?)
    then have "doe div 36524 = c" using doe b assms(3) by (intro div_by) linarith+
    moreover have "doe div 146096 = 0" using False lt doe b assms(3) by (intro div_by) auto
    ultimately show ?thesis by simp
  qed
  have e: "doe div 1460 = 25 * c + q + (24 * c + q + 365 * r + doy) div 1460"
    using div_mult_self4 [of 1460 "25 * c + q" "24 * c + q + 365 * r + doy"] by (simp add: doe algebra_simps)
  have f: "(24 * c + q + 365 * r + doy) div 1460 = (if 1460 \<le> 24 * c + q + 365 * r + doy then 1 else 0)"
    using b assms(3,4) by (auto intro!: div_by)
  show "(doe - doe div 1460 + doe div 36524 - doe div 146096) div 365 = y"
  proof (rule div_by)
    have s: "doe - doe div 1460 + doe div 36524 - doe div 146096 =
        365 * y + doy - (if 1460 \<le> 24 * c + q + 365 * r + doy then 1 else 0)"
      using ctr e f by (simp add: doe y)
    show "365 * y \<le> doe - doe div 1460 + doe div 36524 - doe div 146096"
      using b assms(3) by (simp add: s)
    show "doe - doe div 1460 + doe div 36524 - doe div 146096 < 365 * (y + 1)"
      using leap b assms(4) by (cases "doy = 365") (auto simp: s)
  qed
qed

subsection \<open>Months\<close>

text \<open>The number of days before month \<open>mp\<close>, counted from March.\<close>

definition month_start :: "int \<Rightarrow> int" where
  "month_start mp = (153 * mp + 2) div 5"

lemma month_cases: "0 \<le> mp \<Longrightarrow> mp \<le> 11 \<Longrightarrow> mp \<in> {0, 1, 2, 3, 4, 5, 6, 7, 8, 9, 10, 11}" for mp :: int
  by (simp, presburger)

lemma month_of_day:
  assumes "0 \<le> mp" "mp \<le> 11" "month_start mp \<le> doy" "doy < (if mp = 11 then 366 else month_start (mp + 1))"
  shows "(5 * doy + 2) div 153 = mp"
  using month_cases [OF assms(1,2)] assms(3,4)
  by (auto simp: month_start_def intro!: div_by)

text \<open>A calendar month as a month from March, with the length the calendar gives it.\<close>

definition march_month :: "int \<Rightarrow> int" where
  "march_month m = (if 2 < m then m - 3 else m + 9)"

lemma month_length:
  assumes "valid_date y m d"
  shows "0 \<le> march_month m" "march_month m \<le> 11"
    "month_start (march_month m) + d - 1 < (if march_month m = 11 then 366 else month_start (march_month m + 1))"
    "month_start (march_month m) + d - 1 = 365 \<Longrightarrow> leap_year y \<and> m = 2"
    "(if march_month m < 10 then march_month m + 3 else march_month m - 9) = m"
proof -
  have m: "m \<in> {1, 2, 3, 4, 5, 6, 7, 8, 9, 10, 11, 12}"
    using month_cases [of "m - 1"] assms by (auto simp: valid_date_def)
  then show "0 \<le> march_month m" "march_month m \<le> 11"
    "(if march_month m < 10 then march_month m + 3 else march_month m - 9) = m"
    by (auto simp: march_month_def)
  show "month_start (march_month m) + d - 1 < (if march_month m = 11 then 366 else month_start (march_month m + 1))"
    using m assms by (auto simp: march_month_def month_start_def valid_date_def days_in_month_def split: if_splits)
  assume "month_start (march_month m) + d - 1 = 365"
  then show "leap_year y \<and> m = 2"
    using m assms by (auto simp: march_month_def month_start_def valid_date_def days_in_month_def split: if_splits)
qed

subsection \<open>Both conversions\<close>

text \<open>The number of a day of the proleptic Gregorian calendar, on all integers.\<close>

definition civil_day :: "int \<Rightarrow> int \<Rightarrow> int \<Rightarrow> int" where
  "civil_day y m d =
    (let y' = y - (if m \<le> 2 then 1 else 0); yoe = y' mod 400
     in y' div 400 * 146097 + (365 * yoe + yoe div 4 - yoe div 100 + (month_start (march_month m) + d - 1)) - 719468)"

text \<open>The years on which no signed sum of \<^verbatim>\<open>civil_to_days\<close> overflows.\<close>

definition safe_year :: "int \<Rightarrow> bool" where
  "safe_year y \<longleftrightarrow> - (2 ^ 31) + 400 \<le> y \<and> y < 2 ^ 31"

lemma civil_to_days_exact:
  assumes "safe_year y" "1 \<le> m" "m \<le> 12" "1 \<le> d" "d \<le> 31"
  shows "civil_to_days y m d = civil_day y m d"
proof -
  define y' where "y' = y - (if m \<le> 2 then 1 else 0)"
  define yoe where "yoe = y' mod 400"
  have y': "wrap_i32 y' = y'" "\<not> 0 \<le> y' \<Longrightarrow> wrap_i32 (y' - 399) = y' - 399"
    using assms(1) by (auto simp: safe_year_def wrap_i32_def y'_def split: if_splits)
  have yoe: "0 \<le> yoe" "yoe < 400" by (simp_all add: yoe_def)
  have era: "(if 0 \<le> y' then y' else wrap_i32 (y' - 399)) sdiv 400 = y' div 400"
    using sdiv_400 [of y'] y'(2) by (cases "0 \<le> y'") simp_all
  have mp: "wrap_u32 (if 2 < m then m - 3 else m + 9) = march_month m" "0 \<le> march_month m" "march_month m \<le> 11"
    using assms(2,3) by (auto simp: wrap_u32_def march_month_def)
  define s where "s = month_start (march_month m)"
  have s: "wrap_u32 (153 * march_month m + 2) div 5 = s" "0 \<le> s" "s \<le> 337"
    using month_cases [OF mp(2,3)] by (auto simp: s_def month_start_def wrap_u32_def)
  have doy: "wrap_u32 (s + d - 1) = s + d - 1" using s(2,3) assms(4,5) by (simp add: wrap_u32_def)
  have "0 \<le> yoe div 100" "yoe div 100 \<le> yoe" "0 \<le> yoe div 4" "yoe div 4 \<le> yoe"
    using yoe by simp_all
  then have doe: "wrap_u32 (yoe * 365 + yoe div 4 - yoe div 100 + (s + d - 1)) = yoe * 365 + yoe div 4 - yoe div 100 + (s + d - 1)"
    using yoe s(2,3) assms(4,5) by (simp add: wrap_u32_def)
  have "wrap_u32 (y' - y' div 400 * 400) = yoe" by (simp add: minus_div_mult_eq_mod yoe_def wrap_u32_def)
  then show ?thesis
    unfolding civil_to_days_def civil_day_def Let_def y'_def [symmetric] y' era mp s doy
    unfolding yoe_def [symmetric] s_def [symmetric] by (simp only: doe)
qed

lemma civil_to_days_valid: "valid_date y m d \<Longrightarrow> safe_year y \<Longrightarrow> civil_to_days y m d = civil_day y m d"
  by (rule civil_to_days_exact) (auto simp: valid_date_def days_in_month_def split: if_splits)

lemma days_civil_inverse:
  assumes "valid_date y m d" "safe_year y"
  shows "days_to_civil (civil_day y m d) = (y, m, d)"
proof -
  define y' where "y' = y - (if m \<le> 2 then 1 else 0)"
  define yoe doy where "yoe = y' mod 400" and "doy = month_start (march_month m) + d - 1"
  define doe where "doe = 365 * yoe + yoe div 4 - yoe div 100 + doy"
  note ml = month_length [OF assms(1)]
  have yoe: "0 \<le> yoe" "yoe < 400" by (simp_all add: yoe_def)
  have start: "0 \<le> month_start mp" if "0 \<le> mp" for mp using that by (simp add: month_start_def)
  have doy: "0 \<le> doy" "doy \<le> 365"
  proof -
    show "0 \<le> doy" using start [OF ml(1)] assms(1) by (simp add: doy_def valid_date_def)
    have "(if march_month m = 11 then 366 else month_start (march_month m + 1)) \<le> 366"
      using month_cases [OF ml(1,2)] by (auto simp: month_start_def)
    with ml(3) show "doy \<le> 365" by (simp add: doy_def)
  qed
  have "leap_year (yoe + 1)" if "doy = 365"
  proof -
    have "leap_year y" "m = 2" using ml(4) that by (simp_all add: doy_def)
    then have "y = y' + 1" by (simp add: y'_def)
    then show ?thesis using \<open>leap_year y\<close> by (simp add: yoe_def leap_year_mod400)
  qed
  note ye = year_of_era [OF yoe doy this doe_def]
  have n: "civil_day y m d + 719468 = y' div 400 * 146097 + doe"
    by (simp add: civil_day_def Let_def doe_def doy_def yoe_def y'_def)
  have era: "(y' div 400 * 146097 + doe) div 146097 = y' div 400" using ye(2,3) by (intro div_by) simp_all
  have mp: "(5 * doy + 2) div 153 = march_month m"
    using ml(1-3) assms(1) by (intro month_of_day) (simp_all add: doy_def valid_date_def)
  have y: "yoe + y' div 400 * 400 = y'" by (simp add: yoe_def)
  have doe': "wrap_u32 (y' div 400 * 146097 + doe - y' div 400 * 146097) = doe" using ye(2,3) by (simp add: wrap_u32_def)
  have doy': "doe - (365 * yoe + yoe div 4 - yoe div 100) = doy" by (simp add: doe_def)
  have d': "doy - (153 * march_month m + 2) div 5 + 1 = d" by (simp add: doy_def month_start_def)
  have y'': "wrap_i32 (y' + (if m \<le> 2 then 1 else 0)) = y" using assms(2) by (simp add: safe_year_def wrap_i32_def y'_def)
  show ?thesis
    by (simp only: days_to_civil_def n sdiv_146097 Let_def era doe' ye(1) doy' mp d' ml(5) y y'')
qed

text \<open>Days before the March-year \<open>z\<close>, without eras.\<close>

definition year_start :: "int \<Rightarrow> int" where
  "year_start z = 365 * z + z div 4 - z div 100 + z div 400"

lemma era_year_start: "z div 400 * 146097 + (365 * (z mod 400) + z mod 400 div 4 - z mod 400 div 100) = year_start z"
proof -
  define e t where "e = z div 400" and "t = z mod 400"
  have z: "z = 400 * e + t" by (simp add: e_def t_def)
  have "z div 4 = 100 * e + t div 4" using div_mult_self4 [of 4 "100 * e" t] by (simp add: z)
  moreover have "z div 100 = 4 * e + t div 100" using div_mult_self4 [of 100 "4 * e" t] by (simp add: z)
  ultimately show ?thesis by (simp add: year_start_def flip: e_def t_def) (simp add: z)
qed

lemma civil_year_start:
  "civil_day y m d = year_start (y - (if m \<le> 2 then 1 else 0)) + month_start (march_month m) + d - 1 - 719468"
  using era_year_start [of "y - (if m \<le> 2 then 1 else 0)"] by (simp only: civil_day_def Let_def)

lemma div_step: "0 < k \<Longrightarrow> y div k = (y - 1) div k + (if y mod k = 0 then 1 else 0)" for y k :: int
proof -
  assume k: "0 < k"
  define q r where "q = y div k" and "r = y mod k"
  have y: "y = k * q + r" and r: "0 \<le> r" "r < k" using k by (simp_all add: q_def r_def)
  have "(y - 1) div k = (if r = 0 then q - 1 else q)"
    by (rule div_by) (use r k in \<open>auto simp: y algebra_simps\<close>)
  then show ?thesis by (auto simp: r_def q_def)
qed

lemma year_start_step: "year_start y = year_start (y - 1) + (if leap_year y then 366 else 365)"
proof -
  define a b c where "a = (y - 1) div 4" and "b = (y - 1) div 100" and "c = (y - 1) div 400"
  define p4 p100 p400 where "p4 \<longleftrightarrow> y mod 4 = 0" and "p100 \<longleftrightarrow> y mod 100 = 0" and "p400 \<longleftrightarrow> y mod 400 = 0"
  have "p400 \<Longrightarrow> p100" "p100 \<Longrightarrow> p4"
    unfolding p4_def p100_def p400_def
    by (auto simp: mod_eq_0_iff_dvd intro: dvd_trans [of 100 400] dvd_trans [of 4 100])
  moreover have "y div 4 = a + (if p4 then 1 else 0)" "y div 100 = b + (if p100 then 1 else 0)" "y div 400 = c + (if p400 then 1 else 0)"
    unfolding p4_def p100_def p400_def a_def b_def c_def by (rule div_step, simp)+
  moreover have "leap_year y \<longleftrightarrow> p4 \<and> \<not> p100 \<or> p400" by (simp add: leap_year_def p4_def p100_def p400_def)
  ultimately show ?thesis
    unfolding year_start_def a_def [symmetric] b_def [symmetric] c_def [symmetric]
    by (cases p4; cases p100; cases p400) simp_all
qed

lemma next_date_day:
  assumes "valid_date y m d" "next_date (y, m, d) = (y2, m2, d2)"
  shows "civil_day y2 m2 d2 = civil_day y m d + 1" "valid_date y2 m2 d2"
proof -
  have m: "m \<in> {1, 2, 3, 4, 5, 6, 7, 8, 9, 10, 11, 12}"
    using month_cases [of "m - 1"] assms by (auto simp: valid_date_def)
  show "civil_day y2 m2 d2 = civil_day y m d + 1"
  proof (cases "d < days_in_month y m")
    case True
    with assms(2) show ?thesis by (simp add: next_date_def civil_year_start)
  next
    case False
    then have "d = days_in_month y m" using assms(1) by (simp add: valid_date_def)
    with m assms(2) False year_start_step [of y] show ?thesis
      by (elim insertE emptyE; clarsimp simp: next_date_def civil_year_start march_month_def month_start_def
          days_in_month_def split: if_splits)
  qed
  show "valid_date y2 m2 d2"
    using m assms by (auto simp: next_date_def valid_date_def days_in_month_def split: if_splits)
qed

lemma civil_period: "civil_day (y + 400 * k) m d = civil_day y m d + 146097 * k"
  "valid_date (y + 400 * k) m d = valid_date y m d"
proof -
  have "year_start (z + 400 * k) = year_start z + 146097 * k" for z
    using div_mult_self4 [of 4 "100 * k" z] div_mult_self4 [of 100 "4 * k" z] div_mult_self4 [of 400 k z]
    by (simp add: year_start_def add.commute)
  from this [of "y - (if m \<le> 2 then 1 else 0)"] show "civil_day (y + 400 * k) m d = civil_day y m d + 146097 * k"
    by (simp add: civil_year_start algebra_simps)
  have "(y + 400 * k) mod j = y mod j" if "j dvd 400" for j
    using that by (metis dvd_def mod_mult_self2 mult.assoc)
  from this [of 4] this [of 100] this [of 400] have "leap_year (y + 400 * k) = leap_year y" by (simp add: leap_year_def)
  then show "valid_date (y + 400 * k) m d = valid_date y m d" by (simp add: valid_date_def days_in_month_def)
qed

lemma civil_epoch: "civil_day 1970 1 1 = 0" "valid_date 1970 1 1"
  by (simp_all add: civil_year_start year_start_def month_start_def march_month_def valid_date_def days_in_month_def)

lemma every_day_has_a_date: "\<exists>y m d. valid_date y m d \<and> civil_day y m d = n"
proof -
  have up: "\<exists>y m d. valid_date y m d \<and> civil_day y m d = int k" for k
  proof (induction k)
    case 0
    then show ?case using civil_epoch by (intro exI [of _ 1970] exI [of _ 1]) simp
  next
    case (Suc k)
    then obtain y m d where "valid_date y m d" "civil_day y m d = int k" by blast
    moreover obtain y2 m2 d2 where "next_date (y, m, d) = (y2, m2, d2)" by (cases "next_date (y, m, d)")
    ultimately show ?case using next_date_day by (metis of_nat_Suc add.commute)
  qed
  define k where "k = \<bar>n\<bar>"
  have "0 \<le> n + 146097 * k" by (simp add: k_def)
  then obtain y m d where "valid_date y m d" "civil_day y m d = n + 146097 * k"
    using up [of "nat (n + 146097 * k)"] by auto
  then have "valid_date (y + 400 * (- k)) m d" "civil_day (y + 400 * (- k)) m d = n"
    by (simp_all only: civil_period)
  then show ?thesis by blast
qed

lemma day_year_bounds:
  assumes "valid_date y m d" "\<bar>civil_day y m d\<bar> < 2 ^ 39"
  shows "safe_year y"
proof -
  define z where "z = y - (if m \<le> 2 then 1 else 0)"
  have z: "4 * (z div 4) \<le> z" "z < 4 * (z div 4) + 4" "100 * (z div 100) \<le> z" "z < 100 * (z div 100) + 100"
    "400 * (z div 400) \<le> z" "z < 400 * (z div 400) + 400"
    by (simp_all add: minus_mod_eq_mult_div [symmetric]) 
  have "0 \<le> month_start (march_month m)" "month_start (march_month m) \<le> 337"
    using month_cases [OF month_length(1,2) [OF assms(1)]] by (auto simp: month_start_def)
  moreover have "1 \<le> d" "d \<le> 31" using assms(1) by (auto simp: valid_date_def days_in_month_def split: if_splits)
  moreover have "civil_day y m d = 365 * z + z div 4 - z div 100 + z div 400 + month_start (march_month m) + d - 1 - 719468"
    by (simp add: civil_year_start year_start_def z_def)
  moreover have "- (2 ^ 39) < civil_day y m d" "civil_day y m d < 2 ^ 39" using assms(2) by simp_all
  ultimately have "- 2147480000 < z" "z < 2147483640" using z by simp_all
  then show "safe_year y" by (auto simp: safe_year_def z_def split: if_splits)
qed

lemma day_has_date:
  assumes "\<bar>n\<bar> < 2 ^ 39"
  shows "case days_to_civil n of (y, m, d) \<Rightarrow> valid_date y m d \<and> safe_year y \<and> civil_to_days y m d = n"
proof -
  obtain y m d where v: "valid_date y m d" "civil_day y m d = n" using every_day_has_a_date by blast
  then have "safe_year y" "days_to_civil n = (y, m, d)" using days_civil_inverse day_year_bounds assms by blast+
  with v show ?thesis by (simp add: civil_to_days_valid)
qed

text \<open>
  C36: the day arithmetic is the Gregorian calendar, for the years from \<open>- 2\<^sup>31 + 400\<close> to \<open>2\<^sup>31 - 1\<close>, on which none of
  its 32-bit sums overflows. Day 0 is 1970-01-01; the day after a date, whose year must not be the last, has the next
  number; converting a date to its number and back gives the date; and every number below \<open>2\<^sup>39\<close> in size is sent to a date
  of the calendar with that number.
\<close>

theorem calendar_exact:
  "civil_to_days 1970 1 1 = 0 \<and>
   (\<forall>y m d. valid_date y m d \<and> safe_year y \<and> y < 2 ^ 31 - 1 \<longrightarrow>
      (case next_date (y, m, d) of (y2, m2, d2) \<Rightarrow> civil_to_days y2 m2 d2 = civil_to_days y m d + 1)) \<and>
   (\<forall>y m d. valid_date y m d \<and> safe_year y \<longrightarrow> days_to_civil (civil_to_days y m d) = (y, m, d)) \<and>
   (\<forall>n. \<bar>n\<bar> < 2 ^ 39 \<longrightarrow>
      (case days_to_civil n of (y, m, d) \<Rightarrow> valid_date y m d \<and> safe_year y \<and> civil_to_days y m d = n))"
proof (intro conjI allI impI)
  have "safe_year 1970" by (simp add: safe_year_def)
  then show "civil_to_days 1970 1 1 = 0" by (simp only: civil_to_days_valid civil_epoch)
next
  fix y m d :: int assume a: "valid_date y m d \<and> safe_year y \<and> y < 2 ^ 31 - 1"
  obtain y2 m2 d2 where n: "next_date (y, m, d) = (y2, m2, d2)" by (cases "next_date (y, m, d)")
  with a have "safe_year y2" by (auto simp: next_date_def safe_year_def split: if_splits)
  with a n show "case next_date (y, m, d) of (y2, m2, d2) \<Rightarrow> civil_to_days y2 m2 d2 = civil_to_days y m d + 1"
    using next_date_day [OF _ n] by (simp add: civil_to_days_valid)
next
  fix y m d :: int assume "valid_date y m d \<and> safe_year y"
  then show "days_to_civil (civil_to_days y m d) = (y, m, d)" using days_civil_inverse by (simp add: civil_to_days_valid)
next
  fix n :: int assume "\<bar>n\<bar> < 2 ^ 39"
  then show "case days_to_civil n of (y, m, d) \<Rightarrow> valid_date y m d \<and> safe_year y \<and> civil_to_days y m d = n" by (rule day_has_date)
qed

theorem calendar_exact_witness: "days_to_civil (civil_to_days 2024 2 29) = (2024, 2, 29)"
proof -
  have "valid_date 2024 2 29" by (simp add: valid_date_def days_in_month_def leap_year_def)
  moreover have "safe_year 2024" by (simp add: safe_year_def)
  ultimately show ?thesis using calendar_exact by blast
qed

subsection \<open>Text\<close>

definition digit :: "int \<Rightarrow> char" where
  "digit v = char_of (nat (48 + v))"

lemma digit_is: "0 \<le> v \<Longrightarrow> v \<le> 9 \<Longrightarrow> is_digit (digit v) \<and> digit_val (digit v) = nat v"
proof -
  assume v: "0 \<le> v" "v \<le> 9"
  then have "take_bit 8 (nat (48 + v)) = nat (48 + v)" by (simp add: take_bit_nat_eq_self)
  with v show ?thesis
    by (simp add: digit_def is_digit_def digit_val_def less_eq_char_def u8_def nat_add_distrib)
qed

lemma two_digits: "write_2digits v = [digit (v div 10), digit (v mod 10)]"
  by (simp add: write_2digits_def digit_def)

lemma two_digit_range: "0 \<le> v \<Longrightarrow> v < 100 \<Longrightarrow> 0 \<le> v div 10 \<and> v div 10 \<le> 9 \<and> 0 \<le> v mod 10 \<and> v mod 10 \<le> 9" for v :: int
  by auto

lemma parse_two:
  assumes "0 \<le> v" "v < 100"
  shows "parse_2digits (digit (v div 10) # digit (v mod 10) # s) = Some v"
  using two_digit_range [OF assms] digit_is [of "v div 10"] digit_is [of "v mod 10"]
  by (simp add: parse_2digits_def)

lemma parse_four:
  assumes "0 \<le> v" "v < 10000"
  shows "parse_4digits (write_4digits v @ s) = Some v"
proof -
  have "v div 100 \<le> 99" using zdiv_mono1 [of v 9999 100] assms by simp
  then have "parse_2digits (write_2digits (v div 100) @ r) = Some (v div 100)" for r
    using assms parse_two [of "v div 100" r] by (simp add: two_digits)
  moreover have "parse_2digits (write_2digits (v mod 100) @ s) = Some (v mod 100)"
    using parse_two [of "v mod 100" s] by (simp add: two_digits)
  ultimately show ?thesis by (simp add: parse_4digits_def write_4digits_def two_digits)
qed

lemma split_micros_floor: "split_micros t = (t div 86400000000, t div 1000000 mod 86400, t mod 1000000)"
proof -
  have f: "(if a smod b < 0 then (a sdiv b - 1, a smod b + b) else (a sdiv b, a smod b)) = (a div b, a mod b)"
    if "0 < b" for a b :: int
  proof (cases "0 \<le> a")
    case True
    with that show ?thesis by (simp add: signed_divide_int_def signed_modulo_int_def sgn_if not_less)
  next
    case False
    have s: "a sdiv b = - ((- a) div b)" "a smod b = - ((- a) mod b)"
      using False that by (simp_all add: signed_divide_int_def signed_modulo_int_def sgn_if minus_mod_eq_mult_div)
    show ?thesis
    proof (cases "(- a) mod b = 0")
      case True
      then have "b dvd a" by (simp add: mod_eq_0_iff_dvd)
      moreover from this have "- a div b = - (a div b)" by (rule dvd_neg_div)
      ultimately show ?thesis using True s by simp
    next
      case False
      then have "a mod b \<noteq> 0" by (metis mod_minus_eq mod_0 minus_zero)
      moreover have "0 < (- a) mod b" using False that by (simp add: order.not_eq_order_implies_strict pos_mod_sign)
      ultimately show ?thesis using s that by (simp add: zdiv_zminus1_eq_if zmod_zminus1_eq_if)
    qed
  qed
  have "t div 1000000 div 86400 = t div 86400000000" by (simp add: zdiv_zmult2_eq [symmetric])
  then show ?thesis
    using f [of 1000000 t] f [of 86400 "t div 1000000"] by (simp add: split_micros_def Let_def split: if_splits prod.splits)
qed

lemma six_digits:
  assumes "0 \<le> v" "v < 1000000"
  shows "length (write_6digits v) = 6 \<and> list_all is_digit (write_6digits v) \<and> int (dec_val (write_6digits v)) = v"
proof -
  define a b c where "a = v div 10000" and "b = v mod 10000 div 100" and "c = v mod 10000 mod 100"
  have v: "v = 10000 * a + 100 * b + c" by (simp add: a_def b_def c_def)
  have r: "0 \<le> a" "a < 100" "0 \<le> b" "b < 100" "0 \<le> c" "c < 100"
    using assms zdiv_mono1 [of v 999999 10000] zdiv_mono1 [of "v mod 10000" 9999 100] pos_mod_bound [of 10000 v]
    by (auto simp: a_def b_def c_def pos_imp_zdiv_nonneg_iff)
  have dv: "int (digit_val (digit (x div 10))) * 10 + int (digit_val (digit (x mod 10))) = x"
    "is_digit (digit (x div 10))" "is_digit (digit (x mod 10))" if "0 \<le> x" "x < 100" for x
    using two_digit_range [OF that] digit_is [of "x div 10"] digit_is [of "x mod 10"] by simp_all
  have w: "write_6digits v = [digit (a div 10), digit (a mod 10), digit (b div 10), digit (b mod 10), digit (c div 10), digit (c mod 10)]"
    by (simp add: write_6digits_def write_4digits_def two_digits a_def b_def c_def)
  show ?thesis
    using dv [OF r(1,2)] dv [OF r(3,4)] dv [OF r(5,6)] v unfolding w by (simp add: dec_val_def)
qed

text \<open>The text up to the zone, read with any zone after it.\<close>

definition iso_head :: "int \<Rightarrow> int \<Rightarrow> int \<Rightarrow> int \<Rightarrow> int \<Rightarrow> int \<Rightarrow> int \<Rightarrow> string" where
  "iso_head y m d h mi sec us =
     write_4digits y @ ''-'' @ write_2digits m @ ''-'' @ write_2digits d @ ''T'' @
     write_2digits h @ '':'' @ write_2digits mi @ '':'' @ write_2digits sec @ ''.'' @ write_6digits us"

lemma read_iso_head:
  assumes "0 \<le> y" "y \<le> 9999" "1 \<le> m" "m \<le> 12" "1 \<le> d" "d \<le> 31" "0 \<le> h" "h \<le> 23" "0 \<le> mi" "mi \<le> 59"
    "0 \<le> sec" "sec \<le> 59" "0 \<le> us" "us < 1000000" and "zone = [] \<or> \<not> is_digit (hd zone)" "tz_offset zone = Some off"
  shows "datetime_from_string (iso_head y m d h mi sec us @ zone) =
    Some ((civil_to_days y m d * 86400 + h * 3600 + mi * 60 + sec - off) * 1000000 + us)"
proof -
  let ?s = "iso_head y m d h mi sec us @ zone"
  note six = six_digits [OF assms(13,14)]
  obtain y1 y2 y3 y4 where y4: "write_4digits y = [y1, y2, y3, y4]" by (simp add: write_4digits_def two_digits)
  have four: "parse_4digits (take 4 ?s) = Some y"
    using parse_four [of y "[]"] assms(1,2) y4 by (simp add: iso_head_def)
  have f: "field2 ?s 5 1 12 = Some m" "field2 ?s 8 1 31 = Some d" "field2 ?s 11 0 23 = Some h"
      "field2 ?s 14 0 59 = Some mi" "field2 ?s 17 0 59 = Some sec"
    using assms(3-12) by (simp_all add: field2_def substr_def iso_head_def y4 two_digits parse_two)
  have tail: "drop 19 ?s = CHR ''.'' # write_6digits us @ zone" by (simp add: iso_head_def y4 two_digits)
  have digits: "takeWhile is_digit (write_6digits us @ zone) = write_6digits us"
      "dropWhile is_digit (write_6digits us @ zone) = zone"
    using six assms(15) by (cases zone; auto simp: takeWhile_append2 dropWhile_append2 list_all_iff)+
  have frac: "iso_tail (drop 19 ?s) = (us, zone)"
    unfolding tail using six by (auto simp: iso_tail_def digits frac_micros_def Let_def)
  have "length ?s \<ge> 19" "?s ! 4 = CHR ''-''" "?s ! 7 = CHR ''-''" "?s ! 10 = CHR ''T''" "?s ! 13 = CHR '':''" "?s ! 16 = CHR '':''"
    by (simp_all add: iso_head_def y4 two_digits)
  then show ?thesis
    unfolding datetime_from_string_def using four f frac assms(16) by simp
qed

text \<open>
  C37: a timestamp survives being written and read. For every timestamp whose year has four digits, the ISO 8601 text
  that is written is read back as the same microsecond; and with \<^verbatim>\<open>+HH:MM\<close> in place of the final \<^verbatim>\<open>Z\<close>, as the
  timestamp that much earlier.
\<close>

theorem datetime_roundtrip:
  assumes "\<bar>t\<bar> < 2 ^ 63" "days_to_civil (t div 86400000000) = (y, m, d)" "0 \<le> y" "y \<le> 9999"
    and "0 \<le> hh" "hh < 100" "0 \<le> mm" "mm < 100"
  shows "datetime_from_string (to_iso8601 t) = Some t \<and>
    datetime_from_string (butlast (to_iso8601 t) @ ''+'' @ write_2digits hh @ '':'' @ write_2digits mm) =
      Some (t - (hh * 3600 + mm * 60) * 1000000)"
proof -
  define s us where "s = t div 1000000 mod 86400" and "us = t mod 1000000"
  define h mi sec where "h = s div 3600" and "mi = s mod 3600 div 60" and "sec = s mod 60"
  have s: "0 \<le> s" "s < 86400" "0 \<le> us" "us < 1000000" by (simp_all add: s_def us_def)
  have "h \<le> 23" using zdiv_mono1 [of s 86399 3600] s by (simp add: h_def)
  moreover have "mi \<le> 59" using zdiv_mono1 [of "s mod 3600" 3599 60] pos_mod_bound [of 3600 s] by (simp add: mi_def)
  moreover have "s mod 3600 mod 60 = sec" by (simp add: sec_def mod_mod_cancel)
  then have "s = h * 3600 + (mi * 60 + sec)"
    using div_mult_mod_eq [of s 3600] div_mult_mod_eq [of "s mod 3600" 60] by (simp add: h_def mi_def)
  moreover have "0 \<le> h" "0 \<le> mi" "0 \<le> sec" "sec \<le> 59"
    using s pos_mod_bound [of 60 s] by (simp_all add: h_def mi_def sec_def pos_imp_zdiv_nonneg_iff)
  ultimately have hms: "0 \<le> h" "h \<le> 23" "0 \<le> mi" "mi \<le> 59" "0 \<le> sec" "sec \<le> 59" "s = h * 3600 + mi * 60 + sec" by simp_all
  have "\<bar>t div 86400000000\<bar> < 2 ^ 39"
    using assms(1) zdiv_mono1 [of t "2 ^ 63" 86400000000] zdiv_mono1 [of "- (2 ^ 63)" t 86400000000] by simp
  then have v: "valid_date y m d" "civil_to_days y m d = t div 86400000000" using day_has_date [of "t div 86400000000"] assms(2) by simp_all
  then have md: "1 \<le> m" "m \<le> 12" "1 \<le> d" "d \<le> 31" by (auto simp: valid_date_def days_in_month_def split: if_splits)
  have iso: "to_iso8601 t = iso_head y m d h mi sec us @ ''Z''"
    using assms(2-4) by (simp add: to_iso8601_def split_micros_floor iso_head_def wrap_u32_def s_def us_def h_def mi_def sec_def)
  have "t div 1000000 = t div 86400000000 * 86400 + s"
    using div_mult_mod_eq [of "t div 1000000" 86400] by (simp add: s_def zdiv_zmult2_eq [symmetric])
  then have t: "t = (civil_to_days y m d * 86400 + h * 3600 + mi * 60 + sec) * 1000000 + us"
    using div_mult_mod_eq [of t 1000000] v(2) hms(7) by (simp add: us_def)
  note read = read_iso_head [OF assms(3,4) md hms(1-6) s(3,4)]
  have "tz_offset ''Z'' = Some 0" by (simp add: tz_offset_def)
  then have "datetime_from_string (to_iso8601 t) =
      Some ((civil_to_days y m d * 86400 + h * 3600 + mi * 60 + sec - 0) * 1000000 + us)"
    unfolding iso by (intro read) (simp_all add: is_digit_def less_eq_char_def)
  then have "datetime_from_string (to_iso8601 t) = Some t" by (simp only: diff_0_right t [symmetric])
  moreover
  let ?zone = "''+'' @ write_2digits hh @ '':'' @ write_2digits mm"
  have "tz_offset ?zone = Some (hh * 3600 + mm * 60)"
    using assms(5-8) by (simp add: tz_offset_def two_digits substr_def parse_two Let_def)
  then have "datetime_from_string (butlast (to_iso8601 t) @ ?zone) =
      Some ((civil_to_days y m d * 86400 + h * 3600 + mi * 60 + sec - (hh * 3600 + mm * 60)) * 1000000 + us)"
    using read [of ?zone "hh * 3600 + mm * 60"] by (simp add: iso butlast_append is_digit_def less_eq_char_def)
  moreover have "t - (hh * 3600 + mm * 60) * 1000000 =
      (civil_to_days y m d * 86400 + h * 3600 + mi * 60 + sec - (hh * 3600 + mm * 60)) * 1000000 + us"
    by (subst t) (simp add: algebra_simps)
  ultimately show ?thesis by simp
qed

theorem datetime_roundtrip_witness:
  "datetime_from_string (to_iso8601 1709210096123456) = Some 1709210096123456"
proof -
  have v: "valid_date 2024 2 29" and y: "safe_year 2024"
    by (simp_all add: valid_date_def days_in_month_def leap_year_def safe_year_def)
  have "civil_to_days 2024 2 29 = 1709210096123456 div 86400000000"
    by (simp add: civil_to_days_valid [OF v y] civil_day_def month_start_def march_month_def)
  then have "days_to_civil (1709210096123456 div 86400000000) = (2024, 2, 29)"
    using days_civil_inverse [OF v y] civil_to_days_valid [OF v y] by metis
  then show ?thesis using datetime_roundtrip [of 1709210096123456 2024 2 29 5 30] by simp
qed

end
