(* ===== verification/Decimal_Address.thy ===== *)
theory Decimal_Address
  imports Http_Protocol "HOL-Library.Signed_Division"
begin

unbundle bit_operations_syntax

text \<open>
  \<^verbatim>\<open>src/data/types/Decimal.h\<close> and \<^verbatim>\<open>IpAddress.h\<close>: fixed-point numbers over a 128-bit integer with their text form, and
  network addresses with subnet matching. The scale of a decimal is a template argument and so an argument here; the
  system's \<^verbatim>\<open>inet_pton\<close> and \<^verbatim>\<open>inet_ntop\<close> are arguments too.
\<close>

subsection \<open>Decimals\<close>

definition wrap_i128 :: "int \<Rightarrow> int" where
  "wrap_i128 i = (i + 2 ^ 127) mod 2 ^ 128 - 2 ^ 127"

definition compute_pow10 :: "nat \<Rightarrow> int" where
  "compute_pow10 n = 10 ^ n"

text \<open>The digits of a number, the last one first; none for zero.\<close>

function rev_digits :: "nat \<Rightarrow> string" where
  "rev_digits n = (if n = 0 then [] else char_of (48 + n mod 10) # rev_digits (n div 10))"
  by pat_completeness auto
termination by (relation "measure id") auto

declare rev_digits.simps [simp del]

definition decimal_of_int :: "nat \<Rightarrow> int \<Rightarrow> int" where
  "decimal_of_int sc i = wrap_i128 (i * compute_pow10 sc)"

definition decimal_to_int64 :: "nat \<Rightarrow> int \<Rightarrow> int" where
  "decimal_to_int64 sc raw = (raw sdiv compute_pow10 sc + 2 ^ 63) mod 2 ^ 64 - 2 ^ 63"

definition decimal_to_string :: "nat \<Rightarrow> int \<Rightarrow> string" where
  "decimal_to_string sc raw =
     (if raw = 0 then ''0'' @ (if 0 < sc then ''.'' @ replicate sc CHR ''0'' else [])
      else
        let neg = raw < 0;
            val = (if neg then wrap_i128 (- raw) else raw);
            digits = rev_digits (nat val);
            digits = digits @ replicate (sc + 1 - length digits) CHR ''0'';
            int_digits = length digits - sc
        in (if neg then ''-'' else []) @ take int_digits (rev digits) @
           (if 0 < sc then ''.'' @ drop int_digits (rev digits) else []))"

fun int_loop :: "int \<Rightarrow> bool \<Rightarrow> string \<Rightarrow> int \<times> bool \<times> string" where
  "int_loop n has [] = (n, has, [])"
| "int_loop n has (c # s) =
     (if is_digit c then int_loop (wrap_i128 (n * 10 + int (digit_val c))) True s else (n, has, c # s))"

fun frac_loop :: "nat \<Rightarrow> int \<Rightarrow> nat \<Rightarrow> string \<Rightarrow> int \<times> nat \<times> string" where
  "frac_loop sc n k [] = (n, k, [])"
| "frac_loop sc n k (c # s) =
     (if is_digit c
      then if k < sc then frac_loop sc (wrap_i128 (n * 10 + int (digit_val c))) (k + 1) s else frac_loop sc n k s
      else (n, k, c # s))"

definition decimal_from_string :: "nat \<Rightarrow> string \<Rightarrow> int option" where
  "decimal_from_string sc s =
     (if s = [] then None
      else
        let neg = hd s = CHR ''-'';
            body = (if neg \<or> hd s = CHR ''+'' then tl s else s)
        in if body = [] then None
           else (case int_loop 0 False body of
             (integer_part, has_integer, rest) \<Rightarrow>
               (case (if rest \<noteq> [] \<and> hd rest = CHR ''.'' then frac_loop sc 0 0 (tl rest) else (0, 0, rest)) of
                  (frac_part, frac_digits, rest) \<Rightarrow>
                    if \<not> has_integer \<and> frac_digits = 0 then None
                    else if rest \<noteq> [] then None
                    else
                      let frac_part = wrap_i128 (frac_part * 10 ^ (sc - frac_digits));
                          total = wrap_i128 (integer_part * compute_pow10 sc + frac_part)
                      in Some (if neg then wrap_i128 (- total) else total))))"

text \<open>\<^verbatim>\<open>Decimal(std::string_view)\<close>: zero for a text that is no number.\<close>

definition decimal_of_string :: "nat \<Rightarrow> string \<Rightarrow> int" where
  "decimal_of_string sc s = (case decimal_from_string sc s of None \<Rightarrow> 0 | Some raw \<Rightarrow> raw)"

definition decimal_add :: "int \<Rightarrow> int \<Rightarrow> int" where
  "decimal_add a b = wrap_i128 (a + b)"

definition decimal_sub :: "int \<Rightarrow> int \<Rightarrow> int" where
  "decimal_sub a b = wrap_i128 (a - b)"

definition decimal_neg :: "int \<Rightarrow> int" where
  "decimal_neg a = wrap_i128 (- a)"

definition decimal_mul :: "nat \<Rightarrow> int \<Rightarrow> int \<Rightarrow> int" where
  "decimal_mul sc a b = wrap_i128 (a * b) sdiv compute_pow10 sc"

text \<open>Division by zero is undefined: \<open>None\<close>.\<close>

definition decimal_div :: "nat \<Rightarrow> int \<Rightarrow> int \<Rightarrow> int option" where
  "decimal_div sc a b = (if b = 0 then None else Some (wrap_i128 (wrap_i128 (a * compute_pow10 sc) sdiv b)))"

subsection \<open>Network addresses\<close>

record ip_address =
  ip_bytes :: "byte list"
  ip_version :: nat

definition ip_of_u32 :: "32 word \<Rightarrow> ip_address" where
  "ip_of_u32 w =
     \<lparr>ip_bytes = [ucast (drop_bit 24 w AND 0xFF), ucast (drop_bit 16 w AND 0xFF), ucast (drop_bit 8 w AND 0xFF), ucast (w AND 0xFF)] @
                 replicate 12 0, ip_version = 4\<rparr>"

definition ip_of_quad :: "byte \<Rightarrow> byte \<Rightarrow> byte \<Rightarrow> byte \<Rightarrow> ip_address" where
  "ip_of_quad a b c d = \<lparr>ip_bytes = [a, b, c, d] @ replicate 12 0, ip_version = 4\<rparr>"

definition ip_of_bytes :: "byte list \<Rightarrow> ip_address" where
  "ip_of_bytes bs = \<lparr>ip_bytes = bs, ip_version = 6\<rparr>"

definition ip_byte_count :: "ip_address \<Rightarrow> nat" where
  "ip_byte_count ip = (if ip_version ip = 4 then 4 else 16)"

definition ip_is_loopback :: "ip_address \<Rightarrow> bool" where
  "ip_is_loopback ip =
     (if ip_version ip = 4 then ip_bytes ip ! 0 = 127
      else list_all (\<lambda>b. b = 0) (take 15 (ip_bytes ip)) \<and> ip_bytes ip ! 15 = 1)"

definition ip_is_private :: "ip_address \<Rightarrow> bool" where
  "ip_is_private ip =
     (let b = ip_bytes ip in
      if ip_version ip = 4
      then b ! 0 = 10 \<or> b ! 0 = 172 \<and> 16 \<le> b ! 1 \<and> b ! 1 \<le> 31 \<or> b ! 0 = 192 \<and> b ! 1 = 168
      else b ! 0 AND 0xFE = 0xFC)"

text \<open>\<open>pton v s\<close> is \<^verbatim>\<open>inet_pton\<close> for version \<open>v\<close>: the bytes of the address, if \<open>s\<close> is one.\<close>

definition before_slash :: "string \<Rightarrow> string" where
  "before_slash s = takeWhile (\<lambda>c. c \<noteq> CHR ''/'') s"

definition ip_from_string :: "(nat \<Rightarrow> string \<Rightarrow> byte list option) \<Rightarrow> string \<Rightarrow> ip_address option" where
  "ip_from_string pton s =
     (if s = [] then None
      else
        let s = before_slash s;
            buf = takeWhile (\<lambda>c. u8 c \<noteq> 0) s
        in if 64 \<le> length s then None
           else if CHR '':'' \<notin> set s
           then map_option (\<lambda>b. \<lparr>ip_bytes = b @ replicate 12 0, ip_version = 4\<rparr>) (pton 4 buf)
           else map_option (\<lambda>b. \<lparr>ip_bytes = b, ip_version = 6\<rparr>) (pton 6 buf))"

definition ip_to_string :: "(nat \<Rightarrow> byte list \<Rightarrow> string option) \<Rightarrow> ip_address \<Rightarrow> string" where
  "ip_to_string ntop ip =
     (case ntop (ip_version ip) (take (ip_byte_count ip) (ip_bytes ip)) of
        Some s \<Rightarrow> s
      | None \<Rightarrow> if ip_version ip = 4 then ''0.0.0.0'' else ''::'')"

text \<open>The number after the slash, in an unsigned 32-bit variable.\<close>

fun prefix_loop :: "nat \<Rightarrow> string \<Rightarrow> nat option" where
  "prefix_loop n [] = Some n"
| "prefix_loop n (c # s) = (if is_digit c then prefix_loop ((n * 10 + digit_val c) mod 2 ^ 32) s else None)"

definition prefix_equal :: "nat \<Rightarrow> byte list \<Rightarrow> byte list \<Rightarrow> bool" where
  "prefix_equal bits a b =
     (let full_bytes = bits div 8;
          rem_bits = bits mod 8
      in if take full_bytes a \<noteq> take full_bytes b then False
         else if 0 < rem_bits
         then (let mask = NOT (push_bit (8 - rem_bits) 1 - 1) :: byte
               in a ! full_bytes AND mask = b ! full_bytes AND mask)
         else True)"

definition in_subnet :: "(nat \<Rightarrow> string \<Rightarrow> byte list option) \<Rightarrow> ip_address \<Rightarrow> string \<Rightarrow> bool" where
  "in_subnet pton ip cidr =
     (if CHR ''/'' \<notin> set cidr then ip_from_string pton cidr = Some ip
      else
        (case ip_from_string pton (before_slash cidr) of
           None \<Rightarrow> False
         | Some net \<Rightarrow>
             if ip_version net \<noteq> ip_version ip then False
             else
               (case prefix_loop 0 (drop (length (before_slash cidr) + 1) cidr) of
                  None \<Rightarrow> False
                | Some prefix_bits \<Rightarrow>
                    if (if ip_version ip = 4 then 32 else 128) < prefix_bits then False
                    else prefix_equal prefix_bits (ip_bytes ip) (ip_bytes net))))"

definition ip_less :: "ip_address \<Rightarrow> ip_address \<Rightarrow> bool" where
  "ip_less a b \<longleftrightarrow>
     ip_version a < ip_version b \<or>
     ip_version a = ip_version b \<and> lexordp (<) (ip_bytes a) (ip_bytes b)"

end
