(* ===== verification/Decimal_Address_Proofs.thy ===== *)
theory Decimal_Address_Proofs
  imports Decimal_Address Http_Response
begin

unbundle bit_operations_syntax

text \<open>
  Decimals survive being written and read, digits beyond the scale are cut off, and subnet matching compares exactly the
  bits of the prefix.
\<close>

subsection \<open>Decimals\<close>

lemma wrap_i128_id: "- (2 ^ 127) \<le> i \<Longrightarrow> i < 2 ^ 127 \<Longrightarrow> wrap_i128 i = i"
  by (simp add: wrap_i128_def)

lemma dec_val_append: "dec_val (xs @ ys) = dec_val xs * 10 ^ length ys + dec_val ys"
  using foldl_dec [of "dec_val xs" ys] by (simp add: dec_val_def)

lemma dec_val_Cons: "dec_val (c # xs) = digit_val c * 10 ^ length xs + dec_val xs"
  using dec_val_append [of "[c]" xs] by (simp add: dec_val_def)

text \<open>One step of reading a numeral from the left.\<close>

lemma horner:
  "(n * 10 + digit_val c) * 10 ^ length ds + dec_val ds = n * 10 ^ length (c # ds) + dec_val (c # ds)"
  by (simp add: dec_val_Cons algebra_simps)

lemma horner_less:
  assumes "n * 10 ^ length (c # ds) + dec_val (c # ds) < b"
  shows "n * 10 + digit_val c < b"
proof -
  have "(n * 10 + digit_val c) * 1 \<le> (n * 10 + digit_val c) * 10 ^ length ds" by (intro mult_le_mono) simp_all
  also have "\<dots> \<le> n * 10 ^ length (c # ds) + dec_val (c # ds)" unfolding horner [symmetric] by (rule le_add1)
  finally show ?thesis using assms by simp
qed

lemma wrap_nat: "n < 2 ^ 127 \<Longrightarrow> wrap_i128 (int n) = int n \<and> wrap_i128 (- int n) = - int n"
proof -
  assume "n < 2 ^ 127"
  then have "int n < 2 ^ 127" by (metis of_nat_less_iff of_nat_numeral of_nat_power)
  then show ?thesis using wrap_i128_id [of "int n"] wrap_i128_id [of "- int n"] by simp
qed

lemma horner_wrap:
  assumes "n * 10 ^ length (c # ds) + dec_val (c # ds) < 2 ^ 127"
  shows "wrap_i128 (int n * 10 + int (digit_val c)) = int (n * 10 + digit_val c)"
  using wrap_nat [OF horner_less [OF assms]] by simp

lemma digit_code: "k < 10 \<Longrightarrow> is_digit (char_of (48 + k)) \<and> digit_val (char_of (48 + k)) = k" for k :: nat
proof -
  assume k: "k < 10"
  then have "take_bit 8 (48 + k) = 48 + k" by (simp add: take_bit_nat_eq_self)
  with k show ?thesis
    by (simp add: is_digit_def digit_val_def less_eq_char_def u8_def)
qed

lemma rev_digits_value: "list_all is_digit (rev_digits n) \<and> dec_val (rev (rev_digits n)) = n"
proof (induction n rule: rev_digits.induct)
  case (1 n)
  show ?case
  proof (cases "n = 0")
    case True
    then show ?thesis by (simp add: rev_digits.simps dec_val_def)
  next
    case False
    then show ?thesis
      using 1 digit_code [of "n mod 10"] by (simp add: rev_digits.simps [of n] dec_val_snoc)
  qed
qed

lemma int_loop_digits:
  assumes "list_all is_digit ds" "rest = [] \<or> \<not> is_digit (hd rest)" "n * 10 ^ length ds + dec_val ds < 2 ^ 127"
  shows "int_loop (int n) h (ds @ rest) = (int (n * 10 ^ length ds + dec_val ds), h \<or> ds \<noteq> [], rest)"
  using assms
proof (induction ds arbitrary: n h)
  case Nil
  then show ?case by (cases rest) (auto simp: dec_val_def)
next
  case (Cons c ds)
  note e = horner [of n c ds] and w = horner_wrap [OF Cons.prems(3)]
  have "int_loop (int n) h ((c # ds) @ rest) = int_loop (int (n * 10 + digit_val c)) True (ds @ rest)"
    using Cons.prems(1) w by simp
  also have "\<dots> = (int ((n * 10 + digit_val c) * 10 ^ length ds + dec_val ds), True \<or> ds \<noteq> [], rest)"
    by (rule Cons.IH) (use Cons.prems e in auto)
  finally show ?case unfolding e by simp
qed

lemma frac_loop_skip: "list_all is_digit ds \<Longrightarrow> rest = [] \<or> \<not> is_digit (hd rest) \<Longrightarrow> sc \<le> k \<Longrightarrow>
  frac_loop sc n k (ds @ rest) = (n, k, rest)"
proof (induction ds)
  case Nil
  then show ?case by (cases rest) auto
qed auto

lemma frac_loop_digits:
  assumes "list_all is_digit ds" "rest = [] \<or> \<not> is_digit (hd rest)"
    "n * 10 ^ length (take (sc - k) ds) + dec_val (take (sc - k) ds) < 2 ^ 127"
  shows "frac_loop sc (int n) k (ds @ rest) =
    (int (n * 10 ^ length (take (sc - k) ds) + dec_val (take (sc - k) ds)), k + length (take (sc - k) ds), rest)"
  using assms
proof (induction ds arbitrary: n k)
  case Nil
  then show ?case by (cases rest) (auto simp: dec_val_def)
next
  case (Cons c ds)
  show ?case
  proof (cases "k < sc")
    case False
    then show ?thesis using frac_loop_skip [OF Cons.prems(1,2), of sc k] by (simp add: dec_val_def)
  next
    case True
    let ?ds = "take (sc - (k + 1)) ds"
    have t: "take (sc - k) (c # ds) = c # ?ds" using True by (simp add: take_Cons' numeral_eq_Suc)
    note e = horner [of n c ?ds] and w = horner_wrap [OF Cons.prems(3) [unfolded t]]
    have "frac_loop sc (int n) k ((c # ds) @ rest) = frac_loop sc (int (n * 10 + digit_val c)) (k + 1) (ds @ rest)"
      using Cons.prems(1) w True by simp
    also have "\<dots> = (int ((n * 10 + digit_val c) * 10 ^ length ?ds + dec_val ?ds), k + 1 + length ?ds, rest)"
      by (rule Cons.IH) (use Cons.prems e t in auto)
    finally show ?thesis unfolding e t by simp
  qed
qed

text \<open>What a number with an optional sign and fraction is read as: the digits beyond the scale are cut off.\<close>

definition decimal_value :: "nat \<Rightarrow> string \<Rightarrow> string \<Rightarrow> nat" where
  "decimal_value sc ip fp = dec_val ip * 10 ^ sc + dec_val (take sc fp) * 10 ^ (sc - length fp)"

lemma digit_not_sign: "is_digit c \<Longrightarrow> c \<noteq> CHR ''-'' \<and> c \<noteq> CHR ''+'' \<and> c \<noteq> CHR ''.''"
  by (auto simp: is_digit_def less_eq_char_def)

lemma decimal_read:
  assumes "list_all is_digit ip" "ip \<noteq> []" "list_all is_digit fp" "decimal_value sc ip fp < 2 ^ 127"
    and frac: "frac = ''.'' @ fp \<or> frac = [] \<and> fp = []" and sign: "sign \<in> {[], ''-'', ''+''}"
  shows "decimal_from_string sc (sign @ ip @ frac) =
    Some (if sign = ''-'' then - int (decimal_value sc ip fp) else int (decimal_value sc ip fp))"
proof -
  let ?v = "decimal_value sc ip fp" and ?fp = "take sc fp"
  obtain c cs where ip: "ip = c # cs" using assms(2) by (cases ip) auto
  have c: "is_digit c" using assms(1) ip by simp
  have "dec_val ip * 1 \<le> dec_val ip * 10 ^ sc" "dec_val ?fp * 1 \<le> dec_val ?fp * 10 ^ (sc - length fp)"
    by (intro mult_le_mono; simp)+
  then have b: "dec_val ip < 2 ^ 127" "dec_val ?fp < 2 ^ 127" "dec_val ?fp * 10 ^ (sc - length fp) < 2 ^ 127"
    using assms(4) unfolding decimal_value_def by linarith+
  have nd: "frac = [] \<or> \<not> is_digit (hd frac)" using frac by (auto simp: is_digit_def less_eq_char_def)
  have i: "int_loop 0 False (ip @ frac) = (int (dec_val ip), True, frac)"
    using int_loop_digits [of ip frac 0 False] assms(1,2) nd b(1) by simp
  have f: "(if frac \<noteq> [] \<and> hd frac = CHR ''.'' then frac_loop sc 0 0 (tl frac) else (0, 0, frac)) =
      (int (dec_val ?fp), length ?fp, [])"
    using frac frac_loop_digits [of fp "[]" 0 sc 0] assms(3) b(2) by (auto simp: dec_val_def)
  have len: "sc - length ?fp = sc - length fp" by simp
  have fr: "wrap_i128 (int (dec_val ?fp) * 10 ^ (sc - length ?fp)) = int (dec_val ?fp * 10 ^ (sc - length fp))"
    using wrap_nat [OF b(3)] unfolding len by simp
  have t: "wrap_i128 (int (dec_val ip) * compute_pow10 sc + int (dec_val ?fp * 10 ^ (sc - length fp))) = int ?v"
    using wrap_nat [OF assms(4)] by (simp add: decimal_value_def compute_pow10_def)
  have body: "(if hd (sign @ ip @ frac) = CHR ''-'' \<or> hd (sign @ ip @ frac) = CHR ''+'' then tl (sign @ ip @ frac) else sign @ ip @ frac) = ip @ frac"
    and neg: "hd (sign @ ip @ frac) = CHR ''-'' \<longleftrightarrow> sign = ''-''"
    using sign digit_not_sign [OF c] by (auto simp: ip)
  show ?thesis
    unfolding decimal_from_string_def Let_def neg body [unfolded neg]
    using i f fr t wrap_nat [OF assms(4)] assms(2) by simp
qed

text \<open>
  C38: a fixed-point number survives being written and read, whatever its scale: every raw value but the least one of the
  128-bit type, whose negation does not exist. The text has exactly as many digits after the point as the scale says.
\<close>

theorem decimal_roundtrip:
  assumes "\<bar>raw\<bar> < 2 ^ 127"
  shows "decimal_from_string sc (decimal_to_string sc raw) = Some raw \<and>
    (0 < sc \<longrightarrow> (\<exists>ip fp. decimal_to_string sc raw = ip @ ''.'' @ fp \<and> length fp = sc \<and> list_all is_digit fp))"
proof -
  define n where "n = nat \<bar>raw\<bar>"
  define sign where "sign = (if raw < 0 then ''-'' else [])"
  define digits where "digits = (if raw = 0 then replicate (sc + 1) CHR ''0''
      else rev_digits n @ replicate (sc + 1 - length (rev_digits n)) CHR ''0'')"
  define ip fp where "ip = take (length digits - sc) (rev digits)" and "fp = drop (length digits - sc) (rev digits)"
  define frac where "frac = (if 0 < sc then ''.'' @ fp else [])"
  have z: "dec_val (replicate k CHR ''0'') = 0" "list_all is_digit (replicate k CHR ''0'')" for k
    by (induction k) (auto simp: dec_val_Cons digit_val_def is_digit_def less_eq_char_def dec_val_def list_all_iff)
  have d: "list_all is_digit (rev digits)" "dec_val (rev digits) = n" "sc < length digits"
    using rev_digits_value [of n] z [of 1] z by (auto simp: digits_def dec_val_append n_def)
  have parts: "rev digits = ip @ fp" "length fp = sc" "ip \<noteq> []" using d(3) by (auto simp: ip_def fp_def)
  then have dig: "list_all is_digit ip" "list_all is_digit fp" using d(1) by simp_all
  have v: "decimal_value sc ip fp = n" using d(2) parts(1,2) by (simp add: decimal_value_def dec_val_append)
  have n: "n < 2 ^ 127" using assms by (simp add: n_def nat_less_iff)
  have "\<bar>raw\<bar> = int n" by (simp add: n_def)
  then have raw: "(if sign = ''-'' then - int n else int n) = raw" by (auto simp: sign_def)
  have sg: "sign \<in> {[], ''-'', ''+''}" by (simp add: sign_def)
  have str: "decimal_to_string sc raw = sign @ ip @ frac"
  proof (cases "raw = 0")
    case True
    then have "ip = ''0''" "fp = replicate sc CHR ''0''"
      unfolding ip_def fp_def digits_def rev_replicate if_P [OF True] by (simp_all add: replicate_add [of 1 sc, simplified])
    with True show ?thesis by (simp add: decimal_to_string_def sign_def frac_def)
  next
    case False
    have "wrap_i128 (- raw) = - raw" using assms by (intro wrap_i128_id) auto
    then have "nat (if raw < 0 then wrap_i128 (- raw) else raw) = n" by (simp add: n_def)
    with False show ?thesis
      by (simp add: decimal_to_string_def sign_def ip_def fp_def frac_def digits_def Let_def)
  qed
  have "frac = ''.'' @ fp \<or> frac = [] \<and> fp = []" using parts(2) by (auto simp: frac_def)
  then have "decimal_from_string sc (sign @ ip @ frac) = Some raw"
    using decimal_read [OF dig(1) parts(3) dig(2), of sc frac sign] sg unfolding v raw using n by blast
  moreover have "sign @ ip @ frac = (sign @ ip) @ ''.'' @ fp" if "0 < sc" using that by (simp add: frac_def)
  ultimately show ?thesis using str parts(2) dig(2) by metis
qed

theorem decimal_roundtrip_witness:
  "decimal_from_string 4 (decimal_to_string 4 (- 12345)) = Some (- 12345) \<and> decimal_to_string 4 (- 12345) = ''-1.2345''"
proof
  show "decimal_from_string 4 (decimal_to_string 4 (- 12345)) = Some (- 12345)"
    using decimal_roundtrip [of "- 12345" 4] by simp
  have "rev_digits 12345 = ''54321''"
    by (simp add: rev_digits.simps char_of_def bit_0)
  then show "decimal_to_string 4 (- 12345) = ''-1.2345''"
    by (simp add: decimal_to_string_def wrap_i128_def Let_def)
qed

subsection \<open>Subnets\<close>

text \<open>Bit \<open>i\<close> of an address, counted from the left.\<close>

definition address_bit :: "byte list \<Rightarrow> nat \<Rightarrow> bool" where
  "address_bit bs i = bit (bs ! (i div 8)) (7 - i mod 8)"

lemma subnet_mask_bit: "0 < r \<Longrightarrow> r < 8 \<Longrightarrow> j < 8 \<Longrightarrow> bit (NOT (push_bit (8 - r) 1 - 1) :: byte) j \<longleftrightarrow> 8 - r \<le> j"
proof -
  assume r: "0 < r" "r < 8" "j < 8"
  have "(push_bit (8 - r) 1 - 1 :: byte) = mask (8 - r)" by (simp add: mask_eq_exp_minus_1)
  with r show ?thesis by (auto simp: bit_not_iff bit_mask_iff)
qed

lemma masked_equal:
  fixes a b :: byte
  assumes "0 < r" "r < 8"
  shows "(a AND NOT (push_bit (8 - r) 1 - 1) = b AND NOT (push_bit (8 - r) 1 - 1)) \<longleftrightarrow> (\<forall>k<r. bit a (7 - k) = bit b (7 - k))"
proof -
  have "(a AND NOT (push_bit (8 - r) 1 - 1) = b AND NOT (push_bit (8 - r) 1 - 1)) \<longleftrightarrow> (\<forall>j<8. 8 - r \<le> j \<longrightarrow> bit a j = bit b j)"
    using subnet_mask_bit [OF assms] by (auto simp: bit_eq_iff bit_and_iff)
  also have "\<dots> \<longleftrightarrow> (\<forall>k<r. bit a (7 - k) = bit b (7 - k))"
  proof safe
    fix k assume h: "\<forall>j<8. 8 - r \<le> j \<longrightarrow> bit a j = bit b j" "k < r"
    have "7 - k < 8" "8 - r \<le> 7 - k" using h(2) assms by arith+
    with h(1) show "bit a (7 - k) \<Longrightarrow> bit b (7 - k)" "bit b (7 - k) \<Longrightarrow> bit a (7 - k)" by blast+
  next
    fix j assume h: "\<forall>k<r. bit a (7 - k) = bit b (7 - k)" "j < 8" "8 - r \<le> j"
    have "7 - j < r" "7 - (7 - j) = j" using h assms by arith+
    with h(1) show "bit a j \<Longrightarrow> bit b j" "bit b j \<Longrightarrow> bit a j" by metis+
  qed
  finally show ?thesis .
qed

lemma byte_eq_bits: "(a = b) \<longleftrightarrow> (\<forall>k<8. bit a (7 - k) = bit b (7 - k))" for a b :: byte
proof
  assume h: "\<forall>k<8. bit a (7 - k) = bit b (7 - k)"
  show "a = b"
  proof (rule bit_word_eqI)
    fix n assume "n < LENGTH(8)"
    then have "7 - n < 8" "7 - (7 - n) = n" by auto
    with h show "bit a n = bit b n" by metis
  qed
qed simp

lemma all_less_split: "(\<forall>i<m + k. P i) \<longleftrightarrow> (\<forall>i<m. P i) \<and> (\<forall>j<k. P (m + j))" for m k :: nat
proof safe
  fix i assume h: "\<forall>i<m. P i" "\<forall>j<k. P (m + j)" "i < m + k"
  show "P i"
  proof (cases "i < m")
    case False
    with h(3) have "i - m < k" "i = m + (i - m)" by arith+
    with h(2) show ?thesis by metis
  qed (use h in blast)
qed simp_all

lemma prefix_equal_bits:
  assumes "length a = length b" "bits \<le> 8 * length a"
  shows "prefix_equal bits a b \<longleftrightarrow> (\<forall>i<bits. address_bit a i = address_bit b i)"
proof -
  define f r where "f = bits div 8" and "r = bits mod 8"
  have bits: "bits = 8 * f + r" and r: "r < 8" by (simp_all add: f_def r_def)
  have len: "f \<le> length a" "0 < r \<Longrightarrow> f < length a" using assms(2) bits by arith+
  have "take f a = take f b \<longleftrightarrow> (\<forall>j<f. a ! j = b ! j)"
    using len(1) assms(1) by (simp add: list_eq_iff_nth_eq)
  also have "\<dots> \<longleftrightarrow> (\<forall>i<8 * f. address_bit a i = address_bit b i)"
  proof
    assume "\<forall>j<f. a ! j = b ! j"
    then show "\<forall>i<8 * f. address_bit a i = address_bit b i"
      by (auto simp: address_bit_def less_mult_imp_div_less mult.commute)
  next
    assume h: "\<forall>i<8 * f. address_bit a i = address_bit b i"
    show "\<forall>j<f. a ! j = b ! j"
    proof (intro allI impI)
      fix j assume j: "j < f"
      have "bit (a ! j) (7 - k) = bit (b ! j) (7 - k)" if "k < 8" for k
      proof -
        have "8 * j + k < 8 * f" using j that by arith
        with h have "address_bit a (8 * j + k) = address_bit b (8 * j + k)" by blast
        with that show ?thesis by (simp add: address_bit_def)
      qed
      then show "a ! j = b ! j" using byte_eq_bits by blast
    qed
  qed
  finally have full: "take f a = take f b \<longleftrightarrow> (\<forall>i<8 * f. address_bit a i = address_bit b i)" .
  have "(\<forall>i<bits. address_bit a i = address_bit b i) \<longleftrightarrow>
      (\<forall>i<8 * f. address_bit a i = address_bit b i) \<and> (\<forall>k<r. address_bit a (8 * f + k) = address_bit b (8 * f + k))"
    unfolding bits by (rule all_less_split)
  moreover have "(\<forall>k<r. address_bit a (8 * f + k) = address_bit b (8 * f + k)) \<longleftrightarrow>
      (\<forall>k<r. bit (a ! f) (7 - k) = bit (b ! f) (7 - k))"
    using r by (auto simp: address_bit_def)
  ultimately show ?thesis
    using full masked_equal [of r] r by (simp add: prefix_equal_def Let_def f_def [symmetric] r_def [symmetric])
qed

lemma prefix_loop_digits:
  "list_all is_digit ds \<Longrightarrow> prefix_loop (n mod 2 ^ 32) ds = Some ((n * 10 ^ length ds + dec_val ds) mod 2 ^ 32)"
proof (induction ds arbitrary: n)
  case (Cons c ds)
  have m: "((n mod 2 ^ 32) * 10 + digit_val c) mod 2 ^ 32 = (n * 10 + digit_val c) mod 2 ^ 32"
    by (metis mod_add_left_eq mod_mult_left_eq)
  have "prefix_loop (n mod 2 ^ 32) (c # ds) = prefix_loop ((n * 10 + digit_val c) mod 2 ^ 32) ds"
    using Cons.prems by (simp only: prefix_loop.simps list.pred_inject m if_True)
  also have "\<dots> = Some (((n * 10 + digit_val c) * 10 ^ length ds + dec_val ds) mod 2 ^ 32)"
    by (rule Cons.IH) (use Cons.prems in simp)
  finally show ?case unfolding horner .
qed (simp add: dec_val_def)



end
