(* ===== verification/Spec2Isabelle.thy ===== *)
theory Spec2Isabelle
  imports Http1_Parser_Proofs Router_Proofs Static_Files WebSocket_Echo WebSocket_Handshake Auth_Guards Middleware_Proofs Uuid_Generator_Proofs Http1_Liveness Mem_Store_Proofs Redis_Client_Proofs Wal_Log_Proofs Calendar_Proofs Decimal_Address_Proofs
begin

text \<open>
  \<^bold>\<open>Aegon\<close> is a C++23 server framework. This development models its core by shallow embedding and
  proves what makes it correct. Placeholder header.
\<close>

end
